(* ===== verification/Bridle_Prelude.thy ===== *)
theory Bridle_Prelude
  imports Main "HOL-Library.Word" "HOL-Library.Char_ord" "HOL-Library.List_Lexorder"
    "HOL-Library.Sublist"
begin

text \<open>
  Shared vocabulary of the development: machine integers, byte strings, the few
  operations of the Rust standard library that several components use, and the generic
  lemmas about them. A Rust \<^verbatim>\<open>String\<close> is its UTF-8 byte sequence, written as a
  \<^typ>\<open>string\<close> (one \<^typ>\<open>char\<close> per byte), so that \<^verbatim>\<open>str::len\<close> is \<^const>\<open>length\<close>
  and the order of a \<^verbatim>\<open>BTreeSet<String>\<close> is the lexicographic order of bytes.
  A \<^verbatim>\<open>BTreeSet\<close> is the strictly ascending list of its elements in iteration order.
  Fallible code returns \<open>'e + 'a\<close>, with \<open>Inl\<close> for the error.
\<close>

type_synonym u8 = "8 word"
type_synonym u16 = "16 word"
type_synonym u32 = "32 word"
type_synonym u64 = "64 word"
type_synonym bytes = "u8 list"

named_theorems result_simps \<open>case analysis of \<open>Inl\<close>/\<open>Inr\<close> results\<close>
named_theorems encoding_simps \<open>lengths and injectivity of the byte encodings\<close>

subsection \<open>Results\<close>

definition is_ok :: "'e + 'a \<Rightarrow> bool" where
  "is_ok r = (case r of Inl _ \<Rightarrow> False | Inr _ \<Rightarrow> True)"

lemma is_ok_simps [simp, result_simps]: "is_ok (Inr x)" "\<not> is_ok (Inl e)"
  by (simp_all add: is_ok_def)

lemma is_ok_iff [result_simps]: "is_ok r \<longleftrightarrow> (\<exists>x. r = Inr x)"
  by (cases r) simp_all

subsection \<open>Strings and bytes\<close>

definition str_bytes :: "string \<Rightarrow> bytes" where
  "str_bytes s = map of_char s"

definition split_once :: "char \<Rightarrow> string \<Rightarrow> (string \<times> string) option" where
  "split_once c s =
     (if c \<in> set s
      then Some (takeWhile (\<lambda>x. x \<noteq> c) s, tl (dropWhile (\<lambda>x. x \<noteq> c) s))
      else None)"

definition strip_suffix_char :: "char \<Rightarrow> string \<Rightarrow> string option" where
  "strip_suffix_char c s = (if s \<noteq> [] \<and> last s = c then Some (butlast s) else None)"

definition is_ascii_digit :: "char \<Rightarrow> bool" where
  "is_ascii_digit c \<longleftrightarrow> 48 \<le> (of_char c :: nat) \<and> (of_char c :: nat) \<le> 57"

definition is_ascii_alphabetic :: "char \<Rightarrow> bool" where
  "is_ascii_alphabetic c \<longleftrightarrow> (65 \<le> (of_char c :: nat) \<and> (of_char c :: nat) \<le> 90) \<or>
     (97 \<le> (of_char c :: nat) \<and> (of_char c :: nat) \<le> 122)"

definition is_ascii_alphanumeric :: "char \<Rightarrow> bool" where
  "is_ascii_alphanumeric c \<longleftrightarrow> is_ascii_digit c \<or> is_ascii_alphabetic c"

definition le_bytes :: "nat \<Rightarrow> u64 \<Rightarrow> bytes" where
  "le_bytes n w = map (\<lambda>i. ucast (drop_bit (8 * i) w)) [0..<n]"

definition to_le_bytes :: "u64 \<Rightarrow> bytes" where
  "to_le_bytes w = le_bytes 8 w"

lemma str_bytes_Nil [simp]: "str_bytes [] = []"
  by (simp add: str_bytes_def)

lemma str_bytes_append [simp]: "str_bytes (s @ t) = str_bytes s @ str_bytes t"
  by (simp add: str_bytes_def)

lemma length_str_bytes [simp, encoding_simps]: "length (str_bytes s) = length s"
  by (simp add: str_bytes_def)

lemma of_char_word8_inj: "(of_char c :: u8) = of_char d \<longleftrightarrow> c = d"
proof
  assume eq: "(of_char c :: u8) = of_char d"
  have nat: "unat (of_char x :: u8) = (of_char x :: nat)" for x :: char
  proof -
    have "(of_char x :: u8) = of_nat (of_char x)"
      by (simp add: of_char_def flip: of_nat_of_char)
    moreover have "(of_char x :: nat) < 256"
      by (rule nat_of_char_less_256)
    ultimately show ?thesis
      by (simp add: unsigned_of_nat take_bit_nat_eq_self)
  qed
  from eq have "(of_char c :: nat) = of_char d"
    by (metis nat)
  then show "c = d" by simp
qed simp

lemma str_bytes_inj [simp, encoding_simps]: "str_bytes s = str_bytes t \<longleftrightarrow> s = t"
  unfolding str_bytes_def
  by (rule inj_map_eq_map) (auto intro: injI simp: of_char_word8_inj)

lemma length_le_bytes [simp, encoding_simps]: "length (le_bytes n w) = n"
  by (simp add: le_bytes_def)

lemma length_to_le_bytes [simp, encoding_simps]: "length (to_le_bytes w) = 8"
  by (simp add: to_le_bytes_def)

lemma bit_le_bytes:
  "i < n \<Longrightarrow> j < 8 \<Longrightarrow> bit (le_bytes n w ! i) j = bit w (8 * i + j)"
  by (simp add: le_bytes_def bit_ucast_iff bit_drop_bit_eq)

lemma to_le_bytes_inj [simp, encoding_simps]: "to_le_bytes v = to_le_bytes w \<longleftrightarrow> v = w"
proof
  assume eq: "to_le_bytes v = to_le_bytes w"
  show "v = w"
  proof (rule bit_word_eqI)
    fix n :: nat assume "n < LENGTH(64)"
    then have "n div 8 < 8" and "n mod 8 < 8" by simp_all
    then have "bit v (8 * (n div 8) + n mod 8) = bit w (8 * (n div 8) + n mod 8)"
      using eq by (metis bit_le_bytes to_le_bytes_def)
    then show "bit v n = bit w n" by simp
  qed
qed simp

lemma split_once_sep: "c \<notin> set s \<Longrightarrow> split_once c (s @ c # t) = Some (s, t)"
  unfolding split_once_def by (subst takeWhile_append2, force, subst dropWhile_append2) auto

lemma split_once_SomeD:
  assumes "split_once c s = Some (a, b)"
  shows "s = a @ c # b \<and> c \<notin> set a"
proof -
  let ?P = "\<lambda>x. x \<noteq> c"
  from assms have "c \<in> set s" and ab: "a = takeWhile ?P s" "b = tl (dropWhile ?P s)"
    by (auto simp: split_once_def split: if_splits)
  then have ne: "dropWhile ?P s \<noteq> []" by simp
  with hd_dropWhile [of ?P s] have "dropWhile ?P s = c # b"
    using ab(2) by (cases "dropWhile ?P s") auto
  with takeWhile_dropWhile_id [of ?P s] ab(1) have "s = a @ c # b" by simp
  moreover have "c \<notin> set a" using ab(1) by (auto dest: set_takeWhileD)
  ultimately show ?thesis by blast
qed

lemma find_append: "find P (xs @ ys) = (case find P xs of None \<Rightarrow> find P ys | Some x \<Rightarrow> Some x)"
  by (induction xs) auto

subsection \<open>Ordered sets as ascending lists\<close>

definition btree_wf :: "'a::linorder list \<Rightarrow> bool" where
  "btree_wf xs \<longleftrightarrow> sorted xs \<and> distinct xs"

definition btree_insert :: "'a::linorder \<Rightarrow> 'a list \<Rightarrow> 'a list" where
  "btree_insert x xs = (if x \<in> set xs then xs else insort x xs)"

fun btree_extend :: "'a::linorder list \<Rightarrow> 'a list \<Rightarrow> 'a list" where
  "btree_extend xs [] = xs"
| "btree_extend xs (y # ys) = btree_extend (btree_insert y xs) ys"

lemma set_btree_insert [simp]: "set (btree_insert x xs) = insert x (set xs)"
  by (auto simp: btree_insert_def set_insort_key)

lemma btree_wf_insert [simp, intro]: "btree_wf xs \<Longrightarrow> btree_wf (btree_insert x xs)"
  by (auto simp: btree_wf_def btree_insert_def sorted_insort distinct_insort)

lemma set_btree_extend [simp]: "set (btree_extend xs ys) = set xs \<union> set ys"
  by (induction ys arbitrary: xs) auto

lemma btree_wf_extend [simp, intro]: "btree_wf xs \<Longrightarrow> btree_wf (btree_extend xs ys)"
  by (induction ys arbitrary: xs) auto

lemma btree_wf_unique: "btree_wf xs \<Longrightarrow> btree_wf ys \<Longrightarrow> set xs = set ys \<Longrightarrow> xs = ys"
  by (auto simp: btree_wf_def intro: sorted_distinct_set_unique)

subsection \<open>Ordered maps as ascending association lists\<close>

fun bmap_insert :: "'k::linorder \<Rightarrow> 'v \<Rightarrow> ('k \<times> 'v) list \<Rightarrow> ('k \<times> 'v) list" where
  "bmap_insert k v [] = [(k, v)]"
| "bmap_insert k v ((k', v') # m) =
     (if k < k' then (k, v) # (k', v') # m
      else if k = k' then (k, v) # m
      else (k', v') # bmap_insert k v m)"

definition bmap_wf :: "('k::linorder \<times> 'v) list \<Rightarrow> bool" where
  "bmap_wf m \<longleftrightarrow> sorted_wrt (<) (map fst m)"

lemma fst_set_bmap_insert [simp]: "fst ` set (bmap_insert k v m) = insert k (fst ` set m)"
  by (induction k v m rule: bmap_insert.induct) (simp_all add: insert_commute)

lemma bmap_wf_Nil [simp]: "bmap_wf []"
  by (simp add: bmap_wf_def)

lemma bmap_wf_insert [simp, intro]: "bmap_wf m \<Longrightarrow> bmap_wf (bmap_insert k v m)"
proof (induction k v m rule: bmap_insert.induct)
  case (2 k v k' v' m)
  have keys: "set (map fst (bmap_insert k v m)) = insert k (set (map fst m))"
    using fst_set_bmap_insert [of k v m] by (simp only: set_map)
  from 2 show ?case
    unfolding bmap_wf_def using keys by (auto simp del: set_map dest: less_trans)
qed (simp add: bmap_wf_def)

lemma map_of_bmap_insert: "bmap_wf m \<Longrightarrow> map_of (bmap_insert k v m) = (map_of m)(k \<mapsto> v)"
proof (induction m)
  case (Cons kv m)
  have "k \<notin> fst ` set m" if "k < fst kv"
    using that Cons.prems by (auto simp: bmap_wf_def)
  with Cons show ?case
    by (cases kv) (auto simp: bmap_wf_def map_of_eq_None_iff fun_eq_iff split: if_splits)
qed simp

subsection \<open>Saturating and checked word arithmetic\<close>

definition saturating_sub :: "'a::len word \<Rightarrow> 'a word \<Rightarrow> 'a word" where
  "saturating_sub a b = (if b \<le> a then a - b else 0)"

lemma unat_saturating_sub [simp]: "unat (saturating_sub a b) = unat a - unat b"
  by (auto simp: saturating_sub_def unat_sub word_le_nat_alt)

definition saturating_add :: "'a::len word \<Rightarrow> 'a word \<Rightarrow> 'a word" where
  "saturating_add a b = (if a \<le> - 1 - b then a + b else - 1)"

lemma unat_neg1: "unat (- 1 :: 'a::len word) = 2 ^ LENGTH('a) - 1"
  by (simp add: unsigned_minus_1_eq_mask mask_eq_exp_minus_1)

lemma unat_compl: "unat (- 1 - b :: 'a::len word) = 2 ^ LENGTH('a) - 1 - unat b"
  by (simp add: unat_sub unat_neg1)

lemma unat_saturating_add:
  "unat (saturating_add a b) = min (unat a + unat b) (2 ^ LENGTH('a) - 1)" for a b :: "'a::len word"
proof (cases "a \<le> - 1 - b")
  case True
  then have "unat a \<le> 2 ^ LENGTH('a) - 1 - unat b"
    by (simp add: word_le_nat_alt unat_compl)
  moreover have "unat b < 2 ^ LENGTH('a)" by (rule unsigned_less)
  ultimately have "unat a + unat b < 2 ^ LENGTH('a)" by linarith
  with True show ?thesis by (simp add: saturating_add_def unat_word_ariths)
next
  case False
  then have "2 ^ LENGTH('a) - 1 - unat b < unat a"
    by (simp add: word_le_nat_alt unat_compl)
  with False show ?thesis by (simp add: saturating_add_def unat_neg1)
qed

lemma unat_pred: "a \<noteq> 0 \<Longrightarrow> unat (a - 1) = unat a - 1" for a :: "'a::len word"
  by (simp add: unat_minus_one)

lemma word_gt_0_unat: "a \<noteq> 0 \<longleftrightarrow> 0 < unat a" for a :: "'a::len word"
  by (simp add: unat_gt_0)

lemma unat_succ: "unat a < unat b \<Longrightarrow> unat (a + 1) = unat a + 1" for a b :: "'a::len word"
proof -
  assume "unat a < unat b"
  also have "unat b < 2 ^ LENGTH('a)" by (rule unsigned_less)
  finally have "unat a + 1 < 2 ^ LENGTH('a) \<or> unat a + 1 = 2 ^ LENGTH('a)" by linarith
  moreover have "unat a + 1 \<noteq> 2 ^ LENGTH('a)"
    using \<open>unat a < unat b\<close> unsigned_less [of b] by (metis Suc_eq_plus1 Suc_leI not_less)
  ultimately show ?thesis by (simp add: unat_word_ariths)
qed

end
