(* ===== verification/Authority.thy ===== *)
theory Authority
  imports Bridle_Prelude
begin

text \<open>
  The authority vocabulary every component speaks: the errors of the leash
  (\<^verbatim>\<open>agent-bridle-core/src/error.rs\<close>) and the caveat types the crate re-exports from
  \<^verbatim>\<open>agent-mesh-protocol\<close>. The latter crate is not part of the repository: only the shape of
  its types is written down here, as the struct literals and exhaustive matches of
  \<^verbatim>\<open>agent-bridle-core\<close> fix it (\<^verbatim>\<open>Scope::All\<close>/\<^verbatim>\<open>Scope::Only\<close>,
  \<^verbatim>\<open>CountBound::Unlimited\<close>/\<^verbatim>\<open>CountBound::AtMost\<close>, the six fields of \<^verbatim>\<open>Caveats\<close>); its operations
  (\<^verbatim>\<open>meet\<close>, \<^verbatim>\<open>admit\<close>, \<^verbatim>\<open>relate\<close>, \<dots>) are arguments of the definitions that call them.
  A denial carries the format string of the source and its arguments, unrendered.
\<close>

subsection \<open>Errors\<close>

datatype reason = Fmt string "string list"

datatype io_kind = NotFoundKind | InvalidInputKind | OtherKind

datatype io_error = Io (io_error_kind: io_kind) (io_error_text: string)

datatype ToolError =
    Denied reason
  | NotFound string
  | Budget
  | Generation
  | Exec io_error
  | Other string

type_synonym 'a ToolResult = "ToolError + 'a"

definition denied :: "string \<Rightarrow> string list \<Rightarrow> ToolError" where
  "denied fmt args = Denied (Fmt fmt args)"

definition not_found :: "string \<Rightarrow> ToolError" where
  "not_found name = NotFound name"

text \<open>The \<^verbatim>\<open>matches!(e, ToolError::Denied { .. })\<close> test.\<close>

definition is_denied_error :: "ToolError \<Rightarrow> bool" where
  "is_denied_error e = (case e of Denied _ \<Rightarrow> True | _ \<Rightarrow> False)"

lemma is_denied_error_denied [simp]: "is_denied_error (denied f as)"
  by (simp add: is_denied_error_def denied_def)

lemma denied_neq [simp]:
  "denied f as \<noteq> Budget" "denied f as \<noteq> Generation" "denied f as \<noteq> NotFound n"
  "Budget \<noteq> denied f as" "Generation \<noteq> denied f as" "NotFound n \<noteq> denied f as"
  "denied f as \<noteq> Exec io" "denied f as \<noteq> Other m"
  by (simp_all add: denied_def)

subsection \<open>Scopes, bounds and caveats\<close>

datatype 'a Scope = ScopeAll | ScopeOnly "'a list"

datatype CountBound = Unlimited | AtMost u64

record Caveats =
  cav_fs_read :: "string Scope"
  cav_fs_write :: "string Scope"
  cav_exec :: "string Scope"
  cav_net :: "string Scope"
  cav_max_calls :: CountBound
  cav_valid_for_generation :: "u64 Scope"

definition scope_has :: "'a Scope \<Rightarrow> 'a \<Rightarrow> bool" where
  "scope_has s x = (case s of ScopeAll \<Rightarrow> True | ScopeOnly xs \<Rightarrow> x \<in> set xs)"

lemma scope_has_simps [simp]:
  "scope_has ScopeAll x" "scope_has (ScopeOnly xs) x \<longleftrightarrow> x \<in> set xs"
  by (simp_all add: scope_has_def)

definition caveats_top :: Caveats where
  "caveats_top = \<lparr>cav_fs_read = ScopeAll, cav_fs_write = ScopeAll, cav_exec = ScopeAll,
     cav_net = ScopeAll, cav_max_calls = Unlimited, cav_valid_for_generation = ScopeAll\<rparr>"

type_synonym meet_op = "Caveats \<Rightarrow> Caveats \<Rightarrow> Caveats"

text \<open>
  What the leash relies on of the mesh's \<^verbatim>\<open>meet\<close>, axis by axis: it intersects scopes
  (``the meet simply intersects it away'', \<^verbatim>\<open>tool.rs\<close>).
\<close>

definition meet_intersects :: "meet_op \<Rightarrow> bool" where
  "meet_intersects meet \<longleftrightarrow> (\<forall>a b x.
     (scope_has (cav_exec (meet a b)) x \<longleftrightarrow> scope_has (cav_exec a) x \<and> scope_has (cav_exec b) x) \<and>
     (scope_has (cav_net (meet a b)) x \<longleftrightarrow> scope_has (cav_net a) x \<and> scope_has (cav_net b) x) \<and>
     (scope_has (cav_fs_read (meet a b)) x \<longleftrightarrow>
        scope_has (cav_fs_read a) x \<and> scope_has (cav_fs_read b) x) \<and>
     (scope_has (cav_fs_write (meet a b)) x \<longleftrightarrow>
        scope_has (cav_fs_write a) x \<and> scope_has (cav_fs_write b) x))"

text \<open>A concrete meet with that behaviour, used only to show the assumption can hold.\<close>

fun scope_inter :: "'a Scope \<Rightarrow> 'a Scope \<Rightarrow> 'a Scope" where
  "scope_inter ScopeAll t = t"
| "scope_inter s ScopeAll = s"
| "scope_inter (ScopeOnly xs) (ScopeOnly ys) = ScopeOnly (filter (\<lambda>x. x \<in> set ys) xs)"

fun count_min :: "CountBound \<Rightarrow> CountBound \<Rightarrow> CountBound" where
  "count_min Unlimited b = b"
| "count_min a Unlimited = a"
| "count_min (AtMost m) (AtMost n) = AtMost (min m n)"

definition inter_meet :: meet_op where
  "inter_meet a b = \<lparr>cav_fs_read = scope_inter (cav_fs_read a) (cav_fs_read b),
     cav_fs_write = scope_inter (cav_fs_write a) (cav_fs_write b),
     cav_exec = scope_inter (cav_exec a) (cav_exec b),
     cav_net = scope_inter (cav_net a) (cav_net b),
     cav_max_calls = count_min (cav_max_calls a) (cav_max_calls b),
     cav_valid_for_generation =
       scope_inter (cav_valid_for_generation a) (cav_valid_for_generation b)\<rparr>"

lemma scope_has_inter [simp]:
  "scope_has (scope_inter s t) x \<longleftrightarrow> scope_has s x \<and> scope_has t x"
  by (cases s; cases t) auto

lemma meet_intersects_inter_meet: "meet_intersects inter_meet"
  by (simp add: meet_intersects_def inter_meet_def)

end
