(* ===== verification/Sandbox_Scope.thy ===== *)
theory Sandbox_Scope
  imports Authority
begin

text \<open>
  The pure scope predicates of \<^verbatim>\<open>agent-bridle-core/src/sandbox.rs\<close>: which axes a backend has
  anything to enforce for, when a \<open>net\<close> scope is deny-all, loopback-only or the full loopback
  interface, the Mach-service grants, the egress-proxy plan, and the honesty rule that picks
  the \<^verbatim>\<open>SandboxKind\<close> reported for a run. What the source reads from the build or the running
  host (target, feature, kernel probe, effective user) is the record \<open>host\<close>.
\<close>

subsection \<open>Backends and host facts\<close>

datatype SandboxKind =
    Landlock | Seatbelt | AppContainer | MinimalRootfs | MicroVm | NoSandbox

record host =
  seatbelt_build :: bool      \<comment> \<open>macOS with the \<^verbatim>\<open>macos-seatbelt\<close> feature\<close>
  caller_is_root :: bool
  landlock_net_probe :: bool  \<comment> \<open>Linux with \<^verbatim>\<open>linux-landlock\<close> and an ABI v4 kernel\<close>

subsection \<open>Scope predicates\<close>

definition restricts_fs :: "Caveats \<Rightarrow> bool" where
  "restricts_fs c = ((case cav_fs_write c of ScopeOnly _ \<Rightarrow> True | ScopeAll \<Rightarrow> False) \<or>
     (case cav_fs_read c of ScopeOnly _ \<Rightarrow> True | ScopeAll \<Rightarrow> False))"

definition restricts_exec :: "Caveats \<Rightarrow> bool" where
  "restricts_exec c = (case cav_exec c of ScopeOnly _ \<Rightarrow> True | ScopeAll \<Rightarrow> False)"

definition net_fully_denied :: "Caveats \<Rightarrow> bool" where
  "net_fully_denied c = (case cav_net c of ScopeOnly s \<Rightarrow> s = [] | ScopeAll \<Rightarrow> False)"

definition exec_fully_denied :: "Caveats \<Rightarrow> bool" where
  "exec_fully_denied c = (case cav_exec c of ScopeOnly s \<Rightarrow> s = [] | ScopeAll \<Rightarrow> False)"

definition seatbelt_mach_deputy_audit_complete :: "host \<Rightarrow> bool" where
  "seatbelt_mach_deputy_audit_complete h = (if seatbelt_build h then True else False)"

definition seatbelt_caller_is_unprivileged :: "host \<Rightarrow> bool" where
  "seatbelt_caller_is_unprivileged h = (if seatbelt_build h then \<not> caller_is_root h else True)"

definition seatbelt_net_kernel_witness :: "Caveats \<Rightarrow> bool \<Rightarrow> bool \<Rightarrow> bool \<Rightarrow> bool" where
  "seatbelt_net_kernel_witness effective audit_complete stdio_audited caller_unprivileged =
     (audit_complete \<and> stdio_audited \<and> caller_unprivileged \<and> net_fully_denied effective)"

definition MACH_GRANT_PREFIX :: string where
  "MACH_GRANT_PREFIX = ''mach:''"

definition has_unix_socket_grants :: "Caveats \<Rightarrow> bool" where
  "has_unix_socket_grants c =
     (case cav_net c of ScopeOnly s \<Rightarrow> list_ex (prefix ''unix:'') s | ScopeAll \<Rightarrow> False)"

definition has_mach_service_grants :: "Caveats \<Rightarrow> bool" where
  "has_mach_service_grants c =
     (case cav_net c of ScopeOnly s \<Rightarrow> list_ex (prefix MACH_GRANT_PREFIX) s | ScopeAll \<Rightarrow> False)"

definition is_structural_net_token :: "string \<Rightarrow> bool" where
  "is_structural_net_token token = (prefix ''unix:'' token \<or> prefix MACH_GRANT_PREFIX token)"

definition net_direct_denied :: "Caveats \<Rightarrow> bool" where
  "net_direct_denied c =
     (case cav_net c of ScopeOnly s \<Rightarrow> list_all is_structural_net_token s | ScopeAll \<Rightarrow> False)"

definition exec_grant_pulls_launcher_variant :: "Caveats \<Rightarrow> bool" where
  "exec_grant_pulls_launcher_variant c =
     (case cav_exec c of ScopeOnly s \<Rightarrow> list_ex (\<lambda>p. p = ''sh'' \<or> p = ''/bin/sh'') s
      | ScopeAll \<Rightarrow> False)"

definition landlock_net_capable :: "host \<Rightarrow> bool" where
  "landlock_net_capable h = landlock_net_probe h"

definition LOOPBACK_HOSTS :: "string list" where
  "LOOPBACK_HOSTS = [''localhost'', ''127.0.0.1'', ''::1'']"

definition net_loopback_only :: "Caveats \<Rightarrow> bool" where
  "net_loopback_only c =
     (case cav_net c of
        ScopeOnly s \<Rightarrow> list_ex (\<lambda>h. h \<in> set LOOPBACK_HOSTS) s \<and>
          list_all (\<lambda>h. is_structural_net_token h \<or> h \<in> set LOOPBACK_HOSTS) s
      | ScopeAll \<Rightarrow> False)"

definition net_loopback_full_interface :: "Caveats \<Rightarrow> bool" where
  "net_loopback_full_interface c =
     (if has_unix_socket_grants c \<or> has_mach_service_grants c then False
      else (case cav_net c of
        ScopeOnly s \<Rightarrow> net_loopback_only c \<and>
          (list_ex (\<lambda>h. h = ''localhost'') s \<or>
           (list_ex (\<lambda>h. h = ''127.0.0.1'') s \<and> list_ex (\<lambda>h. h = ''::1'') s))
      | ScopeAll \<Rightarrow> False))"

subsection \<open>Mach-service grants\<close>

definition mach_name_valid :: "string \<Rightarrow> bool" where
  "mach_name_valid name = (name \<noteq> [] \<and>
     list_all (\<lambda>c. is_ascii_alphanumeric c \<or> c \<in> set ''._-'') name)"

definition mach_grant_error :: "string \<Rightarrow> ToolError" where
  "mach_grant_error name = denied ''mach: service grant must name a launchd global-name (ASCII letters, digits, '.', '_', '-'); got {name:?}'' [name]"

fun collect_mach :: "string list \<Rightarrow> string list ToolResult" where
  "collect_mach [] = Inr []"
| "collect_mach (token # rest) =
     (if prefix MACH_GRANT_PREFIX token then
        (let name = drop (length MACH_GRANT_PREFIX) token in
         if mach_name_valid name then
           (case collect_mach rest of Inl e \<Rightarrow> Inl e | Inr ns \<Rightarrow> Inr (name # ns))
         else Inl (mach_grant_error name))
      else collect_mach rest)"

definition mach_service_grants :: "Caveats \<Rightarrow> string list ToolResult" where
  "mach_service_grants c =
     (case cav_net c of
        ScopeAll \<Rightarrow> Inr []
      | ScopeOnly names \<Rightarrow>
          (case collect_mach names of Inl e \<Rightarrow> Inl e | Inr out \<Rightarrow> Inr (remdups_adj (sort out))))"

definition MACH_SERVICE_CANDIDATES :: "string list" where
  "MACH_SERVICE_CANDIDATES = [
     ''com.apple.system.opendirectoryd.libinfo'',
     ''com.apple.system.opendirectoryd.membership'',
     ''com.apple.system.DirectoryService.libinfo_v1'',
     ''com.apple.system.notification_center'',
     ''com.apple.CoreServices.coreservicesd'',
     ''com.apple.coreservices.launchservicesd'',
     ''com.apple.dyld.closured'',
     ''com.apple.logd'',
     ''com.apple.logd.events'',
     ''com.apple.diagnosticd'',
     ''com.apple.SecurityServer'',
     ''com.apple.trustd.agent'']"

record MachServiceDisclosure =
  mach_granted :: "string list"
  mach_withheld :: "string list"

definition mach_service_disclosure ::
  "Caveats \<Rightarrow> SandboxKind \<Rightarrow> MachServiceDisclosure option ToolResult" where
  "mach_service_disclosure c kind =
     (if kind \<noteq> Seatbelt \<or> \<not> net_direct_denied c then Inr None
      else (case mach_service_grants c of
          Inl e \<Rightarrow> Inl e
        | Inr granted \<Rightarrow>
            Inr (Some \<lparr>mach_granted = granted,
              mach_withheld = filter (\<lambda>s. s \<notin> set granted) MACH_SERVICE_CANDIDATES\<rparr>)))"

subsection \<open>The egress-proxy plan and the honesty rule\<close>

definition net_egress_proxy_hosts :: "Caveats \<Rightarrow> string list option" where
  "net_egress_proxy_hosts c =
     (case cav_net c of
        ScopeOnly s \<Rightarrow>
          if list_ex (\<lambda>h. \<not> is_structural_net_token h \<and> h \<notin> set LOOPBACK_HOSTS) s
          then Some (filter (\<lambda>h. \<not> is_structural_net_token h) s) else None
      | ScopeAll \<Rightarrow> None)"

definition loopback_fenced_caveats :: "Caveats \<Rightarrow> Caveats" where
  "loopback_fenced_caveats c =
     c\<lparr>cav_net := ScopeOnly
         (case cav_net c of
            ScopeOnly names \<Rightarrow>
              btree_extend (btree_extend [] LOOPBACK_HOSTS) (filter (prefix ''unix:'') names)
          | ScopeAll \<Rightarrow> btree_extend [] LOOPBACK_HOSTS)\<rparr>"

definition loopback_net_enforceable :: "SandboxKind \<Rightarrow> bool" where
  "loopback_net_enforceable k = (k = Seatbelt \<or> k = AppContainer)"

definition egress_proxy_plan_for ::
  "SandboxKind \<Rightarrow> Caveats \<Rightarrow> (string list \<times> Caveats) option" where
  "egress_proxy_plan_for available c =
     (if has_unix_socket_grants c \<and> available \<noteq> Seatbelt then None
      else if has_mach_service_grants c then None
      else (case net_egress_proxy_hosts c of
          None \<Rightarrow> None
        | Some allow_hosts \<Rightarrow>
            if \<not> loopback_net_enforceable available then None
            else Some (allow_hosts, loopback_fenced_caveats c)))"

definition effective_sandbox_kind :: "host \<Rightarrow> SandboxKind \<Rightarrow> Caveats \<Rightarrow> SandboxKind" where
  "effective_sandbox_kind h available c =
     (case available of
        Landlock \<Rightarrow>
          if restricts_fs c \<or> (net_fully_denied c \<and> landlock_net_capable h)
          then Landlock else NoSandbox
      | Seatbelt \<Rightarrow>
          if restricts_fs c \<or> net_fully_denied c \<or> net_loopback_only c \<or>
             has_unix_socket_grants c \<or> has_mach_service_grants c \<or> restricts_exec c
          then Seatbelt else NoSandbox
      | AppContainer \<Rightarrow>
          if net_fully_denied c \<or> net_loopback_only c \<or> exec_fully_denied c \<or> restricts_fs c
          then AppContainer else NoSandbox
      | _ \<Rightarrow> NoSandbox)"

subsection \<open>Lemmas\<close>

lemmas scope_shape_defs = restricts_fs_def restricts_exec_def net_fully_denied_def
  exec_fully_denied_def has_unix_socket_grants_def has_mach_service_grants_def
  net_direct_denied_def net_loopback_only_def

lemma loopback_hosts_not_structural: "x \<in> set LOOPBACK_HOSTS \<Longrightarrow> \<not> is_structural_net_token x"
  by (auto simp: LOOPBACK_HOSTS_def is_structural_net_token_def MACH_GRANT_PREFIX_def)

lemma net_loopback_only_not_denied: "net_loopback_only c \<Longrightarrow> \<not> net_fully_denied c"
  by (auto simp: net_loopback_only_def net_fully_denied_def split: Scope.splits)

lemma scope_has_fenced [simp]:
  "scope_has (cav_net (loopback_fenced_caveats c)) x \<longleftrightarrow>
     x \<in> set LOOPBACK_HOSTS \<or> (cav_net c \<noteq> ScopeAll \<and> prefix ''unix:'' x \<and> scope_has (cav_net c) x)"
  by (auto simp: loopback_fenced_caveats_def split: Scope.splits)

lemma fenced_frame: "loopback_fenced_caveats c = c\<lparr>cav_net := cav_net (loopback_fenced_caveats c)\<rparr>"
  by (simp add: loopback_fenced_caveats_def)

lemma fenced_loopback_only: "net_loopback_only (loopback_fenced_caveats c)"
  by (auto simp: net_loopback_only_def loopback_fenced_caveats_def list_ex_iff list_all_iff
      is_structural_net_token_def LOOPBACK_HOSTS_def split: Scope.splits)

lemma fenced_engages:
  "loopback_net_enforceable k \<Longrightarrow> effective_sandbox_kind h k (loopback_fenced_caveats c) = k"
  using fenced_loopback_only [of c]
  by (auto simp: loopback_net_enforceable_def effective_sandbox_kind_def)

lemma egress_plan_cases:
  assumes "egress_proxy_plan_for k c = Some (hosts, fenced)"
  obtains s where "cav_net c = ScopeOnly s" "loopback_net_enforceable k"
    "fenced = loopback_fenced_caveats c" "hosts = filter (\<lambda>h. \<not> is_structural_net_token h) s"
    "\<exists>h \<in> set s. \<not> is_structural_net_token h \<and> h \<notin> set LOOPBACK_HOSTS"
  using assms
  by (auto simp: egress_proxy_plan_for_def net_egress_proxy_hosts_def list_ex_iff
      split: if_splits option.splits Scope.splits)

lemma collect_mach_valid:
  "\<forall>t \<in> set s. prefix MACH_GRANT_PREFIX t \<longrightarrow> mach_name_valid (drop (length MACH_GRANT_PREFIX) t) \<Longrightarrow>
   collect_mach s = Inr (map (drop (length MACH_GRANT_PREFIX)) (filter (prefix MACH_GRANT_PREFIX) s))"
  by (induction s) (auto simp: Let_def)

lemma collect_mach_Inr_valid:
  "collect_mach s = Inr ns \<Longrightarrow> t \<in> set s \<Longrightarrow> prefix MACH_GRANT_PREFIX t \<Longrightarrow>
   mach_name_valid (drop (length MACH_GRANT_PREFIX) t)"
  by (induction s arbitrary: ns) (auto simp: Let_def split: sum.splits if_splits)

lemma collect_mach_Inl:
  "collect_mach s = Inl e \<Longrightarrow> \<exists>t \<in> set s. prefix MACH_GRANT_PREFIX t \<and>
     \<not> mach_name_valid (drop (length MACH_GRANT_PREFIX) t) \<and>
     e = mach_grant_error (drop (length MACH_GRANT_PREFIX) t)"
  by (induction s) (auto simp: Let_def split: sum.splits if_splits)

lemma distinct_remdups_adj_sorted: "sorted xs \<Longrightarrow> distinct (remdups_adj xs)"
  by (induction xs rule: remdups_adj.induct) (auto simp: order.antisym)

lemma sorted_remdups_adj_sort: "sorted (remdups_adj (sort xs))"
  by (simp add: sorted_remdups_adj)

subsection \<open>Properties\<close>

text \<open>The egress proxy is planned only where the child's egress is kernel-fenced to the
  loopback interface: the backend can express that fence and stays engaged under the fenced
  caveats, the fenced caveats change the \<open>net\<close> axis only and leave nothing there but the
  loopback names and the explicit \<open>unix:\<close> endpoints of the grant, and the host list handed
  to the proxy is exactly the granted non-structural names.\<close>
theorem egress_plan_is_fenced:
  assumes "egress_proxy_plan_for k c = Some (hosts, fenced)"
  shows "effective_sandbox_kind h k fenced = k \<and> k \<notin> {NoSandbox, Landlock} \<and>
    net_loopback_only fenced \<and> fenced = c\<lparr>cav_net := cav_net fenced\<rparr> \<and>
    (\<forall>x. scope_has (cav_net fenced) x =
       (x \<in> set LOOPBACK_HOSTS \<or> (prefix ''unix:'' x \<and> scope_has (cav_net c) x))) \<and>
    (\<forall>x. (x \<in> set hosts) = (scope_has (cav_net c) x \<and> \<not> is_structural_net_token x))"
proof -
  from assms obtain s where s: "cav_net c = ScopeOnly s" "loopback_net_enforceable k"
    "fenced = loopback_fenced_caveats c" "hosts = filter (\<lambda>h. \<not> is_structural_net_token h) s"
    by (rule egress_plan_cases)
  from s have "effective_sandbox_kind h k fenced = k" by (simp add: fenced_engages)
  moreover from s have "k \<notin> {NoSandbox, Landlock}" by (auto simp: loopback_net_enforceable_def)
  moreover from s have "net_loopback_only fenced" by (simp add: fenced_loopback_only)
  moreover from s have "fenced = c\<lparr>cav_net := cav_net fenced\<rparr>" using fenced_frame by metis
  ultimately show ?thesis using s by auto
qed

definition remote_grant :: Caveats where
  "remote_grant = caveats_top\<lparr>cav_net := ScopeOnly [''crates.io'', ''unix:/run/x'']\<rparr>"

lemma remote_grant_plan:
  "egress_proxy_plan_for Seatbelt remote_grant =
     Some ([''crates.io''], loopback_fenced_caveats remote_grant)"
  by (simp add: egress_proxy_plan_for_def remote_grant_def caveats_top_def net_egress_proxy_hosts_def
      has_unix_socket_grants_def has_mach_service_grants_def is_structural_net_token_def
      MACH_GRANT_PREFIX_def LOOPBACK_HOSTS_def loopback_net_enforceable_def)

theorem egress_plan_is_fenced_witness:
  "egress_proxy_plan_for Seatbelt remote_grant =
     Some ([''crates.io''], loopback_fenced_caveats remote_grant) \<and>
   net_loopback_only (loopback_fenced_caveats remote_grant) \<and>
   scope_has (cav_net (loopback_fenced_caveats remote_grant)) ''unix:/run/x''"
  using remote_grant_plan egress_plan_is_fenced [OF remote_grant_plan]
  by (simp add: remote_grant_def)

text \<open>The reported sandbox kind never overclaims: it is the available backend or none, and
  a backend is reported only when it is one of the three native ones and some axis of the
  caveats is restricted; the unrestricted grant is reported unconfined on every host.\<close>
theorem effective_kind_honest:
  "effective_sandbox_kind h k c \<in> {k, NoSandbox} \<and>
   (effective_sandbox_kind h k c \<noteq> NoSandbox \<longrightarrow>
      k \<in> {Landlock, Seatbelt, AppContainer} \<and>
      (cav_fs_read c \<noteq> ScopeAll \<or> cav_fs_write c \<noteq> ScopeAll \<or>
       cav_exec c \<noteq> ScopeAll \<or> cav_net c \<noteq> ScopeAll)) \<and>
   effective_sandbox_kind h k caveats_top = NoSandbox"
  by (cases k) (auto simp: effective_sandbox_kind_def scope_shape_defs caveats_top_def
      split: Scope.splits if_splits)

theorem effective_kind_honest_witness:
  "effective_sandbox_kind \<lparr>seatbelt_build = True, caller_is_root = False, landlock_net_probe = False\<rparr>
     Seatbelt remote_grant = Seatbelt \<and> cav_net remote_grant \<noteq> ScopeAll"
proof -
  let ?h = "\<lparr>seatbelt_build = True, caller_is_root = False, landlock_net_probe = False\<rparr>"
  have "effective_sandbox_kind ?h Seatbelt remote_grant = Seatbelt"
    by (simp add: effective_sandbox_kind_def remote_grant_def caveats_top_def
        has_unix_socket_grants_def)
  then show ?thesis
    using effective_kind_honest [of ?h Seatbelt remote_grant]
    by (simp add: remote_grant_def caveats_top_def)
qed

text \<open>The Mach-service grants of a restricted \<open>net\<close> scope: either every \<open>mach:\<close> token
  names a well-formed launchd label and the result is exactly those labels, ascending and
  without duplicates, or the result is the denial of a malformed token of the scope.\<close>
theorem mach_service_grants_exact:
  assumes "cav_net c = ScopeOnly s"
  shows "if \<exists>t \<in> set s. prefix MACH_GRANT_PREFIX t \<and> \<not> mach_name_valid (drop 5 t)
     then \<exists>t \<in> set s. prefix MACH_GRANT_PREFIX t \<and> \<not> mach_name_valid (drop 5 t) \<and>
            mach_service_grants c = Inl (mach_grant_error (drop 5 t))
     else \<exists>ns. mach_service_grants c = Inr ns \<and> sorted ns \<and> distinct ns \<and>
            set ns = set (map (drop 5) (filter (prefix MACH_GRANT_PREFIX) s))"
proof (cases "\<exists>t \<in> set s. prefix MACH_GRANT_PREFIX t \<and> \<not> mach_name_valid (drop 5 t)")
  case True
  have five: "length MACH_GRANT_PREFIX = 5" by (simp add: MACH_GRANT_PREFIX_def)
  obtain e where "collect_mach s = Inl e"
    using True collect_mach_Inr_valid [of s] five by (cases "collect_mach s") auto
  then show ?thesis
    using True collect_mach_Inl [of s e] assms five by (auto simp: mach_service_grants_def)
next
  case False
  have five: "length MACH_GRANT_PREFIX = 5" by (simp add: MACH_GRANT_PREFIX_def)
  from False have "collect_mach s = Inr (map (drop 5) (filter (prefix MACH_GRANT_PREFIX) s))"
    using collect_mach_valid [of s] five by auto
  then show ?thesis
    using False assms
    by (auto simp: mach_service_grants_def distinct_remdups_adj_sorted sorted_remdups_adj_sort)
qed

theorem mach_service_grants_exact_witness:
  "\<exists>ns. mach_service_grants (caveats_top\<lparr>cav_net := ScopeOnly [''mach:b'', ''mach:a'', ''x.org'']\<rparr>) = Inr ns \<and>
     sorted ns \<and> distinct ns \<and> set ns = {''b'', ''a''}"
proof -
  let ?s = "[''mach:b'', ''mach:a'', ''x.org'']"
  let ?c = "caveats_top\<lparr>cav_net := ScopeOnly ?s\<rparr>"
  have valid: "\<not> (\<exists>t \<in> set ?s. prefix MACH_GRANT_PREFIX t \<and> \<not> mach_name_valid (drop 5 t))"
    by (simp add: MACH_GRANT_PREFIX_def mach_name_valid_def is_ascii_alphanumeric_def
        is_ascii_digit_def is_ascii_alphabetic_def)
  have eq: "set (map (drop 5) (filter (prefix MACH_GRANT_PREFIX) ?s)) = {''b'', ''a''}"
    by (simp add: MACH_GRANT_PREFIX_def)
  have net: "cav_net ?c = ScopeOnly ?s" by simp
  from mach_service_grants_exact [OF net] show ?thesis
    unfolding if_not_P [OF valid] eq .
qed

text \<open>A Mach-service disclosure partitions the candidate services: nothing is both granted
  and withheld, and every candidate is one or the other. The withheld list keeps the candidate
  order and so is not ascending, although its field comment says it is.\<close>
theorem mach_disclosure_partition:
  "(\<forall>c d. mach_service_disclosure c Seatbelt = Inr (Some d) \<longrightarrow>
      set (mach_granted d) \<inter> set (mach_withheld d) = {} \<and>
      set MACH_SERVICE_CANDIDATES \<subseteq> set (mach_granted d) \<union> set (mach_withheld d)) \<and>
   (\<exists>d. mach_service_disclosure (caveats_top\<lparr>cav_net := ScopeOnly []\<rparr>) Seatbelt = Inr (Some d) \<and>
      mach_withheld d = MACH_SERVICE_CANDIDATES \<and> \<not> sorted (mach_withheld d))"
proof (intro conjI allI impI)
  fix c d assume "mach_service_disclosure c Seatbelt = Inr (Some d)"
  then show "set (mach_granted d) \<inter> set (mach_withheld d) = {}"
    and "set MACH_SERVICE_CANDIDATES \<subseteq> set (mach_granted d) \<union> set (mach_withheld d)"
    by (auto simp: mach_service_disclosure_def split: if_splits sum.splits)
next
  have "\<not> sorted MACH_SERVICE_CANDIDATES" by code_simp
  then show "\<exists>d. mach_service_disclosure (caveats_top\<lparr>cav_net := ScopeOnly []\<rparr>) Seatbelt = Inr (Some d) \<and>
      mach_withheld d = MACH_SERVICE_CANDIDATES \<and> \<not> sorted (mach_withheld d)"
    by (simp add: mach_service_disclosure_def net_direct_denied_def caveats_top_def
        mach_service_grants_def)
qed

theorem mach_disclosure_partition_witness:
  "set (mach_granted \<lparr>mach_granted = [], mach_withheld = MACH_SERVICE_CANDIDATES\<rparr>) \<inter>
     set (mach_withheld \<lparr>mach_granted = [], mach_withheld = MACH_SERVICE_CANDIDATES\<rparr>) = {} \<and>
   mach_service_disclosure (caveats_top\<lparr>cav_net := ScopeOnly []\<rparr>) Seatbelt =
     Inr (Some \<lparr>mach_granted = [], mach_withheld = MACH_SERVICE_CANDIDATES\<rparr>)"
proof -
  have "mach_service_disclosure (caveats_top\<lparr>cav_net := ScopeOnly []\<rparr>) Seatbelt =
     Inr (Some \<lparr>mach_granted = [], mach_withheld = MACH_SERVICE_CANDIDATES\<rparr>)"
    by (simp add: mach_service_disclosure_def net_direct_denied_def caveats_top_def
        mach_service_grants_def)
  then show ?thesis using mach_disclosure_partition by blast
qed

end
