(* ===== verification/Enforcement_Report.thy ===== *)
theory Enforcement_Report
  imports Sandbox_Scope
begin

text \<open>
  Axis-granular confinement honesty (\<^verbatim>\<open>agent-bridle-core/src/report.rs\<close>): the governing
  mechanism, the enforcement report computed from it, the per-axis floor a principal requires
  and the acceptance rule that refuses a restricted axis below its floor. The child-network
  policy of \<^verbatim>\<open>config.rs\<close> and the axis names of the mesh crate are here because the report
  is their first user.
\<close>

subsection \<open>Mechanism\<close>

datatype ExecBoundary = ProcessTree | NamedRoot

datatype StdioPosture = Unaudited | Audited

datatype ChildNetworkPolicy = LandlockOnly | DenyDirect

record ConfinementMechanism =
  m_kind :: SandboxKind
  m_child_network :: ChildNetworkPolicy
  m_exec_boundary :: ExecBoundary
  m_stdio :: StdioPosture

definition mechanism_new :: "SandboxKind \<Rightarrow> ChildNetworkPolicy \<Rightarrow> ConfinementMechanism" where
  "mechanism_new kind child_network =
     \<lparr>m_kind = kind, m_child_network = child_network, m_exec_boundary = ProcessTree,
      m_stdio = Unaudited\<rparr>"

definition for_named_root :: "SandboxKind \<Rightarrow> ChildNetworkPolicy \<Rightarrow> ConfinementMechanism" where
  "for_named_root kind child_network =
     \<lparr>m_kind = kind, m_child_network = child_network, m_exec_boundary = NamedRoot,
      m_stdio = Unaudited\<rparr>"

definition with_stdio_posture :: "ConfinementMechanism \<Rightarrow> StdioPosture \<Rightarrow> ConfinementMechanism" where
  "with_stdio_posture m posture = m\<lparr>m_stdio := posture\<rparr>"

definition mechanism_backend :: "SandboxKind \<Rightarrow> ConfinementMechanism" where
  "mechanism_backend kind = mechanism_new kind LandlockOnly"

subsection \<open>Enforcement strengths\<close>

datatype AxisEnforcement = Kernel | Interceptor | Advisory

fun rank :: "AxisEnforcement \<Rightarrow> nat" where
  "rank Advisory = 0"
| "rank Interceptor = 1"
| "rank Kernel = 2"

instantiation AxisEnforcement :: linorder
begin

definition less_eq_AxisEnforcement :: "AxisEnforcement \<Rightarrow> AxisEnforcement \<Rightarrow> bool" where
  "less_eq_AxisEnforcement a b \<longleftrightarrow> rank a \<le> rank b"

definition less_AxisEnforcement :: "AxisEnforcement \<Rightarrow> AxisEnforcement \<Rightarrow> bool" where
  "less_AxisEnforcement a b \<longleftrightarrow> rank a < rank b"

instance
proof
  fix x y z :: AxisEnforcement
  show "x < y \<longleftrightarrow> x \<le> y \<and> \<not> y \<le> x"
    by (auto simp: less_eq_AxisEnforcement_def less_AxisEnforcement_def)
  show "x \<le> x" by (simp add: less_eq_AxisEnforcement_def)
  show "x \<le> y \<Longrightarrow> y \<le> z \<Longrightarrow> x \<le> z" by (simp add: less_eq_AxisEnforcement_def)
  show "x \<le> y \<Longrightarrow> y \<le> x \<Longrightarrow> x = y"
    by (cases x; cases y) (simp_all add: less_eq_AxisEnforcement_def)
  show "x \<le> y \<or> y \<le> x" by (auto simp: less_eq_AxisEnforcement_def)
qed

end

record EnforcementReport =
  rep_fs_read :: "AxisEnforcement option"
  rep_fs_write :: "AxisEnforcement option"
  rep_exec :: "AxisEnforcement option"
  rep_net :: "AxisEnforcement option"

definition report_is_empty :: "EnforcementReport \<Rightarrow> bool" where
  "report_is_empty r = (rep_fs_read r = None \<and> rep_fs_write r = None \<and>
     rep_exec r = None \<and> rep_net r = None)"

definition is_restricted :: "'a Scope \<Rightarrow> bool" where
  "is_restricted scope = (case scope of ScopeOnly _ \<Rightarrow> True | ScopeAll \<Rightarrow> False)"

definition then_some :: "bool \<Rightarrow> 'a \<Rightarrow> 'a option" where
  "then_some b x = (if b then Some x else None)"

definition fs_enforcement :: "SandboxKind \<Rightarrow> AxisEnforcement" where
  "fs_enforcement active = (case active of
       Landlock \<Rightarrow> Kernel | Seatbelt \<Rightarrow> Kernel | MinimalRootfs \<Rightarrow> Kernel | MicroVm \<Rightarrow> Kernel
     | AppContainer \<Rightarrow> Kernel
     | NoSandbox \<Rightarrow> Interceptor)"

definition exec_enforcement :: "Caveats \<Rightarrow> SandboxKind \<Rightarrow> ExecBoundary \<Rightarrow> AxisEnforcement" where
  "exec_enforcement effective active exec_boundary =
     (if exec_boundary = NamedRoot then Interceptor
      else if active = AppContainer \<and> exec_fully_denied effective then Kernel
      else if active = Seatbelt \<and> exec_grant_pulls_launcher_variant effective then Interceptor
      else (case active of
          Seatbelt \<Rightarrow> Kernel | MinimalRootfs \<Rightarrow> Kernel | MicroVm \<Rightarrow> Kernel
        | Landlock \<Rightarrow> Interceptor | AppContainer \<Rightarrow> Interceptor | NoSandbox \<Rightarrow> Interceptor))"

definition net_enforcement ::
  "host \<Rightarrow> Caveats \<Rightarrow> SandboxKind \<Rightarrow> ChildNetworkPolicy \<Rightarrow> StdioPosture \<Rightarrow> AxisEnforcement" where
  "net_enforcement h effective active child_network stdio =
     (if active = AppContainer \<and> (net_fully_denied effective \<or> net_loopback_full_interface effective)
      then Kernel
      else if active = AppContainer then Advisory
      else if active = MicroVm then Kernel
      else if active = Landlock \<and> net_fully_denied effective \<and> child_network = DenyDirect then Kernel
      else if active = Seatbelt \<and>
          seatbelt_net_kernel_witness effective (seatbelt_mach_deputy_audit_complete h)
            (stdio = Audited) (seatbelt_caller_is_unprivileged h) then Kernel
      else Advisory)"

definition enforcement_report ::
  "host \<Rightarrow> Caveats \<Rightarrow> ConfinementMechanism \<Rightarrow> EnforcementReport" where
  "enforcement_report h effective m =
     \<lparr>rep_fs_read = then_some (is_restricted (cav_fs_read effective)) (fs_enforcement (m_kind m)),
      rep_fs_write = then_some (is_restricted (cav_fs_write effective)) (fs_enforcement (m_kind m)),
      rep_exec = then_some (is_restricted (cav_exec effective))
        (exec_enforcement effective (m_kind m) (m_exec_boundary m)),
      rep_net = then_some (is_restricted (cav_net effective))
        (net_enforcement h effective (m_kind m) (m_child_network m) (m_stdio m))\<rparr>"

fun opt_min :: "AxisEnforcement list \<Rightarrow> AxisEnforcement option" where
  "opt_min [] = None"
| "opt_min (x # xs) = (case opt_min xs of None \<Rightarrow> Some x | Some m \<Rightarrow> Some (min x m))"

definition fence_strength :: "EnforcementReport \<Rightarrow> AxisEnforcement option" where
  "fence_strength r =
     opt_min (List.map_filter id [rep_fs_read r, rep_fs_write r, rep_exec r, rep_net r])"

subsection \<open>Floors\<close>

record EnforcementFloor =
  flr_fs_read :: AxisEnforcement
  flr_fs_write :: AxisEnforcement
  flr_exec :: AxisEnforcement
  flr_net :: AxisEnforcement

definition floor_serialize :: "EnforcementFloor \<Rightarrow> (string \<times> AxisEnforcement) list" where
  "floor_serialize f = [(''exec'', flr_exec f), (''net'', flr_net f)]"

definition floor_deserialize :: "(string \<times> AxisEnforcement) list \<Rightarrow> string + EnforcementFloor" where
  "floor_deserialize wire =
     (if list_ex (\<lambda>(k, _). k \<notin> {''exec'', ''net''}) wire then Inl ''unknown field''
      else if \<not> distinct (map fst wire) then Inl ''duplicate field''
      else (case map_of wire ''exec'' of
          None \<Rightarrow> Inl ''missing field''
        | Some e \<Rightarrow> (case map_of wire ''net'' of
              None \<Rightarrow> Inl ''missing field''
            | Some n \<Rightarrow> Inr \<lparr>flr_fs_read = Kernel, flr_fs_write = Kernel,
                flr_exec = e, flr_net = n\<rparr>)))"

definition FLOOR_DEFAULT :: EnforcementFloor where
  "FLOOR_DEFAULT = \<lparr>flr_fs_read = Kernel, flr_fs_write = Kernel, flr_exec = Advisory,
     flr_net = Advisory\<rparr>"

definition FLOOR_CONFINED :: EnforcementFloor where
  "FLOOR_CONFINED = \<lparr>flr_fs_read = Kernel, flr_fs_write = Kernel, flr_exec = Interceptor,
     flr_net = Kernel\<rparr>"

definition floor_join :: "EnforcementFloor \<Rightarrow> EnforcementFloor \<Rightarrow> EnforcementFloor" where
  "floor_join a b =
     \<lparr>flr_fs_read = max (flr_fs_read a) (flr_fs_read b),
      flr_fs_write = max (flr_fs_write a) (flr_fs_write b),
      flr_exec = max (flr_exec a) (flr_exec b), flr_net = max (flr_net a) (flr_net b)\<rparr>"

definition from_scalar :: "AxisEnforcement \<Rightarrow> EnforcementFloor" where
  "from_scalar f = \<lparr>flr_fs_read = Kernel, flr_fs_write = Kernel, flr_exec = f, flr_net = f\<rparr>"

datatype ConfinedAxis = Axis_FsRead | Axis_FsWrite | Axis_Net | Axis_Exec

definition requirement :: "EnforcementFloor \<Rightarrow> ConfinedAxis \<Rightarrow> AxisEnforcement" where
  "requirement f axis = (case axis of Axis_FsRead \<Rightarrow> flr_fs_read f | Axis_FsWrite \<Rightarrow> flr_fs_write f
     | Axis_Net \<Rightarrow> flr_net f | Axis_Exec \<Rightarrow> flr_exec f)"

definition restricted_in :: "ConfinedAxis \<Rightarrow> Caveats \<Rightarrow> bool" where
  "restricted_in axis c = (case axis of
       Axis_FsRead \<Rightarrow> is_restricted (cav_fs_read c) | Axis_FsWrite \<Rightarrow> is_restricted (cav_fs_write c)
     | Axis_Net \<Rightarrow> is_restricted (cav_net c) | Axis_Exec \<Rightarrow> is_restricted (cav_exec c))"

definition witness_in :: "ConfinedAxis \<Rightarrow> EnforcementReport \<Rightarrow> AxisEnforcement option" where
  "witness_in axis r = (case axis of Axis_FsRead \<Rightarrow> rep_fs_read r | Axis_FsWrite \<Rightarrow> rep_fs_write r
     | Axis_Net \<Rightarrow> rep_net r | Axis_Exec \<Rightarrow> rep_exec r)"

record UnenforceableAxis =
  ua_axis :: ConfinedAxis
  ua_required :: AxisEnforcement
  ua_actual :: "AxisEnforcement option"

definition check_axis ::
  "Caveats \<Rightarrow> EnforcementReport \<Rightarrow> EnforcementFloor \<Rightarrow> ConfinedAxis \<Rightarrow> UnenforceableAxis option" where
  "check_axis effective r f axis =
     (if \<not> restricted_in axis effective then None
      else (case witness_in axis r of
          Some a \<Rightarrow> if a \<ge> requirement f axis then None
            else Some \<lparr>ua_axis = axis, ua_required = requirement f axis, ua_actual = Some a\<rparr>
        | None \<Rightarrow> Some \<lparr>ua_axis = axis, ua_required = requirement f axis, ua_actual = None\<rparr>))"

definition or_else :: "'a option \<Rightarrow> 'a option \<Rightarrow> 'a option" where
  "or_else a b = (case a of None \<Rightarrow> b | Some x \<Rightarrow> Some x)"

definition unenforceable_axis_in_report ::
  "Caveats \<Rightarrow> EnforcementReport \<Rightarrow> EnforcementFloor \<Rightarrow> UnenforceableAxis option" where
  "unenforceable_axis_in_report effective r f =
     or_else (or_else (or_else (check_axis effective r f Axis_FsRead)
       (check_axis effective r f Axis_FsWrite)) (check_axis effective r f Axis_Net))
       (check_axis effective r f Axis_Exec)"

definition unenforceable_axis ::
  "host \<Rightarrow> Caveats \<Rightarrow> ConfinementMechanism \<Rightarrow> EnforcementFloor \<Rightarrow> UnenforceableAxis option" where
  "unenforceable_axis h effective m f =
     unenforceable_axis_in_report effective (enforcement_report h effective m) f"

subsection \<open>Lemmas\<close>

lemmas axis_defs = requirement_def restricted_in_def witness_in_def

lemma Advisory_le [simp]: "Advisory \<le> a"
  by (cases a) (simp_all add: less_eq_AxisEnforcement_def)

lemma le_Kernel [simp]: "(a :: AxisEnforcement) \<le> Kernel"
  by (cases a) (simp_all add: less_eq_AxisEnforcement_def)

lemma Kernel_le [simp]: "Kernel \<le> a \<longleftrightarrow> a = Kernel"
  by (cases a) (simp_all add: less_eq_AxisEnforcement_def)

lemma AxisEnforcement_le_simps [simp]:
  "\<not> Interceptor \<le> Advisory" "\<not> Kernel < a"
  by (simp add: less_eq_AxisEnforcement_def) (simp add: not_less)

lemma max_Kernel [simp]: "max Kernel a = Kernel" "max a Kernel = Kernel"
  by (simp_all add: max_def)

lemma or_else_None [simp]: "or_else a b = None \<longleftrightarrow> a = None \<and> b = None"
  by (simp add: or_else_def split: option.splits)

lemma is_restricted_iff: "is_restricted s \<longleftrightarrow> s \<noteq> ScopeAll"
  by (cases s) (simp_all add: is_restricted_def)

lemma then_some_Some [simp]: "then_some b x = Some y \<longleftrightarrow> b \<and> x = y"
  by (simp add: then_some_def)

lemma witness_in_report:
  "witness_in axis (enforcement_report h c m) = None \<longleftrightarrow> \<not> restricted_in axis c"
  by (cases axis) (simp_all add: axis_defs enforcement_report_def then_some_def)

lemma check_axis_None:
  "check_axis c r f axis = None \<longleftrightarrow>
     (restricted_in axis c \<longrightarrow> (\<exists>a. witness_in axis r = Some a \<and> requirement f axis \<le> a))"
  by (auto simp: check_axis_def split: option.splits)

lemma check_axis_Some:
  "check_axis c r f axis = Some u \<Longrightarrow>
     ua_axis u = axis \<and> ua_required u = requirement f axis \<and> ua_actual u = witness_in axis r \<and>
     restricted_in axis c \<and> (\<forall>a. witness_in axis r = Some a \<longrightarrow> a < requirement f axis)"
  by (auto simp: check_axis_def not_le split: option.splits if_splits)

lemma unenforceable_in_report_None:
  "unenforceable_axis_in_report c r f = None \<longleftrightarrow> (\<forall>axis. check_axis c r f axis = None)"
  by (auto simp: unenforceable_axis_in_report_def) (metis ConfinedAxis.exhaust)

lemma unenforceable_in_report_Some:
  "unenforceable_axis_in_report c r f = Some u \<Longrightarrow> check_axis c r f (ua_axis u) = Some u"
  unfolding unenforceable_axis_in_report_def or_else_def
  by (auto split: option.splits) (use check_axis_Some in metis)+

lemma requirement_join:
  "requirement (floor_join f g) axis = max (requirement f axis) (requirement g axis)"
  by (cases axis) (simp_all add: requirement_def floor_join_def)

lemma unenforceable_join:
  "unenforceable_axis h c m (floor_join f g) = None \<longleftrightarrow>
     unenforceable_axis h c m f = None \<and> unenforceable_axis h c m g = None"
proof -
  have "(\<forall>axis. check_axis c r (floor_join f g) axis = None) \<longleftrightarrow>
      (\<forall>axis. check_axis c r f axis = None) \<and> (\<forall>axis. check_axis c r g axis = None)" for r
    unfolding check_axis_None requirement_join max.bounded_iff by (metis option.inject)
  then show ?thesis by (simp add: unenforceable_axis_def unenforceable_in_report_None)
qed

lemma floor_eqI: "(\<And>axis. requirement f axis = requirement g axis) \<Longrightarrow> f = g"
proof -
  assume eq: "\<And>axis. requirement f axis = requirement g axis"
  show "f = g"
    using eq [of Axis_FsRead] eq [of Axis_FsWrite] eq [of Axis_Net] eq [of Axis_Exec]
    by (cases f; cases g) (simp add: requirement_def)
qed

interpretation floor: semilattice floor_join
proof
  fix a b c :: EnforcementFloor
  show "floor_join (floor_join a b) c = floor_join a (floor_join b c)"
    by (rule floor_eqI) (simp add: requirement_join max.assoc)
  show "floor_join a b = floor_join b a"
    by (rule floor_eqI) (simp add: requirement_join max.commute)
  show "floor_join a a = a"
    by (rule floor_eqI) (simp add: requirement_join)
qed

definition fs_pinned :: "EnforcementFloor \<Rightarrow> bool" where
  "fs_pinned f \<longleftrightarrow> flr_fs_read f = Kernel \<and> flr_fs_write f = Kernel"

lemma fs_pinned_intros [simp, intro]:
  "fs_pinned FLOOR_DEFAULT" "fs_pinned FLOOR_CONFINED" "fs_pinned (from_scalar a)"
  "fs_pinned f \<Longrightarrow> fs_pinned (floor_join f g)"
  by (simp_all add: fs_pinned_def FLOOR_DEFAULT_def FLOOR_CONFINED_def from_scalar_def floor_join_def)

lemma floor_deserialize_pinned: "floor_deserialize w = Inr f \<Longrightarrow> fs_pinned f"
  by (auto simp: floor_deserialize_def fs_pinned_def split: if_splits option.splits)

lemma opt_min_None [simp]: "opt_min xs = None \<longleftrightarrow> xs = []"
  by (cases xs) (simp_all split: option.splits)

lemma opt_min_Some: "opt_min xs = Some m \<Longrightarrow> m \<in> set xs \<and> (\<forall>x \<in> set xs. m \<le> x)"
  by (induction xs arbitrary: m) (auto simp: min_def split: option.splits intro: order_trans)

subsection \<open>Properties\<close>

text \<open>The four axes in the order in which a refusal names them, each with its scope, the strength the report carries
  for it and its floor; and what it means for one to fall short.\<close>

definition axis_table ::
  "Caveats \<Rightarrow> EnforcementReport \<Rightarrow> EnforcementFloor \<Rightarrow>
   (ConfinedAxis \<times> string Scope \<times> AxisEnforcement option \<times> AxisEnforcement) list" where
  "axis_table c r f =
     [(Axis_FsRead, cav_fs_read c, rep_fs_read r, flr_fs_read f), (Axis_FsWrite, cav_fs_write c, rep_fs_write r, flr_fs_write f),
      (Axis_Net, cav_net c, rep_net r, flr_net f), (Axis_Exec, cav_exec c, rep_exec r, flr_exec f)]"

fun falls_short :: "ConfinedAxis \<times> string Scope \<times> AxisEnforcement option \<times> AxisEnforcement \<Rightarrow> bool" where
  "falls_short (_, ScopeAll, _, _) = False"
| "falls_short (_, ScopeOnly _, None, _) = True"
| "falls_short (_, ScopeOnly _, Some Kernel, _) = False"
| "falls_short (_, ScopeOnly _, Some Interceptor, demanded) = (demanded = Kernel)"
| "falls_short (_, ScopeOnly _, Some Advisory, demanded) = (demanded \<noteq> Advisory)"

lemma falls_short_iff:
  "falls_short (axis, scope, actual, demanded) \<longleftrightarrow> is_restricted scope \<and> (\<forall>a. actual = Some a \<longrightarrow> \<not> demanded \<le> a)"
  by (cases "(axis, scope, actual, demanded)" rule: falls_short.cases; cases demanded)
    (simp_all add: is_restricted_def less_eq_AxisEnforcement_def)

lemma check_axis_row:
  "check_axis c r f axis =
     (if is_restricted scope \<and> (\<forall>a. actual = Some a \<longrightarrow> \<not> demanded \<le> a)
      then Some \<lparr>ua_axis = axis, ua_required = demanded, ua_actual = actual\<rparr> else None)"
  if "restricted_in axis c = is_restricted scope" "witness_in axis r = actual" "requirement f axis = demanded"
  using that by (auto simp: check_axis_def split: option.splits)

text \<open>C13. The acceptance rule of a confinement site, exactly. Of the axes in the order file reads, file writes, network,
  exec, it names the first one that is restricted by the caveats and whose reported strength is missing or below
  the floor of that axis, with the strength that was required and the one that was delivered, and it accepts when
  there is none. An unrestricted axis never causes a refusal.\<close>
theorem unenforceable_axis_exact:
  "unenforceable_axis_in_report c r f =
     map_option (\<lambda>(axis, scope, actual, demanded). \<lparr>ua_axis = axis, ua_required = demanded, ua_actual = actual\<rparr>)
       (find falls_short (axis_table c r f))"
proof -
  have "check_axis c r f Axis_FsRead = (if falls_short (Axis_FsRead, cav_fs_read c, rep_fs_read r, flr_fs_read f)
      then Some \<lparr>ua_axis = Axis_FsRead, ua_required = flr_fs_read f, ua_actual = rep_fs_read r\<rparr> else None)"
    "check_axis c r f Axis_FsWrite = (if falls_short (Axis_FsWrite, cav_fs_write c, rep_fs_write r, flr_fs_write f)
      then Some \<lparr>ua_axis = Axis_FsWrite, ua_required = flr_fs_write f, ua_actual = rep_fs_write r\<rparr> else None)"
    "check_axis c r f Axis_Net = (if falls_short (Axis_Net, cav_net c, rep_net r, flr_net f)
      then Some \<lparr>ua_axis = Axis_Net, ua_required = flr_net f, ua_actual = rep_net r\<rparr> else None)"
    "check_axis c r f Axis_Exec = (if falls_short (Axis_Exec, cav_exec c, rep_exec r, flr_exec f)
      then Some \<lparr>ua_axis = Axis_Exec, ua_required = flr_exec f, ua_actual = rep_exec r\<rparr> else None)"
    unfolding falls_short_iff by (rule check_axis_row; simp add: axis_defs)+
  then show ?thesis by (simp add: unenforceable_axis_in_report_def or_else_def axis_table_def)
qed

definition confined_grant :: Caveats where
  "confined_grant = caveats_top\<lparr>cav_fs_write := ScopeOnly [''/w''], cav_net := ScopeOnly []\<rparr>"

definition plain_host :: host where
  "plain_host = \<lparr>seatbelt_build = False, caller_is_root = False, landlock_net_probe = False\<rparr>"

lemmas confined_example_defs = confined_grant_def plain_host_def caveats_top_def
  enforcement_report_def then_some_def is_restricted_def fs_enforcement_def net_enforcement_def
  exec_enforcement_def net_fully_denied_def mechanism_new_def mechanism_backend_def
  restricted_in_def witness_in_def requirement_def FLOOR_CONFINED_def FLOOR_DEFAULT_def
  check_axis_def or_else_def unenforceable_axis_in_report_def unenforceable_axis_def

theorem unenforceable_axis_exact_witness:
  "unenforceable_axis_in_report confined_grant
     (enforcement_report plain_host confined_grant (mechanism_backend NoSandbox)) FLOOR_CONFINED =
     Some \<lparr>ua_axis = Axis_FsWrite, ua_required = Kernel, ua_actual = Some Interceptor\<rparr>"
  unfolding unenforceable_axis_exact by (simp add: confined_example_defs axis_table_def)

text \<open>A restricted filesystem axis is never admitted without a native backend: for every
  floor a caller can build (the presets, a scalar floor, a join with a pinned floor, or any
  wire form that deserializes), a spawn whose mechanism has no sandbox refuses a grant that
  restricts reads or writes.\<close>
theorem restricted_fs_needs_backend:
  assumes "m_kind m = NoSandbox" and "restricts_fs c"
    and "f \<in> {FLOOR_DEFAULT, FLOOR_CONFINED, from_scalar a, floor_join FLOOR_DEFAULT g} \<or>
         floor_deserialize w = Inr f"
  shows "unenforceable_axis h c m f \<noteq> None"
proof -
  from assms(3) have "fs_pinned f" by (auto dest: floor_deserialize_pinned)
  with assms(1,2) have "\<exists>axis. restricted_in axis c \<and>
      witness_in axis (enforcement_report h c m) = Some Interceptor \<and> requirement f axis = Kernel"
    by (auto simp: restricts_fs_def fs_pinned_def axis_defs enforcement_report_def then_some_def
        is_restricted_def fs_enforcement_def split: Scope.splits
        intro: exI [of _ Axis_FsRead] exI [of _ Axis_FsWrite])
  then show ?thesis
    by (auto simp: unenforceable_axis_def unenforceable_in_report_None check_axis_None)
qed

theorem restricted_fs_needs_backend_witness:
  "unenforceable_axis plain_host confined_grant (mechanism_backend NoSandbox) FLOOR_DEFAULT \<noteq> None \<and>
   floor_deserialize [(''net'', Advisory), (''exec'', Advisory)] = Inr FLOOR_DEFAULT"
proof -
  have w: "floor_deserialize [(''net'', Advisory), (''exec'', Advisory)] = Inr FLOOR_DEFAULT"
    by (simp add: floor_deserialize_def FLOOR_DEFAULT_def)
  have "restricts_fs confined_grant" by (simp add: restricts_fs_def confined_grant_def)
  moreover have "m_kind (mechanism_backend NoSandbox) = NoSandbox"
    by (simp add: mechanism_backend_def mechanism_new_def)
  ultimately show ?thesis
    using restricted_fs_needs_backend
      [of "mechanism_backend NoSandbox" confined_grant FLOOR_DEFAULT] w by blast
qed

text \<open>Joining floors is a semilattice and monotone: a joined floor dominates both operands on
  every axis, and whatever mechanism satisfies the joined floor satisfies each operand, so
  layering a floor can only refuse more.\<close>
theorem floor_join_only_raises:
  "floor_join f g = floor_join g f \<and> floor_join (floor_join f g) k = floor_join f (floor_join g k) \<and>
   floor_join f f = f \<and>
   (\<forall>axis. requirement f axis \<le> requirement (floor_join f g) axis) \<and>
   (unenforceable_axis h c m (floor_join f g) = None \<longrightarrow>
      unenforceable_axis h c m f = None \<and> unenforceable_axis h c m g = None)"
proof (intro conjI allI impI)
  show "floor_join f g = floor_join g f" by (rule floor.commute)
  show "floor_join (floor_join f g) k = floor_join f (floor_join g k)" by (rule floor.assoc)
  show "floor_join f f = f" by (rule floor.idem)
  show "requirement f axis \<le> requirement (floor_join f g) axis" for axis
    by (simp add: requirement_join)
  assume "unenforceable_axis h c m (floor_join f g) = None"
  then show "unenforceable_axis h c m f = None" and "unenforceable_axis h c m g = None"
    by (simp_all add: unenforceable_join)
qed

theorem floor_join_only_raises_witness:
  "unenforceable_axis plain_host confined_grant (mechanism_new Landlock DenyDirect)
     (floor_join FLOOR_DEFAULT FLOOR_CONFINED) = None \<and>
   unenforceable_axis plain_host confined_grant (mechanism_new Landlock DenyDirect) FLOOR_CONFINED = None"
proof -
  have "unenforceable_axis plain_host confined_grant (mechanism_new Landlock DenyDirect)
     (floor_join FLOOR_DEFAULT FLOOR_CONFINED) = None"
    by (simp add: confined_example_defs floor_join_def max_def)
  then show ?thesis
    using floor_join_only_raises [of FLOOR_DEFAULT FLOOR_CONFINED FLOOR_DEFAULT plain_host
        confined_grant "mechanism_new Landlock DenyDirect"] by simp
qed

text \<open>The fence strength is the greatest lower bound of the delivered per-axis strengths:
  it is absent exactly for an empty report, and otherwise it is one of the delivered strengths
  and below all of them.\<close>
theorem fence_strength_is_weakest_axis:
  "(fence_strength r = None \<longleftrightarrow> report_is_empty r) \<and>
   (\<forall>s. fence_strength r = Some s \<longrightarrow>
      (\<exists>axis. witness_in axis r = Some s) \<and>
      (\<forall>axis a. witness_in axis r = Some a \<longrightarrow> s \<le> a))"
proof (intro conjI allI impI)
  show "fence_strength r = None \<longleftrightarrow> report_is_empty r"
    by (auto simp: fence_strength_def report_is_empty_def map_filter_simps split: option.splits)
  fix s assume s: "fence_strength r = Some s"
  let ?xs = "List.map_filter id [rep_fs_read r, rep_fs_write r, rep_exec r, rep_net r]"
  have mem: "x \<in> set ?xs \<longleftrightarrow> (\<exists>axis. witness_in axis r = Some x)" for x
  proof
    assume "x \<in> set ?xs"
    then show "\<exists>axis. witness_in axis r = Some x"
      by (auto simp: map_filter_simps witness_in_def split: option.splits
          intro: exI [of _ Axis_FsRead] exI [of _ Axis_FsWrite] exI [of _ Axis_Net] exI [of _ Axis_Exec])
  next
    assume "\<exists>axis. witness_in axis r = Some x"
    then obtain axis where "witness_in axis r = Some x" ..
    then show "x \<in> set ?xs"
      by (cases axis) (auto simp: map_filter_simps witness_in_def split: option.splits)
  qed
  from s opt_min_Some [of ?xs s] mem
  show "\<exists>axis. witness_in axis r = Some s" and "\<And>axis a. witness_in axis r = Some a \<Longrightarrow> s \<le> a"
    by (auto simp: fence_strength_def)
qed

theorem fence_strength_is_weakest_axis_witness:
  "fence_strength (enforcement_report plain_host confined_grant (mechanism_backend Landlock)) =
     Some Advisory \<and> Advisory \<le> Kernel \<and>
   \<not> report_is_empty (enforcement_report plain_host confined_grant (mechanism_backend Landlock))"
proof -
  let ?r = "enforcement_report plain_host confined_grant (mechanism_backend Landlock)"
  have "fence_strength ?r = Some Advisory"
    by (simp add: fence_strength_def map_filter_simps confined_example_defs min_def)
  then show ?thesis using fence_strength_is_weakest_axis [of ?r] by auto
qed

end
