(* ===== verification/Tool_Context.thy ===== *)
theory Tool_Context
  imports Enforcement_Report
begin

text \<open>
  The mint-token and its leash checks (\<^verbatim>\<open>agent-bridle-core/src/context.rs\<close>). A Unix
  \<^verbatim>\<open>Path\<close> is its sequence of components, the form in which the standard library compares
  paths, takes parents and tests prefixes. What the operating system answers (real-path
  resolution, existence, opening a file) is the record \<open>os\<close>: one snapshot of the file system.
\<close>

subsection \<open>Paths\<close>

datatype component = RootDir | CurDir | ParentDir | Normal string

type_synonym path = "component list"

fun split_slash :: "string \<Rightarrow> string list" where
  "split_slash [] = [[]]"
| "split_slash (c # cs) =
     (if c = CHR ''/'' then [] # split_slash cs
      else (case split_slash cs of [] \<Rightarrow> [[c]] | seg # segs \<Rightarrow> (c # seg) # segs))"

definition component_of :: "string \<Rightarrow> component" where
  "component_of seg = (if seg = ''..'' then ParentDir else Normal seg)"

definition components :: "string \<Rightarrow> path" where
  "components p =
     (case split_slash p of
        [] \<Rightarrow> []
      | seg # segs \<Rightarrow>
          (if p \<noteq> [] \<and> hd p = CHR ''/'' then [RootDir] else if seg = ''.'' then [CurDir] else [])) @
     map component_of (filter (\<lambda>s. s \<noteq> [] \<and> s \<noteq> ''.'') (split_slash p))"

definition path_file_name :: "path \<Rightarrow> string option" where
  "path_file_name p = (if p = [] then None else (case last p of Normal n \<Rightarrow> Some n | _ \<Rightarrow> None))"

definition path_parent :: "path \<Rightarrow> path option" where
  "path_parent p = (if p = [] \<or> last p = RootDir then None else Some (butlast p))"

subsection \<open>The token\<close>

record ToolContext =
  effective :: Caveats
  sandbox_kind :: SandboxKind
  strength_floor :: EnforcementFloor

definition mint :: "Caveats \<Rightarrow> SandboxKind \<Rightarrow> EnforcementFloor \<Rightarrow> ToolContext" where
  "mint eff kind floor = \<lparr>effective = eff, sandbox_kind = kind, strength_floor = floor\<rparr>"

subsection \<open>Exact and basename membership\<close>

definition scope_allows :: "string Scope \<Rightarrow> string \<Rightarrow> bool" where
  "scope_allows scope item =
     (case scope of ScopeAll \<Rightarrow> True | ScopeOnly s \<Rightarrow> item \<in> set s)"

definition exec_scope_allows :: "string Scope \<Rightarrow> string \<Rightarrow> bool" where
  "exec_scope_allows scope program =
     (case scope of
        ScopeAll \<Rightarrow> True
      | ScopeOnly s \<Rightarrow>
          if program \<in> set s then True
          else (case path_file_name (components program) of
              Some base \<Rightarrow> if base \<in> set s then True else False
            | None \<Rightarrow> False))"

definition check_exec :: "ToolContext \<Rightarrow> string \<Rightarrow> unit ToolResult" where
  "check_exec cx program =
     (if exec_scope_allows (cav_exec (effective cx)) program then Inr ()
      else Inl (denied ''exec of {program:?} is not within the granted authority'' [program]))"

definition check_net :: "ToolContext \<Rightarrow> string \<Rightarrow> unit ToolResult" where
  "check_net cx host =
     (if scope_allows (cav_net (effective cx)) host then Inr ()
      else Inl (denied ''network access to {host:?} is not within the granted authority'' [host]))"

subsection \<open>Path checks\<close>

record 'file os =
  os_canonicalize :: "path \<Rightarrow> io_error + path"
  os_exists :: "path \<Rightarrow> bool"
  os_plain_open :: "path \<Rightarrow> bool option \<Rightarrow> io_error + 'file"
  os_beneath_open :: "path \<Rightarrow> path \<Rightarrow> bool option \<Rightarrow> io_error + 'file"
  os_is_refusal :: "io_error \<Rightarrow> bool"

function walk_up :: "(path \<Rightarrow> bool) \<Rightarrow> path \<Rightarrow> component list \<Rightarrow> io_error + (path \<times> component list)" where
  "walk_up fs_exists existing tail =
     (if fs_exists existing then Inr (existing, tail)
      else (case path_parent existing of
          Some parent \<Rightarrow>
            (case path_file_name existing of
               Some name \<Rightarrow> walk_up fs_exists parent (tail @ [Normal name])
             | None \<Rightarrow> Inl (Io NotFoundKind ''path has no resolvable existing ancestor''))
        | None \<Rightarrow> Inl (Io NotFoundKind ''no existing ancestor to canonicalize'')))"
  by pat_completeness auto
termination
  by (relation "measure (\<lambda>(_, p, _). length p)")
    (auto simp: path_parent_def length_butlast split: if_splits)

fun push_tail :: "path \<Rightarrow> component list \<Rightarrow> io_error + path" where
  "push_tail base [] = Inr base"
| "push_tail base (Normal name # rest) = push_tail (base @ [Normal name]) rest"
| "push_tail base (ParentDir # rest) =
     Inl (Io InvalidInputKind ''refusing to resolve `..` in a non-existent path tail'')"
| "push_tail base (_ # rest) = Inl (Io InvalidInputKind ''unexpected component in path tail'')"

definition canonicalize_for_check :: "'file os \<Rightarrow> path \<Rightarrow> io_error + path" where
  "canonicalize_for_check fs p =
     (case os_canonicalize fs p of
        Inr c \<Rightarrow> Inr c
      | Inl _ \<Rightarrow>
          (case walk_up (os_exists fs) p [] of
             Inl e \<Rightarrow> Inl e
           | Inr (existing, tail) \<Rightarrow>
               (case os_canonicalize fs existing of
                  Inl e \<Rightarrow> Inl e
                | Inr base \<Rightarrow> push_tail base (rev tail))))"

definition path_is_within :: "path \<Rightarrow> path \<Rightarrow> bool" where
  "path_is_within candidate base = (candidate = base \<or> prefix base candidate)"

fun find_base :: "'file os \<Rightarrow> path \<Rightarrow> string list \<Rightarrow> path option" where
  "find_base fs canon [] = None"
| "find_base fs canon (entry # rest) =
     (case canonicalize_for_check fs (components entry) of
        Inl _ \<Rightarrow> find_base fs canon rest
      | Inr base \<Rightarrow> if path_is_within canon base then Some base else find_base fs canon rest)"

definition cannot_canonicalize :: "string \<Rightarrow> string \<Rightarrow> io_error \<Rightarrow> ToolError" where
  "cannot_canonicalize op p e =
     denied ''{op} of {path:?} denied: cannot canonicalize ({e})'' [op, p, io_error_text e]"

definition outside_scope :: "string \<Rightarrow> string \<Rightarrow> ToolError" where
  "outside_scope op p =
     denied ''{op} of {} (resolved {}) is not within the granted fs_{op} scope'' [op, p]"

definition check_path :: "'file os \<Rightarrow> string Scope \<Rightarrow> string \<Rightarrow> string \<Rightarrow> unit ToolResult" where
  "check_path fs axis p op =
     (case axis of
        ScopeAll \<Rightarrow> Inr ()
      | ScopeOnly allowed \<Rightarrow>
          (case canonicalize_for_check fs (components p) of
             Inl e \<Rightarrow> Inl (cannot_canonicalize op p e)
           | Inr canon \<Rightarrow>
               (case find_base fs canon allowed of
                  Some _ \<Rightarrow> Inr ()
                | None \<Rightarrow> Inl (outside_scope op p))))"

definition check_path_read :: "'file os \<Rightarrow> ToolContext \<Rightarrow> string \<Rightarrow> unit ToolResult" where
  "check_path_read fs cx p = check_path fs (cav_fs_read (effective cx)) p ''read''"

definition check_path_write :: "'file os \<Rightarrow> ToolContext \<Rightarrow> string \<Rightarrow> unit ToolResult" where
  "check_path_write fs cx p = check_path fs (cav_fs_write (effective cx)) p ''write''"

subsection \<open>Mediated opens\<close>

definition map_open_error :: "'file os \<Rightarrow> string \<Rightarrow> string \<Rightarrow> io_error \<Rightarrow> ToolError" where
  "map_open_error fs op p e =
     (if os_is_refusal fs e \<or> io_error_kind e = InvalidInputKind
      then denied ''{op} of {} escaped the granted fs_{op} scope during resolution ({e})''
        [op, p, io_error_text e]
      else Exec e)"

definition open_scoped ::
  "'file os \<Rightarrow> string Scope \<Rightarrow> string \<Rightarrow> string \<Rightarrow> bool option \<Rightarrow> 'file ToolResult" where
  "open_scoped fs axis p op write_append =
     (case axis of
        ScopeAll \<Rightarrow> (case os_plain_open fs (components p) write_append of
            Inl e \<Rightarrow> Inl (Exec e) | Inr f \<Rightarrow> Inr f)
      | ScopeOnly allowed \<Rightarrow>
          (case canonicalize_for_check fs (components p) of
             Inl e \<Rightarrow> Inl (cannot_canonicalize op p e)
           | Inr canon \<Rightarrow>
               (case find_base fs canon allowed of
                  Some base \<Rightarrow>
                    (case os_beneath_open fs base (drop (length base) canon) write_append of
                       Inl e \<Rightarrow> Inl (map_open_error fs op p e)
                     | Inr f \<Rightarrow> Inr f)
                | None \<Rightarrow> Inl (outside_scope op p))))"

definition open_scoped_read :: "'file os \<Rightarrow> string Scope \<Rightarrow> string \<Rightarrow> 'file ToolResult" where
  "open_scoped_read fs axis p = open_scoped fs axis p ''read'' None"

definition open_scoped_write :: "'file os \<Rightarrow> string Scope \<Rightarrow> string \<Rightarrow> bool \<Rightarrow> 'file ToolResult" where
  "open_scoped_write fs axis p app = open_scoped fs axis p ''write'' (Some app)"

subsection \<open>Lemmas\<close>

declare walk_up.simps [simp del]

lemma split_slash_no_slash: "seg \<in> set (split_slash s) \<Longrightarrow> CHR ''/'' \<notin> set seg"
  by (induction s arbitrary: seg) (auto split: list.splits if_splits)

lemma file_name_no_slash: "path_file_name (components p) = Some n \<Longrightarrow> CHR ''/'' \<notin> set n"
proof -
  assume fn: "path_file_name (components p) = Some n"
  then have "Normal n \<in> set (components p)"
    by (auto simp: path_file_name_def split: if_splits component.splits) (metis last_in_set)
  then have "n \<in> set (split_slash p)"
    by (auto simp: components_def component_of_def split: list.splits if_splits)
  then show ?thesis by (rule split_slash_no_slash)
qed

lemma exec_scope_allows_iff:
  "exec_scope_allows scope program \<longleftrightarrow>
     scope_has scope program \<or> (\<exists>b. path_file_name (components program) = Some b \<and> scope_has scope b)"
  by (auto simp: exec_scope_allows_def split: Scope.splits option.splits)

lemma scope_allows_iff: "scope_allows scope item \<longleftrightarrow> scope_has scope item"
  by (simp add: scope_allows_def split: Scope.splits)

lemma check_exec_ok: "check_exec cx p = Inr () \<longleftrightarrow> exec_scope_allows (cav_exec (effective cx)) p"
  by (simp add: check_exec_def)

lemma check_net_ok: "check_net cx h = Inr () \<longleftrightarrow> scope_has (cav_net (effective cx)) h"
  by (simp add: check_net_def scope_allows_iff)

lemma find_base_Some:
  "find_base fs canon allowed = Some base \<Longrightarrow>
     \<exists>entry \<in> set allowed. canonicalize_for_check fs (components entry) = Inr base \<and> prefix base canon"
  by (induction allowed) (auto simp: path_is_within_def split: sum.splits if_splits)

lemma find_base_None:
  "find_base fs canon allowed = None \<longleftrightarrow>
     (\<forall>entry \<in> set allowed. \<forall>base.
        canonicalize_for_check fs (components entry) = Inr base \<longrightarrow> \<not> prefix base canon)"
  by (induction allowed) (auto simp: path_is_within_def split: sum.splits if_splits)

lemma walk_up_Inr:
  "walk_up ex p tail0 = Inr (existing, tail) \<Longrightarrow>
     \<exists>names. p = existing @ map Normal names \<and> tail = tail0 @ map Normal (rev names) \<and> ex existing"
proof (induction ex p tail0 rule: walk_up.induct)
  case (1 ex p tail0)
  show ?case
  proof (cases "ex p")
    case True
    with "1.prems" show ?thesis by (auto simp: walk_up.simps [of ex p tail0])
  next
    case False
    with "1.prems" obtain parent name where pn: "path_parent p = Some parent"
      "path_file_name p = Some name"
      by (auto simp: walk_up.simps [of ex p tail0] split: option.splits)
    with False "1.prems" have "walk_up ex parent (tail0 @ [Normal name]) = Inr (existing, tail)"
      by (simp add: walk_up.simps [of ex p tail0])
    from "1.IH" [OF False pn this] obtain names where
      names: "parent = existing @ map Normal names"
      "tail = (tail0 @ [Normal name]) @ map Normal (rev names)" "ex existing" by blast
    from pn have "p = parent @ [Normal name]"
      by (auto simp: path_parent_def path_file_name_def split: if_splits component.splits)
        (metis append_butlast_last_id)
    with names show ?thesis
      by (intro exI [of _ "names @ [name]"]) simp
  qed
qed

lemma push_tail_Normal: "push_tail base (map Normal ns) = Inr (base @ map Normal ns)"
  by (induction ns arbitrary: base) auto

lemma canonicalize_for_check_cases:
  assumes "canonicalize_for_check fs p = Inr c"
  obtains (whole) "os_canonicalize fs p = Inr c"
    | (ancestor) existing names base where "p = existing @ map Normal names" "os_exists fs existing"
      "os_canonicalize fs existing = Inr base" "c = base @ map Normal names"
  using assms
  by (auto simp: canonicalize_for_check_def rev_map push_tail_Normal split: sum.splits prod.splits
      dest!: walk_up_Inr)

definition canonical :: "path \<Rightarrow> bool" where
  "canonical c \<longleftrightarrow> (\<exists>names. c = RootDir # map Normal names)"

text \<open>What the real-path primitive documents: an absolute path without links or dots.\<close>

definition real_paths :: "'file os \<Rightarrow> bool" where
  "real_paths fs \<longleftrightarrow> (\<forall>p c. os_canonicalize fs p = Inr c \<longrightarrow> canonical c)"

lemma canonicalize_for_check_canonical:
  assumes "real_paths fs" and "canonicalize_for_check fs p = Inr c"
  shows "canonical c"
  using assms(2)
proof (cases rule: canonicalize_for_check_cases)
  case whole
  with assms(1) show ?thesis by (auto simp: real_paths_def)
next
  case (ancestor existing names base)
  with assms(1) have "canonical base" by (auto simp: real_paths_def)
  with ancestor show ?thesis by (auto simp: canonical_def) (metis map_append)
qed

lemma check_path_ok:
  "check_path fs (ScopeOnly allowed) p op = Inr () \<longleftrightarrow>
     (\<exists>canon entry base. canonicalize_for_check fs (components p) = Inr canon \<and> entry \<in> set allowed \<and>
        canonicalize_for_check fs (components entry) = Inr base \<and> prefix base canon)"
  by (auto simp: check_path_def find_base_None split: sum.splits option.splits dest: find_base_Some)

lemma canonical_below:
  assumes "canonical base" and "canonical canon" and "prefix base canon"
  shows "\<exists>names. canon = base @ map Normal names"
proof -
  from assms(3) obtain rel where rel: "canon = base @ rel" by (elim prefixE)
  from assms(1,2) obtain bs ns where "base = RootDir # map Normal bs" "canon = RootDir # map Normal ns"
    by (auto simp: canonical_def)
  with rel have "map Normal ns = map Normal bs @ rel" by simp
  then obtain vs where "rel = map Normal vs" by (auto simp: map_eq_append_conv)
  with rel show ?thesis by blast
qed

subsection \<open>Properties\<close>

text \<open>C12. A path check on a bounded axis admits a path exactly when some granted entry resolves to
  a base that is a component-wise prefix of the resolved path; every refusal is an authority
  denial; and when the operating system resolves real paths, an admitted path resolves to an
  absolute location beneath that base with no link, dot or parent component left, also when its
  tail does not exist yet.\<close>
theorem check_path_containment:
  assumes "real_paths fs"
  shows "(check_path fs (ScopeOnly allowed) p op = Inr () \<longrightarrow>
       (\<exists>entry \<in> set allowed. \<exists>base names.
          canonicalize_for_check fs (components entry) = Inr base \<and> canonical base \<and>
          canonicalize_for_check fs (components p) = Inr (base @ map Normal names))) \<and>
     (\<forall>e. check_path fs (ScopeOnly allowed) p op = Inl e \<longrightarrow> is_denied_error e \<and>
       \<not> (\<exists>entry \<in> set allowed. \<exists>base canon.
          canonicalize_for_check fs (components entry) = Inr base \<and>
          canonicalize_for_check fs (components p) = Inr canon \<and> prefix base canon))"
proof (intro conjI impI allI)
  assume "check_path fs (ScopeOnly allowed) p op = Inr ()"
  then obtain canon entry base where ceb: "canonicalize_for_check fs (components p) = Inr canon"
    "entry \<in> set allowed" "canonicalize_for_check fs (components entry) = Inr base" "prefix base canon"
    by (auto simp: check_path_ok)
  from assms ceb have "canonical base" and "canonical canon"
    by (auto intro: canonicalize_for_check_canonical)
  then have "\<exists>names. canon = base @ map Normal names"
    using \<open>prefix base canon\<close> by (rule canonical_below)
  with ceb \<open>canonical base\<close> show "\<exists>entry \<in> set allowed. \<exists>base names.
      canonicalize_for_check fs (components entry) = Inr base \<and> canonical base \<and>
      canonicalize_for_check fs (components p) = Inr (base @ map Normal names)" by metis
next
  fix e assume e: "check_path fs (ScopeOnly allowed) p op = Inl e"
  then show "is_denied_error e"
    by (auto simp: check_path_def cannot_canonicalize_def outside_scope_def
        split: sum.splits option.splits)
  from e show "\<not> (\<exists>entry \<in> set allowed. \<exists>base canon.
      canonicalize_for_check fs (components entry) = Inr base \<and>
      canonicalize_for_check fs (components p) = Inr canon \<and> prefix base canon)"
    using check_path_ok [of fs allowed p op] by (metis Inl_Inr_False)
qed

definition tiny_fs :: "unit os" where
  "tiny_fs = \<lparr>os_canonicalize = (\<lambda>p. if p = [RootDir, Normal ''w''] then Inr p
        else if p = [RootDir, Normal ''link''] then Inr [RootDir, Normal ''etc'']
        else if p = [RootDir] then Inr p else Inl (Io NotFoundKind [])),
     os_exists = (\<lambda>p. p \<in> {[RootDir], [RootDir, Normal ''w''], [RootDir, Normal ''link'']}),
     os_plain_open = (\<lambda>_ _. Inr ()), os_beneath_open = (\<lambda>_ _ _. Inr ()),
     os_is_refusal = (\<lambda>_. False)\<rparr>"

lemma tiny_fs_real: "real_paths tiny_fs"
  by (auto simp: real_paths_def tiny_fs_def canonical_def split: if_splits)
    (metis list.simps(8,9))+

theorem check_path_containment_witness:
  "check_path tiny_fs (ScopeOnly [''/w'']) ''/w/new.txt'' ''write'' = Inr () \<and>
   canonicalize_for_check tiny_fs (components ''/w/new.txt'') =
     Inr [RootDir, Normal ''w'', Normal ''new.txt''] \<and>
   check_path tiny_fs (ScopeOnly [''/w'']) ''/link/x'' ''write'' \<noteq> Inr ()"
proof -
  have new: "canonicalize_for_check tiny_fs (components ''/w/new.txt'') =
      Inr [RootDir, Normal ''w'', Normal ''new.txt'']"
    and link: "canonicalize_for_check tiny_fs (components ''/link/x'') =
      Inr [RootDir, Normal ''etc'', Normal ''x'']"
    and w: "canonicalize_for_check tiny_fs (components ''/w'') = Inr [RootDir, Normal ''w'']"
    by (simp_all add: canonicalize_for_check_def tiny_fs_def components_def component_of_def
        walk_up.simps path_parent_def path_file_name_def)
  then have "check_path tiny_fs (ScopeOnly [''/w'']) ''/w/new.txt'' ''write'' = Inr ()"
    by (simp add: check_path_ok)
  moreover have "check_path tiny_fs (ScopeOnly [''/w'']) ''/link/x'' ''write'' \<noteq> Inr ()"
    using check_path_containment [OF tiny_fs_real, of "[''/w'']" "''/link/x''" "''write''"] link w
    by auto
  ultimately show ?thesis using new by simp
qed

text \<open>The exec check matches the program as named or by its basename, and a grant of full
  paths pins exactly: when every granted entry contains a slash, a program is admitted only by
  its literal string, never by a basename found elsewhere.\<close>
theorem exec_full_path_grant_pins:
  assumes "\<forall>g \<in> set grants. CHR ''/'' \<in> set g"
    and "cav_exec (effective cx) = ScopeOnly grants"
  shows "check_exec cx program = (if program \<in> set grants then Inr () else
      Inl (denied ''exec of {program:?} is not within the granted authority'' [program]))"
  using assms file_name_no_slash
  by (auto simp: check_exec_def exec_scope_allows_iff)

theorem exec_full_path_grant_pins_witness:
  "check_exec (mint (caveats_top\<lparr>cav_exec := ScopeOnly [''/usr/bin/git'']\<rparr>) NoSandbox FLOOR_DEFAULT)
     ''/opt/bin/git'' \<noteq> Inr () \<and>
   check_exec (mint (caveats_top\<lparr>cav_exec := ScopeOnly [''git'']\<rparr>) NoSandbox FLOOR_DEFAULT)
     ''/opt/bin/git'' = Inr ()"
proof -
  let ?cx = "mint (caveats_top\<lparr>cav_exec := ScopeOnly [''/usr/bin/git'']\<rparr>) NoSandbox FLOOR_DEFAULT"
  have "cav_exec (effective ?cx) = ScopeOnly [''/usr/bin/git'']" by (simp add: mint_def)
  then have "check_exec ?cx ''/opt/bin/git'' \<noteq> Inr ()"
    using exec_full_path_grant_pins [of "[''/usr/bin/git'']" ?cx "''/opt/bin/git''"] by simp
  moreover have "check_exec (mint (caveats_top\<lparr>cav_exec := ScopeOnly [''git'']\<rparr>) NoSandbox FLOOR_DEFAULT)
     ''/opt/bin/git'' = Inr ()"
    by (simp add: check_exec_def exec_scope_allows_iff mint_def components_def component_of_def
        path_file_name_def)
  ultimately show ?thesis by simp
qed

text \<open>A mediated open on a bounded axis touches the file system only through the bounded
  primitive, at a base resolved from a granted entry, with the remaining components of the
  resolved path; a path the check would refuse is never opened.\<close>
theorem open_scoped_is_mediated:
  assumes "open_scoped fs (ScopeOnly allowed) p op wa = Inr f"
  shows "check_path fs (ScopeOnly allowed) p op = Inr () \<and>
    (\<exists>entry \<in> set allowed. \<exists>base rel.
       canonicalize_for_check fs (components entry) = Inr base \<and>
       canonicalize_for_check fs (components p) = Inr (base @ rel) \<and>
       os_beneath_open fs base rel wa = Inr f)"
proof -
  from assms obtain canon base where cb: "canonicalize_for_check fs (components p) = Inr canon"
    "find_base fs canon allowed = Some base"
    "os_beneath_open fs base (drop (length base) canon) wa = Inr f"
    by (auto simp: open_scoped_def split: sum.splits option.splits)
  from find_base_Some [OF cb(2)] obtain entry where entry: "entry \<in> set allowed"
    "canonicalize_for_check fs (components entry) = Inr base" "prefix base canon" by blast
  then obtain rel where "canon = base @ rel" by (auto elim: prefixE)
  with cb have "canonicalize_for_check fs (components p) = Inr (base @ rel)"
    and "os_beneath_open fs base rel wa = Inr f" by simp_all
  moreover have "check_path fs (ScopeOnly allowed) p op = Inr ()"
    using cb(1,2) by (simp add: check_path_def)
  ultimately show ?thesis using entry by blast
qed

theorem open_scoped_is_mediated_witness:
  "open_scoped tiny_fs (ScopeOnly [''/w'']) ''/w/new.txt'' ''write'' (Some False) = Inr () \<and>
   check_path tiny_fs (ScopeOnly [''/w'']) ''/w/new.txt'' ''write'' = Inr ()"
proof -
  have "open_scoped tiny_fs (ScopeOnly [''/w'']) ''/w/new.txt'' ''write'' (Some False) = Inr ()"
    by (simp add: open_scoped_def canonicalize_for_check_def tiny_fs_def components_def
        component_of_def walk_up.simps path_parent_def path_file_name_def path_is_within_def)
  then show ?thesis using open_scoped_is_mediated [of tiny_fs "[''/w'']" "''/w/new.txt''" "''write''"
      "Some False" "()"] by simp
qed

text \<open>A relative path with a single component that does not exist is never resolvable for a
  check, even when the working directory is granted, because the empty parent path does not
  exist; the same file written with a leading dot resolves. The comment of the resolver promises
  support for a not-yet-existing final component.\<close>
theorem relative_new_file_refused:
  assumes "\<not> is_ok (os_canonicalize fs [Normal n])" and "\<not> os_exists fs [Normal n]"
    and "\<not> os_exists fs []"
  shows "canonicalize_for_check fs [Normal n] =
      Inl (Io NotFoundKind ''no existing ancestor to canonicalize'') \<and>
    (os_exists fs [CurDir] \<and> os_canonicalize fs [CurDir] = Inr base \<and>
       \<not> is_ok (os_canonicalize fs [CurDir, Normal n]) \<and> \<not> os_exists fs [CurDir, Normal n] \<longrightarrow>
     canonicalize_for_check fs [CurDir, Normal n] = Inr (base @ [Normal n]))"
  using assms
  by (auto simp: canonicalize_for_check_def walk_up.simps path_parent_def path_file_name_def is_ok_def
      split: sum.splits)

definition cwd_fs :: "unit os" where
  "cwd_fs = tiny_fs\<lparr>os_canonicalize := (\<lambda>p. if p = [CurDir] then Inr [RootDir, Normal ''w'']
      else Inl (Io NotFoundKind [])), os_exists := (\<lambda>p. p = [CurDir])\<rparr>"

theorem relative_new_file_refused_witness:
  "\<not> is_ok (canonicalize_for_check cwd_fs [Normal ''out'']) \<and>
   canonicalize_for_check cwd_fs [CurDir, Normal ''out''] =
     Inr [RootDir, Normal ''w'', Normal ''out'']"
proof -
  have hyps: "\<not> is_ok (os_canonicalize cwd_fs [Normal ''out''])" "\<not> os_exists cwd_fs [Normal ''out'']"
    "\<not> os_exists cwd_fs []" "os_exists cwd_fs [CurDir]"
    "os_canonicalize cwd_fs [CurDir] = Inr [RootDir, Normal ''w'']"
    "\<not> is_ok (os_canonicalize cwd_fs [CurDir, Normal ''out''])"
    "\<not> os_exists cwd_fs [CurDir, Normal ''out'']"
    by (simp_all add: cwd_fs_def)
  show ?thesis
    using relative_new_file_refused [OF hyps(1-3), of "[RootDir, Normal ''w'']"] hyps by simp
qed

end
