(* ===== verification/Step_Up.thy ===== *)
theory Step_Up
  imports Tool_Context "HOL-Library.Multiset"
begin

text \<open>
  Human-presence step-up (\<^verbatim>\<open>agent-bridle-core/src/step_up.rs\<close>): the presence order, the
  content address of a call, the challenge bound to it, the three shipped verifiers and the
  per-action policy. Code outside the repository is a parameter: the BLAKE3 fingerprint (\<open>h\<close>),
  the JSON serializer (\<open>ser\<close>), and the signature suites with their parsers (record \<open>crypto\<close>).
  Collision resistance is never assumed: a result that needs it says that a violation exhibits
  two different preimages with one digest. A \<^verbatim>\<open>[u8; 32]\<close> is a byte list of length 32.
\<close>

subsection \<open>Presence\<close>

datatype Presence = NoPresence | Prompt | Passkey

fun presence_rank :: "Presence \<Rightarrow> nat" where
  "presence_rank NoPresence = 0"
| "presence_rank Prompt = 1"
| "presence_rank Passkey = 2"

instantiation Presence :: linorder
begin

definition less_eq_Presence :: "Presence \<Rightarrow> Presence \<Rightarrow> bool" where
  "less_eq_Presence a b \<longleftrightarrow> presence_rank a \<le> presence_rank b"

definition less_Presence :: "Presence \<Rightarrow> Presence \<Rightarrow> bool" where
  "less_Presence a b \<longleftrightarrow> presence_rank a < presence_rank b"

instance
proof
  fix x y z :: Presence
  show "x < y \<longleftrightarrow> x \<le> y \<and> \<not> y \<le> x"
    by (auto simp: less_eq_Presence_def less_Presence_def)
  show "x \<le> x" by (simp add: less_eq_Presence_def)
  show "x \<le> y \<Longrightarrow> y \<le> z \<Longrightarrow> x \<le> z" by (simp add: less_eq_Presence_def)
  show "x \<le> y \<Longrightarrow> y \<le> x \<Longrightarrow> x = y"
    by (cases x; cases y) (simp_all add: less_eq_Presence_def)
  show "x \<le> y \<or> y \<le> x" by (auto simp: less_eq_Presence_def)
qed

end

subsection \<open>Content addresses and challenges\<close>

datatype json =
    JNull
  | JBool bool
  | JNumber string
  | JString string
  | JArray "json list"
  | JObject "(string \<times> json) list"

lemma json_pair_size: "(k, v) \<in> set m \<Longrightarrow> size v < Suc (size_list (size_prod (\<lambda>_. 0) size) m)"
  by (induction m) auto

function canonical_json :: "json \<Rightarrow> json" where
  "canonical_json (JObject m) =
     JObject (sort_key fst (map (\<lambda>kv. (fst kv, canonical_json (snd kv))) m))"
| "canonical_json (JArray items) = JArray (map canonical_json items)"
| "canonical_json JNull = JNull"
| "canonical_json (JBool b) = JBool b"
| "canonical_json (JNumber n) = JNumber n"
| "canonical_json (JString s) = JString s"
  by pat_completeness auto
termination
  by (relation "measure size") (auto intro: json_pair_size simp: less_Suc_eq_le size_list_estimation')

record CallRequest =
  req_tool :: string
  req_args :: json
  req_resource :: string

definition request_new :: "string \<Rightarrow> json \<Rightarrow> string \<Rightarrow> CallRequest" where
  "request_new tool args resource = \<lparr>req_tool = tool, req_args = args, req_resource = resource\<rparr>"

definition unspecified :: "string \<Rightarrow> CallRequest" where
  "unspecified tool = \<lparr>req_tool = tool, req_args = JNull, req_resource = []\<rparr>"

type_synonym hash = "bytes \<Rightarrow> bytes"
type_synonym serializer = "string \<times> json \<times> string \<Rightarrow> bytes"

definition content_preimage :: "serializer \<Rightarrow> CallRequest \<Rightarrow> bytes" where
  "content_preimage ser r = ser (req_tool r, canonical_json (req_args r), req_resource r)"

definition content_id :: "hash \<Rightarrow> serializer \<Rightarrow> CallRequest \<Rightarrow> bytes" where
  "content_id h ser r = h (content_preimage ser r)"

definition CHALLENGE_DOMAIN :: bytes where
  "CHALLENGE_DOMAIN = str_bytes ''agent-bridle/step-up/v2''"

definition challenge_preimage :: "bytes \<Rightarrow> bytes \<Rightarrow> u64 \<Rightarrow> bytes \<Rightarrow> bytes" where
  "challenge_preimage session action generation nonce =
     CHALLENGE_DOMAIN @ session @ action @ to_le_bytes generation @ nonce"

definition challenge_bind :: "hash \<Rightarrow> bytes \<Rightarrow> bytes \<Rightarrow> u64 \<Rightarrow> bytes \<Rightarrow> bytes" where
  "challenge_bind h session action generation nonce =
     h (challenge_preimage session action generation nonce)"

subsection \<open>Requirement, discharge, attestation\<close>

record AttestRequirement =
  att_presence :: Presence
  att_record :: bool
  att_freshness_generations :: u64

definition REQUIREMENT_NONE :: AttestRequirement where
  "REQUIREMENT_NONE = \<lparr>att_presence = NoPresence, att_record = False, att_freshness_generations = 0\<rparr>"

definition requirement_presence :: "Presence \<Rightarrow> AttestRequirement" where
  "requirement_presence p = \<lparr>att_presence = p, att_record = False, att_freshness_generations = 0\<rparr>"

definition passkey_recorded :: AttestRequirement where
  "passkey_recorded = \<lparr>att_presence = Passkey, att_record = True, att_freshness_generations = 0\<rparr>"

definition demands_gesture :: "AttestRequirement \<Rightarrow> bool" where
  "demands_gesture r \<longleftrightarrow> att_presence r > NoPresence"

record Discharge =
  dis_presence :: Presence
  dis_credential_id :: bytes
  dis_challenge :: bytes
  dis_signature :: bytes
  dis_authenticator_data :: "bytes option"
  dis_client_data_json :: "bytes option"

record Attestation =
  rec_schema :: string
  rec_tool :: string
  rec_resource :: string
  rec_challenge :: bytes
  rec_generation :: u64
  rec_credential_id :: bytes
  rec_signature :: bytes
  rec_presence :: Presence

definition ATTESTATION_SCHEMA :: string where
  "ATTESTATION_SCHEMA = ''agent-bridle/attestation/v1''"

definition from_verified :: "string \<Rightarrow> string \<Rightarrow> Discharge \<Rightarrow> u64 \<Rightarrow> Attestation" where
  "from_verified tool resource d generation =
     \<lparr>rec_schema = ATTESTATION_SCHEMA, rec_tool = tool, rec_resource = resource,
      rec_challenge = dis_challenge d, rec_generation = generation,
      rec_credential_id = dis_credential_id d, rec_signature = dis_signature d,
      rec_presence = dis_presence d\<rparr>"

subsection \<open>The verifiers\<close>

type_synonym verifier = "Discharge \<Rightarrow> AttestRequirement \<Rightarrow> bytes \<Rightarrow> string + unit"

text \<open>
  The signature suites and parsers the verifiers call: \<^verbatim>\<open>ed25519_dalek\<close>
  (\<^verbatim>\<open>VerifyingKey::from_bytes\<close>, \<^verbatim>\<open>verify_strict\<close>), \<^verbatim>\<open>p256::ecdsa\<close> (\<^verbatim>\<open>from_sec1_bytes\<close>,
  \<^verbatim>\<open>from_der\<close>, \<^verbatim>\<open>verify\<close>), \<^verbatim>\<open>sha2::Sha256\<close> and the \<^verbatim>\<open>serde_json\<close> reader of the two fields
  \<^verbatim>\<open>type\<close> and \<^verbatim>\<open>challenge\<close> of the client data.
\<close>

record ('vk, 'pk, 'sig) crypto =
  ed_from_bytes :: "bytes \<Rightarrow> string + 'vk"
  ed_verify_strict :: "'vk \<Rightarrow> bytes \<Rightarrow> bytes \<Rightarrow> string + unit"
  p256_from_sec1 :: "bytes \<Rightarrow> 'pk option"
  p256_from_der :: "bytes \<Rightarrow> 'sig option"
  p256_verify :: "'pk \<Rightarrow> bytes \<Rightarrow> 'sig \<Rightarrow> string + unit"
  sha256 :: "bytes \<Rightarrow> bytes"
  parse_client_data :: "bytes \<Rightarrow> string + (string \<times> string)"

definition ed25519_check ::
  "('vk, 'pk, 'sig) crypto \<Rightarrow> Discharge \<Rightarrow> bytes \<Rightarrow> string + unit" where
  "ed25519_check cr d msg =
     (if length (dis_credential_id d) \<noteq> 32 then Inl ''credential id is not a 32-byte ed25519 key''
      else (case ed_from_bytes cr (dis_credential_id d) of
          Inl e \<Rightarrow> Inl e
        | Inr vk \<Rightarrow>
            if length (dis_signature d) \<noteq> 64 then Inl ''signature is not 64 bytes''
            else ed_verify_strict cr vk msg (dis_signature d)))"

definition Ed25519Verifier :: "('vk, 'pk, 'sig) crypto \<Rightarrow> verifier" where
  "Ed25519Verifier cr d required expected =
     (if dis_presence d < att_presence required then Inl ''presence {:?} is below required {:?}''
      else if dis_challenge d \<noteq> expected then Inl ''discharge does not answer this action's challenge''
      else ed25519_check cr d expected)"

definition B64_TABLE :: string where
  "B64_TABLE = ''ABCDEFGHIJKLMNOPQRSTUVWXYZabcdefghijklmnopqrstuvwxyz0123456789-_''"

definition b64_group :: "u8 \<Rightarrow> u8 \<Rightarrow> u8 \<Rightarrow> u32" where
  "b64_group b0 b1 b2 = or (or (push_bit 16 (ucast b0)) (push_bit 8 (ucast b1))) (ucast b2)"

definition b64_digit :: "u32 \<Rightarrow> nat \<Rightarrow> char" where
  "b64_digit n shift = B64_TABLE ! unat (and (drop_bit shift n) 63)"

fun base64url_nopad :: "bytes \<Rightarrow> string" where
  "base64url_nopad [] = []"
| "base64url_nopad [b0] =
     (let n = b64_group b0 0 0 in [b64_digit n 18, b64_digit n 12])"
| "base64url_nopad [b0, b1] =
     (let n = b64_group b0 b1 0 in [b64_digit n 18, b64_digit n 12, b64_digit n 6])"
| "base64url_nopad (b0 # b1 # b2 # rest) =
     (let n = b64_group b0 b1 b2
      in [b64_digit n 18, b64_digit n 12, b64_digit n 6, b64_digit n 0] @ base64url_nopad rest)"

definition flag_up :: "bytes \<Rightarrow> bool" where
  "flag_up auth_data \<longleftrightarrow> and (auth_data ! 32) 1 \<noteq> 0"

definition flag_uv :: "bytes \<Rightarrow> bool" where
  "flag_uv auth_data \<longleftrightarrow> and (auth_data ! 32) 4 \<noteq> 0"

definition webauthn_verify_common ::
  "('vk, 'pk, 'sig) crypto \<Rightarrow> Discharge \<Rightarrow> AttestRequirement \<Rightarrow> bytes \<Rightarrow> string + bytes" where
  "webauthn_verify_common cr d required expected =
     (if dis_presence d < att_presence required then Inl ''presence {:?} is below required {:?}''
      else (case dis_authenticator_data d of
        None \<Rightarrow> Inl ''WebAuthn assertion is missing authenticatorData''
      | Some auth_data \<Rightarrow>
        (case dis_client_data_json d of
          None \<Rightarrow> Inl ''WebAuthn assertion is missing clientDataJSON''
        | Some client_data \<Rightarrow>
            if length auth_data < 37 then Inl ''authenticatorData is too short''
            else if \<not> flag_up auth_data
              then Inl ''authenticatorData User-Presence (UP) flag is not set''
            else if att_presence required \<ge> Passkey \<and> \<not> flag_uv auth_data
              then Inl ''authenticatorData User-Verification (UV) flag is required for Passkey but not set''
            else (case parse_client_data cr client_data of
                Inl e \<Rightarrow> Inl e
              | Inr (typ, challenge) \<Rightarrow>
                  if typ \<noteq> ''webauthn.get'' then Inl ''clientDataJSON.type is {:?}, expected webauthn.get''
                  else if challenge \<noteq> base64url_nopad expected
                    then Inl ''assertion does not answer this action's challenge''
                  else if dis_challenge d \<noteq> expected
                    then Inl ''discharge challenge does not match the gate-recomputed challenge''
                  else Inr (auth_data @ sha256 cr client_data)))))"

definition WebAuthnVerifier :: "('vk, 'pk, 'sig) crypto \<Rightarrow> verifier" where
  "WebAuthnVerifier cr d required expected =
     (case webauthn_verify_common cr d required expected of
        Inl e \<Rightarrow> Inl e
      | Inr msg \<Rightarrow> ed25519_check cr d msg)"

definition WebAuthnEs256Verifier :: "('vk, 'pk, 'sig) crypto \<Rightarrow> verifier" where
  "WebAuthnEs256Verifier cr d required expected =
     (case webauthn_verify_common cr d required expected of
        Inl e \<Rightarrow> Inl e
      | Inr msg \<Rightarrow>
          (case p256_from_sec1 cr (dis_credential_id d) of
             None \<Rightarrow> Inl ''credential id is not a valid P-256 SEC1 public key''
           | Some vk \<Rightarrow>
               (case p256_from_der cr (dis_signature d) of
                  None \<Rightarrow> Inl ''signature is not a valid DER ECDSA signature''
                | Some sig \<Rightarrow> p256_verify cr vk msg sig)))"

subsection \<open>The policy\<close>

record Rule =
  rule_selector :: string
  rule_requirement :: AttestRequirement

record StepUpPolicy =
  pol_rules :: "Rule list"
  pol_default :: AttestRequirement

definition glob_prefix_match :: "string \<Rightarrow> string \<Rightarrow> bool" where
  "glob_prefix_match pattern txt =
     (case strip_suffix_char CHR ''*'' pattern of
        Some pre \<Rightarrow>
          (let pre' = (case strip_suffix_char CHR ''*'' pre of Some q \<Rightarrow> q | None \<Rightarrow> pre)
           in prefix pre' txt)
      | None \<Rightarrow> pattern = txt)"

definition rule_matches :: "Rule \<Rightarrow> CallRequest \<Rightarrow> bool" where
  "rule_matches rule request =
     (let (tool, resource_glob) =
        (case split_once CHR '':'' (rule_selector rule) of
           Some (tool, glob) \<Rightarrow> (tool, Some glob)
         | None \<Rightarrow> (rule_selector rule, None))
      in if tool \<noteq> req_tool request then False
         else (case resource_glob of
             None \<Rightarrow> True
           | Some glob \<Rightarrow> glob_prefix_match glob (req_resource request)))"

definition POLICY_EMPTY :: StepUpPolicy where
  "POLICY_EMPTY = \<lparr>pol_rules = [], pol_default = REQUIREMENT_NONE\<rparr>"

fun best_rule :: "CallRequest \<Rightarrow> Rule option \<Rightarrow> Rule list \<Rightarrow> Rule option" where
  "best_rule request best [] = best"
| "best_rule request best (rule # rules) =
     best_rule request
       (if rule_matches rule request \<and>
           (case best of None \<Rightarrow> True
            | Some b \<Rightarrow> length (rule_selector rule) > length (rule_selector b))
        then Some rule else best) rules"

definition required_for :: "StepUpPolicy \<Rightarrow> CallRequest \<Rightarrow> AttestRequirement" where
  "required_for policy request =
     (case best_rule request None (pol_rules policy) of
        None \<Rightarrow> pol_default policy
      | Some r \<Rightarrow> rule_requirement r)"

datatype suite = Ed25519 | WebAuthn | WebAuthnEs256

fun shipped_verifier :: "('vk, 'pk, 'sig) crypto \<Rightarrow> suite \<Rightarrow> verifier" where
  "shipped_verifier cr Ed25519 = Ed25519Verifier cr"
| "shipped_verifier cr WebAuthn = WebAuthnVerifier cr"
| "shipped_verifier cr WebAuthnEs256 = WebAuthnEs256Verifier cr"

subsection \<open>JSON values up to the order of object keys\<close>

function json_wf :: "json \<Rightarrow> bool" where
  "json_wf (JObject m) \<longleftrightarrow> distinct (map fst m) \<and> list_all (\<lambda>kv. json_wf (snd kv)) m"
| "json_wf (JArray items) \<longleftrightarrow> list_all json_wf items"
| "json_wf JNull \<longleftrightarrow> True"
| "json_wf (JBool b) \<longleftrightarrow> True"
| "json_wf (JNumber n) \<longleftrightarrow> True"
| "json_wf (JString s) \<longleftrightarrow> True"
  by pat_completeness auto
termination
  by (relation "measure size") (auto intro: json_pair_size simp: less_Suc_eq_le size_list_estimation')

inductive json_perm :: "json \<Rightarrow> json \<Rightarrow> bool" where
  leaf: "json_perm v v"
| array: "list_all2 json_perm xs ys \<Longrightarrow> json_perm (JArray xs) (JArray ys)"
| object: "list_all2 (\<lambda>x y. fst x = fst y \<and> json_perm (snd x) (snd y)) m m' \<Longrightarrow>
    mset m' = mset m'' \<Longrightarrow> json_perm (JObject m) (JObject m'')"

definition json_equiv :: "json \<Rightarrow> json \<Rightarrow> bool" where
  "json_equiv a b \<longleftrightarrow> (\<exists>c. json_perm a c \<and> json_perm b c)"

lemma json_perm_canonical: "json_perm v (canonical_json v)"
proof (induction v rule: canonical_json.induct)
  case (1 m)
  let ?m' = "map (\<lambda>kv. (fst kv, canonical_json (snd kv))) m"
  have "list_all2 (\<lambda>x y. fst x = fst y \<and> json_perm (snd x) (snd y)) m ?m'"
    using 1 by (auto simp: list_all2_map2 intro!: list.rel_refl_strong)
  then have "json_perm (JObject m) (JObject (sort_key fst ?m'))"
    by (rule json_perm.object) simp
  then show ?case by simp
next
  case (2 items)
  then have "list_all2 json_perm items (map canonical_json items)"
    by (auto simp: list_all2_map2 intro!: list.rel_refl_strong)
  then show ?case by (simp add: json_perm.array)
qed (simp_all add: json_perm.leaf)

lemma list_all2_key_canonical:
  assumes "list_all2 (\<lambda>x y. fst x = fst y \<and> canonical_json (snd x) = canonical_json (snd y)) m m'"
  shows "map (\<lambda>kv. (fst kv, canonical_json (snd kv))) m =
    map (\<lambda>kv. (fst kv, canonical_json (snd kv))) m' \<and> map fst m = map fst m'"
  using assms by (induction rule: list_all2_induct) auto

lemma sort_distinct_keys:
  assumes "mset xs = mset ys" and "distinct (map fst xs)"
  shows "sort_key fst xs = sort_key fst ys"
proof -
  from assms(2) have "inj_on fst (set xs)" by (simp add: distinct_map)
  then show ?thesis using assms(1) by (intro sort_key_inj_key_eq) simp_all
qed

lemma json_perm_canonical_eq:
  "json_perm a b \<Longrightarrow> json_wf a \<Longrightarrow> canonical_json a = canonical_json b"
proof (induction rule: json_perm.induct)
  case (array xs ys)
  then have "list_all2 (\<lambda>x y. canonical_json x = canonical_json y) xs ys"
    by (auto simp: list_all_iff intro: list.rel_mono_strong)
  then have "map canonical_json xs = map canonical_json ys"
    by (induction rule: list_all2_induct) auto
  then show ?case by simp
next
  case (object m m' m'')
  let ?c = "\<lambda>kv. (fst kv, canonical_json (snd kv))"
  from object have "list_all2 (\<lambda>x y. fst x = fst y \<and> canonical_json (snd x) = canonical_json (snd y)) m m'"
    by (auto simp: list_all_iff intro: list.rel_mono_strong)
  from list_all2_key_canonical [OF this] have eq: "map ?c m = map ?c m'" by blast
  have "mset (map ?c m') = mset (map ?c m'')"
    using \<open>mset m' = mset m''\<close> by simp
  moreover have "distinct (map fst (map ?c m'))"
    using object.prems by (simp add: o_def flip: eq)
  ultimately have "sort_key fst (map ?c m') = sort_key fst (map ?c m'')"
    by (rule sort_distinct_keys)
  with eq show ?case by simp
qed simp

lemma json_equiv_iff:
  "json_wf a \<Longrightarrow> json_wf b \<Longrightarrow> json_equiv a b \<longleftrightarrow> canonical_json a = canonical_json b"
  unfolding json_equiv_def by (metis json_perm_canonical json_perm_canonical_eq)

subsection \<open>Encodings\<close>

lemma challenge_preimage_inj:
  assumes "challenge_preimage s a g n = challenge_preimage s' a' g' n'"
    and "length s = 32" "length s' = 32" "length a = 32" "length a' = 32"
  shows "s = s' \<and> a = a' \<and> g = g' \<and> n = n'"
  using assms by (simp add: challenge_preimage_def)

lemma B64_TABLE_distinct: "distinct B64_TABLE" "length B64_TABLE = 64"
  by code_simp+

lemma sextet_mask: "(63 :: u32) = mask 6"
  by (simp add: mask_eq_exp_minus_1)

lemma b64_sextet_less: "unat (and x 63 :: u32) < 64"
proof -
  have "and x 63 = take_bit 6 x" by (simp add: sextet_mask take_bit_eq_mask)
  then show ?thesis using take_bit_nat_less_exp [of 6 "unat x"] by (simp add: unsigned_take_bit_eq)
qed

lemma b64_digit_bits:
  assumes "b64_digit n s = b64_digit m s" and "i < 6"
  shows "bit n (s + i) = bit m (s + i)"
proof -
  from assms(1) have "and (drop_bit s n) 63 = and (drop_bit s m) (63 :: u32)"
    using B64_TABLE_distinct b64_sextet_less
    by (simp add: b64_digit_def nth_eq_iff_index_eq word_unat_eq_iff)
  then have "bit (and (drop_bit s n) 63) i = bit (and (drop_bit s m) (63 :: u32)) i" by simp
  moreover have "bit (63 :: u32) i"
    unfolding sextet_mask using \<open>i < 6\<close> by (simp add: bit_mask_iff)
  ultimately show ?thesis by (simp add: bit_and_iff bit_drop_bit_eq)
qed

lemma bit_b64_group:
  "j < 8 \<Longrightarrow> bit (b64_group b0 b1 b2) (16 + j) = bit b0 j"
  "j < 8 \<Longrightarrow> bit (b64_group b0 b1 b2) (8 + j) = bit b1 j"
  "j < 8 \<Longrightarrow> bit (b64_group b0 b1 b2) j = bit b2 j"
  by (auto simp: b64_group_def bit_or_iff bit_push_bit_iff bit_ucast_iff dest: bit_imp_le_length)

lemma b64_bits_first:
  assumes "b64_digit n 18 = b64_digit m 18" "b64_digit n 12 = b64_digit m 12"
    and "n = b64_group b0 b1 b2" "m = b64_group c0 c1 c2"
  shows "b0 = c0"
proof (rule bit_word_eqI)
  fix j :: nat assume "j < LENGTH(8)"
  then have j: "j < 8" by simp
  have "bit n (16 + j) = bit m (16 + j)"
  proof (cases "j < 2")
    case True
    with b64_digit_bits [OF assms(2), of "4 + j"] show ?thesis by (simp add: add.assoc [symmetric])
  next
    case False
    with j b64_digit_bits [OF assms(1), of "j - 2"] show ?thesis by simp
  qed
  with j assms(3,4) show "bit b0 j = bit c0 j" by (simp add: bit_b64_group)
qed

lemma b64_bits_second:
  assumes "b64_digit n 12 = b64_digit m 12" "b64_digit n 6 = b64_digit m 6"
    and "n = b64_group b0 b1 b2" "m = b64_group c0 c1 c2"
  shows "b1 = c1"
proof (rule bit_word_eqI)
  fix j :: nat assume "j < LENGTH(8)"
  then have j: "j < 8" by simp
  have "bit n (8 + j) = bit m (8 + j)"
  proof (cases "j < 4")
    case True
    with b64_digit_bits [OF assms(2), of "2 + j"] show ?thesis by (simp add: add.assoc [symmetric])
  next
    case False
    with j b64_digit_bits [OF assms(1), of "j - 4"] show ?thesis by simp
  qed
  with j assms(3,4) show "bit b1 j = bit c1 j" by (simp add: bit_b64_group)
qed

lemma b64_bits_third:
  assumes "b64_digit n 6 = b64_digit m 6" "b64_digit n 0 = b64_digit m 0"
    and "n = b64_group b0 b1 b2" "m = b64_group c0 c1 c2"
  shows "b2 = c2"
proof (rule bit_word_eqI)
  fix j :: nat assume "j < LENGTH(8)"
  then have j: "j < 8" by simp
  have "bit n j = bit m j"
  proof (cases "j < 6")
    case True
    with b64_digit_bits [OF assms(2), of j] show ?thesis by simp
  next
    case False
    with j b64_digit_bits [OF assms(1), of "j - 6"] show ?thesis by simp
  qed
  with j assms(3,4) show "bit b2 j = bit c2 j" by (simp add: bit_b64_group)
qed

lemmas b64_bits = b64_bits_first [OF _ _ refl refl] b64_bits_second [OF _ _ refl refl]
  b64_bits_third [OF _ _ refl refl]

lemma base64url_nopad_injD: "base64url_nopad xs = base64url_nopad ys \<Longrightarrow> xs = ys"
proof (induction xs arbitrary: ys rule: base64url_nopad.induct)
  case 1
  then show ?case by (cases ys rule: base64url_nopad.cases) (simp_all add: Let_def)
next
  case (2 b0)
  then show ?case by (cases ys rule: base64url_nopad.cases) (simp_all add: Let_def, (blast dest: b64_bits)?)
next
  case (3 b0 b1)
  then show ?case by (cases ys rule: base64url_nopad.cases) (simp_all add: Let_def, (blast dest: b64_bits)?)
next
  case (4 b0 b1 b2 rest)
  then show ?case by (cases ys rule: base64url_nopad.cases) (simp_all add: Let_def, (blast dest: b64_bits)?)
qed

subsection \<open>The verifier contract\<close>

text \<open>
  What the gate relies on of a \<^verbatim>\<open>DischargeVerifier\<close> (its trait documentation): an accepted
  discharge meets the presence floor and answers the challenge it was checked against.
\<close>

locale discharge_verifier =
  fixes verify :: verifier
  assumes meets_floor: "verify d r c = Inr () \<Longrightarrow> att_presence r \<le> dis_presence d"
    and answers: "verify d r c = Inr () \<Longrightarrow> dis_challenge d = c"
begin

lemma one_challenge: "verify d r c = Inr () \<Longrightarrow> verify d r' c' = Inr () \<Longrightarrow> c = c'"
  using answers by metis

lemma too_weak_rejected: "dis_presence d < att_presence r \<Longrightarrow> verify d r c \<noteq> Inr ()"
  using meets_floor by fastforce

end

lemma webauthn_verify_common_Inr:
  "webauthn_verify_common cr d r c = Inr msg \<longleftrightarrow>
     att_presence r \<le> dis_presence d \<and> dis_challenge d = c \<and>
     (\<exists>auth client. dis_authenticator_data d = Some auth \<and> dis_client_data_json d = Some client \<and>
        37 \<le> length auth \<and> flag_up auth \<and> (att_presence r = Passkey \<longrightarrow> flag_uv auth) \<and>
        parse_client_data cr client = Inr (''webauthn.get'', base64url_nopad c) \<and>
        msg = auth @ sha256 cr client)"
proof -
  have "att_presence r \<ge> Passkey \<longleftrightarrow> att_presence r = Passkey"
    by (cases "att_presence r") (simp_all add: less_eq_Presence_def)
  then show ?thesis
    by (auto simp: webauthn_verify_common_def not_less not_le split: option.splits sum.splits)
qed

interpretation ed25519: discharge_verifier "Ed25519Verifier cr" for cr :: "('vk, 'pk, 'sig) crypto"
  by unfold_locales (auto simp: Ed25519Verifier_def split: if_splits)

interpretation webauthn: discharge_verifier "WebAuthnVerifier cr" for cr :: "('vk, 'pk, 'sig) crypto"
  by unfold_locales (auto simp: WebAuthnVerifier_def webauthn_verify_common_Inr split: sum.splits)

interpretation es256: discharge_verifier "WebAuthnEs256Verifier cr" for cr :: "('vk, 'pk, 'sig) crypto"
  by unfold_locales
    (auto simp: WebAuthnEs256Verifier_def webauthn_verify_common_Inr split: sum.splits)

interpretation shipped: discharge_verifier "shipped_verifier cr s" for cr :: "('vk, 'pk, 'sig) crypto" and s
proof unfold_locales
  fix d r c assume "shipped_verifier cr s d r c = Inr ()"
  then show "att_presence r \<le> dis_presence d"
    by (cases s) (auto dest: ed25519.meets_floor webauthn.meets_floor es256.meets_floor)
next
  fix d r c assume "shipped_verifier cr s d r c = Inr ()"
  then show "dis_challenge d = c"
    by (cases s) (auto dest: ed25519.answers webauthn.answers es256.answers)
qed

lemma best_rule_None: "best_rule req best rules = None \<longleftrightarrow>
    best = None \<and> (\<forall>r \<in> set rules. \<not> rule_matches r req)"
  by (induction req best rules rule: best_rule.induct) auto

lemma best_rule_Some:
  "best_rule req best rules = Some r \<Longrightarrow>
     (best = Some r \<and>
        (\<forall>x \<in> set rules. rule_matches x req \<longrightarrow> length (rule_selector x) \<le> length (rule_selector r))) \<or>
     (\<exists>pre post. rules = pre @ r # post \<and> rule_matches r req \<and>
        (\<forall>b. best = Some b \<longrightarrow> length (rule_selector b) < length (rule_selector r)) \<and>
        (\<forall>x \<in> set pre. rule_matches x req \<longrightarrow> length (rule_selector x) < length (rule_selector r)) \<and>
        (\<forall>x \<in> set post. rule_matches x req \<longrightarrow> length (rule_selector x) \<le> length (rule_selector r)))"
proof (induction rules arbitrary: best)
  case Nil
  then show ?case by simp
next
  case (Cons x rules)
  let ?better = "rule_matches x req \<and>
    (case best of None \<Rightarrow> True | Some b \<Rightarrow> length (rule_selector x) > length (rule_selector b))"
  show ?case
  proof (cases ?better)
    case True
    with Cons.prems have "best_rule req (Some x) rules = Some r" by simp
    from Cons.IH [OF this] show ?thesis
    proof (elim disjE exE conjE)
      assume "Some x = Some r"
        "\<forall>x \<in> set rules. rule_matches x req \<longrightarrow> length (rule_selector x) \<le> length (rule_selector r)"
      with True show ?thesis
        by (intro disjI2 exI [of _ "[]"] exI [of _ rules]) (auto split: option.splits)
    next
      fix pre post
      assume "rules = pre @ r # post" "rule_matches r req"
        "\<forall>b. Some x = Some b \<longrightarrow> length (rule_selector b) < length (rule_selector r)"
        "\<forall>x \<in> set pre. rule_matches x req \<longrightarrow> length (rule_selector x) < length (rule_selector r)"
        "\<forall>x \<in> set post. rule_matches x req \<longrightarrow> length (rule_selector x) \<le> length (rule_selector r)"
      with True show ?thesis
        by (intro disjI2 exI [of _ "x # pre"] exI [of _ post]) (auto split: option.splits)
    qed
  next
    case False
    with Cons.prems have "best_rule req best rules = Some r" by simp
    from Cons.IH [OF this] show ?thesis
    proof (elim disjE exE conjE)
      assume "best = Some r"
        "\<forall>x \<in> set rules. rule_matches x req \<longrightarrow> length (rule_selector x) \<le> length (rule_selector r)"
      with False show ?thesis by auto
    next
      fix pre post
      assume "rules = pre @ r # post" "rule_matches r req"
        "\<forall>b. best = Some b \<longrightarrow> length (rule_selector b) < length (rule_selector r)"
        "\<forall>x \<in> set pre. rule_matches x req \<longrightarrow> length (rule_selector x) < length (rule_selector r)"
        "\<forall>x \<in> set post. rule_matches x req \<longrightarrow> length (rule_selector x) \<le> length (rule_selector r)"
      with False show ?thesis
        by (intro disjI2 exI [of _ "x # pre"] exI [of _ post]) (auto split: option.splits)
    qed
  qed
qed

subsection \<open>Properties\<close>

definition same_action :: "CallRequest \<Rightarrow> CallRequest \<Rightarrow> bool" where
  "same_action r r' \<longleftrightarrow> req_tool r = req_tool r' \<and> req_resource r = req_resource r' \<and>
     json_equiv (req_args r) (req_args r')"

definition canonical_action :: "CallRequest \<Rightarrow> string \<times> json \<times> string" where
  "canonical_action r = (req_tool r, canonical_json (req_args r), req_resource r)"

lemma canonical_action_eq:
  "json_wf (req_args r) \<Longrightarrow> json_wf (req_args r') \<Longrightarrow>
     canonical_action r = canonical_action r' \<longleftrightarrow> same_action r r'"
  by (auto simp: canonical_action_def same_action_def json_equiv_iff)

lemma content_id_canonical: "content_id h ser r = h (ser (canonical_action r))"
  by (simp add: content_id_def content_preimage_def canonical_action_def)

text \<open>The content address of a call identifies the action: two calls that differ only in the
  order of object keys, at any depth of the arguments, get one address; and two calls with one
  address are the same action, unless their (different) canonical forms collide under the
  serializer followed by the digest.\<close>
theorem content_id_identifies_action:
  assumes "json_wf (req_args r)" and "json_wf (req_args r')"
  shows "(same_action r r' \<longrightarrow> content_id h ser r = content_id h ser r') \<and>
    (content_id h ser r = content_id h ser r' \<longrightarrow> same_action r r' \<or>
      (canonical_action r \<noteq> canonical_action r' \<and>
        h (ser (canonical_action r)) = h (ser (canonical_action r'))))"
  using canonical_action_eq [OF assms] by (auto simp: content_id_canonical)

definition toy_hash :: hash where
  "toy_hash b = take 32 (rev b @ replicate 32 0)"

definition toy_ser :: serializer where
  "toy_ser = (\<lambda>(tool, args, resource). str_bytes (tool @ resource) @
     (case args of JObject m \<Rightarrow> concat (map (\<lambda>kv. str_bytes (fst kv)) m) | _ \<Rightarrow> []))"

theorem content_id_identifies_action_witness:
  "content_id toy_hash toy_ser (request_new ''email.send''
       (JObject [(''to'', JString ''x''), (''o'', JObject [(''b'', JNull), (''a'', JNull)])]) ''r'') =
   content_id toy_hash toy_ser (request_new ''email.send''
       (JObject [(''o'', JObject [(''a'', JNull), (''b'', JNull)]), (''to'', JString ''x'')]) ''r'')"
proof -
  let ?a = "JObject [(''to'', JString ''x''), (''o'', JObject [(''b'', JNull), (''a'', JNull)])]"
  let ?b = "JObject [(''o'', JObject [(''a'', JNull), (''b'', JNull)]), (''to'', JString ''x'')]"
  have wf: "json_wf (req_args (request_new ''email.send'' ?a ''r''))"
    "json_wf (req_args (request_new ''email.send'' ?b ''r''))"
    by (simp_all add: request_new_def)
  have "canonical_json ?a = canonical_json ?b" by code_simp
  then have "same_action (request_new ''email.send'' ?a ''r'') (request_new ''email.send'' ?b ''r'')"
    using wf by (simp add: same_action_def request_new_def json_equiv_iff)
  with content_id_identifies_action [OF wf] show ?thesis by blast
qed

text \<open>The base64url encoding the WebAuthn verifiers compare challenges with loses nothing:
  two byte strings of any lengths have one encoding only when they are equal, so the string
  comparison is a comparison of the challenges.\<close>
theorem base64url_nopad_inj: "base64url_nopad xs = base64url_nopad ys \<longleftrightarrow> xs = ys"
  using base64url_nopad_injD by blast

text \<open>A WebAuthn verifier (either signature suite) accepts a discharge only when the gesture
  meets the presence floor, the authenticator set the user-presence flag and, for a passkey
  requirement, the user-verification flag, and the signed client data names exactly the challenge
  the gate recomputed; a discharge, and likewise its signed client data alone, can be accepted
  against one challenge only.\<close>
theorem webauthn_accepts_only_bound_gesture:
  assumes "shipped_verifier cr s d r c = Inr ()" and "s = WebAuthn \<or> s = WebAuthnEs256"
  shows "att_presence r \<le> dis_presence d \<and> dis_challenge d = c \<and>
    (\<exists>auth client. dis_authenticator_data d = Some auth \<and> dis_client_data_json d = Some client \<and>
       flag_up auth \<and> (att_presence r = Passkey \<longrightarrow> flag_uv auth) \<and>
       parse_client_data cr client = Inr (''webauthn.get'', base64url_nopad c)) \<and>
    (\<forall>d' r' c' s'. shipped_verifier cr s' d' r' c' = Inr () \<and> (s' = WebAuthn \<or> s' = WebAuthnEs256) \<and>
       dis_client_data_json d' = dis_client_data_json d \<longrightarrow> c' = c)"
proof -
  have acc: "\<exists>msg. webauthn_verify_common cr d r c = Inr msg"
    if "shipped_verifier cr s d r c = Inr ()" "s = WebAuthn \<or> s = WebAuthnEs256" for s d r c
    using that by (cases s) (auto simp: WebAuthnVerifier_def WebAuthnEs256Verifier_def split: sum.splits)
  have one: "c' = c" if "shipped_verifier cr s' d' r' c' = Inr ()" "s' = WebAuthn \<or> s' = WebAuthnEs256"
    "dis_client_data_json d' = dis_client_data_json d" for d' r' c' s'
    using acc [OF that(1,2)] acc [OF assms] that(3)
    by (auto simp: webauthn_verify_common_Inr dest: base64url_nopad_injD)
  moreover from acc [OF assms] obtain msg where "webauthn_verify_common cr d r c = Inr msg" by blast
  ultimately show ?thesis by (fastforce simp: webauthn_verify_common_Inr)
qed

definition toy_crypto :: "(unit, unit, unit) crypto" where
  "toy_crypto = \<lparr>ed_from_bytes = (\<lambda>_. Inr ()), ed_verify_strict = (\<lambda>_ _ _. Inr ()),
     p256_from_sec1 = (\<lambda>_. Some ()), p256_from_der = (\<lambda>_. Some ()),
     p256_verify = (\<lambda>_ _ _. Inr ()), sha256 = (\<lambda>_. replicate 32 0),
     parse_client_data = (\<lambda>_. Inr (''webauthn.get'', base64url_nopad (replicate 32 7)))\<rparr>"

definition toy_assertion :: "u8 \<Rightarrow> Discharge" where
  "toy_assertion flags = \<lparr>dis_presence = Passkey, dis_credential_id = [4], dis_challenge = replicate 32 7,
     dis_signature = [48], dis_authenticator_data = Some (replicate 32 0 @ [flags, 0, 0, 0, 0]),
     dis_client_data_json = Some [123, 125]\<rparr>"

theorem webauthn_accepts_only_bound_gesture_witness:
  "shipped_verifier toy_crypto WebAuthnEs256 (toy_assertion 5) passkey_recorded (replicate 32 7) = Inr () \<and>
   shipped_verifier toy_crypto WebAuthnEs256 (toy_assertion 1) passkey_recorded (replicate 32 7) \<noteq> Inr () \<and>
   shipped_verifier toy_crypto WebAuthnEs256 (toy_assertion 5) passkey_recorded (replicate 32 8) \<noteq> Inr ()"
proof -
  have ok: "shipped_verifier toy_crypto WebAuthnEs256 (toy_assertion 5) passkey_recorded (replicate 32 7) = Inr ()"
    by code_simp
  have no: "shipped_verifier toy_crypto WebAuthnEs256 (toy_assertion 1) passkey_recorded (replicate 32 7) \<noteq> Inr ()"
    by code_simp
  have "replicate 32 8 \<noteq> (replicate 32 7 :: bytes)" by simp
  with webauthn_accepts_only_bound_gesture [OF ok] ok no show ?thesis by metis
qed

text \<open>The policy picks the matching rule with the longest selector, the first one among
  equals, and falls back to its default only when no rule matches. (The requirement it picks
  need not be the strongest one among the matching rules.)\<close>
theorem required_for_most_specific:
  "(\<exists>pre rule post. pol_rules policy = pre @ rule # post \<and> rule_matches rule req \<and>
      required_for policy req = rule_requirement rule \<and>
      (\<forall>x \<in> set pre. rule_matches x req \<longrightarrow> length (rule_selector x) < length (rule_selector rule)) \<and>
      (\<forall>x \<in> set post. rule_matches x req \<longrightarrow> length (rule_selector x) \<le> length (rule_selector rule))) \<or>
   ((\<forall>x \<in> set (pol_rules policy). \<not> rule_matches x req) \<and> required_for policy req = pol_default policy)"
proof (cases "best_rule req None (pol_rules policy)")
  case None
  then have "required_for policy req = pol_default policy" by (simp add: required_for_def)
  with None show ?thesis by (simp add: best_rule_None)
next
  case (Some r)
  from best_rule_Some [OF this] Some show ?thesis
    by (intro disjI1) (auto simp: required_for_def)
qed

theorem required_for_most_specific_witness:
  "required_for \<lparr>pol_rules = [\<lparr>rule_selector = ''git.push'', rule_requirement = passkey_recorded\<rparr>,
       \<lparr>rule_selector = ''git.push:docs/*'', rule_requirement = REQUIREMENT_NONE\<rparr>],
     pol_default = REQUIREMENT_NONE\<rparr> (request_new ''git.push'' JNull ''docs/a'') = REQUIREMENT_NONE"
proof -
  let ?r1 = "\<lparr>rule_selector = ''git.push'', rule_requirement = passkey_recorded\<rparr>"
  let ?r2 = "\<lparr>rule_selector = ''git.push:docs/*'', rule_requirement = REQUIREMENT_NONE\<rparr>"
  let ?p = "\<lparr>pol_rules = [?r1, ?r2], pol_default = REQUIREMENT_NONE\<rparr>"
  let ?q = "request_new ''git.push'' JNull ''docs/a''"
  have m: "rule_matches ?r1 ?q" "rule_matches ?r2 ?q" by code_simp+
  from required_for_most_specific [of ?p ?q] m show ?thesis
    by (auto simp: Cons_eq_append_conv)
qed

end
