(* ===== verification/Leash_Gate.thy ===== *)
theory Leash_Gate
  imports Step_Up
begin

text \<open>
  The gate (\<^verbatim>\<open>agent-bridle-core/src/gate.rs\<close>), the single place where a context is minted.
  Interior mutability (the atomic budget, the locked ledger of consumed challenges) is explicit
  state passing: an operation returns the gate after the call and the result, because a call that
  fails may still have changed the gate. The atomic decrement loop is also modelled as an
  interleaving of threads. The mesh's \<^verbatim>\<open>meet\<close>, the digest and the serializer are parameters.
\<close>

subsection \<open>State and construction\<close>

record Tool =
  tool_name :: string
  tool_required :: Caveats

record Gate =
  gate_remaining :: "u64 option"
  gate_generation :: u64
  gate_sandbox_kind :: SandboxKind
  gate_strength_floor :: EnforcementFloor
  gate_session :: "bytes option"
  gate_consumed :: "bytes set"

definition MAX_FRESHNESS_WINDOW :: u64 where
  "MAX_FRESHNESS_WINDOW = 4096"

definition gate_new :: "u64 \<Rightarrow> Gate" where
  "gate_new generation = \<lparr>gate_remaining = None, gate_generation = generation,
     gate_sandbox_kind = NoSandbox, gate_strength_floor = FLOOR_DEFAULT, gate_session = None,
     gate_consumed = {}\<rparr>"

definition with_budget :: "u64 \<Rightarrow> CountBound \<Rightarrow> Gate" where
  "with_budget generation max_calls =
     \<lparr>gate_remaining = (case max_calls of Unlimited \<Rightarrow> None | AtMost n \<Rightarrow> Some n),
      gate_generation = generation, gate_sandbox_kind = NoSandbox,
      gate_strength_floor = FLOOR_DEFAULT, gate_session = None, gate_consumed = {}\<rparr>"

definition with_session :: "bytes \<Rightarrow> Gate \<Rightarrow> Gate" where
  "with_session session g = g\<lparr>gate_session := Some session\<rparr>"

definition with_sandbox :: "SandboxKind \<Rightarrow> Gate \<Rightarrow> Gate" where
  "with_sandbox kind g = g\<lparr>gate_sandbox_kind := kind\<rparr>"

definition with_strength_floor :: "AxisEnforcement \<Rightarrow> Gate \<Rightarrow> Gate" where
  "with_strength_floor floor g =
     g\<lparr>gate_strength_floor := floor_join (gate_strength_floor g) (from_scalar floor)\<rparr>"

definition with_enforcement_floor :: "EnforcementFloor \<Rightarrow> Gate \<Rightarrow> Gate" where
  "with_enforcement_floor floor g =
     g\<lparr>gate_strength_floor := floor_join (gate_strength_floor g) floor\<rparr>"

subsection \<open>Authorization\<close>

definition check_generation :: "Gate \<Rightarrow> Caveats \<Rightarrow> unit ToolResult" where
  "check_generation g granted =
     (let ok = (case cav_valid_for_generation granted of
                  ScopeAll \<Rightarrow> True
                | ScopeOnly s \<Rightarrow> gate_generation g \<in> set s)
      in if ok then Inr () else Inl Generation)"

definition charge_counter :: "u64 option \<Rightarrow> u64 option \<times> bool" where
  "charge_counter remaining =
     (case remaining of
        None \<Rightarrow> (None, True)
      | Some cur \<Rightarrow> if cur = 0 then (Some cur, False) else (Some (cur - 1), True))"

definition charge_one :: "Gate \<Rightarrow> Caveats \<Rightarrow> Gate \<times> unit ToolResult" where
  "charge_one g granted =
     (if cav_max_calls granted = AtMost 0 then (g, Inl Budget)
      else (case charge_counter (gate_remaining g) of
          (r, True) \<Rightarrow> (g\<lparr>gate_remaining := r\<rparr>, Inr ())
        | (r, False) \<Rightarrow> (g, Inl Budget)))"

definition mint_for :: "meet_op \<Rightarrow> Gate \<Rightarrow> 't Tool_scheme \<Rightarrow> Caveats \<Rightarrow> ToolContext" where
  "mint_for meet g tool granted =
     mint (meet granted (tool_required tool)) (gate_sandbox_kind g) (gate_strength_floor g)"

definition authorize ::
  "meet_op \<Rightarrow> Gate \<Rightarrow> 't Tool_scheme \<Rightarrow> Caveats \<Rightarrow> Gate \<times> ToolContext ToolResult" where
  "authorize meet g tool granted =
     (case check_generation g granted of
        Inl e \<Rightarrow> (g, Inl e)
      | Inr _ \<Rightarrow>
          (case charge_one g granted of
             (g', Inl e) \<Rightarrow> (g', Inl e)
           | (g', Inr _) \<Rightarrow> (g', Inr (mint_for meet g tool granted))))"

subsection \<open>Step-up admission\<close>

datatype Decision = Allow ToolContext | Deny ToolError | NeedsDischarge AttestRequirement

definition evaluate ::
  "meet_op \<Rightarrow> Gate \<Rightarrow> 't Tool_scheme \<Rightarrow> Caveats \<Rightarrow> CallRequest \<Rightarrow> StepUpPolicy \<Rightarrow> Gate \<times> Decision" where
  "evaluate meet g tool granted request policy =
     (case check_generation g granted of
        Inl _ \<Rightarrow> (g, Deny Generation)
      | Inr _ \<Rightarrow>
          (let required = required_for policy request
           in if demands_gesture required then (g, NeedsDischarge required)
              else (case charge_one g granted of
                  (g', Inr _) \<Rightarrow> (g', Allow (mint_for meet g tool granted))
                | (g', Inl e) \<Rightarrow> (g', Deny e))))"

record DischargeAttempt =
  try_nonce :: bytes
  try_discharge :: Discharge
  try_verifier :: verifier

definition freshness_window :: "Gate \<Rightarrow> AttestRequirement \<Rightarrow> u64 list" where
  "freshness_window g required =
     (let window = min (att_freshness_generations required) MAX_FRESHNESS_WINDOW;
          oldest = saturating_sub (gate_generation g) window
      in map of_nat (rev [unat oldest ..< Suc (unat (gate_generation g))]))"

definition expected_challenge ::
  "hash \<Rightarrow> Gate \<Rightarrow> bytes \<Rightarrow> bytes \<Rightarrow> AttestRequirement \<Rightarrow> DischargeAttempt \<Rightarrow> bytes" where
  "expected_challenge h g session cid required attempt =
     (case find (\<lambda>c. c = dis_challenge (try_discharge attempt))
             (map (\<lambda>gen. challenge_bind h session cid gen (try_nonce attempt)) (freshness_window g required)) of
        Some c \<Rightarrow> c
      | None \<Rightarrow> challenge_bind h session cid (gate_generation g) (try_nonce attempt))"

definition unbound_session_error :: ToolError where
  "unbound_session_error =
     denied ''step-up requires a bound session identity; call Gate::with_session'' []"

definition authorize_with_discharge ::
  "hash \<Rightarrow> serializer \<Rightarrow> meet_op \<Rightarrow> Gate \<Rightarrow> 't Tool_scheme \<Rightarrow> Caveats \<Rightarrow> CallRequest \<Rightarrow> StepUpPolicy \<Rightarrow>
   DischargeAttempt \<Rightarrow> Gate \<times> (ToolContext \<times> Attestation option) ToolResult" where
  "authorize_with_discharge h ser meet g tool granted request policy attempt =
     (case check_generation g granted of
        Inl e \<Rightarrow> (g, Inl e)
      | Inr _ \<Rightarrow>
         (let required = required_for policy request
          in if \<not> demands_gesture required
             then (case charge_one g granted of
                 (g', Inl e) \<Rightarrow> (g', Inl e)
               | (g', Inr _) \<Rightarrow> (g', Inr (mint_for meet g tool granted, None)))
             else (case gate_session g of
                 None \<Rightarrow> (g, Inl unbound_session_error)
               | Some session \<Rightarrow>
                  (let cid = content_id h ser request;
                       expected = expected_challenge h g session cid required attempt
                   in case try_verifier attempt (try_discharge attempt) required expected of
                        Inl reason \<Rightarrow> (g, Inl (denied reason []))
                      | Inr _ \<Rightarrow>
                          if expected \<in> gate_consumed g
                          then (g, Inl (denied ''discharge already consumed (replay)'' []))
                          else
                           (let g1 = g\<lparr>gate_consumed := insert expected (gate_consumed g)\<rparr>;
                                attestation =
                                  (if att_record required
                                   then Some (from_verified (req_tool request) (req_resource request)
                                          (try_discharge attempt) (gate_generation g))
                                   else None)
                            in case charge_one g1 granted of
                                 (g2, Inl e) \<Rightarrow> (g2, Inl e)
                               | (g2, Inr _) \<Rightarrow> (g2, Inr (mint_for meet g tool granted, attestation)))))))"

type_synonym provider =
  "bytes \<Rightarrow> CallRequest \<Rightarrow> AttestRequirement \<Rightarrow> u64 \<Rightarrow> bytes \<Rightarrow> string + Discharge"

definition authorize_step_up ::
  "hash \<Rightarrow> serializer \<Rightarrow> meet_op \<Rightarrow> Gate \<Rightarrow> 't Tool_scheme \<Rightarrow> Caveats \<Rightarrow> CallRequest \<Rightarrow> StepUpPolicy \<Rightarrow>
   provider \<Rightarrow> verifier \<Rightarrow> bytes \<Rightarrow> Gate \<times> (ToolContext \<times> Attestation option) ToolResult" where
  "authorize_step_up h ser meet g tool granted request policy provider verifier nonce =
     (let required = required_for policy request
      in if \<not> demands_gesture required
         then (case authorize meet g tool granted of
             (g', Inl e) \<Rightarrow> (g', Inl e)
           | (g', Inr cx) \<Rightarrow> (g', Inr (cx, None)))
         else (case gate_session g of
             None \<Rightarrow> (g, Inl unbound_session_error)
           | Some session \<Rightarrow>
               (case provider session request required (gate_generation g) nonce of
                  Inl reason \<Rightarrow> (g, Inl (denied reason []))
                | Inr discharge \<Rightarrow>
                    authorize_with_discharge h ser meet g tool granted request policy
                      \<lparr>try_nonce = nonce, try_discharge = discharge, try_verifier = verifier\<rparr>)))"

subsection \<open>The atomic decrement as an interleaving\<close>

text \<open>
  \<^verbatim>\<open>charge_one\<close>'s loop run by many threads on one counter: a thread loads the counter, gives up
  when it reads zero, and otherwise tries the weak compare-and-exchange, which may also fail
  spuriously and then loads again.
\<close>

datatype charger = Loading | Loaded u64 | Charged | Refused

type_synonym charge_state = "u64 \<times> (nat \<Rightarrow> charger)"

inductive charge_step :: "charge_state \<Rightarrow> charge_state \<Rightarrow> bool" where
  load_zero: "ts i = Loading \<Longrightarrow> c = 0 \<Longrightarrow> charge_step (c, ts) (c, ts(i := Refused))"
| load: "ts i = Loading \<Longrightarrow> c \<noteq> 0 \<Longrightarrow> charge_step (c, ts) (c, ts(i := Loaded c))"
| cas_ok: "ts i = Loaded cur \<Longrightarrow> c = cur \<Longrightarrow> charge_step (c, ts) (cur - 1, ts(i := Charged))"
| cas_fail: "ts i = Loaded cur \<Longrightarrow> charge_step (c, ts) (c, ts(i := Loading))"

inductive_cases charge_stepE: "charge_step (c, ts) (c', ts')"

subsection \<open>Sequences of operations\<close>

fun authorize_all ::
  "meet_op \<Rightarrow> Gate \<Rightarrow> (Tool \<times> Caveats) list \<Rightarrow> Gate \<times> ToolContext ToolResult list" where
  "authorize_all meet g [] = (g, [])"
| "authorize_all meet g ((tool, granted) # calls) =
     (let (g1, r) = authorize meet g tool granted; (g2, rs) = authorize_all meet g1 calls
      in (g2, r # rs))"

definition admissible :: "u64 \<Rightarrow> Tool \<times> Caveats \<Rightarrow> bool" where
  "admissible generation call \<longleftrightarrow>
     scope_has (cav_valid_for_generation (snd call)) generation \<and> cav_max_calls (snd call) \<noteq> AtMost 0"

inductive gate_op :: "hash \<Rightarrow> serializer \<Rightarrow> meet_op \<Rightarrow> Gate \<Rightarrow> Gate \<Rightarrow> bool"
  for h ser meet where
  op_authorize: "gate_op h ser meet g (fst (authorize meet g (tool :: Tool) granted))"
| op_evaluate: "gate_op h ser meet g (fst (evaluate meet g (tool :: Tool) granted req policy))"
| op_discharge:
    "gate_op h ser meet g
       (fst (authorize_with_discharge h ser meet g (tool :: Tool) granted req policy attempt))"
| op_step_up:
    "gate_op h ser meet g
       (fst (authorize_step_up h ser meet g (tool :: Tool) granted req policy prov ver nonce))"

datatype gate_builder =
    WithSession bytes
  | WithSandbox SandboxKind
  | WithStrengthFloor AxisEnforcement
  | WithEnforcementFloor EnforcementFloor

fun gate_build :: "gate_builder \<Rightarrow> Gate \<Rightarrow> Gate" where
  "gate_build (WithSession s) = with_session s"
| "gate_build (WithSandbox k) = with_sandbox k"
| "gate_build (WithStrengthFloor a) = with_strength_floor a"
| "gate_build (WithEnforcementFloor f) = with_enforcement_floor f"

subsection \<open>The call budget contract\<close>

locale call_budget =
  fixes charge :: "'s \<Rightarrow> 's \<times> bool"
    and remaining :: "'s \<Rightarrow> nat option"
  assumes unlimited: "remaining s = None \<Longrightarrow> \<exists>s'. charge s = (s', True) \<and> remaining s' = None"
    and spend: "remaining s = Some (Suc n) \<Longrightarrow> \<exists>s'. charge s = (s', True) \<and> remaining s' = Some n"
    and spent: "remaining s = Some 0 \<Longrightarrow> charge s = (s, False)"
begin

lemma charge_True:
  "charge s = (s', True) \<Longrightarrow>
     remaining s = None \<and> remaining s' = None \<or>
     (\<exists>n. remaining s = Some (Suc n) \<and> remaining s' = Some n)"
  using unlimited [of s] spend [of s] spent [of s]
  by (cases "remaining s"; cases "the (remaining s)") auto

lemma charge_False: "charge s = (s', False) \<Longrightarrow> s' = s \<and> remaining s = Some 0"
  using unlimited [of s] spend [of s] spent [of s]
  by (cases "remaining s"; cases "the (remaining s)") auto

fun charge_n :: "nat \<Rightarrow> 's \<Rightarrow> 's \<times> nat" where
  "charge_n 0 s = (s, 0)"
| "charge_n (Suc k) s =
     (let (s1, ok) = charge s; (s2, m) = charge_n k s1 in (s2, (if ok then 1 else 0) + m))"

lemma charge_n_exact:
  "remaining s = Some n \<Longrightarrow>
     snd (charge_n k s) = min n k \<and> remaining (fst (charge_n k s)) = Some (n - k)"
proof (induction k arbitrary: s n)
  case 0
  then show ?case by simp
next
  case (Suc k)
  show ?case
  proof (cases n)
    case 0
    with Suc.prems spent have "charge s = (s, False)" by simp
    with Suc.IH [OF Suc.prems] 0 show ?thesis by (simp add: split_beta)
  next
    case (Suc m)
    with Suc.prems spend obtain s' where "charge s = (s', True)" "remaining s' = Some m" by blast
    with Suc.IH [of s' m] Suc show ?thesis by (simp add: split_beta)
  qed
qed

end

interpretation gate_budget: call_budget charge_counter "map_option unat"
proof
  fix s :: "u64 option" and n
  show "map_option unat s = None \<Longrightarrow> \<exists>s'. charge_counter s = (s', True) \<and> map_option unat s' = None"
    by (simp add: charge_counter_def)
  show "map_option unat s = Some 0 \<Longrightarrow> charge_counter s = (s, False)"
    by (auto simp: charge_counter_def unat_eq_zero)
  assume "map_option unat s = Some (Suc n)"
  then obtain c where c: "s = Some c" "unat c = Suc n" by blast
  then have "c \<noteq> 0" by auto
  with c show "\<exists>s'. charge_counter s = (s', True) \<and> map_option unat s' = Some n"
    by (simp add: charge_counter_def unat_pred)
qed

subsection \<open>Lemmas\<close>

lemma check_generation_cases [simp]:
  "check_generation g granted =
     (if scope_has (cav_valid_for_generation granted) (gate_generation g) then Inr () else Inl Generation)"
  by (simp add: check_generation_def scope_has_def split: Scope.splits)

lemma charge_one_ok:
  "charge_one g granted = (g', Inr ()) \<longleftrightarrow>
     cav_max_calls granted \<noteq> AtMost 0 \<and>
     (\<exists>r. charge_counter (gate_remaining g) = (r, True) \<and> g' = g\<lparr>gate_remaining := r\<rparr>)"
  by (auto simp: charge_one_def split: prod.splits bool.splits)

lemma charge_one_err:
  "charge_one g granted = (g', Inl e) \<longleftrightarrow> g' = g \<and> e = Budget \<and>
     (cav_max_calls granted = AtMost 0 \<or> gate_remaining g = Some 0)"
  by (auto simp: charge_one_def charge_counter_def split: prod.splits bool.splits option.splits if_splits)

text \<open>An operation on a gate changes only its budget and its ledger, and the ledger only grows.\<close>

definition gate_le :: "Gate \<Rightarrow> Gate \<Rightarrow> bool" where
  "gate_le g g' \<longleftrightarrow> gate_consumed g \<subseteq> gate_consumed g' \<and>
     g' = g\<lparr>gate_remaining := gate_remaining g', gate_consumed := gate_consumed g'\<rparr>"

lemma gate_le_refl [simp, intro]: "gate_le g g"
  by (simp add: gate_le_def)

lemma gate_le_trans: "gate_le a b \<Longrightarrow> gate_le b c \<Longrightarrow> gate_le a c"
  unfolding gate_le_def by (cases a; cases b; cases c) auto

lemma gate_le_update [simp, intro]:
  "gate_le g (g\<lparr>gate_remaining := r\<rparr>)" "gate_le g (g\<lparr>gate_consumed := insert c (gate_consumed g)\<rparr>)"
  by (auto simp: gate_le_def)

lemma charge_one_le: "gate_le g (fst (charge_one g granted))"
  by (auto simp: charge_one_def split: prod.splits bool.splits)

lemma authorize_le: "gate_le g (fst (authorize meet g tool granted))"
  using charge_one_le [of g granted] by (auto simp: authorize_def split: prod.splits sum.splits)

lemma evaluate_le: "gate_le g (fst (evaluate meet g tool granted req policy))"
  using charge_one_le [of g granted] by (auto simp: evaluate_def Let_def split: prod.splits sum.splits)

lemma charge_one_ledger_le: "gate_le g (fst (charge_one (g\<lparr>gate_consumed := insert c (gate_consumed g)\<rparr>) granted))"
  by (rule gate_le_trans [OF gate_le_update(2) charge_one_le])

lemma authorize_with_discharge_le:
  "gate_le g (fst (authorize_with_discharge h ser meet g tool granted req policy attempt))"
  using charge_one_le [of g granted] charge_one_ledger_le [of g _ granted]
  by (auto simp: authorize_with_discharge_def Let_def split: prod.splits sum.splits option.splits)
    (metis fst_conv)+

lemma authorize_step_up_le:
  "gate_le g (fst (authorize_step_up h ser meet g tool granted req policy prov ver nonce))"
  using authorize_le [of g meet tool granted] authorize_with_discharge_le
  by (auto simp: authorize_step_up_def Let_def split: prod.splits sum.splits option.splits)

lemma gate_ops_le: "(gate_op h ser meet)\<^sup>*\<^sup>* g g' \<Longrightarrow> gate_le g g'"
proof (induction rule: rtranclp_induct)
  case (step b c)
  from step.hyps(2) have "gate_le b c"
    by (cases rule: gate_op.cases)
      (auto intro: authorize_le evaluate_le authorize_with_discharge_le authorize_step_up_le)
  with step.IH show ?case by (rule gate_le_trans)
qed simp

lemma set_freshness_window:
  "gen \<in> set (freshness_window g r) \<longleftrightarrow>
     gen \<le> gate_generation g \<and>
     unat (gate_generation g) - unat gen \<le> min (unat (att_freshness_generations r)) 4096"
proof -
  let ?w = "min (att_freshness_generations r) MAX_FRESHNESS_WINDOW"
  have w: "unat ?w = min (unat (att_freshness_generations r)) 4096"
    by (simp add: min_def word_le_nat_alt MAX_FRESHNESS_WINDOW_def)
  have "gen \<in> set (freshness_window g r) \<longleftrightarrow>
      unat (gate_generation g) - unat ?w \<le> unat gen \<and> unat gen \<le> unat (gate_generation g)"
    (is "_ \<longleftrightarrow> ?R")
  proof
    assume "gen \<in> set (freshness_window g r)"
    then obtain k where k: "gen = of_nat k" "unat (gate_generation g) - unat ?w \<le> k" "k \<le> unat (gate_generation g)"
      by (auto simp: freshness_window_def Let_def simp flip: less_Suc_eq_le)
    then have "unat gen = k"
      by (metis le_unat_uoi)
    with k show ?R by simp
  next
    assume ?R
    then have "unat gen \<in> {unat (saturating_sub (gate_generation g) ?w) ..< Suc (unat (gate_generation g))}"
      by simp
    moreover have "gen = of_nat (unat gen)" by simp
    ultimately show "gen \<in> set (freshness_window g r)"
      unfolding freshness_window_def Let_def set_map set_rev set_upt by (intro image_eqI)
  qed
  with w show ?thesis by (auto simp: word_le_nat_alt)
qed

lemma expected_challenge_bound:
  "\<exists>gen \<in> set (freshness_window g r).
     expected_challenge h g session cid r attempt = challenge_bind h session cid gen (try_nonce attempt)"
proof (cases "find (\<lambda>c. c = dis_challenge (try_discharge attempt))
    (map (\<lambda>gen. challenge_bind h session cid gen (try_nonce attempt)) (freshness_window g r))")
  case None
  have "gate_generation g \<in> set (freshness_window g r)" by (simp add: set_freshness_window)
  with None show ?thesis by (auto simp: expected_challenge_def)
next
  case (Some c)
  then have "c \<in> set (map (\<lambda>gen. challenge_bind h session cid gen (try_nonce attempt)) (freshness_window g r))"
    unfolding find_Some_iff by (metis nth_mem)
  with Some show ?thesis by (auto simp: expected_challenge_def)
qed

lemma gesture_accepted:
  assumes "authorize_with_discharge h ser meet g tool granted req policy attempt = (g', Inr out)"
    and "demands_gesture (required_for policy req)"
  obtains session expected where "gate_session g = Some session"
    and "expected = expected_challenge h g session (content_id h ser req) (required_for policy req) attempt"
    and "try_verifier attempt (try_discharge attempt) (required_for policy req) expected = Inr ()"
    and "expected \<notin> gate_consumed g" "gate_consumed g' = insert expected (gate_consumed g)"
    and "charge_counter (gate_remaining g) = (gate_remaining g', True)"
    and "out = (mint_for meet g tool granted,
      if att_record (required_for policy req)
      then Some (from_verified (req_tool req) (req_resource req) (try_discharge attempt) (gate_generation g))
      else None)"
    and "cav_max_calls granted \<noteq> AtMost 0"
  using assms
  by (auto simp: authorize_with_discharge_def Let_def charge_one_ok
      split: sum.splits option.splits prod.splits if_splits)

lemma spent_challenge_refused:
  assumes "demands_gesture (required_for policy req)"
    and "dis_challenge (try_discharge attempt) \<in> gate_consumed g"
    and "discharge_verifier (try_verifier attempt)"
  shows "\<exists>e. authorize_with_discharge h ser meet g tool granted req policy attempt = (g, Inl e)"
proof (cases "authorize_with_discharge h ser meet g tool granted req policy attempt")
  case (Pair g' r)
  have "\<not> is_ok r"
  proof
    assume "is_ok r"
    with Pair obtain out where
      "authorize_with_discharge h ser meet g tool granted req policy attempt = (g', Inr out)"
      by (auto simp: is_ok_iff)
    from gesture_accepted [OF this assms(1)] assms(2) discharge_verifier.answers [OF assms(3)]
    show False by metis
  qed
  then obtain e where "r = Inl e" by (cases r) auto
  with Pair assms(1,2) discharge_verifier.answers [OF assms(3)] show ?thesis
    by (auto simp: authorize_with_discharge_def Let_def charge_one_err
        split: sum.splits option.splits prod.splits if_splits)
qed

subsection \<open>What a meet does to the checks of a context\<close>

lemma scope_has_all: "(\<forall>x. scope_has s x) \<longleftrightarrow> s = ScopeAll" for s :: "string Scope"
proof (cases s)
  case (ScopeOnly xs)
  have "finite (set xs)" by simp
  then obtain x where "x \<notin> set xs" using ex_new_if_finite [OF infinite_UNIV_listI] by blast
  with ScopeOnly show ?thesis by auto
qed simp

definition scope_le :: "string Scope \<Rightarrow> string Scope \<Rightarrow> bool" where
  "scope_le s t \<longleftrightarrow> (\<forall>x. scope_has s x \<longrightarrow> scope_has t x)"

lemma scope_le_cases: "scope_le s t \<Longrightarrow>
    t = ScopeAll \<or> (\<exists>xs ys. s = ScopeOnly xs \<and> t = ScopeOnly ys \<and> set xs \<subseteq> set ys)"
  using scope_has_all [of t] by (cases s; cases t) (auto simp: scope_le_def)

lemma exec_scope_le: "scope_le s t \<Longrightarrow> exec_scope_allows s p \<Longrightarrow> exec_scope_allows t p"
  by (auto simp: exec_scope_allows_iff scope_le_def)

lemma check_path_le: "scope_le s t \<Longrightarrow> check_path fs s p op = Inr () \<Longrightarrow> check_path fs t p op = Inr ()"
  by (auto dest!: scope_le_cases simp: check_path_ok) (auto simp: check_path_def)

definition caveats_le :: "Caveats \<Rightarrow> Caveats \<Rightarrow> bool" where
  "caveats_le a b \<longleftrightarrow> scope_le (cav_exec a) (cav_exec b) \<and> scope_le (cav_net a) (cav_net b) \<and>
     scope_le (cav_fs_read a) (cav_fs_read b) \<and> scope_le (cav_fs_write a) (cav_fs_write b)"

lemma meet_le: "meet_intersects meet \<Longrightarrow> caveats_le (meet a b) a \<and> caveats_le (meet a b) b"
  by (auto simp: meet_intersects_def caveats_le_def scope_le_def)

lemma checks_le:
  assumes "caveats_le (effective cx) (effective cx')"
  shows "check_exec cx p = Inr () \<Longrightarrow> check_exec cx' p = Inr ()"
    and "check_net cx n = Inr () \<Longrightarrow> check_net cx' n = Inr ()"
    and "check_path_read fs cx p = Inr () \<Longrightarrow> check_path_read fs cx' p = Inr ()"
    and "check_path_write fs cx p = Inr () \<Longrightarrow> check_path_write fs cx' p = Inr ()"
  using assms
  by (auto simp: check_exec_ok check_net_ok check_path_read_def check_path_write_def caveats_le_def
      intro: exec_scope_le check_path_le) (simp add: scope_le_def)

subsection \<open>Properties\<close>

text \<open>C1. Least authority end to end: whatever a tool's minted context lets through (a program, a
  host, a path to read, a path to write) both the grant alone and the tool's own declaration alone
  would let through; the grant was valid for the gate's generation; and the context carries the
  gate's sandbox kind and strength floor unchanged.\<close>
theorem minted_context_never_amplifies:
  assumes "meet_intersects meet" and "authorize meet g tool granted = (g', Inr cx)"
    and "auth = granted \<or> auth = tool_required tool"
  shows "(check_exec cx p = Inr () \<longrightarrow> check_exec (mint auth k f) p = Inr ()) \<and>
    (check_net cx n = Inr () \<longrightarrow> check_net (mint auth k f) n = Inr ()) \<and>
    (check_path_read fs cx p = Inr () \<longrightarrow> check_path_read fs (mint auth k f) p = Inr ()) \<and>
    (check_path_write fs cx p = Inr () \<longrightarrow> check_path_write fs (mint auth k f) p = Inr ()) \<and>
    scope_has (cav_valid_for_generation granted) (gate_generation g) \<and>
    sandbox_kind cx = gate_sandbox_kind g \<and> strength_floor cx = gate_strength_floor g"
proof -
  from assms(2) have cx: "cx = mint_for meet g tool granted"
    and gen: "scope_has (cav_valid_for_generation granted) (gate_generation g)"
    by (auto simp: authorize_def split: sum.splits prod.splits if_splits)
  have "caveats_le (effective cx) (effective (mint auth k f))"
    using cx meet_le [OF assms(1), of granted "tool_required tool"] assms(3)
    by (auto simp: mint_for_def mint_def)
  from checks_le [OF this] cx gen show ?thesis by (auto simp: mint_for_def mint_def)
qed

definition toy_tool :: Tool where
  "toy_tool = \<lparr>tool_name = ''git'', tool_required = caveats_top\<lparr>cav_exec := ScopeOnly [''git'', ''ls'']\<rparr>\<rparr>"

definition toy_grant :: Caveats where
  "toy_grant = caveats_top\<lparr>cav_exec := ScopeOnly [''git'', ''rm''], cav_valid_for_generation := ScopeOnly [3]\<rparr>"

theorem minted_context_never_amplifies_witness:
  "\<exists>g' cx. authorize inter_meet (with_budget 3 (AtMost 2)) toy_tool toy_grant = (g', Inr cx) \<and>
     check_exec cx ''/bin/git'' = Inr () \<and> check_exec cx ''ls'' \<noteq> Inr () \<and> check_exec cx ''rm'' \<noteq> Inr ()"
proof -
  let ?g = "with_budget 3 (AtMost 2)"
  obtain g' cx where a: "authorize inter_meet ?g toy_tool toy_grant = (g', Inr cx)"
    and ok: "check_exec cx ''/bin/git'' = Inr ()"
    by (auto simp: authorize_def with_budget_def toy_grant_def caveats_top_def charge_one_def
        charge_counter_def mint_for_def mint_def toy_tool_def inter_meet_def check_exec_ok
        exec_scope_allows_iff components_def component_of_def path_file_name_def)
  have "check_exec (mint toy_grant NoSandbox FLOOR_DEFAULT) ''ls'' \<noteq> Inr ()"
    "check_exec (mint (tool_required toy_tool) NoSandbox FLOOR_DEFAULT) ''rm'' \<noteq> Inr ()"
    by (simp_all add: check_exec_ok exec_scope_allows_iff mint_def toy_grant_def toy_tool_def
        caveats_top_def components_def component_of_def path_file_name_def)
  with a ok minted_context_never_amplifies [OF meet_intersects_inter_meet a, of toy_grant "''ls''"
      NoSandbox FLOOR_DEFAULT]
    minted_context_never_amplifies [OF meet_intersects_inter_meet a, of "tool_required toy_tool" "''rm''"
      NoSandbox FLOOR_DEFAULT]
  show ?thesis by blast
qed

lemma authorize_all_budget:
  assumes "gate_remaining g = Some m" and "gate_generation g = gen"
  shows "length (filter is_ok (snd (authorize_all meet g calls))) =
      min (unat m) (length (filter (admissible gen) calls)) \<and>
    map_option unat (gate_remaining (fst (authorize_all meet g calls))) =
      Some (unat m - length (filter (admissible gen) calls)) \<and>
    list_all2 (\<lambda>call r. \<not> admissible gen call \<longrightarrow>
      r = Inl (if scope_has (cav_valid_for_generation (snd call)) gen then Budget else Generation))
      calls (snd (authorize_all meet g calls))"
  using assms
proof (induction calls arbitrary: g m)
  case Nil
  then show ?case by simp
next
  case (Cons call calls)
  obtain tool granted where call: "call = (tool, granted)" by (cases call)
  show ?case
  proof (cases "admissible gen call \<and> m \<noteq> 0")
    case True
    then have "authorize meet g tool granted =
        (g\<lparr>gate_remaining := Some (m - 1)\<rparr>, Inr (mint_for meet g tool granted))"
      using Cons.prems call
      by (auto simp: authorize_def admissible_def charge_one_def charge_counter_def)
    moreover from True have "0 < unat m" by (simp add: unat_gt_0)
    ultimately show ?thesis
      using True Cons.IH [of "g\<lparr>gate_remaining := Some (m - 1)\<rparr>" "m - 1"] Cons.prems call
      by (auto simp: split_beta unat_pred)
  next
    case False
    then have "authorize meet g tool granted =
        (g, Inl (if scope_has (cav_valid_for_generation granted) gen then Budget else Generation))"
      using Cons.prems call
      by (auto simp: authorize_def admissible_def charge_one_def charge_counter_def)
    then show ?thesis
      using False Cons.IH [OF Cons.prems] call by (auto simp: split_beta)
  qed
qed

text \<open>A gate seeded with a budget of \<open>n\<close> calls admits, of any sequence of calls, exactly as
  many admissible ones (valid generation, non-zero grant bound) as the budget covers, and is left
  with the rest of the budget; a refused call costs nothing, and is refused for its generation
  before its budget is looked at.\<close>
theorem budget_bounds_admissions:
  "let (g', rs) = authorize_all meet (with_budget gen (AtMost n)) calls;
       wanted = length (filter (admissible gen) calls)
   in length (filter is_ok rs) = min (unat n) wanted \<and>
      map_option unat (gate_remaining g') = Some (unat n - wanted) \<and>
      list_all2 (\<lambda>call r. \<not> admissible gen call \<longrightarrow>
        r = Inl (if scope_has (cav_valid_for_generation (snd call)) gen then Budget else Generation))
        calls rs"
  using authorize_all_budget [of "with_budget gen (AtMost n)" n gen meet calls]
  by (simp add: with_budget_def split_beta)

theorem budget_bounds_admissions_witness:
  "length (filter is_ok (snd (authorize_all inter_meet (with_budget 3 (AtMost 2))
     [(toy_tool, toy_grant), (toy_tool, toy_grant\<lparr>cav_valid_for_generation := ScopeOnly []\<rparr>),
      (toy_tool, toy_grant), (toy_tool, toy_grant)]))) = 2"
  using budget_bounds_admissions [of inter_meet 3 2 "[(toy_tool, toy_grant),
      (toy_tool, toy_grant\<lparr>cav_valid_for_generation := ScopeOnly []\<rparr>),
      (toy_tool, toy_grant), (toy_tool, toy_grant)]"]
  by (simp add: split_beta admissible_def toy_grant_def caveats_top_def Let_def del: authorize_all.simps)

definition accounted :: "Gate \<Rightarrow> Gate \<times> 'a ToolResult \<Rightarrow> bool" where
  "accounted g out =
     (case snd out of
        Inl _ \<Rightarrow> gate_remaining (fst out) = gate_remaining g
      | Inr _ \<Rightarrow> charge_counter (gate_remaining g) = (gate_remaining (fst out), True))"

lemma authorize_accounted: "accounted g (authorize meet g tool granted)"
  by (auto simp: accounted_def authorize_def charge_one_ok charge_one_err
      split: sum.splits prod.splits if_splits)

lemma authorize_with_discharge_accounted:
  "accounted g (authorize_with_discharge h ser meet g tool granted req policy attempt)"
  by (auto simp: accounted_def authorize_with_discharge_def Let_def charge_one_ok charge_one_err
      split: sum.splits option.splits prod.splits if_splits)

lemma authorize_step_up_accounted:
  "accounted g (authorize_step_up h ser meet g tool granted req policy prov ver nonce)"
proof (cases "demands_gesture (required_for policy req)")
  case True
  then show ?thesis
    by (auto simp: authorize_step_up_def Let_def authorize_with_discharge_accounted
        split: sum.splits option.splits) (simp_all add: accounted_def)
next
  case False
  with authorize_accounted [of g meet tool granted] show ?thesis
    by (auto simp: authorize_step_up_def accounted_def Let_def split: sum.splits prod.splits)
qed

text \<open>Every entry point of the gate spends exactly one call when it admits and none when it
  refuses, whatever the reason: the generation, the budget, a missing or rejected gesture, a
  replayed discharge. Evaluation alone leaves the whole gate untouched unless it allows.\<close>
theorem refusal_costs_nothing:
  "accounted g (authorize meet g tool granted) \<and>
   accounted g (authorize_with_discharge h ser meet g tool granted req policy attempt) \<and>
   accounted g (authorize_step_up h ser meet g tool granted req policy prov ver nonce) \<and>
   (case evaluate meet g tool granted req policy of
      (g', Allow _) \<Rightarrow> charge_counter (gate_remaining g) = (gate_remaining g', True)
    | (g', _) \<Rightarrow> g' = g)"
  by (intro conjI authorize_accounted authorize_with_discharge_accounted authorize_step_up_accounted)
    (auto simp: evaluate_def Let_def charge_one_ok charge_one_err
      split: sum.splits prod.splits if_splits)

definition toy_policy :: StepUpPolicy where
  "toy_policy = \<lparr>pol_rules = [], pol_default = passkey_recorded\<lparr>att_freshness_generations := 2\<rparr>\<rparr>"

definition toy_gate :: Gate where
  "toy_gate = with_session (replicate 32 9) (gate_new 3)"

definition toy_attempt :: DischargeAttempt where
  "toy_attempt = \<lparr>try_nonce = replicate 32 7, try_discharge = toy_assertion 5,
     try_verifier = shipped_verifier toy_crypto WebAuthnEs256\<rparr>"

lemma toy_attempt_accepted:
  "\<exists>g1 out. authorize_with_discharge toy_hash toy_ser inter_meet toy_gate toy_tool toy_grant
     (unspecified ''git'') toy_policy toy_attempt = (g1, Inr out)"
proof -
  have "is_ok (snd (authorize_with_discharge toy_hash toy_ser inter_meet toy_gate toy_tool toy_grant
     (unspecified ''git'') toy_policy toy_attempt))" by code_simp
  then show ?thesis by (metis is_ok_iff prod.collapse)
qed

lemma toy_policy_demands: "demands_gesture (required_for toy_policy req)"
  by (simp add: demands_gesture_def required_for_def toy_policy_def passkey_recorded_def less_Presence_def)

text \<open>C2. A gesture is single-use: once a discharge has been accepted, no attempt with the same
  challenge is ever accepted again by that gate, under any tool, grant, request, nonce or policy
  that demands a gesture and any shipped verifier, however many operations (with arbitrary
  verifiers and providers) ran in between; the refused replay changes nothing.\<close>
theorem discharge_single_use:
  assumes "authorize_with_discharge h ser meet g tool granted req policy attempt = (g1, Inr out)"
    and "demands_gesture (required_for policy req)"
    and "try_verifier attempt = shipped_verifier cr s"
    and "(gate_op h ser meet)\<^sup>*\<^sup>* g1 g2"
    and "demands_gesture (required_for policy2 req2)"
    and "dis_challenge (try_discharge attempt2) = dis_challenge (try_discharge attempt)"
    and "try_verifier attempt2 = shipped_verifier cr2 s2"
  shows "\<exists>e. authorize_with_discharge h ser meet g2 tool2 granted2 req2 policy2 attempt2 = (g2, Inl e)"
proof (rule spent_challenge_refused)
  from gesture_accepted [OF assms(1,2)] shipped.answers [of cr s] assms(3)
  have "dis_challenge (try_discharge attempt) \<in> gate_consumed g1" by (metis insertI1)
  with gate_ops_le [OF assms(4)] assms(6)
  show "dis_challenge (try_discharge attempt2) \<in> gate_consumed g2" by (auto simp: gate_le_def)
  show "discharge_verifier (try_verifier attempt2)"
    using assms(7) shipped.discharge_verifier_axioms by metis
qed (rule assms(5))

theorem discharge_single_use_witness:
  "\<exists>g1 out. authorize_with_discharge toy_hash toy_ser inter_meet toy_gate toy_tool toy_grant
      (unspecified ''git'') toy_policy toy_attempt = (g1, Inr out) \<and>
    (\<exists>e. authorize_with_discharge toy_hash toy_ser inter_meet g1 toy_tool toy_grant
      (unspecified ''git'') toy_policy toy_attempt = (g1, Inl e))"
proof -
  obtain g1 out where ok: "authorize_with_discharge toy_hash toy_ser inter_meet toy_gate toy_tool
      toy_grant (unspecified ''git'') toy_policy toy_attempt = (g1, Inr out)"
    using toy_attempt_accepted by blast
  have v: "try_verifier toy_attempt = shipped_verifier toy_crypto WebAuthnEs256"
    by (simp add: toy_attempt_def)
  from discharge_single_use [OF ok toy_policy_demands v rtranclp.rtrancl_refl toy_policy_demands refl v] ok
  show ?thesis by blast
qed

text \<open>C10. An accepted discharge is bound to its session, its action, its nonce and a generation
  of the freshness window: if one discharge is accepted by two gates (two live gates, a recreated
  gate, or one gate under another policy), then each gate hashed a preimage built from its own
  session, action and nonce and a generation at most \<open>min freshness 4096\<close> old, and either these
  agree in every part or they are two different preimages with one digest.\<close>
theorem accepted_discharge_is_bound:
  assumes "authorize_with_discharge h ser meet g tool granted req policy attempt = (g1, Inr out)"
    and "authorize_with_discharge h ser meet' g' tool' granted' req' policy' attempt' = (g1', Inr out')"
    and "demands_gesture (required_for policy req)" and "demands_gesture (required_for policy' req')"
    and "try_verifier attempt = shipped_verifier cr s" and "try_verifier attempt' = shipped_verifier cr' s'"
    and "try_discharge attempt' = try_discharge attempt"
    and "gate_session g = Some session" and "gate_session g' = Some session'"
    and "length session = 32" and "length session' = 32" and "\<forall>b. length (h b) = 32"
  shows "\<exists>gen gen'.
    gen \<le> gate_generation g \<and> gen' \<le> gate_generation g' \<and>
    unat (gate_generation g) - unat gen \<le>
      min (unat (att_freshness_generations (required_for policy req))) 4096 \<and>
    unat (gate_generation g') - unat gen' \<le>
      min (unat (att_freshness_generations (required_for policy' req'))) 4096 \<and>
    (let pre = challenge_preimage session (content_id h ser req) gen (try_nonce attempt);
         pre' = challenge_preimage session' (content_id h ser req') gen' (try_nonce attempt')
     in h pre = dis_challenge (try_discharge attempt) \<and> h pre' = h pre \<and>
        (pre = pre' \<longrightarrow> session = session' \<and> content_id h ser req = content_id h ser req' \<and>
           gen = gen' \<and> try_nonce attempt = try_nonce attempt'))"
proof -
  have bound: "\<exists>gen \<in> set (freshness_window g (required_for policy req)).
      h (challenge_preimage session (content_id h ser req) gen (try_nonce attempt)) =
        dis_challenge (try_discharge attempt)"
    if "authorize_with_discharge h ser meet g (tool :: 'x Tool_scheme) granted req policy attempt = (g1, Inr out)"
      "demands_gesture (required_for policy req)" "gate_session g = Some session"
      "discharge_verifier (try_verifier attempt)"
    for meet g tool granted req policy attempt g1 out session
    using gesture_accepted [OF that(1,2)] that(3) discharge_verifier.answers [OF that(4)]
      expected_challenge_bound [of g "required_for policy req" h session "content_id h ser req" attempt]
    by (metis challenge_bind_def option.inject)
  have cid: "length (content_id h ser q) = 32" for q using assms(12) by (simp add: content_id_def)
  obtain gen where gen: "gen \<in> set (freshness_window g (required_for policy req))"
    "h (challenge_preimage session (content_id h ser req) gen (try_nonce attempt)) =
        dis_challenge (try_discharge attempt)"
    using bound [OF assms(1,3,8)] assms(5) shipped.discharge_verifier_axioms by metis
  obtain gen' where gen': "gen' \<in> set (freshness_window g' (required_for policy' req'))"
    "h (challenge_preimage session' (content_id h ser req') gen' (try_nonce attempt')) =
        dis_challenge (try_discharge attempt)"
    using bound [OF assms(2,4,9)] assms(6,7) shipped.discharge_verifier_axioms by metis
  show ?thesis
    using gen gen' challenge_preimage_inj [of session "content_id h ser req" gen "try_nonce attempt"
        session' "content_id h ser req'" gen' "try_nonce attempt'"] assms(10,11) cid
    by (intro exI [of _ gen] exI [of _ gen']) (auto simp: set_freshness_window Let_def)
qed

theorem accepted_discharge_is_bound_witness:
  "\<exists>gen. gen \<le> 3 \<and> 3 - unat gen \<le> 2 \<and>
     toy_hash (challenge_preimage (replicate 32 9) (content_id toy_hash toy_ser (unspecified ''git'')) gen
       (replicate 32 7)) = replicate 32 7"
proof -
  obtain g1 out where ok: "authorize_with_discharge toy_hash toy_ser inter_meet toy_gate toy_tool
      toy_grant (unspecified ''git'') toy_policy toy_attempt = (g1, Inr out)"
    using toy_attempt_accepted by blast
  have v: "try_verifier toy_attempt = shipped_verifier toy_crypto WebAuthnEs256"
    and g: "gate_session toy_gate = Some (replicate 32 9)" "gate_generation toy_gate = 3"
    and h: "\<forall>b. length (toy_hash b) = 32"
    by (simp_all add: toy_attempt_def toy_gate_def with_session_def gate_new_def toy_hash_def min_def)
  show ?thesis
    using accepted_discharge_is_bound [OF ok ok toy_policy_demands toy_policy_demands v v refl g(1) g(1) _ _ h]
    by (auto simp: g Let_def toy_attempt_def toy_assertion_def required_for_def toy_policy_def)
qed

lemma step_up_accepted:
  assumes "authorize_step_up h ser meet g tool granted req policy prov (shipped_verifier cr s) nonce =
      (g', Inr (cx, att))"
    and "demands_gesture (required_for policy req)"
  shows "\<exists>session d gen. gate_session g = Some session \<and>
    prov session req (required_for policy req) (gate_generation g) nonce = Inr d \<and>
    att_presence (required_for policy req) \<le> dis_presence d \<and>
    gen \<in> set (freshness_window g (required_for policy req)) \<and>
    dis_challenge d = challenge_bind h session (content_id h ser req) gen nonce \<and>
    dis_challenge d \<notin> gate_consumed g \<and> dis_challenge d \<in> gate_consumed g' \<and>
    cx = mint_for meet g tool granted \<and>
    att = (if att_record (required_for policy req)
           then Some (from_verified (req_tool req) (req_resource req) d (gate_generation g)) else None)"
proof -
  from assms obtain session d where sd: "gate_session g = Some session"
    "prov session req (required_for policy req) (gate_generation g) nonce = Inr d"
    and acc: "authorize_with_discharge h ser meet g tool granted req policy
      \<lparr>try_nonce = nonce, try_discharge = d, try_verifier = shipped_verifier cr s\<rparr> = (g', Inr (cx, att))"
    by (auto simp: authorize_step_up_def Let_def split: option.splits sum.splits)
  let ?att = "\<lparr>try_nonce = nonce, try_discharge = d, try_verifier = shipped_verifier cr s\<rparr>"
  obtain session' expected where "gate_session g = Some session'"
    and "expected = expected_challenge h g session' (content_id h ser req) (required_for policy req) ?att"
    and "try_verifier ?att (try_discharge ?att) (required_for policy req) expected = Inr ()"
    and led: "expected \<notin> gate_consumed g" "gate_consumed g' = insert expected (gate_consumed g)"
    and "(cx, att) = (mint_for meet g tool granted,
      if att_record (required_for policy req)
      then Some (from_verified (req_tool req) (req_resource req) (try_discharge ?att) (gate_generation g))
      else None)"
    by (rule gesture_accepted [OF acc assms(2)])
  with sd(1) have e: "expected = expected_challenge h g session (content_id h ser req)
      (required_for policy req) ?att"
    and ver: "shipped_verifier cr s d (required_for policy req) expected = Inr ()"
    and out: "cx = mint_for meet g tool granted"
      "att = (if att_record (required_for policy req)
        then Some (from_verified (req_tool req) (req_resource req) d (gate_generation g)) else None)"
    by simp_all
  obtain gen where "gen \<in> set (freshness_window g (required_for policy req))"
    "expected = challenge_bind h session (content_id h ser req) gen nonce"
    using expected_challenge_bound [of g "required_for policy req" h session "content_id h ser req" ?att] e
    by auto
  moreover have "dis_challenge d = expected" "att_presence (required_for policy req) \<le> dis_presence d"
    using shipped.answers [OF ver] shipped.meets_floor [OF ver] by simp_all
  ultimately show ?thesis using sd led out
    by (intro exI [of _ session] exI [of _ d] exI [of _ gen]) simp
qed

text \<open>C34. A call that owes a gesture is admitted through the host ceremony only when a session is
  bound, the provider answered for that very session, request and generation, the gesture is at
  least as strong as the policy demands and answers a challenge of the freshness window never
  used before; the context is the one plain authorization would mint, and the attestation exists
  exactly when the policy records, with the discharge's own proof in it.\<close>
theorem step_up_requires_gesture:
  assumes "authorize_step_up h ser meet g tool granted req policy prov (shipped_verifier cr s) nonce =
      (g', Inr (cx, att))"
    and "demands_gesture (required_for policy req)"
  shows "\<exists>session d gen. gate_session g = Some session \<and>
    prov session req (required_for policy req) (gate_generation g) nonce = Inr d \<and>
    att_presence (required_for policy req) \<le> dis_presence d \<and>
    gen \<in> set (freshness_window g (required_for policy req)) \<and>
    dis_challenge d = challenge_bind h session (content_id h ser req) gen nonce \<and>
    dis_challenge d \<notin> gate_consumed g \<and> dis_challenge d \<in> gate_consumed g' \<and>
    cx = mint_for meet g tool granted \<and>
    att = (if att_record (required_for policy req)
           then Some (from_verified (req_tool req) (req_resource req) d (gate_generation g)) else None)"
  using step_up_accepted [OF assms] .

theorem step_up_requires_gesture_witness:
  "\<exists>g' cx att. authorize_step_up toy_hash toy_ser inter_meet toy_gate toy_tool toy_grant
      (unspecified ''git'') toy_policy (\<lambda>_ _ _ _ _. Inr (toy_assertion 5))
      (shipped_verifier toy_crypto WebAuthnEs256) (replicate 32 7) = (g', Inr (cx, att)) \<and>
    replicate 32 7 \<in> gate_consumed g' \<and> att \<noteq> None"
proof -
  have "is_ok (snd (authorize_step_up toy_hash toy_ser inter_meet toy_gate toy_tool toy_grant
      (unspecified ''git'') toy_policy (\<lambda>_ _ _ _ _. Inr (toy_assertion 5))
      (shipped_verifier toy_crypto WebAuthnEs256) (replicate 32 7)))" by code_simp
  then obtain g' cx att where ok: "authorize_step_up toy_hash toy_ser inter_meet toy_gate toy_tool toy_grant
      (unspecified ''git'') toy_policy (\<lambda>_ _ _ _ _. Inr (toy_assertion 5))
      (shipped_verifier toy_crypto WebAuthnEs256) (replicate 32 7) = (g', Inr (cx, att))"
    by (metis is_ok_iff prod.collapse)
  from step_up_requires_gesture [OF ok toy_policy_demands]
  have "replicate 32 7 \<in> gate_consumed g' \<and> att \<noteq> None"
    by (auto simp: toy_assertion_def required_for_def toy_policy_def passkey_recorded_def)
  with ok show ?thesis by blast
qed

text \<open>C35. Step-up fails closed without running anything it need not run: on a gate with no bound
  session a call that owes a gesture is refused before the provider is asked, and a provider that
  declines or a verifier that rejects refuses the call; the gate is unchanged in every case. With
  no gesture owed, the step-up entry, evaluation and presenting a discharge all decide exactly as
  plain authorization does.\<close>
theorem step_up_fails_closed:
  "(demands_gesture (required_for policy req) \<and>
      (gate_session g = None \<or>
       (\<exists>session why. gate_session g = Some session \<and>
          (prov session req (required_for policy req) (gate_generation g) nonce = Inl why \<or>
           (\<forall>d c. \<not> is_ok (ver d (required_for policy req) c)))) ) \<and>
      scope_has (cav_valid_for_generation granted) (gate_generation g) \<longrightarrow>
    (\<exists>e. authorize_step_up h ser meet g tool granted req policy prov ver nonce = (g, Inl e) \<and>
       is_denied_error e \<and> (gate_session g = None \<longrightarrow> e = unbound_session_error))) \<and>
   (\<not> demands_gesture (required_for policy req) \<longrightarrow>
     (let (g', r) = authorize meet g tool granted
      in authorize_step_up h ser meet g tool granted req policy prov ver nonce =
           (g', map_sum id (\<lambda>cx. (cx, None)) r) \<and>
         authorize_with_discharge h ser meet g tool granted req policy attempt =
           (g', map_sum id (\<lambda>cx. (cx, None)) r) \<and>
         evaluate meet g tool granted req policy = (g', (case r of Inl e \<Rightarrow> Deny e | Inr cx \<Rightarrow> Allow cx))))"
proof (intro conjI impI)
  assume "\<not> demands_gesture (required_for policy req)"
  then show "let (g', r) = authorize meet g tool granted
      in authorize_step_up h ser meet g tool granted req policy prov ver nonce =
           (g', map_sum id (\<lambda>cx. (cx, None)) r) \<and>
         authorize_with_discharge h ser meet g tool granted req policy attempt =
           (g', map_sum id (\<lambda>cx. (cx, None)) r) \<and>
         evaluate meet g tool granted req policy = (g', (case r of Inl e \<Rightarrow> Deny e | Inr cx \<Rightarrow> Allow cx))"
    by (auto simp: authorize_def authorize_step_up_def authorize_with_discharge_def evaluate_def Let_def
        split: sum.splits prod.splits)
next
  assume "demands_gesture (required_for policy req) \<and>
      (gate_session g = None \<or>
       (\<exists>session why. gate_session g = Some session \<and>
          (prov session req (required_for policy req) (gate_generation g) nonce = Inl why \<or>
           (\<forall>d c. \<not> is_ok (ver d (required_for policy req) c)))) ) \<and>
      scope_has (cav_valid_for_generation granted) (gate_generation g)"
  then show "\<exists>e. authorize_step_up h ser meet g tool granted req policy prov ver nonce = (g, Inl e) \<and>
       is_denied_error e \<and> (gate_session g = None \<longrightarrow> e = unbound_session_error)"
    by (auto simp: authorize_step_up_def authorize_with_discharge_def Let_def unbound_session_error_def
        is_ok_def split: sum.splits option.splits)
qed

theorem step_up_fails_closed_witness:
  "authorize_step_up toy_hash toy_ser inter_meet (gate_new 3) toy_tool toy_grant
     (unspecified ''git'') toy_policy (\<lambda>_ _ _ _ _. Inr (toy_assertion 5))
     (\<lambda>_ _ _. Inr ()) (replicate 32 7) = (gate_new 3, Inl unbound_session_error)"
proof -
  have "gate_session (gate_new 3) = None"
    "scope_has (cav_valid_for_generation toy_grant) (gate_generation (gate_new 3))"
    by (simp_all add: gate_new_def toy_grant_def)
  with step_up_fails_closed [of toy_policy "unspecified ''git''" "gate_new 3"
      "\<lambda>_ _ _ _ _. Inr (toy_assertion 5)" "replicate 32 7" "\<lambda>_ _ _. Inr ()" toy_grant toy_hash toy_ser
      inter_meet toy_tool] toy_policy_demands
  show ?thesis by auto
qed

subsection \<open>Concurrent charging\<close>

definition charged :: "(nat \<Rightarrow> charger) \<Rightarrow> nat set" where
  "charged ts = {i. ts i = Charged}"

definition charge_inv :: "u64 \<Rightarrow> charge_state \<Rightarrow> bool" where
  "charge_inv n st \<longleftrightarrow> finite (charged (snd st)) \<and>
     unat (fst st) + card (charged (snd st)) = unat n \<and>
     (\<forall>i. snd st i \<noteq> Loaded 0) \<and> ((\<exists>i. snd st i = Refused) \<longrightarrow> fst st = 0)"

lemma charged_update:
  "ts i \<noteq> Charged \<Longrightarrow> charged (ts(i := t)) = (if t = Charged then insert i (charged ts) else charged ts)"
  "ts i \<noteq> Charged \<Longrightarrow> i \<notin> charged ts"
  by (auto simp: charged_def)

lemma charge_inv_step: "charge_step st st' \<Longrightarrow> charge_inv n st \<Longrightarrow> charge_inv n st'"
proof (induction rule: charge_step.induct)
  case (cas_ok ts i cur c)
  then have "cur \<noteq> 0" by (auto simp: charge_inv_def)
  with cas_ok show ?case
    by (auto simp: charge_inv_def charged_update unat_pred word_gt_0_unat)
qed (auto simp: charge_inv_def charged_update)

lemma charge_inv_reachable:
  "charge_step\<^sup>*\<^sup>* (n, \<lambda>_. Loading) st \<Longrightarrow> charge_inv n st"
proof (induction rule: rtranclp_induct)
  case base
  show ?case by (simp add: charge_inv_def charged_def)
qed (rule charge_inv_step)

lemma pending_can_finish:
  assumes "ts i \<noteq> Charged" "ts i \<noteq> Refused"
  shows "\<exists>c' r. r \<in> {Charged, Refused} \<and> charge_step\<^sup>*\<^sup>* (c, ts) (c', ts(i := r))"
proof -
  have load: "\<exists>c' r. r \<in> {Charged, Refused} \<and> charge_step\<^sup>*\<^sup>* (c, ts) (c', ts(i := r))"
    if "ts i = Loading" for ts
  proof (cases "c = 0")
    case True
    with that have "charge_step (c, ts) (c, ts(i := Refused))" by (rule charge_step.load_zero)
    then show ?thesis by blast
  next
    case False
    from that False have "charge_step (c, ts) (c, ts(i := Loaded c))" by (rule charge_step.load)
    moreover have "charge_step (c, ts(i := Loaded c)) (c - 1, (ts(i := Loaded c))(i := Charged))"
      by (rule charge_step.cas_ok) simp_all
    ultimately have "charge_step\<^sup>*\<^sup>* (c, ts) (c - 1, ts(i := Charged))" by simp
    then show ?thesis by blast
  qed
  show ?thesis
  proof (cases "ts i")
    case (Loaded cur)
    then have "charge_step (c, ts) (c, ts(i := Loading))" by (rule charge_step.cas_fail)
    moreover obtain c' r where "r \<in> {Charged, Refused}"
      "charge_step\<^sup>*\<^sup>* (c, ts(i := Loading)) (c', (ts(i := Loading))(i := r))"
      using load [of "ts(i := Loading)"] by auto
    ultimately show ?thesis by (metis converse_rtranclp_into_rtranclp fun_upd_upd)
  qed (use assms load in auto)
qed

text \<open>C11. Under any interleaving of any number of threads, with spurious failures of the weak
  compare-and-exchange allowed, the atomic budget of \<open>n\<close> never admits more than \<open>n\<close> calls, refuses
  a thread only when all \<open>n\<close> are spent, and never underflows; and no thread is ever stuck: run
  alone from any reachable state it finishes.\<close>
theorem charge_never_overspends:
  assumes "charge_step\<^sup>*\<^sup>* (n, \<lambda>_. Loading) (c, ts)"
  shows "unat c + card {i. ts i = Charged} = unat n \<and> finite {i. ts i = Charged} \<and>
    ((\<exists>i. ts i = Refused) \<longrightarrow> card {i. ts i = Charged} = unat n) \<and>
    (\<forall>i. ts i = Charged \<or> ts i = Refused \<or>
       (\<exists>c' r. r \<in> {Charged, Refused} \<and> charge_step\<^sup>*\<^sup>* (c, ts) (c', ts(i := r))))"
  using charge_inv_reachable [OF assms] pending_can_finish [of ts]
  by (auto simp: charge_inv_def charged_def)

theorem charge_never_overspends_witness:
  "charge_step\<^sup>*\<^sup>* (1, \<lambda>_. Loading) (0, (\<lambda>_. Loading)(0 := Charged, 1 := Refused)) \<and>
   card {i :: nat. ((\<lambda>_. Loading)(0 := Charged, 1 := Refused)) i = Charged} = unat (1 :: u64)"
proof -
  let ?t = "(\<lambda>_. Loading) :: nat \<Rightarrow> charger"
  have "charge_step (1, ?t) (1, ?t(0 := Loaded 1))" by (rule charge_step.load) simp_all
  moreover have "charge_step (1, ?t(0 := Loaded 1)) (1 - 1, (?t(0 := Loaded 1))(0 := Charged))"
    by (rule charge_step.cas_ok) simp_all
  moreover have "charge_step (0, ?t(0 := Charged)) (0, (?t(0 := Charged))(1 := Refused))"
    by (rule charge_step.load_zero) simp_all
  ultimately have reach: "charge_step\<^sup>*\<^sup>* (1, ?t) (0, ?t(0 := Charged, 1 := Refused))"
    by (simp add: rtranclp.rtrancl_into_rtrancl)
  have "unat (0 :: u64) + card {i. (?t(0 := Charged, 1 := Refused)) i = Charged} = unat (1 :: u64)"
    by (rule conjunct1 [OF charge_never_overspends [OF reach]])
  then have "card {i. (?t(0 := Charged, 1 := Refused)) i = Charged} = unat (1 :: u64)"
    by (simp only: unat_0 add_0)
  with reach show ?thesis by (rule conjI)
qed

subsection \<open>Floors\<close>

text \<open>Operations that may raise the required fence strength but never lower it.\<close>

locale monotone_floor =
  fixes step :: "'op \<Rightarrow> 's \<Rightarrow> 's"
    and floor_of :: "'s \<Rightarrow> EnforcementFloor"
    and demand :: "'op \<Rightarrow> ConfinedAxis \<Rightarrow> AxisEnforcement option"
  assumes raises: "requirement (floor_of s) axis \<le> requirement (floor_of (step op s)) axis"
    and meets: "demand op axis = Some a \<Longrightarrow> a \<le> requirement (floor_of (step op s)) axis"
begin

lemma fold_raises: "requirement (floor_of s) axis \<le> requirement (floor_of (fold step ops s)) axis"
  by (induction ops arbitrary: s) (auto intro: order_trans [OF raises])

lemma fold_meets:
  "op \<in> set ops \<Longrightarrow> demand op axis = Some a \<Longrightarrow> a \<le> requirement (floor_of (fold step ops s)) axis"
proof (induction ops arbitrary: s)
  case (Cons x ops)
  then show ?case using order_trans [OF meets fold_raises] by auto
qed simp

end

fun builder_demand :: "gate_builder \<Rightarrow> ConfinedAxis \<Rightarrow> AxisEnforcement option" where
  "builder_demand (WithStrengthFloor a) axis = Some (requirement (from_scalar a) axis)"
| "builder_demand (WithEnforcementFloor f) axis = Some (requirement f axis)"
| "builder_demand _ axis = None"

interpretation gate_floor: monotone_floor gate_build gate_strength_floor builder_demand
proof
  fix s op axis
  show "requirement (gate_strength_floor s) axis \<le> requirement (gate_strength_floor (gate_build op s)) axis"
    by (cases op) (simp_all add: with_session_def with_sandbox_def with_strength_floor_def
        with_enforcement_floor_def requirement_join)
  show "builder_demand op axis = Some a \<Longrightarrow> a \<le> requirement (gate_strength_floor (gate_build op s)) axis" for a
    by (cases op) (auto simp: with_strength_floor_def with_enforcement_floor_def requirement_join)
qed

text \<open>However a gate is configured, every context it mints demands on each axis at least the
  default floor and at least what each single configuration call asked for, in any order: no later
  call weakens an earlier one.\<close>
theorem minted_floor_dominates:
  assumes "authorize meet (fold gate_build ops (with_budget gen b)) tool granted = (g', Inr cx)"
  shows "requirement FLOOR_DEFAULT axis \<le> requirement (strength_floor cx) axis \<and>
    (\<forall>a. WithStrengthFloor a \<in> set ops \<longrightarrow>
       requirement (from_scalar a) axis \<le> requirement (strength_floor cx) axis) \<and>
    (\<forall>f. WithEnforcementFloor f \<in> set ops \<longrightarrow>
       requirement f axis \<le> requirement (strength_floor cx) axis)"
proof -
  let ?g = "fold gate_build ops (with_budget gen b)"
  from assms have cx: "strength_floor cx = gate_strength_floor ?g"
    by (auto simp: authorize_def mint_for_def mint_def split: sum.splits prod.splits if_splits)
  have "gate_strength_floor (with_budget gen b) = FLOOR_DEFAULT" by (simp add: with_budget_def)
  with cx gate_floor.fold_raises [of "with_budget gen b" axis ops]
    gate_floor.fold_meets [of _ ops axis _ "with_budget gen b"]
  show ?thesis by (metis builder_demand.simps(1,2))
qed

theorem minted_floor_dominates_witness:
  "\<exists>g' cx. authorize inter_meet (fold gate_build [WithEnforcementFloor FLOOR_CONFINED,
      WithStrengthFloor Advisory, WithSession []] (with_budget 3 Unlimited)) toy_tool toy_grant = (g', Inr cx) \<and>
    requirement FLOOR_CONFINED Axis_Net \<le> requirement (strength_floor cx) Axis_Net"
proof -
  let ?ops = "[WithEnforcementFloor FLOOR_CONFINED, WithStrengthFloor Advisory, WithSession []]"
  have "is_ok (snd (authorize inter_meet (fold gate_build ?ops (with_budget 3 Unlimited)) toy_tool toy_grant))"
    by code_simp
  then obtain g' cx where ok:
    "authorize inter_meet (fold gate_build ?ops (with_budget 3 Unlimited)) toy_tool toy_grant = (g', Inr cx)"
    by (metis is_ok_iff prod.collapse)
  with minted_floor_dominates [OF ok, of Axis_Net] show ?thesis by auto
qed

end
