(* ===== verification/Tool_Registry.thy ===== *)
theory Tool_Registry
  imports Leash_Gate
begin

text \<open>
  The tool catalog and its leashed dispatch (\<^verbatim>\<open>agent-bridle-core/src/registry.rs\<close>,
  \<^verbatim>\<open>tool.rs\<close>). A tool's own code is its field \<open>tool_invoke_accounted\<close>, acting on an abstract
  world. A grant holds the address of its budget cell, so that clones of a grant share one cell;
  the cells are an explicit store. Dispatch is given twice: as one function, and as the steps of
  many dispatches interleaving at their suspension points.
\<close>

subsection \<open>Tools\<close>

datatype Invocation = Ran json | PreRunDenied json

definition into_value :: "Invocation \<Rightarrow> json" where
  "into_value i = (case i of Ran v \<Rightarrow> v | PreRunDenied v \<Rightarrow> v)"

definition is_denied :: "Invocation \<Rightarrow> bool" where
  "is_denied i = (case i of PreRunDenied _ \<Rightarrow> True | Ran _ \<Rightarrow> False)"

record 'w DynTool = Tool +
  tool_schema :: json
  tool_invoke_accounted :: "json \<Rightarrow> ToolContext \<Rightarrow> 'w \<Rightarrow> 'w \<times> Invocation ToolResult"

text \<open>The trait's default \<^verbatim>\<open>invoke_accounted\<close> over a plain \<^verbatim>\<open>invoke\<close>.\<close>

definition default_accounted ::
  "(json \<Rightarrow> ToolContext \<Rightarrow> 'w \<Rightarrow> 'w \<times> json ToolResult) \<Rightarrow>
   json \<Rightarrow> ToolContext \<Rightarrow> 'w \<Rightarrow> 'w \<times> Invocation ToolResult" where
  "default_accounted invoke args cx w =
     (case invoke args cx w of (w', r) \<Rightarrow> (w', map_sum id Ran r))"

subsection \<open>The grant budget\<close>

type_synonym budget_cell = "u64 option"

definition grant_budget_new :: "CountBound \<Rightarrow> budget_cell" where
  "grant_budget_new max_calls = (case max_calls of AtMost n \<Rightarrow> Some n | Unlimited \<Rightarrow> None)"

definition grant_charge :: "budget_cell \<Rightarrow> budget_cell \<times> unit ToolResult" where
  "grant_charge remaining =
     (case remaining of
        None \<Rightarrow> (None, Inr ())
      | Some n \<Rightarrow> if n = 0 then (Some n, Inl Budget) else (Some (n - 1), Inr ()))"

definition grant_refund :: "budget_cell \<Rightarrow> budget_cell" where
  "grant_refund remaining = (case remaining of Some n \<Rightarrow> Some (n + 1) | None \<Rightarrow> None)"

record Grant =
  grant_caveats :: Caveats
  grant_budget :: nat

text \<open>Minting allocates a fresh cell; cloning a grant copies the address.\<close>

definition mint_grant :: "budget_cell list \<Rightarrow> Caveats \<Rightarrow> budget_cell list \<times> Grant" where
  "mint_grant cells caveats =
     (cells @ [grant_budget_new (cav_max_calls caveats)],
      \<lparr>grant_caveats = caveats, grant_budget = length cells\<rparr>)"

subsection \<open>The registry and its builder\<close>

record StepUp =
  su_policy :: StepUpPolicy
  su_provider :: provider
  su_verifier :: verifier
  su_session :: bytes

record 'w Registry =
  reg_tools :: "(string \<times> 'w DynTool) list"
  reg_generation :: u64
  reg_step_up :: "StepUp option"
  reg_step_up_nonce :: u64

record 'w RegistryBuilder =
  bld_tools :: "(string \<times> 'w DynTool) list"
  bld_generation :: u64
  bld_step_up :: "StepUp option"

definition registry_builder :: "'w RegistryBuilder" where
  "registry_builder = \<lparr>bld_tools = [], bld_generation = 0, bld_step_up = None\<rparr>"

definition builder_tool :: "'w DynTool \<Rightarrow> 'w RegistryBuilder \<Rightarrow> 'w RegistryBuilder" where
  "builder_tool tool b = b\<lparr>bld_tools := bmap_insert (tool_name tool) tool (bld_tools b)\<rparr>"

definition builder_generation :: "u64 \<Rightarrow> 'w RegistryBuilder \<Rightarrow> 'w RegistryBuilder" where
  "builder_generation generation b = b\<lparr>bld_generation := generation\<rparr>"

definition builder_step_up ::
  "bytes \<Rightarrow> StepUpPolicy \<Rightarrow> provider \<Rightarrow> verifier \<Rightarrow> 'w RegistryBuilder \<Rightarrow> 'w RegistryBuilder" where
  "builder_step_up session policy provider verifier b =
     b\<lparr>bld_step_up := Some \<lparr>su_policy = policy, su_provider = provider, su_verifier = verifier,
       su_session = session\<rparr>\<rparr>"

definition builder_build :: "'w RegistryBuilder \<Rightarrow> 'w Registry" where
  "builder_build b = \<lparr>reg_tools = bld_tools b, reg_generation = bld_generation b,
     reg_step_up = bld_step_up b, reg_step_up_nonce = 0\<rparr>"

definition tool_definitions :: "'w Registry \<Rightarrow> json list" where
  "tool_definitions reg = map (\<lambda>(_, t). JObject [(''name'', JString (tool_name t)),
     (''inputSchema'', tool_schema t)]) (reg_tools reg)"

definition tool_names :: "'w Registry \<Rightarrow> string list" where
  "tool_names reg = map fst (reg_tools reg)"

definition registry_contains :: "'w Registry \<Rightarrow> string \<Rightarrow> bool" where
  "registry_contains reg name \<longleftrightarrow> map_of (reg_tools reg) name \<noteq> None"

subsection \<open>Authorizing a grant\<close>

definition ceremony_nonce :: "u64 \<Rightarrow> bytes" where
  "ceremony_nonce n = to_le_bytes n @ replicate 24 0"

definition authorize_grant ::
  "hash \<Rightarrow> serializer \<Rightarrow> meet_op \<Rightarrow> 'w Registry \<Rightarrow> 'w DynTool \<Rightarrow> Caveats \<Rightarrow> string \<Rightarrow> EnforcementFloor \<Rightarrow>
   'w Registry \<times> ToolContext ToolResult" where
  "authorize_grant h ser meet reg tool granted name floor =
     (let gate = with_enforcement_floor floor (with_budget (reg_generation reg) Unlimited)
      in case reg_step_up reg of
           Some su \<Rightarrow>
             (let gate = with_session (su_session su) gate;
                  request = unspecified name;
                  n = reg_step_up_nonce reg;
                  reg' = reg\<lparr>reg_step_up_nonce := n + 1\<rparr>
              in case authorize_step_up h ser meet gate tool granted request (su_policy su)
                     (su_provider su) (su_verifier su) (ceremony_nonce n) of
                   (_, Inl e) \<Rightarrow> (reg', Inl e)
                 | (_, Inr (cx, _)) \<Rightarrow> (reg', Inr cx))
         | None \<Rightarrow> (case authorize meet gate tool granted of
                 (_, Inl e) \<Rightarrow> (reg, Inl e)
               | (_, Inr cx) \<Rightarrow> (reg, Inr cx)))"

subsection \<open>Dispatch\<close>

definition refunds :: "Invocation ToolResult \<Rightarrow> bool" where
  "refunds r = (case r of Inr outcome \<Rightarrow> is_denied outcome | Inl e \<Rightarrow> is_denied_error e)"

definition dispatch_axis ::
  "hash \<Rightarrow> serializer \<Rightarrow> meet_op \<Rightarrow> 'w Registry \<Rightarrow> budget_cell list \<Rightarrow> 'w \<Rightarrow>
   string \<Rightarrow> json \<Rightarrow> Grant \<Rightarrow> EnforcementFloor \<Rightarrow>
   'w Registry \<times> budget_cell list \<times> 'w \<times> json ToolResult" where
  "dispatch_axis h ser meet reg cells w name args grant floor =
     (let a = grant_budget grant in
      case map_of (reg_tools reg) name of
        None \<Rightarrow> (reg, cells, w, Inl (not_found name))
      | Some tool \<Rightarrow>
          (case grant_charge (cells ! a) of
             (_, Inl e) \<Rightarrow> (reg, cells, w, Inl e)
           | (cell, Inr _) \<Rightarrow>
               (let cells1 = cells[a := cell] in
                case authorize_grant h ser meet reg tool (grant_caveats grant) name floor of
                  (reg', Inl e) \<Rightarrow> (reg', cells1[a := grant_refund (cells1 ! a)], w, Inl e)
                | (reg', Inr cx) \<Rightarrow>
                    (case tool_invoke_accounted tool args cx w of
                       (w', r) \<Rightarrow>
                         (reg', (if refunds r then cells1[a := grant_refund (cells1 ! a)] else cells1), w',
                          map_sum id into_value r)))))"

definition dispatch ::
  "hash \<Rightarrow> serializer \<Rightarrow> meet_op \<Rightarrow> 'w Registry \<Rightarrow> budget_cell list \<Rightarrow> 'w \<Rightarrow>
   string \<Rightarrow> json \<Rightarrow> Grant \<Rightarrow> 'w Registry \<times> budget_cell list \<times> 'w \<times> json ToolResult" where
  "dispatch h ser meet reg cells w name args grant =
     dispatch_axis h ser meet reg cells w name args grant FLOOR_DEFAULT"

definition dispatch_with_strength_floor ::
  "hash \<Rightarrow> serializer \<Rightarrow> meet_op \<Rightarrow> 'w Registry \<Rightarrow> budget_cell list \<Rightarrow> 'w \<Rightarrow>
   string \<Rightarrow> json \<Rightarrow> Grant \<Rightarrow> AxisEnforcement \<Rightarrow> 'w Registry \<times> budget_cell list \<times> 'w \<times> json ToolResult" where
  "dispatch_with_strength_floor h ser meet reg cells w name args grant strength =
     dispatch_axis h ser meet reg cells w name args grant (from_scalar strength)"

definition dispatch_with_enforcement_floor ::
  "hash \<Rightarrow> serializer \<Rightarrow> meet_op \<Rightarrow> 'w Registry \<Rightarrow> budget_cell list \<Rightarrow> 'w \<Rightarrow>
   string \<Rightarrow> json \<Rightarrow> Grant \<Rightarrow> EnforcementFloor \<Rightarrow> 'w Registry \<times> budget_cell list \<times> 'w \<times> json ToolResult" where
  "dispatch_with_enforcement_floor h ser meet reg cells w name args grant floor =
     dispatch_axis h ser meet reg cells w name args grant floor"

definition dispatch_oneshot_with_enforcement_floor ::
  "hash \<Rightarrow> serializer \<Rightarrow> meet_op \<Rightarrow> 'w Registry \<Rightarrow> 'w \<Rightarrow> string \<Rightarrow> json \<Rightarrow> Caveats \<Rightarrow> EnforcementFloor \<Rightarrow>
   'w Registry \<times> 'w \<times> json ToolResult" where
  "dispatch_oneshot_with_enforcement_floor h ser meet reg w name args caveats floor =
     (case map_of (reg_tools reg) name of
        None \<Rightarrow> (reg, w, Inl (not_found name))
      | Some tool \<Rightarrow>
          if cav_max_calls caveats = AtMost 0 then (reg, w, Inl Budget)
          else (case authorize_grant h ser meet reg tool caveats name floor of
              (reg', Inl e) \<Rightarrow> (reg', w, Inl e)
            | (reg', Inr cx) \<Rightarrow>
                (case tool_invoke_accounted tool args cx w of
                   (w', r) \<Rightarrow> (reg', w', map_sum id into_value r))))"

definition dispatch_oneshot ::
  "hash \<Rightarrow> serializer \<Rightarrow> meet_op \<Rightarrow> 'w Registry \<Rightarrow> 'w \<Rightarrow> string \<Rightarrow> json \<Rightarrow> Caveats \<Rightarrow>
   'w Registry \<times> 'w \<times> json ToolResult" where
  "dispatch_oneshot h ser meet reg w name args caveats =
     dispatch_oneshot_with_enforcement_floor h ser meet reg w name args caveats FLOOR_DEFAULT"

definition dispatch_oneshot_with_strength_floor ::
  "hash \<Rightarrow> serializer \<Rightarrow> meet_op \<Rightarrow> 'w Registry \<Rightarrow> 'w \<Rightarrow> string \<Rightarrow> json \<Rightarrow> Caveats \<Rightarrow> AxisEnforcement \<Rightarrow>
   'w Registry \<times> 'w \<times> json ToolResult" where
  "dispatch_oneshot_with_strength_floor h ser meet reg w name args caveats strength =
     dispatch_oneshot_with_enforcement_floor h ser meet reg w name args caveats (from_scalar strength)"

subsection \<open>Interleaved dispatches\<close>

text \<open>
  Many dispatches, of any registries, on shared budget cells. A dispatch looks its tool up and
  charges, authorizes, runs the tool, and then settles the charge; other dispatches may take
  steps between any two of these. A dispatch that is dropped while it is suspended simply takes no
  further step.
\<close>

record job =
  job_registry :: nat
  job_name :: string
  job_args :: json
  job_grant :: Grant
  job_floor :: EnforcementFloor

datatype fate = Unfunded ToolError | Refunded "json ToolResult" | Spent "json ToolResult"

datatype 'w dispatch_pc =
    Start
  | Holding "'w DynTool"
  | Running "'w DynTool" ToolContext
  | Returned "Invocation ToolResult"
  | Finished fate

text \<open>The shared state: the registries, the budget cells, the world, and where each dispatch is.\<close>

type_synonym 'w world_state =
  "(nat \<Rightarrow> 'w Registry) \<times> budget_cell list \<times> 'w \<times> (nat \<Rightarrow> 'w dispatch_pc)"

abbreviation refund_cell :: "nat \<Rightarrow> budget_cell list \<Rightarrow> budget_cell list" where
  "refund_cell a cells \<equiv> cells[a := grant_refund (cells ! a)]"

abbreviation job_cell :: "job \<Rightarrow> nat" where
  "job_cell j \<equiv> grant_budget (job_grant j)"

inductive dispatch_step ::
  "hash \<Rightarrow> serializer \<Rightarrow> meet_op \<Rightarrow> (nat \<Rightarrow> job) \<Rightarrow> 'w world_state \<Rightarrow> 'w world_state \<Rightarrow> bool"
  for h ser meet jobs where
  missing: "pcs i = Start \<Longrightarrow>
    map_of (reg_tools (regs (job_registry (jobs i)))) (job_name (jobs i)) = None \<Longrightarrow>
    dispatch_step h ser meet jobs (regs, cells, w, pcs)
      (regs, cells, w, pcs(i := Finished (Unfunded (not_found (job_name (jobs i))))))"
| exhausted: "pcs i = Start \<Longrightarrow>
    map_of (reg_tools (regs (job_registry (jobs i)))) (job_name (jobs i)) = Some tool \<Longrightarrow>
    grant_charge (cells ! job_cell (jobs i)) = (cell, Inl e) \<Longrightarrow>
    dispatch_step h ser meet jobs (regs, cells, w, pcs) (regs, cells, w, pcs(i := Finished (Unfunded e)))"
| charge: "pcs i = Start \<Longrightarrow>
    map_of (reg_tools (regs (job_registry (jobs i)))) (job_name (jobs i)) = Some tool \<Longrightarrow>
    grant_charge (cells ! job_cell (jobs i)) = (cell, Inr ()) \<Longrightarrow>
    dispatch_step h ser meet jobs (regs, cells, w, pcs)
      (regs, cells[job_cell (jobs i) := cell], w, pcs(i := Holding tool))"
| refuse: "pcs i = Holding tool \<Longrightarrow> k = job_registry (jobs i) \<Longrightarrow>
    authorize_grant h ser meet (regs k) tool (grant_caveats (job_grant (jobs i)))
      (job_name (jobs i)) (job_floor (jobs i)) = (reg', Inl e) \<Longrightarrow>
    dispatch_step h ser meet jobs (regs, cells, w, pcs)
      (regs(k := reg'), refund_cell (job_cell (jobs i)) cells, w, pcs(i := Finished (Refunded (Inl e))))"
| admit: "pcs i = Holding tool \<Longrightarrow> k = job_registry (jobs i) \<Longrightarrow>
    authorize_grant h ser meet (regs k) tool (grant_caveats (job_grant (jobs i)))
      (job_name (jobs i)) (job_floor (jobs i)) = (reg', Inr cx) \<Longrightarrow>
    dispatch_step h ser meet jobs (regs, cells, w, pcs)
      (regs(k := reg'), cells, w, pcs(i := Running tool cx))"
| invoke: "pcs i = Running tool cx \<Longrightarrow>
    tool_invoke_accounted tool (job_args (jobs i)) cx w = (w', r) \<Longrightarrow>
    dispatch_step h ser meet jobs (regs, cells, w, pcs) (regs, cells, w', pcs(i := Returned r))"
| settle_refund: "pcs i = Returned r \<Longrightarrow> refunds r \<Longrightarrow>
    dispatch_step h ser meet jobs (regs, cells, w, pcs)
      (regs, refund_cell (job_cell (jobs i)) cells, w,
       pcs(i := Finished (Refunded (map_sum id into_value r))))"
| settle_spent: "pcs i = Returned r \<Longrightarrow> \<not> refunds r \<Longrightarrow>
    dispatch_step h ser meet jobs (regs, cells, w, pcs)
      (regs, cells, w, pcs(i := Finished (Spent (map_sum id into_value r))))"

subsection \<open>The budget of a grant\<close>

definition charge_ok :: "budget_cell \<Rightarrow> budget_cell \<times> bool" where
  "charge_ok c = (case grant_charge c of (c', r) \<Rightarrow> (c', is_ok r))"

interpretation grant_cell: call_budget charge_ok "map_option unat"
proof
  fix s :: budget_cell and n
  show "map_option unat s = None \<Longrightarrow> \<exists>s'. charge_ok s = (s', True) \<and> map_option unat s' = None"
    by (simp add: charge_ok_def grant_charge_def)
  show "map_option unat s = Some 0 \<Longrightarrow> charge_ok s = (s, False)"
    by (auto simp: charge_ok_def grant_charge_def unat_eq_zero)
  assume "map_option unat s = Some (Suc n)"
  then obtain c where c: "s = Some c" "unat c = Suc n" by blast
  then have "c \<noteq> 0" by auto
  with c show "\<exists>s'. charge_ok s = (s', True) \<and> map_option unat s' = Some n"
    by (simp add: charge_ok_def grant_charge_def unat_pred)
qed

lemma grant_charge_Inr:
  "grant_charge c = (c', Inr ()) \<longleftrightarrow>
     c = None \<and> c' = None \<or> (\<exists>n. c = Some n \<and> n \<noteq> 0 \<and> c' = Some (n - 1))"
  by (auto simp: grant_charge_def split: option.splits if_splits)

lemma grant_charge_Inl: "grant_charge c = (c', Inl e) \<longleftrightarrow> c' = c \<and> c = Some 0 \<and> e = Budget"
  by (auto simp: grant_charge_def split: option.splits if_splits)

lemma refund_charge: "grant_charge c = (c', Inr ()) \<Longrightarrow> grant_refund c' = c"
  by (auto simp: grant_charge_Inr grant_refund_def)

subsection \<open>Conservation of a budget cell under interleaving\<close>

fun holds :: "'w dispatch_pc \<Rightarrow> bool" where
  "holds Start = False"
| "holds (Holding _) = True"
| "holds (Running _ _) = True"
| "holds (Returned _) = True"
| "holds (Finished (Unfunded _)) = False"
| "holds (Finished (Refunded _)) = False"
| "holds (Finished (Spent _)) = True"

definition holders :: "(nat \<Rightarrow> job) \<Rightarrow> nat \<Rightarrow> (nat \<Rightarrow> 'w dispatch_pc) \<Rightarrow> nat set" where
  "holders jobs a pcs = {i. grant_budget (job_grant (jobs i)) = a \<and> holds (pcs i)}"

definition cell_inv ::
  "(nat \<Rightarrow> job) \<Rightarrow> nat \<Rightarrow> u64 \<Rightarrow> budget_cell list \<Rightarrow> (nat \<Rightarrow> 'w dispatch_pc) \<Rightarrow> bool" where
  "cell_inv jobs a n cells pcs \<longleftrightarrow> a < length cells \<and> finite (holders jobs a pcs) \<and>
     (\<exists>m. cells ! a = Some m \<and> unat m + card (holders jobs a pcs) = unat n)"

lemma holders_mem: "i \<in> holders jobs a pcs \<longleftrightarrow> job_cell (jobs i) = a \<and> holds (pcs i)"
  by (simp add: holders_def)

lemma holders_update:
  "holders jobs a (pcs(i := q)) =
     (if job_cell (jobs i) = a \<and> holds q then insert i (holders jobs a pcs)
      else holders jobs a pcs - {i})"
  by (auto simp: holders_def)

lemma cell_inv_same:
  assumes "cell_inv jobs a n cells pcs" and "holds q = holds (pcs i)"
  shows "cell_inv jobs a n cells (pcs(i := q))"
proof -
  have "holders jobs a (pcs(i := q)) = holders jobs a pcs"
    using assms(2) by (auto simp: holders_def)
  with assms show ?thesis by (simp add: cell_inv_def)
qed

lemma cell_inv_other:
  assumes "cell_inv jobs a n cells pcs" and "job_cell (jobs i) \<noteq> a"
  shows "cell_inv jobs a n (cells[job_cell (jobs i) := c]) (pcs(i := q))"
proof -
  have "holders jobs a (pcs(i := q)) = holders jobs a pcs"
    using assms(2) by (auto simp: holders_def)
  with assms show ?thesis by (simp add: cell_inv_def)
qed

lemma cell_inv_charge:
  assumes "cell_inv jobs a n cells pcs" and "\<not> holds (pcs i)" and "holds q"
    and "grant_charge (cells ! job_cell (jobs i)) = (cell, Inr ())"
  shows "cell_inv jobs a n (cells[job_cell (jobs i) := cell]) (pcs(i := q))"
proof (cases "job_cell (jobs i) = a")
  case True
  from assms(1) obtain m where m: "cells ! a = Some m"
    "unat m + card (holders jobs a pcs) = unat n" by (auto simp: cell_inv_def)
  with True assms(4) have cell: "m \<noteq> 0" "cell = Some (m - 1)" by (auto simp: grant_charge_Inr)
  have "holders jobs a (pcs(i := q)) = insert i (holders jobs a pcs)" and "i \<notin> holders jobs a pcs"
    using True assms(2,3) by (auto simp: holders_update holders_mem)
  moreover from cell have "0 < unat m" by (simp add: unat_gt_0)
  ultimately show ?thesis
    using True m cell assms(1) by (auto simp: cell_inv_def unat_pred)
qed (rule cell_inv_other [OF assms(1)])

lemma cell_inv_refund:
  assumes "cell_inv jobs a n cells pcs" and "holds (pcs i)" and "\<not> holds q"
  shows "cell_inv jobs a n (refund_cell (job_cell (jobs i)) cells) (pcs(i := q))"
proof (cases "job_cell (jobs i) = a")
  case True
  from assms(1) obtain m where m: "cells ! a = Some m"
    "unat m + card (holders jobs a pcs) = unat n" "finite (holders jobs a pcs)"
    by (auto simp: cell_inv_def)
  have i: "i \<in> holders jobs a pcs" using True assms(2) by (simp add: holders_mem)
  then have pos: "0 < card (holders jobs a pcs)" using m(3) by (auto simp: card_gt_0_iff)
  with m have "unat (m + 1) = unat m + 1" by (intro unat_succ [of m n]) simp
  moreover have "holders jobs a (pcs(i := q)) = holders jobs a pcs - {i}"
    using True assms(3) by (simp add: holders_update)
  ultimately show ?thesis
    using True m i pos assms(1) by (auto simp: cell_inv_def grant_refund_def card_Diff_singleton)
qed (rule cell_inv_other [OF assms(1)])

lemma cell_inv_step:
  assumes "dispatch_step h ser meet jobs (regs, cells, w, pcs) (regs', cells', w', pcs')"
    and "cell_inv jobs a n cells pcs"
  shows "cell_inv jobs a n cells' pcs'"
  using assms
  by (cases rule: dispatch_step.cases) (auto intro: cell_inv_same cell_inv_charge cell_inv_refund)

lemma cell_inv_reachable:
  assumes "(dispatch_step h ser meet jobs)\<^sup>*\<^sup>* (regs0, cells0, w0, \<lambda>_. Start) (regs, cells, w, pcs)"
    and "a < length cells0" and "cells0 ! a = Some n"
  shows "cell_inv jobs a n cells pcs"
proof -
  from assms(1) have "case (regs, cells, w, pcs) of (_, c, _, p) \<Rightarrow> cell_inv jobs a n c p"
  proof (induction rule: rtranclp_induct)
    case base
    with assms(2,3) show ?case by (simp add: cell_inv_def holders_def)
  next
    case (step s s')
    then show ?case by (cases s; cases s') (auto intro: cell_inv_step)
  qed
  then show ?thesis by simp
qed

subsection \<open>One dispatch as a run of steps\<close>

fun fate_result :: "fate \<Rightarrow> json ToolResult" where
  "fate_result (Unfunded e) = Inl e"
| "fate_result (Refunded r) = r"
| "fate_result (Spent r) = r"

lemmas step_then = converse_rtranclp_into_rtranclp [of "dispatch_step h ser meet jobs" for h ser meet jobs]

lemma settle_run:
  assumes "pcs i = Returned r"
  shows "\<exists>f. dispatch_step h ser meet jobs (regs, cells, w, pcs)
      (regs, (if refunds r then refund_cell (job_cell (jobs i)) cells else cells), w, pcs(i := Finished f)) \<and>
    fate_result f = map_sum id into_value r"
proof (cases "refunds r")
  case True
  with assms have "dispatch_step h ser meet jobs (regs, cells, w, pcs)
      (regs, refund_cell (job_cell (jobs i)) cells, w,
       pcs(i := Finished (Refunded (map_sum id into_value r))))"
    by (rule dispatch_step.settle_refund)
  with True show ?thesis
    by (intro exI [of _ "Refunded (map_sum id into_value r)"]) simp
next
  case False
  with assms have "dispatch_step h ser meet jobs (regs, cells, w, pcs)
      (regs, cells, w, pcs(i := Finished (Spent (map_sum id into_value r))))"
    by (rule dispatch_step.settle_spent)
  with False show ?thesis
    by (intro exI [of _ "Spent (map_sum id into_value r)"]) simp
qed

lemma holding_run:
  assumes pc: "pcs i = Holding tool" and k: "k = job_registry (jobs i)"
    and auth: "authorize_grant h ser meet (regs k) tool (grant_caveats (job_grant (jobs i)))
      (job_name (jobs i)) (job_floor (jobs i)) = (reg', Inr cx)"
    and run: "tool_invoke_accounted tool (job_args (jobs i)) cx w = (w', r)"
  shows "\<exists>f. (dispatch_step h ser meet jobs)\<^sup>*\<^sup>* (regs, cells, w, pcs)
      (regs(k := reg'), (if refunds r then refund_cell (job_cell (jobs i)) cells else cells), w',
       pcs(i := Finished f)) \<and> fate_result f = map_sum id into_value r"
proof -
  have 1: "dispatch_step h ser meet jobs (regs, cells, w, pcs)
      (regs(k := reg'), cells, w, pcs(i := Running tool cx))"
    using pc k auth by (rule dispatch_step.admit)
  have 2: "dispatch_step h ser meet jobs (regs(k := reg'), cells, w, pcs(i := Running tool cx))
      (regs(k := reg'), cells, w', (pcs(i := Running tool cx))(i := Returned r))"
    using run by (intro dispatch_step.invoke) simp_all
  obtain f where 3: "dispatch_step h ser meet jobs (regs(k := reg'), cells, w', pcs(i := Returned r))
      (regs(k := reg'), (if refunds r then refund_cell (job_cell (jobs i)) cells else cells), w',
       (pcs(i := Returned r))(i := Finished f))"
    and f: "fate_result f = map_sum id into_value r"
    using settle_run [of "pcs(i := Returned r)" i r h ser meet jobs "regs(k := reg')" cells w'] by auto
  from 1 2 3 show ?thesis
    by (intro exI [of _ f] conjI f) (simp add: step_then)
qed

lemma dispatch_run:
  assumes pc: "pcs i = Start" and k: "k = job_registry (jobs i)"
    and d: "dispatch_axis h ser meet (regs k) cells w (job_name (jobs i)) (job_args (jobs i))
      (job_grant (jobs i)) (job_floor (jobs i)) = (reg', cells', w', r)"
  shows "\<exists>f. (dispatch_step h ser meet jobs)\<^sup>*\<^sup>* (regs, cells, w, pcs)
      (regs(k := reg'), cells', w', pcs(i := Finished f)) \<and> fate_result f = r"
proof (cases "map_of (reg_tools (regs k)) (job_name (jobs i))")
  case None
  with d have "reg' = regs k" "cells' = cells" "w' = w" "r = Inl (not_found (job_name (jobs i)))"
    by (simp_all add: dispatch_axis_def)
  with dispatch_step.missing [of pcs i regs jobs h ser meet cells w] pc None k show ?thesis
    by (intro exI [of _ "Unfunded (not_found (job_name (jobs i)))"]) auto
next
  case (Some tool)
  obtain cell c where gc: "grant_charge (cells ! job_cell (jobs i)) = (cell, c)" by fastforce
  show ?thesis
  proof (cases c)
    case (Inl e)
    with d Some gc have "reg' = regs k" "cells' = cells" "w' = w" "r = Inl e"
      by (simp_all add: dispatch_axis_def Let_def)
    with dispatch_step.exhausted [of pcs i regs jobs tool cells cell e h ser meet w] pc Some gc Inl k
    show ?thesis by (intro exI [of _ "Unfunded e"]) auto
  next
    case (Inr u)
    let ?cells1 = "cells[job_cell (jobs i) := cell]" and ?pcs1 = "pcs(i := Holding tool)"
    have step: "dispatch_step h ser meet jobs (regs, cells, w, pcs) (regs, ?cells1, w, ?pcs1)"
      using pc Some gc Inr k by (intro dispatch_step.charge) auto
    obtain reg1 a where au: "authorize_grant h ser meet (regs k) tool (grant_caveats (job_grant (jobs i)))
        (job_name (jobs i)) (job_floor (jobs i)) = (reg1, a)" by fastforce
    show ?thesis
    proof (cases a)
      case (Inl e)
      have "dispatch_step h ser meet jobs (regs, ?cells1, w, ?pcs1)
          (regs(k := reg1), refund_cell (job_cell (jobs i)) ?cells1, w,
           ?pcs1(i := Finished (Refunded (Inl e))))"
        using au Inl k by (intro dispatch_step.refuse) simp_all
      moreover from d Some gc \<open>c = Inr u\<close> au Inl have "reg' = reg1" "w' = w" "r = Inl e"
        "cells' = refund_cell (job_cell (jobs i)) ?cells1" by (auto simp: dispatch_axis_def Let_def)
      ultimately show ?thesis using step by (intro exI [of _ "Refunded (Inl e)"]) (simp add: step_then)
    next
      case (Inr cx)
      obtain w1 o1 where run: "tool_invoke_accounted tool (job_args (jobs i)) cx w = (w1, o1)" by fastforce
      from d Some gc \<open>c = Inr u\<close> au Inr run have "reg' = reg1" "w' = w1" "r = map_sum id into_value o1"
        "cells' = (if refunds o1 then refund_cell (job_cell (jobs i)) ?cells1 else ?cells1)"
        by (auto simp: dispatch_axis_def Let_def)
      moreover obtain f where "(dispatch_step h ser meet jobs)\<^sup>*\<^sup>* (regs, ?cells1, w, ?pcs1)
          (regs(k := reg1), (if refunds o1 then refund_cell (job_cell (jobs i)) ?cells1 else ?cells1), w1,
           ?pcs1(i := Finished f))" and "fate_result f = map_sum id into_value o1"
        using holding_run [of ?pcs1 i tool k jobs h ser meet regs reg1 cx w w1 o1 ?cells1] au Inr run k
        by auto
      ultimately show ?thesis using step_then [OF step] by (intro exI [of _ f]) simp
    qed
  qed
qed

subsection \<open>Properties\<close>

text \<open>C14. The budget of a grant is conserved under any interleaving of any dispatches, by any
  registries, on clones of the grant: what is left in the cell plus the dispatches that hold a
  charge (suspended, or finished having run) is always the minted budget. So at most \<open>n\<close> calls of a
  grant of \<open>n\<close> ever run, a refund never overflows, and no registry regenerates a budget.\<close>
theorem grant_budget_conserved:
  assumes "(dispatch_step h ser meet jobs)\<^sup>*\<^sup>* (regs0, cells0, w0, \<lambda>_. Start) (regs, cells, w, pcs)"
    and "a < length cells0" and "cells0 ! a = Some n"
  shows "\<exists>m. cells ! a = Some m \<and> unat m + card {i. job_cell (jobs i) = a \<and> holds (pcs i)} = unat n \<and>
    card {i. job_cell (jobs i) = a \<and> (\<exists>r. pcs i = Finished (Spent r))} \<le> unat n"
proof -
  from cell_inv_reachable [OF assms] obtain m where m: "cells ! a = Some m"
    "unat m + card (holders jobs a pcs) = unat n" "finite (holders jobs a pcs)"
    by (auto simp: cell_inv_def)
  have "{i. job_cell (jobs i) = a \<and> (\<exists>r. pcs i = Finished (Spent r))} \<subseteq> holders jobs a pcs"
    by (auto simp: holders_def)
  with m(3) have "card {i. job_cell (jobs i) = a \<and> (\<exists>r. pcs i = Finished (Spent r))} \<le> card (holders jobs a pcs)"
    by (rule card_mono)
  with m show ?thesis by (auto simp: holders_def)
qed

text \<open>C16. What a dispatch does, on every branch, and what it costs. An unknown name is not found and an exhausted grant
  is refused, with nothing changed; a refused authorization leaves the world and every budget cell as they were;
  and otherwise the tool runs once, in the context minted for this grant, its value or error is the answer, and one
  call is taken from the grant's cell, if it is bounded, unless the tool reports that it refused before running,
  as an envelope or as an authority denial. No other cell changes.\<close>
theorem dispatch_accounting:
  assumes "a = grant_budget grant" and "a < length cells"
  shows "dispatch_axis h ser meet reg cells w name args grant floor =
    (case map_of (reg_tools reg) name of
       None \<Rightarrow> (reg, cells, w, Inl (NotFound name))
     | Some tool \<Rightarrow>
         if cells ! a = Some 0 then (reg, cells, w, Inl Budget)
         else (case authorize_grant h ser meet reg tool (grant_caveats grant) name floor of
             (reg', Inl e) \<Rightarrow> (reg', cells, w, Inl e)
           | (reg', Inr cx) \<Rightarrow>
               let (w', out) = tool_invoke_accounted tool args cx w;
                   spent = (case cells ! a of None \<Rightarrow> cells | Some n \<Rightarrow> cells[a := Some (n - 1)])
               in (case out of
                     Inr (PreRunDenied v) \<Rightarrow> (reg', cells, w', Inr v)
                   | Inr (Ran v) \<Rightarrow> (reg', spent, w', Inr v)
                   | Inl (Denied reason) \<Rightarrow> (reg', cells, w', Inl (Denied reason))
                   | Inl e \<Rightarrow> (reg', spent, w', Inl e))))"
proof (cases "map_of (reg_tools reg) name")
  case (Some tool)
  note unfold = dispatch_axis_def Let_def grant_charge_def grant_refund_def refunds_def is_denied_def
    into_value_def is_denied_error_def
  show ?thesis
  proof (cases "cells ! a")
    case None
    then have "cells[a := None] = cells" using list_update_id [of cells a] by simp
    then show ?thesis using Some None assms
      by (auto simp: unfold split: prod.splits sum.splits Invocation.splits ToolError.splits)
  next
    case Some': (Some n)
    then have "cells[a := Some n] = cells" using list_update_id [of cells a] by simp
    then show ?thesis using Some Some' assms
      by (auto simp: unfold split: prod.splits sum.splits Invocation.splits ToolError.splits)
  qed
qed (use assms(1) in \<open>simp add: dispatch_axis_def not_found_def\<close>)

definition echo_tool :: "nat DynTool" where
  "echo_tool = \<lparr>tool_name = ''echo'', tool_required = caveats_top, tool_schema = JNull,
     tool_invoke_accounted = (\<lambda>args cx w. (w + 1, if args = JNull then Inr (PreRunDenied JNull) else Inr (Ran args)))\<rparr>"

definition echo_registry :: "nat Registry" where
  "echo_registry = builder_build (builder_tool echo_tool registry_builder)"

definition echo_grant :: Grant where
  "echo_grant = \<lparr>grant_caveats = caveats_top\<lparr>cav_max_calls := AtMost 1\<rparr>, grant_budget = 0\<rparr>"

definition echo_job :: job where
  "echo_job = \<lparr>job_registry = 0, job_name = ''echo'', job_args = JBool True, job_grant = echo_grant,
     job_floor = FLOOR_DEFAULT\<rparr>"

lemma echo_dispatch:
  "dispatch_axis toy_hash toy_ser inter_meet echo_registry [Some 1] 0 ''echo'' (JBool True) echo_grant
     FLOOR_DEFAULT = (echo_registry, [Some 0], 1, Inr (JBool True))"
  by (simp add: dispatch_axis_def echo_registry_def echo_tool_def echo_grant_def builder_build_def
      builder_tool_def registry_builder_def grant_charge_def authorize_grant_def authorize_def
      with_enforcement_floor_def with_budget_def caveats_top_def charge_one_def charge_counter_def
      refunds_def is_denied_def into_value_def Let_def)

lemma echo_run:
  "\<exists>f. (dispatch_step toy_hash toy_ser inter_meet (\<lambda>_. echo_job))\<^sup>*\<^sup>*
     (\<lambda>_. echo_registry, [Some 1], 0, \<lambda>_. Start) (\<lambda>_. echo_registry, [Some 0], 1, (\<lambda>_. Start)(0 := Finished f))"
  using dispatch_run [of "\<lambda>_. Start" 0 0 "\<lambda>_. echo_job" toy_hash toy_ser inter_meet "\<lambda>_. echo_registry"
      "[Some 1]" 0 echo_registry "[Some 0]" 1 "Inr (JBool True)"] echo_dispatch
  by (auto simp: echo_job_def fun_upd_def)

theorem grant_budget_conserved_witness:
  "\<exists>f. card {i :: nat. job_cell echo_job = 0 \<and> holds (((\<lambda>_. Start :: nat dispatch_pc)(0 := Finished f)) i)} = 1"
proof -
  obtain f where "(dispatch_step toy_hash toy_ser inter_meet (\<lambda>_. echo_job))\<^sup>*\<^sup>*
     (\<lambda>_. echo_registry, [Some 1], 0, \<lambda>_. Start) (\<lambda>_. echo_registry, [Some 0], 1, (\<lambda>_. Start)(0 := Finished f))"
    using echo_run by blast
  from grant_budget_conserved [OF this, of 0 1] show ?thesis
    by (intro exI [of _ f]) (simp del: fun_upd_apply)
qed

theorem dispatch_accounting_witness:
  "dispatch_axis toy_hash toy_ser inter_meet echo_registry [Some 1] 0 ''echo'' JNull echo_grant FLOOR_DEFAULT =
     (echo_registry, [Some 1], 1, Inr JNull) \<and>
   dispatch_axis toy_hash toy_ser inter_meet echo_registry [Some 1] 0 ''echo'' (JBool True) echo_grant FLOOR_DEFAULT =
     (echo_registry, [Some 0], 1, Inr (JBool True))"
proof -
  have "0 = grant_budget echo_grant" "0 < length [Some (1 :: u64)]" by (simp_all add: echo_grant_def)
  from dispatch_accounting [OF this, of toy_hash toy_ser inter_meet echo_registry 0 "''echo''" _ FLOOR_DEFAULT] show ?thesis
    by (simp add: echo_registry_def echo_tool_def echo_grant_def builder_build_def
      builder_tool_def registry_builder_def authorize_grant_def authorize_def
      with_enforcement_floor_def with_budget_def caveats_top_def charge_one_def charge_counter_def Let_def)
qed

subsection \<open>Step-up through the registry\<close>

lemma ceremony_nonce_inj: "ceremony_nonce m = ceremony_nonce n \<longleftrightarrow> m = n"
  by (simp add: ceremony_nonce_def)

lemma authorize_grant_step_up:
  assumes "authorize_grant h ser meet reg tool granted name floor = (reg', Inr cx)"
    and "reg_step_up reg = Some su" and "su_verifier su = shipped_verifier cr s"
    and "demands_gesture (required_for (su_policy su) (unspecified name))"
  shows "\<exists>d gen. su_provider su (su_session su) (unspecified name)
      (required_for (su_policy su) (unspecified name)) (reg_generation reg)
      (ceremony_nonce (reg_step_up_nonce reg)) = Inr d \<and>
    dis_challenge d = challenge_bind h (su_session su) (content_id h ser (unspecified name)) gen
      (ceremony_nonce (reg_step_up_nonce reg)) \<and>
    att_presence (required_for (su_policy su) (unspecified name)) \<le> dis_presence d"
proof -
  let ?g = "with_session (su_session su) (with_enforcement_floor floor (with_budget (reg_generation reg) Unlimited))"
  from assms obtain g' att where acc: "authorize_step_up h ser meet ?g tool granted (unspecified name) (su_policy su)
      (su_provider su) (shipped_verifier cr s) (ceremony_nonce (reg_step_up_nonce reg)) = (g', Inr (cx, att))"
    by (auto simp: authorize_grant_def Let_def split: prod.splits sum.splits)
  have "gate_session ?g = Some (su_session su)" "gate_generation ?g = reg_generation reg"
    by (simp_all add: with_session_def with_enforcement_floor_def with_budget_def)
  with step_up_accepted [OF acc assms(4)] show ?thesis by auto
qed

text \<open>The registry mints a fresh gate (with an empty ledger) for every dispatch, and still no
  gesture serves two dispatches: each ceremony takes the next nonce, and when two dispatches with
  different nonces, sessions or tools are both admitted, the challenges their providers answered
  are digests of two different preimages, so one discharge for both is a collision.\<close>
theorem registry_replay_needs_collision:
  assumes "authorize_grant h ser meet reg tool granted name floor = (reg1, Inr cx)"
    and "authorize_grant h ser meet' reg' tool' granted' name' floor' = (reg1', Inr cx')"
    and "reg_step_up reg = Some su" and "reg_step_up reg' = Some su'"
    and "su_verifier su = shipped_verifier cr s" and "su_verifier su' = shipped_verifier cr' s'"
    and "demands_gesture (required_for (su_policy su) (unspecified name))"
    and "demands_gesture (required_for (su_policy su') (unspecified name'))"
    and "length (su_session su) = 32" and "length (su_session su') = 32" and "\<forall>b. length (h b) = 32"
    and "reg_step_up_nonce reg \<noteq> reg_step_up_nonce reg' \<or> su_session su \<noteq> su_session su' \<or>
      content_id h ser (unspecified name) \<noteq> content_id h ser (unspecified name')"
  shows "reg_step_up_nonce reg1 = reg_step_up_nonce reg + 1 \<and>
    (\<exists>d d' gen gen'.
      su_provider su (su_session su) (unspecified name) (required_for (su_policy su) (unspecified name))
        (reg_generation reg) (ceremony_nonce (reg_step_up_nonce reg)) = Inr d \<and>
      su_provider su' (su_session su') (unspecified name') (required_for (su_policy su') (unspecified name'))
        (reg_generation reg') (ceremony_nonce (reg_step_up_nonce reg')) = Inr d' \<and>
      (let pre = challenge_preimage (su_session su) (content_id h ser (unspecified name)) gen
             (ceremony_nonce (reg_step_up_nonce reg));
           pre' = challenge_preimage (su_session su') (content_id h ser (unspecified name')) gen'
             (ceremony_nonce (reg_step_up_nonce reg'))
       in pre \<noteq> pre' \<and> h pre = dis_challenge d \<and> h pre' = dis_challenge d'))"
proof -
  obtain d gen where d: "su_provider su (su_session su) (unspecified name)
      (required_for (su_policy su) (unspecified name)) (reg_generation reg)
      (ceremony_nonce (reg_step_up_nonce reg)) = Inr d"
    "dis_challenge d = challenge_bind h (su_session su) (content_id h ser (unspecified name)) gen
      (ceremony_nonce (reg_step_up_nonce reg))"
    using authorize_grant_step_up [OF assms(1,3,5,7)] by blast
  obtain d' gen' where d': "su_provider su' (su_session su') (unspecified name')
      (required_for (su_policy su') (unspecified name')) (reg_generation reg')
      (ceremony_nonce (reg_step_up_nonce reg')) = Inr d'"
    "dis_challenge d' = challenge_bind h (su_session su') (content_id h ser (unspecified name')) gen'
      (ceremony_nonce (reg_step_up_nonce reg'))"
    using authorize_grant_step_up [OF assms(2,4,6,8)] by blast
  have cid: "length (content_id h ser q) = 32" for q using assms(11) by (simp add: content_id_def)
  have ne: "challenge_preimage (su_session su) (content_id h ser (unspecified name)) gen
        (ceremony_nonce (reg_step_up_nonce reg)) \<noteq>
      challenge_preimage (su_session su') (content_id h ser (unspecified name')) gen'
        (ceremony_nonce (reg_step_up_nonce reg'))"
    using assms(9,10,12) cid ceremony_nonce_inj by (metis challenge_preimage_inj)
  have "reg_step_up_nonce reg1 = reg_step_up_nonce reg + 1"
    using assms(1,3) by (auto simp: authorize_grant_def Let_def split: prod.splits sum.splits)
  with d d' ne show ?thesis
    by (intro conjI exI [of _ d] exI [of _ d'] exI [of _ gen] exI [of _ gen'])
      (simp_all add: Let_def challenge_bind_def)
qed

definition toy_signer :: provider where
  "toy_signer session req required gen nonce = Inr \<lparr>dis_presence = Passkey,
     dis_credential_id = replicate 32 0,
     dis_challenge = challenge_bind toy_hash session (content_id toy_hash toy_ser req) gen nonce,
     dis_signature = replicate 64 0, dis_authenticator_data = None, dis_client_data_json = None\<rparr>"

definition gated_registry :: "nat Registry" where
  "gated_registry = builder_build (builder_step_up (replicate 32 9) toy_policy toy_signer
     (shipped_verifier toy_crypto Ed25519) (builder_tool echo_tool registry_builder))"

lemma gated_admits:
  "\<exists>cx. authorize_grant toy_hash toy_ser inter_meet (gated_registry\<lparr>reg_step_up_nonce := n\<rparr>) echo_tool
     caveats_top ''echo'' FLOOR_DEFAULT = (gated_registry\<lparr>reg_step_up_nonce := n + 1\<rparr>, Inr cx)"
proof -
  let ?g = "with_session (replicate 32 9) (with_enforcement_floor FLOOR_DEFAULT (with_budget 0 Unlimited))"
  let ?req = "unspecified ''echo''" and ?r = "required_for toy_policy (unspecified ''echo'')"
  obtain d where d: "toy_signer (replicate 32 9) ?req ?r 0 (ceremony_nonce n) = Inr d"
    "dis_presence d = Passkey" "length (dis_credential_id d) = 32" "length (dis_signature d) = 64"
    "dis_challenge d = challenge_bind toy_hash (replicate 32 9) (content_id toy_hash toy_ser ?req) 0 (ceremony_nonce n)"
    by (simp add: toy_signer_def)
  have g: "gate_session ?g = Some (replicate 32 9)" "gate_generation ?g = 0" "gate_consumed ?g = {}"
    "gate_remaining ?g = None"
    by (simp_all add: with_session_def with_enforcement_floor_def with_budget_def)
  have "0 \<in> set (freshness_window ?g ?r)" by (simp add: set_freshness_window g)
  then have exp: "expected_challenge toy_hash ?g (replicate 32 9) (content_id toy_hash toy_ser ?req) ?r
      \<lparr>try_nonce = ceremony_nonce n, try_discharge = d, try_verifier = shipped_verifier toy_crypto Ed25519\<rparr> =
      dis_challenge d"
    using d(5) by (auto simp: expected_challenge_def find_Some_iff find_None_iff split: option.splits)
  have "\<not> Passkey < att_presence ?r"
    by (simp add: required_for_def toy_policy_def passkey_recorded_def)
  with d exp g have "is_ok (snd (authorize_step_up toy_hash toy_ser inter_meet ?g echo_tool caveats_top ?req toy_policy
      toy_signer (shipped_verifier toy_crypto Ed25519) (ceremony_nonce n)))"
    by (simp add: authorize_step_up_def toy_policy_demands authorize_with_discharge_def Let_def caveats_top_def
        Ed25519Verifier_def ed25519_check_def toy_crypto_def charge_one_def charge_counter_def)
  then show ?thesis
    by (auto simp: authorize_grant_def gated_registry_def builder_build_def builder_step_up_def Let_def
        builder_tool_def registry_builder_def is_ok_iff split: prod.splits)
qed

theorem registry_replay_needs_collision_witness:
  "\<exists>(d :: Discharge) (d' :: Discharge) gen gen'. (let cid = content_id toy_hash toy_ser (unspecified ''echo'');
      pre = challenge_preimage (replicate 32 9) cid gen (ceremony_nonce 0);
      pre' = challenge_preimage (replicate 32 9) cid gen' (ceremony_nonce 1)
    in pre \<noteq> pre' \<and> toy_hash pre = dis_challenge d \<and> toy_hash pre' = dis_challenge d')"
proof -
  let ?r0 = "gated_registry\<lparr>reg_step_up_nonce := 0\<rparr>" and ?r1 = "gated_registry\<lparr>reg_step_up_nonce := 1\<rparr>"
  let ?su = "\<lparr>su_policy = toy_policy, su_provider = toy_signer,
    su_verifier = shipped_verifier toy_crypto Ed25519, su_session = replicate 32 9\<rparr>"
  obtain cx where a0: "authorize_grant toy_hash toy_ser inter_meet ?r0 echo_tool caveats_top ''echo''
      FLOOR_DEFAULT = (gated_registry\<lparr>reg_step_up_nonce := 0 + 1\<rparr>, Inr cx)" using gated_admits by blast
  obtain cx' where a1: "authorize_grant toy_hash toy_ser inter_meet ?r1 echo_tool caveats_top ''echo''
      FLOOR_DEFAULT = (gated_registry\<lparr>reg_step_up_nonce := 1 + 1\<rparr>, Inr cx')" using gated_admits by blast
  have su: "reg_step_up ?r0 = Some ?su" "reg_step_up ?r1 = Some ?su"
    by (simp_all add: gated_registry_def builder_build_def builder_step_up_def)
  have h: "\<forall>b. length (toy_hash b) = 32" by (simp add: toy_hash_def min_def)
  from registry_replay_needs_collision [OF a0 a1 su, of toy_crypto Ed25519 toy_crypto Ed25519]
  show ?thesis using toy_policy_demands h by (simp add: Let_def) blast
qed

text \<open>Dispatch asks the step-up policy about a call with an empty resource, so a rule with a
  resource pattern that demands any text at all never fires there: a policy made only of such
  rules, with no default gesture, gates nothing, and dispatch decides exactly as it would with no
  step-up configured.\<close>
theorem resource_rules_never_fire:
  assumes "\<forall>rule \<in> set (pol_rules (su_policy su)). \<exists>t glob.
      rule_selector rule = t @ '':'' @ glob \<and> CHR '':'' \<notin> set t \<and> glob \<notin> {[], ''*'', ''**''}"
    and "\<not> demands_gesture (pol_default (su_policy su))" and "reg_step_up reg = Some su"
  shows "snd (authorize_grant h ser meet reg tool granted name floor) =
    snd (authorize_grant h ser meet (reg\<lparr>reg_step_up := None\<rparr>) tool granted name floor)"
proof -
  have glob: "\<not> glob_prefix_match glob []" if "glob \<notin> {[], ''*'', ''**''}" for glob
    using that
    by (cases glob rule: rev_cases; auto simp: glob_prefix_match_def strip_suffix_char_def Let_def
        split: option.splits if_splits) (metis append_Nil append_butlast_last_id)
  have "\<not> rule_matches rule (unspecified name)" if "rule \<in> set (pol_rules (su_policy su))" for rule
  proof -
    from assms(1) that obtain t g where tg: "rule_selector rule = t @ '':'' @ g" "CHR '':'' \<notin> set t"
      "g \<notin> {[], ''*'', ''**''}" by blast
    then have "split_once CHR '':'' (rule_selector rule) = Some (t, g)"
      by (simp add: split_once_sep)
    with glob [OF tg(3)] show ?thesis by (simp add: rule_matches_def unspecified_def)
  qed
  then have "best_rule (unspecified name) None (pol_rules (su_policy su)) = None"
    by (simp add: best_rule_None)
  then have "\<not> demands_gesture (required_for (su_policy su) (unspecified name))"
    using assms(2) by (simp add: required_for_def)
  with assms(3) show ?thesis
    by (auto simp: authorize_grant_def Let_def authorize_step_up_def authorize_def mint_for_def
        with_session_def charge_one_def split: prod.splits sum.splits bool.splits)
qed

theorem resource_rules_never_fire_witness:
  "snd (authorize_grant toy_hash toy_ser inter_meet (gated_registry\<lparr>reg_step_up := Some
       \<lparr>su_policy = \<lparr>pol_rules = [\<lparr>rule_selector = ''git.push:github.com/org/*'',
          rule_requirement = passkey_recorded\<rparr>], pol_default = REQUIREMENT_NONE\<rparr>,
        su_provider = toy_signer, su_verifier = shipped_verifier toy_crypto Ed25519,
        su_session = replicate 32 9\<rparr>\<rparr>) echo_tool caveats_top ''git.push'' FLOOR_DEFAULT) =
   snd (authorize_grant toy_hash toy_ser inter_meet (gated_registry\<lparr>reg_step_up := None\<rparr>) echo_tool
     caveats_top ''git.push'' FLOOR_DEFAULT)"
proof -
  let ?su = "\<lparr>su_policy = \<lparr>pol_rules = [\<lparr>rule_selector = ''git.push:github.com/org/*'',
      rule_requirement = passkey_recorded\<rparr>], pol_default = REQUIREMENT_NONE\<rparr>,
    su_provider = toy_signer, su_verifier = shipped_verifier toy_crypto Ed25519,
    su_session = replicate 32 9\<rparr>"
  have "\<forall>rule \<in> set (pol_rules (su_policy ?su)). \<exists>t glob.
      rule_selector rule = t @ '':'' @ glob \<and> CHR '':'' \<notin> set t \<and> glob \<notin> {[], ''*'', ''**''}"
    by (intro ballI exI [of _ "''git.push''"] exI [of _ "''github.com/org/*''"]) simp
  moreover have "\<not> demands_gesture (pol_default (su_policy ?su))"
    by (simp add: demands_gesture_def REQUIREMENT_NONE_def)
  ultimately show ?thesis
    using resource_rules_never_fire [of ?su "gated_registry\<lparr>reg_step_up := Some ?su\<rparr>"] by simp
qed

text \<open>Whatever is registered in whatever order, the built registry lists its tools in ascending
  order of name with no duplicates, and a name resolves to the tool registered last under it.\<close>
theorem builder_last_registration_wins:
  "sorted_wrt (<) (tool_names (builder_build (fold builder_tool tools registry_builder))) \<and>
   map_of (reg_tools (builder_build (fold builder_tool tools registry_builder))) name =
     find (\<lambda>t. tool_name t = name) (rev tools) \<and>
   registry_contains (builder_build (fold builder_tool tools registry_builder)) name =
     (name \<in> tool_name ` set tools)"
proof -
  have "bmap_wf (bld_tools (fold builder_tool tools b)) \<and>
      map_of (bld_tools (fold builder_tool tools b)) name =
        (case find (\<lambda>t. tool_name t = name) (rev tools) of
           Some t \<Rightarrow> Some t | None \<Rightarrow> map_of (bld_tools b) name)"
    if "bmap_wf (bld_tools b)" for b :: "'a RegistryBuilder"
    using that
  proof (induction tools arbitrary: b)
    case (Cons t tools)
    have "bmap_wf (bld_tools (builder_tool t b))" using Cons.prems by (simp add: builder_tool_def)
    from Cons.IH [OF this] Cons.prems show ?case
      by (auto simp: builder_tool_def map_of_bmap_insert find_append split: option.splits)
  qed simp
  from this [of registry_builder]
  have built: "bmap_wf (bld_tools (fold builder_tool tools registry_builder))"
    "map_of (bld_tools (fold builder_tool tools registry_builder)) name =
       find (\<lambda>t. tool_name t = name) (rev tools)"
    by (auto simp: registry_builder_def split: option.splits)
  moreover have "find (\<lambda>t. tool_name t = name) (rev tools) \<noteq> None \<longleftrightarrow> name \<in> tool_name ` set tools"
    unfolding find_None_iff by auto
  ultimately show ?thesis
    by (simp add: builder_build_def tool_names_def bmap_wf_def registry_contains_def)
qed

end
