(* ===== verification/Ocap_Policy.thy ===== *)
theory Ocap_Policy
  imports Step_Up
begin

text \<open>
  The durable-policy contract (\<^verbatim>\<open>agent-bridle-core/src/policy.rs\<close>): verdicts and their
  precedence, the signed approve entries with their canonical payloads, the hexadecimal wire form
  of signatures, the sanitizer of the loosening verdict, and evaluation. The signature check is the
  parameter \<open>verifier\<close>; TOML reading and writing belong to a third-party crate. Code that can
  panic returns an option (\<open>None\<close> for the panic).
\<close>

subsection \<open>Verdicts and entries\<close>

datatype Verdict = VDeny | VPasskey | VAsk | VApprove

fun precedence :: "Verdict \<Rightarrow> nat" where
  "precedence VDeny = 0"
| "precedence VPasskey = 1"
| "precedence VAsk = 2"
| "precedence VApprove = 3"

fun verdict_filename :: "Verdict \<Rightarrow> string" where
  "verdict_filename VDeny = ''deny.toml''"
| "verdict_filename VPasskey = ''passkey.toml''"
| "verdict_filename VAsk = ''ask.toml''"
| "verdict_filename VApprove = ''approve.toml''"

text \<open>The derived order of the enum is its declaration order.\<close>

instantiation Verdict :: linorder
begin

definition less_eq_Verdict :: "Verdict \<Rightarrow> Verdict \<Rightarrow> bool" where
  "less_eq_Verdict a b \<longleftrightarrow> precedence a \<le> precedence b"

definition less_Verdict :: "Verdict \<Rightarrow> Verdict \<Rightarrow> bool" where
  "less_Verdict a b \<longleftrightarrow> precedence a < precedence b"

instance
proof
  fix x y z :: Verdict
  show "x < y \<longleftrightarrow> x \<le> y \<and> \<not> y \<le> x" by (auto simp: less_eq_Verdict_def less_Verdict_def)
  show "x \<le> x" by (simp add: less_eq_Verdict_def)
  show "x \<le> y \<Longrightarrow> y \<le> z \<Longrightarrow> x \<le> z" by (simp add: less_eq_Verdict_def)
  show "x \<le> y \<Longrightarrow> y \<le> x \<Longrightarrow> x = y" by (cases x; cases y) (simp_all add: less_eq_Verdict_def)
  show "x \<le> y \<or> y \<le> x" by (auto simp: less_eq_Verdict_def)
qed

end

record ExecEntry =
  exec_target :: string
  exec_note :: "string option"
  exec_granted :: "string option"
  exec_by :: "string option"
  exec_sig :: "string option"

record FsEntry =
  fs_path :: string
  fs_write :: bool
  fs_note :: "string option"
  fs_granted :: "string option"
  fs_by :: "string option"
  fs_sig :: "string option"

record NetEntry =
  net_host :: string
  net_note :: "string option"
  net_granted :: "string option"
  net_by :: "string option"
  net_sig :: "string option"

definition SIGNING_DOMAIN :: string where
  "SIGNING_DOMAIN = ''agent-bridle:ocap-approve:v1''"

definition newline :: string where
  "newline = [CHR 0x0A]"

fun bool_str :: "bool \<Rightarrow> string" where
  "bool_str True = ''true''"
| "bool_str False = ''false''"

definition exec_signing_payload :: "ExecEntry \<Rightarrow> bytes" where
  "exec_signing_payload e =
     str_bytes (SIGNING_DOMAIN @ newline @ ''exec'' @ newline @ exec_target e)"

definition fs_signing_payload :: "FsEntry \<Rightarrow> bytes" where
  "fs_signing_payload e =
     str_bytes (SIGNING_DOMAIN @ newline @ ''fs'' @ newline @ fs_path e @ newline @ ''write='' @
       bool_str (fs_write e))"

definition net_signing_payload :: "NetEntry \<Rightarrow> bytes" where
  "net_signing_payload e =
     str_bytes (SIGNING_DOMAIN @ newline @ ''net'' @ newline @ net_host e)"

subsection \<open>Signatures on the wire\<close>

type_synonym approve_verifier = "bytes \<Rightarrow> bytes \<Rightarrow> string + unit"

definition Ed25519ApproveVerifier ::
  "('vk, 'pk, 'sig) crypto \<Rightarrow> bytes \<Rightarrow> approve_verifier" where
  "Ed25519ApproveVerifier cr verifying_key payload sig =
     (case ed_from_bytes cr verifying_key of
        Inl e \<Rightarrow> Inl e
      | Inr vk \<Rightarrow>
          if length sig \<noteq> 64 then Inl ''signature is not 64 bytes''
          else ed_verify_strict cr vk payload sig)"

definition hex_digit :: "char \<Rightarrow> nat option" where
  "hex_digit c =
     (let n = (of_char c :: nat) in
      if 48 \<le> n \<and> n \<le> 57 then Some (n - 48)
      else if 97 \<le> n \<and> n \<le> 102 then Some (n - 87)
      else if 65 \<le> n \<and> n \<le> 70 then Some (n - 55)
      else None)"

text \<open>
  \<^verbatim>\<open>u8::from_str_radix(_, 16)\<close> on a two-byte slice: a leading plus sign is skipped, every other
  byte must be a digit.
\<close>

definition from_str_radix16 :: "char \<Rightarrow> char \<Rightarrow> u8 option" where
  "from_str_radix16 a b =
     (if a = CHR ''+'' then map_option of_nat (hex_digit b)
      else (case (hex_digit a, hex_digit b) of
          (Some hi, Some lo) \<Rightarrow> Some (of_nat (16 * hi + lo))
        | _ \<Rightarrow> None))"

text \<open>A byte that continues a multi-byte UTF-8 sequence; slicing a \<^verbatim>\<open>str\<close> there panics.\<close>

definition is_continuation :: "char \<Rightarrow> bool" where
  "is_continuation c \<longleftrightarrow> 128 \<le> (of_char c :: nat) \<and> (of_char c :: nat) < 192"

fun hex_pairs :: "string \<Rightarrow> (string + bytes) option" where
  "hex_pairs [] = Some (Inr [])"
| "hex_pairs [a] = None"
| "hex_pairs (a # b # rest) =
     (if is_continuation a \<or> (rest \<noteq> [] \<and> is_continuation (hd rest)) then None
      else (case from_str_radix16 a b of
          None \<Rightarrow> Some (Inl ''invalid digit found in string'')
        | Some v \<Rightarrow>
            (case hex_pairs rest of
               Some (Inr vs) \<Rightarrow> Some (Inr (v # vs))
             | other \<Rightarrow> other)))"

definition hex_decode :: "string \<Rightarrow> (string + bytes) option" where
  "hex_decode s =
     (if length s mod 2 \<noteq> 0 then Some (Inl ''hex string has odd length'') else hex_pairs s)"

definition hex_char :: "nat \<Rightarrow> char" where
  "hex_char n = ''0123456789abcdef'' ! n"

definition hex_encode :: "bytes \<Rightarrow> string" where
  "hex_encode bs = concat (map (\<lambda>b. [hex_char (unat b div 16), hex_char (unat b mod 16)]) bs)"

subsection \<open>Policy files\<close>

record PolicyFile =
  pf_exec :: "ExecEntry list"
  pf_fs :: "FsEntry list"
  pf_net :: "NetEntry list"

text \<open>The closure \<^verbatim>\<open>check\<close>: keep the entry, or drop it with a warning.\<close>

definition check_approve ::
  "approve_verifier \<Rightarrow> bytes \<Rightarrow> string option \<Rightarrow> (string + unit) option" where
  "check_approve verifier payload sig =
     (case sig of
        None \<Rightarrow> Some (Inl ''missing `sig` (unsigned approve)'')
      | Some s \<Rightarrow>
          (case hex_decode s of
             None \<Rightarrow> None
           | Some (Inl e) \<Rightarrow> Some (Inl e)
           | Some (Inr raw) \<Rightarrow> Some (verifier payload raw)))"

fun filter_approves ::
  "approve_verifier \<Rightarrow> ('e \<Rightarrow> string) \<Rightarrow> ('e \<Rightarrow> bytes) \<Rightarrow> ('e \<Rightarrow> string option) \<Rightarrow> 'e list \<Rightarrow>
   ('e list \<times> reason list) option" where
  "filter_approves verifier what payload sig [] = Some ([], [])"
| "filter_approves verifier what payload sig (e # es) =
     (case check_approve verifier (payload e) (sig e) of
        None \<Rightarrow> None
      | Some verdict \<Rightarrow>
          (case filter_approves verifier what payload sig es of
             None \<Rightarrow> None
           | Some (kept, warnings) \<Rightarrow>
               (case verdict of
                  Inr _ \<Rightarrow> Some (e # kept, warnings)
                | Inl reason \<Rightarrow>
                    Some (kept, Fmt ''approve entry `{what}` dropped: {reason}'' [what e, reason] # warnings))))"

definition verified_approves ::
  "approve_verifier \<Rightarrow> PolicyFile \<Rightarrow> (PolicyFile \<times> reason list) option" where
  "verified_approves verifier f =
     (case filter_approves verifier exec_target exec_signing_payload exec_sig (pf_exec f) of
        None \<Rightarrow> None
      | Some (ex, w1) \<Rightarrow>
          (case filter_approves verifier fs_path fs_signing_payload fs_sig (pf_fs f) of
             None \<Rightarrow> None
           | Some (fs, w2) \<Rightarrow>
               (case filter_approves verifier net_host net_signing_payload net_sig (pf_net f) of
                  None \<Rightarrow> None
                | Some (nt, w3) \<Rightarrow>
                    Some (\<lparr>pf_exec = ex, pf_fs = fs, pf_net = nt\<rparr>, w1 @ w2 @ w3))))"

subsection \<open>Evaluation\<close>

datatype CapabilityClass = ClassExec | ClassFs | ClassNet

type_synonym PolicySet = "(Verdict \<times> PolicyFile) list"

definition file_hit :: "CapabilityClass \<Rightarrow> string \<Rightarrow> PolicyFile \<Rightarrow> bool" where
  "file_hit cls target f =
     (case cls of
        ClassExec \<Rightarrow> list_ex (\<lambda>e. exec_target e = target) (pf_exec f)
      | ClassFs \<Rightarrow> list_ex (\<lambda>e. fs_path e = target) (pf_fs f)
      | ClassNet \<Rightarrow> list_ex (\<lambda>e. net_host e = target) (pf_net f))"

fun best_verdict :: "CapabilityClass \<Rightarrow> string \<Rightarrow> Verdict option \<Rightarrow> PolicySet \<Rightarrow> Verdict option" where
  "best_verdict cls target best [] = best"
| "best_verdict cls target best ((verdict, f) # files) =
     best_verdict cls target
       (if file_hit cls target f \<and>
           (case best of None \<Rightarrow> True | Some b \<Rightarrow> precedence verdict < precedence b)
        then Some verdict else best) files"

definition policy_evaluate :: "PolicySet \<Rightarrow> CapabilityClass \<Rightarrow> string \<Rightarrow> Verdict option" where
  "policy_evaluate files cls target = best_verdict cls target None files"

definition validate_approve ::
  "CapabilityClass \<Rightarrow> string \<Rightarrow> (CapabilityClass \<Rightarrow> string \<Rightarrow> bool) \<Rightarrow> reason + unit" where
  "validate_approve cls target is_high_danger =
     (if is_high_danger cls target
      then Inl (Fmt ''`{target}` is a high-danger target and cannot be durably approved (offer passkey step-up instead)'' [target])
      else Inr ())"

subsection \<open>Canonical payloads\<close>

text \<open>
  Bytes that are signed on behalf of an authority: two items have one payload exactly when they
  carry the same authority, so a signature is neither lost by an edit outside the authority nor
  reusable for another one. The predicate \<open>sized\<close> bounds the items (no Rust buffer exceeds
  \<^verbatim>\<open>isize::MAX\<close> bytes).
\<close>

locale signed_payload =
  fixes payload :: "'e \<Rightarrow> bytes"
    and authority :: "'e \<Rightarrow> 'auth"
    and sized :: "'e \<Rightarrow> bool"
  assumes payload_iff:
    "sized e \<Longrightarrow> sized e' \<Longrightarrow> payload e = payload e' \<longleftrightarrow> authority e = authority e'"
begin

lemma metadata_edit_keeps_signature:
  "sized e \<Longrightarrow> sized e' \<Longrightarrow> authority e = authority e' \<Longrightarrow> verifier (payload e) raw = Inr () \<Longrightarrow>
     verifier (payload e') raw = Inr ()"
  using payload_iff by metis

lemma one_digest:
  "sized e \<Longrightarrow> sized e' \<Longrightarrow> h (payload e) = h (payload e') \<Longrightarrow>
     authority e = authority e' \<or> payload e \<noteq> payload e' \<and> h (payload e) = h (payload e')"
  using payload_iff by metis

end

datatype approve_entry = AExec ExecEntry | AFs FsEntry | ANet NetEntry

datatype approve_authority = MayExec string | MayFs string bool | MayNet string

fun approve_payload :: "approve_entry \<Rightarrow> bytes" where
  "approve_payload (AExec e) = exec_signing_payload e"
| "approve_payload (AFs e) = fs_signing_payload e"
| "approve_payload (ANet e) = net_signing_payload e"

fun authority_of :: "approve_entry \<Rightarrow> approve_authority" where
  "authority_of (AExec e) = MayExec (exec_target e)"
| "authority_of (AFs e) = MayFs (fs_path e) (fs_write e)"
| "authority_of (ANet e) = MayNet (net_host e)"

lemma fs_suffix_inj:
  "p @ newline @ ''write='' @ bool_str a = q @ newline @ ''write='' @ bool_str b \<longleftrightarrow> p = q \<and> a = b"
proof
  assume eq: "p @ newline @ ''write='' @ bool_str a = q @ newline @ ''write='' @ bool_str b"
  from arg_cong [OF eq, of rev] have "a = b" by (cases a; cases b) (simp_all add: newline_def)
  with eq show "p = q \<and> a = b" by simp
qed simp

interpretation approve: signed_payload approve_payload authority_of "\<lambda>_. True"
proof
  fix e e' :: approve_entry
  show "approve_payload e = approve_payload e' \<longleftrightarrow> authority_of e = authority_of e'"
    by (cases e; cases e')
      (auto simp: exec_signing_payload_def fs_signing_payload_def net_signing_payload_def
        fs_suffix_inj [simplified]
        simp del: str_bytes_append)
qed

subsection \<open>Hexadecimal\<close>

lemma hex_char_digits:
  "\<forall>n \<in> set [0..<16]. hex_digit (hex_char n) = Some n \<and> hex_char n \<noteq> CHR ''+'' \<and>
     \<not> is_continuation (hex_char n)"
  by code_simp

lemma hex_digit_char: "n < 16 \<Longrightarrow> hex_digit (hex_char n) = Some n"
  and hex_char_ascii: "n < 16 \<Longrightarrow> hex_char n \<noteq> CHR ''+'' \<and> \<not> is_continuation (hex_char n)"
  using hex_char_digits by auto

lemma from_str_radix16_encode:
  "from_str_radix16 (hex_char (unat b div 16)) (hex_char (unat b mod 16)) = Some b" for b :: u8
proof -
  have "unat b < 256" using unsigned_less [of b] by simp
  then have "unat b div 16 < 16" "unat b mod 16 < 16" by auto
  then show ?thesis
    using hex_char_ascii [of "unat b div 16"] by (simp add: from_str_radix16_def hex_digit_char)
qed

lemma hex_pairs_encode: "hex_pairs (hex_encode bs) = Some (Inr bs)"
proof (induction bs)
  case (Cons b bs)
  have "unat b < 256" using unsigned_less [of b] by simp
  then have d: "unat b div 16 < 16" by auto
  have "hex_encode bs = [] \<or> \<not> is_continuation (hd (hex_encode bs))"
  proof (cases bs)
    case (Cons c cs)
    have "unat c < 256" using unsigned_less [of c] by simp
    then have "unat c div 16 < 16" by auto
    with Cons hex_char_ascii show ?thesis by (simp add: hex_encode_def)
  qed (simp add: hex_encode_def)
  with Cons d hex_char_ascii [OF d] from_str_radix16_encode show ?case
    by (simp add: hex_encode_def)
qed (simp add: hex_encode_def)

lemma length_hex_encode: "length (hex_encode bs) = 2 * length bs"
  by (induction bs) (simp_all add: hex_encode_def)

lemma hex_roundtrip: "hex_decode (hex_encode bs) = Some (Inr bs)"
  by (simp add: hex_decode_def length_hex_encode hex_pairs_encode)

lemma hex_pairs_ascii:
  "list_all (\<lambda>c. (of_char c :: nat) < 128) s \<Longrightarrow> length s mod 2 = 0 \<Longrightarrow> hex_pairs s \<noteq> None"
proof (induction s rule: hex_pairs.induct)
  case (3 a b rest)
  then show ?case
    by (cases rest; cases "from_str_radix16 a b")
      (auto simp: is_continuation_def split: option.splits sum.splits)
qed simp_all

lemma hex_decode_ascii: "list_all (\<lambda>c. (of_char c :: nat) < 128) s \<Longrightarrow> hex_decode s \<noteq> None"
  using hex_pairs_ascii [of s] by (auto simp: hex_decode_def)

subsection \<open>The sanitizer and evaluation\<close>

definition approved :: "approve_verifier \<Rightarrow> bytes \<Rightarrow> string option \<Rightarrow> bool" where
  "approved verifier payload sig \<longleftrightarrow>
     (\<exists>s raw. sig = Some s \<and> hex_decode s = Some (Inr raw) \<and> verifier payload raw = Inr ())"

definition sig_panics :: "string option \<Rightarrow> bool" where
  "sig_panics sig \<longleftrightarrow> (\<exists>s. sig = Some s \<and> hex_decode s = None)"

lemma check_approve_cases:
  "check_approve v p sig = None \<longleftrightarrow> sig_panics sig"
  "check_approve v p sig = Some (Inr ()) \<longleftrightarrow> approved v p sig"
  by (auto simp: check_approve_def sig_panics_def approved_def split: option.splits sum.splits)

lemma filter_approves_None: "filter_approves v what payload sig es = None \<longleftrightarrow> (\<exists>e \<in> set es. sig_panics (sig e))"
proof (induction es)
  case (Cons e es)
  show ?case
  proof (cases "check_approve v (payload e) (sig e)")
    case None
    then show ?thesis using check_approve_cases(1) [of v "payload e" "sig e"] by simp
  next
    case (Some verdict)
    then have "\<not> sig_panics (sig e)" using check_approve_cases(1) [of v "payload e" "sig e"] by simp
    with Some Cons show ?thesis by (auto split: option.splits sum.splits prod.splits)
  qed
qed simp

lemma filter_approves_Some:
  "filter_approves v what payload sig es = Some (kept, warnings) \<Longrightarrow>
     kept = filter (\<lambda>e. approved v (payload e) (sig e)) es \<and> length kept + length warnings = length es"
proof (induction es arbitrary: kept warnings)
  case (Cons e es)
  then obtain verdict k w where vkw: "check_approve v (payload e) (sig e) = Some verdict"
    "filter_approves v what payload sig es = Some (k, w)"
    by (auto split: option.splits prod.splits)
  from Cons.IH [OF vkw(2)] Cons.prems vkw check_approve_cases(2) [of v "payload e" "sig e"] show ?case
    by (cases verdict) auto
qed simp

lemma best_verdict_spec:
  "best_verdict cls t best files = Some v \<longleftrightarrow>
     (best = Some v \<or> (\<exists>f. (v, f) \<in> set files \<and> file_hit cls t f)) \<and>
     (\<forall>b. best = Some b \<longrightarrow> precedence v \<le> precedence b) \<and>
     (\<forall>(v', f) \<in> set files. file_hit cls t f \<longrightarrow> precedence v \<le> precedence v')"
proof (induction cls t best files rule: best_verdict.induct)
  case (1 cls target best)
  then show ?case by auto
next
  case (2 cls target best verdict f files)
  have inj: "precedence a = precedence b \<Longrightarrow> a = b" for a b by (cases a; cases b) simp_all
  show ?case
  proof (cases "file_hit cls target f \<and> (case best of None \<Rightarrow> True | Some b \<Rightarrow> precedence verdict < precedence b)")
    case True
    with 2 show ?thesis by (auto split: option.splits)
  next
    case False
    with 2 show ?thesis
      by (auto split: option.splits simp: not_less dest: inj antisym intro: le_trans)
  qed
qed

lemma best_verdict_None:
  "best_verdict cls t best files = None \<longleftrightarrow> best = None \<and> (\<forall>(v, f) \<in> set files. \<not> file_hit cls t f)"
  by (induction cls t best files rule: best_verdict.induct) auto

subsection \<open>Properties\<close>

text \<open>An approve signature binds exactly the authority of its entry: over all three capability
  classes, two entries have one signed payload exactly when they are of one class and agree on the
  authority-bearing fields (the command; the path and the write flag; the host), whatever newlines
  those contain and whatever their notes, dates and provenance say.\<close>
theorem approve_payload_binds_authority:
  "approve_payload e = approve_payload e' \<longleftrightarrow> authority_of e = authority_of e'"
  by (rule approve.payload_iff) simp_all

text \<open>The sanitizer of the loosening verdict keeps, in order, exactly the entries whose
  signature decodes and verifies over the entry's own payload, with one warning for each entry it
  drops. It fails to return on exactly the files where some signature is not sliceable into pairs
  of bytes at character boundaries, which needs a non-ASCII character: such a signature panics
  instead of being dropped.\<close>
theorem verified_approves_exact:
  "(\<forall>g ws. verified_approves v f = Some (g, ws) \<longrightarrow>
      pf_exec g = filter (\<lambda>e. approved v (exec_signing_payload e) (exec_sig e)) (pf_exec f) \<and>
      pf_fs g = filter (\<lambda>e. approved v (fs_signing_payload e) (fs_sig e)) (pf_fs f) \<and>
      pf_net g = filter (\<lambda>e. approved v (net_signing_payload e) (net_sig e)) (pf_net f) \<and>
      length (pf_exec g) + length (pf_fs g) + length (pf_net g) + length ws =
        length (pf_exec f) + length (pf_fs f) + length (pf_net f)) \<and>
   (verified_approves v f = None \<longleftrightarrow>
      (\<exists>sig \<in> exec_sig ` set (pf_exec f) \<union> fs_sig ` set (pf_fs f) \<union> net_sig ` set (pf_net f).
         sig_panics sig)) \<and>
   (sig_panics (Some s) \<longrightarrow> (\<exists>c \<in> set s. 128 \<le> (of_char c :: nat)))"
proof (intro conjI allI impI)
  fix g ws assume "verified_approves v f = Some (g, ws)"
  then obtain w1 w2 w3 where parts:
    "filter_approves v exec_target exec_signing_payload exec_sig (pf_exec f) = Some (pf_exec g, w1)"
    "filter_approves v fs_path fs_signing_payload fs_sig (pf_fs f) = Some (pf_fs g, w2)"
    "filter_approves v net_host net_signing_payload net_sig (pf_net f) = Some (pf_net g, w3)"
    "ws = w1 @ w2 @ w3"
    by (auto simp: verified_approves_def split: option.splits prod.splits)
  note kept = parts(1-3) [THEN filter_approves_Some]
  from kept show "pf_exec g = filter (\<lambda>e. approved v (exec_signing_payload e) (exec_sig e)) (pf_exec f)"
    "pf_fs g = filter (\<lambda>e. approved v (fs_signing_payload e) (fs_sig e)) (pf_fs f)"
    "pf_net g = filter (\<lambda>e. approved v (net_signing_payload e) (net_sig e)) (pf_net f)" by blast+
  from kept have "length (pf_exec g) + length w1 = length (pf_exec f)"
    "length (pf_fs g) + length w2 = length (pf_fs f)" "length (pf_net g) + length w3 = length (pf_net f)"
    by blast+
  with parts(4) show "length (pf_exec g) + length (pf_fs g) + length (pf_net g) + length ws =
      length (pf_exec f) + length (pf_fs f) + length (pf_net f)" by simp
next
  show "verified_approves v f = None \<longleftrightarrow>
      (\<exists>sig \<in> exec_sig ` set (pf_exec f) \<union> fs_sig ` set (pf_fs f) \<union> net_sig ` set (pf_net f).
         sig_panics sig)"
    using filter_approves_None [of v exec_target exec_signing_payload exec_sig "pf_exec f"]
      filter_approves_None [of v fs_path fs_signing_payload fs_sig "pf_fs f"]
      filter_approves_None [of v net_host net_signing_payload net_sig "pf_net f"]
    by (auto simp: verified_approves_def split: option.splits)
next
  assume "sig_panics (Some s)"
  then show "\<exists>c \<in> set s. 128 \<le> (of_char c :: nat)"
    using hex_decode_ascii [of s] unfolding sig_panics_def list_all_iff by (metis not_less option.inject)
qed

definition blank_exec :: "string \<Rightarrow> string option \<Rightarrow> ExecEntry" where
  "blank_exec target sig = \<lparr>exec_target = target, exec_note = None, exec_granted = None,
     exec_by = None, exec_sig = sig\<rparr>"

definition approve_file :: "string option \<Rightarrow> PolicyFile" where
  "approve_file sig = \<lparr>pf_exec = [blank_exec ''cargo'' sig, blank_exec ''rm'' None], pf_fs = [], pf_net = []\<rparr>"

text \<open>A signature of four bytes whose middle is one two-byte character.\<close>

definition split_char_sig :: string where
  "split_char_sig = [CHR ''a'', CHR 0xC3, CHR 0xA9, CHR ''1'']"

theorem verified_approves_exact_witness:
  "(\<exists>ws. verified_approves (\<lambda>p raw. if raw = [15] then Inr () else Inl [])
       (approve_file (Some ''0f'')) = Some (\<lparr>pf_exec = [blank_exec ''cargo'' (Some ''0f'')], pf_fs = [], pf_net = []\<rparr>, ws)) \<and>
   verified_approves (\<lambda>_ _. Inr ()) (approve_file (Some split_char_sig)) = None"
proof -
  let ?v = "\<lambda>p raw :: bytes. if raw = [15] then Inr () else Inl []"
  have dec: "hex_decode ''0f'' = Some (Inr [15])" "hex_decode split_char_sig = None" by code_simp+
  have panic: "sig_panics (Some split_char_sig)" "\<not> sig_panics None" "\<not> sig_panics (Some ''0f'')"
    using dec by (simp_all add: sig_panics_def)
  have ap: "approved ?v p (Some ''0f'')" "\<not> approved ?v p None" for p
    using dec by (simp_all add: approved_def)
  obtain g ws where g: "verified_approves ?v (approve_file (Some ''0f'')) = Some (g, ws)"
    using verified_approves_exact [of ?v "approve_file (Some ''0f'')"] panic
    by (fastforce simp: approve_file_def blank_exec_def)
  then have "g = \<lparr>pf_exec = [blank_exec ''cargo'' (Some ''0f'')], pf_fs = [], pf_net = []\<rparr>"
    using verified_approves_exact [of ?v "approve_file (Some ''0f'')"] ap
    by (cases g) (simp add: approve_file_def blank_exec_def)
  moreover have "verified_approves (\<lambda>_ _. Inr ()) (approve_file (Some split_char_sig)) = None"
    using verified_approves_exact [of "\<lambda>_ _. Inr ()" "approve_file (Some split_char_sig)"] panic
    by (simp add: approve_file_def blank_exec_def)
  ultimately show ?thesis using g by blast
qed

text \<open>The precedence law, and what it takes to be durably approved: evaluation returns the most
  restrictive verdict any file holds for the target and nothing when no file mentions it, so a
  durable deny is never shadowed; and in a policy set whose approve file went through the
  sanitizer, the verdict approve is reached only through an entry whose signature the verifier
  accepted over a payload naming exactly that target.\<close>
theorem durable_approval_needs_signature:
  assumes "\<forall>f. (VApprove, f) \<in> set files \<longrightarrow> (\<exists>raw ws. verified_approves v raw = Some (f, ws))"
  shows "(policy_evaluate files cls target = None \<longleftrightarrow> (\<forall>(w, f) \<in> set files. \<not> file_hit cls target f)) \<and>
    (policy_evaluate files cls target = Some w \<longleftrightarrow>
      (\<exists>f. (w, f) \<in> set files \<and> file_hit cls target f) \<and>
      (\<forall>(w', f) \<in> set files. file_hit cls target f \<longrightarrow> precedence w \<le> precedence w')) \<and>
    (policy_evaluate files cls target = Some VApprove \<longrightarrow>
      (\<exists>entry sig raw. hex_decode sig = Some (Inr raw) \<and> v (approve_payload entry) raw = Inr () \<and>
         authority_of entry \<in> (case cls of ClassExec \<Rightarrow> {MayExec target}
           | ClassFs \<Rightarrow> {MayFs target True, MayFs target False} | ClassNet \<Rightarrow> {MayNet target})))"
proof (intro conjI impI)
  show "policy_evaluate files cls target = None \<longleftrightarrow> (\<forall>(w, f) \<in> set files. \<not> file_hit cls target f)"
    by (simp add: policy_evaluate_def best_verdict_None)
  show "policy_evaluate files cls target = Some w \<longleftrightarrow>
      (\<exists>f. (w, f) \<in> set files \<and> file_hit cls target f) \<and>
      (\<forall>(w', f) \<in> set files. file_hit cls target f \<longrightarrow> precedence w \<le> precedence w')"
    by (simp add: policy_evaluate_def best_verdict_spec)
  assume "policy_evaluate files cls target = Some VApprove"
  then obtain f where f: "(VApprove, f) \<in> set files" "file_hit cls target f"
    by (auto simp: policy_evaluate_def best_verdict_spec)
  from assms f(1) obtain raw ws where "verified_approves v raw = Some (f, ws)" by blast
  then have kept: "\<exists>w. filter_approves v exec_target exec_signing_payload exec_sig (pf_exec raw) = Some (pf_exec f, w)"
    "\<exists>w. filter_approves v fs_path fs_signing_payload fs_sig (pf_fs raw) = Some (pf_fs f, w)"
    "\<exists>w. filter_approves v net_host net_signing_payload net_sig (pf_net raw) = Some (pf_net f, w)"
    by (auto simp: verified_approves_def split: option.splits prod.splits)
  show "\<exists>entry sig raw. hex_decode sig = Some (Inr raw) \<and> v (approve_payload entry) raw = Inr () \<and>
      authority_of entry \<in> (case cls of ClassExec \<Rightarrow> {MayExec target}
        | ClassFs \<Rightarrow> {MayFs target True, MayFs target False} | ClassNet \<Rightarrow> {MayNet target})"
  proof (cases cls)
    case ClassExec
    with f(2) obtain e where "e \<in> set (pf_exec f)" "exec_target e = target"
      by (auto simp: file_hit_def list_ex_iff)
    with kept(1) have "approved v (exec_signing_payload e) (exec_sig e)" by (auto dest: filter_approves_Some)
    with ClassExec \<open>exec_target e = target\<close> show ?thesis
      by (intro exI [of _ "AExec e"], auto simp: approved_def)
  next
    case ClassFs
    with f(2) obtain e where "e \<in> set (pf_fs f)" "fs_path e = target"
      by (auto simp: file_hit_def list_ex_iff)
    with kept(2) have "approved v (fs_signing_payload e) (fs_sig e)" by (auto dest: filter_approves_Some)
    with ClassFs \<open>fs_path e = target\<close> show ?thesis
      by (intro exI [of _ "AFs e"], auto simp: approved_def)
  next
    case ClassNet
    with f(2) obtain e where "e \<in> set (pf_net f)" "net_host e = target"
      by (auto simp: file_hit_def list_ex_iff)
    with kept(3) have "approved v (net_signing_payload e) (net_sig e)" by (auto dest: filter_approves_Some)
    with ClassNet \<open>net_host e = target\<close> show ?thesis
      by (intro exI [of _ "ANet e"], auto simp: approved_def)
  qed
qed

lemma signed_file_loads:
  "verified_approves (\<lambda>_ raw. if raw = [15] then Inr () else Inl []) (approve_file (Some ''0f'')) =
     Some (\<lparr>pf_exec = [blank_exec ''cargo'' (Some ''0f'')], pf_fs = [], pf_net = []\<rparr>,
       [Fmt ''approve entry `{what}` dropped: {reason}'' [''rm'', ''missing `sig` (unsigned approve)'']])"
  by code_simp

theorem durable_approval_needs_signature_witness:
  "\<exists>entry :: approve_entry. \<exists>sig raw. hex_decode sig = Some (Inr raw) \<and>
     (if raw = [15] then Inr () else Inl []) = (Inr () :: string + unit) \<and>
     authority_of entry = MayExec ''cargo''"
proof -
  let ?v = "\<lambda>_ raw :: bytes. if raw = [15] then Inr () else Inl []"
  let ?f = "\<lparr>pf_exec = [blank_exec ''cargo'' (Some ''0f'')], pf_fs = [], pf_net = []\<rparr>"
  have "\<forall>f. (VApprove, f) \<in> set [(VApprove, ?f)] \<longrightarrow> (\<exists>raw ws. verified_approves ?v raw = Some (f, ws))"
    using signed_file_loads by auto
  moreover have "policy_evaluate [(VApprove, ?f)] ClassExec ''cargo'' = Some VApprove" by code_simp
  ultimately show ?thesis
    using durable_approval_needs_signature [of "[(VApprove, ?f)]" ?v ClassExec "''cargo''"] by auto
qed

text \<open>Evaluation does not look at the write flag of a filesystem entry: an approve entry for reading
  a path answers approve for writing it as well.
\<close>

lemma evaluate_ignores_write_flag:
  "policy_evaluate (map (\<lambda>(w, f). (w, f\<lparr>pf_fs := map (fs_write_update (\<lambda>_. flag)) (pf_fs f)\<rparr>)) files) cls target =
   policy_evaluate files cls target"
proof -
  have hit: "file_hit cls target (f\<lparr>pf_fs := map (fs_write_update (\<lambda>_. flag)) (pf_fs f)\<rparr>) = file_hit cls target f"
    for f by (cases cls) (auto simp: file_hit_def list_ex_iff)
  show ?thesis
  proof -
    have "best_verdict cls target best
        (map (\<lambda>(w, f). (w, f\<lparr>pf_fs := map (fs_write_update (\<lambda>_. flag)) (pf_fs f)\<rparr>)) files) =
      best_verdict cls target best files" for best
      by (induction files arbitrary: best) (auto simp: hit)
    then show ?thesis by (simp add: policy_evaluate_def)
  qed
qed

text \<open>The wire form is malleable: distinct strings decode to one signature.\<close>

lemma hex_decode_malleable:
  "hex_decode ''+f'' = hex_decode ''0f'' \<and> hex_decode ''0F'' = hex_decode ''0f''"
  by code_simp

end
