(* ===== verification/Operator_Authz.thy ===== *)
theory Operator_Authz
  imports Ocap_Policy
begin

text \<open>
  The operator-authorization contract (\<^verbatim>\<open>agent-bridle-core/src/operator.rs\<close>): a signed binding of
  a human to a mesh agent, a signed and expiring permission challenge, and the decision that
  answers it. The digest of the mesh is the parameter \<open>h\<close>, a fingerprint its 32 bytes.
\<close>

subsection \<open>Payload fields\<close>

definition BINDING_DOMAIN :: bytes where
  "BINDING_DOMAIN = str_bytes ''agent-bridle:operator:principal-binding:v1''"

definition PERMISSION_DOMAIN :: bytes where
  "PERMISSION_DOMAIN = str_bytes ''agent-bridle:operator:permission-challenge:v1''"

definition push_field :: "bytes \<Rightarrow> bytes \<Rightarrow> bytes" where
  "push_field buf field = buf @ to_le_bytes (of_nat (length field)) @ field"

definition verify_hex_sig :: "bytes \<Rightarrow> string option \<Rightarrow> approve_verifier \<Rightarrow> (string + unit) option" where
  "verify_hex_sig payload sig verifier =
     (case sig of
        None \<Rightarrow> Some (Inl ''unsigned'')
      | Some hex \<Rightarrow>
          (case hex_decode hex of
             None \<Rightarrow> None
           | Some (Inl e) \<Rightarrow> Some (Inl e)
           | Some (Inr raw) \<Rightarrow> Some (verifier payload raw)))"

subsection \<open>Principals and bindings\<close>

record HumanPrincipal =
  hp_issuer :: string
  hp_subject :: string
  hp_email :: "string option"
  hp_groups :: "string list"

definition principal_key :: "HumanPrincipal \<Rightarrow> string \<times> string" where
  "principal_key p = (hp_issuer p, hp_subject p)"

definition is_member_of :: "HumanPrincipal \<Rightarrow> string \<Rightarrow> bool" where
  "is_member_of p grp = list_ex (\<lambda>g. g = grp) (hp_groups p)"

record PrincipalBinding =
  pb_human :: HumanPrincipal
  pb_mesh_agent_fingerprint :: bytes
  pb_issued_generation :: u64
  pb_sig :: "string option"

definition binding_new :: "HumanPrincipal \<Rightarrow> bytes \<Rightarrow> u64 \<Rightarrow> PrincipalBinding" where
  "binding_new human fingerprint generation =
     \<lparr>pb_human = human, pb_mesh_agent_fingerprint = fingerprint, pb_issued_generation = generation,
      pb_sig = None\<rparr>"

definition binding_payload :: "PrincipalBinding \<Rightarrow> bytes" where
  "binding_payload b =
     push_field (push_field (push_field BINDING_DOMAIN (str_bytes (hp_issuer (pb_human b))))
       (str_bytes (hp_subject (pb_human b)))) (pb_mesh_agent_fingerprint b) @
     to_le_bytes (pb_issued_generation b)"

definition binding_signed :: "bytes \<Rightarrow> PrincipalBinding \<Rightarrow> PrincipalBinding" where
  "binding_signed sig b = b\<lparr>pb_sig := Some (hex_encode sig)\<rparr>"

definition binding_verify :: "PrincipalBinding \<Rightarrow> approve_verifier \<Rightarrow> (string + unit) option" where
  "binding_verify b verifier = verify_hex_sig (binding_payload b) (pb_sig b) verifier"

subsection \<open>Challenges\<close>

datatype RequestedCapability = ReqExec | ReqFsRead | ReqFsWrite | ReqNet | ReqRemoteTool | ReqGitWrite

fun capability_str :: "RequestedCapability \<Rightarrow> string" where
  "capability_str ReqExec = ''exec''"
| "capability_str ReqFsRead = ''fs_read''"
| "capability_str ReqFsWrite = ''fs_write''"
| "capability_str ReqNet = ''net''"
| "capability_str ReqRemoteTool = ''remote_tool''"
| "capability_str ReqGitWrite = ''git_write''"

fun to_capability_class :: "RequestedCapability \<Rightarrow> CapabilityClass option" where
  "to_capability_class ReqExec = Some ClassExec"
| "to_capability_class ReqFsRead = Some ClassFs"
| "to_capability_class ReqFsWrite = Some ClassFs"
| "to_capability_class ReqNet = Some ClassNet"
| "to_capability_class ReqRemoteTool = None"
| "to_capability_class ReqGitWrite = None"

datatype DangerTier = DangerLow | DangerMedium | DangerHigh

fun danger_tag :: "DangerTier \<Rightarrow> string" where
  "danger_tag DangerLow = ''low''"
| "danger_tag DangerMedium = ''medium''"
| "danger_tag DangerHigh = ''high''"

text \<open>The deadline is an \<^verbatim>\<open>i64\<close>: a 64-bit word read with sign.\<close>

record PermissionChallenge =
  pc_request_id :: string
  pc_capability :: RequestedCapability
  pc_target :: string
  pc_danger :: DangerTier
  pc_mesh_agent_fingerprint :: bytes
  pc_expires_at_unix :: u64
  pc_sig :: "string option"

definition permission_challenge_new ::
  "string \<Rightarrow> RequestedCapability \<Rightarrow> string \<Rightarrow> DangerTier \<Rightarrow> bytes \<Rightarrow> u64 \<Rightarrow> PermissionChallenge" where
  "permission_challenge_new request_id capability target danger fingerprint expires =
     \<lparr>pc_request_id = request_id, pc_capability = capability, pc_target = target, pc_danger = danger,
      pc_mesh_agent_fingerprint = fingerprint, pc_expires_at_unix = expires, pc_sig = None\<rparr>"

definition permission_payload :: "PermissionChallenge \<Rightarrow> bytes" where
  "permission_payload c =
     push_field (push_field (push_field (push_field (push_field PERMISSION_DOMAIN
       (str_bytes (pc_request_id c))) (str_bytes (capability_str (pc_capability c))))
       (str_bytes (pc_target c))) (str_bytes (danger_tag (pc_danger c))))
       (pc_mesh_agent_fingerprint c) @
     to_le_bytes (pc_expires_at_unix c)"

definition permission_signed :: "bytes \<Rightarrow> PermissionChallenge \<Rightarrow> PermissionChallenge" where
  "permission_signed sig c = c\<lparr>pc_sig := Some (hex_encode sig)\<rparr>"

definition permission_verify :: "PermissionChallenge \<Rightarrow> approve_verifier \<Rightarrow> (string + unit) option" where
  "permission_verify c verifier = verify_hex_sig (permission_payload c) (pc_sig c) verifier"

definition permission_digest :: "hash \<Rightarrow> PermissionChallenge \<Rightarrow> bytes" where
  "permission_digest h c = h (permission_payload c)"

definition is_expired :: "PermissionChallenge \<Rightarrow> u64 \<Rightarrow> bool" where
  "is_expired c now_unix \<longleftrightarrow> sint now_unix \<ge> sint (pc_expires_at_unix c)"

subsection \<open>Decisions\<close>

datatype DecisionVerdict = DecideDeny | AllowOnce | AllowSession | ApproveDurable

definition durable_policy_verdict :: "DecisionVerdict \<Rightarrow> Verdict option" where
  "durable_policy_verdict v = (case v of ApproveDurable \<Rightarrow> Some VApprove | _ \<Rightarrow> None)"

definition is_durable :: "DecisionVerdict \<Rightarrow> bool" where
  "is_durable v = (case v of ApproveDurable \<Rightarrow> True | _ \<Rightarrow> False)"

record OperatorDecision =
  od_request_id :: string
  od_challenge_digest :: bytes
  od_verdict :: DecisionVerdict
  od_step_up_owed :: bool
  od_decided_by :: HumanPrincipal

definition for_challenge ::
  "hash \<Rightarrow> PermissionChallenge \<Rightarrow> DecisionVerdict \<Rightarrow> HumanPrincipal \<Rightarrow> OperatorDecision" where
  "for_challenge h c verdict decided_by =
     \<lparr>od_request_id = pc_request_id c, od_challenge_digest = permission_digest h c,
      od_verdict = verdict, od_step_up_owed = False, od_decided_by = decided_by\<rparr>"

definition requiring_step_up :: "OperatorDecision \<Rightarrow> OperatorDecision" where
  "requiring_step_up d = d\<lparr>od_step_up_owed := True\<rparr>"

definition decision_answers :: "hash \<Rightarrow> OperatorDecision \<Rightarrow> PermissionChallenge \<Rightarrow> bool" where
  "decision_answers h d c \<longleftrightarrow>
     od_request_id d = pc_request_id c \<and> od_challenge_digest d = permission_digest h c"

subsection \<open>Length-delimited fields\<close>

lemma of_nat_u64_inj:
  "m < 2 ^ 64 \<Longrightarrow> n < 2 ^ 64 \<Longrightarrow> (of_nat m :: u64) = of_nat n \<longleftrightarrow> m = n"
  by (simp add: of_nat_inverse word_of_nat_eq_iff take_bit_nat_eq_self)

definition delimited :: "bytes \<Rightarrow> bytes" where
  "delimited f = to_le_bytes (of_nat (length f)) @ f"

lemma push_field_delimited: "push_field buf f = buf @ delimited f"
  by (simp add: push_field_def delimited_def)

lemma delimited_inj:
  assumes "length f < 2 ^ 64" and "length f' < 2 ^ 64"
  shows "delimited f @ x = delimited f' @ y \<longleftrightarrow> f = f' \<and> x = y"
proof
  assume "delimited f @ x = delimited f' @ y"
  then have "length f = length f'" and "f @ x = f' @ y"
    using of_nat_u64_inj [OF assms] by (simp_all add: delimited_def)
  then show "f = f' \<and> x = y" by simp
qed simp

lemmas delimited_inj_end = delimited_inj [where x = "[]" and y = "[]", simplified append_Nil2 simp_thms]

lemma capability_str_inj: "capability_str a = capability_str b \<longleftrightarrow> a = b"
  by (cases a; cases b) simp_all

lemma danger_tag_inj: "danger_tag a = danger_tag b \<longleftrightarrow> a = b"
  by (cases a; cases b) simp_all

lemma tag_lengths: "length (capability_str a) < 2 ^ 64" "length (danger_tag d) < 2 ^ 64"
  by (cases a; simp) (cases d; simp)

subsection \<open>What a signature covers\<close>

datatype operator_item = OpBinding PrincipalBinding | OpChallenge PermissionChallenge | OpApprove approve_entry

datatype operator_authority =
    Binds string string bytes u64
  | Asks string RequestedCapability string DangerTier bytes u64
  | Approves approve_authority

fun item_payload :: "operator_item \<Rightarrow> bytes" where
  "item_payload (OpBinding b) = binding_payload b"
| "item_payload (OpChallenge c) = permission_payload c"
| "item_payload (OpApprove e) = approve_payload e"

fun item_authority :: "operator_item \<Rightarrow> operator_authority" where
  "item_authority (OpBinding b) =
     Binds (hp_issuer (pb_human b)) (hp_subject (pb_human b)) (pb_mesh_agent_fingerprint b)
       (pb_issued_generation b)"
| "item_authority (OpChallenge c) =
     Asks (pc_request_id c) (pc_capability c) (pc_target c) (pc_danger c) (pc_mesh_agent_fingerprint c)
       (pc_expires_at_unix c)"
| "item_authority (OpApprove e) = Approves (authority_of e)"

fun item_sized :: "operator_item \<Rightarrow> bool" where
  "item_sized (OpBinding b) \<longleftrightarrow> length (hp_issuer (pb_human b)) < 2 ^ 64 \<and>
     length (hp_subject (pb_human b)) < 2 ^ 64 \<and> length (pb_mesh_agent_fingerprint b) < 2 ^ 64"
| "item_sized (OpChallenge c) \<longleftrightarrow> length (pc_request_id c) < 2 ^ 64 \<and> length (pc_target c) < 2 ^ 64 \<and>
     length (pc_mesh_agent_fingerprint c) < 2 ^ 64"
| "item_sized (OpApprove e) \<longleftrightarrow> True"

text \<open>Every payload starts with its domain tag; the first 24 bytes already tell the kinds apart.\<close>

fun item_tag :: "operator_item \<Rightarrow> string" where
  "item_tag (OpBinding b) = ''agent-bridle:operator:pr''"
| "item_tag (OpChallenge c) = ''agent-bridle:operator:pe''"
| "item_tag (OpApprove e) = ''agent-bridle:ocap-approv''"

lemma item_payload_tag: "take 24 (item_payload i) = str_bytes (item_tag i)"
proof (cases i)
  case (OpApprove e)
  then show ?thesis
    by (cases e) (simp_all add: exec_signing_payload_def fs_signing_payload_def net_signing_payload_def
        SIGNING_DOMAIN_def str_bytes_def)
qed (simp_all add: binding_payload_def permission_payload_def push_field_def BINDING_DOMAIN_def
    PERMISSION_DOMAIN_def str_bytes_def)

lemma binding_payload_inj:
  assumes "item_sized (OpBinding b)" and "item_sized (OpBinding c)"
  shows "binding_payload b = binding_payload c \<longleftrightarrow> item_authority (OpBinding b) = item_authority (OpBinding c)"
  using assms by (simp add: binding_payload_def push_field_delimited delimited_inj delimited_inj_end)

lemma permission_payload_inj:
  assumes "item_sized (OpChallenge b)" and "item_sized (OpChallenge c)"
  shows "permission_payload b = permission_payload c \<longleftrightarrow>
    item_authority (OpChallenge b) = item_authority (OpChallenge c)"
  using assms tag_lengths
  by (simp add: permission_payload_def push_field_delimited delimited_inj delimited_inj_end capability_str_inj danger_tag_inj)

interpretation operator: signed_payload item_payload item_authority item_sized
proof
  fix i j assume sized: "item_sized i" "item_sized j"
  have tag: "item_payload i = item_payload j \<Longrightarrow> item_tag i = item_tag j"
    by (metis item_payload_tag str_bytes_inj)
  show "item_payload i = item_payload j \<longleftrightarrow> item_authority i = item_authority j"
    using sized tag binding_payload_inj permission_payload_inj approve.payload_iff
    by (cases i; cases j) auto
qed

subsection \<open>Properties\<close>

text \<open>Every signature an operator key makes binds the whole authority of one item: over
  principal bindings, permission challenges and approve entries together, two items (with fields
  under \<open>2 ^ 64\<close> bytes) have one signed payload exactly when they are of one kind and agree on
  every authority-bearing field; no value of one field can pose as a boundary of another. Email,
  groups, notes and the signature itself do not enter.\<close>
theorem operator_payload_binds_authority:
  assumes "item_sized i" and "item_sized j"
  shows "item_payload i = item_payload j \<longleftrightarrow> item_authority i = item_authority j"
  using assms by (rule operator.payload_iff)

definition nobody :: HumanPrincipal where
  "nobody = \<lparr>hp_issuer = ''idp'', hp_subject = ''x'', hp_email = None, hp_groups = []\<rparr>"

theorem operator_payload_binds_authority_witness:
  "item_payload (OpBinding (binding_new nobody (replicate 32 1) 7)) \<noteq>
   item_payload (OpBinding (binding_new (nobody\<lparr>hp_issuer := ''id'', hp_subject := ''px''\<rparr>) (replicate 32 1) 7))"
  using operator_payload_binds_authority [of "OpBinding (binding_new nobody (replicate 32 1) 7)"
      "OpBinding (binding_new (nobody\<lparr>hp_issuer := ''id'', hp_subject := ''px''\<rparr>) (replicate 32 1) 7)"]
  by (simp add: binding_new_def nobody_def)

text \<open>A decision answers the challenge it was made for and cannot be lifted: when it answers
  another challenge, that one asks for the same thing in every field (request, capability, target,
  danger, agent, deadline), or the two different payloads collide under the digest. A signature
  attached to a challenge is verified as exactly the bytes that were attached, an unsigned
  challenge never verifies, and the verification never panics on a signature made this way.\<close>
theorem decision_binds_challenge:
  assumes "item_sized (OpChallenge c)" and "item_sized (OpChallenge c')"
  shows "decision_answers h (for_challenge h c verdict who) c \<and>
    (decision_answers h (requiring_step_up (for_challenge h c verdict who)) c' \<longrightarrow>
       item_authority (OpChallenge c) = item_authority (OpChallenge c') \<or>
       permission_payload c \<noteq> permission_payload c' \<and> h (permission_payload c) = h (permission_payload c')) \<and>
    permission_verify (permission_signed sig c) v = Some (v (permission_payload c) sig) \<and>
    (pc_sig c = None \<longrightarrow> permission_verify c v = Some (Inl ''unsigned''))"
proof -
  have "item_authority (OpChallenge c) = item_authority (OpChallenge c') \<or>
       permission_payload c \<noteq> permission_payload c' \<and> h (permission_payload c) = h (permission_payload c')"
    if "decision_answers h (requiring_step_up (for_challenge h c verdict who)) c'"
    using that operator.one_digest [OF assms, of h]
    by (simp add: decision_answers_def requiring_step_up_def for_challenge_def permission_digest_def)
  moreover have "permission_payload (permission_signed sig c) = permission_payload c"
    by (simp add: permission_payload_def permission_signed_def)
  ultimately show ?thesis
    by (auto simp: decision_answers_def for_challenge_def permission_verify_def verify_hex_sig_def
        permission_signed_def hex_roundtrip permission_digest_def)
qed

theorem decision_binds_challenge_witness:
  "let c = permission_challenge_new ''r1'' ReqExec ''cargo'' DangerLow (replicate 32 1) 100 in
   decision_answers toy_hash (for_challenge toy_hash c AllowOnce nobody) c \<and>
   permission_verify (permission_signed (replicate 64 5) c) (\<lambda>_ s. if s = replicate 64 5 then Inr () else Inl []) =
     Some (Inr ()) \<and>
   permission_verify c (\<lambda>_ _. Inr ()) = Some (Inl ''unsigned'')"
proof -
  let ?c = "permission_challenge_new ''r1'' ReqExec ''cargo'' DangerLow (replicate 32 1) 100"
  have sized: "item_sized (OpChallenge ?c)" by (simp add: permission_challenge_new_def)
  have "pc_sig ?c = None" by (simp add: permission_challenge_new_def)
  with decision_binds_challenge [OF sized sized, of toy_hash AllowOnce nobody "replicate 64 5"
      "\<lambda>_ s. if s = replicate 64 5 then Inr () else Inl []"]
    decision_binds_challenge [OF sized sized, of toy_hash AllowOnce nobody "replicate 64 5" "\<lambda>_ _. Inr ()"]
  show ?thesis by (simp add: Let_def)
qed

end
