(* ===== verification/Admitted_Fence.thy ===== *)
theory Admitted_Fence
  imports Tool_Context
begin

text \<open>
  The one admitted fence (\<^verbatim>\<open>agent-bridle-core/src/admitted.rs\<close>, \<^verbatim>\<open>admitted/named_root.rs\<close>,
  \<^verbatim>\<open>admitted/protected_roots.rs\<close>): the declared runtime closure, ordinary admission, the identity
  check between admission and application, and the named-root variant with its trusted inventory.
  The resolved-authority lattice and the content identifiers come from other crates: only the shape
  of their types is written down, and their operations are the record \<open>mesh\<close>. What the operating
  system answers about paths is the record \<open>os\<close> of the context, extended by link metadata.
\<close>

subsection \<open>The mesh interface\<close>

datatype ResolvedScope = Bounded (concrete: "string list") (classes: "string list") | Unbounded | UnknownScope

record ResolvedAuthority =
  ra_fs_read :: ResolvedScope
  ra_fs_write :: ResolvedScope
  ra_exec :: ResolvedScope
  ra_net :: ResolvedScope

datatype ScopeRelation = RelEqual | RelSubset | RelSuperset | RelIncomparable | RelUnknown

datatype AdmissionDecision = Admit | Reject ConfinedAxis ScopeRelation

record BackendProjection =
  prj_resolved :: ResolvedAuthority
  prj_runtime_closure :: ResolvedAuthority

record AdmittedFenceBody =
  body_effective :: Caveats
  body_mechanism_caveats :: Caveats
  body_root :: string
  body_mechanism :: ConfinementMechanism
  body_projection :: BackendProjection
  body_protected_roots :: "string list"

record mesh =
  mesh_admit :: "ResolvedAuthority \<Rightarrow> Caveats \<Rightarrow> ResolvedAuthority \<Rightarrow> AdmissionDecision"
  mesh_relate :: "ResolvedScope \<Rightarrow> ResolvedScope \<Rightarrow> ScopeRelation"
  mesh_from_scope :: "string Scope \<Rightarrow> ResolvedScope"
  mesh_union :: "ResolvedScope \<Rightarrow> ResolvedScope \<Rightarrow> ResolvedScope"
  mesh_empty :: ResolvedScope
  mesh_fence_cid :: "Caveats \<times> ConfinementMechanism \<Rightarrow> string + bytes"
  mesh_body_cid :: "AdmittedFenceBody \<Rightarrow> string + bytes"

subsection \<open>Harness-private stores\<close>

definition HARNESS_PRIVATE_MARKERS :: "string list" where
  "HARNESS_PRIVATE_MARKERS = [''.newt'', ''.ssh'', ''.gnupg'', ''.aws'', ''.config/gh'']"

definition trim_slashes :: "string \<Rightarrow> string" where
  "trim_slashes s = rev (dropWhile (\<lambda>c. c = CHR ''/'') (rev (dropWhile (\<lambda>c. c = CHR ''/'') s)))"

definition padded :: "string \<Rightarrow> string" where
  "padded s = ''/'' @ trim_slashes s @ ''/''"

definition entry_reaches_harness_private :: "string \<Rightarrow> bool" where
  "entry_reaches_harness_private entry =
     list_ex (\<lambda>marker. sublist (padded marker) (padded entry)) HARNESS_PRIVATE_MARKERS"

definition require_harness_disjoint :: "string \<Rightarrow> unit ToolResult" where
  "require_harness_disjoint entry =
     (if entry_reaches_harness_private entry
      then Inl (denied ''refusing closure entry {entry:?}: it reaches a harness-private store (the runtime closure must be harness-disjoint)'' [entry])
      else Inr ())"

definition axis_harness_disjoint :: "ResolvedScope \<Rightarrow> bool" where
  "axis_harness_disjoint scope =
     (case scope of
        Bounded entries _ \<Rightarrow> list_all (\<lambda>entry. \<not> entry_reaches_harness_private entry) entries
      | _ \<Rightarrow> False)"

definition closure_is_harness_disjoint :: "ResolvedAuthority \<Rightarrow> bool" where
  "closure_is_harness_disjoint closure =
     (axis_harness_disjoint (ra_fs_read closure) \<and> axis_harness_disjoint (ra_fs_write closure) \<and>
      axis_harness_disjoint (ra_exec closure))"

subsection \<open>The declared closure\<close>

record RuntimeClosure =
  rc_exec :: "string list"
  rc_fs_read :: "string list"

definition closure_empty :: RuntimeClosure where
  "closure_empty = \<lparr>rc_exec = [], rc_fs_read = []\<rparr>"

definition with_exec :: "string \<Rightarrow> RuntimeClosure \<Rightarrow> RuntimeClosure ToolResult" where
  "with_exec program rc =
     (case require_harness_disjoint program of
        Inl e \<Rightarrow> Inl e
      | Inr _ \<Rightarrow> Inr (rc\<lparr>rc_exec := btree_insert program (rc_exec rc)\<rparr>))"

definition with_fs_read :: "string \<Rightarrow> RuntimeClosure \<Rightarrow> RuntimeClosure ToolResult" where
  "with_fs_read p rc =
     (case require_harness_disjoint p of
        Inl e \<Rightarrow> Inl e
      | Inr _ \<Rightarrow> Inr (rc\<lparr>rc_fs_read := btree_insert p (rc_fs_read rc)\<rparr>))"

definition closure_is_empty :: "RuntimeClosure \<Rightarrow> bool" where
  "closure_is_empty rc \<longleftrightarrow> rc_exec rc = [] \<and> rc_fs_read rc = []"

subsection \<open>Ordinary admission\<close>

record AdmittedFence =
  af_mechanism :: ConfinementMechanism
  af_mechanism_caveats :: Caveats
  af_fence_id :: bytes
  af_admitted_body :: "AdmittedFenceBody option"

definition compute_fence_id :: "mesh \<Rightarrow> Caveats \<Rightarrow> ConfinementMechanism \<Rightarrow> bytes ToolResult" where
  "compute_fence_id ms caveats mechanism =
     (case mesh_fence_cid ms (caveats, mechanism) of
        Inl e \<Rightarrow> Inl (denied ''cannot content-address the admitted fence: {error}'' [e])
      | Inr cid \<Rightarrow> Inr cid)"

definition extend_only :: "string Scope \<Rightarrow> string list \<Rightarrow> string Scope" where
  "extend_only scope extra =
     (case scope of ScopeOnly xs \<Rightarrow> ScopeOnly (btree_extend xs extra) | ScopeAll \<Rightarrow> ScopeAll)"

definition derive_mechanism_caveats :: "Caveats \<Rightarrow> RuntimeClosure \<Rightarrow> Caveats" where
  "derive_mechanism_caveats delegated closure =
     delegated\<lparr>cav_exec := extend_only (cav_exec delegated) (rc_exec closure),
       cav_fs_read := extend_only (cav_fs_read delegated) (rc_fs_read closure)\<rparr>"

definition admit_fence ::
  "mesh \<Rightarrow> host \<Rightarrow> Caveats \<Rightarrow> RuntimeClosure \<Rightarrow> ConfinementMechanism \<Rightarrow> EnforcementFloor \<Rightarrow>
   (Caveats \<Rightarrow> BackendProjection) \<Rightarrow> AdmittedFence ToolResult" where
  "admit_fence ms h delegated closure mechanism floor project =
     (if m_exec_boundary mechanism \<noteq> ProcessTree
      then Inl (denied ''ordinary admission requires the ProcessTree exec boundary'' [])
      else
       (let mechanism_caveats = derive_mechanism_caveats delegated closure;
            projection = project mechanism_caveats
        in if \<not> closure_is_harness_disjoint (prj_runtime_closure projection)
           then Inl (denied ''refusing to spawn: the backend runtime closure reaches harness-private authority or an undecidable axis (L3 BOUND: closure must be harness-disjoint)'' [])
           else (case mesh_admit ms (prj_resolved projection) delegated (prj_runtime_closure projection) of
               Reject axis relation \<Rightarrow>
                 Inl (denied ''refusing to spawn: backend authority on the {:?} axis is {} the delegated grant or declared runtime closure (L3 BOUND)'' [])
             | Admit \<Rightarrow>
                 (case unenforceable_axis h delegated mechanism floor of
                    Some unmet \<Rightarrow> Inl (denied ''refusing to spawn: {unmet} (governing sandbox: {:?})'' [])
                  | None \<Rightarrow>
                      (case compute_fence_id ms mechanism_caveats mechanism of
                         Inl e \<Rightarrow> Inl e
                       | Inr fid \<Rightarrow>
                           Inr \<lparr>af_mechanism = mechanism, af_mechanism_caveats = mechanism_caveats,
                             af_fence_id = fid, af_admitted_body = None\<rparr>)))))"

definition verify_applied :: "mesh \<Rightarrow> AdmittedFence \<Rightarrow> Caveats \<Rightarrow> unit ToolResult" where
  "verify_applied ms fence applied =
     (if af_admitted_body fence \<noteq> None
      then Inl (denied ''NamedRoot apply verification requires the actual root and fresh backend projection'' [])
      else (case compute_fence_id ms applied (af_mechanism fence) of
          Inl e \<Rightarrow> Inl e
        | Inr recomputed \<Rightarrow>
            if recomputed = af_fence_id fence then Inr ()
            else Inl (denied ''refusing to spawn: the applied fence caveats do not recompute to the admitted fence CID (L2 non-equivocation: a re-derivation between admit and apply)'' [])))"

subsection \<open>The protected inventory\<close>

record 'file meta_os = "'file os" +
  os_symlink_meta :: "path \<Rightarrow> io_error + bool"
  os_utf8 :: "path \<Rightarrow> bool"

definition is_absolute :: "path \<Rightarrow> bool" where
  "is_absolute p \<longleftrightarrow> p \<noteq> [] \<and> hd p = RootDir"

text \<open>\<^verbatim>\<open>Path::ancestors\<close> of an absolute path: itself, its parent, and so on down to the root.\<close>

definition path_ancestors :: "path \<Rightarrow> path list" where
  "path_ancestors p = rev (map (\<lambda>n. take (Suc n) p) [0..<length p])"

definition render_component :: "component \<Rightarrow> string" where
  "render_component c =
     (case c of RootDir \<Rightarrow> [] | CurDir \<Rightarrow> ''.'' | ParentDir \<Rightarrow> ''..'' | Normal n \<Rightarrow> n)"

definition render_path :: "path \<Rightarrow> string" where
  "render_path p =
     (if p = [RootDir] then ''/'' else
      (case p of
         [] \<Rightarrow> []
       | c # cs \<Rightarrow> render_component c @ concat (map (\<lambda>d. ''/'' @ render_component d) cs)))"

definition invalid_inventory_path :: ToolError where
  "invalid_inventory_path = denied ''protected inventory/closure path is relative, unresolved or ambiguous'' []"

definition ancestor_ambiguous :: "'file meta_os \<Rightarrow> path \<Rightarrow> bool" where
  "ancestor_ambiguous fs pre =
     (case os_symlink_meta fs pre of
        Inr is_symlink \<Rightarrow> is_symlink \<and> \<not> is_ok (os_canonicalize fs pre)
      | Inl e \<Rightarrow> io_error_kind e \<noteq> NotFoundKind)"

definition canonical_path :: "'file meta_os \<Rightarrow> string \<Rightarrow> string ToolResult" where
  "canonical_path fs s =
     (let p = components s in
      if \<not> is_absolute p \<or> ParentDir \<in> set p then Inl invalid_inventory_path
      else if list_ex (ancestor_ambiguous fs) (path_ancestors p) then Inl invalid_inventory_path
      else (case canonicalize_for_check (os.truncate fs) p of
          Inl _ \<Rightarrow> Inl invalid_inventory_path
        | Inr c \<Rightarrow> if os_utf8 fs c then Inr (render_path c) else Inl invalid_inventory_path))"

fun collect_paths :: "'file meta_os \<Rightarrow> string list \<Rightarrow> string list ToolResult" where
  "collect_paths fs [] = Inr []"
| "collect_paths fs (root # roots) =
     (case canonical_path fs root of
        Inl e \<Rightarrow> Inl e
      | Inr c \<Rightarrow> (case collect_paths fs roots of Inl e \<Rightarrow> Inl e | Inr cs \<Rightarrow> Inr (btree_insert c cs)))"

definition canonicalize_protected_roots :: "'file meta_os \<Rightarrow> string list \<Rightarrow> string list ToolResult" where
  "canonicalize_protected_roots fs roots =
     (if roots = [] then Inl (denied ''NamedRoot requires a nonempty trusted protected-root inventory'' [])
      else collect_paths fs roots)"

fun covered_by :: "'file meta_os \<Rightarrow> path \<Rightarrow> string list \<Rightarrow> bool ToolResult" where
  "covered_by fs p [] = Inr False"
| "covered_by fs p (entry # granted) =
     (case canonical_path fs entry of
        Inl e \<Rightarrow> Inl e
      | Inr c \<Rightarrow> if path_is_within p (components c) then Inr True else covered_by fs p granted)"

definition explicitly_covers :: "'file meta_os \<Rightarrow> string Scope \<Rightarrow> path \<Rightarrow> bool ToolResult" where
  "explicitly_covers fs scope p =
     (case scope of ScopeAll \<Rightarrow> Inr True | ScopeOnly granted \<Rightarrow> covered_by fs p granted)"

definition root_intersection :: "path \<Rightarrow> path \<Rightarrow> path option" where
  "root_intersection p protected =
     (if path_is_within p protected then Some p
      else if path_is_within protected p then Some protected
      else None)"

fun check_roots :: "'file meta_os \<Rightarrow> string \<Rightarrow> string Scope \<Rightarrow> path \<Rightarrow> string list \<Rightarrow> unit ToolResult" where
  "check_roots fs axis granted p [] = Inr ()"
| "check_roots fs axis granted p (root # roots) =
     (case root_intersection p (components root) of
        None \<Rightarrow> check_roots fs axis granted p roots
      | Some i \<Rightarrow>
          (case explicitly_covers fs granted i of
             Inl e \<Rightarrow> Inl e
           | Inr True \<Rightarrow> check_roots fs axis granted p roots
           | Inr False \<Rightarrow>
               Inl (denied ''{axis} runtime closure adds access to a recorded trusted protected root'' [axis])))"

fun check_entries ::
  "'file meta_os \<Rightarrow> string \<Rightarrow> string Scope \<Rightarrow> string list \<Rightarrow> string list \<Rightarrow> unit ToolResult" where
  "check_entries fs axis granted roots [] = Inr ()"
| "check_entries fs axis granted roots (entry # entries) =
     (case canonical_path fs entry of
        Inl e \<Rightarrow> Inl e
      | Inr c \<Rightarrow>
          (case check_roots fs axis granted (components c) roots of
             Inl e \<Rightarrow> Inl e
           | Inr _ \<Rightarrow> check_entries fs axis granted roots entries))"

definition concrete_only :: "ResolvedScope \<Rightarrow> bool" where
  "concrete_only scope = (case scope of Bounded _ cls \<Rightarrow> cls = [] | _ \<Rightarrow> False)"

definition check_closure_inventory ::
  "'file meta_os \<Rightarrow> mesh \<Rightarrow> BackendProjection \<Rightarrow> string list \<Rightarrow> Caveats \<Rightarrow> unit ToolResult" where
  "check_closure_inventory fs ms projection roots delegated =
     (let rc = prj_runtime_closure projection in
      if \<not> list_all concrete_only [ra_fs_read rc, ra_fs_write rc, ra_exec rc, ra_net rc]
      then Inl (denied ''runtime closure requires concrete finite paths/hosts; classes cannot prove inventory disjointness'' [])
      else if ra_exec rc \<noteq> mesh_empty ms \<or> ra_net rc \<noteq> mesh_empty ms
      then Inl (denied ''NamedRoot requires empty exec and net runtime closures'' [])
      else (case check_entries fs ''fs_read'' (cav_fs_read delegated) roots (concrete (ra_fs_read rc)) of
          Inl e \<Rightarrow> Inl e
        | Inr _ \<Rightarrow> check_entries fs ''fs_write'' (cav_fs_write delegated) roots (concrete (ra_fs_write rc))))"

subsection \<open>Named-root admission\<close>

fun check_axes :: "mesh \<Rightarrow> (string \<times> ResolvedScope \<times> string Scope \<times> ResolvedScope) list \<Rightarrow> unit ToolResult" where
  "check_axes ms [] = Inr ()"
| "check_axes ms ((axis, resolved, granted, closure) # rest) =
     (if mesh_relate ms resolved (mesh_union ms (mesh_from_scope ms granted) closure) \<in> {RelEqual, RelSubset}
      then check_axes ms rest
      else Inl (denied ''named-root {axis} authority refuses: {relation:?} (widening or unknown scope cannot inherit)'' [axis]))"

definition exec_names_root :: "Caveats \<Rightarrow> string \<Rightarrow> bool" where
  "exec_names_root delegated root =
     (case cav_exec delegated of ScopeOnly roots \<Rightarrow> root \<in> set roots | ScopeAll \<Rightarrow> False)"

definition validate_named_root ::
  "'file meta_os \<Rightarrow> mesh \<Rightarrow> host \<Rightarrow> Caveats \<Rightarrow> string \<Rightarrow> string list \<Rightarrow> ConfinementMechanism \<Rightarrow>
   BackendProjection \<Rightarrow> EnforcementFloor \<Rightarrow> unit ToolResult" where
  "validate_named_root fs ms h delegated root protected_roots mechanism projection floor =
     (let p = components root; res = prj_resolved projection; rc = prj_runtime_closure projection in
      if \<not> is_absolute p \<or> ParentDir \<in> set p \<or> \<not> exec_names_root delegated root
      then Inl (denied ''named-root admission requires an exact absolute root in the effective exec Only grant, without parent traversal'' [])
      else if m_exec_boundary mechanism \<noteq> NamedRoot \<or> m_kind mechanism \<noteq> Landlock
      then Inl (denied ''named-root admission requires its explicit supported native mechanism'' [])
      else (case check_closure_inventory fs ms projection protected_roots delegated of
          Inl e \<Rightarrow> Inl e
        | Inr _ \<Rightarrow>
            if ra_exec res \<noteq> Unbounded
            then Inl (denied ''named-root descendant exec projection must be explicitly Unbounded; bounded or unknown evidence refuses'' [])
            else (case check_axes ms
                [(''fs_read'', ra_fs_read res, cav_fs_read delegated, ra_fs_read rc),
                 (''fs_write'', ra_fs_write res, cav_fs_write delegated, ra_fs_write rc),
                 (''net'', ra_net res, cav_net delegated, ra_net rc)] of
                Inl e \<Rightarrow> Inl e
              | Inr _ \<Rightarrow>
                  (case unenforceable_axis h delegated mechanism (floor_join floor FLOOR_CONFINED) of
                     Some unmet \<Rightarrow> Inl (denied ''named-root admission refuses: {unmet}'' [])
                   | None \<Rightarrow> Inr ()))))"

definition body_fence_id :: "mesh \<Rightarrow> AdmittedFenceBody \<Rightarrow> bytes ToolResult" where
  "body_fence_id ms body =
     (case mesh_body_cid ms body of
        Inl e \<Rightarrow> Inl (denied ''cannot content-address the named-root fence: {error}'' [e])
      | Inr cid \<Rightarrow> Inr cid)"

definition body_verify ::
  "'file meta_os \<Rightarrow> mesh \<Rightarrow> host \<Rightarrow> AdmittedFenceBody \<Rightarrow> string \<Rightarrow> Caveats \<Rightarrow> string list \<Rightarrow> unit ToolResult" where
  "body_verify fs ms h body expected_root eff expected_protected_roots =
     (let mismatch = Inl (denied ''named-root evidence does not match the invocation root and effective authority'' []) in
      if body_root body \<noteq> expected_root \<or> body_effective body \<noteq> eff \<or>
         body_mechanism_caveats body \<noteq> body_effective body
      then mismatch
      else (case canonicalize_protected_roots fs expected_protected_roots of
          Inl e \<Rightarrow> Inl e
        | Inr roots \<Rightarrow>
            if body_protected_roots body \<noteq> roots then mismatch
            else validate_named_root fs ms h eff (body_root body) (body_protected_roots body)
                (body_mechanism body) (body_projection body) FLOOR_CONFINED))"

definition admit_named_root ::
  "'file meta_os \<Rightarrow> mesh \<Rightarrow> host \<Rightarrow> Caveats \<Rightarrow> string \<Rightarrow> string list \<Rightarrow> ConfinementMechanism \<Rightarrow>
   EnforcementFloor \<Rightarrow> (Caveats \<Rightarrow> BackendProjection) \<Rightarrow> AdmittedFence ToolResult" where
  "admit_named_root fs ms h delegated root protected_roots mechanism floor project =
     (case canonicalize_protected_roots fs protected_roots of
        Inl e \<Rightarrow> Inl e
      | Inr roots \<Rightarrow>
          (let projection = project delegated in
           case validate_named_root fs ms h delegated root roots mechanism projection floor of
             Inl e \<Rightarrow> Inl e
           | Inr _ \<Rightarrow>
               (let body = \<lparr>body_effective = delegated, body_mechanism_caveats = delegated,
                      body_root = root, body_mechanism = mechanism, body_projection = projection,
                      body_protected_roots = roots\<rparr>
                in case body_fence_id ms body of
                     Inl e \<Rightarrow> Inl e
                   | Inr fid \<Rightarrow>
                       Inr \<lparr>af_mechanism = mechanism, af_mechanism_caveats = delegated,
                         af_fence_id = fid, af_admitted_body = Some body\<rparr>)))"

definition verify_named_root_applied ::
  "'file meta_os \<Rightarrow> mesh \<Rightarrow> host \<Rightarrow> AdmittedFence \<Rightarrow> Caveats \<Rightarrow> string \<Rightarrow> string list \<Rightarrow>
   ConfinementMechanism \<Rightarrow> BackendProjection \<Rightarrow> unit ToolResult" where
  "verify_named_root_applied fs ms h fence applied actual_launch_root protected_roots mechanism fresh =
     (case af_admitted_body fence of
        None \<Rightarrow> Inl (denied ''ordinary fence cannot verify a named-root application'' [])
      | Some admitted \<Rightarrow>
          (case canonicalize_protected_roots fs protected_roots of
             Inl e \<Rightarrow> Inl e
           | Inr roots \<Rightarrow>
               (let actual = \<lparr>body_effective = body_effective admitted, body_mechanism_caveats = applied,
                      body_root = actual_launch_root, body_mechanism = mechanism,
                      body_projection = fresh, body_protected_roots = roots\<rparr>
                in case body_verify fs ms h actual (body_root admitted) (body_effective admitted)
                        (body_protected_roots admitted) of
                     Inl e \<Rightarrow> Inl e
                   | Inr _ \<Rightarrow>
                       (case body_fence_id ms actual of
                          Inl e \<Rightarrow> Inl e
                        | Inr fid \<Rightarrow>
                            if fid \<noteq> af_fence_id fence
                            then Inl (denied ''actual named-root application differs from the admitted fence CID'' [])
                            else Inr ()))))"

definition resolve_named_root_protected_roots ::
  "'file meta_os \<Rightarrow> string list option \<Rightarrow> string list ToolResult" where
  "resolve_named_root_protected_roots fs inventory =
     (case inventory of
        None \<Rightarrow> Inl (denied ''NamedRoot requires an explicit trusted protected-root inventory'' [])
      | Some roots \<Rightarrow> canonicalize_protected_roots fs roots)"

subsection \<open>Markers as sequences of path components\<close>

definition slashed :: "string list \<Rightarrow> string" where
  "slashed segs = concat (map (\<lambda>s. CHR ''/'' # s) segs)"

lemma slashed_simps [simp]:
  "slashed [] = []" "slashed (s # ss) = CHR ''/'' # s @ slashed ss" "slashed (a @ b) = slashed a @ slashed b"
  by (simp_all add: slashed_def)

lemma slashed_split: "slashed (split_slash t) = CHR ''/'' # t"
  by (induction t) (auto split: list.splits)

lemma slashed_end: "\<exists>r. slashed ss @ ''/'' = CHR ''/'' # r"
  by (cases ss) simp_all

lemma no_slash_split:
  assumes "m @ CHR ''/'' # r = s @ CHR ''/'' # r'" and "CHR ''/'' \<notin> set m" and "CHR ''/'' \<notin> set s"
  shows "m = s \<and> r = r'"
proof -
  have "takeWhile (\<lambda>c. c \<noteq> CHR ''/'') (m @ CHR ''/'' # r) = m"
    "takeWhile (\<lambda>c. c \<noteq> CHR ''/'') (s @ CHR ''/'' # r') = s"
    using assms(2,3) by (subst takeWhile_append2; force)+
  with assms(1) show ?thesis by simp
qed

lemma slashed_prefix:
  "slashed ms @ ''/'' @ y = slashed ss @ ''/'' \<Longrightarrow>
     (\<forall>m \<in> set ms. CHR ''/'' \<notin> set m) \<Longrightarrow> (\<forall>s \<in> set ss. CHR ''/'' \<notin> set s) \<Longrightarrow> prefix ms ss"
proof (induction ms arbitrary: ss)
  case (Cons m ms)
  show ?case
  proof (cases ss)
    case Nil
    with Cons.prems(1) show ?thesis by simp
  next
    case (Cons s ss')
    obtain r where r: "slashed ms @ ''/'' @ y = CHR ''/'' # r" by (cases ms) simp_all
    obtain r' where r': "slashed ss' @ ''/'' = CHR ''/'' # r'" using slashed_end by blast
    from Cons.prems(1) Cons have "m @ slashed ms @ ''/'' @ y = s @ slashed ss' @ ''/''" by simp
    then have "m @ CHR ''/'' # r = s @ CHR ''/'' # r'" by (simp only: r r')
    then have "m = s" "r = r'" using Cons.prems(2,3) Cons by (auto dest: no_slash_split)
    with r r' Cons.IH [of ss'] Cons.prems(2,3) Cons show ?thesis by simp
  qed
qed simp

lemma slashed_infix:
  "slashed ss @ ''/'' = x @ slashed ms @ ''/'' @ y \<Longrightarrow> ms \<noteq> [] \<Longrightarrow>
     (\<forall>m \<in> set ms. CHR ''/'' \<notin> set m) \<Longrightarrow> (\<forall>s \<in> set ss. CHR ''/'' \<notin> set s) \<Longrightarrow> sublist ms ss"
proof (induction ss arbitrary: x)
  case Nil
  then show ?case by (cases x; cases ms) auto
next
  case (Cons s ss)
  show ?case
  proof (cases x)
    case Nil
    with Cons.prems slashed_prefix [of ms y "s # ss"] show ?thesis by auto
  next
    case (Cons c x')
    obtain r where r: "slashed ms @ ''/'' @ y = CHR ''/'' # r" by (cases ms) simp_all
    from Cons.prems(1) Cons have eq: "s @ slashed ss @ ''/'' = x' @ slashed ms @ ''/'' @ y" by auto
    then obtain us where "s = x' @ us \<and> us @ slashed ss @ ''/'' = CHR ''/'' # r \<or>
        s @ us = x' \<and> slashed ss @ ''/'' = us @ CHR ''/'' # r"
      unfolding r by (auto simp: append_eq_append_conv2)
    then show ?thesis
    proof
      assume us: "s = x' @ us \<and> us @ slashed ss @ ''/'' = CHR ''/'' # r"
      with Cons.prems(4) have "us = []" by (cases us) auto
      with us eq Cons.IH [of "[]"] Cons.prems(2-4) show ?thesis by (auto simp: sublist_Cons_right)
    next
      assume us: "s @ us = x' \<and> slashed ss @ ''/'' = us @ CHR ''/'' # r"
      then have "slashed ss @ ''/'' = us @ slashed ms @ ''/'' @ y" by (simp only: r)
      with Cons.IH [of us] Cons.prems(2-4) show ?thesis by (auto simp: sublist_Cons_right)
    qed
  qed
qed

lemma sublist_slashed:
  assumes "ms \<noteq> []" and "\<forall>m \<in> set ms. CHR ''/'' \<notin> set m" and "\<forall>s \<in> set ss. CHR ''/'' \<notin> set s"
  shows "sublist (slashed ms @ ''/'') (slashed ss @ ''/'') \<longleftrightarrow> sublist ms ss"
proof
  assume "sublist (slashed ms @ ''/'') (slashed ss @ ''/'')"
  then obtain x y where "slashed ss @ ''/'' = x @ slashed ms @ ''/'' @ y" by (auto simp: sublist_def)
  with assms show "sublist ms ss" by (intro slashed_infix)
next
  assume "sublist ms ss"
  then obtain a b where ss: "ss = a @ ms @ b" by (auto simp: sublist_def)
  obtain r where r: "slashed b @ ''/'' = CHR ''/'' # r" using slashed_end by blast
  have "slashed ss @ ''/'' = slashed a @ (slashed ms @ ''/'') @ r"
    using ss r by simp
  then show "sublist (slashed ms @ ''/'') (slashed ss @ ''/'')" by (auto simp: sublist_def)
qed

definition segments :: "string \<Rightarrow> string list" where
  "segments s = split_slash (trim_slashes s)"

lemma padded_slashed: "padded s = slashed (segments s) @ ''/''"
  by (simp add: padded_def segments_def slashed_split)

lemma segments_no_slash: "seg \<in> set (segments s) \<Longrightarrow> CHR ''/'' \<notin> set seg"
  by (simp add: segments_def split_slash_no_slash)

lemma segments_nonempty: "segments s \<noteq> []"
proof -
  have "split_slash t \<noteq> []" for t by (cases t) (auto split: list.splits)
  then show ?thesis by (simp add: segments_def)
qed

lemma reaches_private_iff:
  "entry_reaches_harness_private entry \<longleftrightarrow>
     (\<exists>marker \<in> set HARNESS_PRIVATE_MARKERS. sublist (segments marker) (segments entry))"
  unfolding entry_reaches_harness_private_def padded_slashed list_ex_iff
  using sublist_slashed [OF segments_nonempty] segments_no_slash by blast

subsection \<open>Built closures\<close>

inductive closure_built :: "RuntimeClosure \<Rightarrow> bool" where
  empty: "closure_built closure_empty"
| exec: "closure_built rc \<Longrightarrow> with_exec program rc = Inr rc' \<Longrightarrow> closure_built rc'"
| fs_read: "closure_built rc \<Longrightarrow> with_fs_read p rc = Inr rc' \<Longrightarrow> closure_built rc'"

lemma closure_built_disjoint:
  "closure_built rc \<Longrightarrow>
     (\<forall>e \<in> set (rc_exec rc) \<union> set (rc_fs_read rc). \<not> entry_reaches_harness_private e) \<and>
     btree_wf (rc_exec rc) \<and> btree_wf (rc_fs_read rc)"
  by (induction rule: closure_built.induct)
    (auto simp: closure_empty_def with_exec_def with_fs_read_def require_harness_disjoint_def btree_wf_def
      [of "[]"] split: if_splits)

lemma scope_has_extend:
  "scope_has (extend_only s xs) x \<longleftrightarrow> scope_has s x \<or> x \<in> set xs"
  by (cases s) (auto simp: extend_only_def)

lemma admit_fence_Inr:
  "admit_fence ms h delegated closure mechanism floor project = Inr fence \<longleftrightarrow>
     m_exec_boundary mechanism = ProcessTree \<and>
     (let c = derive_mechanism_caveats delegated closure; prj = project c in
      closure_is_harness_disjoint (prj_runtime_closure prj) \<and>
      mesh_admit ms (prj_resolved prj) delegated (prj_runtime_closure prj) = Admit \<and>
      unenforceable_axis h delegated mechanism floor = None \<and>
      (\<exists>fid. mesh_fence_cid ms (c, mechanism) = Inr fid \<and>
         fence = \<lparr>af_mechanism = mechanism, af_mechanism_caveats = c, af_fence_id = fid,
           af_admitted_body = None\<rparr>))"
  by (auto simp: admit_fence_def compute_fence_id_def Let_def
      split: AdmissionDecision.splits option.splits sum.splits)

subsection \<open>The inventory check\<close>

definition covered :: "'file meta_os \<Rightarrow> string Scope \<Rightarrow> path \<Rightarrow> bool" where
  "covered fs scope p \<longleftrightarrow> scope = ScopeAll \<or>
     (\<exists>granted entry c. scope = ScopeOnly granted \<and> entry \<in> set granted \<and> canonical_path fs entry = Inr c \<and>
        path_is_within p (components c))"

lemma covered_by_True:
  "covered_by fs p granted = Inr True \<Longrightarrow>
     \<exists>entry \<in> set granted. \<exists>c. canonical_path fs entry = Inr c \<and> path_is_within p (components c)"
  by (induction granted) (auto split: sum.splits if_splits)

lemma explicitly_covers_True: "explicitly_covers fs scope p = Inr True \<Longrightarrow> covered fs scope p"
  using covered_by_True [of fs p] by (cases scope) (fastforce simp: explicitly_covers_def covered_def)+

lemma check_roots_ok:
  "check_roots fs axis granted p roots = Inr () \<Longrightarrow> root \<in> set roots \<Longrightarrow>
     root_intersection p (components root) = Some i \<Longrightarrow> covered fs granted i"
  by (induction roots)
    (auto split: option.splits sum.splits bool.splits intro: explicitly_covers_True)

lemma check_entries_ok:
  "check_entries fs axis granted roots entries = Inr () \<Longrightarrow> entry \<in> set entries \<Longrightarrow>
     \<exists>c. canonical_path fs entry = Inr c \<and>
       (\<forall>root \<in> set roots. \<forall>i. root_intersection (components c) (components root) = Some i \<longrightarrow> covered fs granted i)"
  by (induction entries) (auto split: sum.splits intro: check_roots_ok)

text \<open>What an axis of the closure may add next to the inventory.\<close>

definition inventory_respected ::
  "'file meta_os \<Rightarrow> string list \<Rightarrow> string Scope \<Rightarrow> ResolvedScope \<Rightarrow> bool" where
  "inventory_respected fs roots granted scope \<longleftrightarrow>
     (\<exists>entries. scope = Bounded entries [] \<and> (\<forall>entry \<in> set entries. \<exists>c. canonical_path fs entry = Inr c \<and>
        (\<forall>root \<in> set roots.
           (path_is_within (components c) (components root) \<longrightarrow> covered fs granted (components c)) \<and>
           (path_is_within (components root) (components c) \<longrightarrow> covered fs granted (components root)))))"

lemma root_intersection_both:
  assumes "\<forall>i. root_intersection p q = Some i \<longrightarrow> P i"
  shows "(path_is_within p q \<longrightarrow> P p) \<and> (path_is_within q p \<longrightarrow> P q)"
proof -
  have "path_is_within p q \<Longrightarrow> path_is_within q p \<Longrightarrow> p = q"
    by (auto simp: path_is_within_def intro: prefix_order.antisym)
  with assms show ?thesis
    by (cases "path_is_within p q"; cases "path_is_within q p") (auto simp: root_intersection_def)
qed

lemma check_entries_inventory:
  assumes "check_entries fs axis granted roots (concrete scope) = Inr ()" and "concrete_only scope"
  shows "inventory_respected fs roots granted scope"
proof -
  from assms(2) obtain entries where s: "scope = Bounded entries []"
    by (cases scope) (auto simp: concrete_only_def)
  have "\<exists>c. canonical_path fs entry = Inr c \<and> (\<forall>root \<in> set roots.
        (path_is_within (components c) (components root) \<longrightarrow> covered fs granted (components c)) \<and>
        (path_is_within (components root) (components c) \<longrightarrow> covered fs granted (components root)))"
    if "entry \<in> set entries" for entry
  proof -
    from that obtain c where "canonical_path fs entry = Inr c" and
      "\<forall>root \<in> set roots. \<forall>i. root_intersection (components c) (components root) = Some i \<longrightarrow> covered fs granted i"
      using check_entries_ok [OF assms(1), of entry] s by auto
    then show ?thesis
      by (intro exI [of _ c] conjI ballI root_intersection_both [where P = "covered fs granted"]) auto
  qed
  with s show ?thesis by (auto simp: inventory_respected_def)
qed

lemma validate_named_root_Inr:
  assumes "validate_named_root fs ms h delegated root roots mechanism projection floor = Inr ()"
  shows "is_absolute (components root) \<and> ParentDir \<notin> set (components root) \<and>
    exec_names_root delegated root \<and> m_exec_boundary mechanism = NamedRoot \<and> m_kind mechanism = Landlock \<and>
    ra_exec (prj_runtime_closure projection) = mesh_empty ms \<and>
    ra_net (prj_runtime_closure projection) = mesh_empty ms \<and>
    inventory_respected fs roots (cav_fs_read delegated) (ra_fs_read (prj_runtime_closure projection)) \<and>
    inventory_respected fs roots (cav_fs_write delegated) (ra_fs_write (prj_runtime_closure projection)) \<and>
    unenforceable_axis h delegated mechanism (floor_join floor FLOOR_CONFINED) = None"
proof -
  from assms have inv: "check_closure_inventory fs ms projection roots delegated = Inr ()"
    by (auto simp: validate_named_root_def Let_def split: if_splits sum.splits)
  then have "check_entries fs ''fs_read'' (cav_fs_read delegated) roots
      (concrete (ra_fs_read (prj_runtime_closure projection))) = Inr ()"
    "check_entries fs ''fs_write'' (cav_fs_write delegated) roots
      (concrete (ra_fs_write (prj_runtime_closure projection))) = Inr ()"
    "concrete_only (ra_fs_read (prj_runtime_closure projection))"
    "concrete_only (ra_fs_write (prj_runtime_closure projection))"
    "ra_exec (prj_runtime_closure projection) = mesh_empty ms"
    "ra_net (prj_runtime_closure projection) = mesh_empty ms"
    by (auto simp: check_closure_inventory_def Let_def split: if_splits sum.splits)
  with assms show ?thesis
    by (auto simp: validate_named_root_def Let_def split: if_splits sum.splits option.splits
        intro: check_entries_inventory)
qed

subsection \<open>Properties\<close>

text \<open>C15. What ordinary admission hands out is bounded: a fence is admitted only when the backend's
  projection of exactly the caveats it will apply passed the scope bound against the grant and a
  harness-disjoint closure, and every restricted axis of the grant meets the floor; the applied
  caveats differ from the grant only by declared entries on \<open>exec\<close> and \<open>fs_read\<close>, none of which has
  a harness-private store among its consecutive path components; nothing of the grant is lost.\<close>
theorem admitted_fence_is_bounded:
  assumes "admit_fence ms h delegated closure mechanism floor project = Inr fence"
    and "closure_built closure"
  shows "let c = af_mechanism_caveats fence; prj = project c in
    mesh_admit ms (prj_resolved prj) delegated (prj_runtime_closure prj) = Admit \<and>
    closure_is_harness_disjoint (prj_runtime_closure prj) \<and>
    unenforceable_axis h delegated mechanism floor = None \<and>
    (\<forall>x. scope_has (cav_exec c) x \<longleftrightarrow> scope_has (cav_exec delegated) x \<or> x \<in> set (rc_exec closure)) \<and>
    (\<forall>x. scope_has (cav_fs_read c) x \<longleftrightarrow> scope_has (cav_fs_read delegated) x \<or> x \<in> set (rc_fs_read closure)) \<and>
    c\<lparr>cav_exec := cav_exec delegated, cav_fs_read := cav_fs_read delegated\<rparr> = delegated \<and>
    (\<forall>x \<in> set (rc_exec closure) \<union> set (rc_fs_read closure). \<forall>marker \<in> set HARNESS_PRIVATE_MARKERS.
       \<not> sublist (segments marker) (segments x))"
  using assms(1) closure_built_disjoint [OF assms(2)]
  by (auto simp: admit_fence_Inr Let_def derive_mechanism_caveats_def scope_has_extend reaches_private_iff)

text \<open>What was admitted is what is applied: the check between admission and application accepts
  the admitted caveats themselves, and accepts other caveats only when two different fence bodies
  have one content identifier; a named-root fence is never accepted by the ordinary check.\<close>
theorem admitted_is_what_is_applied:
  assumes "admit_fence ms h delegated closure mechanism floor project = Inr fence"
  shows "verify_applied ms fence (af_mechanism_caveats fence) = Inr () \<and>
    (verify_applied ms fence applied = Inr () \<longrightarrow> applied = af_mechanism_caveats fence \<or>
       ((applied, mechanism) \<noteq> (af_mechanism_caveats fence, mechanism) \<and>
        mesh_fence_cid ms (applied, mechanism) = mesh_fence_cid ms (af_mechanism_caveats fence, mechanism))) \<and>
    \<not> is_ok (verify_applied ms (fence\<lparr>af_admitted_body := Some body\<rparr>) applied)"
  using assms
  by (auto simp: admit_fence_Inr Let_def verify_applied_def compute_fence_id_def split: sum.splits if_splits)

definition toy_mesh :: mesh where
  "toy_mesh = \<lparr>mesh_admit = (\<lambda>_ _ _. Admit), mesh_relate = (\<lambda>_ _. RelSubset),
     mesh_from_scope = (\<lambda>s. case s of ScopeAll \<Rightarrow> Unbounded | ScopeOnly xs \<Rightarrow> Bounded xs []),
     mesh_union = (\<lambda>a b. a), mesh_empty = Bounded [] [],
     mesh_fence_cid = (\<lambda>(c, m). Inr (if cav_exec c = ScopeAll then [0] else [1])),
     mesh_body_cid = (\<lambda>b. Inr (str_bytes (body_root b)))\<rparr>"

definition toy_projection :: BackendProjection where
  "toy_projection = \<lparr>prj_resolved = \<lparr>ra_fs_read = Bounded [] [], ra_fs_write = Bounded [] [],
       ra_exec = Unbounded, ra_net = Bounded [] []\<rparr>,
     prj_runtime_closure = \<lparr>ra_fs_read = Bounded [''/usr/lib''] [], ra_fs_write = Bounded [] [],
       ra_exec = Bounded [] [], ra_net = Bounded [] []\<rparr>\<rparr>"

definition worker_closure :: RuntimeClosure where
  "worker_closure = \<lparr>rc_exec = [''/opt/newt-tools/worker''], rc_fs_read = []\<rparr>"

definition worker_grant :: Caveats where
  "worker_grant = caveats_top\<lparr>cav_exec := ScopeOnly [''git'']\<rparr>"

lemma worker_closure_built: "closure_built worker_closure"
proof -
  have "\<not> entry_reaches_harness_private ''/opt/newt-tools/worker''" by code_simp
  then have "with_exec ''/opt/newt-tools/worker'' closure_empty = Inr worker_closure"
    by (simp add: with_exec_def require_harness_disjoint_def closure_empty_def worker_closure_def
        btree_insert_def)
  with closure_built.empty show ?thesis by (rule closure_built.exec)
qed

lemma worker_fence:
  "\<exists>fence. admit_fence toy_mesh plain_host worker_grant worker_closure (mechanism_new Landlock DenyDirect)
     FLOOR_DEFAULT (\<lambda>_. toy_projection) = Inr fence"
proof -
  have "is_ok (admit_fence toy_mesh plain_host worker_grant worker_closure (mechanism_new Landlock DenyDirect)
     FLOOR_DEFAULT (\<lambda>_. toy_projection))" by code_simp
  then show ?thesis by (simp add: is_ok_iff)
qed

theorem admitted_fence_is_bounded_witness:
  "\<exists>fence. admit_fence toy_mesh plain_host worker_grant worker_closure (mechanism_new Landlock DenyDirect)
       FLOOR_DEFAULT (\<lambda>_. toy_projection) = Inr fence \<and>
     scope_has (cav_exec (af_mechanism_caveats fence)) ''/opt/newt-tools/worker'' \<and>
     \<not> scope_has (cav_exec (af_mechanism_caveats fence)) ''rm''"
proof -
  obtain fence where f: "admit_fence toy_mesh plain_host worker_grant worker_closure
      (mechanism_new Landlock DenyDirect) FLOOR_DEFAULT (\<lambda>_. toy_projection) = Inr fence"
    using worker_fence by blast
  with admitted_fence_is_bounded [OF f worker_closure_built] show ?thesis
    by (auto simp: Let_def worker_closure_def worker_grant_def)
qed

theorem admitted_is_what_is_applied_witness:
  "\<exists>fence. admit_fence toy_mesh plain_host worker_grant worker_closure (mechanism_new Landlock DenyDirect)
       FLOOR_DEFAULT (\<lambda>_. toy_projection) = Inr fence \<and>
     verify_applied toy_mesh fence (af_mechanism_caveats fence) = Inr () \<and>
     verify_applied toy_mesh fence caveats_top \<noteq> Inr ()"
proof -
  obtain fence where f: "admit_fence toy_mesh plain_host worker_grant worker_closure
      (mechanism_new Landlock DenyDirect) FLOOR_DEFAULT (\<lambda>_. toy_projection) = Inr fence"
    using worker_fence by blast
  then have "af_mechanism_caveats fence = derive_mechanism_caveats worker_grant worker_closure"
    by (auto simp: admit_fence_Inr Let_def)
  then have "cav_exec (af_mechanism_caveats fence) \<noteq> ScopeAll"
    by (simp add: derive_mechanism_caveats_def worker_grant_def extend_only_def)
  moreover have "cav_exec caveats_top = ScopeAll" by (simp add: caveats_top_def)
  ultimately have "caveats_top \<noteq> af_mechanism_caveats fence" and
    "mesh_fence_cid toy_mesh (caveats_top, m) \<noteq> mesh_fence_cid toy_mesh (af_mechanism_caveats fence, m)" for m
    by (auto simp: toy_mesh_def)
  with f admitted_is_what_is_applied [OF f, of caveats_top] show ?thesis by blast
qed

text \<open>A named-root fence adds nothing to the grant and is checked against the recorded
  inventory: it is admitted only for an absolute root, free of parent steps, that the \<open>exec\<close> grant
  names literally, under the Landlock named-root mechanism, with no \<open>exec\<close> or \<open>net\<close> closure, with
  every filesystem entry of the closure that touches a protected root covered by the grant at
  exactly the touched place, and at least at the confined floor; and a later application check
  passes only for that root, those caveats, and the same inventory.\<close>
theorem named_root_admission_sound:
  assumes "admit_named_root fs ms h delegated root inventory mechanism floor project = Inr fence"
  shows "\<exists>roots. canonicalize_protected_roots fs inventory = Inr roots \<and> inventory \<noteq> [] \<and>
    is_absolute (components root) \<and> ParentDir \<notin> set (components root) \<and> exec_names_root delegated root \<and>
    m_kind mechanism = Landlock \<and> m_exec_boundary mechanism = NamedRoot \<and>
    af_mechanism_caveats fence = delegated \<and>
    (let rc = prj_runtime_closure (project delegated) in
       ra_exec rc = mesh_empty ms \<and> ra_net rc = mesh_empty ms \<and>
       inventory_respected fs roots (cav_fs_read delegated) (ra_fs_read rc) \<and>
       inventory_respected fs roots (cav_fs_write delegated) (ra_fs_write rc)) \<and>
    unenforceable_axis h delegated mechanism FLOOR_CONFINED = None \<and>
    unenforceable_axis h delegated mechanism floor = None \<and>
    (verify_named_root_applied fs2 ms h fence applied root2 inventory2 mechanism2 fresh = Inr () \<longrightarrow>
       applied = delegated \<and> root2 = root \<and> canonicalize_protected_roots fs2 inventory2 =
         canonicalize_protected_roots fs2 roots)"
proof -
  from assms obtain roots where roots: "canonicalize_protected_roots fs inventory = Inr roots"
    and valid: "validate_named_root fs ms h delegated root roots mechanism (project delegated) floor = Inr ()"
    and fence: "af_mechanism_caveats fence = delegated"
      "af_admitted_body fence = Some \<lparr>body_effective = delegated, body_mechanism_caveats = delegated,
         body_root = root, body_mechanism = mechanism, body_projection = project delegated,
         body_protected_roots = roots\<rparr>"
    by (auto simp: admit_named_root_def Let_def split: sum.splits)
  have "applied = delegated \<and> root2 = root \<and>
      canonicalize_protected_roots fs2 inventory2 = canonicalize_protected_roots fs2 roots"
    if "verify_named_root_applied fs2 ms h fence applied root2 inventory2 mechanism2 fresh = Inr ()"
    using that fence
    by (auto simp: verify_named_root_applied_def body_verify_def Let_def split: sum.splits if_splits)
  moreover from roots have "inventory \<noteq> []" by (auto simp: canonicalize_protected_roots_def)
  ultimately show ?thesis
    using validate_named_root_Inr [OF valid] roots fence(1)
    by (intro exI [of _ roots]) (simp add: Let_def unenforceable_join)
qed

definition linux_fs :: "unit meta_os" where
  "linux_fs = \<lparr>os_canonicalize = Inr, os_exists = (\<lambda>_. True), os_plain_open = (\<lambda>_ _. Inr ()),
     os_beneath_open = (\<lambda>_ _ _. Inr ()), os_is_refusal = (\<lambda>_. False),
     os_symlink_meta = (\<lambda>_. Inr False), os_utf8 = (\<lambda>_. True)\<rparr>"

definition root_grant :: Caveats where
  "root_grant = caveats_top\<lparr>cav_exec := ScopeOnly [''/usr/bin/git''], cav_fs_read := ScopeOnly [''/w'']\<rparr>"

theorem named_root_admission_sound_witness:
  "\<exists>fence. admit_named_root linux_fs toy_mesh plain_host root_grant ''/usr/bin/git'' [''/home/u/.newt'']
       (for_named_root Landlock DenyDirect) FLOOR_DEFAULT (\<lambda>_. toy_projection) = Inr fence \<and>
     af_mechanism_caveats fence = root_grant \<and>
     unenforceable_axis plain_host root_grant (for_named_root Landlock DenyDirect) FLOOR_CONFINED = None \<and>
     \<not> is_ok (admit_named_root linux_fs toy_mesh plain_host root_grant ''/usr/bin/git'' [''/usr/lib/secret'']
       (for_named_root Landlock DenyDirect) FLOOR_DEFAULT (\<lambda>_. toy_projection))"
proof -
  have "is_ok (admit_named_root linux_fs toy_mesh plain_host root_grant ''/usr/bin/git'' [''/home/u/.newt'']
       (for_named_root Landlock DenyDirect) FLOOR_DEFAULT (\<lambda>_. toy_projection))"
    and no: "\<not> is_ok (admit_named_root linux_fs toy_mesh plain_host root_grant ''/usr/bin/git'' [''/usr/lib/secret'']
       (for_named_root Landlock DenyDirect) FLOOR_DEFAULT (\<lambda>_. toy_projection))"
    by code_simp+
  then obtain fence where f: "admit_named_root linux_fs toy_mesh plain_host root_grant ''/usr/bin/git''
      [''/home/u/.newt''] (for_named_root Landlock DenyDirect) FLOOR_DEFAULT (\<lambda>_. toy_projection) = Inr fence"
    by (auto simp: is_ok_iff)
  from named_root_admission_sound [OF f] f no show ?thesis by blast
qed

text \<open>The marker test compares segments as written: doubling the separator inside a marker hides it,
  so the test relies on its callers passing canonical paths.
\<close>

lemma doubled_slash_hides_marker:
  "entry_reaches_harness_private ''/home/u/.config/gh/hosts.yml'' \<and>
   \<not> entry_reaches_harness_private ''/home/u/.config//gh/hosts.yml''"
  by code_simp

end
