(* ===== verification/Execution_Contract.thy ===== *)
theory Execution_Contract
  imports Admitted_Fence
begin

text \<open>
  The vocabulary of a managed execution (\<^verbatim>\<open>execution/contract.rs\<close>): validated limits and their
  wire form, the request and its hard ceilings, the evidence records, the events of the stream, and
  the bounds every variable-sized field deserializes through. A \<^verbatim>\<open>Duration\<close> is its number of
  nanoseconds, a \<^verbatim>\<open>usize\<close> a \<^typ>\<open>nat\<close> with the 64-bit maximum written out where the code
  checks for overflow.
\<close>

subsection \<open>Ceilings\<close>

definition MAX_QUEUED_EVENTS_CEILING :: nat where "MAX_QUEUED_EVENTS_CEILING = 65536"

definition MAX_QUEUED_OUTPUT_BYTES_CEILING :: nat where
  "MAX_QUEUED_OUTPUT_BYTES_CEILING = 64 * 1024 * 1024"

definition MAX_OUTPUT_CHUNK_BYTES_CEILING :: nat where "MAX_OUTPUT_CHUNK_BYTES_CEILING = 1024 * 1024"

definition MAX_STDIN_BYTES_CEILING :: nat where "MAX_STDIN_BYTES_CEILING = 16 * 1024 * 1024"

definition MAX_ARGV_ENTRIES :: nat where "MAX_ARGV_ENTRIES = 4096"

definition MAX_ARG_BYTES :: nat where "MAX_ARG_BYTES = 128 * 1024"

definition MAX_ENV_ENTRIES :: nat where "MAX_ENV_ENTRIES = 4096"

type_synonym duration = nat

definition from_secs :: "nat \<Rightarrow> duration" where "from_secs s = s * 1000000000"

definition from_millis :: "nat \<Rightarrow> duration" where "from_millis ms = ms * 1000000"

definition as_millis :: "duration \<Rightarrow> nat" where "as_millis d = d div 1000000"

definition MAX_GRACE :: duration where "MAX_GRACE = from_secs 600"

definition usize_max :: nat where "usize_max = 2 ^ 64 - 1"

definition checked_mul :: "nat \<Rightarrow> nat \<Rightarrow> nat option" where
  "checked_mul a b = (if a * b \<le> usize_max then Some (a * b) else None)"

definition checked_add :: "nat \<Rightarrow> nat \<Rightarrow> nat option" where
  "checked_add a b = (if a + b \<le> usize_max then Some (a + b) else None)"

lemmas ceiling_defs =
  MAX_QUEUED_EVENTS_CEILING_def MAX_QUEUED_OUTPUT_BYTES_CEILING_def MAX_OUTPUT_CHUNK_BYTES_CEILING_def
  MAX_STDIN_BYTES_CEILING_def MAX_ARGV_ENTRIES_def MAX_ARG_BYTES_def MAX_ENV_ENTRIES_def
  MAX_GRACE_def from_secs_def usize_max_def

subsection \<open>Limits\<close>

record ExecutionLimits =
  max_queued_events :: nat
  max_queued_output_bytes :: nat
  max_output_chunk_bytes :: nat
  cancel_grace :: duration
  reap_grace :: duration

record RawExecutionLimits =
  raw_max_queued_events :: nat
  raw_max_queued_output_bytes :: nat
  raw_max_output_chunk_bytes :: nat
  raw_cancel_grace_ms :: nat
  raw_reap_grace_ms :: nat

definition check_bound :: "string \<Rightarrow> nat \<Rightarrow> nat \<Rightarrow> unit ToolResult" where
  "check_bound field value ceiling =
     (if value = 0 then Inl (denied ''{field} must be greater than zero'' [field])
      else if value > ceiling
      then Inl (denied ''{field} = {value} exceeds the repository ceiling of {ceiling}'' [field])
      else Inr ())"

definition limits_new :: "nat \<Rightarrow> nat \<Rightarrow> nat \<Rightarrow> duration \<Rightarrow> duration \<Rightarrow> ExecutionLimits ToolResult" where
  "limits_new events output_bytes chunk cancel reap =
     (case check_bound ''max_queued_events'' events MAX_QUEUED_EVENTS_CEILING of
        Inl e \<Rightarrow> Inl e
      | Inr _ \<Rightarrow>
     (case check_bound ''max_queued_output_bytes'' output_bytes MAX_QUEUED_OUTPUT_BYTES_CEILING of
        Inl e \<Rightarrow> Inl e
      | Inr _ \<Rightarrow>
     (case check_bound ''max_output_chunk_bytes'' chunk MAX_OUTPUT_CHUNK_BYTES_CEILING of
        Inl e \<Rightarrow> Inl e
      | Inr _ \<Rightarrow>
          if cancel > MAX_GRACE \<or> reap > MAX_GRACE
          then Inl (denied ''execution grace periods exceed the {MAX_GRACE:?} ceiling'' [])
          else (case checked_mul events chunk of
              None \<Rightarrow> Inl (denied ''execution limits overflow: max_queued_events * max_output_chunk_bytes'' [])
            | Some _ \<Rightarrow>
                Inr \<lparr>max_queued_events = events, max_queued_output_bytes = output_bytes,
                  max_output_chunk_bytes = chunk, cancel_grace = cancel, reap_grace = reap\<rparr>))))"

definition limits_try_from :: "RawExecutionLimits \<Rightarrow> ExecutionLimits ToolResult" where
  "limits_try_from raw =
     limits_new (raw_max_queued_events raw) (raw_max_queued_output_bytes raw)
       (raw_max_output_chunk_bytes raw) (from_millis (raw_cancel_grace_ms raw))
       (from_millis (raw_reap_grace_ms raw))"

definition millis_u64 :: "duration \<Rightarrow> nat" where
  "millis_u64 d = (if as_millis d \<le> 2 ^ 64 - 1 then as_millis d else 2 ^ 64 - 1)"

definition raw_from :: "ExecutionLimits \<Rightarrow> RawExecutionLimits" where
  "raw_from limits =
     \<lparr>raw_max_queued_events = max_queued_events limits,
      raw_max_queued_output_bytes = max_queued_output_bytes limits,
      raw_max_output_chunk_bytes = max_output_chunk_bytes limits,
      raw_cancel_grace_ms = millis_u64 (cancel_grace limits),
      raw_reap_grace_ms = millis_u64 (reap_grace limits)\<rparr>"

text \<open>\<^verbatim>\<open>Default\<close> unwraps \<open>limits_new\<close> on these values; \<open>limits_default_ok\<close> shows it never panics.\<close>

definition limits_default :: ExecutionLimits where
  "limits_default =
     (case limits_new 4096 (8 * 1024 * 1024) (64 * 1024) (from_secs 5) (from_secs 2) of
        Inr l \<Rightarrow> l
      | Inl _ \<Rightarrow> undefined)"

definition limits_wf :: "ExecutionLimits \<Rightarrow> bool" where
  "limits_wf l \<longleftrightarrow>
     0 < max_queued_events l \<and> max_queued_events l \<le> MAX_QUEUED_EVENTS_CEILING \<and>
     0 < max_queued_output_bytes l \<and> max_queued_output_bytes l \<le> MAX_QUEUED_OUTPUT_BYTES_CEILING \<and>
     0 < max_output_chunk_bytes l \<and> max_output_chunk_bytes l \<le> MAX_OUTPUT_CHUNK_BYTES_CEILING \<and>
     cancel_grace l \<le> MAX_GRACE \<and> reap_grace l \<le> MAX_GRACE"

subsection \<open>Requests\<close>

datatype ExecutionStdin = StdinNull | StdinBytes bytes

record ExecutionRequest =
  req_executable :: string
  req_argv :: "string list"
  req_cwd :: "string option"
  req_env :: "(string \<times> string) list"
  req_stdin :: ExecutionStdin
  req_limits :: ExecutionLimits

definition execution_request_new :: "string \<Rightarrow> ExecutionRequest" where
  "execution_request_new executable =
     \<lparr>req_executable = executable, req_argv = [], req_cwd = None, req_env = [],
      req_stdin = StdinNull, req_limits = limits_default\<rparr>"

definition request_arg :: "string \<Rightarrow> ExecutionRequest \<Rightarrow> ExecutionRequest" where
  "request_arg arg r = r\<lparr>req_argv := req_argv r @ [arg]\<rparr>"

definition request_args :: "string list \<Rightarrow> ExecutionRequest \<Rightarrow> ExecutionRequest" where
  "request_args args r = r\<lparr>req_argv := req_argv r @ args\<rparr>"

definition request_cwd :: "string \<Rightarrow> ExecutionRequest \<Rightarrow> ExecutionRequest" where
  "request_cwd dir r = r\<lparr>req_cwd := Some dir\<rparr>"

definition request_env :: "string \<Rightarrow> string \<Rightarrow> ExecutionRequest \<Rightarrow> ExecutionRequest" where
  "request_env key value r = r\<lparr>req_env := req_env r @ [(key, value)]\<rparr>"

definition request_stdin :: "ExecutionStdin \<Rightarrow> ExecutionRequest \<Rightarrow> ExecutionRequest" where
  "request_stdin stdin r = r\<lparr>req_stdin := stdin\<rparr>"

definition request_limits :: "ExecutionLimits \<Rightarrow> ExecutionRequest \<Rightarrow> ExecutionRequest" where
  "request_limits limits r = r\<lparr>req_limits := limits\<rparr>"

definition request_validate :: "ExecutionRequest \<Rightarrow> unit ToolResult" where
  "request_validate r =
     (if req_executable r = [] then Inl (denied ''execution request names no executable'' [])
      else if length (req_executable r) > MAX_ARG_BYTES
      then Inl (denied ''execution executable exceeds the argument bound'' [])
      else if length (req_argv r) > MAX_ARGV_ENTRIES
      then Inl (denied ''execution argv exceeds the argument-count bound'' [])
      else if list_ex (\<lambda>a. length a > MAX_ARG_BYTES) (req_argv r)
      then Inl (denied ''an execution argument exceeds the argument bound'' [])
      else if length (req_env r) > MAX_ENV_ENTRIES
      then Inl (denied ''execution env exceeds the entry-count bound'' [])
      else if list_ex (\<lambda>(k, v). length k > MAX_ARG_BYTES \<or> length v > MAX_ARG_BYTES) (req_env r)
      then Inl (denied ''an execution env entry exceeds the argument bound'' [])
      else (case req_stdin r of
          StdinBytes bytes \<Rightarrow>
            if length bytes > MAX_STDIN_BYTES_CEILING
            then Inl (denied ''execution stdin exceeds the stdin bound'' []) else Inr ()
        | StdinNull \<Rightarrow> Inr ()))"

subsection \<open>Evidence and events\<close>

datatype DenialKind = DenyExec | DenyOpen | DenyNet

record Denial =
  dn_kind :: DenialKind
  dn_target :: string
  dn_reason :: reason

record DroppedEvidence =
  stdout_bytes :: u64
  stderr_bytes :: u64
  dropped_events :: u64

definition no_drops :: DroppedEvidence where
  "no_drops = \<lparr>stdout_bytes = 0, stderr_bytes = 0, dropped_events = 0\<rparr>"

definition dropped_is_empty :: "DroppedEvidence \<Rightarrow> bool" where
  "dropped_is_empty d \<longleftrightarrow> stdout_bytes d = 0 \<and> stderr_bytes d = 0 \<and> dropped_events d = 0"

record FenceEvidence =
  fe_fence_id :: bytes
  fe_sandbox_kind :: SandboxKind
  fe_egress_proxied :: bool
  fe_admitted :: "AdmittedFenceBody option"

definition verify_named_root ::
  "'file meta_os \<Rightarrow> mesh \<Rightarrow> host \<Rightarrow> FenceEvidence \<Rightarrow> string \<Rightarrow> Caveats \<Rightarrow> string list \<Rightarrow>
   AdmittedFenceBody ToolResult" where
  "verify_named_root fs ms h ev expected_root eff protected_roots =
     (case fe_admitted ev of
        None \<Rightarrow> Inl (denied ''named-root evidence lacks its admitted body'' [])
      | Some body \<Rightarrow>
          (case body_fence_id ms body of
             Inl e \<Rightarrow> Inl e
           | Inr cid \<Rightarrow>
               if cid \<noteq> fe_fence_id ev \<or> m_kind (body_mechanism body) \<noteq> fe_sandbox_kind ev \<or>
                  fe_egress_proxied ev
               then Inl (denied ''named-root body does not match its fence CID or actual backend'' [])
               else (case body_verify fs ms h body expected_root eff protected_roots of
                   Inl e \<Rightarrow> Inl e
                 | Inr _ \<Rightarrow> Inr body)))"

datatype ExitDisposition = Natural | Cancelled | Killed | DescendantsReaped

record ProxyFinalEvidence =
  pf_refused_hosts :: "string list"
  pf_omitted_refused_attempts :: u64
  pf_accepted :: u64
  pf_completed :: u64
  pf_capacity_rejects :: u64
  pf_shutdown_aborts :: u64
  pf_worker_spawn_failures :: u64
  pf_worker_panics :: u64
  pf_worker_cap :: nat
  pf_high_water_workers :: nat

record ExitEvidence =
  ex_code :: "u32 option"
  ex_signal :: "u32 option"
  ex_disposition :: ExitDisposition
  ex_fence :: FenceEvidence
  ex_dropped :: DroppedEvidence
  ex_proxy :: "ProxyFinalEvidence option"

datatype ExecutionTerminal =
    TermExited ExitEvidence
  | TermDenied Denial
  | TermFailed reason

definition exit_evidence :: "ExecutionTerminal \<Rightarrow> ExitEvidence option" where
  "exit_evidence t = (case t of TermExited e \<Rightarrow> Some e | _ \<Rightarrow> None)"

definition is_exited :: "ExecutionTerminal \<Rightarrow> bool" where
  "is_exited t = (case t of TermExited _ \<Rightarrow> True | _ \<Rightarrow> False)"

datatype ExecutionEventKind =
    KAccepted
  | KStarted u32 FenceEvidence
  | KStdout bytes
  | KStderr bytes
  | KOutputTruncated DroppedEvidence
  | KDenial Denial
  | KExited ExitEvidence
  | KDenied Denial
  | KFailed reason

record ExecutionEvent =
  ev_execution :: u64
  ev_sequence :: u64
  ev_kind :: ExecutionEventKind

definition is_terminal_kind :: "ExecutionEventKind \<Rightarrow> bool" where
  "is_terminal_kind k =
     (case k of KExited _ \<Rightarrow> True | KDenied _ \<Rightarrow> True | KFailed _ \<Rightarrow> True | _ \<Rightarrow> False)"

definition is_terminal :: "ExecutionEvent \<Rightarrow> bool" where
  "is_terminal e = is_terminal_kind (ev_kind e)"

text \<open>\<^verbatim>\<open>ExecutionId::next\<close>: a relaxed fetch-and-add on one process-wide counter.\<close>

definition execution_id_next :: "u64 \<Rightarrow> u64 \<times> u64" where
  "execution_id_next counter = (counter + 1, counter)"


subsection \<open>Bounded deserialization\<close>

text \<open>
  The sequence visitors read one element at a time (an element that does not parse is \<open>Inl\<close>) and
  refuse as the offending element is seen.
\<close>

fun visit_seq :: "nat \<Rightarrow> reason \<Rightarrow> ('a \<Rightarrow> reason option) \<Rightarrow> 'a list \<Rightarrow> (reason + 'a) list \<Rightarrow> reason + 'a list" where
  "visit_seq max_len too_many check out [] = Inr out"
| "visit_seq max_len too_many check out (Inl e # rest) = Inl e"
| "visit_seq max_len too_many check out (Inr item # rest) =
     (if length out \<ge> max_len then Inl too_many
      else (case check item of
          Some e \<Rightarrow> Inl e
        | None \<Rightarrow> visit_seq max_len too_many check (out @ [item]) rest))"

datatype byte_payload = ByteBuf bytes | ByteSeq "(reason + u8) list"

definition serde_bytes_vec :: "byte_payload \<Rightarrow> reason + bytes" where
  "serde_bytes_vec p =
     (case p of
        ByteBuf v \<Rightarrow>
          if length v > MAX_STDIN_BYTES_CEILING
          then Inl (Fmt ''byte payload exceeds the repository bound'' []) else Inr v
      | ByteSeq s \<Rightarrow>
          visit_seq MAX_STDIN_BYTES_CEILING (Fmt ''byte payload exceeds the repository bound'' [])
            (\<lambda>_. None) [] s)"

definition bounded_chunk :: "byte_payload \<Rightarrow> reason + bytes" where
  "bounded_chunk p =
     (case serde_bytes_vec p of
        Inl e \<Rightarrow> Inl e
      | Inr bytes \<Rightarrow>
          if length bytes > MAX_OUTPUT_CHUNK_BYTES_CEILING
          then Inl (Fmt ''output chunk exceeds the {MAX_OUTPUT_CHUNK_BYTES_CEILING}-byte bound'' [])
          else Inr bytes)"

definition bounded_stdin :: "byte_payload \<Rightarrow> reason + bytes" where
  "bounded_stdin p =
     (case serde_bytes_vec p of
        Inl e \<Rightarrow> Inl e
      | Inr bytes \<Rightarrow>
          if length bytes > MAX_STDIN_BYTES_CEILING
          then Inl (Fmt ''stdin exceeds the {MAX_STDIN_BYTES_CEILING}-byte bound'' [])
          else Inr bytes)"

definition bounded_message :: "string \<Rightarrow> reason + string" where
  "bounded_message s =
     (if length s > MAX_ARG_BYTES
      then Inl (Fmt ''message exceeds the {MAX_ARG_BYTES}-byte bound'' []) else Inr s)"

definition bounded_strings :: "nat \<Rightarrow> string \<Rightarrow> (reason + string) list \<Rightarrow> reason + string list" where
  "bounded_strings max_len what items =
     visit_seq max_len (Fmt ''{} exceeds the {}-entry bound'' [what])
       (\<lambda>item. if length item > MAX_ARG_BYTES
          then Some (Fmt ''{} entry exceeds the {MAX_ARG_BYTES}-byte bound'' [what]) else None) [] items"

definition bounded_argv :: "(reason + string) list \<Rightarrow> reason + string list" where
  "bounded_argv items = bounded_strings MAX_ARGV_ENTRIES ''argv'' items"

definition bounded_env :: "(reason + string \<times> string) list \<Rightarrow> reason + (string \<times> string) list" where
  "bounded_env items =
     visit_seq MAX_ENV_ENTRIES (Fmt ''env exceeds the {MAX_ENV_ENTRIES}-entry bound'' [])
       (\<lambda>(k, v). if length k > MAX_ARG_BYTES \<or> length v > MAX_ARG_BYTES
          then Some (Fmt ''env entry exceeds the {MAX_ARG_BYTES}-byte bound'' []) else None) [] items"

lemma visit_seq_complete:
  "length out + length ys \<le> n \<Longrightarrow> list_all (\<lambda>y. check y = None) ys \<Longrightarrow>
     visit_seq n e check out (map Inr ys) = Inr (out @ ys)"
  by (induction ys arbitrary: out) simp_all

lemma visit_seq_sound:
  "visit_seq n e check out items = Inr xs \<Longrightarrow>
     \<exists>ys. items = map Inr ys \<and> xs = out @ ys \<and> (ys = [] \<or> length xs \<le> n) \<and> list_all (\<lambda>y. check y = None) ys"
proof (induction n e check out items rule: visit_seq.induct)
  case (3 n e check out item rest)
  then have step: "length out < n" "check item = None"
      "visit_seq n e check (out @ [item]) rest = Inr xs"
    by (auto split: if_splits option.splits)
  with 3 obtain ys where "rest = map Inr ys" "xs = (out @ [item]) @ ys"
      "ys = [] \<or> length xs \<le> n" "list_all (\<lambda>y. check y = None) ys"
    by (auto simp: not_le)
  with step show ?case by (intro exI [of _ "item # ys"]) auto
qed simp_all

lemma visit_seq_iff:
  "visit_seq n e check [] items = Inr xs \<longleftrightarrow>
     items = map Inr xs \<and> length xs \<le> n \<and> list_all (\<lambda>y. check y = None) xs"
  using visit_seq_sound [of n e check "[]" items xs] visit_seq_complete [of "[]" xs n check e]
  by auto

lemma bounded_argv_iff:
  "bounded_argv items = Inr argv \<longleftrightarrow>
     items = map Inr argv \<and> length argv \<le> MAX_ARGV_ENTRIES \<and> list_all (\<lambda>a. length a \<le> MAX_ARG_BYTES) argv"
  by (simp add: bounded_argv_def bounded_strings_def visit_seq_iff not_less)

lemma bounded_env_iff:
  "bounded_env items = Inr env \<longleftrightarrow>
     items = map Inr env \<and> length env \<le> MAX_ENV_ENTRIES \<and>
     list_all (\<lambda>(k, v). length k \<le> MAX_ARG_BYTES \<and> length v \<le> MAX_ARG_BYTES) env"
  by (simp add: bounded_env_def visit_seq_iff not_less case_prod_unfold)

lemma serde_bytes_vec_bound: "serde_bytes_vec p = Inr bytes \<Longrightarrow> length bytes \<le> MAX_STDIN_BYTES_CEILING"
  by (cases p) (auto simp: serde_bytes_vec_def visit_seq_iff split: if_splits)

lemma bounded_stdin_iff:
  "bounded_stdin p = Inr bytes \<longleftrightarrow> serde_bytes_vec p = Inr bytes"
  by (auto simp: bounded_stdin_def dest: serde_bytes_vec_bound split: sum.splits if_splits)

subsection \<open>Limits and requests\<close>

lemma check_bound_ok [simp]: "check_bound f v c = Inr u \<longleftrightarrow> 0 < v \<and> v \<le> c"
  by (auto simp: check_bound_def)

lemma check_bound_cases:
  "(\<exists>e. check_bound f v c = Inl e) \<and> \<not> (0 < v \<and> v \<le> c) \<or> check_bound f v c = Inr () \<and> 0 < v \<and> v \<le> c"
  by (auto simp: check_bound_def)

lemma no_footprint_overflow:
  "events \<le> MAX_QUEUED_EVENTS_CEILING \<Longrightarrow> chunk \<le> MAX_OUTPUT_CHUNK_BYTES_CEILING \<Longrightarrow>
     checked_mul events chunk = Some (events * chunk)"
  using mult_le_mono [of events 65536 chunk "1024 * 1024"]
  by (simp add: checked_mul_def ceiling_defs)

lemma limits_new_iff:
  "limits_new ev ob ch ca re = Inr l \<longleftrightarrow>
     l = \<lparr>max_queued_events = ev, max_queued_output_bytes = ob, max_output_chunk_bytes = ch,
       cancel_grace = ca, reap_grace = re\<rparr> \<and> limits_wf l"
proof -
  let ?l = "\<lparr>max_queued_events = ev, max_queued_output_bytes = ob, max_output_chunk_bytes = ch,
    cancel_grace = ca, reap_grace = re\<rparr>"
  have "limits_new ev ob ch ca re = Inr ?l" if "limits_wf ?l"
    using that no_footprint_overflow [of ev ch] by (simp add: limits_new_def limits_wf_def check_bound_def)
  moreover have "limits_wf ?l \<and> l = ?l" if "limits_new ev ob ch ca re = Inr l"
    using that check_bound_cases [of "''max_queued_events''" ev MAX_QUEUED_EVENTS_CEILING]
      check_bound_cases [of "''max_queued_output_bytes''" ob MAX_QUEUED_OUTPUT_BYTES_CEILING]
      check_bound_cases [of "''max_output_chunk_bytes''" ch MAX_OUTPUT_CHUNK_BYTES_CEILING]
    by (elim disjE conjE exE)
      (simp_all add: limits_new_def limits_wf_def not_less del: check_bound_ok split: if_splits option.splits)
  ultimately show ?thesis by blast
qed

lemma limits_new_err: "limits_new ev ob ch ca re = Inl e \<Longrightarrow> is_denied_error e"
  by (auto simp: limits_new_def check_bound_def split: if_splits option.splits)

lemma limits_default_ok:
  "limits_new 4096 (8 * 1024 * 1024) (64 * 1024) (from_secs 5) (from_secs 2) = Inr limits_default"
  "limits_wf limits_default"
proof -
  have "\<exists>l. limits_new 4096 (8 * 1024 * 1024) (64 * 1024) (from_secs 5) (from_secs 2) = Inr l"
    unfolding limits_new_iff by (simp add: limits_wf_def ceiling_defs)
  then obtain l where "limits_new 4096 (8 * 1024 * 1024) (64 * 1024) (from_secs 5) (from_secs 2) = Inr l" ..
  then show "limits_new 4096 (8 * 1024 * 1024) (64 * 1024) (from_secs 5) (from_secs 2) = Inr limits_default"
    and "limits_wf limits_default"
    by (simp_all add: limits_default_def) (auto simp: limits_new_iff)
qed

lemma millis_roundtrip: "d \<le> MAX_GRACE \<Longrightarrow> from_millis (millis_u64 d) = d - d mod 1000000"
proof -
  assume "d \<le> MAX_GRACE"
  then have "d \<le> 600000000000" by (simp add: MAX_GRACE_def from_secs_def)
  then have "d div 1000000 \<le> 600000" by (simp add: div_le_mono [of d 600000000000 1000000, simplified])
  then show ?thesis
    by (simp add: millis_u64_def as_millis_def from_millis_def minus_mod_eq_div_mult)
qed

lemma millis_exact: "from_millis ms \<le> MAX_GRACE \<Longrightarrow> millis_u64 (from_millis ms) = ms"
  by (simp add: millis_u64_def as_millis_def from_millis_def MAX_GRACE_def from_secs_def)

lemma request_validate_iff:
  "request_validate r = Inr () \<longleftrightarrow>
     req_executable r \<noteq> [] \<and> length (req_executable r) \<le> MAX_ARG_BYTES \<and>
     length (req_argv r) \<le> MAX_ARGV_ENTRIES \<and> list_all (\<lambda>a. length a \<le> MAX_ARG_BYTES) (req_argv r) \<and>
     length (req_env r) \<le> MAX_ENV_ENTRIES \<and>
     list_all (\<lambda>(k, v). length k \<le> MAX_ARG_BYTES \<and> length v \<le> MAX_ARG_BYTES) (req_env r) \<and>
     (\<forall>bytes. req_stdin r = StdinBytes bytes \<longrightarrow> length bytes \<le> MAX_STDIN_BYTES_CEILING)"
  unfolding request_validate_def
  by (simp add: list_all_iff list_ex_iff not_less case_prod_unfold split: ExecutionStdin.split)
    (meson not_less)

lemma limits_received:
  assumes "limits_try_from raw = Inr l"
  shows "limits_wf l \<and> raw_from l = raw"
proof -
  from assms have "limits_wf l" and l: "l = \<lparr>max_queued_events = raw_max_queued_events raw,
      max_queued_output_bytes = raw_max_queued_output_bytes raw,
      max_output_chunk_bytes = raw_max_output_chunk_bytes raw,
      cancel_grace = from_millis (raw_cancel_grace_ms raw),
      reap_grace = from_millis (raw_reap_grace_ms raw)\<rparr>"
    unfolding limits_try_from_def limits_new_iff by blast+
  moreover from this have "millis_u64 (cancel_grace l) = raw_cancel_grace_ms raw"
      "millis_u64 (reap_grace l) = raw_reap_grace_ms raw"
    by (simp_all add: limits_wf_def millis_exact)
  ultimately show ?thesis by (simp add: raw_from_def)
qed

lemma limits_refused: "limits_try_from raw = Inl e \<Longrightarrow> is_denied_error e"
  unfolding limits_try_from_def by (rule limits_new_err)

lemma limits_sent:
  assumes wf: "limits_wf l"
  shows "limits_try_from (raw_from l) =
     Inr (l\<lparr>cancel_grace := cancel_grace l - cancel_grace l mod 1000000,
       reap_grace := reap_grace l - reap_grace l mod 1000000\<rparr>)"
proof -
  have "limits_wf (l\<lparr>cancel_grace := cancel_grace l - cancel_grace l mod 1000000,
       reap_grace := reap_grace l - reap_grace l mod 1000000\<rparr>)"
    using wf by (auto simp: limits_wf_def)
  with wf show ?thesis
    unfolding limits_try_from_def limits_new_iff
    by (simp add: raw_from_def limits_wf_def millis_roundtrip)
qed

text \<open>\<^verbatim>\<open>ExecutionLimits\<close> on the wire: whatever a peer serialized, a limit that deserializes lies
  within every repository ceiling and serializes back to the very bytes that were received; every
  constructible limit survives the round trip, its grace periods cut to whole milliseconds; and a
  configuration beyond a ceiling is refused with a denial, never clamped.\<close>

theorem limits_wire_contract:
  "(\<forall>raw l. limits_try_from raw = Inr l \<longrightarrow> limits_wf l \<and> raw_from l = raw) \<and>
   (\<forall>l. limits_wf l \<longrightarrow> limits_try_from (raw_from l) =
     Inr (l\<lparr>cancel_grace := cancel_grace l - cancel_grace l mod 1000000,
       reap_grace := reap_grace l - reap_grace l mod 1000000\<rparr>)) \<and>
   (\<forall>raw e. limits_try_from raw = Inl e \<longrightarrow> is_denied_error e)"
  using limits_received limits_sent by (auto intro: limits_refused)

definition default_raw :: RawExecutionLimits where
  "default_raw = \<lparr>raw_max_queued_events = 4096, raw_max_queued_output_bytes = 8388608,
     raw_max_output_chunk_bytes = 65536, raw_cancel_grace_ms = 5000, raw_reap_grace_ms = 2000\<rparr>"

definition greedy_raw :: RawExecutionLimits where
  "greedy_raw = default_raw\<lparr>raw_max_queued_events := 65537\<rparr>"

definition half_milli :: ExecutionLimits where
  "half_milli = \<lparr>max_queued_events = 1, max_queued_output_bytes = 1, max_output_chunk_bytes = 1,
     cancel_grace = 1500000, reap_grace = 0\<rparr>"

lemmas limits_eval = default_raw_def greedy_raw_def half_milli_def limits_try_from_def limits_new_def
  check_bound_def checked_mul_def from_millis_def ceiling_defs limits_wf_def

theorem limits_wire_contract_witness:
  "(\<exists>l. limits_try_from default_raw = Inr l \<and> limits_wf l \<and> raw_from l = default_raw) \<and>
   limits_wf half_milli \<and> limits_try_from (raw_from half_milli) = Inr (half_milli\<lparr>cancel_grace := 1000000\<rparr>) \<and>
   (\<exists>e. limits_try_from greedy_raw = Inl e \<and> is_denied_error e)"
proof (intro conjI)
  show "\<exists>l. limits_try_from default_raw = Inr l \<and> limits_wf l \<and> raw_from l = default_raw"
    using limits_wire_contract by (simp add: limits_eval)
  show hm: "limits_wf half_milli" by (simp add: limits_eval)
  show "limits_try_from (raw_from half_milli) = Inr (half_milli\<lparr>cancel_grace := 1000000\<rparr>)"
    using limits_wire_contract hm by (simp add: half_milli_def)
  have "\<exists>e. limits_try_from greedy_raw = Inl e" by (simp add: limits_eval)
  then show "\<exists>e. limits_try_from greedy_raw = Inl e \<and> is_denied_error e"
    using limits_wire_contract by blast
qed

text \<open>The bounds applied while a request is deserialized and the bounds \<^verbatim>\<open>validate\<close> applies
  before any work are the same ones: a request whose argv, environment and stdin came through the
  bounded visitors validates exactly when its executable is named and within the argument bound, and
  every request that validates re-reads unchanged through those visitors.\<close>

theorem wire_bounds_are_validate_bounds:
  "(bounded_argv as = Inr (req_argv r) \<and> bounded_env es = Inr (req_env r) \<and>
    (case req_stdin r of StdinNull \<Rightarrow> True | StdinBytes bytes \<Rightarrow> \<exists>p. bounded_stdin p = Inr bytes) \<longrightarrow>
     (request_validate r = Inr () \<longleftrightarrow>
        req_executable r \<noteq> [] \<and> length (req_executable r) \<le> MAX_ARG_BYTES)) \<and>
   (request_validate r = Inr () \<longrightarrow>
     bounded_argv (map Inr (req_argv r)) = Inr (req_argv r) \<and>
     bounded_env (map Inr (req_env r)) = Inr (req_env r) \<and>
     (case req_stdin r of StdinNull \<Rightarrow> True | StdinBytes bytes \<Rightarrow> bounded_stdin (ByteBuf bytes) = Inr bytes))"
proof (intro conjI impI)
  assume wire: "bounded_argv as = Inr (req_argv r) \<and> bounded_env es = Inr (req_env r) \<and>
    (case req_stdin r of StdinNull \<Rightarrow> True | StdinBytes bytes \<Rightarrow> \<exists>p. bounded_stdin p = Inr bytes)"
  then have "length bytes \<le> MAX_STDIN_BYTES_CEILING" if "req_stdin r = StdinBytes bytes" for bytes
    using that serde_bytes_vec_bound by (auto simp: bounded_stdin_iff)
  with wire show "request_validate r = Inr () \<longleftrightarrow>
       req_executable r \<noteq> [] \<and> length (req_executable r) \<le> MAX_ARG_BYTES"
    by (auto simp: request_validate_iff bounded_argv_iff bounded_env_iff)
qed (auto simp: request_validate_iff bounded_argv_iff bounded_env_iff bounded_stdin_iff
    serde_bytes_vec_def split: ExecutionStdin.splits)

definition ls_request :: ExecutionRequest where
  "ls_request = request_stdin (StdinBytes [1, 2]) (request_env ''LANG'' ''C''
     (request_arg ''-l'' (execution_request_new ''/bin/ls'')))"

lemmas ls_request_fields = ls_request_def execution_request_new_def request_arg_def request_env_def request_stdin_def

lemma ls_request_simps [simp]:
  "req_executable ls_request = ''/bin/ls''" "req_argv ls_request = [''-l'']"
  "req_env ls_request = [(''LANG'', ''C'')]" "req_stdin ls_request = StdinBytes [1, 2]"
  by (simp_all add: ls_request_fields)

theorem wire_bounds_are_validate_bounds_witness:
  "request_validate ls_request = Inr () \<and> bounded_argv (map Inr (req_argv ls_request)) = Inr (req_argv ls_request)"
proof -
  have "bounded_argv [Inr ''-l''] = Inr (req_argv ls_request)"
      "bounded_env [Inr (''LANG'', ''C'')] = Inr (req_env ls_request)"
      "\<exists>p. bounded_stdin p = Inr [1, 2]"
    by (auto simp: bounded_argv_iff bounded_env_iff bounded_stdin_iff serde_bytes_vec_def ceiling_defs
        intro!: exI [of _ "ByteBuf [1, 2]"])
  with wire_bounds_are_validate_bounds [of "[Inr ''-l'']" ls_request "[Inr (''LANG'', ''C'')]"]
  show ?thesis by (simp add: ceiling_defs)
qed

end
