(* ===== verification/Execution_Stream.thy ===== *)
theory Execution_Stream
  imports Execution_Contract
begin

text \<open>
  The bounded event stream of one execution (\<^verbatim>\<open>execution/stream.rs\<close>): the queue behind the one
  mutex, every producer operation of \<^verbatim>\<open>ExecutionEventSink\<close>, the consumer operations of
  \<^verbatim>\<open>ExecutionHandle\<close>, and the histories they can interleave into. The mutex makes each operation
  atomic, so a history is a sequence of operations in the order they took the lock.
\<close>

subsection \<open>State and producer operations\<close>

datatype OutputStream = Stdout | Stderr

datatype ExecutionEmit = Delivered | Dropped

datatype Phase = PhaseAccepted | PhaseStarted | PhaseTerminal

record QueueState =
  q_events :: "ExecutionEvent list"
  q_output_bytes :: nat
  q_dropped :: DroppedEvidence
  q_reported :: DroppedEvidence
  q_final_notice :: "ExecutionEvent option"
  q_terminal :: "ExecutionEvent option"
  q_next_sequence :: u64
  q_phase :: Phase
  q_consumer_alive :: bool

record StreamInner =
  si_id :: u64
  si_limits :: ExecutionLimits

definition queue_init :: QueueState where
  "queue_init = \<lparr>q_events = [], q_output_bytes = 0, q_dropped = no_drops, q_reported = no_drops,
     q_final_notice = None, q_terminal = None, q_next_sequence = 0, q_phase = PhaseAccepted,
     q_consumer_alive = True\<rparr>"

definition protocol :: "string \<Rightarrow> ToolError" where
  "protocol message = denied ''invalid execution event sequence: {message}'' [message]"

definition event_at :: "StreamInner \<Rightarrow> QueueState \<Rightarrow> ExecutionEventKind \<Rightarrow> ExecutionEvent" where
  "event_at s q kind = \<lparr>ev_execution = si_id s, ev_sequence = q_next_sequence q, ev_kind = kind\<rparr>"

definition push :: "StreamInner \<Rightarrow> ExecutionEventKind \<Rightarrow> QueueState \<Rightarrow> QueueState" where
  "push s kind q =
     q\<lparr>q_next_sequence := saturating_add (q_next_sequence q) 1,
       q_events := q_events q @ [event_at s q kind]\<rparr>"

definition record_drop :: "OutputStream \<Rightarrow> nat \<Rightarrow> QueueState \<Rightarrow> QueueState" where
  "record_drop stream len q =
     (let d = q_dropped q;
          d' = (case stream of
                  Stdout \<Rightarrow> d\<lparr>stdout_bytes := saturating_add (stdout_bytes d) (of_nat len)\<rparr>
                | Stderr \<Rightarrow> d\<lparr>stderr_bytes := saturating_add (stderr_bytes d) (of_nat len)\<rparr>)
      in q\<lparr>q_dropped := d'\<lparr>dropped_events := saturating_add (dropped_events d') 1\<rparr>\<rparr>)"

definition flush_truncation_notice :: "StreamInner \<Rightarrow> QueueState \<Rightarrow> QueueState" where
  "flush_truncation_notice s q =
     (if q_dropped q = q_reported q then q
      else if length (q_events q) \<ge> max_queued_events (si_limits s) then q
      else push s (KOutputTruncated (q_dropped q)) (q\<lparr>q_reported := q_dropped q\<rparr>))"

definition accepted :: "StreamInner \<Rightarrow> QueueState \<Rightarrow> QueueState \<times> ExecutionEmit ToolResult" where
  "accepted s q =
     (if q_phase q \<noteq> PhaseAccepted \<or> q_next_sequence q \<noteq> 0
      then (q, Inl (protocol ''accepted must be the first event''))
      else (push s KAccepted q, Inr Delivered))"

definition started ::
  "StreamInner \<Rightarrow> u32 \<Rightarrow> FenceEvidence \<Rightarrow> QueueState \<Rightarrow> QueueState \<times> ExecutionEmit ToolResult" where
  "started s pid fence q =
     (if q_phase q \<noteq> PhaseAccepted
      then (q, Inl (protocol ''started must follow accepted exactly once''))
      else (push s (KStarted pid fence) (q\<lparr>q_phase := PhaseStarted\<rparr>), Inr Delivered))"

definition output_kind :: "OutputStream \<Rightarrow> bytes \<Rightarrow> ExecutionEventKind" where
  "output_kind stream bytes = (case stream of Stdout \<Rightarrow> KStdout bytes | Stderr \<Rightarrow> KStderr bytes)"

definition output_fits :: "StreamInner \<Rightarrow> QueueState \<Rightarrow> nat \<Rightarrow> bool" where
  "output_fits s q len \<longleftrightarrow>
     length (q_events q) < max_queued_events (si_limits s) \<and>
     (case checked_add (q_output_bytes q) len of
        None \<Rightarrow> False
      | Some n \<Rightarrow> n \<le> max_queued_output_bytes (si_limits s))"

definition emit_output ::
  "StreamInner \<Rightarrow> OutputStream \<Rightarrow> bytes \<Rightarrow> QueueState \<Rightarrow> QueueState \<times> ExecutionEmit ToolResult" where
  "emit_output s stream bytes q =
     (if bytes = [] then (q, Inr Delivered)
      else if q_phase q \<noteq> PhaseStarted then (q, Inl (protocol ''output requires a prior started event''))
      else if length bytes > max_output_chunk_bytes (si_limits s)
      then (q, Inl (protocol ''output chunk exceeds the configured chunk bound''))
      else if \<not> output_fits s q (length bytes)
      then (record_drop stream (length bytes) q, Inr Dropped)
      else
       (let q' = flush_truncation_notice s q
        in if length (q_events q') \<ge> max_queued_events (si_limits s)
           then (record_drop stream (length bytes) q', Inr Dropped)
           else (push s (output_kind stream bytes)
                   (q'\<lparr>q_output_bytes := q_output_bytes q' + length bytes\<rparr>), Inr Delivered)))"

definition denial :: "StreamInner \<Rightarrow> Denial \<Rightarrow> QueueState \<Rightarrow> QueueState \<times> ExecutionEmit ToolResult" where
  "denial s d q =
     (if q_phase q = PhaseTerminal then (q, Inl (protocol ''no event may follow the terminal''))
      else if length (q_events q) \<ge> max_queued_events (si_limits s)
      then (q\<lparr>q_dropped := (q_dropped q)\<lparr>dropped_events := saturating_add (dropped_events (q_dropped q)) 1\<rparr>\<rparr>,
            Inr Dropped)
      else (push s (KDenial d) q, Inr Delivered))"

definition terminal_kind :: "ExecutionTerminal \<Rightarrow> ExecutionEventKind" where
  "terminal_kind t =
     (case t of TermExited e \<Rightarrow> KExited e | TermDenied d \<Rightarrow> KDenied d | TermFailed m \<Rightarrow> KFailed m)"

definition reserve_final_notice :: "StreamInner \<Rightarrow> QueueState \<Rightarrow> QueueState" where
  "reserve_final_notice s q =
     (if q_dropped q = q_reported q then q
      else q\<lparr>q_reported := q_dropped q,
             q_next_sequence := saturating_add (q_next_sequence q) 1,
             q_final_notice := Some (event_at s q (KOutputTruncated (q_dropped q)))\<rparr>)"

definition publish_terminal ::
  "StreamInner \<Rightarrow> ExecutionTerminal \<Rightarrow> QueueState \<Rightarrow> QueueState \<times> unit ToolResult" where
  "publish_terminal s terminal q =
     (if q_phase q = PhaseTerminal then (q, Inl (protocol ''terminal must be published exactly once''))
      else if q_phase q = PhaseAccepted \<and> is_exited terminal
      then (q, Inl (protocol ''an exited terminal requires a started event''))
      else
       (let q' = reserve_final_notice s (q\<lparr>q_phase := PhaseTerminal\<rparr>)
        in (q'\<lparr>q_next_sequence := saturating_add (q_next_sequence q') 1,
               q_terminal := Some (event_at s q' (terminal_kind terminal))\<rparr>, Inr ())))"

subsection \<open>Consumer operations\<close>

definition freed_bytes :: "ExecutionEvent \<Rightarrow> nat" where
  "freed_bytes e = (case ev_kind e of KStdout b \<Rightarrow> length b | KStderr b \<Rightarrow> length b | _ \<Rightarrow> 0)"

definition release :: "ExecutionEvent \<Rightarrow> QueueState \<Rightarrow> QueueState" where
  "release e q = q\<lparr>q_output_bytes := q_output_bytes q - freed_bytes e\<rparr>"

text \<open>
  The consumer's side is the queue and the handle's \<^verbatim>\<open>terminal_observed\<close>. \<^verbatim>\<open>next_event\<close> is the same
  step, except that it waits on the condition variable instead of returning \<open>None\<close> while nothing is
  available: \<open>next_blocks\<close> says when.
\<close>

definition try_next_event ::
  "QueueState \<Rightarrow> bool \<Rightarrow> QueueState \<times> bool \<times> ExecutionEvent option" where
  "try_next_event q terminal_observed =
     (if terminal_observed then (q, True, None)
      else (case q_events q of
          e # rest \<Rightarrow> (release e (q\<lparr>q_events := rest\<rparr>), False, Some e)
        | [] \<Rightarrow>
            (case q_final_notice q of
               Some e \<Rightarrow> (q\<lparr>q_final_notice := None\<rparr>, False, Some e)
             | None \<Rightarrow>
                 (case q_terminal q of
                    Some e \<Rightarrow> (q\<lparr>q_terminal := None\<rparr>, True, Some e)
                  | None \<Rightarrow> (q, False, None)))))"

definition next_blocks :: "QueueState \<Rightarrow> bool \<Rightarrow> bool" where
  "next_blocks q terminal_observed \<longleftrightarrow>
     \<not> terminal_observed \<and> q_events q = [] \<and> q_final_notice q = None \<and> q_terminal q = None"

text \<open>\<^verbatim>\<open>Drop for ExecutionHandle\<close>; the second component says whether it calls \<^verbatim>\<open>abandon\<close>.\<close>

definition drop_handle :: "QueueState \<Rightarrow> bool \<Rightarrow> QueueState \<times> bool" where
  "drop_handle q terminal_observed =
     (q\<lparr>q_consumer_alive := False\<rparr>, \<not> (terminal_observed \<or> q_terminal q \<noteq> None))"

subsection \<open>Histories\<close>

datatype stream_op =
    OpAccepted
  | OpStarted u32 FenceEvidence
  | OpOutput OutputStream bytes
  | OpDenial Denial
  | OpPublish ExecutionTerminal
  | OpNext
  | OpDrop

text \<open>
  A stream in use: the queue, whether the consumer saw the terminal, the events it received (in
  order), and every producer call with its outcome (in order).
\<close>

record stream_run =
  r_queue :: QueueState
  r_observed :: bool
  r_received :: "ExecutionEvent list"
  r_emitted :: "(stream_op \<times> ExecutionEmit ToolResult) list"

definition run_init :: stream_run where
  "run_init = \<lparr>r_queue = queue_init, r_observed = False, r_received = [], r_emitted = []\<rparr>"

definition emit ::
  "stream_op \<Rightarrow> QueueState \<times> ExecutionEmit ToolResult \<Rightarrow> stream_run \<Rightarrow> stream_run" where
  "emit op qr r = r\<lparr>r_queue := fst qr, r_emitted := r_emitted r @ [(op, snd qr)]\<rparr>"

fun stream_exec :: "StreamInner \<Rightarrow> stream_op \<Rightarrow> stream_run \<Rightarrow> stream_run" where
  "stream_exec s OpAccepted r = emit OpAccepted (accepted s (r_queue r)) r"
| "stream_exec s (OpStarted pid f) r = emit (OpStarted pid f) (started s pid f (r_queue r)) r"
| "stream_exec s (OpOutput st b) r = emit (OpOutput st b) (emit_output s st b (r_queue r)) r"
| "stream_exec s (OpDenial d) r = emit (OpDenial d) (denial s d (r_queue r)) r"
| "stream_exec s (OpPublish t) r = r\<lparr>r_queue := fst (publish_terminal s t (r_queue r))\<rparr>"
| "stream_exec s OpNext r =
     (case try_next_event (r_queue r) (r_observed r) of
        (q, observed, ev) \<Rightarrow>
          r\<lparr>r_queue := q, r_observed := observed, r_received := r_received r @ (case ev of None \<Rightarrow> [] | Some e \<Rightarrow> [e])\<rparr>)"
| "stream_exec s OpDrop r = r\<lparr>r_queue := fst (drop_handle (r_queue r) (r_observed r))\<rparr>"

definition stream_history :: "StreamInner \<Rightarrow> stream_op list \<Rightarrow> stream_run" where
  "stream_history s ops = fold (stream_exec s) ops run_init"

subsection \<open>The abstract stream\<close>

text \<open>
  What a consumer may see: \<^verbatim>\<open>Accepted\<close> at most once and only first, \<^verbatim>\<open>Started\<close> at most once and
  before any output, an exit only after \<^verbatim>\<open>Started\<close>, and nothing after a terminal. The automaton's
  state is the phase; its first argument says whether any event came before.
\<close>

fun spec_step :: "bool \<Rightarrow> Phase \<Rightarrow> ExecutionEventKind \<Rightarrow> Phase option" where
  "spec_step seen PhaseTerminal k = None"
| "spec_step seen PhaseAccepted KAccepted = (if seen then None else Some PhaseAccepted)"
| "spec_step seen PhaseAccepted (KStarted p f) = Some PhaseStarted"
| "spec_step seen PhaseAccepted (KDenial d) = Some PhaseAccepted"
| "spec_step seen PhaseAccepted (KOutputTruncated d) = Some PhaseAccepted"
| "spec_step seen PhaseAccepted (KDenied d) = Some PhaseTerminal"
| "spec_step seen PhaseAccepted (KFailed m) = Some PhaseTerminal"
| "spec_step seen PhaseAccepted k = None"
| "spec_step seen PhaseStarted KAccepted = None"
| "spec_step seen PhaseStarted (KStarted p f) = None"
| "spec_step seen PhaseStarted k = Some (if is_terminal_kind k then PhaseTerminal else PhaseStarted)"

fun spec_run :: "bool \<Rightarrow> Phase \<Rightarrow> ExecutionEventKind list \<Rightarrow> Phase option" where
  "spec_run seen p [] = Some p"
| "spec_run seen p (k # ks) =
     (case spec_step seen p k of None \<Rightarrow> None | Some p' \<Rightarrow> spec_run True p' ks)"

lemma spec_run_snoc:
  "spec_run seen p (ks @ [k]) =
     (case spec_run seen p ks of None \<Rightarrow> None | Some p' \<Rightarrow> spec_step (seen \<or> ks \<noteq> []) p' k)"
  by (induction ks arbitrary: seen p) (auto split: option.splits)

lemma spec_run_prefix: "spec_run seen p (xs @ ys) \<noteq> None \<Longrightarrow> spec_run seen p xs \<noteq> None"
  by (induction xs arbitrary: seen p) (auto split: option.splits)

lemma spec_step_terminal: "spec_step seen p k = Some p' \<Longrightarrow> p' = PhaseTerminal \<longleftrightarrow> is_terminal_kind k"
  by (cases "(seen, p, k)" rule: spec_step.cases) (auto simp: is_terminal_kind_def split: if_splits)

lemma spec_run_after_terminal: "spec_run seen PhaseTerminal ks = Some p \<Longrightarrow> ks = []"
  by (cases ks) simp_all

lemma spec_run_terminal_last:
  "spec_run seen p ks = Some p' \<Longrightarrow> p \<noteq> PhaseTerminal \<Longrightarrow>
     list_all (\<lambda>k. \<not> is_terminal_kind k) (butlast ks) \<and>
     (p' = PhaseTerminal \<longleftrightarrow> ks \<noteq> [] \<and> is_terminal_kind (last ks))"
proof (induction ks arbitrary: p' rule: rev_induct)
  case (snoc k ks)
  then obtain p1 where p1: "spec_run seen p ks = Some p1" "spec_step (seen \<or> ks \<noteq> []) p1 k = Some p'"
    by (auto simp: spec_run_snoc split: option.splits)
  then have "p1 \<noteq> PhaseTerminal" by (cases p1) auto
  with snoc.IH [OF p1(1) snoc.prems(2)] spec_step_terminal [OF p1(2)] show ?case
    by (cases ks rule: rev_cases) (auto simp: butlast_append)
qed simp

subsection \<open>The invariant\<close>

definition sat :: "nat \<Rightarrow> nat" where "sat n = min n (2 ^ 64 - 1)"

definition pending :: "QueueState \<Rightarrow> ExecutionEvent list" where
  "pending q =
     q_events q @ (case q_final_notice q of None \<Rightarrow> [] | Some e \<Rightarrow> [e]) @
     (case q_terminal q of None \<Rightarrow> [] | Some e \<Rightarrow> [e])"

definition last_notice :: "ExecutionEvent list \<Rightarrow> DroppedEvidence" where
  "last_notice es =
     fold (\<lambda>e d. case ev_kind e of KOutputTruncated d' \<Rightarrow> d' | _ \<Rightarrow> d) es no_drops"

text \<open>The log of a stream: the events received and pending, the next number, the phase and the totals reported.\<close>

definition stream_log :: "StreamInner \<Rightarrow> ExecutionEvent list \<Rightarrow> u64 \<Rightarrow> Phase \<Rightarrow> DroppedEvidence \<Rightarrow> bool" where
  "stream_log s es n p rep \<longleftrightarrow>
     map (unat \<circ> ev_sequence) es = map sat [0..<length es] \<and>
     unat n = sat (length es) \<and>
     spec_run False PhaseAccepted (map ev_kind es) = Some p \<and>
     list_all (\<lambda>e. ev_execution e = si_id s) es \<and>
     last_notice es = rep"

definition stream_core :: "StreamInner \<Rightarrow> ExecutionEvent list \<Rightarrow> QueueState \<Rightarrow> bool" where
  "stream_core s rec q \<longleftrightarrow>
     (q_phase q \<noteq> PhaseTerminal \<longrightarrow> q_final_notice q = None \<and> q_terminal q = None) \<and>
     stream_log s (rec @ pending q) (q_next_sequence q) (q_phase q) (q_reported q)"

lemma last_notice_snoc [simp]:
  "last_notice (es @ [e]) = (case ev_kind e of KOutputTruncated d \<Rightarrow> d | _ \<Rightarrow> last_notice es)"
  by (cases "ev_kind e") (simp_all add: last_notice_def)

lemma sat_Suc: "unat (saturating_add w 1) = sat (Suc n)" if "unat (w :: u64) = sat n"
  using that by (simp add: unat_saturating_add sat_def)

lemma sat_0_iff [simp]: "sat n = 0 \<longleftrightarrow> n = 0"
  by (simp add: sat_def min_def)

text \<open>Every event that enters the stream enters it the same way: numbered, and last.\<close>

lemma stream_log_append:
  assumes log: "stream_log s es n p rep" and step: "spec_step (es \<noteq> []) p k = Some p'"
  shows "stream_log s (es @ [\<lparr>ev_execution = si_id s, ev_sequence = n, ev_kind = k\<rparr>])
    (saturating_add n 1) p' (case k of KOutputTruncated d \<Rightarrow> d | _ \<Rightarrow> rep)"
proof -
  have "spec_run False PhaseAccepted (map ev_kind es @ [k]) = Some p'"
    using log step by (simp add: spec_run_snoc stream_log_def)
  moreover have "unat (saturating_add n 1) = sat (Suc (length es))"
    by (rule sat_Suc) (use log in \<open>simp add: stream_log_def\<close>)
  ultimately show ?thesis using log by (cases k) (simp_all add: stream_log_def)
qed

lemma core_slots: "stream_core s rec q \<Longrightarrow> q_phase q \<noteq> PhaseTerminal \<Longrightarrow> q_final_notice q = None \<and> q_terminal q = None"
  by (simp add: stream_core_def)

lemma core_empty_iff: "stream_core s rec q \<Longrightarrow> q_next_sequence q = 0 \<longleftrightarrow> rec @ pending q = []"
proof -
  assume "stream_core s rec q"
  then have "unat (q_next_sequence q) = sat (length (rec @ pending q))"
    by (simp add: stream_core_def stream_log_def)
  then show ?thesis by (metis sat_0_iff length_0_conv unat_eq_0)
qed

lemma core_cong:
  "stream_core s rec q \<Longrightarrow> pending q' = pending q \<Longrightarrow> q_phase q' = q_phase q \<Longrightarrow>
   q_final_notice q' = q_final_notice q \<Longrightarrow> q_terminal q' = q_terminal q \<Longrightarrow>
   q_next_sequence q' = q_next_sequence q \<Longrightarrow> q_reported q' = q_reported q \<Longrightarrow> stream_core s rec q'"
  by (simp add: stream_core_def)

text \<open>A push from \<open>q\<close>, possibly after changing the phase, the byte count or the reported totals.\<close>

lemma core_push:
  assumes "stream_core s rec q" "q_phase q \<noteq> PhaseTerminal"
    and "spec_step (rec @ pending q \<noteq> []) (q_phase q) k = Some (q_phase q0)"
    and "\<not> is_terminal_kind k"
    and q0: "q_events q0 = q_events q" "q_final_notice q0 = q_final_notice q" "q_terminal q0 = q_terminal q"
      "q_next_sequence q0 = q_next_sequence q"
      "q_reported q0 = (case k of KOutputTruncated d \<Rightarrow> d | _ \<Rightarrow> q_reported q)"
  shows "stream_core s rec (push s k q0)"
proof -
  let ?q = "push s k q0"
  have none: "q_final_notice q = None" "q_terminal q = None"
    using core_slots [OF assms(1,2)] by simp_all
  have "stream_log s (rec @ pending q) (q_next_sequence q) (q_phase q) (q_reported q)"
    using assms(1) by (simp add: stream_core_def)
  from stream_log_append [OF this assms(3)]
  have "stream_log s (rec @ pending ?q) (q_next_sequence ?q) (q_phase ?q) (q_reported ?q)"
    using none by (simp add: push_def pending_def event_at_def q0)
  then show ?thesis using none by (simp add: stream_core_def push_def q0)
qed

lemma spec_step_neutral:
  "p \<noteq> PhaseTerminal \<Longrightarrow> spec_step seen p (KOutputTruncated d) = Some p"
  "p \<noteq> PhaseTerminal \<Longrightarrow> spec_step seen p (KDenial dn) = Some p"
  "spec_step seen PhaseStarted (output_kind st b) = Some PhaseStarted"
  by (cases p; simp add: is_terminal_kind_def; fail)+
    (cases st; simp add: is_terminal_kind_def output_kind_def)

lemma core_record_drop: "stream_core s rec q \<Longrightarrow> stream_core s rec (record_drop st n q)"
  by (erule core_cong) (simp_all add: record_drop_def Let_def pending_def)

lemma core_flush: "stream_core s rec q \<Longrightarrow> q_phase q \<noteq> PhaseTerminal \<Longrightarrow> stream_core s rec (flush_truncation_notice s q)"
  unfolding flush_truncation_notice_def
  by (simp, intro impI) (rule core_push, auto simp: spec_step_neutral is_terminal_kind_def)

lemma core_accepted: "stream_core s rec q \<Longrightarrow> stream_core s rec (fst (accepted s q))"
  unfolding accepted_def
  by (simp, intro impI) (rule core_push, auto simp: core_empty_iff is_terminal_kind_def)

lemma core_started: "stream_core s rec q \<Longrightarrow> stream_core s rec (fst (started s pid f q))"
  unfolding started_def
  by (simp, intro impI) (rule core_push, auto simp: is_terminal_kind_def)

lemma flush_simps [simp]:
  "q_phase (flush_truncation_notice s q) = q_phase q"
  "q_dropped (flush_truncation_notice s q) = q_dropped q"
  "q_output_bytes (flush_truncation_notice s q) = q_output_bytes q"
  by (simp_all add: flush_truncation_notice_def push_def)

lemma core_output: "stream_core s rec q \<Longrightarrow> stream_core s rec (fst (emit_output s st b q))"
proof -
  assume core: "stream_core s rec q"
  have "stream_core s rec (push s (output_kind st b)
      (flush_truncation_notice s q\<lparr>q_output_bytes := q_output_bytes (flush_truncation_notice s q) + length b\<rparr>))"
    if "q_phase q = PhaseStarted"
    by (rule core_push [OF core_flush [OF core]])
      (auto simp: that spec_step_neutral is_terminal_kind_def output_kind_def split: OutputStream.splits)
  with core show ?thesis
    by (auto simp: emit_output_def Let_def intro!: core_record_drop core_flush)
qed

lemma core_denial: "stream_core s rec q \<Longrightarrow> stream_core s rec (fst (denial s d q))"
proof -
  assume core: "stream_core s rec q"
  have "stream_core s rec (push s (KDenial d) q)" if "q_phase q \<noteq> PhaseTerminal"
    by (rule core_push [OF core that]) (simp_all add: that spec_step_neutral is_terminal_kind_def)
  moreover have "stream_core s rec (q\<lparr>q_dropped := x\<rparr>)" for x
    using core by (rule core_cong) (simp_all add: pending_def)
  ultimately show ?thesis using core by (simp add: denial_def)
qed

lemma spec_step_publish:
  "p \<noteq> PhaseTerminal \<Longrightarrow> \<not> (p = PhaseAccepted \<and> is_exited t) \<Longrightarrow>
     spec_step seen p (terminal_kind t) = Some PhaseTerminal"
  by (cases p; cases t) (simp_all add: terminal_kind_def is_exited_def is_terminal_kind_def)

lemma core_publish: "stream_core s rec q \<Longrightarrow> stream_core s rec (fst (publish_terminal s t q))"
proof -
  assume core: "stream_core s rec q"
  show ?thesis
  proof (cases "q_phase q = PhaseTerminal \<or> q_phase q = PhaseAccepted \<and> is_exited t")
    case True
    with core show ?thesis by (auto simp: publish_terminal_def)
  next
    case False
    let ?r = "reserve_final_notice s (q\<lparr>q_phase := PhaseTerminal\<rparr>)"
    have log: "stream_log s (rec @ pending q) (q_next_sequence q) (q_phase q) (q_reported q)"
      and none: "q_final_notice q = None" "q_terminal q = None"
      using core False by (auto simp: stream_core_def)
    have "stream_log s (rec @ pending ?r) (q_next_sequence ?r) (q_phase q) (q_reported ?r)"
      using log stream_log_append [OF log, of "KOutputTruncated (q_dropped q)" "q_phase q"] False none
      by (simp add: reserve_final_notice_def pending_def event_at_def spec_step_neutral)
    moreover have "spec_step seen (q_phase q) (terminal_kind t) = Some PhaseTerminal" for seen
      using False by (intro spec_step_publish) auto
    ultimately have "stream_log s (rec @ pending ?r @ [event_at s ?r (terminal_kind t)])
        (saturating_add (q_next_sequence ?r) 1) PhaseTerminal (q_reported ?r)"
      using stream_log_append by (cases t) (fastforce simp: event_at_def terminal_kind_def)+
    moreover have "q_terminal ?r = None" "q_phase ?r = PhaseTerminal"
      using none by (simp_all add: reserve_final_notice_def)
    ultimately show ?thesis
      using False by (auto simp: publish_terminal_def Let_def stream_core_def pending_def)
  qed
qed

text \<open>Taking an event moves it from the pending side of the log to the received side, and nothing else.\<close>

lemma next_moves:
  assumes "try_next_event q obs = (q', obs', ev)"
  shows "(case ev of None \<Rightarrow> [] | Some e \<Rightarrow> [e]) @ pending q' = pending q"
    "q_phase q' = q_phase q" "q_dropped q' = q_dropped q" "q_reported q' = q_reported q"
    "q_next_sequence q' = q_next_sequence q"
    "q_final_notice q = None \<Longrightarrow> q_final_notice q' = None" "q_terminal q = None \<Longrightarrow> q_terminal q' = None"
  using assms unfolding try_next_event_def
  by (auto simp: pending_def release_def split: if_splits list.splits option.splits)

lemma core_next:
  assumes "stream_core s rec q" and nx: "try_next_event q obs = (q', obs', ev)"
  shows "stream_core s (rec @ (case ev of None \<Rightarrow> [] | Some e \<Rightarrow> [e])) q'"
  using assms(1) next_moves(1) [OF nx, symmetric] next_moves(2-) [OF nx]
  by (simp add: stream_core_def)

lemma core_drop: "stream_core s rec q \<Longrightarrow> stream_core s rec (fst (drop_handle q obs))"
  by (erule core_cong) (simp_all add: drop_handle_def pending_def)


subsection \<open>Room and accounting\<close>

definition stream_room :: "ExecutionLimits \<Rightarrow> QueueState \<Rightarrow> bool" where
  "stream_room l q \<longleftrightarrow>
     q_output_bytes q = sum_list (map freed_bytes (q_events q)) \<and>
     q_output_bytes q \<le> max_queued_output_bytes l \<and>
     list_all (\<lambda>e. freed_bytes e \<le> max_output_chunk_bytes l) (q_events q) \<and>
     length (q_events q) \<le> max_queued_events l + (if q_phase q = PhaseAccepted then 0 else 1)"

definition chunk_of :: "ExecutionEvent \<Rightarrow> (OutputStream \<times> bytes) option" where
  "chunk_of e = (case ev_kind e of KStdout b \<Rightarrow> Some (Stdout, b) | KStderr b \<Rightarrow> Some (Stderr, b) | _ \<Rightarrow> None)"

definition chunks :: "ExecutionEvent list \<Rightarrow> (OutputStream \<times> bytes) list" where
  "chunks es = List.map_filter chunk_of es"

definition delivered :: "(stream_op \<times> ExecutionEmit ToolResult) list \<Rightarrow> (OutputStream \<times> bytes) list" where
  "delivered em =
     List.map_filter (\<lambda>(op, res). case op of
        OpOutput st b \<Rightarrow> if res = Inr Delivered \<and> b \<noteq> [] then Some (st, b) else None
      | _ \<Rightarrow> None) em"

definition lost_bytes :: "OutputStream \<Rightarrow> (stream_op \<times> ExecutionEmit ToolResult) list \<Rightarrow> nat" where
  "lost_bytes stream em =
     sum_list (map (\<lambda>(op, res). case op of
        OpOutput st b \<Rightarrow> if st = stream \<and> res = Inr Dropped then length b else 0
      | _ \<Rightarrow> 0) em)"

definition lost_events :: "(stream_op \<times> ExecutionEmit ToolResult) list \<Rightarrow> nat" where
  "lost_events em = length (filter (\<lambda>(op, res). res = Inr Dropped) em)"

definition drops_exact :: "(stream_op \<times> ExecutionEmit ToolResult) list \<Rightarrow> DroppedEvidence \<Rightarrow> bool" where
  "drops_exact em d \<longleftrightarrow>
     unat (stdout_bytes d) = sat (lost_bytes Stdout em) \<and>
     unat (stderr_bytes d) = sat (lost_bytes Stderr em) \<and>
     unat (dropped_events d) = sat (lost_events em)"

lemma chunks_append [simp]: "chunks (xs @ ys) = chunks xs @ chunks ys"
  by (simp add: chunks_def map_filter_def)

lemma chunks_single [simp]: "chunks [e] = (case chunk_of e of None \<Rightarrow> [] | Some c \<Rightarrow> [c])"
  by (simp add: chunks_def map_filter_def split: option.splits)

lemma chunks_Nil [simp]: "chunks [] = []"
  by (simp add: chunks_def map_filter_def)

lemma account_snoc:
  "delivered (em @ [(op, res)]) = delivered em @
     (case op of OpOutput st b \<Rightarrow> if res = Inr Delivered \<and> b \<noteq> [] then [(st, b)] else [] | _ \<Rightarrow> [])"
  "lost_bytes stream (em @ [(op, res)]) = lost_bytes stream em +
     (case op of OpOutput st b \<Rightarrow> if st = stream \<and> res = Inr Dropped then length b else 0 | _ \<Rightarrow> 0)"
  "lost_events (em @ [(op, res)]) = lost_events em + (if res = Inr Dropped then 1 else 0)"
  by (auto simp: delivered_def lost_bytes_def lost_events_def map_filter_def split: stream_op.splits)

lemma sat_add: "unat (saturating_add w (of_nat k)) = sat (n + k)"
  if "unat (w :: u64) = sat n" "k < 2 ^ 64"
  using that by (simp add: unat_saturating_add sat_def unsigned_of_nat take_bit_nat_eq_self)

lemma drops_keep:
  "drops_exact em d \<Longrightarrow> res \<noteq> Inr Dropped \<Longrightarrow> drops_exact (em @ [(op, res)]) d"
  by (auto simp: drops_exact_def account_snoc split: stream_op.splits)

lemma drops_record:
  "drops_exact em (q_dropped q) \<Longrightarrow> length b < 2 ^ 64 \<Longrightarrow>
     drops_exact (em @ [(OpOutput st b, Inr Dropped)]) (q_dropped (record_drop st (length b) q))"
  by (cases st) (simp_all add: drops_exact_def account_snoc record_drop_def Let_def sat_add sat_Suc)

lemma drops_event:
  "drops_exact em d \<Longrightarrow> drops_exact (em @ [(OpDenial dn, Inr Dropped)])
     (d\<lparr>dropped_events := saturating_add (dropped_events d) 1\<rparr>)"
  by (simp add: drops_exact_def account_snoc sat_Suc)

lemma event_simps [simp]:
  "chunk_of (event_at s q k) = (case k of KStdout b \<Rightarrow> Some (Stdout, b) | KStderr b \<Rightarrow> Some (Stderr, b) | _ \<Rightarrow> None)"
  "freed_bytes (event_at s q k) = (case k of KStdout b \<Rightarrow> length b | KStderr b \<Rightarrow> length b | _ \<Rightarrow> 0)"
  by (simp_all add: chunk_of_def freed_bytes_def event_at_def)

lemma output_kind_simps [simp]:
  "(case output_kind st b of KStdout b \<Rightarrow> Some (Stdout, b) | KStderr b \<Rightarrow> Some (Stderr, b) | _ \<Rightarrow> None) = Some (st, b)"
  "(case output_kind st b of KStdout b \<Rightarrow> length b | KStderr b \<Rightarrow> length b | _ \<Rightarrow> 0) = length b"
  by (cases st; simp add: output_kind_def)+

lemma push_simps [simp]:
  "q_phase (push s k q) = q_phase q" "q_dropped (push s k q) = q_dropped q" "q_reported (push s k q) = q_reported q"
  by (simp_all add: push_def)

lemma chunks_push:
  "q_final_notice q = None \<Longrightarrow> q_terminal q = None \<Longrightarrow>
     chunks (pending (push s k q)) = chunks (pending q) @ (case k of KStdout b \<Rightarrow> [(Stdout, b)] | KStderr b \<Rightarrow> [(Stderr, b)] | _ \<Rightarrow> [])"
  by (cases k) (simp_all add: push_def pending_def)

lemma chunks_flush:
  "q_final_notice q = None \<Longrightarrow> q_terminal q = None \<Longrightarrow> chunks (pending (flush_truncation_notice s q)) = chunks (pending q)"
  by (simp add: flush_truncation_notice_def chunks_push) (simp add: pending_def)

definition stream_account ::
  "(stream_op \<times> ExecutionEmit ToolResult) list \<Rightarrow> ExecutionEvent list \<Rightarrow> QueueState \<Rightarrow> bool" where
  "stream_account em rec q \<longleftrightarrow>
     chunks (rec @ pending q) = delivered em \<and> drops_exact em (q_dropped q) \<and>
     (q_phase q = PhaseTerminal \<longrightarrow> q_reported q = q_dropped q)"


abbreviation with_output :: "StreamInner \<Rightarrow> OutputStream \<Rightarrow> bytes \<Rightarrow> QueueState \<Rightarrow> QueueState" where
  "with_output s st b q \<equiv>
     push s (output_kind st b)
       (flush_truncation_notice s q\<lparr>q_output_bytes := q_output_bytes (flush_truncation_notice s q) + length b\<rparr>)"

lemma emit_output_cases:
  obtains (same) res where "emit_output s st b q = (q, res)" "res \<noteq> Inr Dropped" "res = Inr Delivered \<longrightarrow> b = []"
  | (dropped) q0 where "emit_output s st b q = (record_drop st (length b) q0, Inr Dropped)"
      "q0 = q \<or> q0 = flush_truncation_notice s q" "q_phase q = PhaseStarted"
      "length b \<le> max_output_chunk_bytes (si_limits s)"
  | (delivered) "emit_output s st b q = (with_output s st b q, Inr Delivered)" "b \<noteq> []"
      "q_phase q = PhaseStarted" "length b \<le> max_output_chunk_bytes (si_limits s)"
      "q_output_bytes q + length b \<le> max_queued_output_bytes (si_limits s)"
      "length (q_events (flush_truncation_notice s q)) < max_queued_events (si_limits s)"
proof (cases "b = [] \<or> q_phase q \<noteq> PhaseStarted \<or> length b > max_output_chunk_bytes (si_limits s)")
  case True
  then show ?thesis by (intro same [of "snd (emit_output s st b q)"]) (auto simp: emit_output_def protocol_def)
next
  case False
  show ?thesis
  proof (cases "output_fits s q (length b) \<and> length (q_events (flush_truncation_notice s q)) < max_queued_events (si_limits s)")
    case True
    moreover from this have "q_output_bytes q + length b \<le> max_queued_output_bytes (si_limits s)"
      by (simp add: output_fits_def checked_add_def split: if_splits)
    ultimately show ?thesis using False by (intro delivered) (simp_all add: emit_output_def Let_def not_le)
  next
    case no: False
    with False show ?thesis
      by (intro dropped [of "if output_fits s q (length b) then flush_truncation_notice s q else q"])
        (auto simp: emit_output_def Let_def)
  qed
qed

lemma room_flush: "stream_room (si_limits s) q \<Longrightarrow> stream_room (si_limits s) (flush_truncation_notice s q)"
  by (simp add: flush_truncation_notice_def stream_room_def push_def)

lemma room_output:
  assumes "stream_room (si_limits s) q"
  shows "stream_room (si_limits s) (fst (emit_output s st b q))"
proof (cases rule: emit_output_cases [of s st b q, case_names same dropped delivered])
  case (dropped q0)
  with room_flush [OF assms] assms have "stream_room (si_limits s) q0" by blast
  with dropped show ?thesis by (simp add: stream_room_def record_drop_def Let_def)
next
  case delivered
  with room_flush [OF assms] show ?thesis by (simp add: stream_room_def push_def)
qed (use assms in simp)

lemma room_accepted:
  "stream_core s rec q \<Longrightarrow> limits_wf (si_limits s) \<Longrightarrow> stream_room (si_limits s) q \<Longrightarrow>
     stream_room (si_limits s) (fst (accepted s q))"
  using core_empty_iff [of s rec q]
  by (auto simp: accepted_def stream_room_def push_def pending_def limits_wf_def)

lemma room_started: "stream_room (si_limits s) q \<Longrightarrow> stream_room (si_limits s) (fst (started s pid f q))"
  by (auto simp: started_def stream_room_def push_def)

lemma room_denial: "stream_room (si_limits s) q \<Longrightarrow> stream_room (si_limits s) (fst (denial s d q))"
  by (auto simp: denial_def stream_room_def push_def)

lemma reserve_simps [simp]:
  "q_events (reserve_final_notice s q) = q_events q" "q_dropped (reserve_final_notice s q) = q_dropped q"
  "q_output_bytes (reserve_final_notice s q) = q_output_bytes q" "q_phase (reserve_final_notice s q) = q_phase q"
  "q_terminal (reserve_final_notice s q) = q_terminal q" "q_reported (reserve_final_notice s q) = q_dropped q"
  by (simp_all add: reserve_final_notice_def)

lemma room_publish: "stream_room (si_limits s) q \<Longrightarrow> stream_room (si_limits s) (fst (publish_terminal s t q))"
  by (auto simp: publish_terminal_def stream_room_def Let_def split: if_splits)

lemma room_next: "stream_room l q \<Longrightarrow> try_next_event q obs = (q', obs', ev) \<Longrightarrow> stream_room l q'"
  by (cases "q_events q") (auto simp: try_next_event_def stream_room_def release_def split: if_splits option.splits)

lemma account_keep:
  "stream_account em rec q \<Longrightarrow> res \<noteq> Inr Dropped \<Longrightarrow> (\<forall>st b. op = OpOutput st b \<longrightarrow> res = Inr Delivered \<longrightarrow> b = []) \<Longrightarrow>
     stream_account (em @ [(op, res)]) rec q"
  by (auto simp: stream_account_def account_snoc drops_keep split: stream_op.splits)

lemma account_push:
  assumes "stream_account em rec q" "q_final_notice q = None" "q_terminal q = None"
    and "q_phase q0 \<noteq> PhaseTerminal" "q_events q0 = q_events q" "q_final_notice q0 = None" "q_terminal q0 = None"
      "q_dropped q0 = q_dropped q"
    and "res \<noteq> Inr Dropped"
    and "delivered (em @ [(op, res)]) = delivered em @ (case k of KStdout b \<Rightarrow> [(Stdout, b)] | KStderr b \<Rightarrow> [(Stderr, b)] | _ \<Rightarrow> [])"
  shows "stream_account (em @ [(op, res)]) rec (push s k q0)"
proof -
  have "chunks (pending q0) = chunks (pending q)" using assms by (simp add: pending_def)
  with assms show ?thesis
    by (simp add: stream_account_def chunks_push drops_keep)
qed

lemma account_flush:
  "stream_account em rec q \<Longrightarrow> q_phase q \<noteq> PhaseTerminal \<Longrightarrow> q_final_notice q = None \<Longrightarrow> q_terminal q = None \<Longrightarrow>
     stream_account em rec (flush_truncation_notice s q)"
  by (simp add: stream_account_def chunks_flush)

lemma flush_slots [simp]:
  "q_final_notice (flush_truncation_notice s q) = q_final_notice q"
  "q_terminal (flush_truncation_notice s q) = q_terminal q"
  by (simp_all add: flush_truncation_notice_def push_def)


lemma account_output:
  assumes core: "stream_core s rec q" and acc: "stream_account em rec q" and wf: "limits_wf (si_limits s)"
  shows "stream_account (em @ [(OpOutput st b, snd (emit_output s st b q))]) rec (fst (emit_output s st b q))"
proof (cases rule: emit_output_cases [of s st b q, case_names same dropped delivered])
  case (same res)
  then show ?thesis using account_keep [OF acc] by simp
next
  case (dropped q0)
  then have "q_final_notice q = None" "q_terminal q = None" "q_phase q \<noteq> PhaseTerminal"
    using core_slots [OF core] by simp_all
  with dropped(2) account_flush [OF acc] acc have "stream_account em rec q0" "q_phase q0 \<noteq> PhaseTerminal"
    by auto
  moreover have "length b < 2 ^ 64"
    using dropped(4) wf by (simp add: limits_wf_def ceiling_defs)
  moreover have "pending (record_drop st (length b) q0) = pending q0" "q_phase (record_drop st (length b) q0) = q_phase q0"
    by (simp_all add: record_drop_def Let_def pending_def)
  ultimately show ?thesis
    by (simp add: dropped stream_account_def account_snoc drops_record)
next
  case delivered
  then have none: "q_final_notice q = None" "q_terminal q = None" "q_phase q \<noteq> PhaseTerminal"
    using core_slots [OF core] by simp_all
  have "stream_account (em @ [(OpOutput st b, Inr Delivered)]) rec (with_output s st b q)"
    by (rule account_push [OF account_flush [OF acc none(3,1,2), of s]])
      (use none delivered in \<open>auto simp: account_snoc output_kind_def split: OutputStream.splits\<close>)
  then show ?thesis by (simp add: delivered)
qed

lemma account_accepted:
  assumes "stream_core s rec q" "stream_account em rec q"
  shows "stream_account (em @ [(OpAccepted, snd (accepted s q))]) rec (fst (accepted s q))"
proof (cases "q_phase q \<noteq> PhaseAccepted \<or> q_next_sequence q \<noteq> 0")
  case True
  then show ?thesis using account_keep [OF assms(2)] by (auto simp: accepted_def)
next
  case False
  then show ?thesis
    using core_slots [OF assms(1)] by (auto simp: accepted_def account_snoc intro!: account_push [OF assms(2)])
qed

lemma account_started:
  assumes "stream_core s rec q" "stream_account em rec q"
  shows "stream_account (em @ [(OpStarted pid f, snd (started s pid f q))]) rec (fst (started s pid f q))"
proof (cases "q_phase q \<noteq> PhaseAccepted")
  case True
  then show ?thesis using account_keep [OF assms(2)] by (auto simp: started_def)
next
  case False
  then show ?thesis
    using core_slots [OF assms(1)] by (auto simp: started_def account_snoc intro!: account_push [OF assms(2)])
qed

lemma account_denial:
  assumes "stream_core s rec q" "stream_account em rec q"
  shows "stream_account (em @ [(OpDenial d, snd (denial s d q))]) rec (fst (denial s d q))"
proof (cases "q_phase q = PhaseTerminal")
  case True
  then show ?thesis using account_keep [OF assms(2)] by (auto simp: denial_def)
next
  case live: False
  show ?thesis
  proof (cases "length (q_events q) \<ge> max_queued_events (si_limits s)")
    case True
    with live assms(2) show ?thesis
      by (simp add: denial_def stream_account_def account_snoc drops_event pending_def)
  next
    case False
    with live show ?thesis
      using core_slots [OF assms(1)] by (auto simp: denial_def account_snoc intro!: account_push [OF assms(2)])
  qed
qed

lemma account_publish:
  assumes "stream_core s rec q" "stream_account em rec q"
  shows "stream_account em rec (fst (publish_terminal s t q))"
proof (cases "q_phase q = PhaseTerminal \<or> q_phase q = PhaseAccepted \<and> is_exited t")
  case True
  with assms(2) show ?thesis by (auto simp: publish_terminal_def)
next
  case False
  then have none: "q_final_notice q = None" "q_terminal q = None"
    using core_slots [OF assms(1)] by auto
  let ?r = "reserve_final_notice s (q\<lparr>q_phase := PhaseTerminal\<rparr>)"
  have "chunks (pending ?r) = chunks (pending q)"
    using none by (simp add: reserve_final_notice_def pending_def)
  moreover have "chunks [event_at s' q' (terminal_kind t)] = []" for s' q'
    by (cases t) (simp_all add: terminal_kind_def)
  ultimately show ?thesis
    using False assms(2) none by (auto simp: publish_terminal_def Let_def stream_account_def pending_def)
qed

lemma account_next:
  assumes "stream_account em rec q" and nx: "try_next_event q obs = (q', obs', ev)"
  shows "stream_account em (rec @ (case ev of None \<Rightarrow> [] | Some e \<Rightarrow> [e])) q'"
proof -
  have "(rec @ (case ev of None \<Rightarrow> [] | Some e \<Rightarrow> [e])) @ pending q' = rec @ pending q"
    using next_moves(1) [OF nx] by simp
  with assms(1) next_moves(2-4) [OF nx] show ?thesis
    unfolding stream_account_def by metis
qed

subsection \<open>Every history\<close>

definition stream_seen :: "stream_run \<Rightarrow> bool" where
  "stream_seen r \<longleftrightarrow>
     (r_observed r \<longrightarrow> q_phase (r_queue r) = PhaseTerminal \<and> pending (r_queue r) = []) \<and>
     (q_phase (r_queue r) = PhaseTerminal \<longrightarrow> r_observed r \<or> q_terminal (r_queue r) \<noteq> None)"

definition stream_ok :: "StreamInner \<Rightarrow> stream_run \<Rightarrow> bool" where
  "stream_ok s r \<longleftrightarrow>
     stream_core s (r_received r) (r_queue r) \<and> stream_room (si_limits s) (r_queue r) \<and>
     stream_account (r_emitted r) (r_received r) (r_queue r) \<and> stream_seen r"

lemma producers_terminal:
  "q_phase q = PhaseTerminal \<Longrightarrow> fst (accepted s q) = q"
  "q_phase q = PhaseTerminal \<Longrightarrow> fst (started s pid f q) = q"
  "q_phase q = PhaseTerminal \<Longrightarrow> fst (emit_output s st b q) = q"
  "q_phase q = PhaseTerminal \<Longrightarrow> fst (denial s d q) = q"
  "q_phase q = PhaseTerminal \<Longrightarrow> fst (publish_terminal s t q) = q"
  by (simp_all add: accepted_def started_def emit_output_def denial_def publish_terminal_def)

lemma producers_live:
  "q_phase q \<noteq> PhaseTerminal \<Longrightarrow> q_phase (fst (accepted s q)) \<noteq> PhaseTerminal"
  "q_phase q \<noteq> PhaseTerminal \<Longrightarrow> q_phase (fst (started s pid f q)) \<noteq> PhaseTerminal"
  "q_phase q \<noteq> PhaseTerminal \<Longrightarrow> q_phase (fst (emit_output s st b q)) \<noteq> PhaseTerminal"
  "q_phase q \<noteq> PhaseTerminal \<Longrightarrow> q_phase (fst (denial s d q)) \<noteq> PhaseTerminal"
  by (simp_all add: accepted_def started_def emit_output_def denial_def record_drop_def Let_def)

lemma publish_fills_slot:
  "q_phase q \<noteq> PhaseTerminal \<Longrightarrow> q_phase (fst (publish_terminal s t q)) = PhaseTerminal \<Longrightarrow>
     q_terminal (fst (publish_terminal s t q)) \<noteq> None"
  by (auto simp: publish_terminal_def Let_def split: if_splits)

lemma seen_emit:
  assumes "stream_seen r"
    and "q_phase (r_queue r) = PhaseTerminal \<Longrightarrow> fst qr = r_queue r"
    and "q_phase (r_queue r) \<noteq> PhaseTerminal \<Longrightarrow> q_phase (fst qr) \<noteq> PhaseTerminal"
  shows "stream_seen (emit op qr r)"
  using assms by (cases "q_phase (r_queue r) = PhaseTerminal") (auto simp: stream_seen_def emit_def)

lemma seen_publish:
  "stream_seen r \<Longrightarrow> stream_seen (r\<lparr>r_queue := fst (publish_terminal s t (r_queue r))\<rparr>)"
  using publish_fills_slot [of "r_queue r" s t]
  by (cases "q_phase (r_queue r) = PhaseTerminal") (auto simp: stream_seen_def producers_terminal)

lemma next_observed:
  "try_next_event q obs = (q', obs', ev) \<Longrightarrow>
     obs' = (obs \<or> q_events q = [] \<and> q_final_notice q = None \<and> q_terminal q \<noteq> None)"
  by (cases "q_events q"; cases "q_final_notice q"; cases "q_terminal q")
    (auto simp: try_next_event_def split: if_splits)

lemma next_keeps_slot:
  "try_next_event q obs = (q', obs', ev) \<Longrightarrow> \<not> obs' \<Longrightarrow> q_terminal q' = q_terminal q"
  by (auto simp: try_next_event_def release_def split: if_splits list.splits option.splits)

lemma seen_next:
  assumes seen: "stream_seen r" and core: "stream_core s (r_received r) (r_queue r)"
    and nx: "try_next_event (r_queue r) (r_observed r) = (q', obs', ev)"
  shows "stream_seen (r\<lparr>r_queue := q', r_observed := obs', r_received := rec'\<rparr>)"
proof -
  have "pending q' = []" "q_phase q' = PhaseTerminal" if "obs'"
  proof -
    have "q_phase (r_queue r) = PhaseTerminal"
      using that next_observed [OF nx] seen core by (auto simp: stream_seen_def stream_core_def)
    then show "q_phase q' = PhaseTerminal" by (simp add: next_moves(2) [OF nx])
    have "length (pending (r_queue r)) \<le> 1" if "\<not> r_observed r"
      using \<open>obs'\<close> that next_observed [OF nx] by (auto simp: pending_def split: option.splits)
    with that nx seen next_observed [OF nx] show "pending q' = []"
      by (cases "r_observed r") (auto simp: stream_seen_def try_next_event_def pending_def split: option.splits)
  qed
  moreover have "q_terminal q' \<noteq> None" if "\<not> obs'" "q_phase q' = PhaseTerminal"
    using that seen next_keeps_slot [OF nx] next_moves(2) [OF nx] next_observed [OF nx]
    by (auto simp: stream_seen_def)
  ultimately show ?thesis by (auto simp: stream_seen_def)
qed

lemma stream_ok_exec:
  assumes ok: "stream_ok s r" and wf: "limits_wf (si_limits s)"
  shows "stream_ok s (stream_exec s op r)"
proof -
  note [simp] = emit_def
  from ok have core: "stream_core s (r_received r) (r_queue r)" and room: "stream_room (si_limits s) (r_queue r)"
    and acc: "stream_account (r_emitted r) (r_received r) (r_queue r)" and seen: "stream_seen r"
    by (simp_all add: stream_ok_def)
  show ?thesis
  proof (cases op)
    case OpAccepted
    then show ?thesis
      using core_accepted [OF core] room_accepted [OF core wf room] account_accepted [OF core acc]
        seen_emit [OF seen producers_terminal(1) producers_live(1)]
      by (simp add: stream_ok_def)
  next
    case (OpStarted pid f)
    then show ?thesis
      using core_started [OF core] room_started [OF room] account_started [OF core acc]
        seen_emit [OF seen producers_terminal(2) producers_live(2)]
      by (simp add: stream_ok_def)
  next
    case (OpOutput st b)
    then show ?thesis
      using core_output [OF core] room_output [OF room] account_output [OF core acc wf]
        seen_emit [OF seen producers_terminal(3) producers_live(3)]
      by (simp add: stream_ok_def)
  next
    case (OpDenial d)
    then show ?thesis
      using core_denial [OF core] room_denial [OF room] account_denial [OF core acc]
        seen_emit [OF seen producers_terminal(4) producers_live(4)]
      by (simp add: stream_ok_def)
  next
    case (OpPublish t)
    then show ?thesis
      using core_publish [OF core] room_publish [OF room] account_publish [OF core acc] seen_publish [OF seen]
      by (simp add: stream_ok_def)
  next
    case OpNext
    obtain q' obs' ev where nx: "try_next_event (r_queue r) (r_observed r) = (q', obs', ev)"
      by (cases "try_next_event (r_queue r) (r_observed r)")
    then show ?thesis
      using OpNext core_next [OF core nx] room_next [OF room nx] account_next [OF acc nx] seen_next [OF seen core nx]
      by (simp add: stream_ok_def)
  next
    case OpDrop
    then show ?thesis
      using core_drop [OF core] room acc seen
      by (simp add: stream_ok_def drop_handle_def stream_room_def stream_account_def stream_seen_def pending_def)
  qed
qed

lemma stream_ok_init: "stream_ok s run_init"
  by (simp add: stream_ok_def run_init_def queue_init_def stream_core_def stream_log_def pending_def last_notice_def
      stream_room_def stream_account_def drops_exact_def delivered_def lost_bytes_def lost_events_def
      map_filter_def stream_seen_def sat_def no_drops_def)

lemma stream_ok_history: "limits_wf (si_limits s) \<Longrightarrow> stream_ok s (stream_history s ops)"
proof -
  assume wf: "limits_wf (si_limits s)"
  have "stream_ok s r \<Longrightarrow> stream_ok s (fold (stream_exec s) ops r)" for r
    by (induction ops arbitrary: r) (simp_all add: stream_ok_exec wf)
  then show ?thesis using stream_ok_init by (simp add: stream_history_def)
qed

lemma sat_upto: "n \<le> 2 ^ 64 \<Longrightarrow> map sat [0..<n] = [0..<n]"
  by (rule map_idI) (simp add: sat_def)

lemma received_log:
  assumes "stream_ok s r"
  shows "map (unat \<circ> ev_sequence) (r_received r) = map sat [0..<length (r_received r)]"
    "list_all (\<lambda>e. ev_execution e = si_id s) (r_received r)"
    "\<exists>p. spec_run False PhaseAccepted (map ev_kind (r_received r)) = Some p"
proof -
  let ?es = "r_received r @ pending (r_queue r)" and ?n = "length (r_received r)"
  have log: "map (unat \<circ> ev_sequence) ?es = map sat [0..<length ?es]"
      "spec_run False PhaseAccepted (map ev_kind ?es) = Some (q_phase (r_queue r))"
      "list_all (\<lambda>e. ev_execution e = si_id s) ?es"
    using assms by (simp_all add: stream_ok_def stream_core_def stream_log_def)
  from log(1) have "take ?n (map (unat \<circ> ev_sequence) ?es) = take ?n (map sat [0..<length ?es])" by simp
  then show "map (unat \<circ> ev_sequence) (r_received r) = map sat [0..<?n]"
    by (simp add: take_map min_def)
  show "list_all (\<lambda>e. ev_execution e = si_id s) (r_received r)" using log(3) by simp
  have "spec_run False PhaseAccepted (map ev_kind (r_received r) @ map ev_kind (pending (r_queue r))) \<noteq> None"
    using log(2) by simp
  from spec_run_prefix [OF this]
  show "\<exists>p. spec_run False PhaseAccepted (map ev_kind (r_received r)) = Some p" by blast
qed

lemma observed_iff_terminal:
  assumes "stream_ok s r"
  shows "r_observed r \<longleftrightarrow> r_received r \<noteq> [] \<and> is_terminal (last (r_received r))"
    "list_all (\<lambda>e. \<not> is_terminal e) (butlast (r_received r))"
proof -
  obtain p where p: "spec_run False PhaseAccepted (map ev_kind (r_received r)) = Some p"
    using received_log(3) [OF assms] by blast
  note tl = spec_run_terminal_last [OF p]
  then show "list_all (\<lambda>e. \<not> is_terminal e) (butlast (r_received r))"
    by (simp add: is_terminal_def list_all_iff flip: map_butlast)
  have seen: "stream_seen r"
    and run: "spec_run False PhaseAccepted (map ev_kind (r_received r @ pending (r_queue r))) = Some (q_phase (r_queue r))"
    using assms by (simp_all add: stream_ok_def stream_core_def stream_log_def)
  show "r_observed r \<longleftrightarrow> r_received r \<noteq> [] \<and> is_terminal (last (r_received r))"
  proof
    assume "r_observed r"
    with seen run p have "p = PhaseTerminal" by (simp add: stream_seen_def)
    with tl show "r_received r \<noteq> [] \<and> is_terminal (last (r_received r))"
      by (auto simp: is_terminal_def last_map)
  next
    assume rec: "r_received r \<noteq> [] \<and> is_terminal (last (r_received r))"
    note all = spec_run_terminal_last [OF run]
    have "pending (r_queue r) = []"
    proof (rule ccontr)
      assume "pending (r_queue r) \<noteq> []"
      then have "last (r_received r) \<in> set (butlast (r_received r @ pending (r_queue r)))"
        using rec by (simp add: butlast_append)
      moreover have "list_all (\<lambda>k. \<not> is_terminal_kind k) (map ev_kind (butlast (r_received r @ pending (r_queue r))))"
        using all by (metis Phase.distinct(3) map_butlast)
      ultimately show False using rec by (auto simp: list_all_iff is_terminal_def)
    qed
    moreover from this all rec have "q_phase (r_queue r) = PhaseTerminal"
      by (simp add: is_terminal_def last_map)
    ultimately show "r_observed r"
      using seen by (auto simp: stream_seen_def pending_def split: option.splits)
  qed
qed

text \<open>C36. What a consumer receives, for any interleaving of producer and consumer operations, is a
  word of the abstract stream: \<^verbatim>\<open>Accepted\<close> only first, one \<^verbatim>\<open>Started\<close> before any output, an exit only
  after \<^verbatim>\<open>Started\<close>, at most one terminal and nothing after it. Every event carries the execution's
  id, the sequence numbers are 0, 1, 2, \<open>\<dots>\<close> without a gap (the counter saturates only after
  $2^{64}$ events), and \<^verbatim>\<open>terminal_observed\<close> is set exactly when the terminal was returned.\<close>

theorem stream_refines_protocol:
  assumes "limits_wf (si_limits s)" and "r = stream_history s ops"
  shows "(\<exists>p. spec_run False PhaseAccepted (map ev_kind (r_received r)) = Some p) \<and>
    list_all (\<lambda>e. ev_execution e = si_id s) (r_received r) \<and>
    (length (r_received r) \<le> 2 ^ 64 \<longrightarrow>
       map (unat \<circ> ev_sequence) (r_received r) = [0..<length (r_received r)]) \<and>
    list_all (\<lambda>e. \<not> is_terminal e) (butlast (r_received r)) \<and>
    (r_observed r \<longleftrightarrow> r_received r \<noteq> [] \<and> is_terminal (last (r_received r)))"
proof -
  have ok: "stream_ok s r" using assms by (simp add: stream_ok_history)
  show ?thesis
    using received_log [OF ok] observed_iff_terminal [OF ok] by (auto simp: sat_upto)
qed

text \<open>The queue is physically bounded in every history: the queued output bytes are exactly the
  bytes of the queued chunks and never exceed the configured total, no queued chunk exceeds the chunk
  bound, and the queue holds at most one event more than the configured count. The one extra event is
  \<^verbatim>\<open>Started\<close>, which is pushed without consulting the bound; until it is emitted the bound is exact.\<close>

theorem stream_stays_bounded:
  assumes "limits_wf (si_limits s)" and "q = r_queue (stream_history s ops)"
  shows "q_output_bytes q = sum_list (map freed_bytes (q_events q)) \<and>
    q_output_bytes q \<le> max_queued_output_bytes (si_limits s) \<and>
    list_all (\<lambda>e. freed_bytes e \<le> max_output_chunk_bytes (si_limits s)) (q_events q) \<and>
    length (q_events q) \<le> max_queued_events (si_limits s) + (if q_phase q = PhaseAccepted then 0 else 1)"
  using stream_ok_history [OF assms(1), of ops] assms(2) by (simp add: stream_ok_def stream_room_def)

text \<open>C37. Nothing is lost silently. The output chunks received or still pending are exactly, and in
  order, the chunks the producers were told were delivered; the drop counters are exactly the bytes and
  events they were told were dropped (saturating at $2^{64} - 1$); and once the terminal has been
  received, everything delivered has been received and the last truncation notice received carries the
  final totals, unless nothing was dropped.\<close>

theorem drops_are_exact:
  assumes "limits_wf (si_limits s)" and "r = stream_history s ops"
  shows "chunks (r_received r @ pending (r_queue r)) = delivered (r_emitted r) \<and>
    drops_exact (r_emitted r) (q_dropped (r_queue r)) \<and>
    (r_observed r \<longrightarrow> chunks (r_received r) = delivered (r_emitted r) \<and>
       last_notice (r_received r) = q_dropped (r_queue r))"
proof -
  have ok: "stream_ok s r" using assms by (simp add: stream_ok_history)
  then have "stream_account (r_emitted r) (r_received r) (r_queue r)"
    and "stream_seen r"
    and "last_notice (r_received r @ pending (r_queue r)) = q_reported (r_queue r)"
    by (simp_all add: stream_ok_def stream_core_def stream_log_def)
  then show ?thesis by (auto simp: stream_account_def stream_seen_def)
qed

lemma next_takes_pending:
  assumes "\<not> obs" and "pending q = e # es"
  shows "\<exists>q' obs'. try_next_event q obs = (q', obs', Some e)"
  using assms
  by (auto simp: try_next_event_def pending_def split: list.splits option.splits)

lemma drain_step:
  assumes "stream_ok s r" "q_phase (r_queue r) = PhaseTerminal" "pending (r_queue r) = e # es"
  shows "r_received (stream_exec s OpNext r) = r_received r @ [e]"
    "pending (r_queue (stream_exec s OpNext r)) = es"
    "q_phase (r_queue (stream_exec s OpNext r)) = PhaseTerminal"
proof -
  have "\<not> r_observed r" using assms by (auto simp: stream_ok_def stream_seen_def)
  then obtain q' obs' where nx: "try_next_event (r_queue r) (r_observed r) = (q', obs', Some e)"
    using next_takes_pending assms(3) by blast
  from next_moves [OF nx] assms(2,3) nx
  show "r_received (stream_exec s OpNext r) = r_received r @ [e]"
    "pending (r_queue (stream_exec s OpNext r)) = es"
    "q_phase (r_queue (stream_exec s OpNext r)) = PhaseTerminal"
    by simp_all
qed

lemma drain:
  assumes "stream_ok s r" "limits_wf (si_limits s)" "q_phase (r_queue r) = PhaseTerminal"
  shows "r_received (fold (stream_exec s) (replicate (length (pending (r_queue r))) OpNext) r) =
      r_received r @ pending (r_queue r) \<and>
    r_observed (fold (stream_exec s) (replicate (length (pending (r_queue r))) OpNext) r)"
  using assms(1,3)
proof (induction "pending (r_queue r)" arbitrary: r)
  case Nil
  then have "r_observed r" by (auto simp: stream_ok_def stream_seen_def pending_def split: option.splits)
  with Nil show ?case by simp
next
  case (Cons e es)
  let ?r = "stream_exec s OpNext r"
  note step = drain_step [OF Cons.prems Cons.hyps(2) [symmetric]]
  have "stream_ok s ?r" by (rule stream_ok_exec [OF Cons.prems(1) assms(2)])
  from Cons.hyps(1) [OF step(2) [symmetric] this step(3)] step Cons.hyps(2) [symmetric]
  show ?case by simp
qed

text \<open>C38. The terminal is never lost and never withheld: once it is published, a consumer that has
  not yet seen it is never made to wait, and exactly as many calls as there are events pending (at most
  the queue bound plus the two reserved slots) return every pending event, in order, ending with the
  terminal.\<close>

theorem terminal_is_delivered:
  assumes "limits_wf (si_limits s)" and "r = stream_history s ops"
    and "q_phase (r_queue r) = PhaseTerminal"
    and "r' = stream_history s (ops @ replicate (length (pending (r_queue r))) OpNext)"
  shows "\<not> next_blocks (r_queue r) (r_observed r) \<and>
    length (pending (r_queue r)) \<le> max_queued_events (si_limits s) + 3 \<and>
    r_received r' = r_received r @ pending (r_queue r) \<and> r_observed r' \<and> is_terminal (last (r_received r'))"
proof -
  have ok: "stream_ok s r" and ok': "stream_ok s r'" using assms by (simp_all add: stream_ok_history)
  have "r' = fold (stream_exec s) (replicate (length (pending (r_queue r))) OpNext) r"
    using assms(2,4) by (simp add: stream_history_def)
  with drain [OF ok assms(1,3)]
  have "r_received r' = r_received r @ pending (r_queue r)" "r_observed r'" by simp_all
  moreover have "is_terminal (last (r_received r'))"
    using observed_iff_terminal(1) [OF ok'] \<open>r_observed r'\<close> by simp
  moreover have "\<not> next_blocks (r_queue r) (r_observed r)"
    using ok assms(3) by (auto simp: stream_ok_def stream_seen_def next_blocks_def)
  moreover have "length (pending (r_queue r)) \<le> max_queued_events (si_limits s) + 3"
  proof -
    have "length (q_events (r_queue r)) \<le> max_queued_events (si_limits s) + 1"
      using ok assms(3) by (simp add: stream_ok_def stream_room_def)
    then show ?thesis by (auto simp: pending_def split: option.splits)
  qed
  ultimately show ?thesis by blast
qed

definition tiny_stream :: StreamInner where
  "tiny_stream = \<lparr>si_id = 7, si_limits = \<lparr>max_queued_events = 1, max_queued_output_bytes = 4,
     max_output_chunk_bytes = 4, cancel_grace = 0, reap_grace = 0\<rparr>\<rparr>"

definition no_fence :: FenceEvidence where
  "no_fence = \<lparr>fe_fence_id = [], fe_sandbox_kind = NoSandbox, fe_egress_proxied = False, fe_admitted = None\<rparr>"

definition stalled_ops :: "stream_op list" where
  "stalled_ops = [OpAccepted, OpStarted 1 no_fence, OpOutput Stdout [1, 2], OpPublish (TermFailed (Fmt ''x'' []))]"

lemma tiny_wf: "limits_wf (si_limits tiny_stream)"
  by (simp add: tiny_stream_def limits_wf_def ceiling_defs)


lemmas stream_eval = stream_history_def run_init_def queue_init_def emit_def accepted_def started_def
  emit_output_def output_fits_def checked_add_def denial_def publish_terminal_def reserve_final_notice_def record_drop_def
  push_def event_at_def tiny_stream_def stalled_ops_def no_drops_def terminal_kind_def is_exited_def
  try_next_event_def release_def freed_bytes_def saturating_add_def

lemma one_le_max [simp]: "(1 :: u64) \<le> - 2"
  by code_simp

definition two_lost :: DroppedEvidence where
  "two_lost = \<lparr>stdout_bytes = 2, stderr_bytes = 0, dropped_events = 1\<rparr>"

definition stalled_event :: "u64 \<Rightarrow> ExecutionEventKind \<Rightarrow> ExecutionEvent" where
  "stalled_event n k = \<lparr>ev_execution = 7, ev_sequence = n, ev_kind = k\<rparr>"

lemma stalled_run:
  "stream_history tiny_stream stalled_ops =
     \<lparr>r_queue = \<lparr>q_events = [stalled_event 0 KAccepted, stalled_event 1 (KStarted 1 no_fence)],
        q_output_bytes = 0, q_dropped = two_lost, q_reported = two_lost,
        q_final_notice = Some (stalled_event 2 (KOutputTruncated two_lost)),
        q_terminal = Some (stalled_event 3 (KFailed (Fmt ''x'' []))), q_next_sequence = 4,
        q_phase = PhaseTerminal, q_consumer_alive = True\<rparr>,
      r_observed = False, r_received = [],
      r_emitted = [(OpAccepted, Inr Delivered), (OpStarted 1 no_fence, Inr Delivered),
        (OpOutput Stdout [1, 2], Inr Dropped)]\<rparr>"
  by (simp add: stream_eval two_lost_def stalled_event_def)

lemma drained_run:
  "stream_history tiny_stream (stalled_ops @ replicate 4 OpNext) =
     \<lparr>r_queue = \<lparr>q_events = [], q_output_bytes = 0, q_dropped = two_lost, q_reported = two_lost,
        q_final_notice = None, q_terminal = None, q_next_sequence = 4,
        q_phase = PhaseTerminal, q_consumer_alive = True\<rparr>,
      r_observed = True,
      r_received = [stalled_event 0 KAccepted, stalled_event 1 (KStarted 1 no_fence),
        stalled_event 2 (KOutputTruncated two_lost), stalled_event 3 (KFailed (Fmt ''x'' []))],
      r_emitted = [(OpAccepted, Inr Delivered), (OpStarted 1 no_fence, Inr Delivered),
        (OpOutput Stdout [1, 2], Inr Dropped)]\<rparr>"
  using stalled_run
  by (simp add: stream_history_def numeral_eq_Suc try_next_event_def release_def freed_bytes_def stalled_event_def)

theorem stream_refines_protocol_witness:
  "r_observed (stream_history tiny_stream (stalled_ops @ replicate 4 OpNext)) \<and>
   map (unat \<circ> ev_sequence) (r_received (stream_history tiny_stream (stalled_ops @ replicate 4 OpNext))) = [0, 1, 2, 3]"
  using stream_refines_protocol [OF tiny_wf refl, of "stalled_ops @ replicate 4 OpNext"]
  unfolding drained_run by (simp add: stalled_event_def is_terminal_def is_terminal_kind_def upt_rec)

theorem stream_stays_bounded_witness:
  "max_queued_events (si_limits tiny_stream) = 1 \<and>
   length (q_events (r_queue (stream_history tiny_stream stalled_ops))) = 2 \<and>
   length (q_events (r_queue (stream_history tiny_stream stalled_ops))) \<le> max_queued_events (si_limits tiny_stream) + 1"
  using stream_stays_bounded [OF tiny_wf refl, of stalled_ops]
  unfolding stalled_run by (simp add: tiny_stream_def)

theorem drops_are_exact_witness:
  "last_notice (r_received (stream_history tiny_stream (stalled_ops @ replicate 4 OpNext))) = two_lost \<and>
   lost_bytes Stdout (r_emitted (stream_history tiny_stream (stalled_ops @ replicate 4 OpNext))) = 2"
  using drops_are_exact [OF tiny_wf refl, of "stalled_ops @ replicate 4 OpNext"]
  unfolding drained_run by (simp add: lost_bytes_def)

theorem terminal_is_delivered_witness:
  "length (pending (r_queue (stream_history tiny_stream stalled_ops))) = 4 \<and>
   r_observed (stream_history tiny_stream (stalled_ops @ replicate 4 OpNext))"
proof -
  have len: "length (pending (r_queue (stream_history tiny_stream stalled_ops))) = 4"
    unfolding stalled_run by (simp add: pending_def)
  have "q_phase (r_queue (stream_history tiny_stream stalled_ops)) = PhaseTerminal"
    unfolding stalled_run by simp
  from terminal_is_delivered [OF tiny_wf refl this refl] len show ?thesis by simp
qed

end
