(* ===== verification/Local_Execution.thy ===== *)
theory Local_Execution
  imports Execution_Stream
begin

text \<open>
  The managed owner of one local execution (\<^verbatim>\<open>execution/local.rs\<close>, \<^verbatim>\<open>execution/tree.rs\<close>): how an
  execution is started or refused, the shared control state behind \<^verbatim>\<open>cancel\<close>, \<^verbatim>\<open>kill\<close> and \<^verbatim>\<open>wait\<close>,
  and the reaper, the two drainers, the escalation timer and the consumer as one interleaved step
  relation. What the operating system does (spawning, exit statuses, pipe contents, proxy
  finalization) enters as data of the steps.
\<close>

subsection \<open>Tree control\<close>

datatype TreeSignal = Graceful | Forced

record TreeState =
  tr_pid :: "u32 option"
  tr_leader_alive :: bool
  tr_requested :: "ExitDisposition option"
  tr_escalating :: bool

definition tree_new :: TreeState where
  "tree_new = \<lparr>tr_pid = None, tr_leader_alive = False, tr_requested = None, tr_escalating = False\<rparr>"

text \<open>\<^verbatim>\<open>signal_tree\<close> on Unix: the group signal is sent unless the pid is no positive \<^verbatim>\<open>i32\<close>.\<close>

definition signal_tree :: "u32 \<Rightarrow> TreeSignal \<Rightarrow> (u32 \<times> TreeSignal) list" where
  "signal_tree pid sig = (if unat pid < 2 ^ 31 \<and> pid \<noteq> 0 then [(pid, sig)] else [])"

definition signal_opt :: "u32 option \<Rightarrow> TreeSignal \<Rightarrow> (u32 \<times> TreeSignal) list" where
  "signal_opt pid sig = (case pid of None \<Rightarrow> [] | Some p \<Rightarrow> signal_tree p sig)"

definition arm :: "u32 \<Rightarrow> TreeState \<Rightarrow> TreeState" where
  "arm pid t = t\<lparr>tr_pid := Some pid, tr_leader_alive := True\<rparr>"

definition leader_reaped :: "TreeState \<Rightarrow> TreeState" where
  "leader_reaped t = t\<lparr>tr_leader_alive := False\<rparr>"

definition force_tree :: "TreeState \<Rightarrow> (u32 \<times> TreeSignal) list" where
  "force_tree t = signal_opt (tr_pid t) Forced"

definition disposition :: "TreeState \<Rightarrow> bool \<Rightarrow> ExitDisposition" where
  "disposition t descendants_reaped =
     (case tr_requested t of
        Some requested \<Rightarrow> requested
      | None \<Rightarrow> if descendants_reaped then DescendantsReaped else Natural)"

text \<open>\<^verbatim>\<open>cancel\<close>: the new state, the signals sent, and whether an escalation timer is started.\<close>

definition cancel :: "TreeState \<Rightarrow> TreeState \<times> (u32 \<times> TreeSignal) list \<times> bool" where
  "cancel t =
     (if \<not> tr_leader_alive t then (t, [], False)
      else
       (let t1 = t\<lparr>tr_requested := Some (case tr_requested t of None \<Rightarrow> Cancelled | Some d \<Rightarrow> d)\<rparr>
        in if tr_escalating t1 then (t1, signal_opt (tr_pid t1) Graceful, False)
           else (t1\<lparr>tr_escalating := True\<rparr>, signal_opt (tr_pid t1) Graceful, True)))"

definition escalate :: "TreeState \<Rightarrow> (u32 \<times> TreeSignal) list" where
  "escalate t = (if \<not> tr_leader_alive t then [] else signal_opt (tr_pid t) Forced)"

definition kill :: "TreeState \<Rightarrow> TreeState \<times> (u32 \<times> TreeSignal) list" where
  "kill t =
     (if \<not> tr_leader_alive t then (t, [])
      else (t\<lparr>tr_requested := Some Killed\<rparr>, signal_opt (tr_pid t) Forced))"

subsection \<open>Terminals\<close>

definition compose_terminal ::
  "string + (u32 option \<times> u32 option) \<Rightarrow> ProxyFinalEvidence option \<Rightarrow> string option \<Rightarrow> ExitDisposition \<Rightarrow>
   FenceEvidence \<Rightarrow> DroppedEvidence \<Rightarrow> ExecutionTerminal" where
  "compose_terminal status proxy_evidence proxy_failure disp fence dropped =
     (case proxy_failure of
        Some failure \<Rightarrow> TermFailed (Fmt ''egress proxy finalization failed: {failure}'' [failure])
      | None \<Rightarrow>
          (case status of
             Inr (code, signal) \<Rightarrow>
               TermExited \<lparr>ex_code = code, ex_signal = signal, ex_disposition = disp, ex_fence = fence,
                 ex_dropped = dropped, ex_proxy = proxy_evidence\<rparr>
           | Inl e \<Rightarrow> TermFailed (Fmt ''could not reap the execution's process tree: {e}'' [e])))"

definition guard_terminal :: ExecutionTerminal where
  "guard_terminal = TermFailed (Fmt ''the execution owner terminated without publishing a result'' [])"

text \<open>\<^verbatim>\<open>LocalControl::publish\<close>: the first terminal wins, in the cached slot and on the stream.\<close>

definition control_publish ::
  "StreamInner \<Rightarrow> ExecutionTerminal \<Rightarrow> ExecutionTerminal option \<Rightarrow> QueueState \<Rightarrow>
   ExecutionTerminal option \<times> QueueState \<times> unit ToolResult" where
  "control_publish s terminal slot q =
     (case slot of
        Some t \<Rightarrow> (Some t, q, Inr ())
      | None \<Rightarrow>
          (case publish_terminal s terminal q of (q', res) \<Rightarrow> (Some terminal, q', res)))"

subsection \<open>Starting\<close>

record ManagedSpawn =
  ms_pid :: u32
  ms_sandbox_kind :: SandboxKind
  ms_fence_id :: bytes
  ms_admitted :: "AdmittedFenceBody option"
  ms_proxied :: bool

definition spawn_fence :: "ManagedSpawn \<Rightarrow> FenceEvidence" where
  "spawn_fence m = \<lparr>fe_fence_id = ms_fence_id m, fe_sandbox_kind = ms_sandbox_kind m,
     fe_egress_proxied = ms_proxied m, fe_admitted = ms_admitted m\<rparr>"

record started_execution =
  se_stream :: StreamInner
  se_queue :: QueueState
  se_tree :: TreeState
  se_slot :: "ExecutionTerminal option"
  se_fence :: "FenceEvidence option"

text \<open>
  \<^verbatim>\<open>start_with_boundary\<close>, with the outcome of the spawn funnel as an argument and the rendering of
  an error as text as another. \<open>Inr\<close> is a returned handle; the last field is the fence of a live
  tree, handed to the drainers and the reaper. A child that cannot be attached is killed and reaped at
  once; the signals sent on the way are the first component of the outcome.
\<close>

definition abandon_unattached :: "u32 \<Rightarrow> (u32 \<times> TreeSignal) list" where
  "abandon_unattached pid = signal_tree pid Forced"

definition attach ::
  "ManagedSpawn \<Rightarrow> StreamInner \<Rightarrow> QueueState \<Rightarrow> (u32 \<times> TreeSignal) list \<times> started_execution ToolResult" where
  "attach spawned s q =
     (case started s (ms_pid spawned) (spawn_fence spawned) q of
        (q', Inl e) \<Rightarrow> (abandon_unattached (ms_pid spawned), Inl e)
      | (q', Inr _) \<Rightarrow>
          ([], Inr \<lparr>se_stream = s, se_queue = q', se_tree = arm (ms_pid spawned) tree_new, se_slot = None,
            se_fence = Some (spawn_fence spawned)\<rparr>))"

definition refusal_terminal :: "(ToolError \<Rightarrow> string) \<Rightarrow> string \<Rightarrow> ToolError \<Rightarrow> ExecutionTerminal" where
  "refusal_terminal show_error executable e =
     (case e of
        Denied reason \<Rightarrow> TermDenied \<lparr>dn_kind = DenyExec, dn_target = executable, dn_reason = reason\<rparr>
      | other \<Rightarrow> TermFailed (Fmt ''{}'' [show_error other]))"

definition start_with_boundary ::
  "(ToolError \<Rightarrow> string) \<Rightarrow> (ExecutionRequest \<Rightarrow> ManagedSpawn ToolResult) \<Rightarrow> u64 \<Rightarrow> ExecutionRequest \<Rightarrow>
   (u32 \<times> TreeSignal) list \<times> started_execution ToolResult" where
  "start_with_boundary show_error spawn eid request =
     (case request_validate request of
        Inl e \<Rightarrow> ([], Inl e)
      | Inr _ \<Rightarrow>
       (let s = \<lparr>si_id = eid, si_limits = req_limits request\<rparr> in
        case accepted s queue_init of
          (q, Inl e) \<Rightarrow> ([], Inl e)
        | (q, Inr _) \<Rightarrow>
            (case spawn request of
               Inr spawned \<Rightarrow> attach spawned s q
             | Inl e \<Rightarrow>
                 (case control_publish s (refusal_terminal show_error (req_executable request) e) None q of
                    (slot, q', Inl err) \<Rightarrow> ([], Inl err)
                  | (slot, q', Inr _) \<Rightarrow>
                      ([], Inr \<lparr>se_stream = s, se_queue = q', se_tree = tree_new, se_slot = slot,
                         se_fence = None\<rparr>)))))"

subsection \<open>The owner's threads\<close>

type_synonym exit_status = "string + (u32 option \<times> u32 option)"

datatype reaper_pc =
    RWaiting
  | RWaited exit_status                 \<comment> \<open>\<^verbatim>\<open>child.wait()\<close> returned, the lock not yet taken\<close>
  | RGrace exit_status                  \<comment> \<open>leader marked reaped, waiting for the drainers\<close>
  | RForcing exit_status                \<comment> \<open>deadline passed, group killed, still waiting\<close>
  | RJoined exit_status bool            \<comment> \<open>drainers joined; whether descendants were reaped\<close>
  | RReady ExecutionTerminal            \<comment> \<open>about to publish\<close>
  | RPublishing ExecutionTerminal       \<comment> \<open>cached in the slot, not yet on the stream\<close>
  | RDone ExecutionTerminal

datatype sender = ByControl | ByReaper

record owner =
  ow_tree :: TreeState
  ow_slot :: "ExecutionTerminal option"
  ow_run :: stream_run
  ow_pc :: reaper_pc
  ow_child_reaped :: bool               \<comment> \<open>the kernel has released the leader's pid\<close>
  ow_draining :: "OutputStream \<Rightarrow> bool"
  ow_timers :: nat
  ow_signals :: "(sender \<times> (u32 \<times> TreeSignal) \<times> bool) list"  \<comment> \<open>with \<open>ow_child_reaped\<close> at the time\<close>

abbreviation ow_queue :: "owner \<Rightarrow> QueueState" where
  "ow_queue w \<equiv> r_queue (ow_run w)"

definition send :: "sender \<Rightarrow> (u32 \<times> TreeSignal) list \<Rightarrow> owner \<Rightarrow> owner" where
  "send by sigs w = w\<lparr>ow_signals := ow_signals w @ map (\<lambda>sig. (by, sig, ow_child_reaped w)) sigs\<rparr>"

definition drained :: "owner \<Rightarrow> bool" where
  "drained w \<longleftrightarrow> \<not> ow_draining w Stdout \<and> \<not> ow_draining w Stderr"

definition owner_init :: "StreamInner \<Rightarrow> u32 \<Rightarrow> FenceEvidence \<Rightarrow> owner" where
  "owner_init s pid fence =
     \<lparr>ow_tree = arm pid tree_new, ow_slot = None,
      ow_run = stream_history s [OpAccepted, OpStarted pid fence], ow_pc = RWaiting,
      ow_child_reaped = False, ow_draining = (\<lambda>_. True), ow_timers = 0, ow_signals = []\<rparr>"

text \<open>
  One rule per atomic action: a drainer hands a chunk to the sink or sees the end of its pipe; the
  handle cancels, kills (or is dropped, which kills); an escalation timer fires; the consumer reads; and
  the reaper advances. The owner may die at any point before it publishes, and then its guard publishes.
\<close>

inductive owner_step :: "StreamInner \<Rightarrow> FenceEvidence \<Rightarrow> owner \<Rightarrow> owner \<Rightarrow> bool"
  for s :: StreamInner and fence :: FenceEvidence
where
  drain_chunk: "ow_draining w st \<Longrightarrow> bytes \<noteq> [] \<Longrightarrow> length bytes \<le> max_output_chunk_bytes (si_limits s) \<Longrightarrow>
     owner_step s fence w (w\<lparr>ow_run := stream_exec s (OpOutput st bytes) (ow_run w)\<rparr>)"
| drain_eof: "ow_draining w st \<Longrightarrow> owner_step s fence w (w\<lparr>ow_draining := (ow_draining w)(st := False)\<rparr>)"
| call_cancel: "cancel (ow_tree w) = (t, sigs, timer) \<Longrightarrow>
     owner_step s fence w (send ByControl sigs (w\<lparr>ow_tree := t, ow_timers := ow_timers w + (if timer then 1 else 0)\<rparr>))"
| call_kill: "kill (ow_tree w) = (t, sigs) \<Longrightarrow> owner_step s fence w (send ByControl sigs (w\<lparr>ow_tree := t\<rparr>))"
| timer_fires: "ow_timers w > 0 \<Longrightarrow>
     owner_step s fence w (send ByControl (escalate (ow_tree w)) (w\<lparr>ow_timers := ow_timers w - 1\<rparr>))"
| consumer: "op = OpNext \<or> op = OpDrop \<Longrightarrow> owner_step s fence w (w\<lparr>ow_run := stream_exec s op (ow_run w)\<rparr>)"
| reap_wait: "ow_pc w = RWaiting \<Longrightarrow>
     owner_step s fence w (w\<lparr>ow_pc := RWaited status, ow_child_reaped := True\<rparr>)"
| reap_mark: "ow_pc w = RWaited status \<Longrightarrow>
     owner_step s fence w (w\<lparr>ow_pc := RGrace status, ow_tree := leader_reaped (ow_tree w)\<rparr>)"
| reap_drained: "ow_pc w = RGrace status \<Longrightarrow> drained w \<Longrightarrow> owner_step s fence w (w\<lparr>ow_pc := RJoined status False\<rparr>)"
| reap_deadline: "ow_pc w = RGrace status \<Longrightarrow>
     owner_step s fence w (send ByReaper (force_tree (ow_tree w)) (w\<lparr>ow_pc := RForcing status\<rparr>))"
| reap_forced: "ow_pc w = RForcing status \<Longrightarrow> drained w \<Longrightarrow> owner_step s fence w (w\<lparr>ow_pc := RJoined status True\<rparr>)"
| reap_compose: "ow_pc w = RJoined status descendants \<Longrightarrow>
     owner_step s fence w (w\<lparr>ow_pc := RReady (compose_terminal status proxy_evidence proxy_failure
       (disposition (ow_tree w) descendants) fence (q_dropped (ow_queue w)))\<rparr>)"
| reap_slot: "ow_pc w = RReady t \<Longrightarrow> owner_step s fence w (w\<lparr>ow_pc := RPublishing t, ow_slot := Some t\<rparr>)"
| reap_publish: "ow_pc w = RPublishing t \<Longrightarrow>
     owner_step s fence w (w\<lparr>ow_pc := RDone t, ow_run := stream_exec s (OpPublish t) (ow_run w)\<rparr>)"
| reap_dies: "ow_slot w = None \<Longrightarrow> owner_step s fence w (w\<lparr>ow_pc := RReady guard_terminal\<rparr>)"

inductive owner_reach :: "StreamInner \<Rightarrow> FenceEvidence \<Rightarrow> u32 \<Rightarrow> owner \<Rightarrow> bool"
  for s :: StreamInner and fence :: FenceEvidence and pid :: u32
where
  init: "owner_reach s fence pid (owner_init s pid fence)"
| step: "owner_reach s fence pid w \<Longrightarrow> owner_step s fence w w' \<Longrightarrow> owner_reach s fence pid w'"

text \<open>\<^verbatim>\<open>wait\<close> returns the cached terminal, and waits while there is none.\<close>

definition wait :: "owner \<Rightarrow> ExecutionTerminal option" where
  "wait w = ow_slot w"

subsection \<open>The owner's invariant\<close>

fun pc_status :: "reaper_pc \<Rightarrow> exit_status option" where
  "pc_status (RGrace st) = Some st"
| "pc_status (RForcing st) = Some st"
| "pc_status (RJoined st d) = Some st"
| "pc_status _ = None"

fun pc_terminal :: "reaper_pc \<Rightarrow> ExecutionTerminal option" where
  "pc_terminal (RReady t) = Some t"
| "pc_terminal (RPublishing t) = Some t"
| "pc_terminal (RDone t) = Some t"
| "pc_terminal _ = None"

fun pc_slot :: "reaper_pc \<Rightarrow> ExecutionTerminal option" where
  "pc_slot (RPublishing t) = Some t"
| "pc_slot (RDone t) = Some t"
| "pc_slot _ = None"

fun pc_phase :: "reaper_pc \<Rightarrow> Phase" where
  "pc_phase (RDone t) = PhaseTerminal"
| "pc_phase _ = PhaseStarted"

fun pc_waited :: "reaper_pc \<Rightarrow> bool" where
  "pc_waited (RWaited st) = True"
| "pc_waited _ = False"

fun pc_joined :: "reaper_pc \<Rightarrow> bool" where
  "pc_joined (RJoined st d) = True"
| "pc_joined _ = False"

lemma pc_phase_cases: "pc_phase pc = PhaseTerminal \<or> pc_phase pc = PhaseStarted"
  by (cases pc) simp_all

lemma pc_slot_None: "pc_slot pc = None \<Longrightarrow> pc_phase pc = PhaseStarted"
  by (cases pc) simp_all

definition quiescent :: "FenceEvidence \<Rightarrow> owner \<Rightarrow> ExitEvidence \<Rightarrow> bool" where
  "quiescent fence w ev \<longleftrightarrow>
     ow_child_reaped w \<and> \<not> tr_leader_alive (ow_tree w) \<and> drained w \<and>
     ex_dropped ev = q_dropped (ow_queue w) \<and> ex_fence ev = fence \<and>
     (ex_disposition ev = disposition (ow_tree w) False \<or> ex_disposition ev = disposition (ow_tree w) True)"

definition owner_inv :: "StreamInner \<Rightarrow> FenceEvidence \<Rightarrow> u32 \<Rightarrow> owner \<Rightarrow> bool" where
  "owner_inv s fence pid w \<longleftrightarrow>
     stream_ok s (ow_run w) \<and>
     ow_slot w = pc_slot (ow_pc w) \<and>
     q_phase (ow_queue w) = pc_phase (ow_pc w) \<and>
     tr_pid (ow_tree w) = Some pid \<and>
     (\<not> tr_leader_alive (ow_tree w) \<longrightarrow> ow_child_reaped w) \<and>
     (pc_status (ow_pc w) \<noteq> None \<longrightarrow> \<not> tr_leader_alive (ow_tree w)) \<and>
     (pc_waited (ow_pc w) \<longrightarrow> ow_child_reaped w) \<and> (pc_joined (ow_pc w) \<longrightarrow> drained w) \<and>
     (\<forall>ev. pc_terminal (ow_pc w) = Some (TermExited ev) \<longrightarrow> quiescent fence w ev) \<and>
     ow_timers w \<le> (if tr_escalating (ow_tree w) then 1 else 0)"

lemma compose_exited:
  "compose_terminal status pe pf disp fence dropped = TermExited ev \<Longrightarrow>
     pf = None \<and> is_ok status \<and> ex_disposition ev = disp \<and> ex_fence ev = fence \<and> ex_dropped ev = dropped \<and> ex_proxy ev = pe"
  by (auto simp: compose_terminal_def split: option.splits sum.splits)

lemma send_simps [simp]:
  "ow_tree (send by sigs w) = ow_tree w" "ow_slot (send by sigs w) = ow_slot w" "ow_run (send by sigs w) = ow_run w"
  "ow_pc (send by sigs w) = ow_pc w" "ow_child_reaped (send by sigs w) = ow_child_reaped w"
  "ow_draining (send by sigs w) = ow_draining w" "ow_timers (send by sigs w) = ow_timers w"
  "ow_signals (send by sigs w) = ow_signals w @ map (\<lambda>sig. (by, sig, ow_child_reaped w)) sigs"
  by (simp_all add: send_def)

lemma tree_calls:
  "cancel t = (t', sigs, timer) \<Longrightarrow> tr_pid t' = tr_pid t \<and> tr_leader_alive t' = tr_leader_alive t \<and>
     (timer \<longrightarrow> \<not> tr_escalating t \<and> tr_escalating t') \<and> (tr_escalating t \<longrightarrow> tr_escalating t') \<and>
     (\<not> tr_leader_alive t \<longrightarrow> t' = t \<and> sigs = [])"
  "kill t = (t', sigs') \<Longrightarrow> tr_pid t' = tr_pid t \<and> tr_leader_alive t' = tr_leader_alive t \<and>
     tr_escalating t' = tr_escalating t \<and> (\<not> tr_leader_alive t \<longrightarrow> t' = t \<and> sigs' = [])"
  by (auto simp: cancel_def kill_def Let_def split: if_splits)

lemma owner_inv_init:
  assumes "limits_wf (si_limits s)"
  shows "owner_inv s fence pid (owner_init s pid fence)"
proof -
  have "q_phase (r_queue (stream_history s [OpAccepted, OpStarted pid fence])) = PhaseStarted"
    by (simp add: stream_history_def run_init_def queue_init_def emit_def accepted_def started_def)
  with stream_ok_history [OF assms] show ?thesis
    by (simp add: owner_inv_def owner_init_def arm_def tree_new_def)
qed


lemma drained_iff: "drained w \<longleftrightarrow> (\<forall>st. \<not> ow_draining w st)"
  unfolding drained_def by (metis OutputStream.exhaust)

lemma drained_simps [simp]:
  "drained (w\<lparr>ow_run := r\<rparr>) = drained w" "drained (w\<lparr>ow_tree := t\<rparr>) = drained w" "drained (w\<lparr>ow_pc := pc\<rparr>) = drained w"
  "drained (w\<lparr>ow_slot := sl\<rparr>) = drained w" "drained (w\<lparr>ow_timers := n\<rparr>) = drained w"
  "drained (w\<lparr>ow_child_reaped := b\<rparr>) = drained w" "drained (send by sigs w) = drained w"
  by (simp_all add: drained_def)

lemma consumer_keeps:
  assumes "op = OpNext \<or> op = OpDrop"
  shows "q_phase (r_queue (stream_exec s op r)) = q_phase (r_queue r)"
    "q_dropped (r_queue (stream_exec s op r)) = q_dropped (r_queue r)"
  using assms next_moves(2,3) [of "r_queue r" "r_observed r"]
  by (cases "try_next_event (r_queue r) (r_observed r)"; auto simp: drop_handle_def)+

lemma output_phase: "q_phase q = PhaseStarted \<Longrightarrow> q_phase (fst (emit_output s st b q)) = PhaseStarted"
  by (simp add: emit_output_def record_drop_def Let_def)

lemma publish_started:
  assumes "q_phase q = PhaseStarted"
  shows "q_phase (fst (publish_terminal s t q)) = PhaseTerminal" "q_dropped (fst (publish_terminal s t q)) = q_dropped q"
    "snd (publish_terminal s t q) = Inr ()"
  using assms by (simp_all add: publish_terminal_def Let_def)

lemmas owner_inv_unfold = owner_inv_def quiescent_def

text \<open>A step that only calls into the tree control leaves everything but the request alone.\<close>

lemma inv_tree_call:
  assumes inv: "owner_inv s fence pid w"
    and t: "tr_pid t = tr_pid (ow_tree w)" "tr_leader_alive t = tr_leader_alive (ow_tree w)"
      "\<not> tr_leader_alive (ow_tree w) \<longrightarrow> t = ow_tree w"
    and timers: "n \<le> (if tr_escalating t then 1 else 0)"
  shows "owner_inv s fence pid (send by sigs (w\<lparr>ow_tree := t, ow_timers := n\<rparr>))"
proof -
  have "quiescent fence w ev \<Longrightarrow> t = ow_tree w" for ev
    using t(3) by (simp add: quiescent_def)
  with inv t timers show ?thesis
    by (auto simp: owner_inv_def) (auto simp: quiescent_def)
qed

lemma owner_inv_step:
  assumes step: "owner_step s fence w w'" and inv: "owner_inv s fence pid w" and wf: "limits_wf (si_limits s)"
  shows "owner_inv s fence pid w'"
  using step
proof cases
  case (drain_chunk st bytes)
  have ok: "stream_ok s (stream_exec s (OpOutput st bytes) (ow_run w))"
    using inv wf by (intro stream_ok_exec) (simp_all add: owner_inv_def)
  have "\<not> drained w" using drain_chunk by (auto simp: drained_iff)
  then have "\<nexists>ev. pc_terminal (ow_pc w) = Some (TermExited ev)" "\<not> pc_joined (ow_pc w)"
    using inv by (auto simp: owner_inv_unfold)
  moreover have "q_phase (r_queue (stream_exec s (OpOutput st bytes) (ow_run w))) = q_phase (ow_queue w)"
    using inv output_phase producers_terminal(3) pc_phase_cases [of "ow_pc w"]
    by (auto simp: owner_inv_def emit_def)
  ultimately show ?thesis using inv ok drain_chunk(1) by (simp add: owner_inv_unfold)
next
  case (drain_eof st)
  then show ?thesis using inv by (auto simp: owner_inv_unfold drained_iff)
next
  case (call_cancel t sigs timer)
  note tc = tree_calls(1) [OF call_cancel(2)]
  have "ow_timers w + (if timer then 1 else 0) \<le> (if tr_escalating t then 1 else 0)"
    using tc inv by (auto simp: owner_inv_def split: if_splits)
  then show ?thesis unfolding call_cancel(1) using tc by (intro inv_tree_call [OF inv]) auto
next
  case (call_kill t sigs)
  note tc = tree_calls(2) [OF call_kill(2)]
  have "owner_inv s fence pid (send ByControl sigs (w\<lparr>ow_tree := t, ow_timers := ow_timers w\<rparr>))"
    using tc inv by (intro inv_tree_call [OF inv]) (auto simp: owner_inv_def)
  then show ?thesis by (simp add: call_kill)
next
  case timer_fires
  have "owner_inv s fence pid (send ByControl (escalate (ow_tree w)) (w\<lparr>ow_tree := ow_tree w, ow_timers := ow_timers w - 1\<rparr>))"
    using inv by (intro inv_tree_call [OF inv]) (auto simp: owner_inv_def)
  then show ?thesis by (simp add: timer_fires)
next
  case (consumer op)
  have "stream_ok s (stream_exec s op (ow_run w))"
    using inv wf by (intro stream_ok_exec) (simp_all add: owner_inv_def)
  with inv consumer_keeps [OF consumer(2), of s "ow_run w"] show ?thesis
    by (simp add: consumer owner_inv_unfold)
next
  case (reap_compose status descendants pe pf)
  have "quiescent fence w' ev" if "pc_terminal (ow_pc w') = Some (TermExited ev)" for ev
    using that inv reap_compose compose_exited [of status pe pf "disposition (ow_tree w) descendants" fence "q_dropped (ow_queue w)" ev]
    by (cases descendants) (auto simp: owner_inv_unfold)
  with inv reap_compose show ?thesis by (auto simp: owner_inv_def)
next
  case (reap_publish t)
  have "stream_ok s (stream_exec s (OpPublish t) (ow_run w))"
    using inv wf by (intro stream_ok_exec) (simp_all add: owner_inv_def)
  moreover have "q_phase (ow_queue w) = PhaseStarted" using inv reap_publish by (simp add: owner_inv_def)
  ultimately show ?thesis
    using inv publish_started [of "ow_queue w" s t] by (auto simp: reap_publish owner_inv_unfold)
next
  case reap_dies
  then show ?thesis using inv
    by (auto simp: owner_inv_unfold guard_terminal_def pc_slot_None)
qed (use inv in \<open>auto simp: owner_inv_unfold leader_reaped_def disposition_def\<close>)

lemma owner_inv_reach:
  "owner_reach s fence pid w \<Longrightarrow> limits_wf (si_limits s) \<Longrightarrow> owner_inv s fence pid w"
  by (induction rule: owner_reach.induct) (simp_all add: owner_inv_init owner_inv_step)


lemma started_no_terminal:
  assumes "stream_ok s r" "q_phase (r_queue r) = PhaseStarted"
  shows "e \<in> set (r_received r @ pending (r_queue r)) \<Longrightarrow> \<not> is_terminal e"
proof -
  let ?es = "r_received r @ pending (r_queue r)"
  have "spec_run False PhaseAccepted (map ev_kind ?es) = Some PhaseStarted"
    using assms by (simp add: stream_ok_def stream_core_def stream_log_def)
  from spec_run_terminal_last [OF this]
  have "list_all (\<lambda>k. \<not> is_terminal_kind k) (map ev_kind ?es)"
    by (cases "map ev_kind ?es" rule: rev_cases) auto
  then show "e \<in> set ?es \<Longrightarrow> \<not> is_terminal e"
    by (auto simp: list_all_iff is_terminal_def)
qed

definition log_terminal :: "stream_run \<Rightarrow> ExecutionTerminal option \<Rightarrow> bool" where
  "log_terminal r slot \<longleftrightarrow>
     (\<forall>e\<in>set (r_received r @ pending (r_queue r)). is_terminal e \<longrightarrow>
        (\<exists>t. slot = Some t \<and> ev_kind e = terminal_kind t))"

lemma log_terminal_consumer:
  assumes "op = OpNext \<or> op = OpDrop" "log_terminal r slot"
  shows "log_terminal (stream_exec s op r) slot"
proof -
  have "r_received (stream_exec s op r) @ pending (r_queue (stream_exec s op r)) = r_received r @ pending (r_queue r)"
    using assms(1) next_moves(1) [of "r_queue r" "r_observed r"]
    by (cases "try_next_event (r_queue r) (r_observed r)") (auto simp: drop_handle_def pending_def)
  with assms(2) show ?thesis unfolding log_terminal_def by metis
qed

lemma log_terminal_publish:
  assumes "stream_ok s r" "q_phase (r_queue r) = PhaseStarted"
  shows "log_terminal (stream_exec s (OpPublish t) r) (Some t)"
proof -
  let ?q = "fst (publish_terminal s t (r_queue r))"
  have "set (pending ?q) \<subseteq> set (pending (r_queue r)) \<union>
      {event_at s' q' k | s' q' k. k = terminal_kind t \<or> (\<exists>d. k = KOutputTruncated d)}"
    using assms(2) core_slots [of s "r_received r" "r_queue r"] assms(1)
    by (auto simp: publish_terminal_def reserve_final_notice_def pending_def Let_def stream_ok_def)
  with started_no_terminal [OF assms] show ?thesis
    by (fastforce simp: log_terminal_def event_at_def is_terminal_def is_terminal_kind_def)
qed

lemma log_terminal_step:
  assumes "owner_step s fence w w'" "owner_inv s fence pid w" "limits_wf (si_limits s)"
    "log_terminal (ow_run w) (ow_slot w)"
  shows "log_terminal (ow_run w') (ow_slot w')"
  using assms(1)
proof cases
  case (drain_chunk st bytes)
  show ?thesis
  proof (cases "q_phase (ow_queue w) = PhaseTerminal")
    case True
    then show ?thesis
      using assms(4) drain_chunk by (simp add: emit_def producers_terminal log_terminal_def)
  next
    case False
    then have "q_phase (ow_queue w) = PhaseStarted"
      using assms(2) pc_phase_cases [of "ow_pc w"] by (auto simp: owner_inv_def)
    then have "q_phase (ow_queue w') = PhaseStarted" "stream_ok s (ow_run w')"
      using drain_chunk output_phase assms(2,3) by (simp_all add: emit_def owner_inv_def stream_ok_exec del: stream_exec.simps)
        (simp_all add: emit_def output_phase)
    from started_no_terminal [OF this(2,1)] show ?thesis by (auto simp: log_terminal_def)
  qed
next
  case (consumer op)
  then show ?thesis using log_terminal_consumer assms(4) by simp
next
  case (reap_slot t)
  then have "q_phase (ow_queue w) = PhaseStarted" "stream_ok s (ow_run w)"
    using assms(2) by (simp_all add: owner_inv_def)
  from started_no_terminal [OF this(2,1)] reap_slot show ?thesis by (auto simp: log_terminal_def)
next
  case (reap_publish t)
  then have "q_phase (ow_queue w) = PhaseStarted" "stream_ok s (ow_run w)" "ow_slot w = Some t"
    using assms(2) by (simp_all add: owner_inv_def)
  with log_terminal_publish reap_publish show ?thesis by simp
qed (use assms(4) in simp_all)

lemma log_terminal_reach:
  "owner_reach s fence pid w \<Longrightarrow> limits_wf (si_limits s) \<Longrightarrow> log_terminal (ow_run w) (ow_slot w)"
proof (induction rule: owner_reach.induct)
  case init
  have "owner_inv s fence pid (owner_init s pid fence)" by (rule owner_inv_init [OF init])
  then have "stream_ok s (ow_run (owner_init s pid fence))" "q_phase (ow_queue (owner_init s pid fence)) = PhaseStarted"
    by (simp_all add: owner_inv_def owner_init_def)
  from started_no_terminal [OF this] show ?case by (auto simp: log_terminal_def)
next
  case (step w w')
  then show ?case using log_terminal_step owner_inv_reach by blast
qed

lemma slot_is_final:
  assumes "owner_step s fence w w'" "owner_inv s fence pid w" "ow_slot w = Some t"
  shows "ow_slot w' = Some t"
  using assms by cases (auto simp: owner_inv_def)

lemma wait_stable:
  assumes "(owner_step s fence)\<^sup>*\<^sup>* w w'" "owner_reach s fence pid w" "limits_wf (si_limits s)" "wait w = Some t"
  shows "wait w' = Some t \<and> owner_reach s fence pid w'"
  using assms(1)
proof (induction rule: rtranclp_induct)
  case base
  then show ?case using assms by simp
next
  case (step w1 w2)
  then show ?case
    using slot_is_final [OF step(2) owner_inv_reach] assms(3) owner_reach.step
    by (auto simp: wait_def)
qed


text \<open>C24. An \<^verbatim>\<open>Exited\<close> terminal is honest. Whatever the interleaving of drainers, cancellation, kill,
  escalation, consumption and reaping, once \<^verbatim>\<open>wait\<close> returns an exit the leader is reaped and marked,
  both pipes are at their end, the fence is the one the tree was started under and the drop totals it
  carries are those of the stream. Every later \<^verbatim>\<open>wait\<close> returns the same terminal, the drop totals never
  move again, and a terminal event on the stream is that same terminal.\<close>

theorem exited_is_quiescent:
  assumes "limits_wf (si_limits s)" and "owner_reach s fence pid w" and "wait w = Some (TermExited ev)"
    and "(owner_step s fence)\<^sup>*\<^sup>* w w'"
  shows "ow_child_reaped w' \<and> \<not> tr_leader_alive (ow_tree w') \<and> drained w' \<and> ex_fence ev = fence \<and>
    ex_dropped ev = q_dropped (ow_queue w') \<and> wait w' = Some (TermExited ev) \<and>
    (\<forall>e\<in>set (r_received (ow_run w')). is_terminal e \<longrightarrow> ev_kind e = KExited ev)"
proof -
  have w': "wait w' = Some (TermExited ev)" "owner_reach s fence pid w'"
    using wait_stable [OF assms(4,2,1,3)] by simp_all
  then have "owner_inv s fence pid w'" using assms(1) owner_inv_reach by blast
  moreover from this w' have "pc_terminal (ow_pc w') = Some (TermExited ev)"
    by (cases "ow_pc w'") (simp_all add: owner_inv_def wait_def)
  ultimately have "quiescent fence w' ev" by (simp add: owner_inv_def)
  moreover have "log_terminal (ow_run w') (Some (TermExited ev))"
    using log_terminal_reach [OF w'(2) assms(1)] w'(1) by (simp add: wait_def)
  ultimately show ?thesis
    using w'(1) by (auto simp: quiescent_def log_terminal_def terminal_kind_def)
qed

lemma calls_signal_alive:
  "cancel t = (t', sigs, timer) \<Longrightarrow> sigs \<noteq> [] \<Longrightarrow> tr_leader_alive t"
  "kill t = (t', sigs) \<Longrightarrow> sigs \<noteq> [] \<Longrightarrow> tr_leader_alive t"
  "escalate t \<noteq> [] \<Longrightarrow> tr_leader_alive t"
  by (auto simp: cancel_def kill_def escalate_def split: if_splits)

lemma step_signals:
  assumes "owner_step s fence w w'" "ow_signals w' \<noteq> ow_signals w"
  shows "tr_leader_alive (ow_tree w) \<or> (\<exists>st. ow_pc w = RGrace st \<and> ow_pc w' = RForcing st)"
  using assms by cases (auto dest: calls_signal_alive)

definition first_wait :: "StreamInner \<Rightarrow> u32 \<Rightarrow> FenceEvidence \<Rightarrow> owner" where
  "first_wait s pid fence =
     owner_init s pid fence\<lparr>ow_draining := \<lambda>_. False, ow_pc := RWaited (Inr (Some 0, None)), ow_child_reaped := True\<rparr>"

lemma eof_both:
  "owner_reach s fence pid (owner_init s pid fence\<lparr>ow_draining := \<lambda>_. False\<rparr>)"
proof -
  let ?w = "owner_init s pid fence"
  have "owner_reach s fence pid (?w\<lparr>ow_draining := (ow_draining ?w)(Stdout := False)\<rparr>)" (is "owner_reach s fence pid ?v")
    by (rule owner_reach.step [OF owner_reach.init owner_step.drain_eof]) (simp add: owner_init_def)
  from owner_reach.step [OF this owner_step.drain_eof, of Stderr]
  have "owner_reach s fence pid (?v\<lparr>ow_draining := (ow_draining ?v)(Stderr := False)\<rparr>)"
    by (simp add: owner_init_def)
  moreover have "((\<lambda>_. True)(Stdout := False, Stderr := False)) = (\<lambda>_. False)"
    by (rule ext) (metis (full_types) OutputStream.exhaust fun_upd_apply)
  ultimately show ?thesis by (simp add: owner_init_def)
qed

lemma first_wait_reach: "owner_reach s fence pid (first_wait s pid fence)"
  unfolding first_wait_def
  by (rule owner_reach.step [OF eof_both owner_step.reap_wait]) (simp add: owner_init_def)

text \<open>Signals and the recycled pid. A tree signal is sent only while the leader is not yet marked
  as reaped, or once by the reaper itself when its deadline passes, so none follows the mark from
  \<^verbatim>\<open>cancel\<close>, \<^verbatim>\<open>kill\<close> or the escalation timer; and at most one timer is ever pending. The mark, however,
  is set after \<^verbatim>\<open>child.wait()\<close> has returned: in between, for every pid that can be signalled, a
  \<^verbatim>\<open>kill\<close> does signal the group of a pid the kernel has already released, with both pipes closed.\<close>

theorem signals_stop_at_the_mark:
  assumes "limits_wf (si_limits s)"
  shows "(\<forall>w w'. owner_reach s fence pid w \<and> owner_step s fence w w' \<and> ow_signals w' \<noteq> ow_signals w \<longrightarrow>
      tr_leader_alive (ow_tree w) \<or> (\<exists>st. ow_pc w = RGrace st \<and> ow_pc w' = RForcing st)) \<and>
    (\<forall>w. owner_reach s fence pid w \<longrightarrow> ow_timers w \<le> 1) \<and>
    (unat pid < 2 ^ 31 \<and> pid \<noteq> 0 \<longrightarrow>
      (\<exists>w. owner_reach s fence pid w \<and> (ByControl, (pid, Forced), True) \<in> set (ow_signals w) \<and> drained w))"
proof (intro conjI allI impI)
  fix w assume "owner_reach s fence pid w"
  then have "owner_inv s fence pid w" using owner_inv_reach assms by blast
  then show "ow_timers w \<le> 1" by (auto simp: owner_inv_def split: if_splits)
next
  assume "unat pid < 2 ^ 31 \<and> pid \<noteq> 0"
  then have "kill (ow_tree (first_wait s pid fence)) =
      ((ow_tree (first_wait s pid fence))\<lparr>tr_requested := Some Killed\<rparr>, [(pid, Forced)])"
    by (simp add: first_wait_def owner_init_def arm_def tree_new_def kill_def signal_opt_def signal_tree_def)
  from owner_reach.step [OF first_wait_reach owner_step.call_kill [OF this]]
  show "\<exists>w. owner_reach s fence pid w \<and> (ByControl, (pid, Forced), True) \<in> set (ow_signals w) \<and> drained w"
    by (intro exI conjI, assumption) (simp_all add: first_wait_def drained_def)
qed (use step_signals in blast)

text \<open>How a start answers. A valid request the spawn funnel refuses yields a handle whose stream is
  \<^verbatim>\<open>Accepted\<close> and then the structured refusal as its terminal, with no \<^verbatim>\<open>Started\<close>, no pid to signal and
  \<^verbatim>\<open>wait\<close> already answered; one it admits yields \<^verbatim>\<open>Accepted\<close>, \<^verbatim>\<open>Started\<close> with the fence that was
  admitted, and an armed control; an invalid request yields neither a stream nor a spawn attempt.\<close>

theorem start_reports_refusal:
  shows "(request_validate req = Inl e \<longrightarrow> start_with_boundary sh spawn eid req = ([], Inl e)) \<and>
    (request_validate req = Inr () \<and> spawn req = Inl err \<longrightarrow>
      (\<exists>x. start_with_boundary sh spawn eid req = ([], Inr x) \<and>
        map ev_kind (pending (se_queue x)) = [KAccepted, terminal_kind (refusal_terminal sh (req_executable req) err)] \<and>
        se_slot x = Some (refusal_terminal sh (req_executable req) err) \<and>
        \<not> is_exited (refusal_terminal sh (req_executable req) err) \<and>
        fst (cancel (se_tree x)) = se_tree x \<and> kill (se_tree x) = (se_tree x, []) \<and> se_fence x = None)) \<and>
    (request_validate req = Inr () \<and> spawn req = Inr m \<longrightarrow>
      (\<exists>x. start_with_boundary sh spawn eid req = ([], Inr x) \<and>
        map ev_kind (pending (se_queue x)) = [KAccepted, KStarted (ms_pid m) (spawn_fence m)] \<and>
        se_slot x = None \<and> tr_pid (se_tree x) = Some (ms_pid m) \<and> tr_leader_alive (se_tree x) \<and>
        se_fence x = Some (spawn_fence m)))"
proof -
  have no_exit: "\<not> is_exited (refusal_terminal sh x err)" for x
    by (cases err) (simp_all add: refusal_terminal_def is_exited_def)
  note defs = start_with_boundary_def accepted_def queue_init_def push_def control_publish_def publish_terminal_def
    reserve_final_notice_def event_at_def pending_def attach_def started_def tree_new_def
  show ?thesis
    by (simp add: defs no_exit cancel_def kill_def arm_def)
qed


definition natural_exit :: ExitEvidence where
  "natural_exit = \<lparr>ex_code = Some 0, ex_signal = None, ex_disposition = Natural, ex_fence = no_fence,
     ex_dropped = no_drops, ex_proxy = None\<rparr>"

lemma natural_exit_reach:
  "owner_reach tiny_stream no_fence 42 (first_wait tiny_stream 42 no_fence\<lparr>
     ow_tree := leader_reaped (arm 42 tree_new), ow_pc := RPublishing (TermExited natural_exit),
     ow_slot := Some (TermExited natural_exit)\<rparr>)" (is "owner_reach _ _ _ ?w")
proof -
  let ?st = "Inr (Some 0, None) :: exit_status"
  let ?w0 = "first_wait tiny_stream 42 no_fence"
  note init = first_wait_def owner_init_def
  have "owner_reach tiny_stream no_fence 42 (?w0\<lparr>ow_pc := RGrace ?st, ow_tree := leader_reaped (ow_tree ?w0)\<rparr>)"
    (is "owner_reach _ _ _ ?w1")
    by (rule owner_reach.step [OF first_wait_reach owner_step.reap_mark]) (simp add: init)
  from owner_reach.step [OF this owner_step.reap_drained, of ?st]
  have "owner_reach tiny_stream no_fence 42 (?w1\<lparr>ow_pc := RJoined ?st False\<rparr>)" (is "owner_reach _ _ _ ?w2")
    by (simp add: init drained_def)
  from owner_reach.step [OF this owner_step.reap_compose, of ?st False None None]
  have "owner_reach tiny_stream no_fence 42 (?w2\<lparr>ow_pc := RReady (TermExited natural_exit)\<rparr>)" (is "owner_reach _ _ _ ?w3")
    by (simp add: init compose_terminal_def natural_exit_def disposition_def leader_reaped_def arm_def tree_new_def
        stream_history_def run_init_def queue_init_def emit_def accepted_def started_def push_def)
  from owner_reach.step [OF this owner_step.reap_slot, of "TermExited natural_exit"]
  show ?thesis by (simp add: init)
qed

theorem exited_is_quiescent_witness:
  "\<exists>w. wait w = Some (TermExited natural_exit) \<and> drained w \<and> q_dropped (ow_queue w) = no_drops"
proof -
  let ?w = "first_wait tiny_stream 42 no_fence\<lparr>ow_tree := leader_reaped (arm 42 tree_new),
     ow_pc := RPublishing (TermExited natural_exit), ow_slot := Some (TermExited natural_exit)\<rparr>"
  have "wait ?w = Some (TermExited natural_exit)" by (simp add: wait_def)
  from exited_is_quiescent [OF tiny_wf natural_exit_reach this rtranclp.rtrancl_refl]
  show ?thesis by (auto simp: natural_exit_def)
qed

theorem signals_stop_at_the_mark_witness:
  "\<exists>w. owner_reach tiny_stream no_fence 42 w \<and> (ByControl, (42, Forced), True) \<in> set (ow_signals w) \<and> drained w"
  using signals_stop_at_the_mark [OF tiny_wf, of no_fence 42] by simp

theorem start_reports_refusal_witness:
  "\<exists>x. start_with_boundary (\<lambda>_. []) (\<lambda>_. Inl (denied ''no'' [])) 1 ls_request = ([], Inr x) \<and> se_fence x = None"
proof -
  have "request_validate ls_request = Inr ()"
    unfolding request_validate_iff by (simp add: ceiling_defs)
  then show ?thesis
    using start_reports_refusal [of ls_request Budget "\<lambda>_. []" "\<lambda>_. Inl (denied ''no'' [])" 1 "denied ''no'' []"]
    by fastforce
qed

end
