(* ===== verification/Ip_Screen.thy ===== *)
theory Ip_Screen
  imports Authority
begin

unbundle bit_operations_syntax

text \<open>
  The two address screens: the web tool's net guard (\<^verbatim>\<open>agent-bridle-tool-web/src/net_guard.rs\<close>) and
  the egress proxy's pivot guard (\<^verbatim>\<open>is_internal_ip\<close> of \<^verbatim>\<open>agent-bridle-core/src/net_proxy.rs\<close>). Both are
  written over octets and segments, as the code has them, and shown equal to tables of address ranges.
\<close>

subsection \<open>Addresses\<close>

datatype IpAddr = V4 u32 | V6 "128 word"

definition octet :: "nat \<Rightarrow> u32 \<Rightarrow> u8" where
  "octet i a = ucast (drop_bit (8 * (3 - i)) a)"

definition segment :: "nat \<Rightarrow> 128 word \<Rightarrow> u16" where
  "segment i a = ucast (drop_bit (16 * (7 - i)) a)"

text \<open>The predicates of the standard library, on octets and segments as it defines them.\<close>

definition v4_is_private :: "u32 \<Rightarrow> bool" where
  "v4_is_private a \<longleftrightarrow>
     octet 0 a = 10 \<or> octet 0 a = 172 \<and> 16 \<le> octet 1 a \<and> octet 1 a \<le> 31 \<or> octet 0 a = 192 \<and> octet 1 a = 168"

definition v4_is_loopback :: "u32 \<Rightarrow> bool" where "v4_is_loopback a \<longleftrightarrow> octet 0 a = 127"

definition v4_is_link_local :: "u32 \<Rightarrow> bool" where
  "v4_is_link_local a \<longleftrightarrow> octet 0 a = 169 \<and> octet 1 a = 254"

definition v4_is_unspecified :: "u32 \<Rightarrow> bool" where "v4_is_unspecified a \<longleftrightarrow> a = 0"

definition v4_is_broadcast :: "u32 \<Rightarrow> bool" where "v4_is_broadcast a \<longleftrightarrow> a = 0xFFFFFFFF"

definition v4_is_multicast :: "u32 \<Rightarrow> bool" where
  "v4_is_multicast a \<longleftrightarrow> 224 \<le> octet 0 a \<and> octet 0 a \<le> 239"

definition v4_is_documentation :: "u32 \<Rightarrow> bool" where
  "v4_is_documentation a \<longleftrightarrow>
     octet 0 a = 192 \<and> octet 1 a = 0 \<and> octet 2 a = 2 \<or>
     octet 0 a = 198 \<and> octet 1 a = 51 \<and> octet 2 a = 100 \<or>
     octet 0 a = 203 \<and> octet 1 a = 0 \<and> octet 2 a = 113"

definition v6_is_unspecified :: "128 word \<Rightarrow> bool" where "v6_is_unspecified a \<longleftrightarrow> a = 0"

definition v6_is_loopback :: "128 word \<Rightarrow> bool" where "v6_is_loopback a \<longleftrightarrow> a = 1"

definition v6_is_multicast :: "128 word \<Rightarrow> bool" where
  "v6_is_multicast a \<longleftrightarrow> segment 0 a AND 0xff00 = 0xff00"

definition to_ipv4_mapped :: "128 word \<Rightarrow> u32 option" where
  "to_ipv4_mapped a = (if drop_bit 32 a = 0xffff then Some (ucast a) else None)"

definition to_ipv4 :: "128 word \<Rightarrow> u32 option" where
  "to_ipv4 a = (if drop_bit 32 a = 0 \<or> drop_bit 32 a = 0xffff then Some (ucast a) else None)"

subsection \<open>The egress proxy's screen\<close>

definition v4_is_internal :: "u32 \<Rightarrow> bool" where
  "v4_is_internal a \<longleftrightarrow>
     v4_is_private a \<or> v4_is_link_local a \<or> v4_is_unspecified a \<or> v4_is_broadcast a \<or> v4_is_multicast a \<or>
     v4_is_documentation a \<or> octet 0 a = 0 \<or> octet 0 a \<ge> 240 \<or>
     octet 0 a = 198 \<and> (octet 1 a = 18 \<or> octet 1 a = 19) \<or>
     octet 0 a = 100 \<and> 64 \<le> octet 1 a \<and> octet 1 a \<le> 127"

definition is_internal_ip :: "IpAddr \<Rightarrow> bool" where
  "is_internal_ip ip =
     (case ip of
        V4 v4 \<Rightarrow> v4_is_internal v4
      | V6 v6 \<Rightarrow>
          (case to_ipv4_mapped v6 of
             Some v4 \<Rightarrow> v4_is_internal v4
           | None \<Rightarrow>
               (let seg0 = segment 0 v6 in
                v6_is_unspecified v6 \<or> v6_is_multicast v6 \<or> seg0 AND 0xfe00 = 0xfc00 \<or>
                seg0 AND 0xffc0 = 0xfe80 \<or> seg0 AND 0xffc0 = 0xfec0 \<or>
                seg0 = 0x2001 \<and> segment 1 v6 = 0x0db8)))"

subsection \<open>The web tool's screen\<close>

definition ipv4_is_blocked :: "u32 \<Rightarrow> bool" where
  "ipv4_is_blocked a \<longleftrightarrow>
     v4_is_private a \<or> v4_is_loopback a \<or> v4_is_link_local a \<or> v4_is_broadcast a \<or> v4_is_documentation a \<or>
     v4_is_unspecified a \<or> octet 0 a = 0 \<or> octet 0 a = 100 \<and> octet 1 a AND 0xc0 = 0x40 \<or> octet 0 a \<ge> 240"

definition ipv6_is_blocked :: "128 word \<Rightarrow> bool" where
  "ipv6_is_blocked a \<longleftrightarrow>
     v6_is_loopback a \<or> v6_is_unspecified a \<or>
     (let seg0 = segment 0 a in
      seg0 AND 0xfe00 = 0xfc00 \<or> seg0 AND 0xffc0 = 0xfe80 \<or> seg0 AND 0xff00 = 0xff00)"

definition ip_is_blocked :: "IpAddr \<Rightarrow> bool" where
  "ip_is_blocked ip =
     (case ip of
        V4 v4 \<Rightarrow> ipv4_is_blocked v4
      | V6 v6 \<Rightarrow>
          (case to_ipv4_mapped v6 of
             Some v4 \<Rightarrow> ipv4_is_blocked v4
           | None \<Rightarrow>
               (case to_ipv4 v6 of
                  Some v4 \<Rightarrow> if v4 \<noteq> 0 then ipv4_is_blocked v4 else ipv6_is_blocked v6
                | None \<Rightarrow> ipv6_is_blocked v6)))"

datatype NetGuardError = HostNotAllowed string | PrivateAddress string IpAddr | NoAddress string

definition host_may_reach_private_space :: "string Scope \<Rightarrow> string \<Rightarrow> bool" where
  "host_may_reach_private_space net_private host =
     (case net_private of ScopeAll \<Rightarrow> True | ScopeOnly hosts \<Rightarrow> host \<in> set hosts)"

definition host_is_permitted :: "string Scope \<Rightarrow> string \<Rightarrow> bool" where
  "host_is_permitted net host = (case net of ScopeAll \<Rightarrow> True | ScopeOnly hosts \<Rightarrow> host \<in> set hosts)"

fun screen_addresses :: "bool \<Rightarrow> IpAddr list \<Rightarrow> IpAddr option \<Rightarrow> IpAddr list \<Rightarrow> IpAddr list \<times> IpAddr option" where
  "screen_addresses opted_in safe last_blocked [] = (safe, last_blocked)"
| "screen_addresses opted_in safe last_blocked (ip # rest) =
     (if ip_is_blocked ip \<and> \<not> opted_in then screen_addresses opted_in safe (Some ip) rest
      else screen_addresses opted_in (safe @ [ip]) last_blocked rest)"

definition screen_host ::
  "string Scope \<Rightarrow> string Scope \<Rightarrow> string \<Rightarrow> IpAddr list \<Rightarrow> NetGuardError + IpAddr list" where
  "screen_host net net_private host resolved =
     (if \<not> host_is_permitted net host then Inl (HostNotAllowed host)
      else
       (case screen_addresses (host_may_reach_private_space net_private host) [] None resolved of
          (safe, last_blocked) \<Rightarrow>
            if safe = [] then
              (case last_blocked of
                 Some addr \<Rightarrow> Inl (PrivateAddress host addr)
               | None \<Rightarrow> Inl (NoAddress host))
            else Inr safe))"

subsection \<open>What the web tool may connect to\<close>

lemma screen_addresses_eq:
  "screen_addresses opted safe blocked ips =
     (safe @ filter (\<lambda>ip. ip_is_blocked ip \<longrightarrow> opted) ips,
      case filter (\<lambda>ip. ip_is_blocked ip \<and> \<not> opted) ips of [] \<Rightarrow> blocked | x # xs \<Rightarrow> Some (last (x # xs)))"
  by (induction ips arbitrary: safe blocked) (auto split: list.splits)

lemma filter_none: "filter P xs = [] \<Longrightarrow> filter (\<lambda>x. \<not> P x) xs = xs"
  by (induction xs) (auto split: if_splits)

text \<open>The screen of a hop, exactly. A host outside the \<^verbatim>\<open>net\<close> scope is refused whatever it
  resolves to. Otherwise the addresses to connect to are the resolved ones, in order, less the blocked
  ones unless \<^verbatim>\<open>net_private\<close> names the host; and when none is left the refusal names the last resolved
  address, or says there was none. Being in \<^verbatim>\<open>net\<close> never opens private space.\<close>

theorem screen_host_exact:
  "screen_host net net_private host resolved =
     (let safe = filter (\<lambda>ip. if ip_is_blocked ip then host_may_reach_private_space net_private host else True) resolved
      in if \<not> host_is_permitted net host then Inl (HostNotAllowed host)
         else if safe \<noteq> [] then Inr safe
         else if resolved = [] then Inl (NoAddress host)
         else Inl (PrivateAddress host (last resolved)))"
proof -
  let ?P = "\<lambda>ip. ip_is_blocked ip \<longrightarrow> host_may_reach_private_space net_private host"
  have "filter (\<lambda>ip. ip_is_blocked ip \<and> \<not> host_may_reach_private_space net_private host) resolved = resolved"
    if "filter ?P resolved = []"
    using filter_none [OF that] by simp
  then show ?thesis
    by (auto simp: screen_host_def screen_addresses_eq Let_def split: list.splits)
qed

subsection \<open>Octets and segments as numbers\<close>

lemma unat_octet: "unat (octet i a) = unat a div 2 ^ (8 * (3 - i)) mod 256"
  by (simp add: octet_def unsigned_ucast_eq unat_drop_bit_eq take_bit_eq_mod drop_bit_eq_div [where 'a = nat])

lemma unat_segment: "unat (segment i a) = unat a div 2 ^ (16 * (7 - i)) mod 65536"
  by (simp add: segment_def unsigned_ucast_eq unat_drop_bit_eq take_bit_eq_mod drop_bit_eq_div [where 'a = nat])

definition in_ranges :: "('a::len word \<times> 'a word) list \<Rightarrow> 'a word \<Rightarrow> bool" where
  "in_ranges rs a \<longleftrightarrow> (\<exists>(lo, hi) \<in> set rs. lo \<le> a \<and> a \<le> hi)"

text \<open>One row of a table: all addresses that agree on the leading octets.\<close>

lemma octet_div:
  "unat a div 16777216 = unat (octet 0 a)"
  "unat a div 65536 = 256 * unat (octet 0 a) + unat (octet 1 a)"
  "unat a div 256 = 256 * (256 * unat (octet 0 a) + unat (octet 1 a)) + unat (octet 2 a)"
proof -
  let ?n = "unat a"
  have "?n < 4294967296" using unsigned_less [of a] by simp
  then show a: "?n div 16777216 = unat (octet 0 a)"
    by (simp add: unat_octet less_mult_imp_div_less)
  have "?n div 65536 = 256 * (?n div 65536 div 256) + ?n div 65536 mod 256" by simp
  moreover have "?n div 65536 div 256 = ?n div 16777216" "unat (octet 1 a) = ?n div 65536 mod 256"
    by (simp_all add: unat_octet flip: div_mult2_eq)
  ultimately show b: "?n div 65536 = 256 * unat (octet 0 a) + unat (octet 1 a)"
    using a by linarith
  have c: "?n div 256 div 256 = ?n div 65536" "unat (octet 2 a) = ?n div 256 mod 256"
    by (simp_all add: unat_octet flip: div_mult2_eq)
  have "?n div 256 = 256 * (?n div 256 div 256) + ?n div 256 mod 256"
    by (rule mult_div_mod_eq [symmetric])
  then show "?n div 256 = 256 * (256 * unat (octet 0 a) + unat (octet 1 a)) + unat (octet 2 a)"
    unfolding c(1) b c(2) [symmetric] .
qed

lemma range_div: "0 < c \<Longrightarrow> c * p \<le> n \<and> n < c * q \<longleftrightarrow> p \<le> n div c \<and> n div c < q" for n c p q :: nat
  by (auto simp: less_eq_div_iff_mult_less_eq div_less_iff_less_mult mult.commute)

lemma octet_less: "unat (x :: u8) < 256"
  using unsigned_less [of x] by simp

lemma lex256: "b < 256 \<Longrightarrow> d < 256 \<Longrightarrow> 256 * c + d \<le> 256 * a + b \<longleftrightarrow> c < a \<or> c = a \<and> d \<le> b" for a b c d :: nat
  by linarith

lemma eq256: "b < 256 \<Longrightarrow> d < 256 \<Longrightarrow> 256 * c + d = 256 * a + b \<longleftrightarrow> c = a \<and> d = b" for a b c d :: nat
  using lex256 [of b d c a] lex256 [of d b a c] by auto

lemma octet_ranges:
  "octet 0 a = w \<longleftrightarrow> 16777216 * unat w \<le> unat a \<and> unat a < 16777216 * (unat w + 1)"
  "octet 0 a = w \<and> w1 \<le> octet 1 a \<and> octet 1 a \<le> w2 \<longleftrightarrow>
     65536 * (256 * unat w + unat w1) \<le> unat a \<and> unat a < 65536 * (256 * unat w + unat w2 + 1)"
  "octet 0 a = w \<and> octet 1 a = w1 \<longleftrightarrow>
     65536 * (256 * unat w + unat w1) \<le> unat a \<and> unat a < 65536 * (256 * unat w + unat w1 + 1)"
  "octet 0 a = w \<and> octet 1 a = w1 \<and> octet 2 a = w2 \<longleftrightarrow>
     256 * (256 * (256 * unat w + unat w1) + unat w2) \<le> unat a \<and>
     unat a < 256 * (256 * (256 * unat w + unat w1) + unat w2 + 1)"
  "w \<le> octet 0 a \<and> octet 0 a \<le> w' \<longleftrightarrow> 16777216 * unat w \<le> unat a \<and> unat a < 16777216 * (unat w' + 1)"
proof -
  have row: "c * p \<le> n \<and> n < c * (p + 1) \<longleftrightarrow> p = n div c" if "0 < c" for c p n :: nat
    unfolding range_div [OF that] by auto
  show "octet 0 a = w \<longleftrightarrow> 16777216 * unat w \<le> unat a \<and> unat a < 16777216 * (unat w + 1)"
    using row [of 16777216 "unat w" "unat a"] unfolding octet_div word_unat_eq_iff by auto
  show "octet 0 a = w \<and> octet 1 a = w1 \<longleftrightarrow>
     65536 * (256 * unat w + unat w1) \<le> unat a \<and> unat a < 65536 * (256 * unat w + unat w1 + 1)"
    using row [of 65536 "256 * unat w + unat w1" "unat a"]
    unfolding octet_div word_unat_eq_iff by (auto simp: eq256 octet_less)
  show "octet 0 a = w \<and> octet 1 a = w1 \<and> octet 2 a = w2 \<longleftrightarrow>
     256 * (256 * (256 * unat w + unat w1) + unat w2) \<le> unat a \<and>
     unat a < 256 * (256 * (256 * unat w + unat w1) + unat w2 + 1)"
    using row [of 256 "256 * (256 * unat w + unat w1) + unat w2" "unat a"]
    unfolding octet_div word_unat_eq_iff eq256 [OF octet_less octet_less] by auto
  show "w \<le> octet 0 a \<and> octet 0 a \<le> w' \<longleftrightarrow> 16777216 * unat w \<le> unat a \<and> unat a < 16777216 * (unat w' + 1)"
    using range_div [of 16777216 "unat w" "unat a" "unat w' + 1"]
    unfolding octet_div word_le_nat_alt by auto
  have "65536 * (256 * unat w + unat w1) \<le> unat a \<and> unat a < 65536 * (256 * unat w + unat w2 + 1) \<longleftrightarrow>
      256 * unat w + unat w1 \<le> 256 * unat (octet 0 a) + unat (octet 1 a) \<and>
      256 * unat (octet 0 a) + unat (octet 1 a) \<le> 256 * unat w + unat w2"
    using range_div [of 65536 "256 * unat w + unat w1" "unat a" "256 * unat w + unat w2 + 1"]
    unfolding octet_div by auto
  also have "\<dots> \<longleftrightarrow> octet 0 a = w \<and> w1 \<le> octet 1 a \<and> octet 1 a \<le> w2"
    unfolding lex256 [OF octet_less octet_less] word_unat_eq_iff word_le_nat_alt by auto
  finally show "octet 0 a = w \<and> w1 \<le> octet 1 a \<and> octet 1 a \<le> w2 \<longleftrightarrow>
     65536 * (256 * unat w + unat w1) \<le> unat a \<and> unat a < 65536 * (256 * unat w + unat w2 + 1)" by simp
qed

definition proxy_internal_v4 :: "(u32 \<times> u32) list" where
  "proxy_internal_v4 =
     [(0x00000000, 0x00FFFFFF), (0x0A000000, 0x0AFFFFFF), (0x64400000, 0x647FFFFF), (0xA9FE0000, 0xA9FEFFFF),
      (0xAC100000, 0xAC1FFFFF), (0xC0000200, 0xC00002FF), (0xC0A80000, 0xC0A8FFFF), (0xC6120000, 0xC613FFFF),
      (0xC6336400, 0xC63364FF), (0xCB007100, 0xCB0071FF), (0xE0000000, 0xEFFFFFFF), (0xF0000000, 0xFFFFFFFF)]"

definition web_blocked_v4 :: "(u32 \<times> u32) list" where
  "web_blocked_v4 =
     [(0x00000000, 0x00FFFFFF), (0x0A000000, 0x0AFFFFFF), (0x64400000, 0x647FFFFF), (0x7F000000, 0x7FFFFFFF),
      (0xA9FE0000, 0xA9FEFFFF), (0xAC100000, 0xAC1FFFFF), (0xC0000200, 0xC00002FF), (0xC0A80000, 0xC0A8FFFF),
      (0xC6336400, 0xC63364FF), (0xCB007100, 0xCB0071FF), (0xF0000000, 0xFFFFFFFF)]"

lemma mask_prefix:
  fixes x c :: "'a::len word"
  assumes "take_bit k c = 0"
  shows "x AND NOT (mask k) = c \<longleftrightarrow> drop_bit k x = drop_bit k c"
proof -
  have "y AND NOT (mask k) = push_bit k (drop_bit k y)" for y :: "'a word"
    by (rule bit_word_eqI) (auto simp: bit_simps)
  moreover have "push_bit k (drop_bit k c) = c"
    using bits_ident [of k c] assms by simp
  moreover have "drop_bit k (push_bit k (drop_bit k y)) = drop_bit k y" for y :: "'a word"
    by (rule bit_word_eqI) (auto simp: bit_simps dest: bit_imp_le_length)
  ultimately show ?thesis by metis
qed


lemma octet_masks:
  "octet 0 a = w \<and> octet 1 a AND 0xc0 = 0x40 \<longleftrightarrow> octet 0 a = w \<and> 64 \<le> octet 1 a \<and> octet 1 a \<le> 127"
proof -
  have "x AND NOT (mask 6) = 0x40 \<longleftrightarrow> drop_bit 6 x = drop_bit 6 0x40" for x :: u8
    by (rule mask_prefix) (simp add: take_bit_eq_mod)
  moreover have "NOT (mask 6) = (0xc0 :: u8)" by (simp add: mask_eq_exp_minus_1)
  moreover have "drop_bit 6 x = drop_bit 6 0x40 \<longleftrightarrow> 64 \<le> x \<and> x \<le> 127" for x :: u8
    unfolding word_unat_eq_iff word_le_nat_alt unat_drop_bit_eq
    by (simp add: drop_bit_eq_div [where 'a = nat]) linarith
  ultimately show ?thesis by simp
qed

lemma benchmark_octets:
  "octet 0 a = 198 \<and> (octet 1 a = 18 \<or> octet 1 a = 19) \<longleftrightarrow> octet 0 a = 198 \<and> 18 \<le> octet 1 a \<and> octet 1 a \<le> 19"
  by (auto simp: word_unat_eq_iff word_le_nat_alt)

lemma reserved_octets: "240 \<le> octet 0 a \<longleftrightarrow> 4026531840 \<le> unat a"
  using octet_ranges(5) [of 240 a 255] octet_less [of "octet 0 a"] unsigned_less [of a, where 'a = nat]
  by (auto simp: word_le_nat_alt)

lemma range_rows:
  "octet 0 a = 0 \<longleftrightarrow> a \<le> 0x00FFFFFF"
  "octet 0 a = 10 \<longleftrightarrow> 0x0A000000 \<le> a \<and> a \<le> 0x0AFFFFFF"
  "octet 0 a = 100 \<and> 64 \<le> octet 1 a \<and> octet 1 a \<le> 127 \<longleftrightarrow> 0x64400000 \<le> a \<and> a \<le> 0x647FFFFF"
  "octet 0 a = 127 \<longleftrightarrow> 0x7F000000 \<le> a \<and> a \<le> 0x7FFFFFFF"
  "octet 0 a = 169 \<and> octet 1 a = 254 \<longleftrightarrow> 0xA9FE0000 \<le> a \<and> a \<le> 0xA9FEFFFF"
  "octet 0 a = 172 \<and> 16 \<le> octet 1 a \<and> octet 1 a \<le> 31 \<longleftrightarrow> 0xAC100000 \<le> a \<and> a \<le> 0xAC1FFFFF"
  "octet 0 a = 192 \<and> octet 1 a = 0 \<and> octet 2 a = 2 \<longleftrightarrow> 0xC0000200 \<le> a \<and> a \<le> 0xC00002FF"
  "octet 0 a = 192 \<and> octet 1 a = 168 \<longleftrightarrow> 0xC0A80000 \<le> a \<and> a \<le> 0xC0A8FFFF"
  "octet 0 a = 198 \<and> 18 \<le> octet 1 a \<and> octet 1 a \<le> 19 \<longleftrightarrow> 0xC6120000 \<le> a \<and> a \<le> 0xC613FFFF"
  "octet 0 a = 198 \<and> octet 1 a = 51 \<and> octet 2 a = 100 \<longleftrightarrow> 0xC6336400 \<le> a \<and> a \<le> 0xC63364FF"
  "octet 0 a = 203 \<and> octet 1 a = 0 \<and> octet 2 a = 113 \<longleftrightarrow> 0xCB007100 \<le> a \<and> a \<le> 0xCB0071FF"
  "224 \<le> octet 0 a \<and> octet 0 a \<le> 239 \<longleftrightarrow> 0xE0000000 \<le> a \<and> a \<le> 0xEFFFFFFF"
  "240 \<le> octet 0 a \<longleftrightarrow> 0xF0000000 \<le> a \<and> a \<le> 0xFFFFFFFF"
  using unsigned_less [of a, where 'a = nat]
  by ((subst octet_ranges(1), auto simp: word_le_nat_alt)[1],
      (subst octet_ranges(1), auto simp: word_le_nat_alt)[1],
      (subst octet_ranges(2), auto simp: word_le_nat_alt)[1],
      (subst octet_ranges(1), auto simp: word_le_nat_alt)[1],
      (subst octet_ranges(3), auto simp: word_le_nat_alt)[1],
      (subst octet_ranges(2), auto simp: word_le_nat_alt)[1],
      (subst octet_ranges(4), auto simp: word_le_nat_alt)[1],
      (subst octet_ranges(3), auto simp: word_le_nat_alt)[1],
      (subst octet_ranges(2), auto simp: word_le_nat_alt)[1],
      (subst octet_ranges(4), auto simp: word_le_nat_alt)[1],
      (subst octet_ranges(4), auto simp: word_le_nat_alt)[1],
      (subst octet_ranges(5), auto simp: word_le_nat_alt)[1],
      subst reserved_octets, auto simp: word_le_nat_alt)

lemma absorbed: "v4_is_unspecified a \<Longrightarrow> octet 0 a = 0" "v4_is_broadcast a \<Longrightarrow> 240 \<le> octet 0 a"
  by (simp_all add: v4_is_unspecified_def v4_is_broadcast_def range_rows)

lemma v4_internal_ranges: "v4_is_internal a \<longleftrightarrow> in_ranges proxy_internal_v4 a"
proof -
  have "v4_is_internal a \<longleftrightarrow> v4_is_private a \<or> v4_is_link_local a \<or> v4_is_multicast a \<or>
     v4_is_documentation a \<or> octet 0 a = 0 \<or> octet 0 a \<ge> 240 \<or>
     octet 0 a = 198 \<and> 18 \<le> octet 1 a \<and> octet 1 a \<le> 19 \<or>
     octet 0 a = 100 \<and> 64 \<le> octet 1 a \<and> octet 1 a \<le> 127"
    unfolding v4_is_internal_def benchmark_octets using absorbed by blast
  then show ?thesis
    unfolding v4_is_private_def v4_is_link_local_def v4_is_multicast_def v4_is_documentation_def range_rows
      in_ranges_def proxy_internal_v4_def by (simp add: disj_ac)
qed

lemma v4_blocked_ranges: "ipv4_is_blocked a \<longleftrightarrow> in_ranges web_blocked_v4 a"
proof -
  have "ipv4_is_blocked a \<longleftrightarrow> v4_is_private a \<or> v4_is_loopback a \<or> v4_is_link_local a \<or> v4_is_documentation a \<or>
     octet 0 a = 0 \<or> octet 0 a = 100 \<and> 64 \<le> octet 1 a \<and> octet 1 a \<le> 127 \<or> octet 0 a \<ge> 240"
    unfolding ipv4_is_blocked_def octet_masks using absorbed by blast
  then show ?thesis
    unfolding v4_is_private_def v4_is_loopback_def v4_is_link_local_def v4_is_documentation_def range_rows
      in_ranges_def web_blocked_v4_def by (simp add: disj_ac)
qed


lemma v6_less: "unat (a :: 128 word) < 2 ^ 128"
  using unsigned_less [of a, where 'a = nat] by simp

lemma segment0_div: "unat (segment 0 a) = unat a div 2 ^ 112"
proof -
  have "unat a div 2 ^ 112 < 65536" using v6_less [of a] by (intro less_mult_imp_div_less) simp
  then show ?thesis by (simp add: unat_segment)
qed

lemma segment01_div: "unat a div 2 ^ 96 = 65536 * unat (segment 0 a) + unat (segment 1 a)"
proof -
  have "unat a div 2 ^ 96 div 65536 = unat (segment 0 a)"
    unfolding segment0_div by (simp flip: div_mult2_eq)
  moreover have "unat a div 2 ^ 96 mod 65536 = unat (segment 1 a)" by (simp add: unat_segment)
  ultimately show ?thesis using mult_div_mod_eq [of 65536 "unat a div 2 ^ 96"] by argo
qed

lemma documentation_prefix: "y < 65536 \<Longrightarrow> x = 8193 \<and> y = 3512 \<longleftrightarrow> 65536 * x + y = 536939960" for x y :: nat
proof
  assume y: "y < 65536" and eq: "65536 * x + y = 536939960"
  then have "x = 8193" by linarith
  with eq show "x = 8193 \<and> y = 3512" by simp
qed simp

lemma prefix_row:
  assumes "take_bit k c = 0" "NOT (mask k) = m"
  shows "segment 0 a AND m = c \<longleftrightarrow>
    2 ^ (112 + k) * (unat c div 2 ^ k) \<le> unat a \<and> unat a < 2 ^ (112 + k) * (unat c div 2 ^ k + 1)"
proof -
  have "segment 0 a AND m = c \<longleftrightarrow> unat (drop_bit k (segment 0 a)) = unat (drop_bit k c)"
    using mask_prefix [OF assms(1), of "segment 0 a"] assms(2) by (simp add: word_unat_eq_iff)
  also have "unat (drop_bit k (segment 0 a)) = unat a div 2 ^ (112 + k)"
    by (simp add: unat_drop_bit_eq drop_bit_eq_div [where 'a = nat] segment0_div power_add flip: div_mult2_eq)
  also have "unat (drop_bit k c) = unat c div 2 ^ k"
    by (simp add: unat_drop_bit_eq drop_bit_eq_div [where 'a = nat])
  finally show ?thesis
    using range_div [of "2 ^ (112 + k)" "unat c div 2 ^ k" "unat a" "unat c div 2 ^ k + 1"] by auto
qed

definition proxy_internal_v6 :: "(128 word \<times> 128 word) list" where
  "proxy_internal_v6 =
     [(0, 0),
      (0xff000000000000000000000000000000, 0xffffffffffffffffffffffffffffffff),
      (0xfc000000000000000000000000000000, 0xfdffffffffffffffffffffffffffffff),
      (0xfe800000000000000000000000000000, 0xfebfffffffffffffffffffffffffffff),
      (0xfec00000000000000000000000000000, 0xfeffffffffffffffffffffffffffffff),
      (0x20010db8000000000000000000000000, 0x20010db8ffffffffffffffffffffffff)]"

definition web_blocked_v6 :: "(128 word \<times> 128 word) list" where
  "web_blocked_v6 =
     [(0, 1),
      (0xfc000000000000000000000000000000, 0xfdffffffffffffffffffffffffffffff),
      (0xfe800000000000000000000000000000, 0xfebfffffffffffffffffffffffffffff),
      (0xff000000000000000000000000000000, 0xffffffffffffffffffffffffffffffff)]"

lemma v6_rows:
  "segment 0 a AND 0xff00 = 0xff00 \<longleftrightarrow> 0xff000000000000000000000000000000 \<le> a \<and> a \<le> 0xffffffffffffffffffffffffffffffff"
  "segment 0 a AND 0xfe00 = 0xfc00 \<longleftrightarrow> 0xfc000000000000000000000000000000 \<le> a \<and> a \<le> 0xfdffffffffffffffffffffffffffffff"
  "segment 0 a AND 0xffc0 = 0xfe80 \<longleftrightarrow> 0xfe800000000000000000000000000000 \<le> a \<and> a \<le> 0xfebfffffffffffffffffffffffffffff"
  "segment 0 a AND 0xffc0 = 0xfec0 \<longleftrightarrow> 0xfec00000000000000000000000000000 \<le> a \<and> a \<le> 0xfeffffffffffffffffffffffffffffff"
  "segment 0 a = 0x2001 \<and> segment 1 a = 0x0db8 \<longleftrightarrow> 0x20010db8000000000000000000000000 \<le> a \<and> a \<le> 0x20010db8ffffffffffffffffffffffff"
proof -
  show "segment 0 a AND 0xff00 = 0xff00 \<longleftrightarrow> 0xff000000000000000000000000000000 \<le> a \<and> a \<le> 0xffffffffffffffffffffffffffffffff"
    by (subst prefix_row [where k = 8]) (auto simp: take_bit_eq_mod mask_eq_exp_minus_1 word_le_nat_alt)
  show "segment 0 a AND 0xfe00 = 0xfc00 \<longleftrightarrow> 0xfc000000000000000000000000000000 \<le> a \<and> a \<le> 0xfdffffffffffffffffffffffffffffff"
    by (subst prefix_row [where k = 9]) (auto simp: take_bit_eq_mod mask_eq_exp_minus_1 word_le_nat_alt)
  show "segment 0 a AND 0xffc0 = 0xfe80 \<longleftrightarrow> 0xfe800000000000000000000000000000 \<le> a \<and> a \<le> 0xfebfffffffffffffffffffffffffffff"
    by (subst prefix_row [where k = 6]) (auto simp: take_bit_eq_mod mask_eq_exp_minus_1 word_le_nat_alt)
  show "segment 0 a AND 0xffc0 = 0xfec0 \<longleftrightarrow> 0xfec00000000000000000000000000000 \<le> a \<and> a \<le> 0xfeffffffffffffffffffffffffffffff"
    by (subst prefix_row [where k = 6]) (auto simp: take_bit_eq_mod mask_eq_exp_minus_1 word_le_nat_alt)
  have "unat (segment 1 a) < 65536" using unsigned_less [of "segment 1 a", where 'a = nat] by simp
  then have "segment 0 a = 0x2001 \<and> segment 1 a = 0x0db8 \<longleftrightarrow> unat a div 2 ^ 96 = 0x20010db8"
    unfolding segment01_div word_unat_eq_iff by (subst documentation_prefix [symmetric]) simp_all
  also have "\<dots> \<longleftrightarrow> 0x20010db8000000000000000000000000 \<le> a \<and> a \<le> 0x20010db8ffffffffffffffffffffffff"
    using range_div [of "2 ^ 96" "0x20010db8" "unat a" "0x20010db9"] by (auto simp: word_le_nat_alt)
  finally show "segment 0 a = 0x2001 \<and> segment 1 a = 0x0db8 \<longleftrightarrow>
    0x20010db8000000000000000000000000 \<le> a \<and> a \<le> 0x20010db8ffffffffffffffffffffffff" .
qed


lemma v6_internal_ranges:
  "v6_is_unspecified a \<or> v6_is_multicast a \<or> segment 0 a AND 0xfe00 = 0xfc00 \<or> segment 0 a AND 0xffc0 = 0xfe80 \<or>
   segment 0 a AND 0xffc0 = 0xfec0 \<or> segment 0 a = 0x2001 \<and> segment 1 a = 0x0db8 \<longleftrightarrow> in_ranges proxy_internal_v6 a"
  unfolding v6_is_unspecified_def v6_is_multicast_def v6_rows in_ranges_def proxy_internal_v6_def
  by (simp add: disj_ac)

lemma v6_blocked_ranges: "ipv6_is_blocked a \<longleftrightarrow> in_ranges web_blocked_v6 a"
proof -
  have low: "a = 1 \<or> a = 0 \<or> P \<longleftrightarrow> a \<le> 1 \<or> P" for P by (auto simp: word_le_nat_alt word_unat_eq_iff)
  show ?thesis
    unfolding ipv6_is_blocked_def v6_is_unspecified_def v6_is_loopback_def Let_def v6_rows in_ranges_def web_blocked_v6_def low
    by (simp add: disj_ac)
qed

text \<open>Both address screens are what their tables of ranges say. The egress proxy treats exactly the
  listed IPv4 and IPv6 ranges as internal and reads an IPv4-mapped address as its IPv4 form; the web
  tool's guard blocks exactly its listed ranges and reads mapped and IPv4-compatible addresses as IPv4.
  Loopback is in the second table and not in the first; the benchmarking range 198.18.0.0/15 and IPv4
  multicast are in the first and not in the second.\<close>

theorem screens_are_range_tables:
  "is_internal_ip ip =
     (case ip of
        V4 a \<Rightarrow> in_ranges proxy_internal_v4 a
      | V6 a \<Rightarrow> if drop_bit 32 a = 0xffff then in_ranges proxy_internal_v4 (ucast a)
                else in_ranges proxy_internal_v6 a) \<and>
   ip_is_blocked ip =
     (case ip of
        V4 a \<Rightarrow> in_ranges web_blocked_v4 a
      | V6 a \<Rightarrow> if drop_bit 32 a = 0xffff \<or> drop_bit 32 a = 0 \<and> ucast a \<noteq> (0 :: u32) then in_ranges web_blocked_v4 (ucast a)
                else in_ranges web_blocked_v6 a)"
proof (cases ip)
  case (V4 a)
  then show ?thesis by (simp add: is_internal_ip_def ip_is_blocked_def v4_internal_ranges v4_blocked_ranges)
next
  case (V6 a)
  have "is_internal_ip (V6 a) = (if drop_bit 32 a = 0xffff then in_ranges proxy_internal_v4 (ucast a)
      else in_ranges proxy_internal_v6 a)"
    unfolding is_internal_ip_def to_ipv4_mapped_def Let_def v6_internal_ranges [symmetric]
    by (simp add: v4_internal_ranges)
  with V6 show ?thesis
    by (simp add: ip_is_blocked_def to_ipv4_mapped_def to_ipv4_def v4_blocked_ranges v6_blocked_ranges)
qed

end
