(* ===== verification/Std_Text.thy ===== *)
theory Std_Text
  imports Ip_Screen
begin

text \<open>
  The text operations of the Rust standard library that the egress proxy uses: splitting and stripping,
  ASCII case, number and address parsing and printing, and the lossy decoding of bytes as UTF-8. They are
  written after the library's own algorithms (\<^verbatim>\<open>core::net::parser\<close>, \<^verbatim>\<open>core::net::display\<close>,
  \<^verbatim>\<open>core::str::lossy\<close>), over strings as byte sequences.
\<close>

subsection \<open>Splitting and stripping\<close>

fun split_char :: "char \<Rightarrow> string \<Rightarrow> string list" where
  "split_char c [] = [[]]"
| "split_char c (x # xs) =
     (if x = c then [] # split_char c xs
      else (case split_char c xs of [] \<Rightarrow> [[x]] | y # ys \<Rightarrow> (x # y) # ys))"

definition rsplit_once :: "char \<Rightarrow> string \<Rightarrow> (string \<times> string) option" where
  "rsplit_once c s =
     (case split_once c (rev s) of None \<Rightarrow> None | Some (b, a) \<Rightarrow> Some (rev a, rev b))"

definition strip_prefix :: "string \<Rightarrow> string \<Rightarrow> string option" where
  "strip_prefix p s = (if prefix p s then Some (drop (length p) s) else None)"

definition trim_end_matches :: "char list \<Rightarrow> string \<Rightarrow> string" where
  "trim_end_matches cs s = rev (dropWhile (\<lambda>c. c \<in> set cs) (rev s))"

definition to_ascii_lowercase :: "string \<Rightarrow> string" where
  "to_ascii_lowercase s = map (\<lambda>c. if CHR ''A'' \<le> c \<and> c \<le> CHR ''Z'' then char_of ((of_char c :: nat) + 32) else c) s"

definition eq_ignore_ascii_case :: "string \<Rightarrow> string \<Rightarrow> bool" where
  "eq_ignore_ascii_case s t \<longleftrightarrow> to_ascii_lowercase s = to_ascii_lowercase t"

definition is_continuation :: "char \<Rightarrow> bool" where
  "is_continuation c \<longleftrightarrow> 128 \<le> (of_char c :: nat) \<and> (of_char c :: nat) < 192"

text \<open>The characters of a string, each as its byte sequence: a lead byte and its continuation bytes.\<close>

function utf8_chars :: "string \<Rightarrow> string list" where
  "utf8_chars [] = []"
| "utf8_chars (c # s) = (c # takeWhile is_continuation s) # utf8_chars (dropWhile is_continuation s)"
  by pat_completeness auto
termination
  by (relation "measure length") (auto simp: less_Suc_eq_le length_dropWhile_le)

lemma concat_utf8_chars [simp]: "concat (utf8_chars s) = s"
  by (induction s rule: utf8_chars.induct) auto

definition white_space :: "string \<Rightarrow> bool" where
  "white_space ch \<longleftrightarrow> ch = '' '' \<or>
     (length ch = 1 \<and> 9 \<le> (of_char (hd ch) :: nat) \<and> (of_char (hd ch) :: nat) \<le> 13) \<or>
     ch \<in> {[CHR 0xC2, CHR 0x85], [CHR 0xC2, CHR 0xA0], [CHR 0xE1, CHR 0x9A, CHR 0x80], [CHR 0xE2, CHR 0x80, CHR 0xA8],
       [CHR 0xE2, CHR 0x80, CHR 0xA9], [CHR 0xE2, CHR 0x80, CHR 0xAF], [CHR 0xE2, CHR 0x81, CHR 0x9F], [CHR 0xE3, CHR 0x80, CHR 0x80]} \<or>
     (length ch = 3 \<and> take 2 ch = [CHR 0xE2, CHR 0x80] \<and> 128 \<le> (of_char (last ch) :: nat) \<and> (of_char (last ch) :: nat) \<le> 138)"

text \<open>\<^verbatim>\<open>str::trim\<close>.\<close>

definition trim :: "string \<Rightarrow> string" where
  "trim s = concat (rev (dropWhile white_space (rev (dropWhile white_space (utf8_chars s)))))"

text \<open>\<^verbatim>\<open>str::get(..n)\<close>: absent past the end and inside a multi-byte character.\<close>

definition get_prefix :: "nat \<Rightarrow> string \<Rightarrow> string option" where
  "get_prefix n s =
     (if length s < n \<or> n < length s \<and> is_continuation (s ! n) then None else Some (take n s))"

subsection \<open>Numbers\<close>

definition digit_char :: "nat \<Rightarrow> char" where
  "digit_char d = (if d < 10 then char_of (48 + d) else char_of (87 + d))"

function digits :: "nat \<Rightarrow> nat \<Rightarrow> string" where
  "digits radix n =
     (if radix < 2 \<or> n < radix then [digit_char n]
      else digits radix (n div radix) @ [digit_char (n mod radix)])"
  by pat_completeness auto
termination by (relation "measure snd") auto

declare digits.simps [simp del]

definition decimal :: "nat \<Rightarrow> string" where
  "decimal n = digits 10 n"

definition digit_value :: "char \<Rightarrow> nat" where
  "digit_value c = (of_char c - 48 :: nat)"

definition to_digit :: "nat \<Rightarrow> char \<Rightarrow> nat option" where
  "to_digit radix c =
     (let n = (of_char c :: nat);
          d = (if 48 \<le> n \<and> n \<le> 57 then n - 48
               else if 97 \<le> n \<and> n \<le> 122 then n - 87
               else if 65 \<le> n \<and> n \<le> 90 then n - 55 else radix)
      in if d < radix then Some d else None)"

definition decimal_value :: "string \<Rightarrow> nat" where
  "decimal_value s = foldl (\<lambda>n c. 10 * n + digit_value c) 0 s"

text \<open>\<^verbatim>\<open>str::parse::<u16>\<close>: an optional plus sign, at least one digit, no overflow.\<close>

definition parse_u16 :: "string \<Rightarrow> u16 option" where
  "parse_u16 s =
     (let ds = (case s of [] \<Rightarrow> [] | c # rest \<Rightarrow> if c = CHR ''+'' then rest else s)
      in if ds = [] \<or> \<not> list_all is_ascii_digit ds \<or> 65536 \<le> decimal_value ds then None
         else Some (of_nat (decimal_value ds)))"

subsection \<open>Addresses\<close>

text \<open>
  The address parser is a recursive-descent parser that restores its position when a rule fails; here a
  rule maps the remaining input to a value and the rest, or \<open>None\<close>.
\<close>

fun read_digits :: "nat \<Rightarrow> string \<Rightarrow> nat list \<times> string" where
  "read_digits radix [] = ([], [])"
| "read_digits radix (c # cs) =
     (case to_digit radix c of
        None \<Rightarrow> ([], c # cs)
      | Some d \<Rightarrow> (case read_digits radix cs of (ds, rest) \<Rightarrow> (d # ds, rest)))"

definition read_number :: "nat \<Rightarrow> nat \<Rightarrow> bool \<Rightarrow> nat \<Rightarrow> string \<Rightarrow> (nat \<times> string) option" where
  "read_number radix max_digits allow_zero_prefix bound s =
     (case read_digits radix s of
        (ds, rest) \<Rightarrow>
          let n = foldl (\<lambda>n d. radix * n + d) 0 ds in
          if length ds > max_digits \<or> ds = [] \<or>
             \<not> allow_zero_prefix \<and> hd s = CHR ''0'' \<and> length ds > 1 \<or> bound \<le> n
          then None else Some (n, rest))"

definition read_given_char :: "char \<Rightarrow> string \<Rightarrow> string option" where
  "read_given_char c s = (case s of [] \<Rightarrow> None | x # rest \<Rightarrow> if x = c then Some rest else None)"

definition read_separator ::
  "char \<Rightarrow> nat \<Rightarrow> (string \<Rightarrow> ('a \<times> string) option) \<Rightarrow> string \<Rightarrow> ('a \<times> string) option" where
  "read_separator sep index inner s =
     (if 0 < index then (case read_given_char sep s of None \<Rightarrow> None | Some rest \<Rightarrow> inner rest) else inner s)"

fun read_octets :: "nat \<Rightarrow> nat \<Rightarrow> string \<Rightarrow> (nat list \<times> string) option" where
  "read_octets 0 i s = Some ([], s)"
| "read_octets (Suc k) i s =
     (case read_separator CHR ''.'' i (read_number 10 3 False 256) s of
        None \<Rightarrow> None
      | Some (n, rest) \<Rightarrow>
          (case read_octets k (Suc i) rest of None \<Rightarrow> None | Some (ns, rest') \<Rightarrow> Some (n # ns, rest')))"

definition from_digits_be :: "nat \<Rightarrow> nat list \<Rightarrow> nat" where
  "from_digits_be base ns = foldl (\<lambda>a n. base * a + n) 0 ns"

definition read_ipv4_addr :: "string \<Rightarrow> (u32 \<times> string) option" where
  "read_ipv4_addr s =
     (case read_octets 4 0 s of
        None \<Rightarrow> None
      | Some (ns, rest) \<Rightarrow> Some (of_nat (from_digits_be 256 ns), rest))"

text \<open>\<^verbatim>\<open>read_groups\<close> into an array of \<open>limit\<close> groups, from index \<open>i\<close> on.\<close>

function read_groups :: "nat \<Rightarrow> nat \<Rightarrow> string \<Rightarrow> nat list \<times> bool \<times> string" where
  "read_groups limit i s =
     (if limit \<le> i then ([], False, s)
      else
       (case (if i < limit - 1 then read_separator CHR '':'' i read_ipv4_addr s else None) of
          Some (v4, rest) \<Rightarrow> ([unat v4 div 65536, unat v4 mod 65536], True, rest)
        | None \<Rightarrow>
            (case read_separator CHR '':'' i (read_number 16 4 True 65536) s of
               None \<Rightarrow> ([], False, s)
             | Some (g, rest) \<Rightarrow>
                 (case read_groups limit (Suc i) rest of (gs, v4, rest') \<Rightarrow> (g # gs, v4, rest')))))"
  by pat_completeness auto
termination by (relation "measure (\<lambda>(limit, i, s). limit - i)") auto

declare read_groups.simps [simp del]

definition read_ipv6_addr :: "string \<Rightarrow> (128 word \<times> string) option" where
  "read_ipv6_addr s =
     (case read_groups 8 0 s of
        (head, head_ipv4, rest) \<Rightarrow>
          if length head = 8 then Some (of_nat (from_digits_be 65536 head), rest)
          else if head_ipv4 then None
          else
           (case read_given_char CHR '':'' rest of
              None \<Rightarrow> None
            | Some rest1 \<Rightarrow>
                (case read_given_char CHR '':'' rest1 of
                   None \<Rightarrow> None
                 | Some rest2 \<Rightarrow>
                     (case read_groups (8 - (length head + 1)) 0 rest2 of
                        (tail, _, rest3) \<Rightarrow>
                          Some (of_nat (from_digits_be 65536
                            (head @ replicate (8 - length head - length tail) 0 @ tail)), rest3)))))"

definition parse_with :: "(string \<Rightarrow> ('a \<times> string) option) \<Rightarrow> string \<Rightarrow> 'a option" where
  "parse_with rule s = (case rule s of Some (x, []) \<Rightarrow> Some x | _ \<Rightarrow> None)"

definition parse_ipv6 :: "string \<Rightarrow> (128 word) option" where
  "parse_ipv6 s = parse_with read_ipv6_addr s"

definition parse_ip :: "string \<Rightarrow> IpAddr option" where
  "parse_ip s =
     parse_with (\<lambda>s. case read_ipv4_addr s of
         Some (a, rest) \<Rightarrow> Some (V4 a, rest)
       | None \<Rightarrow> (case read_ipv6_addr s of Some (a, rest) \<Rightarrow> Some (V6 a, rest) | None \<Rightarrow> None)) s"

definition show_ipv4 :: "u32 \<Rightarrow> string" where
  "show_ipv4 a =
     decimal (unat (octet 0 a)) @ ''.'' @ decimal (unat (octet 1 a)) @ ''.'' @
     decimal (unat (octet 2 a)) @ ''.'' @ decimal (unat (octet 3 a))"

text \<open>The longest run of zero segments, the first among equals, as its start and length.\<close>

fun longest_zeroes :: "nat \<Rightarrow> nat \<times> nat \<Rightarrow> nat \<times> nat \<Rightarrow> nat list \<Rightarrow> nat \<times> nat" where
  "longest_zeroes i longest current [] = longest"
| "longest_zeroes i longest current (g # gs) =
     (if g = 0 then
        (let current' = (if snd current = 0 then i else fst current, snd current + 1)
         in longest_zeroes (Suc i) (if snd current' > snd longest then current' else longest) current' gs)
      else longest_zeroes (Suc i) longest (0, 0) gs)"

fun fmt_subslice :: "nat list \<Rightarrow> string" where
  "fmt_subslice [] = []"
| "fmt_subslice [g] = digits 16 g"
| "fmt_subslice (g # h # gs) = digits 16 g @ '':'' @ fmt_subslice (h # gs)"

definition v6_segments :: "128 word \<Rightarrow> nat list" where
  "v6_segments a = map (\<lambda>i. unat (segment i a)) [0..<8]"

definition show_ipv6 :: "128 word \<Rightarrow> string" where
  "show_ipv6 a =
     (case to_ipv4_mapped a of
        Some v4 \<Rightarrow> ''::ffff:'' @ show_ipv4 v4
      | None \<Rightarrow>
          (case longest_zeroes 0 (0, 0) (0, 0) (v6_segments a) of
             (start, len) \<Rightarrow>
               if len > 1 then fmt_subslice (take start (v6_segments a)) @ ''::'' @ fmt_subslice (drop (start + len) (v6_segments a))
               else fmt_subslice (v6_segments a)))"

definition show_ip :: "IpAddr \<Rightarrow> string" where
  "show_ip ip = (case ip of V4 a \<Rightarrow> show_ipv4 a | V6 a \<Rightarrow> show_ipv6 a)"

subsection \<open>Lossy UTF-8\<close>

definition byte_in :: "nat \<Rightarrow> nat \<Rightarrow> char \<Rightarrow> bool" where
  "byte_in lo hi c \<longleftrightarrow> lo \<le> (of_char c :: nat) \<and> (of_char c :: nat) \<le> hi"

definition replacement :: string where
  "replacement = [CHR 0xEF, CHR 0xBF, CHR 0xBD]"

text \<open>The second byte a three- or four-byte lead admits.\<close>

definition second_ok :: "char \<Rightarrow> char \<Rightarrow> bool" where
  "second_ok b c \<longleftrightarrow>
     (if b = CHR 0xE0 then byte_in 0xA0 0xBF c
      else if b = CHR 0xED then byte_in 0x80 0x9F c
      else if b = CHR 0xF0 then byte_in 0x90 0xBF c
      else if b = CHR 0xF4 then byte_in 0x80 0x8F c
      else byte_in 0x80 0xBF c)"

definition utf8_width :: "char \<Rightarrow> nat" where
  "utf8_width b =
     (if byte_in 0 0x7F b then 1 else if byte_in 0xC2 0xDF b then 2
      else if byte_in 0xE0 0xEF b then 3 else if byte_in 0xF0 0xF4 b then 4 else 0)"

text \<open>
  \<^verbatim>\<open>String::from_utf8_lossy\<close>: every maximal prefix of an ill-formed sequence becomes one replacement
  character. The number of bytes of the next character, and whether it is well formed:
\<close>

definition next_char :: "char \<Rightarrow> string \<Rightarrow> nat \<times> bool" where
  "next_char b rest =
     (let w = utf8_width b in
      if w = 0 then (1, False)
      else if w = 1 then (1, True)
      else if rest = [] \<or> \<not> second_ok b (rest ! 0) then (1, False)
      else if w = 2 then (2, True)
      else if length rest < 2 \<or> \<not> is_continuation (rest ! 1) then (2, False)
      else if w = 3 then (3, True)
      else if length rest < 3 \<or> \<not> is_continuation (rest ! 2) then (3, False)
      else (4, True))"

lemma next_char_pos: "0 < fst (next_char b rest)"
  by (simp add: next_char_def Let_def)

function from_utf8_lossy :: "string \<Rightarrow> string" where
  "from_utf8_lossy [] = []"
| "from_utf8_lossy (b # rest) =
     (case next_char b rest of
        (n, ok) \<Rightarrow> (if ok then take n (b # rest) else replacement) @ from_utf8_lossy (drop n (b # rest)))"
  by pat_completeness auto
termination
proof (relation "measure length", goal_cases)
  case (2 b rest n ok)
  then have "0 < n" using next_char_pos [of b rest] by (metis fst_conv)
  then show ?case by simp
qed simp

declare from_utf8_lossy.simps [simp del]

end
