(* ===== verification/Egress_Proxy.thy ===== *)
theory Egress_Proxy
  imports Std_Text Execution_Contract
begin

text \<open>
  The connection side of the egress proxy (\<^verbatim>\<open>agent-bridle-core/src/net_proxy.rs\<close>): the parsing of a
  proxy request, the host policy with its separate private-host approvals, the guard on resolved
  addresses, the whole connection handler, and the refusal evidence. A connection is a script: the bytes
  the client sends, which of the operations on its sockets succeed, and in which pieces the two copy
  loops read; the handler maps it to the list of what it does, in order, and its result. What is handed
  to a socket counts as done even where the write then fails.
\<close>

subsection \<open>Audit records\<close>

datatype NetKind = KindConnect | KindHttp

datatype NetDecision = DecAllowed | DecDenied | DecError

record NetAuditEvent =
  au_ts_ms :: u64
  au_host :: string
  au_port :: u16
  au_kind :: NetKind
  au_decision :: NetDecision
  au_bytes_up :: u64
  au_bytes_down :: u64
  au_dur_ms :: u64

datatype IoError = PermissionDenied string | InvalidInput string | OsError nat

type_synonym SocketAddr = "IpAddr \<times> u16"

subsection \<open>Requests\<close>

definition MAX_HEAD :: nat where "MAX_HEAD = 8 * 1024"

abbreviation CR :: char where "CR \<equiv> CHR 0x0D"
abbreviation LF :: char where "LF \<equiv> CHR 0x0A"
abbreviation CRLF :: string where "CRLF \<equiv> [CR, LF]"

datatype Target = Connect string u16 | Http string u16 string

definition split_host_port :: "string \<Rightarrow> u16 \<Rightarrow> (string \<times> u16) option" where
  "split_host_port authority default_port =
     (case strip_prefix ''['' authority of
        Some rest \<Rightarrow>
          (case split_once CHR '']'' rest of
             None \<Rightarrow> None
           | Some (host, after) \<Rightarrow>
               (case strip_prefix '':'' after of
                  Some p \<Rightarrow> map_option (Pair host) (parse_u16 p)
                | None \<Rightarrow> if after = [] then Some (host, default_port) else None))
      | None \<Rightarrow>
          (case rsplit_once CHR '':'' authority of
             Some (h, p) \<Rightarrow>
               if CHR '':'' \<in> set h then Some (authority, default_port)
               else if h = [] then None
               else map_option (Pair h) (parse_u16 p)
           | None \<Rightarrow> Some (authority, default_port)))"

definition parse_request_line :: "string \<Rightarrow> Target option" where
  "parse_request_line line =
     (case split_char CHR '' '' (trim_end_matches [CR, LF] line) of
        [method, uri, version] \<Rightarrow>
          if \<not> prefix ''HTTP/'' version then None
          else if eq_ignore_ascii_case method ''CONNECT'' then
            (case split_host_port uri 443 of None \<Rightarrow> None | Some (host, port) \<Rightarrow> Some (Connect host port))
          else
            (case strip_prefix ''http://'' uri of
               None \<Rightarrow> None
             | Some rest \<Rightarrow>
                 (let authority = takeWhile (\<lambda>c. c \<noteq> CHR ''/'') rest;
                      path = (if CHR ''/'' \<in> set rest then dropWhile (\<lambda>c. c \<noteq> CHR ''/'') rest else ''/'')
                  in case split_host_port authority 80 of
                       None \<Rightarrow> None
                     | Some (host, port) \<Rightarrow>
                         Some (Http host port (method @ '' '' @ path @ '' '' @ version @ CRLF))))
      | _ \<Rightarrow> None)"

subsection \<open>Host policy\<close>

record HostPolicy =
  hp_allowed :: "string set"
  hp_private :: "string set"

definition policy_new :: "string list \<Rightarrow> HostPolicy" where
  "policy_new hosts = \<lparr>hp_allowed = set hosts, hp_private = {}\<rparr>"

definition allows :: "HostPolicy \<Rightarrow> string \<Rightarrow> bool" where
  "allows policy host \<longleftrightarrow> host \<in> hp_allowed policy"

definition bad_label :: "string \<Rightarrow> bool" where
  "bad_label label \<longleftrightarrow> label = [] \<or> length label > 63 \<or> hd label = CHR ''-'' \<or> last label = CHR ''-'' \<or>
     \<not> list_all (\<lambda>b. is_ascii_alphanumeric b \<or> b = CHR ''-'') label"

definition numeric_label :: "string \<Rightarrow> bool" where
  "numeric_label label \<longleftrightarrow> list_all is_ascii_digit label \<or> prefix ''0x'' label \<or> prefix ''0X'' label"

definition canonical_private_host :: "string \<Rightarrow> string option" where
  "canonical_private_host host =
     (case parse_ip host of
        Some ip \<Rightarrow> Some (show_ip ip)
      | None \<Rightarrow>
          (case (case strip_prefix ''['' host of Some h \<Rightarrow> strip_suffix_char CHR '']'' h | None \<Rightarrow> None) of
             Some ip \<Rightarrow> map_option show_ipv6 (parse_ipv6 ip)
           | None \<Rightarrow>
               (let host = (case strip_suffix_char CHR ''.'' host of Some h \<Rightarrow> h | None \<Rightarrow> host)
                in if host = [] \<or> length host > 253 \<or> \<not> list_all (\<lambda>c. (of_char c :: nat) < 128) host then None
                   else
                    (let labels = split_char CHR ''.'' host
                     in if list_ex bad_label labels \<or> numeric_label (last labels) then None
                        else Some (to_ascii_lowercase host)))))"

fun canonical_private_hosts :: "string list \<Rightarrow> IoError + string set" where
  "canonical_private_hosts [] = Inr {}"
| "canonical_private_hosts (host # hosts) =
     (case canonical_private_host host of
        None \<Rightarrow> Inl (InvalidInput ''private-host grants require exact DNS names or IP addresses'')
      | Some h \<Rightarrow>
          (case canonical_private_hosts hosts of Inl e \<Rightarrow> Inl e | Inr hs \<Rightarrow> Inr (insert h hs)))"

definition with_private_hosts :: "string list \<Rightarrow> string list \<Rightarrow> IoError + HostPolicy" where
  "with_private_hosts hosts private_hosts =
     (case canonical_private_hosts private_hosts of
        Inl e \<Rightarrow> Inl e
      | Inr hs \<Rightarrow> Inr ((policy_new hosts)\<lparr>hp_private := hs\<rparr>))"

definition allows_private :: "HostPolicy \<Rightarrow> string \<Rightarrow> bool" where
  "allows_private policy host \<longleftrightarrow> allows policy host \<and>
     (case canonical_private_host host of None \<Rightarrow> False | Some h \<Rightarrow> h \<in> hp_private policy)"

subsection \<open>The address guard\<close>

definition unmap :: "IpAddr \<Rightarrow> IpAddr" where
  "unmap ip =
     (case ip of
        V6 a \<Rightarrow> (case to_ipv4_mapped a of None \<Rightarrow> ip | Some v4 \<Rightarrow> V4 v4)
      | V4 a \<Rightarrow> V4 a)"

definition approvable :: "IpAddr \<Rightarrow> bool" where
  "approvable ip =
     (case ip of
        V4 a \<Rightarrow> v4_is_private a
      | V6 a \<Rightarrow> segment 0 a AND 0xfe00 = 0xfc00 \<and>
                v6_segments a \<noteq> [0xfd00, 0x0ec2, 0, 0, 0, 0, 0, 0x0254])"

definition guard_target :: "SocketAddr \<Rightarrow> string \<Rightarrow> HostPolicy \<Rightarrow> IoError + SocketAddr" where
  "guard_target addr host policy =
     (let ip = unmap (fst addr)
      in if is_internal_ip ip \<and> \<not> (approvable ip \<and> allows_private policy host)
         then Inl (PermissionDenied ''SSRF-guard: refusing to proxy to an internal (non-loopback) address'')
         else Inr addr)"

subsection \<open>Reading the request head\<close>

text \<open>A line of at most \<^const>\<open>MAX_HEAD\<close> bytes, with its newline, and the rest of the stream; the flag says
  whether the stream ends there or fails.\<close>

definition read_raw_line :: "bool \<Rightarrow> string \<Rightarrow> IoError + string \<times> string" where
  "read_raw_line eof s =
     (let window = take MAX_HEAD s in
      case split_once LF window of
        Some (line, _) \<Rightarrow> Inr (line @ [LF], drop (length line + 1) s)
      | None \<Rightarrow>
          if length window = MAX_HEAD then Inr (window, drop MAX_HEAD s)
          else if eof then Inr (s, []) else Inl (OsError 0))"

definition read_line_bounded :: "bool \<Rightarrow> string \<Rightarrow> IoError + string \<times> string" where
  "read_line_bounded eof s =
     (case read_raw_line eof s of Inl e \<Rightarrow> Inl e | Inr (raw, rest) \<Rightarrow> Inr (from_utf8_lossy raw, rest))"

lemma from_utf8_lossy_Nil_iff [simp]: "from_utf8_lossy s = [] \<longleftrightarrow> s = []"
proof (cases s)
  case (Cons b rest)
  then show ?thesis
    using next_char_pos [of b rest]
    by (cases "next_char b rest") (auto simp: from_utf8_lossy.simps replacement_def)
qed (simp add: from_utf8_lossy.simps)

lemma read_raw_line_split:
  assumes "read_raw_line eof s = Inr (raw, rest)"
  shows "s = raw @ rest"
proof (cases "split_once LF (take MAX_HEAD s)")
  case None
  with assms show ?thesis by (auto simp: read_raw_line_def split: if_splits)
next
  case (Some p)
  then obtain line b where p: "split_once LF (take MAX_HEAD s) = Some (line, b)" by (cases p) simp
  from split_once_SomeD [OF this] have "take MAX_HEAD s @ drop MAX_HEAD s = line @ LF # b @ drop MAX_HEAD s" by simp
  then have "s = line @ [LF] @ b @ drop MAX_HEAD s" by simp
  moreover from this have "drop (length line + 1) s = b @ drop MAX_HEAD s"
    by (metis append_assoc append_eq_conv_conj length_append_singleton Suc_eq_plus1)
  moreover have "raw = line @ [LF]" "rest = drop (length line + 1) s"
    using assms p by (simp_all add: read_raw_line_def)
  ultimately show ?thesis by simp
qed

function read_headers_from :: "bool \<Rightarrow> nat \<Rightarrow> string list \<Rightarrow> string \<Rightarrow> IoError + string list \<times> string" where
  "read_headers_from eof total_len lines s =
     (case read_line_bounded eof s of
        Inl e \<Rightarrow> Inl e
      | Inr (line, rest) \<Rightarrow>
          if line = CRLF \<or> line = [LF] \<or> line = [] \<or> total_len + length line > MAX_HEAD then Inr (lines, rest)
          else read_headers_from eof (total_len + length line) (lines @ [line]) rest)"
  by pat_completeness auto
termination
  by (relation "measure (\<lambda>(eof, n, lines, s). length s)")
    (auto simp: read_line_bounded_def split: sum.splits prod.splits dest!: read_raw_line_split)

declare read_headers_from.simps [simp del]

definition read_headers :: "bool \<Rightarrow> string \<Rightarrow> IoError + string list \<times> string" where
  "read_headers eof s = read_headers_from eof 0 [] s"

function drain_headers_from :: "bool \<Rightarrow> nat \<Rightarrow> string \<Rightarrow> IoError + string" where
  "drain_headers_from eof total_len s =
     (case read_line_bounded eof s of
        Inl e \<Rightarrow> Inl e
      | Inr (line, rest) \<Rightarrow>
          if line = CRLF \<or> line = [LF] \<or> line = [] \<or> total_len + length line > MAX_HEAD then Inr rest
          else drain_headers_from eof (total_len + length line) rest)"
  by pat_completeness auto
termination
  by (relation "measure (\<lambda>(eof, n, s). length s)")
    (auto simp: read_line_bounded_def split: sum.splits prod.splits dest!: read_raw_line_split)

declare drain_headers_from.simps [simp del]

definition drain_headers :: "bool \<Rightarrow> string \<Rightarrow> IoError + string" where
  "drain_headers eof s = drain_headers_from eof 0 s"

subsection \<open>Copying\<close>

datatype read_result = ReadOk string | ReadInterrupted | ReadFailed

text \<open>
  \<^verbatim>\<open>copy_counted\<close> over the results of its successive reads and writes: what was handed to the
  destination, and the count. A script that ends is a stream that fails.
\<close>

fun copy_counted :: "(nat \<Rightarrow> bool) \<Rightarrow> nat \<Rightarrow> read_result list \<Rightarrow> string \<times> u64" where
  "copy_counted writes k [] = ([], 0)"
| "copy_counted writes k (ReadFailed # _) = ([], 0)"
| "copy_counted writes k (ReadInterrupted # reads) = copy_counted writes k reads"
| "copy_counted writes k (ReadOk bs # reads) =
     (if bs = [] then ([], 0)
      else if \<not> writes k then (bs, 0)
      else (case copy_counted writes (Suc k) reads of (out, n) \<Rightarrow> (bs @ out, of_nat (length bs) + n)))"

text \<open>The reads of a byte stream in pieces of at most 16 KiB, of the sizes given, up to its end.\<close>

definition COPY_BUF :: nat where "COPY_BUF = 16 * 1024"

fun read_script :: "bool \<Rightarrow> nat list \<Rightarrow> string \<Rightarrow> read_result list" where
  "read_script eof [] s = [ReadFailed]"
| "read_script eof (n # ns) s =
     (if s = [] then [if eof then ReadOk [] else ReadFailed]
      else (let k = max 1 (min n COPY_BUF) in ReadOk (take k s) # read_script eof ns (drop k s)))"

subsection \<open>The connection handler\<close>

record conn_env =
  ce_policy :: HostPolicy
  ce_resolve :: "string \<Rightarrow> u16 \<Rightarrow> IoError + SocketAddr"
  ce_connect :: "SocketAddr \<Rightarrow> IoError + unit"

record conn_io =
  io_set_timeouts :: bool
  io_reader_dup :: bool
  io_input :: string                \<comment> \<open>the bytes of the client, as far as they come\<close>
  io_eof :: bool                    \<comment> \<open>whether they end, rather than fail\<close>
  io_respond_dup :: bool
  io_client_write :: bool
  io_origin_dup :: bool             \<comment> \<open>for the closer\<close>
  io_splice_dup :: bool
  io_head_writes :: "nat \<Rightarrow> bool"   \<comment> \<open>the writes of the request head to the origin\<close>
  io_up_pieces :: "nat list"
  io_up_writes :: "nat \<Rightarrow> bool"
  io_down_reads :: "read_result list"
  io_down_writes :: "nat \<Rightarrow> bool"
  io_now_ms :: u64
  io_dur_ms :: u64

datatype conn_effect =
    Dial SocketAddr
  | RegisterOrigin
  | ToOrigin string
  | ToClient string
  | ShutdownClient
  | ShutdownOriginWrite
  | Audit NetAuditEvent
  | RecordRefused string

type_synonym conn_run = "conn_effect list \<times> (IoError + unit)"

definition response :: "nat \<Rightarrow> string \<Rightarrow> string" where
  "response code reason =
     (let body = decimal code @ '' '' @ reason @ [LF]
      in ''HTTP/1.1 '' @ decimal code @ '' '' @ reason @ CRLF @ ''Content-Length: '' @ decimal (length body) @ CRLF @
         ''Connection: close'' @ CRLF @ CRLF @ body)"

definition respond :: "conn_io \<Rightarrow> nat \<Rightarrow> string \<Rightarrow> conn_run" where
  "respond io code reason =
     (if \<not> io_respond_dup io then ([], Inl (OsError 1))
      else if \<not> io_client_write io then ([ToClient (response code reason)], Inl (OsError 2))
      else ([ToClient (response code reason), ShutdownClient], Inr ()))"

definition audit_event :: "conn_io \<Rightarrow> string \<Rightarrow> u16 \<Rightarrow> NetKind \<Rightarrow> NetDecision \<Rightarrow> u64 \<Rightarrow> u64 \<Rightarrow> NetAuditEvent" where
  "audit_event io host port kind decision up down =
     \<lparr>au_ts_ms = io_now_ms io, au_host = host, au_port = port, au_kind = kind, au_decision = decision,
      au_bytes_up = up, au_bytes_down = down, au_dur_ms = io_dur_ms io\<rparr>"

text \<open>Resolve, guard, connect: the address dialled, if the chain gets there, and whether it connected.\<close>

definition dial :: "conn_env \<Rightarrow> string \<Rightarrow> u16 \<Rightarrow> conn_run" where
  "dial env host port =
     (case ce_resolve env host port of
        Inl e \<Rightarrow> ([], Inl e)
      | Inr addr \<Rightarrow>
          (case guard_target addr host (ce_policy env) of
             Inl e \<Rightarrow> ([], Inl e)
           | Inr a \<Rightarrow> ([Dial a], ce_connect env a)))"

definition splice_buffered :: "conn_io \<Rightarrow> string \<Rightarrow> conn_effect list \<times> (IoError + u64 \<times> u64)" where
  "splice_buffered io rest =
     (if \<not> io_splice_dup io then ([], Inl (OsError 3))
      else
       (case copy_counted (io_up_writes io) 0 (read_script (io_eof io) (io_up_pieces io) rest) of
          (sent, up) \<Rightarrow>
            (case copy_counted (io_down_writes io) 0 (io_down_reads io) of
               (received, down) \<Rightarrow>
                 ([ToOrigin sent, ShutdownOriginWrite, ToClient received, ShutdownClient], Inr (up, down)))))"

fun write_lines :: "(nat \<Rightarrow> bool) \<Rightarrow> nat \<Rightarrow> string list \<Rightarrow> conn_effect list \<times> bool" where
  "write_lines writes k [] = ([], True)"
| "write_lines writes k (l # ls) =
     (if \<not> writes k then ([ToOrigin l], False)
      else (case write_lines writes (Suc k) ls of (effs, ok) \<Rightarrow> (ToOrigin l # effs, ok)))"

definition is_host_header :: "string \<Rightarrow> bool" where
  "is_host_header h = (case get_prefix 5 h of None \<Rightarrow> False | Some p \<Rightarrow> eq_ignore_ascii_case p ''host:'')"

definition host_header :: "string \<Rightarrow> u16 \<Rightarrow> string" where
  "host_header host port =
     (if port = 80 then ''Host: '' @ host @ CRLF
      else ''Host: '' @ host @ '':'' @ decimal (unat port) @ CRLF)"

definition forwarded_head :: "string \<Rightarrow> u16 \<Rightarrow> string \<Rightarrow> string list \<Rightarrow> string list" where
  "forwarded_head host port origin_line headers =
     [origin_line, host_header host port] @ filter (\<lambda>h. \<not> is_host_header h) headers @ [CRLF]"

text \<open>After the dial: register the origin with the closer, then tunnel or forward, then audit.\<close>

definition finish_splice :: "conn_io \<Rightarrow> string \<Rightarrow> u16 \<Rightarrow> NetKind \<Rightarrow> string \<Rightarrow> conn_run" where
  "finish_splice io host port kind rest =
     (case splice_buffered io rest of
        (effs, Inl e) \<Rightarrow> (effs, Inl e)
      | (effs, Inr (up, down)) \<Rightarrow> (effs @ [Audit (audit_event io host port kind DecAllowed up down)], Inr ()))"

definition handle_connect :: "conn_env \<Rightarrow> conn_io \<Rightarrow> string \<Rightarrow> u16 \<Rightarrow> string \<Rightarrow> conn_run" where
  "handle_connect env io host port rest =
     (case drain_headers (io_eof io) rest of
        Inl e \<Rightarrow> ([], Inl e)
      | Inr rest' \<Rightarrow>
          (case dial env host port of
             (effs, Inl _) \<Rightarrow>
               (case respond io 502 ''Bad Gateway'' of
                  (effs', r) \<Rightarrow> (effs @ [Audit (audit_event io host port KindConnect DecError 0 0)] @ effs', r))
           | (effs, Inr _) \<Rightarrow>
               (let effs1 = effs @ (if io_origin_dup io then [RegisterOrigin] else []) @
                      [ToClient (''HTTP/1.1 200 Connection Established'' @ CRLF @ CRLF)]
                in if \<not> io_client_write io then (effs1, Inl (OsError 2))
                   else (case finish_splice io host port KindConnect rest' of (effs', r) \<Rightarrow> (effs1 @ effs', r)))))"

definition handle_http :: "conn_env \<Rightarrow> conn_io \<Rightarrow> string \<Rightarrow> u16 \<Rightarrow> string \<Rightarrow> string \<Rightarrow> conn_run" where
  "handle_http env io host port origin_line rest =
     (case read_headers (io_eof io) rest of
        Inl e \<Rightarrow> ([], Inl e)
      | Inr (headers, rest') \<Rightarrow>
          (case dial env host port of
             (effs, Inl _) \<Rightarrow>
               (case respond io 502 ''Bad Gateway'' of
                  (effs', r) \<Rightarrow> (effs @ [Audit (audit_event io host port KindHttp DecError 0 0)] @ effs', r))
           | (effs, Inr _) \<Rightarrow>
               (case write_lines (io_head_writes io) 0 (forwarded_head host port origin_line headers) of
                  (wr, ok) \<Rightarrow>
                    (let effs1 = effs @ (if io_origin_dup io then [RegisterOrigin] else []) @ wr
                     in if \<not> ok then (effs1, Inl (OsError 4))
                        else (case finish_splice io host port KindHttp rest' of (effs', r) \<Rightarrow> (effs1 @ effs', r))))))"

fun target_host :: "Target \<Rightarrow> string" where
  "target_host (Connect host port) = host"
| "target_host (Http host port origin_line) = host"

fun target_port :: "Target \<Rightarrow> u16" where
  "target_port (Connect host port) = port"
| "target_port (Http host port origin_line) = port"

fun target_kind :: "Target \<Rightarrow> NetKind" where
  "target_kind (Connect host port) = KindConnect"
| "target_kind (Http host port origin_line) = KindHttp"

definition handle_conn :: "conn_env \<Rightarrow> conn_io \<Rightarrow> conn_run" where
  "handle_conn env io =
     (if \<not> io_set_timeouts io \<or> \<not> io_reader_dup io then ([], Inl (OsError 5))
      else
       (case read_line_bounded (io_eof io) (io_input io) of
          Inl e \<Rightarrow> ([], Inl e)
        | Inr (line, rest) \<Rightarrow>
            (case parse_request_line line of
               None \<Rightarrow> respond io 400 ''Bad Request''
             | Some t \<Rightarrow>
                 if \<not> allows (ce_policy env) (target_host t) then
                   (case respond io 403 ''Forbidden'' of
                      (effs, r) \<Rightarrow>
                        ([Audit (audit_event io (target_host t) (target_port t) (target_kind t) DecDenied 0 0),
                          RecordRefused (target_host t)] @ effs, r))
                 else
                   (case t of
                      Connect host port \<Rightarrow> handle_connect env io host port rest
                    | Http host port origin_line \<Rightarrow> handle_http env io host port origin_line rest))))"

subsection \<open>Refusal evidence\<close>

definition MAX_REFUSED_HOSTS :: nat where "MAX_REFUSED_HOSTS = 64"
definition MAX_REFUSED_HOST_BYTES :: nat where "MAX_REFUSED_HOST_BYTES = 255"

record Evidence =
  e_refused :: "string list"
  e_omitted_refused :: u64
  e_accepted :: u64
  e_completed :: u64
  e_capacity_rejects :: u64
  e_shutdown_aborts :: u64
  e_worker_spawn_failures :: u64
  e_worker_panics :: u64

definition evidence_default :: Evidence where
  "evidence_default = \<lparr>e_refused = [], e_omitted_refused = 0, e_accepted = 0, e_completed = 0,
     e_capacity_rejects = 0, e_shutdown_aborts = 0, e_worker_spawn_failures = 0, e_worker_panics = 0\<rparr>"

definition record_refused :: "string \<Rightarrow> Evidence \<Rightarrow> Evidence" where
  "record_refused host e =
     (if host \<in> set (e_refused e) then e
      else if length host > MAX_REFUSED_HOST_BYTES \<or> length (e_refused e) \<ge> MAX_REFUSED_HOSTS
      then e\<lparr>e_omitted_refused := e_omitted_refused e + 1\<rparr>
      else e\<lparr>e_refused := btree_insert host (e_refused e)\<rparr>)"

definition snapshot :: "Evidence \<Rightarrow> nat \<Rightarrow> nat \<Rightarrow> ProxyFinalEvidence" where
  "snapshot e worker_cap high_water_workers =
     \<lparr>pf_refused_hosts = e_refused e, pf_omitted_refused_attempts = e_omitted_refused e,
      pf_accepted = e_accepted e, pf_completed = e_completed e, pf_capacity_rejects = e_capacity_rejects e,
      pf_shutdown_aborts = e_shutdown_aborts e, pf_worker_spawn_failures = e_worker_spawn_failures e,
      pf_worker_panics = e_worker_panics e, pf_worker_cap = worker_cap,
      pf_high_water_workers = high_water_workers\<rparr>"

fun bounded_hosts_from :: "string list \<Rightarrow> string list \<Rightarrow> string + string list" where
  "bounded_hosts_from out [] = Inr out"
| "bounded_hosts_from out (host # seq) =
     (if length out \<ge> MAX_REFUSED_HOSTS then Inl ''refused_hosts exceeds the host bound''
      else if length host > MAX_REFUSED_HOST_BYTES then Inl ''refused_hosts entry exceeds the byte bound''
      else bounded_hosts_from (out @ [host]) seq)"

definition deserialize_bounded_hosts :: "string list \<Rightarrow> string + string list" where
  "deserialize_bounded_hosts seq = bounded_hosts_from [] seq"

subsection \<open>What a connection did\<close>

definition dials :: "conn_effect list \<Rightarrow> SocketAddr list" where
  "dials effs = concat (map (\<lambda>e. case e of Dial a \<Rightarrow> [a] | _ \<Rightarrow> []) effs)"

definition audits :: "conn_effect list \<Rightarrow> NetAuditEvent list" where
  "audits effs = concat (map (\<lambda>e. case e of Audit a \<Rightarrow> [a] | _ \<Rightarrow> []) effs)"

definition origin_bytes :: "conn_effect list \<Rightarrow> string" where
  "origin_bytes effs = concat (map (\<lambda>e. case e of ToOrigin s \<Rightarrow> s | _ \<Rightarrow> []) effs)"

definition refusals :: "conn_effect list \<Rightarrow> string list" where
  "refusals effs = concat (map (\<lambda>e. case e of RecordRefused h \<Rightarrow> [h] | _ \<Rightarrow> []) effs)"

definition request_target :: "conn_io \<Rightarrow> Target option" where
  "request_target io =
     (if io_set_timeouts io \<and> io_reader_dup io then
        (case read_line_bounded (io_eof io) (io_input io) of
           Inl _ \<Rightarrow> None
         | Inr (line, rest) \<Rightarrow> parse_request_line line)
      else None)"

lemmas did_defs = dials_def audits_def origin_bytes_def refusals_def

lemma did_append [simp]:
  "dials (xs @ ys) = dials xs @ dials ys" "audits (xs @ ys) = audits xs @ audits ys"
  "origin_bytes (xs @ ys) = origin_bytes xs @ origin_bytes ys" "refusals (xs @ ys) = refusals xs @ refusals ys"
  by (simp_all add: did_defs)

lemma did_Nil [simp]: "dials [] = []" "audits [] = []" "origin_bytes [] = []" "refusals [] = []"
  by (simp_all add: did_defs)

lemma did_Cons [simp]:
  "dials (e # effs) = (case e of Dial a \<Rightarrow> [a] | _ \<Rightarrow> []) @ dials effs"
  "audits (e # effs) = (case e of Audit a \<Rightarrow> [a] | _ \<Rightarrow> []) @ audits effs"
  "origin_bytes (e # effs) = (case e of ToOrigin s \<Rightarrow> s | _ \<Rightarrow> []) @ origin_bytes effs"
  "refusals (e # effs) = (case e of RecordRefused h \<Rightarrow> [h] | _ \<Rightarrow> []) @ refusals effs"
  by (simp_all add: did_defs)

lemma did_respond [simp]:
  assumes "respond io code reason = (effs, r)"
  shows "dials effs = []" "audits effs = []" "origin_bytes effs = []" "refusals effs = []"
  using assms by (auto simp: respond_def split: if_splits)

lemma did_write_lines [simp]:
  assumes "write_lines writes k ls = (effs, ok)"
  shows "dials effs = []" "audits effs = []" "refusals effs = []" "prefix (origin_bytes effs) (concat ls)"
    "ok \<Longrightarrow> origin_bytes effs = concat ls"
  using assms
  by (induction writes k ls arbitrary: effs rule: write_lines.induct) (auto split: if_splits prod.splits)

lemma did_dial:
  assumes "dial env host port = (effs, r)"
  shows "audits effs = []" "origin_bytes effs = []" "refusals effs = []"
    "dials effs = [] \<or> (\<exists>addr. dials effs = [addr] \<and> ce_resolve env host port = Inr addr \<and>
       guard_target addr host (ce_policy env) = Inr addr \<and> r = ce_connect env addr)"
    "r = Inr u \<Longrightarrow> dials effs \<noteq> []"
  using assms by (auto simp: dial_def guard_target_def Let_def split: sum.splits if_splits)

lemma did_splice:
  assumes "finish_splice io host port kind rest = (effs, r)"
  shows "dials effs = []" "refusals effs = []"
    "audits effs = [] \<and> \<not> is_ok r \<or> (\<exists>up down. audits effs = [audit_event io host port kind DecAllowed up down] \<and> r = Inr ())"
    "origin_bytes effs = origin_bytes (fst (splice_buffered io rest))"
proof -
  consider (failed) e where "splice_buffered io rest = (effs, Inl e)" "r = Inl e" "effs = []"
    | (spliced) sent received up down where
        "splice_buffered io rest = ([ToOrigin sent, ShutdownOriginWrite, ToClient received, ShutdownClient], Inr (up, down))"
        "effs = [ToOrigin sent, ShutdownOriginWrite, ToClient received, ShutdownClient] @
           [Audit (audit_event io host port kind DecAllowed up down)]" "r = Inr ()"
    using assms by (auto simp: finish_splice_def splice_buffered_def split: if_splits prod.splits sum.splits)
  then show "dials effs = []" "refusals effs = []"
    "audits effs = [] \<and> \<not> is_ok r \<or> (\<exists>up down. audits effs = [audit_event io host port kind DecAllowed up down] \<and> r = Inr ())"
    "origin_bytes effs = origin_bytes (fst (splice_buffered io rest))"
    by (cases; simp; blast)+
qed

lemma copied_prefix: "prefix (fst (copy_counted w k (read_script eof ns s))) s"
proof (induction eof ns s arbitrary: k rule: read_script.induct)
  case (2 eof n ns s)
  let ?k = "max 1 (min n COPY_BUF)"
  show ?case
  proof (cases "s = []")
    case False
    from 2 [OF False refl, of "Suc k"]
    have "prefix (take ?k s @ fst (copy_counted w (Suc k) (read_script eof ns (drop ?k s)))) (take ?k s @ drop ?k s)"
      by (simp only: same_prefix_prefix)
    with False show ?thesis by (auto simp: Let_def take_is_prefix split: prod.splits)
  qed simp
qed simp

lemma spliced_prefix: "prefix (origin_bytes (fst (splice_buffered io rest))) rest"
  using copied_prefix by (auto simp: splice_buffered_def split: prod.splits) (metis fst_conv)

subsection \<open>Dialling\<close>

lemma segment_bit: "i < 8 \<Longrightarrow> j < 16 \<Longrightarrow> bit (segment i a) j = bit a (16 * (7 - i) + j)"
  by (simp add: segment_def bit_ucast_iff bit_drop_bit_eq)

lemma v6_segments_inj: "v6_segments a = v6_segments b \<longleftrightarrow> a = b"
proof
  assume eq: "v6_segments a = v6_segments b"
  have seg: "segment i a = segment i b" if "i < 8" for i
    using eq that by (auto simp: v6_segments_def word_unat_eq_iff map_eq_conv)
  show "a = b"
  proof (rule bit_word_eqI)
    fix n :: nat assume "n < LENGTH(128)"
    then have "7 - n div 16 < 8" "n mod 16 < 16" "16 * (7 - (7 - n div 16)) + n mod 16 = n" by auto
    then show "bit a n = bit b n" using seg segment_bit by metis
  qed
qed simp

definition ec2_metadata :: "128 word" where
  "ec2_metadata = 0xfd000ec2000000000000000000000254"

lemma ec2_segments: "v6_segments ec2_metadata = [0xfd00, 0x0ec2, 0, 0, 0, 0, 0, 0x0254]"
  unfolding v6_segments_def ec2_metadata_def by (simp add: upt_rec unat_segment)

definition rfc1918 :: "(u32 \<times> u32) list" where
  "rfc1918 = [(0x0A000000, 0x0AFFFFFF), (0xAC100000, 0xAC1FFFFF), (0xC0A80000, 0xC0A8FFFF)]"

definition unique_local :: "(128 word \<times> 128 word) list" where
  "unique_local = [(0xfc000000000000000000000000000000, 0xfdffffffffffffffffffffffffffffff)]"

definition approvable_range :: "IpAddr \<Rightarrow> bool" where
  "approvable_range ip =
     (case ip of V4 a \<Rightarrow> in_ranges rfc1918 a | V6 a \<Rightarrow> in_ranges unique_local a \<and> a \<noteq> ec2_metadata)"

lemma approvable_ranges: "approvable ip = approvable_range ip"
proof (cases ip)
  case (V4 a)
  then show ?thesis
    unfolding approvable_def approvable_range_def V4 IpAddr.case v4_is_private_def range_rows in_ranges_def rfc1918_def
    by simp
next
  case (V6 a)
  have "v6_segments a \<noteq> [0xfd00, 0x0ec2, 0, 0, 0, 0, 0, 0x0254] \<longleftrightarrow> a \<noteq> ec2_metadata"
    unfolding ec2_segments [symmetric] v6_segments_inj ..
  then show ?thesis
    unfolding approvable_def approvable_range_def V6 IpAddr.case v6_rows in_ranges_def unique_local_def by simp
qed

lemma is_internal_unmap: "is_internal_ip (unmap ip) = is_internal_ip ip"
  by (cases ip) (auto simp: is_internal_ip_def unmap_def split: option.splits)

lemma guard_target_ok:
  "guard_target addr host policy = Inr a \<longleftrightarrow>
     a = addr \<and> (is_internal_ip (fst addr) \<longrightarrow> approvable_range (unmap (fst addr)) \<and> allows_private policy host)"
  by (auto simp: guard_target_def Let_def is_internal_unmap approvable_ranges)

definition dialled :: "conn_env \<Rightarrow> Target \<Rightarrow> SocketAddr \<Rightarrow> bool" where
  "dialled env t addr \<longleftrightarrow> ce_resolve env (target_host t) (target_port t) = Inr addr \<and>
     guard_target addr (target_host t) (ce_policy env) = Inr addr"

definition target_audit :: "conn_io \<Rightarrow> Target \<Rightarrow> NetDecision \<Rightarrow> u64 \<Rightarrow> u64 \<Rightarrow> NetAuditEvent" where
  "target_audit io t = audit_event io (target_host t) (target_port t) (target_kind t)"

definition admitted_run :: "conn_env \<Rightarrow> conn_io \<Rightarrow> Target \<Rightarrow> conn_effect list \<Rightarrow> IoError + unit \<Rightarrow> bool" where
  "admitted_run env io t effs r \<longleftrightarrow> refusals effs = [] \<and>
     (dials effs = [] \<or> (\<exists>addr. dials effs = [addr] \<and> dialled env t addr)) \<and>
     (audits effs = [] \<and> \<not> is_ok r \<or>
      audits effs = [target_audit io t DecError 0 0] \<and> origin_bytes effs = [] \<and>
        (\<forall>addr\<in>set (dials effs). \<not> is_ok (ce_connect env addr)) \<or>
      (\<exists>addr up down. audits effs = [target_audit io t DecAllowed up down] \<and> r = Inr () \<and>
         dials effs = [addr] \<and> is_ok (ce_connect env addr)))"

lemma admitted_connect:
  assumes "handle_connect env io host port rest = (effs, r)"
  shows "admitted_run env io (Connect host port) effs r"
proof (cases "drain_headers (io_eof io) rest")
  case (Inr rest')
  obtain de dr where d: "dial env host port = (de, dr)" by fastforce
  note dd = did_dial [OF d]
  show ?thesis
  proof (cases dr)
    case (Inl e)
    have "\<forall>addr\<in>set (dials de). \<not> is_ok (ce_connect env addr)"
      using dd(4) Inl by (auto simp: is_ok_iff)
    moreover have "dials de = [] \<or> (\<exists>addr. dials de = [addr] \<and> ce_resolve env host port = Inr addr \<and>
        guard_target addr host (ce_policy env) = Inr addr)"
      using dd(4) by blast
    ultimately show ?thesis
      using assms Inr d dd(1-3) Inl
      by (auto simp: handle_connect_def admitted_run_def target_audit_def dialled_def split: prod.splits)
  next
    case ok: (Inr u)
    obtain se sr where s: "finish_splice io host port KindConnect rest' = (se, sr)" by fastforce
    from ok dd obtain addr where addr: "dials de = [addr]" "ce_connect env addr = Inr u" "dialled env (Connect host port) addr"
      by (auto simp: dialled_def)
    define pre where "pre = de @ (if io_origin_dup io then [RegisterOrigin] else []) @
      [ToClient (''HTTP/1.1 200 Connection Established'' @ CRLF @ CRLF)]"
    have "dials pre = [addr]" "audits pre = []" "refusals pre = []"
      using addr(1) dd(1,3) by (simp_all add: pre_def)
    moreover have "effs = pre \<and> \<not> is_ok r \<or> effs = pre @ se \<and> r = sr"
      using assms Inr d ok s by (auto simp: handle_connect_def pre_def Let_def split: if_splits)
    ultimately show ?thesis
      using addr did_splice(1-3) [OF s] by (fastforce simp: admitted_run_def target_audit_def)
  qed
qed (use assms in \<open>auto simp: handle_connect_def admitted_run_def\<close>)

lemma admitted_http:
  assumes "handle_http env io host port origin_line rest = (effs, r)"
  shows "admitted_run env io (Http host port origin_line) effs r"
proof (cases "read_headers (io_eof io) rest")
  case (Inr p)
  then obtain headers rest' where h: "read_headers (io_eof io) rest = Inr (headers, rest')" by (cases p) simp
  obtain de dr where d: "dial env host port = (de, dr)" by fastforce
  note dd = did_dial [OF d]
  show ?thesis
  proof (cases dr)
    case (Inl e)
    have "\<forall>addr\<in>set (dials de). \<not> is_ok (ce_connect env addr)"
      using dd(4) Inl by (auto simp: is_ok_iff)
    moreover have "dials de = [] \<or> (\<exists>addr. dials de = [addr] \<and> ce_resolve env host port = Inr addr \<and>
        guard_target addr host (ce_policy env) = Inr addr)"
      using dd(4) by blast
    ultimately show ?thesis
      using assms h d dd(1-3) Inl
      by (auto simp: handle_http_def admitted_run_def target_audit_def dialled_def split: prod.splits)
  next
    case ok: (Inr u)
    obtain se sr where s: "finish_splice io host port KindHttp rest' = (se, sr)" by fastforce
    obtain we wok where w: "write_lines (io_head_writes io) 0 (forwarded_head host port origin_line headers) = (we, wok)"
      by fastforce
    from ok dd obtain addr where addr: "dials de = [addr]" "ce_connect env addr = Inr u"
        "dialled env (Http host port origin_line) addr"
      by (auto simp: dialled_def)
    define pre where "pre = de @ (if io_origin_dup io then [RegisterOrigin] else []) @ we"
    have "dials pre = [addr]" "audits pre = []" "refusals pre = []"
      using addr(1) dd(1,3) did_write_lines(1-3) [OF w] by (simp_all add: pre_def)
    moreover have "effs = pre \<and> \<not> is_ok r \<or> effs = pre @ se \<and> r = sr"
      using assms h d ok s w by (auto simp: handle_http_def pre_def Let_def split: if_splits)
    ultimately show ?thesis
      using addr did_splice(1-3) [OF s] by (fastforce simp: admitted_run_def target_audit_def)
  qed
qed (use assms in \<open>auto simp: handle_http_def admitted_run_def\<close>)

lemma handled:
  assumes "handle_conn env io = (effs, r)"
  shows "request_target io = None \<and> dials effs = [] \<and> audits effs = [] \<and> origin_bytes effs = [] \<and> refusals effs = [] \<or>
    (\<exists>t. request_target io = Some t \<and> \<not> allows (ce_policy env) (target_host t) \<and> dials effs = [] \<and>
       audits effs = [target_audit io t DecDenied 0 0] \<and> origin_bytes effs = [] \<and> refusals effs = [target_host t]) \<or>
    (\<exists>t. request_target io = Some t \<and> allows (ce_policy env) (target_host t) \<and> admitted_run env io t effs r)"
proof (cases "\<exists>line rest t. io_set_timeouts io \<and> io_reader_dup io \<and>
    read_line_bounded (io_eof io) (io_input io) = Inr (line, rest) \<and> parse_request_line line = Some t")
  case False
  then show ?thesis
    using assms by (auto simp: handle_conn_def request_target_def split: if_splits sum.splits prod.splits option.splits)
next
  case True
  then obtain line rest t where t: "io_set_timeouts io" "io_reader_dup io"
    "read_line_bounded (io_eof io) (io_input io) = Inr (line, rest)" "parse_request_line line = Some t" by blast
  then have rt: "request_target io = Some t" by (simp add: request_target_def)
  show ?thesis
  proof (cases "allows (ce_policy env) (target_host t)")
    case False
    with assms t rt show ?thesis
      by (auto simp: handle_conn_def target_audit_def split: prod.splits)
  next
    case True
    with assms t have "(case t of Connect host port \<Rightarrow> handle_connect env io host port rest
        | Http host port origin_line \<Rightarrow> handle_http env io host port origin_line rest) = (effs, r)"
      by (simp add: handle_conn_def)
    with True rt show ?thesis
      by (cases t) (auto dest: admitted_connect admitted_http)
  qed
qed

text \<open>C22. Only authorised addresses are dialled. If serving a connection dials an address, it dials just
  that one; the request line named a host on the allow-list, the resolver gave that address for that
  host and port, and if the address is internal the host also has a private-host approval and the
  address, read through an IPv4 mapping, is RFC 1918 space or unique-local and not the EC2 metadata
  endpoint. So link-local, carrier-grade, multicast and reserved space is never dialled.\<close>

theorem dial_is_authorised:
  assumes "handle_conn env io = (effs, r)" and "Dial addr \<in> set effs"
  shows "\<exists>t. request_target io = Some t \<and> allows (ce_policy env) (target_host t) \<and>
    ce_resolve env (target_host t) (target_port t) = Inr addr \<and> dials effs = [addr] \<and>
    (is_internal_ip (fst addr) \<longrightarrow>
       allows_private (ce_policy env) (target_host t) \<and> approvable_range (unmap (fst addr)))"
proof -
  have "addr \<in> set (dials effs)" using assms(2) by (induction effs) (auto simp del: split_paired_Ex)
  with handled [OF assms(1)] show ?thesis
    by (auto simp: admitted_run_def dialled_def guard_target_ok)
qed

subsection \<open>Well-formed text after lossy decoding\<close>

definition utf8_safe :: "string \<Rightarrow> bool" where
  "utf8_safe s \<longleftrightarrow> (s = [] \<or> \<not> is_continuation (hd s)) \<and>
     successively (\<lambda>a b. is_continuation b \<longrightarrow> 128 \<le> (of_char a :: nat)) s"

lemma second_ok_continuation: "second_ok b c \<Longrightarrow> is_continuation c"
  by (auto simp: second_ok_def byte_in_def is_continuation_def split: if_splits)

lemma char_chunk:
  assumes "next_char b rest = (n, True)"
  shows "take n (b # rest) = [b] \<and> \<not> is_continuation b \<or>
    list_all is_continuation (tl (take n (b # rest))) \<and> 192 \<le> (of_char b :: nat)"
proof (cases "utf8_width b = 1")
  case True
  then show ?thesis
    using assms by (auto simp: next_char_def Let_def utf8_width_def byte_in_def is_continuation_def split: if_splits)
next
  case False
  have lead: "utf8_width b \<noteq> 0 \<Longrightarrow> 192 \<le> (of_char b :: nat)"
    using False by (auto simp: utf8_width_def byte_in_def split: if_splits)
  consider "rest = []" | c where "rest = [c]" | c d where "rest = [c, d]" | c d e r where "rest = c # d # e # r"
    by (metis list.exhaust)
  then show ?thesis
    using assms False lead
    by cases (auto simp: next_char_def Let_def take_Cons' dest: second_ok_continuation split: if_splits)
qed

lemma char_chunk_safe:
  assumes "next_char b rest = (n, True)" "utf8_safe t"
  shows "utf8_safe (take n (b # rest) @ t)"
proof -
  have conts: "utf8_safe (b # cs @ t)" if "list_all is_continuation cs" "192 \<le> (of_char b :: nat)" for cs
  proof -
    have "successively (\<lambda>a b. is_continuation b \<longrightarrow> 128 \<le> (of_char a :: nat)) (c # ds @ t)"
      if "128 \<le> (of_char c :: nat)" "list_all is_continuation ds" for c ds
      using that assms(2)
      by (induction ds arbitrary: c) (auto simp: utf8_safe_def successively_Cons is_continuation_def)
    with that show ?thesis by (simp add: utf8_safe_def is_continuation_def)
  qed
  obtain m where "n = Suc m" using next_char_pos [of b rest] assms(1) by (metis fst_conv gr0_implies_Suc)
  with char_chunk [OF assms(1)] conts [of "take m rest"] assms(2) show ?thesis
    by (auto simp: utf8_safe_def successively_Cons)
qed

lemma utf8_safe_lossy: "utf8_safe (from_utf8_lossy s)"
proof (induction s rule: from_utf8_lossy.induct)
  case (2 b rest)
  obtain n ok where n: "next_char b rest = (n, ok)" by fastforce
  have IH: "utf8_safe (from_utf8_lossy (drop n (b # rest)))" using 2 n by metis
  show ?case
  proof (cases ok)
    case True
    with n IH char_chunk_safe show ?thesis by (simp add: from_utf8_lossy.simps)
  next
    case False
    with n IH show ?thesis
      by (auto simp: from_utf8_lossy.simps replacement_def utf8_safe_def successively_Cons is_continuation_def)
  qed
qed (simp add: from_utf8_lossy.simps utf8_safe_def)

lemma lossy_ascii: "list_all (\<lambda>c. (of_char c :: nat) < 128) s \<Longrightarrow> from_utf8_lossy s = s"
  by (induction s) (auto simp: from_utf8_lossy.simps next_char_def utf8_width_def byte_in_def)

subsection \<open>The forwarded request head\<close>

lemma lower_colon: "(if CHR ''A'' \<le> c \<and> c \<le> CHR ''Z'' then char_of ((of_char c :: nat) + 32) else c) = CHR '':'' \<Longrightarrow>
   (of_char c :: nat) < 128"
  by (auto simp: less_eq_char_def split: if_splits)

lemma is_host_header_iff:
  assumes "utf8_safe h"
  shows "is_host_header h \<longleftrightarrow> eq_ignore_ascii_case (take 5 h) ''host:''"
proof -
  have "\<not> (length h < 5 \<or> 5 < length h \<and> is_continuation (h ! 5))"
    if eq: "eq_ignore_ascii_case (take 5 h) ''host:''"
  proof -
    from eq have low: "to_ascii_lowercase (take 5 h) = ''host:''"
      by (simp add: eq_ignore_ascii_case_def to_ascii_lowercase_def less_eq_char_def)
    have "length (take 5 h) = length (to_ascii_lowercase (take 5 h))" by (simp add: to_ascii_lowercase_def)
    also have "\<dots> = 5" unfolding low by simp
    finally have len: "5 \<le> length h" by simp
    have "to_ascii_lowercase (take 5 h) ! 4 = CHR '':''" using low by (simp add: eval_nat_numeral)
    moreover have "to_ascii_lowercase (take 5 h) ! 4 =
        (if CHR ''A'' \<le> h ! 4 \<and> h ! 4 \<le> CHR ''Z'' then char_of ((of_char (h ! 4) :: nat) + 32) else h ! 4)"
      using len by (auto simp: to_ascii_lowercase_def)
    ultimately have "(of_char (h ! 4) :: nat) < 128" using lower_colon by metis
    moreover have "is_continuation (h ! Suc 4) \<longrightarrow> 128 \<le> (of_char (h ! 4) :: nat)" if "5 < length h"
      using assms that by (simp add: utf8_safe_def successively_conv_nth)
    ultimately show ?thesis using len by (auto simp: eval_nat_numeral)
  qed
  then show ?thesis by (auto simp: is_host_header_def get_prefix_def eq_ignore_ascii_case_def to_ascii_lowercase_def)
qed

lemma read_headers_safe:
  "read_headers_from eof n lines s = Inr (headers, rest) \<Longrightarrow> list_all utf8_safe lines \<Longrightarrow> list_all utf8_safe headers"
proof (induction eof n lines s rule: read_headers_from.induct)
  case (1 eof n lines s)
  then show ?case
    by (subst (asm) read_headers_from.simps)
      (auto simp: read_line_bounded_def utf8_safe_lossy split: sum.splits if_splits)
qed

lemma read_headers_split:
  "read_headers_from eof n lines s = Inr (headers, rest) \<Longrightarrow> suffix rest s"
proof (induction eof n lines s rule: read_headers_from.induct)
  case (1 eof n lines s)
  then show ?case
    by (subst (asm) (2) read_headers_from.simps)
      (fastforce simp: read_line_bounded_def suffix_def split: sum.splits if_splits dest: read_raw_line_split)
qed

lemma http_origin_bytes:
  assumes "handle_http env io host port origin_line rest = (effs, r)" and "origin_bytes effs \<noteq> []"
  obtains headers rest' sent where "read_headers (io_eof io) rest = Inr (headers, rest')" "prefix sent rest'"
    "prefix (origin_bytes effs) (concat (forwarded_head host port origin_line headers) @ sent)"
    "r = Inr () \<Longrightarrow> origin_bytes effs = concat (forwarded_head host port origin_line headers) @ sent"
proof (cases "read_headers (io_eof io) rest")
  case Inl
  with assms show ?thesis by (simp add: handle_http_def)
next
  case (Inr p)
  then obtain headers rest' where h: "read_headers (io_eof io) rest = Inr (headers, rest')" by (cases p) simp
  obtain de dr where d: "dial env host port = (de, dr)" by fastforce
  show ?thesis
  proof (cases dr)
    case (Inl e)
    with assms h d did_dial(2) [OF d] show ?thesis by (auto simp: handle_http_def split: prod.splits)
  next
    case ok: (Inr u)
    let ?head = "forwarded_head host port origin_line headers"
    let ?sent = "origin_bytes (fst (splice_buffered io rest'))"
    obtain we wok where w: "write_lines (io_head_writes io) 0 ?head = (we, wok)" by fastforce
    obtain se sr where s: "finish_splice io host port KindHttp rest' = (se, sr)" by fastforce
    have "origin_bytes effs = origin_bytes we \<and> \<not> is_ok r \<and> \<not> wok \<or> origin_bytes effs = origin_bytes we @ ?sent \<and> wok"
      using assms(1) h d ok w s did_dial(2) [OF d] did_splice(4) [OF s]
      by (auto simp: handle_http_def Let_def split: if_splits)
    moreover have "prefix (origin_bytes we) (concat ?head @ ?sent)"
      using did_write_lines(4) [OF w] by (rule prefix_prefix)
    ultimately show ?thesis
      using that [OF h spliced_prefix [of io]] did_write_lines(5) [OF w] by (cases wok) (auto simp: is_ok_iff)
  qed
qed

text \<open>What an origin is sent for a plaintext request. The bytes written to it are a prefix of the
  request line in origin form, the \<^verbatim>\<open>Host\<close> header of the host the allow-list approved, header lines none
  of which is a \<^verbatim>\<open>Host\<close> header in any letter case, the blank line, and bytes the client sent after its
  header block; when the handler succeeds they are all of that up to the end of the copied body.\<close>

theorem forwarded_head_is_rewritten:
  assumes "handle_conn env io = (effs, r)" and "request_target io = Some (Http host port origin_line)"
    and "origin_bytes effs \<noteq> []"
  shows "\<exists>headers body. allows (ce_policy env) host \<and>
    list_all (\<lambda>h. \<not> eq_ignore_ascii_case (take 5 h) ''host:'') headers \<and> sublist body (io_input io) \<and>
    prefix (origin_bytes effs) (origin_line @ host_header host port @ concat headers @ CRLF @ body) \<and>
    (r = Inr () \<longrightarrow> origin_bytes effs = origin_line @ host_header host port @ concat headers @ CRLF @ body)"
proof -
  obtain line rest where line: "read_line_bounded (io_eof io) (io_input io) = Inr (line, rest)"
      "parse_request_line line = Some (Http host port origin_line)" "io_set_timeouts io" "io_reader_dup io"
    using assms(2) by (auto simp: request_target_def split: if_splits sum.splits)
  have allowed: "allows (ce_policy env) host" using handled [OF assms(1)] assms(2,3) by auto
  with assms(1) line have "handle_http env io host port origin_line rest = (effs, r)"
    by (simp add: handle_conn_def)
  from http_origin_bytes [OF this assms(3)] obtain headers rest' sent where
    h: "read_headers (io_eof io) rest = Inr (headers, rest')" "prefix sent rest'"
    "prefix (origin_bytes effs) (concat (forwarded_head host port origin_line headers) @ sent)"
    "r = Inr () \<Longrightarrow> origin_bytes effs = concat (forwarded_head host port origin_line headers) @ sent"
    by metis
  have "suffix rest (io_input io)"
    using line(1) by (auto simp: read_line_bounded_def suffix_def split: sum.splits dest: read_raw_line_split)
  moreover have "suffix rest' rest" using h(1) read_headers_split by (auto simp: read_headers_def)
  ultimately have "suffix rest' (io_input io)" by (metis suffix_order.trans)
  then have "sublist sent (io_input io)"
    using h(2) by (auto simp: suffix_def prefix_def sublist_def)
  moreover have "list_all utf8_safe headers" using h(1) read_headers_safe by (fastforce simp: read_headers_def)
  then have "list_all (\<lambda>h. \<not> eq_ignore_ascii_case (take 5 h) ''host:'') (filter (\<lambda>h. \<not> is_host_header h) headers)"
    by (auto simp: list_all_iff is_host_header_iff)
  ultimately show ?thesis
    using h(3,4) allowed by (intro exI [of _ "filter (\<lambda>h. \<not> is_host_header h) headers"] exI [of _ sent])
      (simp add: forwarded_head_def)
qed

definition smooth_io :: "string \<Rightarrow> conn_io" where
  "smooth_io input =
     \<lparr>io_set_timeouts = True, io_reader_dup = True, io_input = input, io_eof = True, io_respond_dup = True,
      io_client_write = True, io_origin_dup = True, io_splice_dup = True, io_head_writes = (\<lambda>_. True),
      io_up_pieces = replicate (Suc (length input)) COPY_BUF, io_up_writes = (\<lambda>_. True),
      io_down_reads = [ReadOk []], io_down_writes = (\<lambda>_. True), io_now_ms = 0, io_dur_ms = 0\<rparr>"

lemma copied_all:
  "length s < length ns \<Longrightarrow> fst (copy_counted (\<lambda>_. True) k (read_script eof ns s)) = s"
proof (induction eof ns s arbitrary: k rule: read_script.induct)
  case (2 eof n ns s)
  let ?k = "max 1 (min n COPY_BUF)"
  show ?case
  proof (cases "s = []")
    case False
    moreover from False have "length (drop ?k s) < length ns"
      using 2(2) by (cases s) (auto simp: max_def min_def)
    with 2(1) [OF False refl] have "fst (copy_counted (\<lambda>_. True) (Suc k) (read_script eof ns (drop ?k s))) = drop ?k s"
      by blast
    ultimately show ?thesis by (auto simp: Let_def split: prod.splits)
  qed simp
qed simp

lemma read_line_ascii:
  assumes "LF \<notin> set l" "length l < MAX_HEAD" "list_all (\<lambda>c. (of_char c :: nat) < 128) l"
  shows "read_line_bounded eof (l @ LF # rest) = Inr (l @ [LF], rest)"
proof -
  have "take MAX_HEAD (l @ LF # rest) = l @ LF # take (MAX_HEAD - length l - 1) rest"
    using assms(2) by (simp add: take_Cons')
  then have "split_once LF (take MAX_HEAD (l @ LF # rest)) = Some (l, take (MAX_HEAD - length l - 1) rest)"
    using split_once_sep [OF assms(1)] by simp
  then show ?thesis
    using assms(3) lossy_ascii [of "l @ [LF]"] by (simp add: read_line_bounded_def read_raw_line_def)
qed

lemma parse_get: "parse_request_line (''GET http://h/ HTTP/1.1'' @ CRLF) = Some (Http ''h'' 80 (''GET / HTTP/1.1'' @ CRLF))"
  by code_simp

lemma read_get: "read_line_bounded eof (''GET http://h/ HTTP/1.1'' @ CRLF @ rest) = Inr (''GET http://h/ HTTP/1.1'' @ CRLF, rest)"
  using read_line_ascii [of "''GET http://h/ HTTP/1.1'' @ [CR]" eof rest] by (simp add: MAX_HEAD_def)

lemma read_no_headers: "read_headers eof (CRLF @ rest) = Inr ([], rest)"
  unfolding read_headers_def
  by (subst read_headers_from.simps) (use read_line_ascii [of "[CR]" eof rest] in \<open>simp add: MAX_HEAD_def\<close>)

lemma smooth_splice:
  "length rest \<le> length input \<Longrightarrow> origin_bytes (fst (splice_buffered (smooth_io input) rest)) = rest"
  using copied_all [of rest "replicate (Suc (length input)) COPY_BUF" 0 True]
  by (auto simp: splice_buffered_def smooth_io_def split: prod.splits simp del: read_script.simps replicate.simps)

lemma smooth_http:
  assumes "dial env host port = (de, Inr ())" "read_headers True rest = Inr (headers, rest')" "length rest' \<le> length input"
  shows "origin_bytes (fst (handle_http env (smooth_io input) host port origin_line rest)) =
    concat (forwarded_head host port origin_line headers) @ rest'"
proof -
  have written: "write_lines (\<lambda>_. True) k ls = (map ToOrigin ls, True)" for k ls
    by (induction ls arbitrary: k) simp_all
  have lines: "origin_bytes (map ToOrigin ls) = concat ls" for ls by (induction ls) simp_all
  obtain se sr where s: "finish_splice (smooth_io input) host port KindHttp rest' = (se, sr)" by fastforce
  then have "origin_bytes se = rest'" using did_splice(4) [OF s] smooth_splice [OF assms(3)] by simp
  moreover have "io_head_writes (smooth_io input) = (\<lambda>_. True)" "io_eof (smooth_io input)"
    by (simp_all add: smooth_io_def)
  ultimately show ?thesis
    using assms(1,2) s did_dial(2) [OF assms(1)]
    by (simp add: handle_http_def written lines Let_def)
qed

lemma handle_conn_http:
  assumes "io_set_timeouts io" "io_reader_dup io" "read_line_bounded (io_eof io) (io_input io) = Inr (line, rest)"
    "parse_request_line line = Some (Http host port origin_line)" "allows (ce_policy env) host"
  shows "handle_conn env io = handle_http env io host port origin_line rest"
  using assms by (simp add: handle_conn_def)

text \<open>The rewriting covers one request only. Whatever a client sends after the blank line of a
  request without a body reaches the origin unchanged, so a second request on the same connection
  carries the \<^verbatim>\<open>Host\<close> header the client chose, for a host no allow-list approved.\<close>

theorem pipelined_request_is_verbatim:
  assumes "allows (ce_policy env) ''h''" and "ce_resolve env ''h'' 80 = Inr addr"
    and "guard_target addr ''h'' (ce_policy env) = Inr addr" and "ce_connect env addr = Inr ()"
  shows "origin_bytes (fst (handle_conn env (smooth_io (''GET http://h/ HTTP/1.1'' @ CRLF @ CRLF @ extra)))) =
    ''GET / HTTP/1.1'' @ CRLF @ ''Host: h'' @ CRLF @ CRLF @ extra"
proof -
  let ?io = "smooth_io (''GET http://h/ HTTP/1.1'' @ CRLF @ CRLF @ extra)"
  have io: "io_set_timeouts ?io" "io_reader_dup ?io" "io_eof ?io" "io_input ?io = ''GET http://h/ HTTP/1.1'' @ CRLF @ CRLF @ extra"
    by (simp_all add: smooth_io_def)
  have dial: "dial env ''h'' 80 = ([Dial addr], Inr ())" using assms by (simp add: dial_def)
  have "handle_conn env ?io = handle_http env ?io ''h'' 80 (''GET / HTTP/1.1'' @ CRLF) (CRLF @ extra)"
    by (rule handle_conn_http [OF io(1,2) _ parse_get assms(1)]) (unfold io(4), rule read_get)
  then show ?thesis
    using smooth_http [OF dial read_no_headers, of extra "''GET http://h/ HTTP/1.1'' @ CRLF @ CRLF @ extra" "''GET / HTTP/1.1'' @ CRLF"]
    by (simp add: forwarded_head_def host_header_def)
qed

subsection \<open>The audit trail\<close>

fun decision_holds :: "NetDecision \<Rightarrow> conn_env \<Rightarrow> string \<Rightarrow> conn_effect list \<Rightarrow> IoError + unit \<Rightarrow> bool" where
  "decision_holds DecDenied env host effs r \<longleftrightarrow> \<not> allows (ce_policy env) host \<and> dials effs = [] \<and>
     origin_bytes effs = [] \<and> refusals effs = [host]"
| "decision_holds DecError env host effs r \<longleftrightarrow> allows (ce_policy env) host \<and> origin_bytes effs = [] \<and> refusals effs = [] \<and>
     list_all (\<lambda>addr. \<not> is_ok (ce_connect env addr)) (dials effs)"
| "decision_holds DecAllowed env host effs r \<longleftrightarrow> allows (ce_policy env) host \<and> r = Inr () \<and> refusals effs = [] \<and>
     length (dials effs) = 1 \<and> list_all (\<lambda>addr. is_ok (ce_connect env addr)) (dials effs)"

lemma audit_fields:
  "au_host (target_audit io t d up down) = target_host t" "au_port (target_audit io t d up down) = target_port t"
  "au_kind (target_audit io t d up down) = target_kind t" "au_decision (target_audit io t d up down) = d"
  by (simp_all add: target_audit_def audit_event_def)

text \<open>The audit trail is honest. A connection leaves at most one audit record; the record names the
  host, port and kind of its request line; a denial means the host is off the allow-list, nothing was
  dialled or sent and the host was put in the refusal evidence; an error means the host was allowed and
  no origin was connected or sent anything; an allowance means one origin was connected. A connection
  whose request line parses and whose handler succeeds leaves its record.\<close>

theorem audit_is_honest:
  assumes "handle_conn env io = (effs, r)"
  shows "length (audits effs) \<le> 1 \<and>
    (\<forall>ev\<in>set (audits effs). \<exists>t. request_target io = Some t \<and> au_host ev = target_host t \<and> au_port ev = target_port t \<and>
       au_kind ev = target_kind t \<and> decision_holds (au_decision ev) env (target_host t) effs r) \<and>
    (r = Inr () \<and> request_target io \<noteq> None \<longrightarrow> audits effs \<noteq> [])"
proof -
  consider "request_target io = None" "audits effs = []"
    | t where "request_target io = Some t" "audits effs = [target_audit io t DecDenied 0 0]"
        "decision_holds DecDenied env (target_host t) effs r"
    | t where "request_target io = Some t" "audits effs = []" "\<not> is_ok r"
    | t where "request_target io = Some t" "audits effs = [target_audit io t DecError 0 0]"
        "decision_holds DecError env (target_host t) effs r"
    | t up down where "request_target io = Some t" "audits effs = [target_audit io t DecAllowed up down]"
        "decision_holds DecAllowed env (target_host t) effs r"
    using handled [OF assms] by (fastforce simp: admitted_run_def list_all_iff)
  then show ?thesis by cases (simp_all add: audit_fields is_ok_iff)
qed

text \<open>A failed write escapes the trail: the origin is dialled and sent the request line, and no record
  is left.\<close>

lemma write_failure_escapes_audit:
  assumes "allows (ce_policy env) ''h''" and "ce_resolve env ''h'' 80 = Inr addr"
    and "guard_target addr ''h'' (ce_policy env) = Inr addr" and "ce_connect env addr = Inr ()"
  shows "let io = (smooth_io (''GET http://h/ HTTP/1.1'' @ CRLF @ CRLF))\<lparr>io_head_writes := (\<lambda>k. k < 1)\<rparr>;
    effs = fst (handle_conn env io)
    in audits effs = [] \<and> dials effs = [addr] \<and> origin_bytes effs = ''GET / HTTP/1.1'' @ CRLF @ ''Host: h'' @ CRLF"
proof -
  define io where "io = (smooth_io (''GET http://h/ HTTP/1.1'' @ CRLF @ CRLF @ []))\<lparr>io_head_writes := (\<lambda>k. k < 1)\<rparr>"
  have io: "io_set_timeouts io" "io_reader_dup io" "io_eof io" "io_origin_dup io" "io_head_writes io = (\<lambda>k. k < 1)"
    "io_input io = ''GET http://h/ HTTP/1.1'' @ CRLF @ CRLF @ []"
    by (simp_all add: smooth_io_def io_def)
  have dial: "dial env ''h'' 80 = ([Dial addr], Inr ())" using assms by (simp add: dial_def)
  have "handle_conn env io = handle_http env io ''h'' 80 (''GET / HTTP/1.1'' @ CRLF) (CRLF @ [])"
    by (rule handle_conn_http [OF io(1,2) _ parse_get assms(1)]) (unfold io(6), rule read_get)
  moreover have "handle_http env io ''h'' 80 (''GET / HTTP/1.1'' @ CRLF) (CRLF @ []) =
      ([Dial addr, RegisterOrigin, ToOrigin (''GET / HTTP/1.1'' @ CRLF), ToOrigin (''Host: h'' @ CRLF)], Inl (OsError 4))"
    unfolding handle_http_def io(3) read_no_headers dial by (simp add: io forwarded_head_def host_header_def)
  ultimately show ?thesis by (simp add: io_def)
qed

subsection \<open>The refusal evidence\<close>

fun first_occurrences :: "'a list \<Rightarrow> 'a list" where
  "first_occurrences [] = []"
| "first_occurrences (x # xs) = x # filter (\<lambda>y. y \<noteq> x) (first_occurrences xs)"

definition retained :: "string list \<Rightarrow> string list" where
  "retained hosts =
     take MAX_REFUSED_HOSTS (first_occurrences (filter (\<lambda>h. length h \<le> MAX_REFUSED_HOST_BYTES) hosts))"

lemma first_occurrences_snoc:
  "first_occurrences (xs @ [x]) = (if x \<in> set xs then first_occurrences xs else first_occurrences xs @ [x])"
  by (induction xs) auto

lemma set_first_occurrences [simp]: "set (first_occurrences xs) = set xs"
  by (induction xs) auto

lemma distinct_first_occurrences [simp]: "distinct (first_occurrences xs)"
  by (induction xs) auto

lemma retained_snoc:
  "retained (hosts @ [h]) =
     (if h \<in> set (retained hosts) \<or> length h > MAX_REFUSED_HOST_BYTES \<or> length (retained hosts) \<ge> MAX_REFUSED_HOSTS
      then retained hosts else retained hosts @ [h])"
proof -
  let ?f = "first_occurrences (filter (\<lambda>h. length h \<le> MAX_REFUSED_HOST_BYTES) hosts)"
  have snoc: "retained (hosts @ [h]) = (if h \<in> set hosts \<or> length h > MAX_REFUSED_HOST_BYTES then retained hosts
      else take MAX_REFUSED_HOSTS (?f @ [h]))"
    by (simp add: retained_def first_occurrences_snoc)
  show ?thesis
  proof (cases "length ?f < MAX_REFUSED_HOSTS")
    case True
    then have "retained hosts = ?f" by (simp add: retained_def)
    with True snoc show ?thesis by auto
  next
    case False
    then have "length (retained hosts) = MAX_REFUSED_HOSTS" "take MAX_REFUSED_HOSTS (?f @ [h]) = retained hosts"
      by (simp_all add: retained_def)
    with snoc show ?thesis by simp
  qed
qed

definition refusal_history :: "string list \<Rightarrow> Evidence" where
  "refusal_history hosts = foldl (\<lambda>e h. record_refused h e) evidence_default hosts"

lemma refusal_history_inv:
  "btree_wf (e_refused (refusal_history hosts)) \<and> set (e_refused (refusal_history hosts)) = set (retained hosts) \<and>
   length (e_refused (refusal_history hosts)) = length (retained hosts) \<and>
   e_omitted_refused (refusal_history hosts) = of_nat (length (filter (\<lambda>h. h \<notin> set (retained hosts)) hosts))"
proof (induction hosts rule: rev_induct)
  case Nil
  show ?case by (simp add: refusal_history_def evidence_default_def retained_def btree_wf_def)
next
  case (snoc h hosts)
  let ?e = "refusal_history hosts"
  have step: "refusal_history (hosts @ [h]) = record_refused h ?e" by (simp add: refusal_history_def)
  have keep: "filter (\<lambda>x. x \<noteq> h \<and> x \<notin> set (retained hosts)) hosts = filter (\<lambda>x. x \<notin> set (retained hosts)) hosts"
    if "\<not> (h \<in> set (retained hosts) \<or> length h > MAX_REFUSED_HOST_BYTES \<or> length (retained hosts) \<ge> MAX_REFUSED_HOSTS)"
  proof -
    have "h \<notin> set hosts"
    proof
      assume "h \<in> set hosts"
      with that have "h \<in> set (first_occurrences (filter (\<lambda>h. length h \<le> MAX_REFUSED_HOST_BYTES) hosts))" by simp
      moreover have "length (first_occurrences (filter (\<lambda>h. length h \<le> MAX_REFUSED_HOST_BYTES) hosts)) < MAX_REFUSED_HOSTS"
        using that by (simp add: retained_def)
      ultimately show False using that by (simp add: retained_def)
    qed
    then show ?thesis by (auto intro!: filter_cong)
  qed
  from snoc show ?case
    unfolding step retained_snoc by (auto simp: record_refused_def btree_insert_def keep btree_wf_def
        sorted_insort distinct_insort set_insort_key)
qed

lemma bounded_hosts_from_eq:
  "bounded_hosts_from out seq = Inr res \<longleftrightarrow>
     res = out @ seq \<and> (seq = [] \<or> length out + length seq \<le> MAX_REFUSED_HOSTS) \<and>
     list_all (\<lambda>h. length h \<le> MAX_REFUSED_HOST_BYTES) seq"
  by (induction out seq rule: bounded_hosts_from.induct) auto

text \<open>The refusal evidence is bounded and exact. After any sequence of refused hosts the evidence
  holds, sorted and without repetition, the first 64 different hosts of at most 255 bytes, and the
  number (modulo the 64-bit counter) of all attempts on other hosts. What a snapshot carries is always
  within the bounds its own deserializer enforces, which are exactly those.\<close>

theorem refusal_evidence_exact:
  "btree_wf (e_refused (refusal_history hosts)) \<and>
   set (e_refused (refusal_history hosts)) = set (retained hosts) \<and>
   e_omitted_refused (refusal_history hosts) = of_nat (length (filter (\<lambda>h. h \<notin> set (retained hosts)) hosts)) \<and>
   deserialize_bounded_hosts (pf_refused_hosts (snapshot (refusal_history hosts) cap high)) =
     Inr (e_refused (refusal_history hosts)) \<and>
   (deserialize_bounded_hosts seq = Inr seq) =
     (length seq \<le> MAX_REFUSED_HOSTS \<and> list_all (\<lambda>h. length h \<le> MAX_REFUSED_HOST_BYTES) seq)"
proof -
  have "length (retained hosts) \<le> MAX_REFUSED_HOSTS" by (simp add: retained_def)
  moreover have "\<forall>h\<in>set (retained hosts). length h \<le> MAX_REFUSED_HOST_BYTES"
    by (auto simp: retained_def dest: in_set_takeD)
  ultimately show ?thesis
    using refusal_history_inv [of hosts]
    by (auto simp: deserialize_bounded_hosts_def bounded_hosts_from_eq snapshot_def list_all_iff)
qed

subsection \<open>Private-host approvals\<close>

lemma canonical_private_hosts_eq:
  "canonical_private_hosts hosts =
     (if \<exists>p\<in>set hosts. canonical_private_host p = None
      then Inl (InvalidInput ''private-host grants require exact DNS names or IP addresses'')
      else Inr (the ` canonical_private_host ` set hosts))"
  by (induction hosts) (auto split: option.splits)

lemma private_approval_exact:
  assumes "with_private_hosts hosts privs = Inr policy"
  shows "allows_private policy host \<longleftrightarrow> host \<in> set hosts \<and>
    (\<exists>p\<in>set privs. canonical_private_host p = canonical_private_host host \<and> canonical_private_host host \<noteq> None)"
proof -
  have policy: "policy = (policy_new hosts)\<lparr>hp_private := the ` canonical_private_host ` set privs\<rparr>"
    and valid: "\<forall>p\<in>set privs. canonical_private_host p \<noteq> None"
    using assms by (auto simp: with_private_hosts_def canonical_private_hosts_eq split: if_splits)
  have "h \<in> the ` canonical_private_host ` set privs \<longleftrightarrow> (\<exists>p\<in>set privs. canonical_private_host p = Some h)" for h
    using valid by (force simp: image_iff)
  then show ?thesis
    by (auto simp: policy allows_private_def allows_def policy_new_def split: option.splits)
qed

subsection \<open>A connection, run\<close>

definition demo_env :: conn_env where
  "demo_env = \<lparr>ce_policy = policy_new [''h''], ce_resolve = (\<lambda>_ port. Inr (V4 0x5DB8D822, port)),
     ce_connect = (\<lambda>_. Inr ())\<rparr>"

definition demo_request :: string where
  "demo_request = ''GET http://h/ HTTP/1.1'' @ CRLF @ CRLF @ ''GET / HTTP/1.1'' @ CRLF @ ''Host: other'' @ CRLF @ CRLF"

lemma demo_allowed: "allows (ce_policy demo_env) ''h''" "ce_resolve demo_env ''h'' 80 = Inr (V4 0x5DB8D822, 80)"
  "guard_target (V4 0x5DB8D822, 80) ''h'' (ce_policy demo_env) = Inr (V4 0x5DB8D822, 80)"
  "ce_connect demo_env a = Inr ()"
  unfolding guard_target_ok fst_conv
  by (simp_all add: is_internal_ip_def v4_internal_ranges in_ranges_def proxy_internal_v4_def demo_env_def
      policy_new_def allows_def)

definition demo_rest :: string where
  "demo_rest = ''GET / HTTP/1.1'' @ CRLF @ ''Host: other'' @ CRLF @ CRLF"

lemma demo_line: "read_line_bounded eof demo_request = Inr (''GET http://h/ HTTP/1.1'' @ CRLF, CRLF @ demo_rest)"
  unfolding demo_request_def demo_rest_def by (rule read_get)

lemma demo_target: "request_target (smooth_io demo_request) = Some (Http ''h'' 80 (''GET / HTTP/1.1'' @ CRLF))"
  by (simp add: request_target_def smooth_io_def parse_get demo_line del: append.simps)

lemma demo_dial: "dial demo_env ''h'' 80 = ([Dial (V4 0x5DB8D822, 80)], Inr ())"
  using demo_allowed by (simp add: dial_def)

lemma demo_http:
  "handle_conn demo_env (smooth_io demo_request) =
     handle_http demo_env (smooth_io demo_request) ''h'' 80 (''GET / HTTP/1.1'' @ CRLF) (CRLF @ demo_rest)"
proof -
  have "io_set_timeouts (smooth_io demo_request)" "io_reader_dup (smooth_io demo_request)"
    "io_input (smooth_io demo_request) = demo_request" by (simp_all add: smooth_io_def)
  then show ?thesis using handle_conn_http [OF _ _ _ parse_get demo_allowed(1)] demo_line by presburger
qed

lemma demo_dials: "Dial (V4 0x5DB8D822, 80) \<in> set (fst (handle_conn demo_env (smooth_io demo_request)))"
  unfolding demo_http handle_http_def read_no_headers demo_dial by (auto simp: Let_def split: prod.splits)

lemma demo_sent: "origin_bytes (fst (handle_conn demo_env (smooth_io demo_request))) \<noteq> []"
  unfolding demo_http
  by (subst smooth_http [OF demo_dial read_no_headers])
    (simp_all add: demo_request_def demo_rest_def forwarded_head_def)

theorem dial_is_authorised_witness:
  "\<exists>t. request_target (smooth_io demo_request) = Some t \<and> allows (ce_policy demo_env) (target_host t) \<and>
     dials (fst (handle_conn demo_env (smooth_io demo_request))) = [(V4 0x5DB8D822, 80)]"
  using dial_is_authorised [OF surjective_pairing demo_dials] by blast

theorem forwarded_head_is_rewritten_witness:
  "\<exists>headers body. list_all (\<lambda>h. \<not> eq_ignore_ascii_case (take 5 h) ''host:'') headers \<and>
     prefix (origin_bytes (fst (handle_conn demo_env (smooth_io demo_request))))
       (''GET / HTTP/1.1'' @ CRLF @ host_header ''h'' 80 @ concat headers @ CRLF @ body)"
  using forwarded_head_is_rewritten [OF surjective_pairing demo_target demo_sent]
  by (metis append_assoc)

theorem pipelined_request_is_verbatim_witness:
  "origin_bytes (fst (handle_conn demo_env (smooth_io demo_request))) =
     ''GET / HTTP/1.1'' @ CRLF @ ''Host: h'' @ CRLF @ CRLF @ ''GET / HTTP/1.1'' @ CRLF @ ''Host: other'' @ CRLF @ CRLF"
  unfolding demo_request_def by (rule pipelined_request_is_verbatim [OF demo_allowed])

theorem audit_is_honest_witness:
  "length (audits (fst (handle_conn demo_env (smooth_io demo_request)))) \<le> 1"
  using audit_is_honest [OF surjective_pairing, of demo_env "smooth_io demo_request"] by blast

end
