(* ===== verification/Proxy_Lifecycle.thy ===== *)
theory Proxy_Lifecycle
  imports Egress_Proxy "HOL-Library.Multiset"
begin

text \<open>
  The threads of the egress proxy (\<^verbatim>\<open>agent-bridle-core/src/net_proxy.rs\<close>): the accept loop with its
  worker book and cap, the connection workers, and the teardown behind \<^verbatim>\<open>shutdown_and_join\<close> and
  \<^verbatim>\<open>Drop\<close>, as one step relation whose rules are the atomic actions of the threads (what is done under
  one lock, or one atomic access). What a worker does on its connection is the handler of
  \<^theory_text>\<open>Egress_Proxy\<close>; here it may record refusals while it runs, and then finishes or panics.
\<close>

subsection \<open>State\<close>

datatype Lifecycle = Running | ShuttingDown | Quiescent

datatype ConnOutcome = Completed | Aborted

text \<open>A worker with the \<^verbatim>\<open>aborted\<close> flag of its closer while it runs, and what joining it gives.\<close>

datatype worker = Active bool | Finished ConnOutcome | Crashed

datatype ProxyFinalizeError = SupervisorFailed string | Incomplete ProxyFinalEvidence

record WorkerBook =
  wb_next_id :: u64
  wb_active :: "(u64 \<times> worker) list"

record Shared =
  sh_lifecycle :: Lifecycle
  sh_workers :: WorkerBook
  sh_evidence :: Evidence
  sh_cap :: nat
  sh_high_water :: nat
  sh_inject_spawn_failures :: nat

definition shared_new :: "nat \<Rightarrow> Shared" where
  "shared_new cap = \<lparr>sh_lifecycle = Running, sh_workers = \<lparr>wb_next_id = 0, wb_active = []\<rparr>,
     sh_evidence = evidence_default, sh_cap = cap, sh_high_water = 0, sh_inject_spawn_failures = 0\<rparr>"

definition is_finished :: "worker \<Rightarrow> bool" where
  "is_finished w \<longleftrightarrow> (case w of Active _ \<Rightarrow> False | _ \<Rightarrow> True)"

definition close_all :: "worker \<Rightarrow> worker" where
  "close_all w = (case w of Active _ \<Rightarrow> Active True | _ \<Rightarrow> w)"

definition tally_join :: "worker \<Rightarrow> Evidence \<Rightarrow> Evidence" where
  "tally_join result ev =
     (case result of
        Finished Completed \<Rightarrow> ev\<lparr>e_completed := e_completed ev + 1\<rparr>
      | Finished Aborted \<Rightarrow> ev\<lparr>e_completed := e_completed ev + 1, e_shutdown_aborts := e_shutdown_aborts ev + 1\<rparr>
      | Crashed \<Rightarrow> ev\<lparr>e_worker_panics := e_worker_panics ev + 1\<rparr>
      | Active _ \<Rightarrow> ev)"

text \<open>The first half of \<^verbatim>\<open>reap_finished\<close>: the finished workers leave the book, in some order.\<close>

definition still_active :: "WorkerBook \<Rightarrow> WorkerBook" where
  "still_active book = book\<lparr>wb_active := filter (\<lambda>(id, w). \<not> is_finished w) (wb_active book)\<rparr>"

definition finished_workers :: "WorkerBook \<Rightarrow> worker list" where
  "finished_workers book = filter is_finished (map snd (wb_active book))"

text \<open>Registration of a spawned worker; a \<^verbatim>\<open>HashMap\<close> insertion replaces an entry under the same key.\<close>

definition book_insert :: "worker \<Rightarrow> WorkerBook \<Rightarrow> WorkerBook" where
  "book_insert w book =
     book\<lparr>wb_next_id := wb_next_id book + 1,
          wb_active := (wb_next_id book, w) # filter (\<lambda>(id, _). id \<noteq> wb_next_id book) (wb_active book)\<rparr>"

definition finalize :: "bool \<Rightarrow> ProxyFinalEvidence \<Rightarrow> ProxyFinalizeError + ProxyFinalEvidence" where
  "finalize supervisor_failed snap =
     (if supervisor_failed then Inl (SupervisorFailed ''accept supervisor thread panicked'')
      else if pf_worker_panics snap > 0 \<or> pf_worker_spawn_failures snap > 0 then Inl (Incomplete snap)
      else Inr snap)"

subsection \<open>Threads\<close>

datatype accept_pc =
    AcIdle                       \<comment> \<open>blocked in \<^verbatim>\<open>accept\<close>\<close>
  | AcPassed                     \<comment> \<open>a client, and the lifecycle was still running\<close>
  | AcReaping "worker list"      \<comment> \<open>joining what \<^verbatim>\<open>reap_finished\<close> took out of the book\<close>
  | AcSpawned worker             \<comment> \<open>a worker runs and is not registered yet\<close>
  | AcInserted nat               \<comment> \<open>registered, with the size of the book\<close>
  | AcCounting                   \<comment> \<open>the high-water mark is updated\<close>
  | AcExited
  | AcPanicked

datatype down_pc =
    DnIdle
  | DnSweep
  | DnJoinAccept
  | DnDraining "worker list"
  | DnDone "ProxyFinalizeError + ProxyFinalEvidence"

record proxy =
  px_shared :: Shared
  px_accept :: accept_pc
  px_down :: down_pc
  px_admissions :: nat           \<comment> \<open>how often a worker was registered\<close>

abbreviation px_evidence :: "proxy \<Rightarrow> Evidence" where "px_evidence p \<equiv> sh_evidence (px_shared p)"
abbreviation px_book :: "proxy \<Rightarrow> WorkerBook" where "px_book p \<equiv> sh_workers (px_shared p)"
abbreviation px_active :: "proxy \<Rightarrow> (u64 \<times> worker) list" where "px_active p \<equiv> wb_active (px_book p)"

definition proxy_init :: "nat \<Rightarrow> proxy" where
  "proxy_init cap = \<lparr>px_shared = shared_new cap, px_accept = AcIdle, px_down = DnIdle, px_admissions = 0\<rparr>"

definition set_evidence :: "(Evidence \<Rightarrow> Evidence) \<Rightarrow> proxy \<Rightarrow> proxy" where
  "set_evidence f p = p\<lparr>px_shared := (px_shared p)\<lparr>sh_evidence := f (px_evidence p)\<rparr>\<rparr>"

definition set_book :: "(WorkerBook \<Rightarrow> WorkerBook) \<Rightarrow> proxy \<Rightarrow> proxy" where
  "set_book f p = p\<lparr>px_shared := (px_shared p)\<lparr>sh_workers := f (px_book p)\<rparr>\<rparr>"

definition set_lifecycle :: "Lifecycle \<Rightarrow> proxy \<Rightarrow> proxy" where
  "set_lifecycle l p = p\<lparr>px_shared := (px_shared p)\<lparr>sh_lifecycle := l\<rparr>\<rparr>"

definition spawn_failed :: "Evidence \<Rightarrow> Evidence" where
  "spawn_failed ev = ev\<lparr>e_worker_spawn_failures := e_worker_spawn_failures ev + 1\<rparr>"

definition capacity_rejected :: "Evidence \<Rightarrow> Evidence" where
  "capacity_rejected ev = ev\<lparr>e_capacity_rejects := e_capacity_rejects ev + 1\<rparr>"

definition connection_accepted :: "Evidence \<Rightarrow> Evidence" where
  "connection_accepted ev = ev\<lparr>e_accepted := e_accepted ev + 1\<rparr>"

text \<open>A worker ends: on its own with the outcome its closer's flag gives, or by a panic.\<close>

inductive worker_ends :: "worker \<Rightarrow> worker \<Rightarrow> bool" where
  returns: "worker_ends (Active aborted) (Finished (if aborted then Aborted else Completed))"
| crashes: "worker_ends (Active aborted) Crashed"

inductive accept_step :: "proxy \<Rightarrow> proxy \<Rightarrow> bool" where
  incoming: "px_accept p = AcIdle \<Longrightarrow> sh_lifecycle (px_shared p) = Running \<Longrightarrow> accept_step p (p\<lparr>px_accept := AcPassed\<rparr>)"
| stop: "px_accept p = AcIdle \<Longrightarrow> sh_lifecycle (px_shared p) \<noteq> Running \<Longrightarrow> accept_step p (p\<lparr>px_accept := AcExited\<rparr>)"
| reap: "px_accept p = AcPassed \<Longrightarrow> mset taken = mset (finished_workers (px_book p)) \<Longrightarrow>
    accept_step p (set_book still_active (p\<lparr>px_accept := AcReaping taken\<rparr>))"
| tally: "px_accept p = AcReaping (w # ws) \<Longrightarrow>
    accept_step p (set_evidence (tally_join w) (p\<lparr>px_accept := AcReaping ws\<rparr>))"
| full: "px_accept p = AcReaping [] \<Longrightarrow> length (px_active p) \<ge> sh_cap (px_shared p) \<Longrightarrow>
    accept_step p (set_evidence capacity_rejected (p\<lparr>px_accept := AcIdle\<rparr>))"
| injected: "px_accept p = AcReaping [] \<Longrightarrow> length (px_active p) < sh_cap (px_shared p) \<Longrightarrow>
    sh_inject_spawn_failures (px_shared p) > 0 \<Longrightarrow>
    accept_step p (set_evidence spawn_failed (p\<lparr>px_accept := AcIdle, px_shared :=
      (px_shared p)\<lparr>sh_inject_spawn_failures := sh_inject_spawn_failures (px_shared p) - 1\<rparr>\<rparr>))"
| no_thread: "px_accept p = AcReaping [] \<Longrightarrow> length (px_active p) < sh_cap (px_shared p) \<Longrightarrow>
    sh_inject_spawn_failures (px_shared p) = 0 \<Longrightarrow>
    accept_step p (set_evidence spawn_failed (p\<lparr>px_accept := AcIdle\<rparr>))"
| spawn: "px_accept p = AcReaping [] \<Longrightarrow> length (px_active p) < sh_cap (px_shared p) \<Longrightarrow>
    sh_inject_spawn_failures (px_shared p) = 0 \<Longrightarrow>
    accept_step p (p\<lparr>px_accept := AcSpawned (Active False)\<rparr>)"
| register: "px_accept p = AcSpawned w \<Longrightarrow>
    accept_step p (set_book (book_insert w) (p\<lparr>px_accept := AcInserted (length (wb_active (book_insert w (px_book p)))),
      px_admissions := px_admissions p + 1\<rparr>))"
| high_water: "px_accept p = AcInserted n \<Longrightarrow>
    accept_step p (p\<lparr>px_accept := AcCounting, px_shared :=
      (px_shared p)\<lparr>sh_high_water := max (sh_high_water (px_shared p)) n\<rparr>\<rparr>)"
| count: "px_accept p = AcCounting \<Longrightarrow> accept_step p (set_evidence connection_accepted (p\<lparr>px_accept := AcIdle\<rparr>))"
| panic: "px_accept p = AcIdle \<or> px_accept p = AcPassed \<or> (\<exists>ws. px_accept p = AcReaping ws) \<Longrightarrow>
    accept_step p (p\<lparr>px_accept := AcPanicked\<rparr>)"

inductive worker_step :: "proxy \<Rightarrow> proxy \<Rightarrow> bool" where
  refuse: "(\<exists>wid aborted. (wid, Active aborted) \<in> set (px_active p)) \<or> (\<exists>aborted. px_accept p = AcSpawned (Active aborted)) \<or>
      (\<exists>ws aborted. px_down p = DnDraining ws \<and> Active aborted \<in> set ws) \<Longrightarrow>
    worker_step p (set_evidence (record_refused host) p)"
| registered: "px_active p = xs @ (wid, w) # ys \<Longrightarrow> worker_ends w w' \<Longrightarrow>
    worker_step p (set_book (\<lambda>book. book\<lparr>wb_active := xs @ (wid, w') # ys\<rparr>) p)"
| unregistered: "px_accept p = AcSpawned w \<Longrightarrow> worker_ends w w' \<Longrightarrow> worker_step p (p\<lparr>px_accept := AcSpawned w'\<rparr>)"
| draining: "px_down p = DnDraining (xs @ w # ys) \<Longrightarrow> worker_ends w w' \<Longrightarrow>
    worker_step p (p\<lparr>px_down := DnDraining (xs @ w' # ys)\<rparr>)"

inductive teardown_step :: "proxy \<Rightarrow> proxy \<Rightarrow> bool" where
  begin_shutdown: "px_down p = DnIdle \<Longrightarrow>
    teardown_step p (set_lifecycle (if sh_lifecycle (px_shared p) = Running then ShuttingDown else sh_lifecycle (px_shared p))
      (p\<lparr>px_down := DnSweep\<rparr>))"
| sweep: "px_down p = DnSweep \<Longrightarrow>
    teardown_step p (set_book (\<lambda>book. book\<lparr>wb_active := map (\<lambda>(id, w). (id, close_all w)) (wb_active book)\<rparr>)
      (p\<lparr>px_down := DnJoinAccept\<rparr>))"
| join_accept: "px_down p = DnJoinAccept \<Longrightarrow> px_accept p = AcExited \<or> px_accept p = AcPanicked \<Longrightarrow>
    mset ws = mset (map snd (px_active p)) \<Longrightarrow>
    teardown_step p (set_book (\<lambda>book. book\<lparr>wb_active := []\<rparr>) (p\<lparr>px_down := DnDraining ws\<rparr>))"
| close: "px_down p = DnDraining (Active aborted # ws) \<Longrightarrow>
    teardown_step p (p\<lparr>px_down := DnDraining (close_all (Active aborted) # ws)\<rparr>)"
| join_worker: "px_down p = DnDraining (w # ws) \<Longrightarrow> is_finished w \<Longrightarrow>
    teardown_step p (set_evidence (tally_join w) (p\<lparr>px_down := DnDraining ws\<rparr>))"
| freeze: "px_down p = DnDraining [] \<Longrightarrow>
    teardown_step p (set_lifecycle Quiescent (p\<lparr>px_down := DnDone (finalize (px_accept p = AcPanicked)
      (snapshot (px_evidence p) (sh_cap (px_shared p)) (sh_high_water (px_shared p))))\<rparr>))"

definition proxy_step :: "proxy \<Rightarrow> proxy \<Rightarrow> bool" where
  "proxy_step p p' \<longleftrightarrow> accept_step p p' \<or> worker_step p p' \<or> teardown_step p p'"

inductive proxy_reach :: "nat \<Rightarrow> proxy \<Rightarrow> bool" for cap :: nat where
  init: "proxy_reach cap (proxy_init cap)"
| step: "proxy_reach cap p \<Longrightarrow> proxy_step p p' \<Longrightarrow> proxy_reach cap p'"

inductive_cases worker_endsE: "worker_ends w w'"

subsection \<open>The proxy's invariant\<close>

lemma proxy_frame [simp]:
  "px_accept (set_evidence f p) = px_accept p" "px_down (set_evidence f p) = px_down p"
  "px_admissions (set_evidence f p) = px_admissions p" "px_book (set_evidence f p) = px_book p"
  "px_evidence (set_evidence f p) = f (px_evidence p)" "sh_lifecycle (px_shared (set_evidence f p)) = sh_lifecycle (px_shared p)"
  "sh_cap (px_shared (set_evidence f p)) = sh_cap (px_shared p)"
  "sh_high_water (px_shared (set_evidence f p)) = sh_high_water (px_shared p)"
  "px_accept (set_book g p) = px_accept p" "px_down (set_book g p) = px_down p"
  "px_admissions (set_book g p) = px_admissions p" "px_book (set_book g p) = g (px_book p)"
  "px_evidence (set_book g p) = px_evidence p" "sh_lifecycle (px_shared (set_book g p)) = sh_lifecycle (px_shared p)"
  "sh_cap (px_shared (set_book g p)) = sh_cap (px_shared p)"
  "sh_high_water (px_shared (set_book g p)) = sh_high_water (px_shared p)"
  "px_accept (set_lifecycle l p) = px_accept p" "px_down (set_lifecycle l p) = px_down p"
  "px_admissions (set_lifecycle l p) = px_admissions p" "px_book (set_lifecycle l p) = px_book p"
  "px_evidence (set_lifecycle l p) = px_evidence p" "sh_lifecycle (px_shared (set_lifecycle l p)) = l"
  "sh_cap (px_shared (set_lifecycle l p)) = sh_cap (px_shared p)"
  "sh_high_water (px_shared (set_lifecycle l p)) = sh_high_water (px_shared p)"
  by (simp_all add: set_evidence_def set_book_def set_lifecycle_def)

lemma tally_counts [simp]:
  "is_finished w \<Longrightarrow> e_completed (tally_join w ev) + e_worker_panics (tally_join w ev) = e_completed ev + e_worker_panics ev + 1"
  "e_accepted (tally_join w ev) = e_accepted ev"
  by (cases w; auto simp: tally_join_def is_finished_def split: ConnOutcome.splits)+

lemma evidence_frame [simp]:
  "e_accepted (record_refused h ev) = e_accepted ev" "e_completed (record_refused h ev) = e_completed ev"
  "e_worker_panics (record_refused h ev) = e_worker_panics ev"
  "e_accepted (spawn_failed ev) = e_accepted ev" "e_completed (spawn_failed ev) = e_completed ev"
  "e_worker_panics (spawn_failed ev) = e_worker_panics ev"
  "e_accepted (capacity_rejected ev) = e_accepted ev" "e_completed (capacity_rejected ev) = e_completed ev"
  "e_worker_panics (capacity_rejected ev) = e_worker_panics ev"
  "e_accepted (connection_accepted ev) = e_accepted ev + 1" "e_completed (connection_accepted ev) = e_completed ev"
  "e_worker_panics (connection_accepted ev) = e_worker_panics ev"
  by (simp_all add: record_refused_def spawn_failed_def capacity_rejected_def connection_accepted_def)

fun ac_uncounted :: "accept_pc \<Rightarrow> nat" where
  "ac_uncounted (AcInserted n) = 1"
| "ac_uncounted AcCounting = 1"
| "ac_uncounted _ = 0"

fun ac_reaped :: "accept_pc \<Rightarrow> worker list" where
  "ac_reaped (AcReaping ws) = ws"
| "ac_reaped _ = []"

fun ac_unregistered :: "accept_pc \<Rightarrow> nat" where
  "ac_unregistered (AcSpawned w) = 1"
| "ac_unregistered _ = 0"

fun dn_draining :: "down_pc \<Rightarrow> worker list" where
  "dn_draining (DnDraining ws) = ws"
| "dn_draining _ = []"

fun dn_drained :: "down_pc \<Rightarrow> bool" where
  "dn_drained (DnDraining ws) = True"
| "dn_drained (DnDone r) = True"
| "dn_drained _ = False"

fun dn_lifecycle :: "down_pc \<Rightarrow> Lifecycle" where
  "dn_lifecycle DnIdle = Running"
| "dn_lifecycle (DnDone r) = Quiescent"
| "dn_lifecycle _ = ShuttingDown"

text \<open>The worker cap: the workers in the book, the one not yet registered and the ones being drained, and
  the high-water mark, stay below it.\<close>

definition bounded_book :: "nat \<Rightarrow> proxy \<Rightarrow> bool" where
  "bounded_book cap p \<longleftrightarrow> sh_cap (px_shared p) = cap \<and>
     length (px_active p) + ac_unregistered (px_accept p) + length (dn_draining (px_down p)) \<le> cap \<and> sh_high_water (px_shared p) \<le> cap \<and>
     (\<forall>n. px_accept p = AcInserted n \<longrightarrow> n \<le> cap)"

text \<open>The phases: the lifecycle follows the teardown, and the drain starts when the accept loop is gone.\<close>

definition phased :: "proxy \<Rightarrow> bool" where
  "phased p \<longleftrightarrow> sh_lifecycle (px_shared p) = dn_lifecycle (px_down p) \<and>
     (px_accept p = AcExited \<longrightarrow> px_down p \<noteq> DnIdle) \<and>
     (dn_drained (px_down p) \<longrightarrow> px_active p = [] \<and> (px_accept p = AcExited \<or> px_accept p = AcPanicked)) \<and>
     (\<forall>r. px_down p = DnDone r \<longrightarrow> r = finalize (px_accept p = AcPanicked)
        (snapshot (px_evidence p) (sh_cap (px_shared p)) (sh_high_water (px_shared p))))"

text \<open>The account: registered workers have keys of their own, and every one is in the book, being joined,
  or in the totals. A panicked accept loop may have lost what it was joining.\<close>

definition accounted :: "proxy \<Rightarrow> bool" where
  "accounted p \<longleftrightarrow>
     wb_next_id (px_book p) = of_nat (px_admissions p) \<and>
     set (map fst (px_active p)) \<subseteq> of_nat ` {..<px_admissions p} \<and>
     list_all is_finished (ac_reaped (px_accept p)) \<and>
     (px_accept p \<noteq> AcPanicked \<longrightarrow>
       e_accepted (px_evidence p) + of_nat (ac_uncounted (px_accept p)) =
       e_completed (px_evidence p) + e_worker_panics (px_evidence p) +
       of_nat (length (px_active p) + length (ac_reaped (px_accept p)) + length (dn_draining (px_down p))))"

lemma book_lengths:
  "length (wb_active (book_insert w book)) \<le> Suc (length (wb_active book))"
  "length (wb_active (still_active book)) \<le> length (wb_active book)"
  using length_filter_le by (auto simp: book_insert_def still_active_def)

lemma undrained: "phased p \<Longrightarrow> px_accept p \<noteq> AcExited \<Longrightarrow> px_accept p \<noteq> AcPanicked \<Longrightarrow> dn_draining (px_down p) = []"
  by (cases "px_down p") (auto simp: phased_def)

lemma bounded_book_step:
  assumes "bounded_book cap p" "proxy_step p p'" "phased p"
  shows "bounded_book cap p'"
  using assms(2) unfolding proxy_step_def
proof (elim disjE)
  assume "accept_step p p'"
  then show ?thesis
    using assms(1) undrained [OF assms(3)]
    by cases (auto simp: bounded_book_def intro: order_trans [OF book_lengths(1)] order_trans [OF book_lengths(2)])
next
  assume "worker_step p p'"
  then show ?thesis using assms(1) by cases (auto simp: bounded_book_def)
next
  assume "teardown_step p p'"
  then show ?thesis
  proof cases
    case (join_accept ws)
    have "length ws = length (px_active p)" using mset_eq_length [OF join_accept(4)] by simp
    with assms(1) join_accept show ?thesis by (auto simp: bounded_book_def)
  qed (use assms(1) in \<open>auto simp: bounded_book_def\<close>)
qed

lemma phased_step:
  assumes "phased p" "proxy_step p p'"
  shows "phased p'"
  using assms(2) unfolding proxy_step_def
proof (elim disjE)
  assume "accept_step p p'"
  then show ?thesis using assms(1) by cases (cases "px_down p"; auto simp: phased_def)+
next
  assume "worker_step p p'"
  then show ?thesis using assms(1) by cases (auto simp: phased_def)
next
  assume "teardown_step p p'"
  then show ?thesis using assms(1) by cases (auto simp: phased_def)
qed

lemma admissions_step: "proxy_step p p' \<Longrightarrow> px_admissions p \<le> px_admissions p'"
  by (auto simp: proxy_step_def elim!: accept_step.cases worker_step.cases teardown_step.cases)

lemma fresh_key:
  assumes "set (map fst xs) \<subseteq> of_nat ` {..<n}" "n < 2 ^ 64"
  shows "filter (\<lambda>(i, _). i \<noteq> (of_nat n :: u64)) xs = xs"
proof -
  have "(of_nat n :: u64) \<notin> of_nat ` {..<n}"
  proof
    assume "(of_nat n :: u64) \<in> of_nat ` {..<n}"
    then obtain k where "k < n" "(of_nat n :: u64) = of_nat k" by blast
    moreover have "unat (of_nat j :: u64) = j" if "j \<le> n" for j
      using that assms(2) by (simp add: unsigned_of_nat take_bit_nat_eq_self)
    ultimately have "n = k" by (metis less_imp_le order_refl)
    with \<open>k < n\<close> show False by simp
  qed
  with assms(1) show ?thesis by (intro filter_True) auto
qed

lemma reap_partition: "length (finished_workers book) + length (wb_active (still_active book)) = length (wb_active book)"
proof -
  have "length (filter is_finished (map snd xs)) + length (filter (\<lambda>(i, w). \<not> is_finished w) xs) = length xs"
    for xs :: "(u64 \<times> worker) list" by (induction xs) auto
  then show ?thesis by (simp add: finished_workers_def still_active_def)
qed

lemma accounted_accept:
  assumes "accounted p" "accept_step p p'" "px_admissions p' \<le> 2 ^ 64" "phased p"
  shows "accounted p'"
  using assms(2)
proof cases
  case (reap ws)
  have "length ws = length (finished_workers (px_book p))" using reap(3) by (rule mset_eq_length)
  then have "length (wb_active (still_active (px_book p))) + length ws = length (px_active p)"
    using reap_partition [of "px_book p"] by simp
  moreover have "list_all is_finished ws"
    using mset_eq_setD [OF reap(3)] by (auto simp: list_all_iff finished_workers_def)
  moreover have "wb_next_id (still_active (px_book p)) = wb_next_id (px_book p)"
    "set (map fst (wb_active (still_active (px_book p)))) \<subseteq> set (map fst (px_active p))"
    by (auto simp: still_active_def)
  ultimately show ?thesis using assms(1) reap(1,2) by (auto simp: accounted_def)
next
  case (tally w ws)
  then show ?thesis using assms(1) by (auto simp: accounted_def algebra_simps)
next
  case (register w)
  have "px_admissions p < 2 ^ 64" using assms(3) register(1) by simp
  with assms(1) have "wb_active (book_insert w (px_book p)) = (wb_next_id (px_book p), w) # px_active p"
    by (simp add: book_insert_def accounted_def fresh_key)
  with assms(1) register show ?thesis
    by (auto simp: accounted_def book_insert_def lessThan_Suc algebra_simps)
qed (use assms(1,4) in \<open>auto simp: accounted_def phased_def\<close>)

lemma accounted_step:
  assumes "accounted p" "proxy_step p p'" "px_admissions p' \<le> 2 ^ 64" "phased p"
  shows "accounted p'"
  using assms(2) unfolding proxy_step_def
proof (elim disjE)
  assume "accept_step p p'"
  then show ?thesis using accounted_accept assms by blast
next
  assume "worker_step p p'"
  then show ?thesis using assms(1) by cases (auto simp: accounted_def)
next
  assume "teardown_step p p'"
  then show ?thesis
  proof cases
    case (join_accept ws)
    have "length ws = length (px_active p)" using mset_eq_length [OF join_accept(4)] by simp
    with assms(1) join_accept show ?thesis by (auto simp: accounted_def)
  next
    case (join_worker w ws)
    then show ?thesis using assms(1) by (auto simp: accounted_def algebra_simps)
  qed (use assms(1) in \<open>auto simp: accounted_def case_prod_beta comp_def\<close>)
qed

lemma proxy_inv:
  "proxy_reach cap p \<Longrightarrow> bounded_book cap p \<and> phased p \<and> (px_admissions p \<le> 2 ^ 64 \<longrightarrow> accounted p)"
proof (induction rule: proxy_reach.induct)
  case init
  show ?case
    by (simp add: proxy_init_def shared_new_def bounded_book_def phased_def accounted_def evidence_default_def)
next
  case (step p p')
  then show ?case
    using bounded_book_step phased_step accounted_step admissions_step [OF step(2)] order_trans by blast
qed

subsection \<open>Shutdown\<close>

text \<open>C23. Terminal evidence is complete and frozen. When \<^verbatim>\<open>shutdown_and_join\<close> answers \<^verbatim>\<open>Ok\<close>, whatever
  the interleaving of clients, workers and shutdown, every accepted connection is in the completed total,
  there was no panic and no failed spawn, the high-water mark is within the cap, the accept loop is gone,
  no worker is left, the evidence is the accumulated one, and no thread can take another step.\<close>

theorem final_evidence_is_complete:
  assumes "proxy_reach cap p" and "px_down p = DnDone (Inr ev)" and "px_admissions p \<le> 2 ^ 64"
  shows "ev = snapshot (px_evidence p) cap (sh_high_water (px_shared p)) \<and> pf_accepted ev = pf_completed ev \<and>
    pf_worker_panics ev = 0 \<and> pf_worker_spawn_failures ev = 0 \<and> pf_high_water_workers ev \<le> pf_worker_cap ev \<and>
    px_active p = [] \<and> px_accept p = AcExited \<and> \<not> (\<exists>p'. proxy_step p p')"
proof -
  have b: "bounded_book cap p" and ph: "phased p" and ac: "accounted p"
    using proxy_inv [OF assms(1)] assms(3) by blast+
  let ?snap = "snapshot (px_evidence p) (sh_cap (px_shared p)) (sh_high_water (px_shared p))"
  have fin: "finalize (px_accept p = AcPanicked) ?snap = Inr ev"
    using ph assms(2) by (simp add: phased_def)
  then have exited: "px_accept p = AcExited" and ev: "ev = ?snap" and clean: "pf_worker_panics ?snap = 0"
      "pf_worker_spawn_failures ?snap = 0"
    using ph assms(2) by (auto simp: phased_def finalize_def word_greater_zero_iff split: if_splits)
  have empty: "px_active p = []" using ph assms(2) by (simp add: phased_def)
  have "pf_accepted ev = pf_completed ev"
    using ac exited empty assms(2) clean ev by (simp add: accounted_def snapshot_def)
  moreover have "\<not> proxy_step p p'" for p'
    using exited empty assms(2)
    by (auto simp: proxy_step_def elim!: accept_step.cases worker_step.cases teardown_step.cases)
  ultimately show ?thesis
    using b exited empty ev clean by (simp add: bounded_book_def snapshot_def)
qed

text \<open>The worker cap holds at every moment: the workers in the book, the one spawned and not yet
  registered, and the ones being drained are together at most the cap, and so is the high-water mark,
  whatever the clients do.\<close>

theorem workers_never_exceed_cap:
  assumes "proxy_reach cap p"
  shows "length (px_active p) + ac_unregistered (px_accept p) + length (dn_draining (px_down p)) \<le> cap \<and>
    sh_high_water (px_shared p) \<le> cap"
  using proxy_inv [OF assms] by (simp add: bounded_book_def)

fun accept_rank :: "accept_pc \<Rightarrow> nat \<Rightarrow> nat" where
  "accept_rank AcExited n = 0"
| "accept_rank AcPanicked n = 0"
| "accept_rank AcIdle n = 1"
| "accept_rank AcCounting n = 2"
| "accept_rank (AcInserted _) n = 3"
| "accept_rank (AcSpawned _) n = 4"
| "accept_rank (AcReaping ws) n = 5 + length ws"
| "accept_rank AcPassed n = 6 + n"

definition accept_left :: "proxy \<Rightarrow> nat" where
  "accept_left p = accept_rank (px_accept p) (length (px_active p))"

lemma accept_progress:
  assumes "sh_lifecycle (px_shared p) \<noteq> Running" "accept_left p \<noteq> 0"
  shows "\<exists>p'. accept_step p p' \<and> accept_left p' < accept_left p \<and> px_down p' = px_down p \<and>
    sh_lifecycle (px_shared p') = sh_lifecycle (px_shared p)"
proof (cases "px_accept p")
  case AcIdle
  then show ?thesis using accept_step.stop [OF AcIdle assms(1)] by (force simp: accept_left_def)
next
  case AcPassed
  have "length (finished_workers (px_book p)) \<le> length (px_active p)"
    using reap_partition [of "px_book p"] by linarith
  then show ?thesis using accept_step.reap [OF AcPassed refl] AcPassed by (force simp: accept_left_def)
next
  case (AcReaping ws)
  show ?thesis
  proof (cases ws)
    case (Cons w rest)
    then show ?thesis
      using accept_step.tally [of p w rest] AcReaping by (force simp: accept_left_def)
  next
    case Nil
    show ?thesis
    proof (cases "length (px_active p) \<ge> sh_cap (px_shared p)")
      case True
      then show ?thesis using accept_step.full [of p] AcReaping Nil by (force simp: accept_left_def)
    next
      case room: False
      show ?thesis
      proof (cases "sh_inject_spawn_failures (px_shared p) = 0")
        case True
        then show ?thesis using accept_step.spawn [of p] room AcReaping Nil by (force simp: accept_left_def)
      next
        case False
        then show ?thesis using accept_step.injected [of p] room AcReaping Nil by (force simp: accept_left_def)
      qed
    qed
  qed
next
  case (AcSpawned w)
  then show ?thesis using accept_step.register [OF AcSpawned] by (force simp: accept_left_def)
next
  case (AcInserted n)
  then show ?thesis using accept_step.high_water [OF AcInserted] by (force simp: accept_left_def)
next
  case AcCounting
  then show ?thesis using accept_step.count [OF AcCounting] by (force simp: accept_left_def)
qed (use assms in \<open>simp_all add: accept_left_def\<close>)

lemma accept_exits:
  "sh_lifecycle (px_shared p) \<noteq> Running \<Longrightarrow>
     \<exists>p'. proxy_step\<^sup>*\<^sup>* p p' \<and> (px_accept p' = AcExited \<or> px_accept p' = AcPanicked) \<and> px_down p' = px_down p"
proof (induction "accept_left p" arbitrary: p rule: less_induct)
  case less
  show ?case
  proof (cases "accept_left p = 0")
    case True
    then have "px_accept p = AcExited \<or> px_accept p = AcPanicked"
      by (cases "px_accept p") (simp_all add: accept_left_def)
    then show ?thesis by blast
  next
    case False
    then obtain p' where p': "accept_step p p'" "accept_left p' < accept_left p" "px_down p' = px_down p"
        "sh_lifecycle (px_shared p') = sh_lifecycle (px_shared p)"
      using accept_progress less.prems by blast
    with less.hyps [of p'] less.prems obtain q where "proxy_step\<^sup>*\<^sup>* p' q" "px_down q = px_down p"
        "px_accept q = AcExited \<or> px_accept q = AcPanicked" by metis
    moreover have "proxy_step p p'" using p'(1) by (simp add: proxy_step_def)
    ultimately show ?thesis by (meson converse_rtranclp_into_rtranclp)
  qed
qed

lemma drains:
  "px_down p = DnDraining ws \<Longrightarrow> \<exists>p'. proxy_step\<^sup>*\<^sup>* p p' \<and> px_down p' = DnDraining []"
proof (induction ws arbitrary: p)
  case (Cons w ws)
  have join: "\<exists>q. proxy_step\<^sup>*\<^sup>* p' q \<and> px_down q = DnDraining []" if "px_down p' = DnDraining (v # ws)" "is_finished v" for p' v
  proof -
    have "proxy_step p' (set_evidence (tally_join v) (p'\<lparr>px_down := DnDraining ws\<rparr>))" (is "proxy_step p' ?r")
      using teardown_step.join_worker [OF that] by (simp add: proxy_step_def)
    moreover have "px_down ?r = DnDraining ws" by simp
    ultimately show ?thesis using Cons.IH by (meson converse_rtranclp_into_rtranclp)
  qed
  show ?case
  proof (cases "is_finished w")
    case True
    with Cons.prems join show ?thesis by blast
  next
    case False
    then obtain a where w: "w = Active a" by (cases w) (simp_all add: is_finished_def)
    have "proxy_step p (p\<lparr>px_down := DnDraining ([] @ Crashed # ws)\<rparr>)"
      using worker_step.draining [of p "[]" w ws Crashed] Cons.prems w worker_ends.crashes by (simp add: proxy_step_def)
    moreover have "is_finished Crashed" by (simp add: is_finished_def)
    ultimately show ?thesis
      using join [of "p\<lparr>px_down := DnDraining ([] @ Crashed # ws)\<rparr>" Crashed] by (auto intro: converse_rtranclp_into_rtranclp)
  qed
qed blast

lemma joins:
  assumes "px_down p = DnJoinAccept" "sh_lifecycle (px_shared p) \<noteq> Running"
  shows "\<exists>p'. proxy_step\<^sup>*\<^sup>* p p' \<and> (\<exists>ws. px_down p' = DnDraining ws)"
proof -
  obtain q where q: "proxy_step\<^sup>*\<^sup>* p q" "px_accept q = AcExited \<or> px_accept q = AcPanicked" "px_down q = DnJoinAccept"
    using accept_exits [OF assms(2)] assms(1) by metis
  have "proxy_step q (set_book (\<lambda>book. book\<lparr>wb_active := []\<rparr>) (q\<lparr>px_down := DnDraining (map snd (px_active q))\<rparr>))"
    (is "proxy_step q ?r") using teardown_step.join_accept [OF q(3,2) refl] by (simp add: proxy_step_def)
  moreover have "px_down ?r = DnDraining (map snd (px_active q))" by simp
  ultimately show ?thesis using q(1) by (meson rtranclp.rtrancl_into_rtrancl)
qed

text \<open>Shutdown is never wedged. From every reachable state in which shutdown has begun, whatever the
  accept loop is doing and whatever workers are alive, the threads can bring it to its answer: the accept
  loop comes out of any point of its body without a further client, and the drain ends once each worker
  it waits for has ended.\<close>

theorem shutdown_can_complete:
  assumes "proxy_reach cap p" and "px_down p \<noteq> DnIdle"
  shows "\<exists>p' r. proxy_step\<^sup>*\<^sup>* p p' \<and> px_down p' = DnDone r"
proof -
  have finish: "\<exists>p' r. proxy_step\<^sup>*\<^sup>* p p' \<and> px_down p' = DnDone r" if at: "px_down q = DnDraining ws" "proxy_step\<^sup>*\<^sup>* p q" for q ws
  proof -
    obtain s where s: "proxy_step\<^sup>*\<^sup>* q s" "px_down s = DnDraining []" using drains [OF at(1)] by blast
    let ?r = "finalize (px_accept s = AcPanicked) (snapshot (px_evidence s) (sh_cap (px_shared s)) (sh_high_water (px_shared s)))"
    have "proxy_step s (set_lifecycle Quiescent (s\<lparr>px_down := DnDone ?r\<rparr>))"
      using teardown_step.freeze [OF s(2)] by (simp add: proxy_step_def)
    moreover have "px_down (set_lifecycle Quiescent (s\<lparr>px_down := DnDone ?r\<rparr>)) = DnDone ?r" by simp
    ultimately obtain t r where "proxy_step s t" "px_down t = DnDone r" by blast
    with at(2) s(1) show ?thesis by (meson rtranclp.rtrancl_into_rtrancl rtranclp_trans)
  qed
  have life: "sh_lifecycle (px_shared p) = dn_lifecycle (px_down p)"
    using proxy_inv [OF assms(1)] by (simp add: phased_def)
  show ?thesis
  proof (cases "px_down p")
    case DnSweep
    define q where "q = set_book (\<lambda>book. book\<lparr>wb_active := map (\<lambda>(id, w). (id, close_all w)) (wb_active book)\<rparr>) (p\<lparr>px_down := DnJoinAccept\<rparr>)"
    have "proxy_step p q" using teardown_step.sweep [OF DnSweep] by (simp add: proxy_step_def q_def)
    moreover have "px_down q = DnJoinAccept" "sh_lifecycle (px_shared q) \<noteq> Running" using life DnSweep by (simp_all add: q_def)
    then obtain s ws where s: "proxy_step\<^sup>*\<^sup>* q s" "px_down s = DnDraining ws" using joins by blast
    ultimately have "proxy_step\<^sup>*\<^sup>* p s" by (simp add: converse_rtranclp_into_rtranclp)
    with s(2) show ?thesis by (rule finish)
  next
    case DnJoinAccept
    with life have "sh_lifecycle (px_shared p) \<noteq> Running" by simp
    then obtain s ws where "proxy_step\<^sup>*\<^sup>* p s" "px_down s = DnDraining ws" using joins [OF DnJoinAccept] by blast
    then show ?thesis using finish by blast
  next
    case (DnDraining ws)
    then show ?thesis by (rule finish) simp
  qed (use assms(2) in blast)+
qed

subsection \<open>A run\<close>

text \<open>One client under a cap of one: registered, finished on its own, joined by the drain.\<close>

definition served :: proxy where
  "served = \<lparr>px_shared = \<lparr>sh_lifecycle = ShuttingDown, sh_workers = \<lparr>wb_next_id = 1, wb_active = []\<rparr>,
       sh_evidence = evidence_default\<lparr>e_accepted := 1\<rparr>, sh_cap = 1, sh_high_water = 1, sh_inject_spawn_failures = 0\<rparr>,
     px_accept = AcExited, px_down = DnDraining [Finished Completed], px_admissions = 1\<rparr>"

lemmas frame_defs = set_evidence_def set_book_def set_lifecycle_def

lemma accept_run: "proxy_reach cap p \<Longrightarrow> accept_step p p' \<Longrightarrow> p' = q \<Longrightarrow> proxy_reach cap q"
  using proxy_reach.step proxy_step_def by blast

lemma worker_run: "proxy_reach cap p \<Longrightarrow> worker_step p p' \<Longrightarrow> p' = q \<Longrightarrow> proxy_reach cap q"
  using proxy_reach.step proxy_step_def by blast

lemma teardown_run: "proxy_reach cap p \<Longrightarrow> teardown_step p p' \<Longrightarrow> p' = q \<Longrightarrow> proxy_reach cap q"
  using proxy_reach.step proxy_step_def by blast

lemma served_reach: "proxy_reach 1 served"
proof -
  let ?sh = "\<lambda>l i ws n h. \<lparr>sh_lifecycle = l, sh_workers = \<lparr>wb_next_id = i, wb_active = ws\<rparr>,
     sh_evidence = evidence_default\<lparr>e_accepted := n\<rparr>, sh_cap = 1, sh_high_water = h, sh_inject_spawn_failures = 0\<rparr>"
  let ?p = "\<lambda>l i ws n h a d m. \<lparr>px_shared = ?sh l i ws n h, px_accept = a, px_down = d, px_admissions = m\<rparr>"
  have "proxy_reach 1 (?p Running 0 [] 0 0 AcIdle DnIdle 0)"
    using proxy_reach.init [of 1] by (simp add: proxy_init_def shared_new_def evidence_default_def)
  then have "proxy_reach 1 (?p Running 0 [] 0 0 AcPassed DnIdle 0)"
    by (rule accept_run [OF _ accept_step.incoming]) simp_all
  then have "proxy_reach 1 (?p Running 0 [] 0 0 (AcReaping []) DnIdle 0)"
    by (rule accept_run [OF _ accept_step.reap [where taken = "[]"]])
      (simp_all add: frame_defs finished_workers_def still_active_def)
  then have "proxy_reach 1 (?p Running 0 [] 0 0 (AcSpawned (Active False)) DnIdle 0)"
    by (rule accept_run [OF _ accept_step.spawn]) simp_all
  then have "proxy_reach 1 (?p Running 1 [(0, Active False)] 0 0 (AcInserted 1) DnIdle 1)"
    by (rule accept_run [OF _ accept_step.register]) (simp_all add: frame_defs book_insert_def)
  then have "proxy_reach 1 (?p Running 1 [(0, Active False)] 0 1 AcCounting DnIdle 1)"
    by (rule accept_run [OF _ accept_step.high_water]) simp_all
  then have "proxy_reach 1 (?p Running 1 [(0, Active False)] 1 1 AcIdle DnIdle 1)"
    by (rule accept_run [OF _ accept_step.count]) (simp_all add: frame_defs connection_accepted_def)
  then have "proxy_reach 1 (?p Running 1 [(0, Finished Completed)] 1 1 AcIdle DnIdle 1)"
    by (rule worker_run [OF _ worker_step.registered [where xs = "[]" and ys = "[]" and w = "Active False"]])
      (use worker_ends.returns [of False] in \<open>simp_all add: frame_defs\<close>)
  then have "proxy_reach 1 (?p ShuttingDown 1 [(0, Finished Completed)] 1 1 AcIdle DnSweep 1)"
    by (rule teardown_run [OF _ teardown_step.begin_shutdown]) (simp_all add: frame_defs)
  then have "proxy_reach 1 (?p ShuttingDown 1 [(0, Finished Completed)] 1 1 AcExited DnSweep 1)"
    by (rule accept_run [OF _ accept_step.stop]) simp_all
  then have "proxy_reach 1 (?p ShuttingDown 1 [(0, Finished Completed)] 1 1 AcExited DnJoinAccept 1)"
    by (rule teardown_run [OF _ teardown_step.sweep]) (simp_all add: frame_defs close_all_def)
  then have "proxy_reach 1 (?p ShuttingDown 1 [] 1 1 AcExited (DnDraining [Finished Completed]) 1)"
    by (rule teardown_run [OF _ teardown_step.join_accept [where ws = "[Finished Completed]"]]) (simp_all add: frame_defs)
  then show ?thesis by (simp add: served_def)
qed

definition served_evidence :: ProxyFinalEvidence where
  "served_evidence = snapshot (evidence_default\<lparr>e_accepted := 1, e_completed := 1\<rparr>) 1 1"

lemma served_done:
  "proxy_reach 1 (served\<lparr>px_shared := (px_shared served)\<lparr>sh_lifecycle := Quiescent,
     sh_evidence := evidence_default\<lparr>e_accepted := 1, e_completed := 1\<rparr>\<rparr>, px_down := DnDone (Inr served_evidence)\<rparr>)"
proof -
  have "proxy_reach 1 (served\<lparr>px_shared := (px_shared served)\<lparr>sh_evidence := evidence_default\<lparr>e_accepted := 1, e_completed := 1\<rparr>\<rparr>,
      px_down := DnDraining []\<rparr>)"
    by (rule teardown_run [OF served_reach teardown_step.join_worker [where w = "Finished Completed" and ws = "[]"]])
      (simp_all add: served_def frame_defs is_finished_def tally_join_def evidence_default_def)
  then show ?thesis
    by (rule teardown_run [OF _ teardown_step.freeze])
      (simp_all add: served_def frame_defs finalize_def served_evidence_def snapshot_def evidence_default_def)
qed

theorem final_evidence_is_complete_witness:
  "pf_accepted served_evidence = pf_completed served_evidence \<and> pf_accepted served_evidence = 1"
  using final_evidence_is_complete [OF served_done, of served_evidence]
  by (simp add: served_def served_evidence_def snapshot_def)

theorem workers_never_exceed_cap_witness: "sh_high_water (px_shared served) \<le> 1"
  using workers_never_exceed_cap [OF served_reach] by blast

theorem shutdown_can_complete_witness: "\<exists>p' r. proxy_step\<^sup>*\<^sup>* served p' \<and> px_down p' = DnDone r"
  using shutdown_can_complete [OF served_reach] by (simp add: served_def)

end
