(* ===== verification/Ceremony_Kernel.thy ===== *)
theory Ceremony_Kernel
  imports Bridle_Prelude
begin

text \<open>
  The ceremony kernels (\<^verbatim>\<open>agent-bridle-ceremony/src\<close>): the authority lattice with its resolution
  (\<^verbatim>\<open>authority.rs\<close>), the enforcement boundary (\<^verbatim>\<open>boundary.rs\<close>), the chain store
  (\<^verbatim>\<open>chain_store.rs\<close>) with the state machine it implements (\<^verbatim>\<open>formal/tla/CeremonyStore.tla\<close>), and
  the verification order of signed objects (\<^verbatim>\<open>signed_object.rs\<close>). The traits for encodings and
  cryptography are records of functions; the crate gives them no implementation.
\<close>

subsection \<open>The authority lattice\<close>

datatype Effect = EffDeny | EffAllow
datatype Assurance = AsrNone | AsrPresence | AsrHardware
datatype GrantScope = ScOnce | ScSession | ScDurable

fun effect_rank :: "Effect \<Rightarrow> nat" where
  "effect_rank EffDeny = 0"
| "effect_rank EffAllow = 1"

fun assurance_rank :: "Assurance \<Rightarrow> nat" where
  "assurance_rank AsrNone = 0"
| "assurance_rank AsrPresence = 1"
| "assurance_rank AsrHardware = 2"

fun scope_rank :: "GrantScope \<Rightarrow> nat" where
  "scope_rank ScOnce = 0"
| "scope_rank ScSession = 1"
| "scope_rank ScDurable = 2"

definition effect_meet :: "Effect \<Rightarrow> Effect \<Rightarrow> Effect" where
  "effect_meet a b = (if effect_rank a \<le> effect_rank b then a else b)"

definition assurance_meet :: "Assurance \<Rightarrow> Assurance \<Rightarrow> Assurance" where
  "assurance_meet a b = (if assurance_rank a \<le> assurance_rank b then a else b)"

definition scope_meet :: "GrantScope \<Rightarrow> GrantScope \<Rightarrow> GrantScope" where
  "scope_meet a b = (if scope_rank a \<le> scope_rank b then a else b)"

record CeremonyAuthority =
  au_effect :: Effect
  au_assurance :: Assurance
  au_scope :: GrantScope

definition BOTTOM :: CeremonyAuthority where
  "BOTTOM = \<lparr>au_effect = EffDeny, au_assurance = AsrNone, au_scope = ScOnce\<rparr>"

definition TOP :: CeremonyAuthority where
  "TOP = \<lparr>au_effect = EffAllow, au_assurance = AsrHardware, au_scope = ScDurable\<rparr>"

definition authority_meet :: "CeremonyAuthority \<Rightarrow> CeremonyAuthority \<Rightarrow> CeremonyAuthority" where
  "authority_meet a b =
     \<lparr>au_effect = effect_meet (au_effect a) (au_effect b),
      au_assurance = assurance_meet (au_assurance a) (au_assurance b),
      au_scope = scope_meet (au_scope a) (au_scope b)\<rparr>"

definition authority_le :: "CeremonyAuthority \<Rightarrow> CeremonyAuthority \<Rightarrow> bool" where
  "authority_le a b \<longleftrightarrow> authority_meet a b = a"

definition attenuate :: "CeremonyAuthority \<Rightarrow> CeremonyAuthority \<Rightarrow> CeremonyAuthority" where
  "attenuate a ceiling = authority_meet a ceiling"

datatype Resolution = NeedsDecision | Decided CeremonyAuthority

function meet_from :: "CeremonyAuthority list \<Rightarrow> nat \<Rightarrow> CeremonyAuthority \<Rightarrow> CeremonyAuthority" where
  "meet_from candidates start acc =
     (if start \<ge> length candidates then acc
      else meet_from candidates (start + 1) (authority_meet acc (candidates ! start)))"
  by pat_completeness auto
termination by (relation "measure (\<lambda>(cs, start, acc). length cs - start)") auto

declare meet_from.simps [simp del]

definition resolve :: "CeremonyAuthority list \<Rightarrow> Resolution" where
  "resolve candidates =
     (if candidates = [] then NeedsDecision else Decided (meet_from candidates 1 (candidates ! 0)))"

subsection \<open>The enforcement boundary\<close>

datatype Fence = FenceAdvisory | FenceKernel

text \<open>A request is the one bit that counts: whether it is dynamic.\<close>

record ShellRequest =
  rq_dynamic :: bool

definition safe_subset :: "ShellRequest \<Rightarrow> Effect" where
  "safe_subset q = (if rq_dynamic q then EffDeny else EffAllow)"

definition brush_honest :: "Fence \<Rightarrow> ShellRequest \<Rightarrow> Effect" where
  "brush_honest f q =
     (case (f, rq_dynamic q) of
        (FenceKernel, _) \<Rightarrow> EffAllow
      | (FenceAdvisory, True) \<Rightarrow> EffDeny
      | (FenceAdvisory, False) \<Rightarrow> EffAllow)"

definition boundary_verdict :: "Fence \<Rightarrow> ShellRequest \<Rightarrow> Effect" where
  "boundary_verdict f q = (case f of FenceKernel \<Rightarrow> brush_honest FenceKernel q | FenceAdvisory \<Rightarrow> safe_subset q)"

definition enforceable_ceiling :: "Fence \<Rightarrow> ShellRequest \<Rightarrow> Effect" where
  "enforceable_ceiling f q = boundary_verdict f q"

definition boundary_ceiling :: "Fence \<Rightarrow> ShellRequest \<Rightarrow> CeremonyAuthority" where
  "boundary_ceiling f q = \<lparr>au_effect = boundary_verdict f q, au_assurance = AsrHardware, au_scope = ScDurable\<rparr>"

definition minted_grant :: "CeremonyAuthority \<Rightarrow> Fence \<Rightarrow> ShellRequest \<Rightarrow> CeremonyAuthority" where
  "minted_grant req f q = attenuate req (boundary_ceiling f q)"

subsection \<open>The chain store\<close>

datatype StoreId = StoreId u64
datatype ThreadId = ThreadId u64
datatype LineCid = LineCid u64

record AuthorityCheckpoint =
  cp_store_id :: StoreId
  cp_thread_id :: ThreadId
  cp_sequence :: u64
  cp_head :: LineCid

datatype AppendOutcome =
    Committed u64 LineCid
  | CasLost "LineCid option"
  | AppendRejected "LineCid option"

datatype Rejection = DifferentStore | DifferentThread | NotForward | Sibling | BeyondSpine

datatype AcceptOutcome = Accepted u64 | AcceptRejected Rejection

record ChainStore =
  cs_store_id :: StoreId
  cs_thread_id :: ThreadId
  cs_spine :: "LineCid list"
  cs_checkpoint :: u64

definition chain_new :: "StoreId \<Rightarrow> ThreadId \<Rightarrow> ChainStore" where
  "chain_new store thread = \<lparr>cs_store_id = store, cs_thread_id = thread, cs_spine = [], cs_checkpoint = 0\<rparr>"

definition chain_len :: "ChainStore \<Rightarrow> u64" where
  "chain_len s = of_nat (length (cs_spine s))"

definition chain_head :: "ChainStore \<Rightarrow> LineCid option" where
  "chain_head s = (if cs_spine s = [] then None else Some (last (cs_spine s)))"

definition committed_head_at :: "ChainStore \<Rightarrow> u64 \<Rightarrow> LineCid option" where
  "committed_head_at s sequence =
     (if sequence = 0 then None
      else let i = unat (sequence - 1) in if i < length (cs_spine s) then Some (cs_spine s ! i) else None)"

definition protected_checkpoint :: "ChainStore \<Rightarrow> AuthorityCheckpoint option" where
  "protected_checkpoint s =
     (case committed_head_at s (cs_checkpoint s) of
        None \<Rightarrow> None
      | Some h \<Rightarrow> Some \<lparr>cp_store_id = cs_store_id s, cp_thread_id = cs_thread_id s,
          cp_sequence = cs_checkpoint s, cp_head = h\<rparr>)"

definition is_prior_head :: "ChainStore \<Rightarrow> LineCid option \<Rightarrow> bool" where
  "is_prior_head s expected =
     (case expected of None \<Rightarrow> cs_spine s \<noteq> [] | Some cid \<Rightarrow> cid \<in> set (cs_spine s))"

definition append_cas :: "LineCid option \<Rightarrow> LineCid \<Rightarrow> ChainStore \<Rightarrow> ChainStore \<times> AppendOutcome" where
  "append_cas expected next s =
     (let current = chain_head s in
      if expected = current then
        (let s' = s\<lparr>cs_spine := cs_spine s @ [next]\<rparr> in (s', Committed (chain_len s') next))
      else if is_prior_head s expected then (s, CasLost current)
      else (s, AppendRejected current))"

definition advance_checkpoint :: "ChainStore \<Rightarrow> ChainStore \<times> bool" where
  "advance_checkpoint s =
     (if cs_checkpoint s < chain_len s then (s\<lparr>cs_checkpoint := chain_len s\<rparr>, True) else (s, False))"

definition accept_head :: "AuthorityCheckpoint \<Rightarrow> ChainStore \<Rightarrow> ChainStore \<times> AcceptOutcome" where
  "accept_head presented s =
     (if cp_store_id presented \<noteq> cs_store_id s then (s, AcceptRejected DifferentStore)
      else if cp_thread_id presented \<noteq> cs_thread_id s then (s, AcceptRejected DifferentThread)
      else if cp_sequence presented \<le> cs_checkpoint s then (s, AcceptRejected NotForward)
      else
       (case committed_head_at s (cp_sequence presented) of
          None \<Rightarrow> (s, AcceptRejected BeyondSpine)
        | Some cid \<Rightarrow>
            if cid = cp_head presented
            then (s\<lparr>cs_checkpoint := cp_sequence presented\<rparr>, Accepted (cp_sequence presented))
            else (s, AcceptRejected Sibling)))"

subsection \<open>Signed objects\<close>

datatype HashAlgorithm = Blake3_256 | Sha1
datatype SignatureAlgorithm = Ed25519 | Ecdsa
datatype Codec = DagCbor | Json

fun is_deterministic :: "SignatureAlgorithm \<Rightarrow> bool" where
  "is_deterministic Ed25519 = True"
| "is_deterministic Ecdsa = False"

record Profile =
  pr_version :: u64
  pr_hashes :: "HashAlgorithm list"
  pr_signatures :: "SignatureAlgorithm list"
  pr_codecs :: "Codec list"

definition profile_v1 :: Profile where
  "profile_v1 = \<lparr>pr_version = 1, pr_hashes = [Blake3_256], pr_signatures = [Ed25519], pr_codecs = [DagCbor]\<rparr>"

definition allows_hash :: "Profile \<Rightarrow> HashAlgorithm \<Rightarrow> bool" where
  "allows_hash p a \<longleftrightarrow> a \<in> set (pr_hashes p)"

definition allows_signature :: "Profile \<Rightarrow> SignatureAlgorithm \<Rightarrow> bool" where
  "allows_signature p a \<longleftrightarrow> a \<in> set (pr_signatures p)"

definition allows_codec :: "Profile \<Rightarrow> Codec \<Rightarrow> bool" where
  "allows_codec p c \<longleftrightarrow> c \<in> set (pr_codecs p)"

text \<open>A trusted profile is obtained only by admission, which admits the one profile of version 1.\<close>

definition trusted_admit :: "Profile \<Rightarrow> Profile option" where
  "trusted_admit p = (if p = profile_v1 then Some p else None)"

definition admit_hash :: "Profile \<Rightarrow> HashAlgorithm \<Rightarrow> HashAlgorithm option" where
  "admit_hash p a = (if allows_hash p a then Some a else None)"

definition admit_signature :: "Profile \<Rightarrow> SignatureAlgorithm \<Rightarrow> SignatureAlgorithm option" where
  "admit_signature p a = (if allows_signature p a then Some a else None)"

definition admit_codec :: "Profile \<Rightarrow> Codec \<Rightarrow> Codec option" where
  "admit_codec p c = (if allows_codec p c then Some c else None)"

definition STORE_ID_SELF :: bytes where "STORE_ID_SELF = [0x00]"

definition resolve_store_id :: "bytes \<Rightarrow> bytes \<Rightarrow> bytes" where
  "resolve_store_id declared own_cid = (if declared = STORE_ID_SELF then own_cid else declared)"

record SignatureDomain =
  sd_record_type :: string
  sd_store_id :: bytes
  sd_thread_or_principal :: bytes

record DomainBinding =
  db_profile_version :: u64
  db_codec :: Codec
  db_signer :: bytes

record SignaturePreimage =
  sp_canonical_unsigned :: bytes
  sp_profile_version :: u64
  sp_hash_algorithm :: HashAlgorithm
  sp_signature_algorithm :: SignatureAlgorithm
  sp_codec :: Codec
  sp_domain :: SignatureDomain
  sp_body :: bytes
  sp_claimed_cid :: bytes
  sp_signer :: bytes
  sp_unknown_critical :: "string list"

record ('env, 'uns) SignedEnvelopeCodec =
  ec_decode :: "bytes \<Rightarrow> 'env option"
  ec_encode :: "'env \<Rightarrow> bytes"
  ec_unsigned :: "'env \<Rightarrow> 'uns"
  ec_encode_unsigned :: "'uns \<Rightarrow> bytes"
  ec_profile_version :: "'uns \<Rightarrow> u64"
  ec_hash_algorithm :: "'uns \<Rightarrow> HashAlgorithm"
  ec_signature_algorithm :: "'uns \<Rightarrow> SignatureAlgorithm"
  ec_codec :: "'uns \<Rightarrow> Codec"
  ec_domain :: "'uns \<Rightarrow> SignatureDomain"
  ec_body :: "'uns \<Rightarrow> bytes"
  ec_claimed_cid :: "'uns \<Rightarrow> bytes"
  ec_signer :: "'uns \<Rightarrow> bytes"
  ec_unknown_critical :: "'uns \<Rightarrow> string list"
  ec_body_binding :: "'uns \<Rightarrow> DomainBinding"
  ec_signature_bytes :: "'env \<Rightarrow> bytes"

definition signature_preimage :: "('env, 'uns) SignedEnvelopeCodec \<Rightarrow> 'uns \<Rightarrow> SignaturePreimage" where
  "signature_preimage c u =
     \<lparr>sp_canonical_unsigned = ec_encode_unsigned c u, sp_profile_version = ec_profile_version c u,
      sp_hash_algorithm = ec_hash_algorithm c u, sp_signature_algorithm = ec_signature_algorithm c u,
      sp_codec = ec_codec c u, sp_domain = ec_domain c u, sp_body = ec_body c u,
      sp_claimed_cid = ec_claimed_cid c u, sp_signer = ec_signer c u,
      sp_unknown_critical = ec_unknown_critical c u\<rparr>"

record CryptoBoundary =
  cb_digest :: "HashAlgorithm \<Rightarrow> bytes \<Rightarrow> bytes"
  cb_signature_matches :: "SignatureAlgorithm \<Rightarrow> SignaturePreimage \<Rightarrow> bytes \<Rightarrow> bool"

datatype VerifyRejection =
    Undecodable | VersionMismatch | HashNotAllowed | SignatureAlgNotAllowed | CodecNotAllowed
  | SignatureInvalid | CidMismatch | BodyDomainMismatch | UnknownCriticalField | NonCanonicalBody
  | NonCanonicalEnvelope

record 'env VerifiedEnvelope =
  ve_envelope :: 'env
  ve_profile :: Profile
  ve_allowed_hash :: HashAlgorithm
  ve_allowed_signature :: SignatureAlgorithm
  ve_allowed_codec :: Codec
  ve_preimage :: SignaturePreimage

definition effective_store_id :: "'env VerifiedEnvelope \<Rightarrow> bytes" where
  "effective_store_id v =
     resolve_store_id (sd_store_id (sp_domain (ve_preimage v))) (sp_claimed_cid (ve_preimage v))"

definition verify_envelope ::
  "Profile \<Rightarrow> ('env, 'uns) SignedEnvelopeCodec \<Rightarrow> CryptoBoundary \<Rightarrow> bytes \<Rightarrow> VerifyRejection + 'env VerifiedEnvelope" where
  "verify_envelope profile c crypto received =
     (case ec_decode c received of
        None \<Rightarrow> Inl Undecodable
      | Some envelope \<Rightarrow>
          if ec_encode c envelope \<noteq> received then Inl NonCanonicalEnvelope
          else
           (let u = ec_unsigned c envelope in
            if ec_profile_version c u \<noteq> pr_version profile then Inl VersionMismatch
            else case admit_hash profile (ec_hash_algorithm c u) of
              None \<Rightarrow> Inl HashNotAllowed
            | Some h \<Rightarrow>
                (case admit_signature profile (ec_signature_algorithm c u) of
                   None \<Rightarrow> Inl SignatureAlgNotAllowed
                 | Some sa \<Rightarrow>
                     (case admit_codec profile (ec_codec c u) of
                        None \<Rightarrow> Inl CodecNotAllowed
                      | Some cd \<Rightarrow>
                          (let preimage = signature_preimage c u in
                           if \<not> cb_signature_matches crypto sa preimage (ec_signature_bytes c envelope)
                           then Inl SignatureInvalid
                           else if ec_claimed_cid c u \<noteq> cb_digest crypto h (ec_body c u) then Inl CidMismatch
                           else if ec_body_binding c u \<noteq>
                             \<lparr>db_profile_version = ec_profile_version c u, db_codec = ec_codec c u, db_signer = ec_signer c u\<rparr>
                           then Inl BodyDomainMismatch
                           else if ec_unknown_critical c u \<noteq> [] then Inl UnknownCriticalField
                           else Inr \<lparr>ve_envelope = envelope, ve_profile = profile, ve_allowed_hash = h,
                             ve_allowed_signature = sa, ve_allowed_codec = cd, ve_preimage = preimage\<rparr>)))))"

record 'v PayloadDecoder =
  pd_encode :: "'v \<Rightarrow> bytes"
  pd_parse :: "bytes \<Rightarrow> 'v option"

record ('v, 'env) Sealed =
  sl_verified :: "'env VerifiedEnvelope"
  sl_value :: 'v

definition parse_verified ::
  "'v PayloadDecoder \<Rightarrow> 'env VerifiedEnvelope \<Rightarrow> VerifyRejection + ('v, 'env) Sealed" where
  "parse_verified d v =
     (let body = sp_body (ve_preimage v) in
      case pd_parse d body of
        None \<Rightarrow> Inl NonCanonicalBody
      | Some value \<Rightarrow>
          if pd_encode d value \<noteq> body then Inl NonCanonicalBody
          else Inr \<lparr>sl_verified = v, sl_value = value\<rparr>)"

definition load_envelope ::
  "Profile \<Rightarrow> ('env, 'uns) SignedEnvelopeCodec \<Rightarrow> CryptoBoundary \<Rightarrow> 'v PayloadDecoder \<Rightarrow> bytes \<Rightarrow>
   VerifyRejection + ('v, 'env) Sealed" where
  "load_envelope profile c crypto d received =
     (case verify_envelope profile c crypto received of Inl e \<Rightarrow> Inl e | Inr v \<Rightarrow> parse_verified d v)"

subsection \<open>Resolution is a meet\<close>

interpretation effects: semilattice_neutr effect_meet EffAllow
proof
  fix a b c :: Effect
  show "effect_meet (effect_meet a b) c = effect_meet a (effect_meet b c)"
    by (cases a; cases b; cases c) (simp_all add: effect_meet_def)
  show "effect_meet a b = effect_meet b a" by (cases a; cases b) (simp_all add: effect_meet_def)
qed (simp_all add: effect_meet_def split: if_splits, metis effect_rank.elims le_numeral_extra(4) zero_le)

interpretation assurances: semilattice_neutr assurance_meet AsrHardware
proof
  fix a b c :: Assurance
  show "assurance_meet (assurance_meet a b) c = assurance_meet a (assurance_meet b c)"
    by (cases a; cases b; cases c) (simp_all add: assurance_meet_def)
  show "assurance_meet a b = assurance_meet b a" by (cases a; cases b) (simp_all add: assurance_meet_def)
  show "assurance_meet a AsrHardware = a" by (cases a) (simp_all add: assurance_meet_def)
qed (simp add: assurance_meet_def)

interpretation scopes: semilattice_neutr scope_meet ScDurable
proof
  fix a b c :: GrantScope
  show "scope_meet (scope_meet a b) c = scope_meet a (scope_meet b c)"
    by (cases a; cases b; cases c) (simp_all add: scope_meet_def)
  show "scope_meet a b = scope_meet b a" by (cases a; cases b) (simp_all add: scope_meet_def)
  show "scope_meet a ScDurable = a" by (cases a) (simp_all add: scope_meet_def)
qed (simp add: scope_meet_def)

interpretation authority: semilattice_neutr authority_meet TOP
  by unfold_locales
    (simp_all add: authority_meet_def TOP_def effects.assoc assurances.assoc scopes.assoc
      effects.commute assurances.commute scopes.commute effects.left_commute assurances.left_commute scopes.left_commute)

lemma meet_from_foldl: "meet_from cs k acc = foldl authority_meet acc (drop k cs)"
proof (induction cs k acc rule: meet_from.induct)
  case (1 cs k acc)
  show ?case
  proof (cases "length cs \<le> k")
    case True
    then show ?thesis by (simp add: meet_from.simps)
  next
    case False
    then have "drop k cs = cs ! k # drop (Suc k) cs" by (simp add: Cons_nth_drop_Suc)
    with 1 False show ?thesis by (subst meet_from.simps) simp
  qed
qed

lemma resolve_Cons: "resolve (c # cs) = Decided (foldl authority_meet c cs)"
  by (simp add: resolve_def meet_from_foldl)

lemma foldl_meet_lower:
  "authority_le (foldl authority_meet c cs) c" "x \<in> set cs \<Longrightarrow> authority_le (foldl authority_meet c cs) x"
proof -
  have mono: "authority_le (foldl authority_meet c cs) c" for c cs
  proof (induction cs arbitrary: c)
    case (Cons d cs)
    have "authority_meet (foldl authority_meet (authority_meet c d) cs) (authority_meet c d) =
        foldl authority_meet (authority_meet c d) cs"
      using Cons [of "authority_meet c d"] by (simp add: authority_le_def)
    then show ?case unfolding authority_le_def foldl.simps by (metis authority.assoc authority.commute authority.left_idem)
  qed (simp add: authority_le_def)
  then show "authority_le (foldl authority_meet c cs) c" .
  show "x \<in> set cs \<Longrightarrow> authority_le (foldl authority_meet c cs) x"
  proof (induction cs arbitrary: c)
    case (Cons d cs)
    have "authority_meet (foldl authority_meet (authority_meet c d) cs) (authority_meet c d) =
        foldl authority_meet (authority_meet c d) cs"
      using mono [of "authority_meet c d" cs] by (simp add: authority_le_def)
    then have "authority_le (foldl authority_meet (authority_meet c d) cs) d"
      unfolding authority_le_def by (metis authority.assoc authority.commute authority.left_idem)
    with Cons show ?case by auto
  qed simp
qed

lemma foldl_meet_greatest:
  "authority_le b c \<Longrightarrow> \<forall>x\<in>set cs. authority_le b x \<Longrightarrow> authority_le b (foldl authority_meet c cs)"
proof (induction cs arbitrary: c)
  case (Cons d cs)
  then have "authority_le b (authority_meet c d)"
    unfolding authority_le_def by (simp add: authority.assoc [symmetric])
  with Cons show ?case by simp
qed simp

lemma authority_le_antisym: "authority_le a b \<Longrightarrow> authority_le b a \<Longrightarrow> a = b"
  unfolding authority_le_def by (metis authority.commute)

text \<open>Resolution never fails open. Without a matching rule the answer is \<^verbatim>\<open>NeedsDecision\<close>; with some
  it is their greatest lower bound, whatever their order and repetitions.\<close>

theorem resolution_is_greatest_lower_bound:
  "resolve [] = NeedsDecision \<and>
   (\<exists>a. resolve (c # cs) = Decided a \<and> list_all (authority_le a) (c # cs) \<and>
     (\<forall>b. list_all (authority_le b) (c # cs) \<longrightarrow> authority_le b a) \<and>
     (\<forall>d ds. set (d # ds) = set (c # cs) \<longrightarrow> resolve (d # ds) = Decided a))"
proof (intro conjI exI [of _ "foldl authority_meet c cs"] allI impI)
  fix d ds assume eq: "set (d # ds) = set (c # cs)"
  have "authority_le (foldl authority_meet d ds) x" if "x \<in> set (c # cs)" for x
    using foldl_meet_lower(1) [of d ds] foldl_meet_lower(2) [of x ds d] that unfolding eq [symmetric] by auto
  moreover have "authority_le (foldl authority_meet c cs) x" if "x \<in> set (d # ds)" for x
    using foldl_meet_lower(1) [of c cs] foldl_meet_lower(2) [of x cs c] that unfolding eq by auto
  ultimately have "foldl authority_meet d ds = foldl authority_meet c cs"
    by (intro authority_le_antisym foldl_meet_greatest) auto
  then show "resolve (d # ds) = Decided (foldl authority_meet c cs)" by (simp add: resolve_Cons)
qed (use foldl_meet_lower(1) [of c cs] foldl_meet_lower(2) [of _ cs c] foldl_meet_greatest in
    \<open>auto simp: resolve_def list_all_iff meet_from_foldl\<close>)

text \<open>What the boundary mints. A grant is allowed exactly when the request was and the boundary can
  confine it, that is behind a kernel fence or for a request without dynamic constructs; presence and
  duration pass through; the rule is the honest verdict of the full engine and never above the request.\<close>

theorem minted_grant_exact:
  "au_effect (minted_grant req f q) =
     (if au_effect req = EffAllow \<and> (f = FenceKernel \<or> \<not> rq_dynamic q) then EffAllow else EffDeny) \<and>
   au_assurance (minted_grant req f q) = au_assurance req \<and> au_scope (minted_grant req f q) = au_scope req \<and>
   boundary_verdict f q = brush_honest f q \<and> authority_le (minted_grant req f q) req \<and>
   authority_le (minted_grant req f q) (boundary_ceiling f q)"
proof -
  have "authority_le (minted_grant req f q) req" "authority_le (minted_grant req f q) (boundary_ceiling f q)"
    unfolding authority_le_def minted_grant_def attenuate_def by (simp_all add: authority.assoc authority.commute authority.left_commute)
  moreover have "boundary_verdict f q = brush_honest f q"
    by (cases f) (simp_all add: boundary_verdict_def brush_honest_def safe_subset_def split: bool.split)
  moreover have "boundary_verdict f q = EffAllow \<longleftrightarrow> f = FenceKernel \<or> \<not> rq_dynamic q"
    by (cases f) (simp_all add: boundary_verdict_def brush_honest_def safe_subset_def)
  moreover have "effect_meet e v = (if e = EffAllow \<and> v = EffAllow then EffAllow else EffDeny)" for e v
    by (cases e; cases v) (simp_all add: effect_meet_def)
  moreover have "au_effect (minted_grant req f q) = effect_meet (au_effect req) (boundary_verdict f q)"
    "au_assurance (minted_grant req f q) = au_assurance req" "au_scope (minted_grant req f q) = au_scope req"
    by (simp_all add: minted_grant_def attenuate_def boundary_ceiling_def authority_meet_def)
  ultimately show ?thesis by metis
qed

subsection \<open>The chain store refines its state machine\<close>

text \<open>
  The abstract machine, of the operations and their answers: a spine and the length of it that is anchored. A
  proposal names the head it read, which is the head of some prefix of the spine or of none; it commits when that is
  the head of the whole spine, has lost when it is that of a shorter prefix only, and is rejected otherwise. A presented
  head is accepted when it is the head of a prefix longer than the anchored one, in the same store and thread.
\<close>

datatype chain_op = OpAppend "LineCid option" LineCid | OpAdvance | OpAccept AuthorityCheckpoint

datatype chain_reply = Appended AppendOutcome | Advanced bool | Presented AcceptOutcome

definition spine_head :: "LineCid list \<Rightarrow> LineCid option" where
  "spine_head spine = (if spine = [] then None else Some (last spine))"

inductive store_next ::
  "StoreId \<times> ThreadId \<Rightarrow> LineCid list \<times> nat \<Rightarrow> chain_op \<times> chain_reply \<Rightarrow> LineCid list \<times> nat \<Rightarrow> bool" for own where
  Commit: "expected = spine_head spine \<Longrightarrow> unat n = Suc (length spine) \<Longrightarrow>
    store_next own (spine, cp) (OpAppend expected r, Appended (Committed n r)) (spine @ [r], cp)"
| Stale: "strict_prefix earlier spine \<Longrightarrow> expected = spine_head earlier \<Longrightarrow> expected \<noteq> spine_head spine \<Longrightarrow>
    store_next own (spine, cp) (OpAppend expected r, Appended (CasLost (spine_head spine))) (spine, cp)"
| Foreign: "(\<And>earlier. prefix earlier spine \<Longrightarrow> expected \<noteq> spine_head earlier) \<Longrightarrow>
    store_next own (spine, cp) (OpAppend expected r, Appended (AppendRejected (spine_head spine))) (spine, cp)"
| Raise: "cp < length spine \<Longrightarrow> store_next own (spine, cp) (OpAdvance, Advanced True) (spine, length spine)"
| Keep: "length spine \<le> cp \<Longrightarrow> store_next own (spine, cp) (OpAdvance, Advanced False) (spine, cp)"
| Anchor: "own = (cp_store_id p, cp_thread_id p) \<Longrightarrow> prefix later spine \<Longrightarrow> length later = unat (cp_sequence p) \<Longrightarrow>
    cp < length later \<Longrightarrow> spine_head later = Some (cp_head p) \<Longrightarrow>
    store_next own (spine, cp) (OpAccept p, Presented (Accepted (cp_sequence p))) (spine, length later)"
| OtherStore: "fst own \<noteq> cp_store_id p \<Longrightarrow>
    store_next own st (OpAccept p, Presented (AcceptRejected DifferentStore)) st"
| OtherThread: "fst own = cp_store_id p \<Longrightarrow> snd own \<noteq> cp_thread_id p \<Longrightarrow>
    store_next own st (OpAccept p, Presented (AcceptRejected DifferentThread)) st"
| Rollback: "own = (cp_store_id p, cp_thread_id p) \<Longrightarrow> unat (cp_sequence p) \<le> cp \<Longrightarrow>
    store_next own (spine, cp) (OpAccept p, Presented (AcceptRejected NotForward)) (spine, cp)"
| Beyond: "own = (cp_store_id p, cp_thread_id p) \<Longrightarrow> cp < unat (cp_sequence p) \<Longrightarrow> length spine < unat (cp_sequence p) \<Longrightarrow>
    store_next own (spine, cp) (OpAccept p, Presented (AcceptRejected BeyondSpine)) (spine, cp)"
| Fork: "own = (cp_store_id p, cp_thread_id p) \<Longrightarrow> prefix later spine \<Longrightarrow> length later = unat (cp_sequence p) \<Longrightarrow>
    cp < length later \<Longrightarrow> spine_head later \<noteq> Some (cp_head p) \<Longrightarrow>
    store_next own (spine, cp) (OpAccept p, Presented (AcceptRejected Sibling)) (spine, cp)"

inductive store_run ::
  "StoreId \<times> ThreadId \<Rightarrow> LineCid list \<times> nat \<Rightarrow> (chain_op \<times> chain_reply) list \<Rightarrow> LineCid list \<times> nat \<Rightarrow> bool" for own where
  Nothing: "store_run own st [] st"
| Step: "store_next own st l st' \<Longrightarrow> store_run own st' ls st'' \<Longrightarrow> store_run own st (l # ls) st''"

text \<open>The machine is deterministic: a state and an operation fix the answer and the next state.\<close>

lemma same_length_prefix: "prefix xs zs \<Longrightarrow> prefix ys zs \<Longrightarrow> length xs = length ys \<Longrightarrow> xs = ys"
  by (metis append_eq_append_conv prefix_def)

lemma store_next_deterministic:
  assumes "store_next own st (oper, a) st1" "store_next own st (oper, b) st2"
  shows "a = b \<and> st1 = st2"
  using assms(1)
proof (cases rule: store_next.cases)
  case (Foreign spine expected cp r)
  with assms(2) show ?thesis by cases (auto dest: prefix_order.less_imp_le)
next
  case (Stale earlier spine expected cp r)
  with assms(2) show ?thesis by cases (auto dest: prefix_order.less_imp_le)
next
  case (Commit expected spine n cp r)
  with assms(2) show ?thesis by cases (auto simp: word_unat_eq_iff)
qed (use assms(2) in \<open>cases; auto dest: same_length_prefix prefix_length_le\<close>)+

definition store_abs :: "ChainStore \<Rightarrow> LineCid list \<times> nat" where
  "store_abs s = (cs_spine s, unat (cs_checkpoint s))"

definition store_owner :: "ChainStore \<Rightarrow> StoreId \<times> ThreadId" where
  "store_owner s = (cs_store_id s, cs_thread_id s)"

fun chain_exec :: "chain_op \<Rightarrow> ChainStore \<Rightarrow> ChainStore \<times> chain_reply" where
  "chain_exec (OpAppend expected r) s = map_prod id Appended (append_cas expected r s)"
| "chain_exec OpAdvance s = map_prod id Advanced (advance_checkpoint s)"
| "chain_exec (OpAccept presented) s = map_prod id Presented (accept_head presented s)"

fun chain_run :: "chain_op list \<Rightarrow> ChainStore \<Rightarrow> ChainStore" where
  "chain_run [] s = s"
| "chain_run (oper # ops) s = chain_run ops (fst (chain_exec oper s))"

fun chain_replies :: "chain_op list \<Rightarrow> ChainStore \<Rightarrow> chain_reply list" where
  "chain_replies [] s = []"
| "chain_replies (oper # ops) s = snd (chain_exec oper s) # chain_replies ops (fst (chain_exec oper s))"

lemma chain_run_append [simp]: "chain_run (ops @ ops') s = chain_run ops' (chain_run ops s)"
  by (induction ops arbitrary: s) simp_all

definition store_wf :: "nat \<Rightarrow> ChainStore \<Rightarrow> bool" where
  "store_wf room s \<longleftrightarrow> unat (cs_checkpoint s) \<le> length (cs_spine s) \<and> length (cs_spine s) + room < 2 ^ 64"

lemma unat_chain_len: "length (cs_spine s) < 2 ^ 64 \<Longrightarrow> unat (chain_len s) = length (cs_spine s)"
  by (simp add: chain_len_def unsigned_of_nat take_bit_nat_eq_self)

lemma committed_head_at_prefix:
  "committed_head_at s sequence =
     (if unat sequence \<le> length (cs_spine s) then spine_head (take (unat sequence) (cs_spine s)) else None)"
  by (auto simp: committed_head_at_def spine_head_def Let_def unat_pred word_gt_0_unat last_conv_nth unat_eq_0)

lemma is_prior_head_iff: "is_prior_head s expected \<longleftrightarrow>
  (\<exists>earlier. prefix earlier (cs_spine s) \<and> expected = spine_head earlier \<and> (expected = None \<longrightarrow> cs_spine s \<noteq> []))"
proof (cases expected)
  case None
  then show ?thesis by (auto simp: is_prior_head_def spine_head_def intro: exI [of _ "[]"])
next
  case (Some cid)
  have head: "Some cid = spine_head earlier \<longleftrightarrow> (\<exists>before. earlier = before @ [cid])" for earlier
    by (cases earlier rule: rev_cases) (auto simp: spine_head_def)
  have "cid \<in> set (cs_spine s) \<longleftrightarrow> (\<exists>earlier. prefix (earlier @ [cid]) (cs_spine s))"
    by (auto simp: in_set_conv_decomp prefix_def)
  also have "\<dots> \<longleftrightarrow> (\<exists>earlier. prefix earlier (cs_spine s) \<and> Some cid = spine_head earlier)"
    using head by auto
  finally show ?thesis by (simp add: is_prior_head_def Some)
qed

lemma chain_head_spine: "chain_head s = spine_head (cs_spine s)"
  by (simp add: chain_head_def spine_head_def)

lemma append_step:
  assumes "store_wf (Suc room) s"
  shows "store_next (store_owner s) (store_abs s) (OpAppend expected r, Appended (snd (append_cas expected r s)))
    (store_abs (fst (append_cas expected r s)))"
proof -
  have len: "unat (chain_len (s\<lparr>cs_spine := cs_spine s @ [r]\<rparr>)) = Suc (length (cs_spine s))"
    using assms unat_chain_len [of "s\<lparr>cs_spine := cs_spine s @ [r]\<rparr>"] by (simp add: store_wf_def)
  consider "expected = spine_head (cs_spine s)" | "expected \<noteq> spine_head (cs_spine s)" "is_prior_head s expected"
    | "expected \<noteq> spine_head (cs_spine s)" "\<not> is_prior_head s expected" by blast
  then show ?thesis
  proof cases
    case 1
    then show ?thesis using store_next.Commit [OF 1 len] by (simp add: append_cas_def chain_head_spine store_abs_def Let_def)
  next
    case 2
    then obtain earlier where "prefix earlier (cs_spine s)" "expected = spine_head earlier" by (auto simp: is_prior_head_iff)
    moreover from this 2(1) have "strict_prefix earlier (cs_spine s)" by (auto simp: strict_prefix_def)
    ultimately show ?thesis
      using 2 store_next.Stale [of earlier "cs_spine s" expected] by (simp add: append_cas_def chain_head_spine store_abs_def Let_def)
  next
    case 3
    then have "prefix earlier (cs_spine s) \<Longrightarrow> expected \<noteq> spine_head earlier" for earlier
      by (auto simp: is_prior_head_iff spine_head_def split: if_splits)
    from store_next.Foreign [OF this] 3 show ?thesis by (simp add: append_cas_def chain_head_spine store_abs_def Let_def)
  qed
qed

lemma accept_step:
  "store_next (store_owner s) (store_abs s) (OpAccept p, Presented (snd (accept_head p s))) (store_abs (fst (accept_head p s)))"
proof -
  let ?n = "unat (cp_sequence p)" and ?spine = "cs_spine s" and ?cp = "unat (cs_checkpoint s)"
  let ?later = "take ?n ?spine"
  consider "cp_store_id p \<noteq> cs_store_id s" | "cp_store_id p = cs_store_id s" "cp_thread_id p \<noteq> cs_thread_id s"
    | "store_owner s = (cp_store_id p, cp_thread_id p)" by (metis store_owner_def)
  then show ?thesis
  proof cases
    case 3
    then have own: "cp_store_id p = cs_store_id s" "cp_thread_id p = cs_thread_id s" by (simp_all add: store_owner_def)
    have later: "prefix ?later ?spine" "?n \<le> length ?spine \<Longrightarrow> length ?later = ?n" by (simp_all add: take_is_prefix)
    consider "?n \<le> ?cp" | "?cp < ?n" "length ?spine < ?n" | "?cp < ?n" "?n \<le> length ?spine" by linarith
    then show ?thesis
    proof cases
      case 1
      then show ?thesis using store_next.Rollback [OF 3 1] by (simp add: accept_head_def own store_abs_def word_le_nat_alt)
    next
      case 2
      then show ?thesis using store_next.Beyond [OF 3 2]
        by (simp add: accept_head_def own store_abs_def word_le_nat_alt committed_head_at_prefix)
    next
      case within: 3
      then have "0 < ?n" "?later \<noteq> []" by auto
      then show ?thesis
        using within store_next.Anchor [OF 3 later(1), of ?cp] store_next.Fork [OF 3 later(1), of ?cp] later(2)
        by (auto simp: accept_head_def own store_abs_def word_le_nat_alt committed_head_at_prefix spine_head_def)
    qed
  qed (use store_next.OtherStore [of "store_owner s" p] store_next.OtherThread [of "store_owner s" p]
    in \<open>auto simp: accept_head_def store_owner_def\<close>)
qed

lemma chain_step:
  assumes "store_wf (Suc room) s"
  shows "store_next (store_owner s) (store_abs s) (oper, snd (chain_exec oper s)) (store_abs (fst (chain_exec oper s)))"
    "store_wf room (fst (chain_exec oper s))" "prefix (cs_spine s) (cs_spine (fst (chain_exec oper s)))"
    "unat (cs_checkpoint s) \<le> unat (cs_checkpoint (fst (chain_exec oper s)))"
    "store_owner (fst (chain_exec oper s)) = store_owner s"
proof -
  have len: "unat (chain_len s) = length (cs_spine s)" using assms by (simp add: store_wf_def unat_chain_len)
  show "store_next (store_owner s) (store_abs s) (oper, snd (chain_exec oper s)) (store_abs (fst (chain_exec oper s)))"
    using append_step [OF assms] accept_step len store_next.Raise [of "unat (cs_checkpoint s)" "cs_spine s"]
      store_next.Keep [of "cs_spine s" "unat (cs_checkpoint s)"]
    by (cases oper) (auto simp: advance_checkpoint_def store_abs_def word_less_nat_alt)
  show "store_wf room (fst (chain_exec oper s))" "prefix (cs_spine s) (cs_spine (fst (chain_exec oper s)))"
    "unat (cs_checkpoint s) \<le> unat (cs_checkpoint (fst (chain_exec oper s)))" "store_owner (fst (chain_exec oper s)) = store_owner s"
    using assms len
    by (cases oper; auto simp: append_cas_def advance_checkpoint_def accept_head_def store_owner_def store_wf_def Let_def
        word_less_nat_alt word_le_nat_alt committed_head_at_prefix split: option.splits if_splits)+
qed

lemma chain_steps:
  "store_wf (length ops + room) s \<Longrightarrow>
     store_run (store_owner s) (store_abs s) (zip ops (chain_replies ops s)) (store_abs (chain_run ops s)) \<and>
     store_wf room (chain_run ops s) \<and> prefix (cs_spine s) (cs_spine (chain_run ops s)) \<and>
     unat (cs_checkpoint s) \<le> unat (cs_checkpoint (chain_run ops s)) \<and> store_owner (chain_run ops s) = store_owner s"
proof (induction ops arbitrary: s)
  case (Cons oper ops)
  then have step: "store_wf (Suc (length ops + room)) s" by simp
  with Cons.IH [OF chain_step(2) [OF step, of oper]] chain_step [OF step, of oper] show ?case
    by (auto intro: store_run.Step prefix_order.trans order_trans)
qed (simp add: store_run.Nothing)

lemma store_wf_new: "room < 2 ^ 64 \<Longrightarrow> store_wf room (chain_new store thread)"
  by (simp add: store_wf_def chain_new_def)

lemma committed_head_stays:
  assumes "prefix (cs_spine s) (cs_spine t)" "unat n \<le> length (cs_spine s)"
  shows "committed_head_at t n = committed_head_at s n"
  using assms by (auto simp: committed_head_at_prefix prefix_def)

text \<open>What a positive answer says, at the time it is given.\<close>

lemma reply_committed:
  assumes "store_wf (Suc room) s" "chain_exec (OpAppend expected r) s = (s', Appended (Committed n r'))"
  shows "r' = r" "unat n = length (cs_spine s')" "committed_head_at s' n = Some r" "committed_head_at s' (n - 1) = expected" "n \<noteq> 0"
proof -
  from assms(2) have eqs: "expected = spine_head (cs_spine s)" "s' = s\<lparr>cs_spine := cs_spine s @ [r]\<rparr>" "r' = r" "n = chain_len s'"
    by (auto simp: append_cas_def Let_def chain_head_spine split: if_splits)
  show "r' = r" by (rule eqs)
  show n: "unat n = length (cs_spine s')" using assms(1) eqs unat_chain_len [of s'] by (simp add: store_wf_def)
  then show "n \<noteq> 0" using eqs by auto
  then have "unat (n - 1) = length (cs_spine s)" using n eqs(2) by (simp add: unat_pred word_gt_0_unat)
  then show "committed_head_at s' n = Some r" "committed_head_at s' (n - 1) = expected"
    using n eqs by (simp_all add: committed_head_at_prefix spine_head_def)
qed

lemma reply_accepted:
  assumes "chain_exec (OpAccept p) s = (s', Presented (Accepted n))"
  shows "n = cp_sequence p" "committed_head_at s' n = Some (cp_head p)" "cs_checkpoint s' = n" "unat n \<le> length (cs_spine s')"
  using assms by (auto simp: accept_head_def committed_head_at_prefix split: option.splits if_splits)

text \<open>C39. The chain store implements its state machine. Every sequence of appends, advances and presented heads, with the
  answers it gets, is a run of the abstract machine, which is deterministic. Along it the spine only grows at its end,
  the checkpoint only rises and never passes the spine, and a head once anchored is the committed head at its
  sequence for ever. A record whose append was answered as committed stands for ever right behind the head its
  proposer expected, so that a proposal on any other head never gets in, and a presented head is accepted only when it is the one
  committed at its sequence, so that no presentation forks the store or rolls it back.\<close>

theorem chain_store_refines_spec:
  assumes "length (ops @ oper # ops') < 2 ^ 64" and "s = chain_run ops (chain_new store thread)"
    and "chain_exec oper s = (s', reply)" and "t = chain_run ops' s'"
  shows "store_run (store, thread) ([], 0)
      (zip (ops @ oper # ops') (chain_replies (ops @ oper # ops') (chain_new store thread))) (store_abs t) \<and>
    prefix (cs_spine s) (cs_spine t) \<and> cs_checkpoint s \<le> cs_checkpoint t \<and> cs_checkpoint t \<le> chain_len t \<and>
    (\<forall>cp. protected_checkpoint s = Some cp \<longrightarrow> committed_head_at t (cp_sequence cp) = Some (cp_head cp)) \<and>
    (\<forall>expected r n r'. oper = OpAppend expected r \<and> reply = Appended (Committed n r') \<longrightarrow>
       0 < n \<and> r' = r \<and> committed_head_at t (n - 1) = expected \<and> committed_head_at t n = Some r) \<and>
    (\<forall>p n. oper = OpAccept p \<and> reply = Presented (Accepted n) \<longrightarrow>
       n = cp_sequence p \<and> n \<le> cs_checkpoint t \<and> committed_head_at t n = Some (cp_head p))"
proof -
  let ?new = "chain_new store thread"
  have t: "t = chain_run (ops @ oper # ops') ?new" using assms(2-4) by simp
  have run: "store_run (store, thread) ([], 0) (zip (ops @ oper # ops') (chain_replies (ops @ oper # ops') ?new)) (store_abs t)"
    "store_wf 0 t"
    unfolding t using chain_steps [of "ops @ oper # ops'" 0 ?new] store_wf_new assms(1)
    by (simp_all add: store_abs_def store_owner_def chain_new_def)
  have wf: "store_wf (Suc (length ops')) s"
    unfolding assms(2) using chain_steps [of ops "Suc (length ops')" ?new] store_wf_new [of "length ops + Suc (length ops')"] assms(1) by simp
  note step = chain_step [OF wf, of oper, unfolded assms(3) fst_conv snd_conv]
  from step(2) chain_steps [of ops' 0 s'] have later: "prefix (cs_spine s') (cs_spine t)" "unat (cs_checkpoint s') \<le> unat (cs_checkpoint t)"
    unfolding assms(4) by simp_all
  have all: "prefix (cs_spine s) (cs_spine t)" "unat (cs_checkpoint s) \<le> unat (cs_checkpoint t)"
    using step(3,4) later by (auto intro: prefix_order.trans)
  have "committed_head_at t (cp_sequence cp) = Some (cp_head cp)" if "protected_checkpoint s = Some cp" for cp
    using that committed_head_stays [OF all(1), of "cs_checkpoint s"] wf
    by (auto simp: protected_checkpoint_def store_wf_def split: option.splits)
  moreover have "0 < n \<and> r' = r \<and> committed_head_at t (n - 1) = expected \<and> committed_head_at t n = Some r"
    if "oper = OpAppend expected r" "reply = Appended (Committed n r')" for expected r n r'
  proof -
    note said = reply_committed [OF wf assms(3) [unfolded that]]
    have "unat (n - 1) \<le> length (cs_spine s')" using said(2,5) by (simp add: unat_pred word_gt_0_unat)
    then show ?thesis using said committed_head_stays [OF later(1)] by (simp add: word_neq_0_conv)
  qed
  moreover have "n = cp_sequence p \<and> n \<le> cs_checkpoint t \<and> committed_head_at t n = Some (cp_head p)"
    if "oper = OpAccept p" "reply = Presented (Accepted n)" for p n
    using reply_accepted [OF assms(3) [unfolded that]] committed_head_stays [OF later(1)] later(2) by (simp add: word_le_nat_alt)
  ultimately show ?thesis
    using run all unat_chain_len [of t] by (auto simp: store_wf_def word_le_nat_alt)
qed

text \<open>The head a proposer read when the spine was \<open>k\<close> records long.\<close>

definition head_read :: "LineCid list \<Rightarrow> nat \<Rightarrow> LineCid option" where
  "head_read spine k = (if k = 0 then None else Some (spine ! (k - 1)))"

text \<open>The compare-and-swap is one on the length. On a spine without repeated identifiers a proposal
  based on the head at length \<open>k\<close> commits exactly when the spine is still \<open>k\<close> long, is told to retry when
  it has grown since, and an identifier the spine never had is rejected; only a commit changes the store.
  Without that uniqueness, which the store itself does not check, a stale proposal can commit.\<close>

theorem cas_is_on_length:
  assumes "distinct (cs_spine s)" and "k \<le> length (cs_spine s)"
  shows "(k = length (cs_spine s) \<longrightarrow> append_cas (head_read (cs_spine s) k) r s =
       (s\<lparr>cs_spine := cs_spine s @ [r]\<rparr>, Committed (chain_len s + 1) r)) \<and>
    (k < length (cs_spine s) \<longrightarrow> append_cas (head_read (cs_spine s) k) r s = (s, CasLost (chain_head s))) \<and>
    (x \<notin> set (cs_spine s) \<longrightarrow> append_cas (Some x) r s = (s, AppendRejected (chain_head s))) \<and>
    (\<exists>t j. j < length (cs_spine t) \<and>
       append_cas (head_read (cs_spine t) j) r t = (t\<lparr>cs_spine := cs_spine t @ [r]\<rparr>, Committed (chain_len t + 1) r))"
proof -
  have head: "chain_head s = head_read (cs_spine s) (length (cs_spine s))"
    by (simp add: chain_head_def head_read_def last_conv_nth)
  have "head_read (cs_spine s) k = chain_head s \<longleftrightarrow> k = length (cs_spine s)"
    unfolding head using assms by (auto simp: head_read_def nth_eq_iff_index_eq split: if_splits)
  moreover have "is_prior_head s (head_read (cs_spine s) k)" if "k < length (cs_spine s)"
    using that by (auto simp: is_prior_head_def head_read_def)
  moreover have "Some x \<noteq> chain_head s" if "x \<notin> set (cs_spine s)"
    using that by (auto simp: chain_head_def)
  moreover have "append_cas (head_read [LineCid 0, LineCid 0] 1) r (chain_new (StoreId 0) (ThreadId 0)\<lparr>cs_spine := [LineCid 0, LineCid 0]\<rparr>) =
      (chain_new (StoreId 0) (ThreadId 0)\<lparr>cs_spine := [LineCid 0, LineCid 0] @ [r]\<rparr>, Committed (2 + 1) r)"
    by (simp add: append_cas_def head_read_def chain_head_def chain_len_def)
  then have "\<exists>t j. j < length (cs_spine t) \<and>
       append_cas (head_read (cs_spine t) j) r t = (t\<lparr>cs_spine := cs_spine t @ [r]\<rparr>, Committed (chain_len t + 1) r)"
    by (intro exI [of _ "chain_new (StoreId 0) (ThreadId 0)\<lparr>cs_spine := [LineCid 0, LineCid 0]\<rparr>"] exI [of _ 1])
      (simp add: chain_len_def)
  ultimately show ?thesis
    by (auto simp: append_cas_def Let_def chain_len_def is_prior_head_def add.commute)
qed

subsection \<open>Verification of signed objects\<close>

text \<open>All the steps at once, as a reference for the ordered ones.\<close>

definition envelope_acceptable :: "Profile \<Rightarrow> ('env, 'uns) SignedEnvelopeCodec \<Rightarrow> CryptoBoundary \<Rightarrow> 'env \<Rightarrow> bool" where
  "envelope_acceptable profile c crypto envelope =
     (let u = ec_unsigned c envelope in
      ec_profile_version c u = pr_version profile \<and> allows_hash profile (ec_hash_algorithm c u) \<and>
      allows_signature profile (ec_signature_algorithm c u) \<and> allows_codec profile (ec_codec c u) \<and>
      cb_signature_matches crypto (ec_signature_algorithm c u) (signature_preimage c u) (ec_signature_bytes c envelope) \<and>
      ec_claimed_cid c u = cb_digest crypto (ec_hash_algorithm c u) (ec_body c u) \<and>
      ec_body_binding c u = \<lparr>db_profile_version = ec_profile_version c u, db_codec = ec_codec c u, db_signer = ec_signer c u\<rparr> \<and>
      ec_unknown_critical c u = [])"

definition verified_of :: "Profile \<Rightarrow> ('env, 'uns) SignedEnvelopeCodec \<Rightarrow> 'env \<Rightarrow> 'env VerifiedEnvelope" where
  "verified_of profile c envelope =
     (let u = ec_unsigned c envelope in
      \<lparr>ve_envelope = envelope, ve_profile = profile, ve_allowed_hash = ec_hash_algorithm c u,
       ve_allowed_signature = ec_signature_algorithm c u, ve_allowed_codec = ec_codec c u,
       ve_preimage = signature_preimage c u\<rparr>)"

lemma verify_envelope_iff:
  "verify_envelope profile c crypto received = Inr v \<longleftrightarrow>
     (\<exists>envelope. ec_decode c received = Some envelope \<and> ec_encode c envelope = received \<and>
        envelope_acceptable profile c crypto envelope \<and> v = verified_of profile c envelope)"
proof (cases "ec_decode c received")
  case (Some envelope)
  then show ?thesis
    by (auto simp: verify_envelope_def envelope_acceptable_def verified_of_def Let_def admit_hash_def
        admit_signature_def admit_codec_def)
qed (simp add: verify_envelope_def)

lemma load_envelope_iff:
  "load_envelope profile c crypto d received = Inr s \<longleftrightarrow>
     (\<exists>v. verify_envelope profile c crypto received = Inr v \<and> parse_verified d v = Inr s)"
  by (cases "verify_envelope profile c crypto received") (simp_all add: load_envelope_def)

lemma parse_verified_iff:
  "parse_verified d v = Inr s \<longleftrightarrow>
     (\<exists>value. pd_parse d (sp_body (ve_preimage v)) = Some value \<and> pd_encode d value = sp_body (ve_preimage v) \<and>
        s = \<lparr>sl_verified = v, sl_value = value\<rparr>)"
  by (auto simp: parse_verified_def Let_def split: option.splits)

lemma verified_body: "sp_body (ve_preimage (verified_of profile c envelope)) = ec_body c (ec_unsigned c envelope)"
  by (simp add: verified_of_def signature_preimage_def Let_def)

lemma allowlist_before_crypto:
  assumes "verify_envelope profile c crypto received = Inl e"
    and "e \<in> {Undecodable, NonCanonicalEnvelope, VersionMismatch, HashNotAllowed, SignatureAlgNotAllowed, CodecNotAllowed}"
  shows "verify_envelope profile c crypto' received = Inl e"
  using assms by (auto simp: verify_envelope_def Let_def split: option.splits if_splits)

text \<open>C40. A sealed object is what was signed. Loading succeeds under an admitted profile exactly for
  bytes that are the canonical encoding of an envelope that is version 1, names BLAKE3, Ed25519 and
  DAG-CBOR, carries a signature over the preimage of all ten fields and the content identifier of its
  body, agrees with the tuple inside its body, has no unknown critical field, and whose body is the
  canonical encoding of the value; the store it belongs to is its own identifier for a genesis record and
  the declared one otherwise. A refusal over profile or form does not consult the cryptography.\<close>

theorem sealed_object_is_signed:
  assumes "trusted_admit p = Some profile"
  shows "(load_envelope profile c crypto d received = Inr s) =
     (\<exists>envelope u value. ec_decode c received = Some envelope \<and> ec_encode c envelope = received \<and>
        u = ec_unsigned c envelope \<and> ec_profile_version c u = 1 \<and> ec_hash_algorithm c u = Blake3_256 \<and>
        ec_signature_algorithm c u = Ed25519 \<and> ec_codec c u = DagCbor \<and>
        cb_signature_matches crypto Ed25519 (signature_preimage c u) (ec_signature_bytes c envelope) \<and>
        ec_claimed_cid c u = cb_digest crypto Blake3_256 (ec_body c u) \<and>
        ec_body_binding c u = \<lparr>db_profile_version = 1, db_codec = DagCbor, db_signer = ec_signer c u\<rparr> \<and>
        ec_unknown_critical c u = [] \<and> pd_parse d (ec_body c u) = Some value \<and> pd_encode d value = ec_body c u \<and>
        s = \<lparr>sl_verified = verified_of profile_v1 c envelope, sl_value = value\<rparr> \<and>
        effective_store_id (sl_verified s) =
          (if sd_store_id (ec_domain c u) = [0] then cb_digest crypto Blake3_256 (ec_body c u) else sd_store_id (ec_domain c u))) \<and>
   (\<forall>e crypto'. verify_envelope profile c crypto received = Inl e \<longrightarrow>
      e \<in> {Undecodable, NonCanonicalEnvelope, VersionMismatch, HashNotAllowed, SignatureAlgNotAllowed, CodecNotAllowed} \<longrightarrow>
      verify_envelope profile c crypto' received = Inl e)"
proof -
  have p: "profile = profile_v1" using assms by (simp add: trusted_admit_def split: if_splits)
  have acc: "envelope_acceptable profile_v1 c crypto envelope \<longleftrightarrow>
     (let u = ec_unsigned c envelope in ec_profile_version c u = 1 \<and> ec_hash_algorithm c u = Blake3_256 \<and>
        ec_signature_algorithm c u = Ed25519 \<and> ec_codec c u = DagCbor \<and>
        cb_signature_matches crypto Ed25519 (signature_preimage c u) (ec_signature_bytes c envelope) \<and>
        ec_claimed_cid c u = cb_digest crypto Blake3_256 (ec_body c u) \<and>
        ec_body_binding c u = \<lparr>db_profile_version = 1, db_codec = DagCbor, db_signer = ec_signer c u\<rparr> \<and>
        ec_unknown_critical c u = [])" for envelope
    by (auto simp: envelope_acceptable_def profile_v1_def allows_hash_def allows_signature_def allows_codec_def Let_def)
  have load: "load_envelope profile_v1 c crypto d received = Inr s \<longleftrightarrow>
     (\<exists>envelope value. ec_decode c received = Some envelope \<and> ec_encode c envelope = received \<and>
        envelope_acceptable profile_v1 c crypto envelope \<and> pd_parse d (ec_body c (ec_unsigned c envelope)) = Some value \<and>
        pd_encode d value = ec_body c (ec_unsigned c envelope) \<and>
        s = \<lparr>sl_verified = verified_of profile_v1 c envelope, sl_value = value\<rparr>)"
    unfolding load_envelope_iff verify_envelope_iff parse_verified_iff by (auto simp: verified_body)
  have store: "effective_store_id (verified_of profile_v1 c envelope) =
      (let u = ec_unsigned c envelope in if sd_store_id (ec_domain c u) = [0] then ec_claimed_cid c u else sd_store_id (ec_domain c u))"
    for envelope
    by (simp add: effective_store_id_def verified_of_def resolve_store_id_def STORE_ID_SELF_def signature_preimage_def Let_def)
  show ?thesis
  proof (intro conjI allI impI)
    fix e crypto'
    assume "verify_envelope profile c crypto received = Inl e"
      "e \<in> {Undecodable, NonCanonicalEnvelope, VersionMismatch, HashNotAllowed, SignatureAlgNotAllowed, CodecNotAllowed}"
    then show "verify_envelope profile c crypto' received = Inl e" by (rule allowlist_before_crypto)
  qed (unfold p load acc Let_def, auto simp: store Let_def)
qed

subsection \<open>Runs\<close>

definition demo_codec :: "(bytes, bytes) SignedEnvelopeCodec" where
  "demo_codec = \<lparr>ec_decode = Some, ec_encode = id, ec_unsigned = id, ec_encode_unsigned = id,
     ec_profile_version = (\<lambda>_. 1), ec_hash_algorithm = (\<lambda>_. Blake3_256), ec_signature_algorithm = (\<lambda>_. Ed25519),
     ec_codec = (\<lambda>_. DagCbor), ec_domain = (\<lambda>_. \<lparr>sd_record_type = ''genesis'', sd_store_id = [0], sd_thread_or_principal = []\<rparr>),
     ec_body = id, ec_claimed_cid = id, ec_signer = (\<lambda>_. []), ec_unknown_critical = (\<lambda>_. []),
     ec_body_binding = (\<lambda>_. \<lparr>db_profile_version = 1, db_codec = DagCbor, db_signer = []\<rparr>), ec_signature_bytes = (\<lambda>_. [])\<rparr>"

definition demo_crypto :: CryptoBoundary where
  "demo_crypto = \<lparr>cb_digest = (\<lambda>_. id), cb_signature_matches = (\<lambda>_ _ _. True)\<rparr>"

definition demo_decoder :: "bytes PayloadDecoder" where
  "demo_decoder = \<lparr>pd_encode = id, pd_parse = Some\<rparr>"

theorem sealed_object_is_signed_witness:
  "load_envelope profile_v1 demo_codec demo_crypto demo_decoder [7] =
     Inr \<lparr>sl_verified = verified_of profile_v1 demo_codec [7], sl_value = [7]\<rparr>"
  using sealed_object_is_signed [of profile_v1 profile_v1 demo_codec demo_crypto demo_decoder "[7]"
      "\<lparr>sl_verified = verified_of profile_v1 demo_codec [7], sl_value = [7]\<rparr>"]
  by (simp add: trusted_admit_def demo_codec_def demo_crypto_def demo_decoder_def effective_store_id_def
      resolve_store_id_def STORE_ID_SELF_def verified_of_def signature_preimage_def Let_def)

theorem resolution_is_greatest_lower_bound_witness:
  "\<exists>a. resolve [TOP, BOTTOM] = Decided a \<and> authority_le a BOTTOM"
  using resolution_is_greatest_lower_bound [of TOP "[BOTTOM]"] by auto

theorem chain_store_refines_spec_witness:
  "committed_head_at (chain_run [OpAppend None (LineCid 7), OpAppend (Some (LineCid 7)) (LineCid 8), OpAdvance]
     (chain_new (StoreId 1) (ThreadId 2))) 2 = Some (LineCid 8)"
proof -
  let ?s = "chain_run [OpAppend None (LineCid 7)] (chain_new (StoreId 1) (ThreadId 2))"
  let ?oper = "OpAppend (Some (LineCid 7)) (LineCid 8)"
  have reply: "snd (chain_exec ?oper ?s) = Appended (Committed 2 (LineCid 8))" by code_simp
  show ?thesis
    using chain_store_refines_spec [OF _ refl prod.collapse [symmetric] refl, of "[OpAppend None (LineCid 7)]" ?oper "[OpAdvance]"
        "StoreId 1" "ThreadId 2"] reply by simp
qed

theorem cas_is_on_length_witness:
  "append_cas None (LineCid 9) (chain_new (StoreId 1) (ThreadId 2)\<lparr>cs_spine := [LineCid 7]\<rparr>) =
     (chain_new (StoreId 1) (ThreadId 2)\<lparr>cs_spine := [LineCid 7]\<rparr>, CasLost (Some (LineCid 7)))"
  using cas_is_on_length [of "chain_new (StoreId 1) (ThreadId 2)\<lparr>cs_spine := [LineCid 7]\<rparr>" 0 "LineCid 9"]
  by (simp add: head_read_def chain_head_def)

end
