(* ===== verification/Shell_Parse.thy ===== *)
theory Shell_Parse
  imports Bridle_Prelude
begin

text \<open>
  The safe-subset command-line parser of the confined shell
  (\<^verbatim>\<open>agent-bridle-tool-shell/src/parse.rs\<close>): words with quotes, escapes, globs and variables,
  redirections, pipelines and separators, and the refusals. The parser reads characters and compares
  them with ASCII ones only, so it is the same function over the bytes of the input; the iterator with
  its lookahead is the rest of the input.
\<close>

subsection \<open>Data\<close>

datatype Refusal = Dynamic string | Unsupported string | Malformed string

definition construct :: "Refusal \<Rightarrow> string" where
  "construct r = (case r of Dynamic c \<Rightarrow> c | Unsupported c \<Rightarrow> c | Malformed _ \<Rightarrow> ''malformed input'')"

definition refusal_display :: "Refusal \<Rightarrow> string" where
  "refusal_display r = (case r of
     Dynamic c \<Rightarrow> ''refused by design: '' @ c @
       '' is a dynamic construct the confined shell does not interpret (use the embedder's unbridled/--yolo path for a full shell)''
   | Unsupported c \<Rightarrow>
       ''not yet supported by the confined shell engine: '' @ c @ '' (tracked on agent-bridle#34)''
   | Malformed why \<Rightarrow> ''malformed command: '' @ why)"

datatype Seg = SegLit string | SegVar string

datatype Arg = ArgLit string | ArgGlob string | ArgVar "Seg list" | ArgVarGlob "Seg list"

datatype Redirect =
    RedStdout "Seg list" bool
  | RedStdin "Seg list"
  | RedStderr "Seg list" bool
  | RedStderrToStdout

record Command =
  cmd_argv :: "Arg list"
  cmd_redirects :: "Redirect list"

type_synonym Pipeline = "Command list"

datatype Sep = SepSeq | SepAnd | SepOr

record ScriptItem =
  it_sep :: Sep
  it_pipeline :: Pipeline

type_synonym Script = "ScriptItem list"

datatype StderrTo = StderrCapture | StderrFile string bool | StderrStdout

subsection \<open>Accessors\<close>

definition seg_literal :: "Seg list \<Rightarrow> string option" where
  "seg_literal segs = (case segs of [SegLit s] \<Rightarrow> Some s | _ \<Rightarrow> None)"

fun find_map :: "('a \<Rightarrow> 'b option) \<Rightarrow> 'a list \<Rightarrow> 'b option" where
  "find_map f [] = None"
| "find_map f (x # xs) = (case f x of Some y \<Rightarrow> Some y | None \<Rightarrow> find_map f xs)"

definition stdin_path :: "Command \<Rightarrow> string option" where
  "stdin_path c = find_map (\<lambda>r. case r of RedStdin path \<Rightarrow> seg_literal path | _ \<Rightarrow> None) (rev (cmd_redirects c))"

definition stdout_redirect :: "Command \<Rightarrow> (string \<times> bool) option" where
  "stdout_redirect c =
     find_map (\<lambda>r. case r of RedStdout path app \<Rightarrow> map_option (\<lambda>p. (p, app)) (seg_literal path) | _ \<Rightarrow> None)
       (rev (cmd_redirects c))"

definition stderr_disposition :: "Command \<Rightarrow> StderrTo" where
  "stderr_disposition c =
     (case find_map (\<lambda>r. case r of
          RedStderr path app \<Rightarrow> map_option (\<lambda>p. StderrFile p app) (seg_literal path)
        | RedStderrToStdout \<Rightarrow> Some StderrStdout
        | _ \<Rightarrow> None) (rev (cmd_redirects c)) of
        None \<Rightarrow> StderrCapture
      | Some d \<Rightarrow> d)"

subsection \<open>Words\<close>

definition white :: "char \<Rightarrow> bool" where
  "white c \<longleftrightarrow> c = CHR '' '' \<or> c = CHR 0x09 \<or> c = CHR 0x0A \<or> c = CHR 0x0D"

definition word_stop :: "char \<Rightarrow> bool" where
  "word_stop c \<longleftrightarrow> c \<in> set ''|&;<>()'' \<or> c = CHR 0x60"

definition skip_whitespace :: "string \<Rightarrow> string" where
  "skip_whitespace s = dropWhile white s"

definition name_start :: "char \<Rightarrow> bool" where
  "name_start c \<longleftrightarrow> c = CHR ''_'' \<or> is_ascii_alphabetic c"

definition name_char :: "char \<Rightarrow> bool" where
  "name_char c \<longleftrightarrow> c = CHR ''_'' \<or> is_ascii_alphanumeric c"

definition is_valid_var_name :: "string \<Rightarrow> bool" where
  "is_valid_var_name name = (case name of [] \<Rightarrow> False | c # cs \<Rightarrow> name_start c \<and> list_all name_char cs)"

definition check_var_name :: "string \<Rightarrow> string \<Rightarrow> Refusal + string \<times> string" where
  "check_var_name name rest =
     (if is_valid_var_name name then Inr (name, rest) else Inl (Unsupported ''unsupported variable name''))"

definition bare_dollar :: Refusal where
  "bare_dollar = Unsupported (''bare `$` (escape as `'' @ [CHR 0x5C] @ ''$` for a literal dollar)'')"

definition read_var_name :: "string \<Rightarrow> Refusal + string \<times> string" where
  "read_var_name s =
     (case s of
        [] \<Rightarrow> Inl bare_dollar
      | c # rest \<Rightarrow>
          if c = CHR ''('' then
            Inl (Dynamic (if rest \<noteq> [] \<and> hd rest = CHR ''('' then ''arithmetic expansion `$((`'' else ''command substitution `$(`''))
          else if c = CHR ''{'' then
            (case split_once CHR ''}'' rest of
               None \<Rightarrow> Inl (Malformed ''unterminated `${`'')
             | Some (name, rest') \<Rightarrow> check_var_name name rest')
          else if name_start c then check_var_name (takeWhile name_char s) (dropWhile name_char s)
          else Inl bare_dollar)"

datatype quoting = Plain | Single | Double

record word_state =
  ws_cur :: string
  ws_segs :: "Seg list"
  ws_glob :: bool

definition push_char :: "char \<Rightarrow> word_state \<Rightarrow> word_state" where
  "push_char c w = w\<lparr>ws_cur := ws_cur w @ [c]\<rparr>"

definition push_var :: "string \<Rightarrow> word_state \<Rightarrow> word_state" where
  "push_var name w =
     w\<lparr>ws_cur := [], ws_segs := ws_segs w @ (if ws_cur w \<noteq> [] then [SegLit (ws_cur w)] else []) @ [SegVar name]\<rparr>"

definition finish_word :: "word_state \<Rightarrow> Arg" where
  "finish_word w =
     (if ws_segs w = [] then (if ws_glob w then ArgGlob (ws_cur w) else ArgLit (ws_cur w))
      else
       (let segs = ws_segs w @ (if ws_cur w \<noteq> [] then [SegLit (ws_cur w)] else [])
        in if ws_glob w then ArgVarGlob segs else ArgVar segs))"

definition inert :: "char \<Rightarrow> bool" where
  "inert c \<longleftrightarrow> \<not> white c \<and> \<not> word_stop c"

lemma name_char_inert: "name_char c \<Longrightarrow> inert c"
  by (auto simp: inert_def name_char_def white_def word_stop_def is_ascii_alphanumeric_def is_ascii_digit_def is_ascii_alphabetic_def)

lemma name_start_char: "name_start c \<Longrightarrow> name_char c"
  by (auto simp: name_start_def name_char_def is_ascii_alphanumeric_def)

lemma valid_name_chars: "is_valid_var_name name \<Longrightarrow> list_all name_char name"
  by (auto simp: is_valid_var_name_def name_start_char split: list.splits)

lemma valid_name_inert: "is_valid_var_name name \<Longrightarrow> list_all inert name"
  using valid_name_chars name_char_inert by (auto simp: list_all_iff)

lemma read_var_name_split:
  assumes "read_var_name s = Inr (name, rest)"
  shows "\<exists>used. s = used @ rest \<and> used \<noteq> [] \<and> list_all inert used \<and> is_valid_var_name name"
proof (cases s)
  case (Cons c cs)
  consider n where "c = CHR ''{''" "split_once CHR ''}'' cs = Some (n, rest)" "name = n" "is_valid_var_name n"
    | "name_start c" "name = takeWhile name_char s" "rest = dropWhile name_char s" "is_valid_var_name name"
    using assms Cons by (auto simp: read_var_name_def check_var_name_def split: if_splits option.splits)
  then show ?thesis
  proof cases
    case 1
    then have "s = (CHR ''{'' # n @ ''}'') @ rest" using split_once_SomeD [OF 1(2)] Cons by simp
    moreover have "list_all inert (CHR ''{'' # n @ ''}'')"
      using valid_name_inert [OF 1(4)] by (simp add: inert_def white_def word_stop_def)
    ultimately show ?thesis using 1 by blast
  next
    case 2
    then have "s = takeWhile name_char s @ rest" "takeWhile name_char s \<noteq> []"
      using Cons name_start_char by simp_all
    then show ?thesis using 2 valid_name_inert by blast
  qed
qed (use assms in \<open>simp add: read_var_name_def\<close>)

lemma read_var_name_shorter: "read_var_name s = Inr (name, rest) \<Longrightarrow> length rest < length s"
  using read_var_name_split by fastforce

function read_word_from :: "quoting \<Rightarrow> word_state \<Rightarrow> string \<Rightarrow> Refusal + Arg \<times> string" where
  "read_word_from Plain w [] = Inr (finish_word w, [])"
| "read_word_from Plain w (c # s) =
     (if white c \<or> word_stop c then Inr (finish_word w, c # s)
      else if c = CHR ''$'' then
        (case read_var_name s of Inl e \<Rightarrow> Inl e | Inr (name, rest) \<Rightarrow> read_word_from Plain (push_var name w) rest)
      else if c = CHR ''*'' \<or> c = CHR ''?'' \<or> c = CHR ''['' then
        read_word_from Plain (push_char c w\<lparr>ws_glob := True\<rparr>) s
      else if c = CHR 0x27 then read_word_from Single w s
      else if c = CHR 0x22 then read_word_from Double w s
      else if c = CHR 0x5C then
        (case s of [] \<Rightarrow> Inl (Malformed ''trailing backslash'') | n # s' \<Rightarrow> read_word_from Plain (push_char n w) s')
      else read_word_from Plain (push_char c w) s)"
| "read_word_from Single w [] = Inl (Malformed ''unterminated single quote'')"
| "read_word_from Single w (c # s) =
     (if c = CHR 0x27 then read_word_from Plain w s else read_word_from Single (push_char c w) s)"
| "read_word_from Double w [] = Inl (Malformed ''unterminated double quote'')"
| "read_word_from Double w (c # s) =
     (if c = CHR 0x22 then read_word_from Plain w s
      else if c = CHR 0x5C then
        (case s of
           n # s' \<Rightarrow>
             if n = CHR 0x22 \<or> n = CHR 0x5C \<or> n = CHR ''$'' \<or> n = CHR 0x60 then read_word_from Double (push_char n w) s'
             else read_word_from Double (push_char CHR 0x5C w) s
         | [] \<Rightarrow> read_word_from Double (push_char CHR 0x5C w) s)
      else if c = CHR ''$'' then
        (case read_var_name s of Inl e \<Rightarrow> Inl e | Inr (name, rest) \<Rightarrow> read_word_from Double (push_var name w) rest)
      else if c = CHR 0x60 then Inl (Dynamic ''command substitution (backticks)'')
      else read_word_from Double (push_char c w) s)"
  by pat_completeness auto
termination
  by (relation "measure (\<lambda>(q, w, s). length s)") (auto dest: read_var_name_shorter)

declare read_word_from.simps [simp del]

definition empty_word :: word_state where
  "empty_word = \<lparr>ws_cur = [], ws_segs = [], ws_glob = False\<rparr>"

definition read_word :: "string \<Rightarrow> Refusal + Arg \<times> string" where
  "read_word s = read_word_from Plain empty_word s"

text \<open>The rounds of a reading that succeeds, one case per kind of character: the induction rule of the facts below.\<close>

definition literal_in :: "quoting \<Rightarrow> char \<Rightarrow> bool" where
  "literal_in q c = (case q of
     Plain \<Rightarrow> inert c \<and> c \<notin> {CHR ''$'', CHR ''*'', CHR ''?'', CHR ''['', CHR 0x27, CHR 0x22, CHR 0x5C}
   | Single \<Rightarrow> c \<noteq> CHR 0x27
   | Double \<Rightarrow> c \<notin> {CHR 0x22, CHR 0x5C, CHR ''$'', CHR 0x60})"

definition escapable :: "quoting \<Rightarrow> char \<Rightarrow> bool" where
  "escapable q c = (case q of
     Plain \<Rightarrow> True | Single \<Rightarrow> False | Double \<Rightarrow> c \<in> {CHR 0x22, CHR 0x5C, CHR ''$'', CHR 0x60})"

definition mark_of :: "quoting \<Rightarrow> char" where
  "mark_of q = (if q = Double then CHR 0x22 else CHR 0x27)"

lemma read_word_from_induct [consumes 1, case_names stop var glob opened closed escape backslash literal]:
  assumes read: "read_word_from q w s = Inr (a, rest)"
    and stop: "\<And>w s. s = [] \<or> \<not> inert (hd s) \<Longrightarrow> P Plain w s (finish_word w) s"
    and var: "\<And>q w s name r a rest. q \<noteq> Single \<Longrightarrow> read_var_name s = Inr (name, r) \<Longrightarrow>
        P q (push_var name w) r a rest \<Longrightarrow> P q w (CHR ''$'' # s) a rest"
    and glob: "\<And>w c s a rest. c \<in> {CHR ''*'', CHR ''?'', CHR ''[''} \<Longrightarrow>
        P Plain (push_char c w\<lparr>ws_glob := True\<rparr>) s a rest \<Longrightarrow> P Plain w (c # s) a rest"
    and opened: "\<And>q w s a rest. q \<noteq> Plain \<Longrightarrow> P q w s a rest \<Longrightarrow> P Plain w (mark_of q # s) a rest"
    and closed: "\<And>q w s a rest. q \<noteq> Plain \<Longrightarrow> P Plain w s a rest \<Longrightarrow> P q w (mark_of q # s) a rest"
    and escape: "\<And>q w n s a rest. escapable q n \<Longrightarrow> P q (push_char n w) s a rest \<Longrightarrow>
        P q w (CHR 0x5C # n # s) a rest"
    and backslash: "\<And>w s a rest. s = [] \<or> \<not> escapable Double (hd s) \<Longrightarrow>
        P Double (push_char CHR 0x5C w) s a rest \<Longrightarrow> P Double w (CHR 0x5C # s) a rest"
    and literal: "\<And>q w c s a rest. literal_in q c \<Longrightarrow> P q (push_char c w) s a rest \<Longrightarrow> P q w (c # s) a rest"
  shows "P q w s a rest"
  using read
proof (induction q w s rule: read_word_from.induct)
  case (1 w)
  then show ?case using stop [of "[]" w] by (simp add: read_word_from.simps)
next
  case (2 w c s)
  consider "\<not> inert c" | "inert c" "c = CHR ''$''" | "inert c" "c \<in> {CHR ''*'', CHR ''?'', CHR ''[''}"
    | "inert c" "c = mark_of Single" | "inert c" "c = mark_of Double" | "inert c" "c = CHR 0x5C"
    | "literal_in Plain c"
    by (auto simp: literal_in_def mark_of_def)
  then show ?case
  proof cases
    case 1
    with "2.prems" show ?thesis using stop [of "c # s" w] by (auto simp: read_word_from.simps inert_def)
  next
    case 2
    with "2.prems" "2.IH"(1) show ?thesis
      by (auto simp: read_word_from.simps inert_def intro!: var split: sum.splits)
  next
    case 3
    with "2.prems" "2.IH"(2) show ?thesis
      by (intro glob) (auto simp: read_word_from.simps inert_def)
  next
    case 4
    with "2.prems" "2.IH"(3) opened [of Single] show ?thesis
      by (simp add: read_word_from.simps inert_def mark_of_def)
  next
    case 5
    with "2.prems" "2.IH"(4) opened [of Double] show ?thesis
      by (simp add: read_word_from.simps inert_def mark_of_def)
  next
    case 6
    with "2.prems" "2.IH"(5) escape [of Plain] show ?thesis
      by (auto simp: read_word_from.simps inert_def escapable_def split: list.splits)
  next
    case 7
    then have "read_word_from Plain (push_char c w) s = Inr (a, rest)" "P Plain (push_char c w) s a rest"
      using "2.prems" "2.IH"(6) by (auto simp: read_word_from.simps inert_def literal_in_def)
    then show ?thesis using literal [of Plain c] 7 by blast
  qed
next
  case (4 w c s)
  then show ?case
    using closed [of Single] literal [of Single c] by (auto simp: read_word_from.simps mark_of_def literal_in_def split: if_splits)
next
  case (6 w c s)
  consider "c = mark_of Double" | "c = CHR 0x5C" | "c = CHR ''$''" | "c = CHR 0x60" | "literal_in Double c"
    by (auto simp: literal_in_def mark_of_def)
  then show ?case
  proof cases
    case 1
    with "6.prems" "6.IH"(1) closed [of Double] show ?thesis by (simp add: read_word_from.simps mark_of_def)
  next
    case 2
    show ?thesis
    proof (cases s)
      case Nil
      with 2 "6.prems" show ?thesis by (simp add: read_word_from.simps)
    next
      case (Cons n s')
      show ?thesis
      proof (cases "escapable Double n")
        case True
        with 2 Cons "6.prems" "6.IH"(2-4) escape [of Double n] show ?thesis
          by (auto simp: read_word_from.simps escapable_def)
      next
        case False
        with 2 Cons "6.prems" "6.IH"(2-4) backslash [of s] show ?thesis
          by (auto simp: read_word_from.simps escapable_def)
      qed
    qed
  next
    case 3
    with "6.prems" "6.IH"(5) show ?thesis
      by (auto simp: read_word_from.simps intro!: var split: sum.splits)
  next
    case 4
    with "6.prems" show ?thesis by (simp add: read_word_from.simps)
  next
    case 5
    with "6.prems" "6.IH"(6) literal [of Double c] show ?thesis by (simp add: read_word_from.simps literal_in_def)
  qed
qed (simp_all add: read_word_from.simps)

lemma read_word_from_suffix: "read_word_from q w s = Inr (a, rest) \<Longrightarrow> suffix rest s"
proof (induction rule: read_word_from_induct)
  case (var q w s name r a rest)
  then show ?case using read_var_name_split [OF var(2)] by (auto simp: suffix_def)
qed (simp_all add: suffix_ConsI)

lemma read_word_shorter:
  assumes "read_word (c # s) = Inr (a, rest)" "inert c"
  shows "length rest < length (c # s)"
proof -
  have le: "read_word_from q w t = Inr (a, rest) \<Longrightarrow> length rest \<le> length t" for q w t
    using read_word_from_suffix suffix_length_le by blast
  show ?thesis
    using assms unfolding read_word_def inert_def
    by (subst (asm) read_word_from.simps)
      (fastforce split: if_splits sum.splits list.splits dest: le read_var_name_shorter)
qed

subsection \<open>Redirections\<close>

definition peek_is :: "char \<Rightarrow> string \<Rightarrow> bool" where
  "peek_is c s \<longleftrightarrow> (case s of [] \<Rightarrow> False | x # _ \<Rightarrow> x = c)"

definition read_redirect_target :: "string \<Rightarrow> Refusal + Seg list \<times> string" where
  "read_redirect_target s0 =
     (let s = skip_whitespace s0 in
      if s = [] \<or> hd s \<in> set ''|&;<>()'' then Inl (Malformed ''missing redirection target'')
      else (case read_word s of
          Inl e \<Rightarrow> Inl e
        | Inr (ArgLit w, rest) \<Rightarrow> if w \<noteq> [] then Inr ([SegLit w], rest) else Inl (Malformed ''empty redirection target'')
        | Inr (ArgGlob _, rest) \<Rightarrow> Inl (Unsupported ''glob in a redirection target'')
        | Inr (ArgVarGlob _, rest) \<Rightarrow> Inl (Unsupported ''glob in a redirection target'')
        | Inr (ArgVar segs, rest) \<Rightarrow> Inr (segs, rest)))"

text \<open>\<^verbatim>\<open>read_fd_redirect\<close> on the input from the redirection operator on.\<close>

definition read_fd_redirect :: "string \<Rightarrow> string \<Rightarrow> Refusal + Redirect \<times> string" where
  "read_fd_redirect fd s =
     (if peek_is CHR ''<'' s then
       (let s1 = tl s in
        if fd \<noteq> ''0'' then Inl (Unsupported ''fd-number input redirection'')
        else if peek_is CHR ''<'' s1 then Inl (Unsupported ''heredoc/herestring `<<`'')
        else if peek_is CHR ''&'' s1 then Inl (Unsupported ''`<&` (fd duplication)'')
        else (case read_redirect_target s1 of Inl e \<Rightarrow> Inl e | Inr (path, rest) \<Rightarrow> Inr (RedStdin path, rest)))
      else
       (let s1 = tl s; app = peek_is CHR ''>'' s1; s2 = (if app then tl s1 else s1) in
        if peek_is CHR ''&'' s2 then
          (if fd = ''2'' \<and> takeWhile is_ascii_digit (tl s2) = ''1''
           then Inr (RedStderrToStdout, dropWhile is_ascii_digit (tl s2))
           else Inl (Unsupported ''fd duplication (only `2>&1` is supported)''))
        else (case read_redirect_target s2 of
            Inl e \<Rightarrow> Inl e
          | Inr (path, rest) \<Rightarrow>
              if fd = ''1'' then Inr (RedStdout path app, rest)
              else if fd = ''2'' then Inr (RedStderr path app, rest)
              else Inl (Unsupported ''fd-number redirection (only 1>, 2>, 0<, 2>&1)''))))"

subsection \<open>Scripts\<close>

record parse_state =
  ps_script :: Script
  ps_pending :: Sep
  ps_stages :: "Command list"
  ps_argv :: "Arg list"
  ps_redirects :: "Redirect list"

definition stage_of :: "parse_state \<Rightarrow> Command" where
  "stage_of st = \<lparr>cmd_argv = ps_argv st, cmd_redirects = ps_redirects st\<rparr>"

definition finalize_pipeline :: "parse_state \<Rightarrow> Refusal + (parse_state \<times> Pipeline option)" where
  "finalize_pipeline st =
     (if ps_argv st = [] then
        (if ps_stages st \<noteq> [] then Inl (Malformed ''empty pipeline stage (nothing after `|`)'')
         else if ps_redirects st \<noteq> [] then Inl (Malformed ''redirection without a command'')
         else Inr (st, None))
      else Inr (st\<lparr>ps_stages := [], ps_argv := [], ps_redirects := []\<rparr>, Some (ps_stages st @ [stage_of st])))"

definition push_pipeline :: "Sep \<Rightarrow> parse_state \<Rightarrow> Refusal + parse_state" where
  "push_pipeline next_sep st =
     (case finalize_pipeline st of
        Inl e \<Rightarrow> Inl e
      | Inr (st', None) \<Rightarrow> Inl (Malformed ''empty command around a separator (`&&`/`||`/`;`)'')
      | Inr (st', Some p) \<Rightarrow>
          Inr (st'\<lparr>ps_script := ps_script st' @ [\<lparr>it_sep = ps_pending st', it_pipeline = p\<rparr>], ps_pending := next_sep\<rparr>))"

definition push_stage :: "parse_state \<Rightarrow> Refusal + parse_state" where
  "push_stage st =
     (if ps_argv st = [] then Inl (Malformed ''empty pipeline stage (nothing before `|`)'')
      else Inr (st\<lparr>ps_stages := ps_stages st @ [stage_of st], ps_argv := [], ps_redirects := []\<rparr>))"

definition push_redirect :: "Redirect \<Rightarrow> parse_state \<Rightarrow> parse_state" where
  "push_redirect r st = st\<lparr>ps_redirects := ps_redirects st @ [r]\<rparr>"

definition push_arg :: "Arg \<Rightarrow> parse_state \<Rightarrow> parse_state" where
  "push_arg a st = st\<lparr>ps_argv := ps_argv st @ [a]\<rparr>"

definition is_fd :: "Arg \<Rightarrow> string \<Rightarrow> bool" where
  "is_fd a rest = (case a of
     ArgLit w \<Rightarrow> w \<noteq> [] \<and> list_all is_ascii_digit w \<and> (peek_is CHR ''>'' rest \<or> peek_is CHR ''<'' rest)
   | _ \<Rightarrow> False)"

definition arg_text :: "Arg \<Rightarrow> string" where
  "arg_text a = (case a of ArgLit w \<Rightarrow> w | _ \<Rightarrow> [])"

text \<open>One round of the loop, on an input that starts with the character that decides it.\<close>

definition parse_token :: "parse_state \<Rightarrow> char \<Rightarrow> string \<Rightarrow> Refusal + parse_state \<times> string" where
  "parse_token st c s =
     (if c = CHR ''|'' then
        (if peek_is CHR ''|'' s then map_sum id (\<lambda>st'. (st', tl s)) (push_pipeline SepOr st)
         else map_sum id (\<lambda>st'. (st', s)) (push_stage st))
      else if c = CHR ''&'' then
        (if peek_is CHR ''&'' s then map_sum id (\<lambda>st'. (st', tl s)) (push_pipeline SepAnd st)
         else Inl (Unsupported ''background `&`''))
      else if c = CHR '';'' then map_sum id (\<lambda>st'. (st', s)) (push_pipeline SepSeq st)
      else if c = CHR ''('' \<or> c = CHR '')'' then Inl (Dynamic ''subshell `( )`'')
      else if c = CHR 0x60 then Inl (Dynamic ''command substitution (backticks)'')
      else if c = CHR ''>'' then
        (let app = peek_is CHR ''>'' s; s1 = (if app then tl s else s) in
         if peek_is CHR ''&'' s1 then Inl (Unsupported ''`>&` (fd duplication)'')
         else map_sum id (\<lambda>(path, rest). (push_redirect (RedStdout path app) st, rest)) (read_redirect_target s1))
      else if c = CHR ''<'' then
        (if peek_is CHR ''<'' s then Inl (Unsupported ''heredoc/herestring `<<`'')
         else if peek_is CHR ''&'' s then Inl (Unsupported ''`<&` (fd duplication)'')
         else map_sum id (\<lambda>(path, rest). (push_redirect (RedStdin path) st, rest)) (read_redirect_target s))
      else
        (case read_word (c # s) of
           Inl e \<Rightarrow> Inl e
         | Inr (a, rest) \<Rightarrow>
             if is_fd a rest
             then map_sum id (\<lambda>(r, rest'). (push_redirect r st, rest')) (read_fd_redirect (arg_text a) rest)
             else Inr (push_arg a st, rest)))"

definition parse_end :: "parse_state \<Rightarrow> Refusal + Script" where
  "parse_end st =
     (case finalize_pipeline st of
        Inl e \<Rightarrow> Inl e
      | Inr (st', Some p) \<Rightarrow> Inr (ps_script st' @ [\<lparr>it_sep = ps_pending st', it_pipeline = p\<rparr>])
      | Inr (st', None) \<Rightarrow>
          if ps_script st' = [] then Inl (Malformed ''empty command'')
          else if ps_pending st' \<noteq> SepSeq then Inl (Malformed ''expected a command after `&&` or `||`'')
          else Inr (ps_script st'))"

lemma skip_whitespace_suffix: "suffix (skip_whitespace s) s"
  by (simp add: skip_whitespace_def suffix_dropWhile)

lemma read_redirect_target_suffix:
  assumes "read_redirect_target s = Inr (path, rest)"
  shows "suffix rest s"
proof -
  obtain a where "read_word (skip_whitespace s) = Inr (a, rest)"
    using assms by (auto simp: read_redirect_target_def Let_def split: if_splits sum.splits Arg.splits)
  then have "suffix rest (skip_whitespace s)" unfolding read_word_def by (rule read_word_from_suffix)
  then show ?thesis using skip_whitespace_suffix suffix_order.trans by blast
qed

lemma read_fd_redirect_suffix:
  assumes "read_fd_redirect fd s = Inr (r, rest)"
  shows "suffix rest s"
proof -
  have "suffix (tl t) t" for t :: string by (cases t) (simp_all add: suffix_ConsI)
  then have tails: "suffix t s \<Longrightarrow> suffix (tl t) s" for t using suffix_order.trans by blast
  have digits: "suffix t s \<Longrightarrow> suffix (dropWhile is_ascii_digit t) s" for t
    using suffix_dropWhile suffix_order.trans by blast
  show ?thesis
    using assms
    by (auto simp: read_fd_redirect_def Let_def intro!: digits tails suffix_order.refl
        dest!: read_redirect_target_suffix split: if_splits sum.splits
        intro: suffix_order.trans)
qed

lemma read_redirect_target_shorter: "read_redirect_target s = Inr (path, rest) \<Longrightarrow> length rest \<le> length s"
  using read_redirect_target_suffix suffix_length_le by blast

lemma read_fd_redirect_shorter: "read_fd_redirect fd s = Inr (r, rest) \<Longrightarrow> length rest \<le> length s"
  using read_fd_redirect_suffix suffix_length_le by blast

lemma parse_token_shorter:
  assumes "parse_token st c s = Inr (st', rest)" "\<not> white c"
  shows "length rest < length (c # s)"
proof (cases "word_stop c")
  case True
  have pops: "length (tl s) \<le> length s" by simp
  show ?thesis
    using assms True pops
    by (auto simp: parse_token_def word_stop_def Let_def map_sum_def le_imp_less_Suc
        dest!: read_redirect_target_shorter split: if_splits sum.splits)
next
  case False
  then obtain a mid where word: "read_word (c # s) = Inr (a, mid)"
    and after: "length rest \<le> length mid"
    using assms(1) unfolding parse_token_def
    by (auto simp: word_stop_def map_sum_def split: if_splits sum.splits dest!: read_fd_redirect_shorter)
  from read_word_shorter [OF word] False assms(2) after show ?thesis by (simp add: inert_def)
qed

lemma skip_whitespace_Cons: "skip_whitespace s = c # t \<Longrightarrow> \<not> white c"
  by (simp add: skip_whitespace_def dropWhile_eq_Cons_conv)

lemma skip_whitespace_length: "length (skip_whitespace s) \<le> length s"
  by (simp add: skip_whitespace_def length_dropWhile_le)

text \<open>The loop of \<^verbatim>\<open>classify\<close>: it ends because every round consumes at least one character.\<close>

function parse_from :: "parse_state \<Rightarrow> string \<Rightarrow> Refusal + Script" where
  "parse_from st s =
     (case skip_whitespace s of
        [] \<Rightarrow> parse_end st
      | c # t \<Rightarrow> (case parse_token st c t of Inl e \<Rightarrow> Inl e | Inr (st', rest) \<Rightarrow> parse_from st' rest))"
  by pat_completeness auto
termination
proof (relation "measure (\<lambda>(st, s). length s)")
  fix st :: parse_state and s c t st' rest and x :: "parse_state \<times> string"
  assume "skip_whitespace s = c # t" "parse_token st c t = Inr x" "(st', rest) = x"
  then have "length rest < length (skip_whitespace s)"
    using parse_token_shorter skip_whitespace_Cons by metis
  then show "((st', rest), st, s) \<in> measure (\<lambda>(st, s). length s)"
    using skip_whitespace_length [of s] by simp
qed simp

declare parse_from.simps [simp del]

definition initial_parse :: parse_state where
  "initial_parse = \<lparr>ps_script = [], ps_pending = SepSeq, ps_stages = [], ps_argv = [], ps_redirects = []\<rparr>"

definition classify :: "string \<Rightarrow> Refusal + Script" where
  "classify input = parse_from initial_parse input"

subsection \<open>No dynamic construct is ever accepted\<close>

text \<open>
  \<^verbatim>\<open>dynamic_live q s\<close>: read with quoting \<^verbatim>\<open>q\<close>, the text has a subshell parenthesis, a backtick or a
  \<^verbatim>\<open>$(\<close> that no quote or escape protects. It is defined on the text alone, with no notion of words,
  redirections or pipelines.
\<close>

fun dynamic_live :: "quoting \<Rightarrow> string \<Rightarrow> bool" where
  "dynamic_live q [] = False"
| "dynamic_live Plain (c # s) =
     (c = CHR ''('' \<or> c = CHR '')'' \<or> c = CHR 0x60 \<or> (c = CHR ''$'' \<and> peek_is CHR ''('' s) \<or>
      (if c = CHR 0x27 then dynamic_live Single s
       else if c = CHR 0x22 then dynamic_live Double s
       else if c = CHR 0x5C then (case s of [] \<Rightarrow> False | n # s' \<Rightarrow> dynamic_live Plain s')
       else dynamic_live Plain s))"
| "dynamic_live Single (c # s) = dynamic_live (if c = CHR 0x27 then Plain else Single) s"
| "dynamic_live Double (c # s) =
     (c = CHR 0x60 \<or> (c = CHR ''$'' \<and> peek_is CHR ''('' s) \<or>
      (if c = CHR 0x22 then dynamic_live Plain s
       else if c = CHR 0x5C then
         (case s of
            [] \<Rightarrow> False
          | n # s' \<Rightarrow> if n \<in> {CHR 0x22, CHR 0x5C, CHR ''$'', CHR 0x60} then dynamic_live Double s' else dynamic_live Double s)
       else dynamic_live Double s))"

definition calm :: "char \<Rightarrow> bool" where
  "calm c \<longleftrightarrow> c \<notin> {CHR ''('', CHR '')'', CHR 0x60, CHR ''$'', CHR 0x27, CHR 0x22, CHR 0x5C}"

lemma dynamic_live_calm: "calm c \<Longrightarrow> q \<noteq> Single \<Longrightarrow> dynamic_live q (c # s) = dynamic_live q s"
  by (cases q) (auto simp: calm_def)

lemma dynamic_live_calm_append: "list_all calm xs \<Longrightarrow> q \<noteq> Single \<Longrightarrow> dynamic_live q (xs @ s) = dynamic_live q s"
  by (induction xs) (simp_all add: dynamic_live_calm del: dynamic_live.simps)

lemma name_char_calm: "name_char c \<Longrightarrow> calm c"
  by (auto simp: calm_def name_char_def is_ascii_alphanumeric_def is_ascii_digit_def is_ascii_alphabetic_def)

lemma valid_name_calm: "is_valid_var_name name \<Longrightarrow> list_all calm name"
  using valid_name_chars name_char_calm by (auto simp: list_all_iff)

lemma read_var_name_live:
  assumes "read_var_name s = Inr (name, rest)" "q \<noteq> Single"
  shows "dynamic_live q (CHR ''$'' # s) = dynamic_live q rest"
proof -
  obtain c cs where s: "s = c # cs" using assms by (cases s) (auto simp: read_var_name_def)
  consider "c = CHR ''{''" "split_once CHR ''}'' cs = Some (name, rest)" "is_valid_var_name name"
    | "name_start c" "name = takeWhile name_char s" "rest = dropWhile name_char s" "is_valid_var_name name"
    using assms s by (auto simp: read_var_name_def check_var_name_def split: if_splits option.splits)
  then have "\<exists>used. s = used @ rest \<and> list_all calm used \<and> c \<noteq> CHR ''(''"
  proof cases
    case 1
    then have "s = (CHR ''{'' # name @ ''}'') @ rest" using split_once_SomeD [OF 1(2)] s by simp
    moreover have "list_all calm (CHR ''{'' # name @ ''}'')"
      using valid_name_calm [OF 1(3)] by (simp add: calm_def)
    ultimately show ?thesis using 1 by blast
  next
    case 2
    then have "s = name @ rest" "c \<noteq> CHR ''(''"
      by (auto simp: name_start_def is_ascii_alphabetic_def)
    then show ?thesis using valid_name_calm [OF 2(4)] by blast
  qed
  then obtain used where used: "s = used @ rest" "list_all calm used" and "c \<noteq> CHR ''(''" by blast
  have "\<not> peek_is CHR ''('' s" unfolding s using \<open>c \<noteq> CHR ''(''\<close> by (simp add: peek_is_def)
  then have "dynamic_live q (CHR ''$'' # s) = dynamic_live q s" using assms(2) by (cases q) auto
  then show ?thesis using used dynamic_live_calm_append assms(2) by simp
qed

lemma read_word_from_live:
  "read_word_from q w s = Inr (a, rest) \<Longrightarrow> dynamic_live q s = dynamic_live Plain rest"
proof (induction rule: read_word_from_induct)
  case (var q w s name r a rest)
  then show ?case using read_var_name_live by simp
next
  case (opened q w s a rest)
  then show ?case by (cases q) (simp_all add: mark_of_def)
next
  case (closed q w s a rest)
  then show ?case by (cases q) (simp_all add: mark_of_def)
next
  case (escape q w n s a rest)
  then show ?case by (cases q) (auto simp: escapable_def)
next
  case (backslash w s a rest)
  then show ?case by (cases s) (auto simp: escapable_def)
next
  case (literal q w c s a rest)
  then show ?case by (cases q) (auto simp: literal_in_def inert_def word_stop_def)
qed auto

lemma skip_whitespace_live [simp]: "dynamic_live Plain (skip_whitespace s) = dynamic_live Plain s"
proof -
  have "list_all calm (takeWhile white s)"
    by (auto simp: list_all_iff calm_def white_def dest!: set_takeWhileD)
  then have "dynamic_live Plain (takeWhile white s @ dropWhile white s) = dynamic_live Plain (dropWhile white s)"
    by (rule dynamic_live_calm_append) simp
  then show ?thesis by (simp add: skip_whitespace_def)
qed

lemma digits_live [simp]: "dynamic_live Plain (dropWhile is_ascii_digit s) = dynamic_live Plain s"
proof -
  have "list_all calm (takeWhile is_ascii_digit s)"
    by (auto simp: list_all_iff calm_def is_ascii_digit_def dest!: set_takeWhileD)
  then have "dynamic_live Plain (takeWhile is_ascii_digit s @ dropWhile is_ascii_digit s) =
      dynamic_live Plain (dropWhile is_ascii_digit s)"
    by (rule dynamic_live_calm_append) simp
  then show ?thesis by simp
qed

lemma tl_live: "peek_is c s \<Longrightarrow> calm c \<Longrightarrow> dynamic_live Plain (tl s) = dynamic_live Plain s"
  by (cases s) (simp_all add: peek_is_def dynamic_live_calm del: dynamic_live.simps)

lemma operators_calm [simp]:
  "calm CHR ''|''" "calm CHR ''&''" "calm CHR '';''" "calm CHR ''<''" "calm CHR ''>''"
  by (simp_all add: calm_def)

lemma read_redirect_target_live:
  assumes "read_redirect_target s = Inr (path, rest)"
  shows "dynamic_live Plain rest = dynamic_live Plain s"
proof -
  obtain a where "read_word (skip_whitespace s) = Inr (a, rest)"
    using assms by (auto simp: read_redirect_target_def Let_def split: if_splits sum.splits Arg.splits)
  then show ?thesis using read_word_from_live unfolding read_word_def by fastforce
qed

lemma read_fd_redirect_live:
  assumes "read_fd_redirect fd s = Inr (r, rest)" "peek_is CHR ''>'' s \<or> peek_is CHR ''<'' s"
  shows "dynamic_live Plain rest = dynamic_live Plain s"
proof (cases "peek_is CHR ''<'' s")
  case True
  then have tail: "dynamic_live Plain (tl s) = dynamic_live Plain s" by (rule tl_live) simp
  obtain path where "read_redirect_target (tl s) = Inr (path, rest)"
    using assms(1) True by (auto simp: read_fd_redirect_def Let_def split: if_splits sum.splits)
  from read_redirect_target_live [OF this] tail show ?thesis by simp
next
  case False
  define s2 where "s2 = (if peek_is CHR ''>'' (tl s) then tl (tl s) else tl s)"
  have tail: "dynamic_live Plain s2 = dynamic_live Plain s"
    using False assms(2) tl_live [of "CHR ''>''" s] tl_live [of "CHR ''>''" "tl s"] by (auto simp: s2_def)
  consider path where "read_redirect_target s2 = Inr (path, rest)"
    | "peek_is CHR ''&'' s2" "rest = dropWhile is_ascii_digit (tl s2)"
    using assms(1) False
    by (auto simp: read_fd_redirect_def Let_def s2_def [symmetric] split: if_splits sum.splits)
  then show ?thesis
  proof cases
    case 1
    from read_redirect_target_live [OF this] tail show ?thesis by simp
  next
    case 2
    with tl_live [of "CHR ''&''" s2] tail show ?thesis by simp
  qed
qed

lemma parse_token_live:
  assumes "parse_token st c s = Inr (st', rest)"
  shows "dynamic_live Plain rest = dynamic_live Plain (c # s)"
proof -
  consider (op) "c \<in> {CHR ''|'', CHR ''&'', CHR '';''}" "rest = s \<or> rest = tl s \<and> (peek_is CHR ''|'' s \<or> peek_is CHR ''&'' s)"
    | (redirect) path where "c = CHR ''>'' \<or> c = CHR ''<''"
        "read_redirect_target s = Inr (path, rest) \<or> peek_is CHR ''>'' s \<and> read_redirect_target (tl s) = Inr (path, rest)"
    | (word) a mid where "read_word (c # s) = Inr (a, mid)"
        "rest = mid \<or> is_fd a mid \<and> (\<exists>r. read_fd_redirect (arg_text a) mid = Inr (r, rest))"
    using assms by (auto simp: parse_token_def Let_def map_sum_def split: if_splits sum.splits)
  then show ?thesis
  proof cases
    case op
    then have "calm c" by auto
    then show ?thesis
      using op tl_live [of "CHR ''|''" s] tl_live [of "CHR ''&''" s]
      by (auto simp: dynamic_live_calm simp del: dynamic_live.simps)
  next
    case redirect
    then have "calm c" by auto
    then show ?thesis
      using redirect tl_live [of "CHR ''>''" s]
      by (auto simp: dynamic_live_calm simp del: dynamic_live.simps dest!: read_redirect_target_live)
  next
    case word
    have "dynamic_live Plain (c # s) = dynamic_live Plain mid"
      using word(1) unfolding read_word_def by (rule read_word_from_live)
    then show ?thesis
      using word(2) read_fd_redirect_live by (fastforce simp: is_fd_def split: Arg.splits)
  qed
qed

lemma parse_from_live: "parse_from st s = Inr sc \<Longrightarrow> \<not> dynamic_live Plain s"
proof (induction st s rule: parse_from.induct)
  case (1 st s)
  show ?case
  proof (cases "skip_whitespace s")
    case Nil
    then have "\<not> dynamic_live Plain (skip_whitespace s)" by simp
    then show ?thesis by simp
  next
    case (Cons c t)
    with "1.prems" obtain st' rest where step: "parse_token st c t = Inr (st', rest)" "parse_from st' rest = Inr sc"
      by (subst (asm) parse_from.simps) (auto split: sum.splits)
    with "1.IH" Cons have "\<not> dynamic_live Plain rest" by blast
    then have "\<not> dynamic_live Plain (skip_whitespace s)" using parse_token_live [OF step(1)] Cons by simp
    then show ?thesis by simp
  qed
qed

text \<open>C25. A command line with a live dynamic construct anywhere -- a parenthesis or a backtick outside
  quotes, or a \<^verbatim>\<open>$(\<close> or backtick outside quotes or inside double quotes, in a word, a redirection
  target or between commands -- is never accepted, whatever surrounds it.
\<close>

theorem dynamic_construct_refused:
  assumes "dynamic_live Plain input"
  shows "\<exists>e. classify input = Inl e"
  using assms parse_from_live unfolding classify_def
  by (cases "parse_from initial_parse input") auto

theorem dynamic_construct_refused_witness: "\<exists>e. classify ''echo \"a $(id)\" > out'' = Inl e"
  by (rule dynamic_construct_refused) (simp add: peek_is_def)

subsection \<open>What is accepted, and how it is written back\<close>

text \<open>
  The scripts the parser produces: every pipeline has stages and every stage an argument, the first
  separator is \<^verbatim>\<open>;\<close>, variable names are names, the literal runs of a word with variables are non-empty
  and maximal, and a glob word has a metacharacter.
\<close>

definition glob_char :: "char \<Rightarrow> bool" where
  "glob_char c \<longleftrightarrow> c = CHR ''*'' \<or> c = CHR ''?'' \<or> c = CHR ''[''"

fun segs_normal :: "Seg list \<Rightarrow> bool" where
  "segs_normal [] = True"
| "segs_normal (SegVar name # segs) = (is_valid_var_name name \<and> segs_normal segs)"
| "segs_normal [SegLit l] = (l \<noteq> [])"
| "segs_normal (SegLit l # SegLit m # segs) = False"
| "segs_normal (SegLit l # SegVar name # segs) = (l \<noteq> [] \<and> is_valid_var_name name \<and> segs_normal segs)"

definition seg_var :: "Seg \<Rightarrow> bool" where
  "seg_var sg = (case sg of SegVar _ \<Rightarrow> True | SegLit _ \<Rightarrow> False)"

definition seg_glob :: "Seg \<Rightarrow> bool" where
  "seg_glob sg = (case sg of SegLit l \<Rightarrow> list_ex glob_char l | SegVar _ \<Rightarrow> False)"

definition arg_wf :: "Arg \<Rightarrow> bool" where
  "arg_wf a = (case a of
     ArgLit _ \<Rightarrow> True
   | ArgGlob p \<Rightarrow> list_ex glob_char p
   | ArgVar segs \<Rightarrow> segs_normal segs \<and> list_ex seg_var segs
   | ArgVarGlob segs \<Rightarrow> segs_normal segs \<and> list_ex seg_var segs \<and> list_ex seg_glob segs)"

definition path_wf :: "Seg list \<Rightarrow> bool" where
  "path_wf segs = (segs_normal segs \<and> segs \<noteq> [])"

definition redirect_wf :: "Redirect \<Rightarrow> bool" where
  "redirect_wf r = (case r of
     RedStdout path _ \<Rightarrow> path_wf path | RedStdin path \<Rightarrow> path_wf path
   | RedStderr path _ \<Rightarrow> path_wf path | RedStderrToStdout \<Rightarrow> True)"

definition command_wf :: "Command \<Rightarrow> bool" where
  "command_wf c = (cmd_argv c \<noteq> [] \<and> list_all arg_wf (cmd_argv c) \<and> list_all redirect_wf (cmd_redirects c))"

definition item_wf :: "ScriptItem \<Rightarrow> bool" where
  "item_wf i = (it_pipeline i \<noteq> [] \<and> list_all command_wf (it_pipeline i))"

definition script_wf :: "Script \<Rightarrow> bool" where
  "script_wf sc = (sc \<noteq> [] \<and> it_sep (hd sc) = SepSeq \<and> list_all item_wf sc)"

subsubsection \<open>Words\<close>

definition word_wf :: "word_state \<Rightarrow> bool" where
  "word_wf w = (segs_normal (ws_segs w) \<and> (ws_segs w = [] \<or> seg_var (last (ws_segs w))) \<and>
     (if ws_glob w then list_ex glob_char (ws_cur w) \<or> list_ex seg_glob (ws_segs w) else True))"

lemma segs_normal_snoc_var:
  "segs_normal segs \<Longrightarrow> is_valid_var_name name \<Longrightarrow>
   segs_normal (segs @ [SegVar name])"
  by (induction segs rule: segs_normal.induct) simp_all

lemma segs_normal_snoc_lit:
  "segs_normal segs \<Longrightarrow> segs = [] \<or> seg_var (last segs) \<Longrightarrow> l \<noteq> [] \<Longrightarrow> segs_normal (segs @ [SegLit l])"
  by (induction segs rule: segs_normal.induct) (auto simp: seg_var_def split: if_splits)

lemma word_wf_push_char: "word_wf w \<Longrightarrow> word_wf (push_char c w)"
  by (auto simp: word_wf_def push_char_def split: if_splits)

lemma word_wf_push_glob: "word_wf w \<Longrightarrow> glob_char c \<Longrightarrow> word_wf (push_char c w\<lparr>ws_glob := True\<rparr>)"
  by (auto simp: word_wf_def push_char_def)

lemma segs_normal_snoc_lit_var:
  assumes "segs_normal segs" "segs = [] \<or> seg_var (last segs)" "l \<noteq> []" "is_valid_var_name name"
  shows "segs_normal (segs @ [SegLit l, SegVar name])"
  using segs_normal_snoc_var [OF segs_normal_snoc_lit [OF assms(1-3)] assms(4)] by simp

lemma seg_var_simps [simp]: "seg_var (SegVar name)" "\<not> seg_var (SegLit l)"
  by (simp_all add: seg_var_def)

lemma seg_glob_simps [simp]: "\<not> seg_glob (SegVar name)" "seg_glob (SegLit l) = list_ex glob_char l"
  by (simp_all add: seg_glob_def)

lemma word_wf_push_var: "word_wf w \<Longrightarrow> is_valid_var_name name \<Longrightarrow> word_wf (push_var name w)"
  by (auto simp: word_wf_def push_var_def segs_normal_snoc_var segs_normal_snoc_lit_var split: if_splits)

lemma word_wf_finish: "word_wf w \<Longrightarrow> arg_wf (finish_word w)"
  by (auto simp: word_wf_def finish_word_def arg_wf_def Let_def segs_normal_snoc_lit list_ex_iff
      dest: last_in_set split: if_splits)

lemmas word_wf_pushes = word_wf_push_char word_wf_push_glob word_wf_push_var

lemma read_var_name_valid: "read_var_name s = Inr (name, rest) \<Longrightarrow> is_valid_var_name name"
  using read_var_name_split by blast

lemma read_word_from_wf: "read_word_from q w s = Inr (a, rest) \<Longrightarrow> word_wf w \<Longrightarrow> arg_wf a"
  by (induction rule: read_word_from_induct)
    (auto simp: glob_char_def word_wf_pushes word_wf_finish dest: read_var_name_valid)

lemma read_word_wf: "read_word s = Inr (a, rest) \<Longrightarrow> arg_wf a"
  unfolding read_word_def by (erule read_word_from_wf) (simp add: empty_word_def word_wf_def)

subsubsection \<open>Redirections and scripts\<close>

lemma read_redirect_target_wf: "read_redirect_target s = Inr (path, rest) \<Longrightarrow> path_wf path"
  by (auto simp: read_redirect_target_def Let_def path_wf_def arg_wf_def
      split: if_splits sum.splits Arg.splits dest!: read_word_wf)

lemma redirect_wf_simps [simp]:
  "redirect_wf (RedStdout path app) = path_wf path" "redirect_wf (RedStdin path) = path_wf path"
  "redirect_wf (RedStderr path app) = path_wf path" "redirect_wf RedStderrToStdout"
  by (simp_all add: redirect_wf_def)

lemma read_fd_redirect_wf: "read_fd_redirect fd s = Inr (r, rest) \<Longrightarrow> redirect_wf r"
  by (auto simp: read_fd_redirect_def Let_def
      split: if_splits sum.splits dest!: read_redirect_target_wf)

definition parse_wf :: "parse_state \<Rightarrow> bool" where
  "parse_wf st = (list_all item_wf (ps_script st) \<and>
     (if ps_script st = [] then ps_pending st = SepSeq else it_sep (hd (ps_script st)) = SepSeq) \<and>
     list_all command_wf (ps_stages st) \<and> list_all arg_wf (ps_argv st) \<and> list_all redirect_wf (ps_redirects st))"

lemma push_pipeline_wf: "push_pipeline sep st = Inr st' \<Longrightarrow> parse_wf st \<Longrightarrow> parse_wf st'"
  by (auto simp: push_pipeline_def finalize_pipeline_def parse_wf_def item_wf_def command_wf_def stage_of_def
      split: if_splits)

lemma push_stage_wf: "push_stage st = Inr st' \<Longrightarrow> parse_wf st \<Longrightarrow> parse_wf st'"
  by (auto simp: push_stage_def parse_wf_def command_wf_def stage_of_def split: if_splits)

lemma push_redirect_wf: "redirect_wf r \<Longrightarrow> parse_wf st \<Longrightarrow> parse_wf (push_redirect r st)"
  by (simp add: push_redirect_def parse_wf_def)

lemma push_arg_wf: "arg_wf a \<Longrightarrow> parse_wf st \<Longrightarrow> parse_wf (push_arg a st)"
  by (simp add: push_arg_def parse_wf_def)

lemma parse_end_wf: "parse_end st = Inr sc \<Longrightarrow> parse_wf st \<Longrightarrow> script_wf sc"
  by (auto simp: parse_end_def finalize_pipeline_def parse_wf_def script_wf_def item_wf_def command_wf_def
      stage_of_def hd_append split: if_splits)

lemma parse_token_wf: "parse_token st c s = Inr (st', rest) \<Longrightarrow> parse_wf st \<Longrightarrow> parse_wf st'"
  by (auto simp: parse_token_def Let_def map_sum_def split: if_splits sum.splits
      intro!: push_redirect_wf push_arg_wf
      dest: read_redirect_target_wf read_fd_redirect_wf read_word_wf push_pipeline_wf push_stage_wf)

lemma parse_from_wf: "parse_from st s = Inr sc \<Longrightarrow> parse_wf st \<Longrightarrow> script_wf sc"
proof (induction st s rule: parse_from.induct)
  case (1 st s)
  show ?case
  proof (cases "skip_whitespace s")
    case Nil
    with 1 show ?thesis by (subst (asm) parse_from.simps) (auto dest: parse_end_wf)
  next
    case (Cons c t)
    with 1(2) obtain st' rest where step: "parse_token st c t = Inr (st', rest)" "parse_from st' rest = Inr sc"
      by (subst (asm) parse_from.simps) (auto split: sum.splits)
    with 1(1,3) Cons parse_token_wf [OF step(1)] show ?thesis by blast
  qed
qed

text \<open>C27. Whatever the input, an accepted script is well formed: it has a pipeline, the first one carries
  \<^verbatim>\<open>;\<close>, no pipeline is without a stage and no stage without a program, every variable reference is a
  valid name, and no redirection target is empty.
\<close>

theorem classify_wf:
  assumes "classify input = Inr sc"
  shows "script_wf sc"
  using assms unfolding classify_def
  by (rule parse_from_wf) (simp add: parse_wf_def initial_parse_def)

theorem classify_wf_witness: "script_wf [\<lparr>it_sep = SepSeq, it_pipeline = [\<lparr>cmd_argv = [ArgLit ''ls'', ArgGlob ''*''], cmd_redirects = []\<rparr>]\<rparr>]"
  by (rule classify_wf [of "''ls *''"]) code_simp

end
