(* ===== verification/Shell_Print.thy ===== *)
theory Shell_Print
  imports Shell_Parse
begin

text \<open>
  A printer for the scripts of \<^verbatim>\<open>parse.rs\<close> and the proof that the parser reads every printed script
  back. The printer is the reference for what the accepted language can express: literals in single
  quotes, variables in braces, glob metacharacters bare and everything else in a glob word escaped.
\<close>

subsection \<open>Printing\<close>

definition quote_lit :: "string \<Rightarrow> string" where
  "quote_lit l = [CHR 0x27] @ concat (map (\<lambda>c. if c = CHR 0x27 then [CHR 0x27, CHR 0x5C, CHR 0x27, CHR 0x27] else [c]) l) @ [CHR 0x27]"

definition glob_lit :: "string \<Rightarrow> string" where
  "glob_lit l = concat (map (\<lambda>c. if glob_char c then [c] else [CHR 0x5C, c]) l)"

definition print_seg :: "(string \<Rightarrow> string) \<Rightarrow> Seg \<Rightarrow> string" where
  "print_seg f sg = (case sg of SegLit l \<Rightarrow> f l | SegVar name \<Rightarrow> ''${'' @ name @ ''}'')"

definition print_segs :: "(string \<Rightarrow> string) \<Rightarrow> Seg list \<Rightarrow> string" where
  "print_segs f segs = concat (map (print_seg f) segs)"

definition print_arg :: "Arg \<Rightarrow> string" where
  "print_arg a = (case a of
     ArgLit l \<Rightarrow> quote_lit l | ArgGlob p \<Rightarrow> glob_lit p
   | ArgVar segs \<Rightarrow> print_segs quote_lit segs | ArgVarGlob segs \<Rightarrow> print_segs glob_lit segs)"

definition print_redirect :: "Redirect \<Rightarrow> string" where
  "print_redirect r = (case r of
     RedStdout path app \<Rightarrow> (if app then ''>> '' else ''> '') @ print_segs quote_lit path
   | RedStdin path \<Rightarrow> ''< '' @ print_segs quote_lit path
   | RedStderr path app \<Rightarrow> (if app then ''2>> '' else ''2> '') @ print_segs quote_lit path
   | RedStderrToStdout \<Rightarrow> ''2>&1'')"

definition print_command :: "Command \<Rightarrow> string" where
  "print_command c =
     concat (map (\<lambda>a. print_arg a @ '' '') (cmd_argv c)) @ concat (map (\<lambda>r. print_redirect r @ '' '') (cmd_redirects c))"

definition print_pipeline :: "Pipeline \<Rightarrow> string" where
  "print_pipeline p = (case p of [] \<Rightarrow> [] | c # cs \<Rightarrow> print_command c @ concat (map (\<lambda>d. ''| '' @ print_command d) cs))"

definition print_sep :: "Sep \<Rightarrow> string" where
  "print_sep sep = (case sep of SepSeq \<Rightarrow> ''; '' | SepAnd \<Rightarrow> ''&& '' | SepOr \<Rightarrow> ''|| '')"

definition print_script :: "Script \<Rightarrow> string" where
  "print_script sc = (case sc of
     [] \<Rightarrow> []
   | i # is \<Rightarrow> print_pipeline (it_pipeline i) @ concat (map (\<lambda>j. print_sep (it_sep j) @ print_pipeline (it_pipeline j)) is))"

subsection \<open>Reading a printed word\<close>

definition push_lit :: "string \<Rightarrow> word_state \<Rightarrow> word_state" where
  "push_lit l w = w\<lparr>ws_cur := ws_cur w @ l\<rparr>"

lemma push_lit_Nil [simp]: "push_lit [] w = w"
  by (simp add: push_lit_def)

lemma push_lit_Cons: "push_lit (c # l) w = push_lit l (push_char c w)"
  by (simp add: push_lit_def push_char_def)

definition mark_glob :: "bool \<Rightarrow> word_state \<Rightarrow> word_state" where
  "mark_glob b w = w\<lparr>ws_glob := ws_glob w \<or> b\<rparr>"

lemma read_quoted_body:
  "read_word_from Single w (concat (map (\<lambda>c. if c = CHR 0x27 then [CHR 0x27, CHR 0x5C, CHR 0x27, CHR 0x27] else [c]) l)
     @ CHR 0x27 # t) = read_word_from Plain (push_lit l w) t"
  by (induction l arbitrary: w) (simp_all add: read_word_from.simps push_lit_Cons white_def word_stop_def)

lemma read_quote_lit: "read_word_from Plain w (quote_lit l @ t) = read_word_from Plain (push_lit l w) t"
  by (simp add: quote_lit_def read_word_from.simps(2) white_def word_stop_def read_quoted_body)

lemma mark_glob_simps [simp]:
  "mark_glob False w = w" "mark_glob b (push_char c w) = push_char c (mark_glob b w)"
  "mark_glob b (mark_glob b' w) = mark_glob (b' \<or> b) w"
  by (auto simp: mark_glob_def push_char_def)

lemma push_char_glob: "push_char c w\<lparr>ws_glob := True\<rparr> = push_char c (mark_glob True w)"
  by (cases w) (simp add: push_char_def mark_glob_def)

lemma read_plain_glob:
  "glob_char c \<Longrightarrow> read_word_from Plain w (c # s) = read_word_from Plain (push_char c (mark_glob True w)) s"
  unfolding glob_char_def
  by (elim disjE) (simp_all add: read_word_from.simps white_def word_stop_def push_char_glob)

lemma read_plain_escape: "read_word_from Plain w (CHR 0x5C # c # s) = read_word_from Plain (push_char c w) s"
  by (subst read_word_from.simps) (simp add: white_def word_stop_def)

lemma read_glob_lit:
  "read_word_from Plain w (glob_lit l @ t) = read_word_from Plain (push_lit l (mark_glob (list_ex glob_char l) w)) t"
proof (induction l arbitrary: w)
  case (Cons c l)
  then show ?case
    by (simp add: glob_lit_def read_plain_glob read_plain_escape push_lit_Cons)
qed (simp add: glob_lit_def)

lemma read_printed_var:
  assumes "is_valid_var_name name"
  shows "read_word_from Plain w (''${'' @ name @ ''}'' @ t) = read_word_from Plain (push_var name w) t"
proof -
  have "\<not> name_char CHR ''}''"
    by (simp add: name_char_def is_ascii_alphabetic_def is_ascii_alphanumeric_def is_ascii_digit_def)
  then have "CHR ''}'' \<notin> set name" using valid_name_chars [OF assms] by (auto simp: list_all_iff)
  then have "split_once CHR ''}'' (name @ CHR ''}'' # t) = Some (name, t)" by (rule split_once_sep)
  then have "read_var_name (''{'' @ name @ ''}'' @ t) = Inr (name, t)"
    using assms by (simp add: read_var_name_def check_var_name_def)
  then show ?thesis by (simp add: read_word_from.simps white_def word_stop_def)
qed

fun absorb :: "bool \<Rightarrow> Seg list \<Rightarrow> word_state \<Rightarrow> word_state" where
  "absorb g [] w = w"
| "absorb g (SegLit l # segs) w = absorb g segs (push_lit l (mark_glob (g \<and> list_ex glob_char l) w))"
| "absorb g (SegVar name # segs) w = absorb g segs (push_var name w)"

lemma read_printed_segs:
  "segs_normal segs \<Longrightarrow>
   read_word_from Plain w (print_segs (if g then glob_lit else quote_lit) segs @ t) = read_word_from Plain (absorb g segs w) t"
proof (induction segs arbitrary: w rule: segs_normal.induct)
  case (2 name segs)
  then show ?case using read_printed_var by (simp add: print_segs_def print_seg_def)
next
  case (3 l)
  then show ?case by (simp add: print_segs_def print_seg_def read_glob_lit read_quote_lit)
next
  case (5 l name segs)
  then show ?case
    using read_printed_var by (cases g) (simp_all add: print_segs_def print_seg_def read_glob_lit read_quote_lit)
qed (simp_all add: print_segs_def)


definition flushed :: "word_state \<Rightarrow> Seg list" where
  "flushed w = ws_segs w @ (if ws_cur w \<noteq> [] then [SegLit (ws_cur w)] else [])"

lemma finish_word_flushed:
  "finish_word w =
     (if ws_segs w = [] then (if ws_glob w then ArgGlob (ws_cur w) else ArgLit (ws_cur w))
      else if ws_glob w then ArgVarGlob (flushed w) else ArgVar (flushed w))"
  by (simp add: finish_word_def flushed_def Let_def)

lemma ws_segs_push_lit [simp]: "ws_segs (push_lit l w) = ws_segs w" "ws_cur (push_lit l w) = ws_cur w @ l"
    "ws_glob (push_lit l w) = ws_glob w"
  by (simp_all add: push_lit_def)

lemma ws_segs_mark_glob [simp]: "ws_segs (mark_glob b w) = ws_segs w" "ws_cur (mark_glob b w) = ws_cur w"
    "ws_glob (mark_glob b w) = (ws_glob w \<or> b)"
  by (simp_all add: mark_glob_def)

lemma ws_push_var [simp]: "ws_segs (push_var name w) = flushed w @ [SegVar name]" "ws_cur (push_var name w) = []"
    "ws_glob (push_var name w) = ws_glob w"
  by (simp_all add: push_var_def flushed_def)

lemma absorb_flushed: "segs_normal segs \<Longrightarrow> ws_cur w = [] \<Longrightarrow> flushed (absorb g segs w) = ws_segs w @ segs"
  by (induction segs arbitrary: w rule: segs_normal.induct) (simp_all add: flushed_def)

lemma absorb_glob: "ws_glob (absorb g segs w) = (ws_glob w \<or> g \<and> list_ex seg_glob segs)"
  by (induction g segs w rule: absorb.induct) auto

lemma absorb_segs_nonempty:
  "ws_segs (absorb g segs w) = [] \<longleftrightarrow> ws_segs w = [] \<and> \<not> list_ex seg_var segs"
proof (induction g segs w rule: absorb.induct)
  case (3 g name segs w)
  then show ?case by simp
qed simp_all

lemma finish_absorbed:
  assumes "segs_normal segs" "list_ex seg_var segs"
  shows "finish_word (absorb g segs empty_word) =
    (if g \<and> list_ex seg_glob segs then ArgVarGlob segs else ArgVar segs)"
  using assms absorb_flushed [of segs empty_word g]
  by (cases g) (simp_all add: finish_word_flushed absorb_segs_nonempty absorb_glob empty_word_def)

lemma read_word_stops: "read_word_from Plain w (CHR '' '' # t) = Inr (finish_word w, CHR '' '' # t)"
  by (simp add: read_word_from.simps white_def)

lemma read_printed_arg: "arg_wf a \<Longrightarrow> read_word (print_arg a @ '' '' @ t) = Inr (a, '' '' @ t)"
proof (cases a)
  case (ArgLit l)
  then show ?thesis
    by (simp add: read_word_def print_arg_def read_quote_lit read_word_stops finish_word_flushed empty_word_def)
next
  case (ArgGlob p)
  moreover assume "arg_wf a"
  ultimately show ?thesis
    by (simp add: read_word_def print_arg_def read_glob_lit read_word_stops finish_word_flushed empty_word_def arg_wf_def)
next
  case (ArgVar segs)
  moreover assume "arg_wf a"
  ultimately show ?thesis
    using read_printed_segs [of segs empty_word False] finish_absorbed [of segs False]
    by (simp add: read_word_def print_arg_def read_word_stops arg_wf_def)
next
  case (ArgVarGlob segs)
  moreover assume "arg_wf a"
  ultimately show ?thesis
    using read_printed_segs [of segs empty_word True] finish_absorbed [of segs True]
    by (simp add: read_word_def print_arg_def read_word_stops arg_wf_def)
qed

subsection \<open>The first character of a printed word\<close>

lemma quote_lit_starts: "\<exists>s. quote_lit l = CHR 0x27 # s"
  by (simp add: quote_lit_def)

lemma glob_lit_starts: "l \<noteq> [] \<Longrightarrow> \<exists>c s. glob_lit l = c # s \<and> inert c"
  by (cases l) (auto simp: glob_lit_def inert_def white_def word_stop_def glob_char_def)

lemma segs_normal_lit: "segs_normal (SegLit l # segs) \<Longrightarrow> l \<noteq> []"
  by (cases "SegLit l # segs" rule: segs_normal.cases) auto

lemma print_segs_starts:
  assumes "segs_normal segs" "segs \<noteq> []"
  shows "\<exists>c s. print_segs (if g then glob_lit else quote_lit) segs = c # s \<and> inert c"
proof (cases segs)
  case (Cons sg rest)
  have inert: "inert CHR 0x27" "inert CHR ''$''" by (simp_all add: inert_def white_def word_stop_def)
  show ?thesis
  proof (cases sg)
    case (SegLit l)
    then have "l \<noteq> []" using assms Cons segs_normal_lit by simp
    then obtain c s where "(if g then glob_lit else quote_lit) l = c # s" "inert c"
      using quote_lit_starts [of l] glob_lit_starts [of l] inert by (cases g) auto
    then show ?thesis by (simp add: Cons SegLit print_segs_def print_seg_def)
  qed (simp add: Cons inert print_segs_def print_seg_def)
qed (use assms in simp)

lemma print_arg_starts:
  assumes "arg_wf a"
  shows "\<exists>c s. print_arg a = c # s \<and> inert c"
proof (cases a)
  case (ArgLit l)
  then show ?thesis using quote_lit_starts [of l] by (auto simp: print_arg_def inert_def white_def word_stop_def)
next
  case (ArgGlob p)
  then have "p \<noteq> []" using assms by (auto simp: arg_wf_def)
  then show ?thesis using ArgGlob glob_lit_starts by (simp add: print_arg_def)
next
  case (ArgVar segs)
  then have "segs_normal segs" "segs \<noteq> []" using assms by (auto simp: arg_wf_def)
  then show ?thesis using ArgVar print_segs_starts [of segs False] by (simp add: print_arg_def)
next
  case (ArgVarGlob segs)
  then have "segs_normal segs" "segs \<noteq> []" using assms by (auto simp: arg_wf_def)
  then show ?thesis using ArgVarGlob print_segs_starts [of segs True] by (simp add: print_arg_def)
qed

subsection \<open>Reading a printed script\<close>

lemma parse_from_space: "parse_from st (CHR '' '' # t) = parse_from st t"
  by (subst (1 2) parse_from.simps) (simp add: skip_whitespace_def white_def)

lemma parse_from_token:
  "\<not> white c \<Longrightarrow> parse_token st c s = Inr (st', t) \<Longrightarrow> parse_from st (c # s) = parse_from st' t"
  by (subst parse_from.simps) (simp add: skip_whitespace_def)

lemma parse_printed_arg:
  assumes "arg_wf a"
  shows "parse_from st (print_arg a @ '' '' @ t) = parse_from (push_arg a st) t"
proof -
  obtain c s where c: "print_arg a = c # s" "inert c" using print_arg_starts [OF assms] by blast
  have "\<not> is_fd a ('' '' @ t)" by (simp add: is_fd_def peek_is_def split: Arg.splits)
  moreover have "read_word (c # s @ '' '' @ t) = Inr (a, '' '' @ t)" using read_printed_arg [OF assms] c by simp
  ultimately have "parse_token st c (s @ '' '' @ t) = Inr (push_arg a st, '' '' @ t)"
    using c(2) by (simp add: parse_token_def inert_def word_stop_def)
  then have "parse_from st (c # s @ '' '' @ t) = parse_from (push_arg a st) ('' '' @ t)"
    using c(2) by (intro parse_from_token) (simp_all add: inert_def)
  then show ?thesis using c by (simp add: parse_from_space)
qed

lemma path_wf_cases:
  assumes "path_wf path"
  obtains l where "path = [SegLit l]" "l \<noteq> []" | "arg_wf (ArgVar path)"
proof (cases "list_ex seg_var path")
  case True
  with assms that(2) show ?thesis by (simp add: path_wf_def arg_wf_def)
next
  case False
  with assms obtain l where "path = [SegLit l]" "l \<noteq> []"
    by (cases path rule: segs_normal.cases) (auto simp: path_wf_def)
  with that(1) show ?thesis .
qed

lemma read_printed_path:
  assumes "path_wf path"
  shows "read_redirect_target ('' '' @ print_segs quote_lit path @ '' '' @ t) = Inr (path, '' '' @ t)"
proof -
  define a where "a = (case path of [SegLit l] \<Rightarrow> ArgLit l | _ \<Rightarrow> ArgVar path)"
  have a: "arg_wf a" "print_arg a = print_segs quote_lit path" "read_word (print_segs quote_lit path @ '' '' @ t) = Inr (a, '' '' @ t)"
    "a = ArgVar path \<or> (\<exists>l. path = [SegLit l] \<and> a = ArgLit l \<and> l \<noteq> [])"
    using assms read_printed_arg [of a t]
    by (atomize (full), cases rule: path_wf_cases)
      (auto simp: a_def arg_wf_def print_arg_def print_segs_def print_seg_def split: list.splits Seg.splits)
  obtain c s where c: "print_segs quote_lit path = c # s" "inert c"
    using print_arg_starts [OF a(1)] a(2) by auto
  then have "skip_whitespace ('' '' @ print_segs quote_lit path @ '' '' @ t) = print_segs quote_lit path @ '' '' @ t"
    by (simp add: skip_whitespace_def white_def inert_def)
  moreover have "hd (print_segs quote_lit path @ '' '' @ t) \<notin> set ''|&;<>()''"
    using c by (simp add: inert_def word_stop_def)
  ultimately show ?thesis using a(3,4) c(1) by (auto simp: read_redirect_target_def Let_def)
qed

lemma parse_printed_redirect:
  assumes "redirect_wf r"
  shows "parse_from st (print_redirect r @ '' '' @ t) = parse_from (push_redirect r st) t"
proof -
  have word: "read_word (CHR ''2'' # CHR ''>'' # u) = Inr (ArgLit ''2'', CHR ''>'' # u)" for u
    by (simp add: read_word_def read_word_from.simps white_def word_stop_def finish_word_def push_char_def empty_word_def)
  have fd: "parse_token st (CHR ''2'') (CHR ''>'' # u) =
      map_sum id (\<lambda>(r, rest'). (push_redirect r st, rest')) (read_fd_redirect ''2'' (CHR ''>'' # u))" for u
    by (simp add: parse_token_def word is_fd_def arg_text_def peek_is_def is_ascii_digit_def)
  have "\<exists>c s. print_redirect r @ '' '' @ t = c # s \<and> \<not> white c \<and>
      parse_token st c s = Inr (push_redirect r st, '' '' @ t)"
  proof (cases r)
    case (RedStdout path app)
    then show ?thesis
      using assms read_printed_path [of path t]
      by (auto simp: print_redirect_def parse_token_def peek_is_def white_def)
  next
    case (RedStdin path)
    then show ?thesis
      using assms read_printed_path [of path t]
      by (auto simp: print_redirect_def parse_token_def peek_is_def white_def)
  next
    case (RedStderr path app)
    then show ?thesis
      using assms read_printed_path [of path t]
      by (auto simp: print_redirect_def fd read_fd_redirect_def peek_is_def white_def)
  next
    case RedStderrToStdout
    then show ?thesis
      by (auto simp: print_redirect_def fd read_fd_redirect_def peek_is_def white_def is_ascii_digit_def)
  qed
  then obtain c s where c: "print_redirect r @ '' '' @ t = c # s"
    and step: "\<not> white c" "parse_token st c s = Inr (push_redirect r st, '' '' @ t)"
    by blast
  have "parse_from st (c # s) = parse_from (push_redirect r st) ('' '' @ t)" by (rule parse_from_token [OF step])
  then show ?thesis unfolding c by (simp add: parse_from_space)
qed

definition push_command :: "Command \<Rightarrow> parse_state \<Rightarrow> parse_state" where
  "push_command c st = st\<lparr>ps_argv := ps_argv st @ cmd_argv c, ps_redirects := ps_redirects st @ cmd_redirects c\<rparr>"

lemma parse_printed_args:
  "list_all arg_wf as \<Longrightarrow>
   parse_from st (concat (map (\<lambda>a. print_arg a @ '' '') as) @ t) = parse_from (st\<lparr>ps_argv := ps_argv st @ as\<rparr>) t"
proof (induction as arbitrary: st)
  case (Cons a as)
  then show ?case using parse_printed_arg [of a st] by (simp add: push_arg_def)
qed simp

lemma parse_printed_redirects:
  "list_all redirect_wf rs \<Longrightarrow>
   parse_from st (concat (map (\<lambda>r. print_redirect r @ '' '') rs) @ t) =
   parse_from (st\<lparr>ps_redirects := ps_redirects st @ rs\<rparr>) t"
proof (induction rs arbitrary: st)
  case (Cons r rs)
  then show ?case using parse_printed_redirect [of r st] by (simp add: push_redirect_def)
qed simp

lemma parse_printed_command:
  "command_wf c \<Longrightarrow> parse_from st (print_command c @ t) = parse_from (push_command c st) t"
  by (simp add: command_wf_def print_command_def parse_printed_args parse_printed_redirects push_command_def)

definition fresh_stage :: "parse_state \<Rightarrow> bool" where
  "fresh_stage st \<longleftrightarrow> ps_argv st = [] \<and> ps_redirects st = []"

lemma push_stage_command:
  assumes "fresh_stage st" "command_wf c"
  shows "push_stage (push_command c st) = Inr (st\<lparr>ps_stages := ps_stages st @ [c]\<rparr>)"
  using assms by (cases st; cases c) (simp add: push_stage_def push_command_def fresh_stage_def command_wf_def stage_of_def)

text \<open>A printed pipeline leaves its last stage open and the stages before it closed.\<close>

lemma parse_printed_stages:
  assumes "fresh_stage st" "command_wf c" "list_all command_wf cs"
  shows "parse_from st (print_command c @ concat (map (\<lambda>d. ''| '' @ print_command d) cs) @ t) =
    parse_from (push_command (last (c # cs)) (st\<lparr>ps_stages := ps_stages st @ butlast (c # cs)\<rparr>)) t"
  using assms
proof (induction cs arbitrary: st c)
  case (Cons d ds)
  let ?st = "st\<lparr>ps_stages := ps_stages st @ [c]\<rparr>"
  have "parse_from (push_command c st) (CHR ''|'' # CHR '' '' # u) = parse_from ?st (CHR '' '' # u)" for u
    using push_stage_command Cons.prems(1,2)
    by (intro parse_from_token) (simp_all add: parse_token_def peek_is_def white_def)
  moreover have "fresh_stage ?st" using Cons.prems(1) by (simp add: fresh_stage_def)
  ultimately show ?case
    using Cons.IH [of ?st d] Cons.prems by (simp add: parse_printed_command parse_from_space)
qed (simp add: parse_printed_command)

definition last_open :: "Pipeline \<Rightarrow> parse_state \<Rightarrow> parse_state" where
  "last_open p st = push_command (last p) (st\<lparr>ps_stages := butlast p\<rparr>)"

definition fresh_pipeline :: "parse_state \<Rightarrow> bool" where
  "fresh_pipeline st \<longleftrightarrow> fresh_stage st \<and> ps_stages st = []"

lemma parse_printed_pipeline:
  assumes "fresh_pipeline st" "p \<noteq> []" "list_all command_wf p"
  shows "parse_from st (print_pipeline p @ t) = parse_from (last_open p st) t"
  using assms parse_printed_stages [of st "hd p" "tl p" t]
  by (cases p) (simp_all add: print_pipeline_def last_open_def fresh_pipeline_def del: last.simps butlast.simps)

lemma finalize_last_open:
  assumes "fresh_pipeline st" "p \<noteq> []" "list_all command_wf p"
  shows "finalize_pipeline (last_open p st) = Inr (st, Some p)"
proof -
  have "cmd_argv (last p) \<noteq> []" using assms(2,3) by (auto simp: list_all_iff command_wf_def)
  moreover have "butlast p @ [last p] = p" using assms(2) by simp
  ultimately show ?thesis
    using assms(1)
    by (cases st; cases "last p") (simp add: finalize_pipeline_def last_open_def push_command_def fresh_pipeline_def fresh_stage_def stage_of_def)
qed

lemma push_pipeline_last_open:
  assumes "fresh_pipeline st" "item_wf i" "it_sep i = ps_pending st"
  shows "push_pipeline sep (last_open (it_pipeline i) st) =
    Inr (st\<lparr>ps_script := ps_script st @ [i], ps_pending := sep\<rparr>)"
  using assms finalize_last_open [OF assms(1), of "it_pipeline i"]
  by (cases i) (simp add: push_pipeline_def item_wf_def)

lemma parse_end_last_open:
  assumes "fresh_pipeline st" "item_wf i" "it_sep i = ps_pending st"
  shows "parse_end (last_open (it_pipeline i) st) = Inr (ps_script st @ [i])"
  using assms finalize_last_open [OF assms(1), of "it_pipeline i"]
  by (cases i) (simp add: parse_end_def item_wf_def)

lemma parse_printed_sep:
  assumes "push_pipeline sep st = Inr st'"
  shows "parse_from st (print_sep sep @ t) = parse_from st' t"
proof -
  obtain c s where c: "print_sep sep @ t = c # s" "\<not> white c" "parse_token st c s = Inr (st', CHR '' '' # t)"
    using assms by (cases sep) (auto simp: print_sep_def parse_token_def peek_is_def white_def)
  have "parse_from st (c # s) = parse_from st' (CHR '' '' # t)" using c(2,3) by (rule parse_from_token)
  then show ?thesis unfolding c(1) by (simp add: parse_from_space)
qed

lemma parse_printed_items:
  assumes "fresh_pipeline st" "item_wf i" "it_sep i = ps_pending st" "list_all item_wf is"
  shows "parse_from st (print_pipeline (it_pipeline i) @ concat (map (\<lambda>j. print_sep (it_sep j) @ print_pipeline (it_pipeline j)) is)) =
    Inr (ps_script st @ i # is)"
  using assms
proof (induction "is" arbitrary: st i)
  case Nil
  then have "parse_from st (print_pipeline (it_pipeline i) @ []) = parse_from (last_open (it_pipeline i) st) []"
    by (intro parse_printed_pipeline) (simp_all add: item_wf_def)
  also have "\<dots> = Inr (ps_script st @ [i])"
    using parse_end_last_open Nil by (subst parse_from.simps) (simp add: skip_whitespace_def)
  finally show ?case by simp
next
  case (Cons j js)
  let ?st = "st\<lparr>ps_script := ps_script st @ [i], ps_pending := it_sep j\<rparr>"
  let ?tail = "concat (map (\<lambda>j. print_sep (it_sep j) @ print_pipeline (it_pipeline j)) js)"
  have "parse_from st (print_pipeline (it_pipeline i) @ print_sep (it_sep j) @ print_pipeline (it_pipeline j) @ ?tail) =
      parse_from (last_open (it_pipeline i) st) (print_sep (it_sep j) @ print_pipeline (it_pipeline j) @ ?tail)"
    using Cons.prems by (intro parse_printed_pipeline) (simp_all add: item_wf_def)
  also have "\<dots> = parse_from ?st (print_pipeline (it_pipeline j) @ ?tail)"
    using Cons.prems by (intro parse_printed_sep push_pipeline_last_open)
  also have "\<dots> = Inr (ps_script ?st @ j # js)"
    using Cons.prems by (intro Cons.IH) (simp_all add: fresh_pipeline_def fresh_stage_def)
  finally show ?case by simp
qed

text \<open>C26. The parser reads back every script it could have produced: printing a well-formed script, with
  its literals single-quoted, and parsing the text gives that script and no refusal, whatever
  characters the literals contain. With the previous property, the accepted scripts are exactly the
  well-formed ones.
\<close>

theorem classify_print_script:
  assumes "script_wf sc"
  shows "classify (print_script sc) = Inr sc"
proof (cases sc)
  case (Cons i "is")
  then have "parse_from initial_parse (print_script sc) = Inr (ps_script initial_parse @ i # is)"
    unfolding print_script_def Cons list.case
    using assms by (intro parse_printed_items)
      (simp_all add: Cons script_wf_def fresh_pipeline_def fresh_stage_def initial_parse_def)
  then show ?thesis by (simp add: classify_def Cons initial_parse_def)
qed (use assms in \<open>simp add: script_wf_def\<close>)

definition round_trip_script :: Script where
  "round_trip_script =
     [\<lparr>it_sep = SepSeq, it_pipeline =
        [\<lparr>cmd_argv = [ArgLit ''grep'', ArgLit ''it's $(id) | x'', ArgVarGlob [SegVar ''HOME'', SegLit ''/*'']],
          cmd_redirects = [RedStderrToStdout]\<rparr>,
         \<lparr>cmd_argv = [ArgLit ''2'', ArgLit []], cmd_redirects = [RedStdout [SegVar ''OUT''] True]\<rparr>]\<rparr>,
      \<lparr>it_sep = SepOr, it_pipeline = [\<lparr>cmd_argv = [ArgGlob ''a?''], cmd_redirects = [RedStdin [SegLit ''f'']]\<rparr>]\<rparr>]"

theorem classify_print_script_witness: "classify (print_script round_trip_script) = Inr round_trip_script"
  by (rule classify_print_script) code_simp

subsection \<open>Where quoting is not honoured\<close>

text \<open>Words keep no trace of how they were quoted. A quoted metacharacter in a word that also has an
  unquoted one comes out as an active metacharacter, and quoted digits before \<^verbatim>\<open>>\<close> are taken as a file
  descriptor although a shell reads \<^verbatim>\<open>'2'>f\<close> as an argument and a redirection of standard output.
\<close>

lemma quoted_glob_becomes_active: "read_word (''\"*\"?'') = read_word ''*?''"
  by code_simp

lemma quoted_digit_is_descriptor:
  "classify (''echo '' @ [CHR 0x27] @ ''2'' @ [CHR 0x27] @ ''>f'') = classify ''echo 2>f''"
  by code_simp

end
