(* ===== verification/Shell_Glob.thy ===== *)
theory Shell_Glob
  imports Tool_Context Std_Text Shell_Parse
begin

text \<open>
  Variable and glob expansion of the confined shell
  (\<^verbatim>\<open>agent-bridle-tool-shell/src/shell_tool.rs\<close>): the pattern matcher, the directory walk, and the
  lowering of words with variables. A Rust \<^verbatim>\<open>char\<close> is its UTF-8 byte sequence, whose lexicographic order
  is the order of the characters; the environment, the directory lister and the read leash are
  functions, as they are seams in the code.
\<close>

subsection \<open>The pattern matcher\<close>

fun match_class_loop :: "bool \<Rightarrow> string \<Rightarrow> bool \<Rightarrow> bool \<Rightarrow> string list \<Rightarrow> (bool \<times> string list) option" where
  "match_class_loop negate c first matched [] = None"
| "match_class_loop negate c first matched [a] =
     (if a = '']'' \<and> \<not> first then Some (matched \<noteq> negate, []) else None)"
| "match_class_loop negate c first matched [a, d] =
     (if a = '']'' \<and> \<not> first then Some (matched \<noteq> negate, [d])
      else match_class_loop negate c False (matched \<or> c = a) [d])"
| "match_class_loop negate c first matched (a # d # b # p) =
     (if a = '']'' \<and> \<not> first then Some (matched \<noteq> negate, d # b # p)
      else if d = ''-'' \<and> b \<noteq> '']'' then match_class_loop negate c False (matched \<or> a \<le> c \<and> c \<le> b) p
      else match_class_loop negate c False (matched \<or> c = a) (d # b # p))"

definition match_class :: "string list \<Rightarrow> string \<Rightarrow> (bool \<times> string list) option" where
  "match_class p c =
     (let negate = (case p of [] \<Rightarrow> False | a # _ \<Rightarrow> a = ''!'' \<or> a = ''^'')
      in match_class_loop negate c True False (if negate then tl p else p))"

lemma match_class_loop_shorter:
  "match_class_loop negate c first matched p = Some (r, rest) \<Longrightarrow> length rest < length p"
  by (induction negate c first matched p rule: match_class_loop.induct) (auto split: if_splits)

lemma match_class_shorter: "match_class p c = Some (r, rest) \<Longrightarrow> length rest < length p"
  by (cases p) (auto simp: match_class_def Let_def split: if_splits dest!: match_class_loop_shorter)

function fnmatch_inner :: "string list \<Rightarrow> string list \<Rightarrow> bool" where
  "fnmatch_inner [] n = (n = [])"
| "fnmatch_inner (a # p) n =
     (if a = ''*'' then fnmatch_inner p n \<or> (if n = [] then False else fnmatch_inner (a # p) (tl n))
      else if a = ''?'' then n \<noteq> [] \<and> fnmatch_inner p (tl n)
      else if a = ''['' then
        (if n = [] then False
         else (case match_class p (hd n) of
             Some (matched, rest) \<Rightarrow> matched \<and> fnmatch_inner rest (tl n)
           | None \<Rightarrow> hd n = ''['' \<and> fnmatch_inner p (tl n)))
      else n \<noteq> [] \<and> a = hd n \<and> fnmatch_inner p (tl n))"
  by pat_completeness auto
termination
  by (relation "measure (\<lambda>(p, n). length p + length n)") (auto dest: match_class_shorter)

declare fnmatch_inner.simps [simp del]

definition fnmatch :: "string \<Rightarrow> string \<Rightarrow> bool" where
  "fnmatch pattern name = fnmatch_inner (utf8_chars pattern) (utf8_chars name)"

subsection \<open>The walk\<close>

record GlobEntry =
  ge_name :: string
  ge_is_dir :: bool

type_synonym lister = "string \<Rightarrow> GlobEntry list"
type_synonym leash = "string \<Rightarrow> unit ToolResult"
type_synonym frontier = "(string \<times> string) list"

text \<open>\<^verbatim>\<open>Path::join\<close> on the text of a path.\<close>

definition path_join :: "string \<Rightarrow> string \<Rightarrow> string" where
  "path_join base name =
     (if name \<noteq> [] \<and> hd name = CHR ''/'' then name
      else if base = [] \<or> last base = CHR ''/'' then base @ name
      else base @ ''/'' @ name)"

definition join_rel :: "string \<Rightarrow> string \<Rightarrow> string" where
  "join_rel rel name = (if rel = [] then name else if rel = ''/'' then ''/'' @ name else rel @ ''/'' @ name)"

definition hidden :: "string \<Rightarrow> bool" where
  "hidden name \<longleftrightarrow> name \<noteq> [] \<and> hd name = CHR ''.''"

definition sorted_entries :: "lister \<Rightarrow> string \<Rightarrow> GlobEntry list" where
  "sorted_entries ls real = sort_key ge_name (ls real)"

function descend_all :: "lister \<Rightarrow> leash \<Rightarrow> nat \<Rightarrow> nat \<Rightarrow> string \<Rightarrow> string \<Rightarrow> frontier \<Rightarrow> frontier ToolResult"
  and descend_entries :: "lister \<Rightarrow> leash \<Rightarrow> nat \<Rightarrow> nat \<Rightarrow> string \<Rightarrow> string \<Rightarrow> GlobEntry list \<Rightarrow> frontier \<Rightarrow> frontier ToolResult"
where
  "descend_all ls lsh max_matches 0 real rel out = Inr out"
| "descend_all ls lsh max_matches (Suc depth) real rel out =
     (if max_matches \<le> length out then Inr out
      else (case lsh real of
          Inl e \<Rightarrow> Inl e
        | Inr _ \<Rightarrow> descend_entries ls lsh max_matches depth real rel (sorted_entries ls real) out))"
| "descend_entries ls lsh max_matches depth real rel [] out = Inr out"
| "descend_entries ls lsh max_matches depth real rel (e # es) out =
     (if ge_is_dir e \<and> \<not> hidden (ge_name e) then
       (let child_real = path_join real (ge_name e); child_rel = join_rel rel (ge_name e);
            out' = out @ [(child_real, child_rel)] in
        if max_matches \<le> length out' then Inr out'
        else (case descend_all ls lsh max_matches depth child_real child_rel out' of
            Inl err \<Rightarrow> Inl err
          | Inr out'' \<Rightarrow> descend_entries ls lsh max_matches depth real rel es out''))
      else descend_entries ls lsh max_matches depth real rel es out)"
  by pat_completeness auto
termination
  by (relation "measures [\<lambda>x. case x of Inl (ls, lsh, m, d, real, rel, out) \<Rightarrow> d
      | Inr (ls, lsh, m, d, real, rel, es, out) \<Rightarrow> d,
    \<lambda>x. case x of Inl _ \<Rightarrow> 0 | Inr (ls, lsh, m, d, real, rel, es, out) \<Rightarrow> Suc (length es)]") auto

fun match_entries :: "string \<Rightarrow> nat \<Rightarrow> string \<Rightarrow> string \<Rightarrow> GlobEntry list \<Rightarrow> frontier \<Rightarrow> frontier" where
  "match_entries seg max_matches real rel [] nxt = nxt"
| "match_entries seg max_matches real rel (e # es) nxt =
     (if (hidden seg \<or> \<not> hidden (ge_name e)) \<and> fnmatch seg (ge_name e) then
       (let nxt' = nxt @ [(path_join real (ge_name e), join_rel rel (ge_name e))] in
        if max_matches \<le> length nxt' then nxt' else match_entries seg max_matches real rel es nxt')
      else match_entries seg max_matches real rel es nxt)"

definition glob_dir :: "lister \<Rightarrow> leash \<Rightarrow> nat \<Rightarrow> nat \<Rightarrow> string \<Rightarrow> string \<times> string \<Rightarrow> frontier \<Rightarrow> frontier ToolResult" where
  "glob_dir ls lsh max_depth max_matches seg dir nxt =
     (case dir of (real, rel) \<Rightarrow>
       if seg = ''**'' then descend_all ls lsh max_matches max_depth real rel (nxt @ [(real, rel)])
       else (case lsh real of
           Inl e \<Rightarrow> Inl e
         | Inr _ \<Rightarrow> Inr (match_entries seg max_matches real rel (sorted_entries ls real) nxt)))"

fun glob_segment :: "lister \<Rightarrow> leash \<Rightarrow> nat \<Rightarrow> nat \<Rightarrow> string \<Rightarrow> frontier \<Rightarrow> frontier \<Rightarrow> frontier ToolResult" where
  "glob_segment ls lsh max_depth max_matches seg [] nxt = Inr nxt"
| "glob_segment ls lsh max_depth max_matches seg (dir # dirs) nxt =
     (case glob_dir ls lsh max_depth max_matches seg dir nxt of
        Inl e \<Rightarrow> Inl e
      | Inr nxt' \<Rightarrow> glob_segment ls lsh max_depth max_matches seg dirs nxt')"

fun glob_segments :: "lister \<Rightarrow> leash \<Rightarrow> nat \<Rightarrow> nat \<Rightarrow> string list \<Rightarrow> frontier \<Rightarrow> frontier ToolResult" where
  "glob_segments ls lsh max_depth max_matches [] frontier = Inr frontier"
| "glob_segments ls lsh max_depth max_matches (seg # segs) frontier =
     (case glob_segment ls lsh max_depth max_matches seg frontier [] of
        Inl e \<Rightarrow> Inl e
      | Inr nxt \<Rightarrow> if nxt = [] then Inr [] else glob_segments ls lsh max_depth max_matches segs nxt)"

definition pattern_segments :: "string \<Rightarrow> string list" where
  "pattern_segments pattern = filter (\<lambda>s. s \<noteq> []) (split_char CHR ''/'' pattern)"

definition glob_base :: "string \<Rightarrow> string option \<Rightarrow> string \<times> string" where
  "glob_base pattern cwd =
     (if pattern \<noteq> [] \<and> hd pattern = CHR ''/'' then (''/'', ''/'')
      else (case cwd of None \<Rightarrow> ''.'' | Some d \<Rightarrow> d, []))"

definition expand_glob_walk ::
  "string \<Rightarrow> string option \<Rightarrow> lister \<Rightarrow> leash \<Rightarrow> nat \<Rightarrow> nat \<Rightarrow> string list ToolResult" where
  "expand_glob_walk pattern cwd ls lsh max_depth max_matches =
     (case glob_segments ls lsh max_depth max_matches (pattern_segments pattern) [glob_base pattern cwd] of
        Inl e \<Rightarrow> Inl e
      | Inr frontier \<Rightarrow>
          let found = remdups_adj (sort (filter (\<lambda>m. m \<noteq> []) (map snd frontier)))
          in Inr (if found = [] then [pattern] else found))"

subsection \<open>What a pattern denotes\<close>

text \<open>
  A pattern is a sequence of tokens, and a name matches when it splits into one part per token. The
  tokens are found by reading the pattern once, with no name at hand: a class ends at the same bracket
  whatever it is matched against.
\<close>

datatype glob_token = AnyRun | AnyOne | Exactly string | OneOf bool "(string \<times> string) list"

fun class_items :: "bool \<Rightarrow> string list \<Rightarrow> ((string \<times> string) list \<times> string list) option" where
  "class_items first [] = None"
| "class_items first [a] = (if a = '']'' \<and> \<not> first then Some ([], []) else None)"
| "class_items first [a, d] =
     (if a = '']'' \<and> \<not> first then Some ([], [d])
      else map_option (\<lambda>(items, rest). ((a, a) # items, rest)) (class_items False [d]))"
| "class_items first (a # d # b # p) =
     (if a = '']'' \<and> \<not> first then Some ([], d # b # p)
      else if d = ''-'' \<and> b \<noteq> '']'' then map_option (\<lambda>(items, rest). ((a, b) # items, rest)) (class_items False p)
      else map_option (\<lambda>(items, rest). ((a, a) # items, rest)) (class_items False (d # b # p)))"

definition negated :: "string list \<Rightarrow> bool" where
  "negated p = (case p of [] \<Rightarrow> False | a # _ \<Rightarrow> a = ''!'' \<or> a = ''^'')"

definition read_class :: "string list \<Rightarrow> (glob_token \<times> string list) option" where
  "read_class p =
     map_option (\<lambda>(items, rest). (OneOf (negated p) items, rest)) (class_items True (if negated p then tl p else p))"

lemma class_items_shorter: "class_items first p = Some (items, rest) \<Longrightarrow> length rest < length p"
  by (induction first p arbitrary: items rule: class_items.induct) (auto split: if_splits)

lemma read_class_shorter: "read_class p = Some (tok, rest) \<Longrightarrow> length rest < length p"
  by (cases p) (auto simp: read_class_def split: if_splits dest!: class_items_shorter)

function glob_tokens :: "string list \<Rightarrow> glob_token list" where
  "glob_tokens [] = []"
| "glob_tokens (a # p) =
     (if a = ''*'' then AnyRun # glob_tokens p
      else if a = ''?'' then AnyOne # glob_tokens p
      else if a = ''['' then
        (case read_class p of Some (tok, rest) \<Rightarrow> tok # glob_tokens rest | None \<Rightarrow> Exactly a # glob_tokens p)
      else Exactly a # glob_tokens p)"
  by pat_completeness auto
termination
  by (relation "measure length") (auto dest: read_class_shorter)

declare glob_tokens.simps [simp del]

fun token_matches :: "glob_token \<Rightarrow> string list \<Rightarrow> bool" where
  "token_matches AnyRun part = True"
| "token_matches AnyOne part = (length part = 1)"
| "token_matches (Exactly c) part = (part = [c])"
| "token_matches (OneOf negate items) part =
     (length part = 1 \<and> list_ex (\<lambda>(a, b). a \<le> hd part \<and> hd part \<le> b) items \<noteq> negate)"

definition splits_as :: "glob_token list \<Rightarrow> string list \<Rightarrow> bool" where
  "splits_as toks n \<longleftrightarrow> (\<exists>parts. list_all2 token_matches toks parts \<and> concat parts = n)"

lemma splits_as_Nil: "splits_as [] n \<longleftrightarrow> n = []"
  by (auto simp: splits_as_def)

lemma splits_as_Cons: "splits_as (t # toks) n \<longleftrightarrow> (\<exists>a b. n = a @ b \<and> token_matches t a \<and> splits_as toks b)"
proof
  assume "splits_as (t # toks) n"
  then obtain z zs where "n = z @ concat zs" "token_matches t z" "list_all2 token_matches toks zs"
    by (auto simp: splits_as_def list_all2_Cons1)
  then show "\<exists>a b. n = a @ b \<and> token_matches t a \<and> splits_as toks b"
    unfolding splits_as_def by blast
next
  assume "\<exists>a b. n = a @ b \<and> token_matches t a \<and> splits_as toks b"
  then obtain a parts where "n = a @ concat parts" "token_matches t a" "list_all2 token_matches toks parts"
    by (auto simp: splits_as_def)
  then have "list_all2 token_matches (t # toks) (a # parts)" "concat (a # parts) = n" by simp_all
  then show "splits_as (t # toks) n" unfolding splits_as_def by blast
qed

lemma splits_as_one:
  assumes "\<And>a. token_matches t a \<Longrightarrow> length a = 1"
  shows "splits_as (t # toks) n \<longleftrightarrow> n \<noteq> [] \<and> token_matches t [hd n] \<and> splits_as toks (tl n)"
proof
  assume "splits_as (t # toks) n"
  then obtain a b where "n = a @ b" "token_matches t a" "splits_as toks b" by (auto simp: splits_as_Cons)
  moreover from this assms obtain c where "a = [c]" by (metis One_nat_def length_Suc_conv length_0_conv)
  ultimately show "n \<noteq> [] \<and> token_matches t [hd n] \<and> splits_as toks (tl n)" by simp
next
  assume "n \<noteq> [] \<and> token_matches t [hd n] \<and> splits_as toks (tl n)"
  then show "splits_as (t # toks) n"
    unfolding splits_as_Cons by (intro exI [of _ "[hd n]"] exI [of _ "tl n"]) simp
qed

lemma splits_as_AnyRun: "splits_as (AnyRun # toks) n \<longleftrightarrow> splits_as toks n \<or> n \<noteq> [] \<and> splits_as (AnyRun # toks) (tl n)"
proof (cases n)
  case (Cons c m)
  have "(\<exists>a b. c # m = a @ b \<and> splits_as toks b) \<longleftrightarrow> splits_as toks (c # m) \<or> (\<exists>a b. m = a @ b \<and> splits_as toks b)"
    by (auto simp: Cons_eq_append_conv)
  then show ?thesis by (simp add: splits_as_Cons Cons)
qed (auto simp: splits_as_Cons)

lemma range_single [simp]: "a \<le> c \<and> c \<le> a \<longleftrightarrow> c = a" for a c :: string
  by auto

lemma match_class_loop_items:
  "match_class_loop negate c first matched p =
     map_option (\<lambda>(items, rest). ((matched \<or> list_ex (\<lambda>(a, b). a \<le> c \<and> c \<le> b) items) \<noteq> negate, rest)) (class_items first p)"
proof (induction negate c first matched p rule: match_class_loop.induct)
  case (3 negate c first matched a d)
  then show ?case by (cases "class_items False [d]") (auto split: if_splits)
next
  case (4 negate c first matched a d b p)
  then show ?case
    by (cases "class_items False p"; cases "class_items False (d # b # p)") (simp_all add: case_prod_beta disj_assoc)
qed simp_all

lemma match_class_read:
  "match_class p c = map_option (\<lambda>(tok, rest). (token_matches tok [c], rest)) (read_class p)"
  unfolding match_class_def read_class_def negated_def Let_def
  by (simp add: match_class_loop_items option.map_comp o_def split_def)

lemma fnmatch_inner_tokens: "fnmatch_inner p n \<longleftrightarrow> splits_as (glob_tokens p) n"
proof (induction p n rule: fnmatch_inner.induct)
  case (1 n)
  then show ?case by (simp add: fnmatch_inner.simps glob_tokens.simps splits_as_Nil)
next
  case (2 a p n)
  consider "a = ''*''" | "a = ''?''" | "a = ''[''" | "a \<notin> {''*'', ''?'', ''[''}" by blast
  then show ?case
  proof cases
    case 1
    then have "splits_as (glob_tokens (a # p)) n \<longleftrightarrow>
        splits_as (glob_tokens p) n \<or> n \<noteq> [] \<and> splits_as (glob_tokens (a # p)) (tl n)"
      by (simp add: glob_tokens.simps(2)) (rule splits_as_AnyRun)
    moreover have "fnmatch_inner (a # p) n \<longleftrightarrow> fnmatch_inner p n \<or> n \<noteq> [] \<and> fnmatch_inner (a # p) (tl n)"
      using 1 by (subst fnmatch_inner.simps) simp
    ultimately show ?thesis using 1 "2.IH"(1,2) by blast
  next
    case 2
    then show ?thesis using "2.IH"(3) splits_as_one [of AnyOne]
      by (simp add: fnmatch_inner.simps glob_tokens.simps)
  next
    case 3
    show ?thesis
    proof (cases "read_class p")
      case None
      then show ?thesis using 3 "2.IH"(4-) splits_as_one [of "Exactly a"]
        by (auto simp: fnmatch_inner.simps glob_tokens.simps match_class_read)
    next
      case (Some tr)
      then obtain tok rest where tr: "read_class p = Some (tok, rest)" by (cases tr) auto
      then have "token_matches tok part \<Longrightarrow> length part = 1" for part
        by (auto simp: read_class_def)
      then show ?thesis using 3 tr "2.IH"(4-) splits_as_one [of tok]
        by (auto simp: fnmatch_inner.simps glob_tokens.simps match_class_read)
    qed
  next
    case 4
    then show ?thesis using "2.IH"(4-) splits_as_one [of "Exactly a"]
      by (auto simp: fnmatch_inner.simps glob_tokens.simps)
  qed
qed

text \<open>The backtracking matcher decides exactly the language of the pattern: a name matches when it splits
  into consecutive parts, one per token of the pattern, with any run for \<^verbatim>\<open>*\<close>, one character for \<^verbatim>\<open>?\<close>,
  one character inside or outside the ranges for a class, and an unterminated bracket standing for itself.
\<close>

theorem fnmatch_denotes:
  "fnmatch pattern name \<longleftrightarrow>
     (\<exists>parts. list_all2 token_matches (glob_tokens (utf8_chars pattern)) parts \<and> concat parts = utf8_chars name)"
  by (simp add: fnmatch_def fnmatch_inner_tokens splits_as_def)

subsection \<open>The walk stays inside the leash\<close>

definition same_where_granted :: "leash \<Rightarrow> lister \<Rightarrow> lister \<Rightarrow> bool" where
  "same_where_granted lsh ls ls' \<longleftrightarrow> (\<forall>d. is_ok (lsh d) \<longrightarrow> ls d = ls' d)"

lemma sorted_entries_granted:
  "same_where_granted lsh ls ls' \<Longrightarrow> lsh d = Inr u \<Longrightarrow> sorted_entries ls' d = sorted_entries ls d"
  by (auto simp: same_where_granted_def sorted_entries_def is_ok_def split: sum.splits)

lemma descend_granted:
  "same_where_granted lsh ls ls' \<Longrightarrow> descend_all ls' lsh m depth real rel out = descend_all ls lsh m depth real rel out"
  "same_where_granted lsh ls ls' \<Longrightarrow> descend_entries ls' lsh m depth real rel es out = descend_entries ls lsh m depth real rel es out"
proof (induction ls lsh m depth real rel out and ls lsh m depth real rel es out
    rule: descend_all_descend_entries.induct)
  case (2 ls lsh m depth real rel out)
  then show ?case by (cases "lsh real") (simp_all add: sorted_entries_granted)
next
  case (4 ls lsh m depth real rel e es out)
  then show ?case by (simp add: Let_def split: sum.splits)
qed simp_all

lemma glob_dir_granted:
  "same_where_granted lsh ls ls' \<Longrightarrow> glob_dir ls' lsh max_depth m seg dir nxt = glob_dir ls lsh max_depth m seg dir nxt"
  by (cases dir; cases "lsh (fst dir)") (simp_all add: glob_dir_def descend_granted sorted_entries_granted)

lemma glob_segment_granted:
  "same_where_granted lsh ls ls' \<Longrightarrow>
   glob_segment ls' lsh max_depth m seg dirs nxt = glob_segment ls lsh max_depth m seg dirs nxt"
  by (induction dirs arbitrary: nxt) (simp_all add: glob_dir_granted split: sum.splits)

lemma glob_segments_granted:
  "same_where_granted lsh ls ls' \<Longrightarrow>
   glob_segments ls' lsh max_depth m segs dirs = glob_segments ls lsh max_depth m segs dirs"
  by (induction segs arbitrary: dirs) (simp_all add: glob_segment_granted split: sum.splits)

text \<open>C32. A directory the read leash refuses has no influence on a glob: two file systems that list the
  granted directories alike give the same expansion, or the same refusal, whatever the others hold.
\<close>

theorem glob_ignores_ungranted:
  assumes "same_where_granted lsh ls ls'"
  shows "expand_glob_walk pattern cwd ls' lsh max_depth max_matches = expand_glob_walk pattern cwd ls lsh max_depth max_matches"
  by (simp add: expand_glob_walk_def glob_segments_granted [OF assms])

subsection \<open>What the walk finds\<close>

definition child_dir :: "lister \<Rightarrow> leash \<Rightarrow> string \<times> string \<Rightarrow> string \<times> string \<Rightarrow> bool" where
  "child_dir ls lsh d d' \<longleftrightarrow> is_ok (lsh (fst d)) \<and>
     (\<exists>e \<in> set (ls (fst d)). ge_is_dir e \<and> \<not> hidden (ge_name e) \<and>
        d' = (path_join (fst d) (ge_name e), join_rel (snd d) (ge_name e)))"

definition child_match :: "lister \<Rightarrow> leash \<Rightarrow> string \<Rightarrow> string \<times> string \<Rightarrow> string \<times> string \<Rightarrow> bool" where
  "child_match ls lsh seg d d' \<longleftrightarrow> is_ok (lsh (fst d)) \<and>
     (\<exists>e \<in> set (ls (fst d)). (hidden seg \<or> \<not> hidden (ge_name e)) \<and> fnmatch seg (ge_name e) \<and>
        d' = (path_join (fst d) (ge_name e), join_rel (snd d) (ge_name e)))"

text \<open>One segment of a pattern leads from a place to another; a double star through directories only.\<close>

definition segment_step :: "lister \<Rightarrow> leash \<Rightarrow> string \<Rightarrow> string \<times> string \<Rightarrow> string \<times> string \<Rightarrow> bool" where
  "segment_step ls lsh seg =
     (if seg = ''**'' then (child_dir ls lsh)\<^sup>*\<^sup>* else child_match ls lsh seg)"

inductive glob_reach :: "lister \<Rightarrow> leash \<Rightarrow> string list \<Rightarrow> string \<times> string \<Rightarrow> string \<times> string \<Rightarrow> bool"
  for ls lsh where
  here: "glob_reach ls lsh [] d d"
| there: "segment_step ls lsh seg d m \<Longrightarrow> glob_reach ls lsh segs m d' \<Longrightarrow> glob_reach ls lsh (seg # segs) d d'"

lemma set_sorted_entries [simp]: "set (sorted_entries ls d) = set (ls d)"
  by (simp add: sorted_entries_def)

lemma descend_sound:
  "descend_all ls lsh m depth real rel out = Inr out' \<Longrightarrow> d \<in> set out' \<Longrightarrow>
     d \<in> set out \<or> (child_dir ls lsh)\<^sup>*\<^sup>* (real, rel) d"
  "descend_entries ls lsh m depth real rel es out = Inr out' \<Longrightarrow> d \<in> set out' \<Longrightarrow>
     is_ok (lsh real) \<Longrightarrow> set es \<subseteq> set (ls real) \<Longrightarrow> d \<in> set out \<or> (child_dir ls lsh)\<^sup>*\<^sup>* (real, rel) d"
proof (induction ls lsh m depth real rel out and ls lsh m depth real rel es out arbitrary: out' and out'
    rule: descend_all_descend_entries.induct)
  case (2 ls lsh m depth real rel out)
  then show ?case by (cases "lsh real") (auto split: if_splits)
next
  case (4 ls lsh m depth real rel e es out)
  let ?child = "(path_join real (ge_name e), join_rel rel (ge_name e))"
  show ?case
  proof (cases "ge_is_dir e \<and> \<not> hidden (ge_name e)")
    case True
    then have child: "child_dir ls lsh (real, rel) ?child" using "4.prems"(3,4) by (auto simp: child_dir_def)
    show ?thesis
    proof (cases "m \<le> Suc (length out)")
      case True
      with "4.prems" \<open>ge_is_dir e \<and> \<not> hidden (ge_name e)\<close> child show ?thesis by auto
    next
      case False
      with "4.prems"(1) True obtain mid where
        mid: "descend_all ls lsh m depth (path_join real (ge_name e)) (join_rel rel (ge_name e)) (out @ [?child]) = Inr mid"
          "descend_entries ls lsh m depth real rel es mid = Inr out'"
        by (auto simp: Let_def split: sum.splits)
      have "d \<in> set mid \<or> (child_dir ls lsh)\<^sup>*\<^sup>* (real, rel) d"
        using "4.IH"(2) [OF True refl refl refl _ mid(1) mid(2) "4.prems"(2,3)] "4.prems"(4) False by auto
      moreover have "d \<in> set mid \<Longrightarrow> d \<in> set (out @ [?child]) \<or> (child_dir ls lsh)\<^sup>*\<^sup>* ?child d"
        using "4.IH"(1) [OF True refl refl refl _ mid(1)] False by auto
      ultimately show ?thesis using child by (auto intro: converse_rtranclp_into_rtranclp)
    qed
  next
    case False
    with 4 show ?thesis by auto
  qed
qed simp_all

lemma match_entries_sound:
  "d \<in> set (match_entries seg m real rel es nxt) \<Longrightarrow> is_ok (lsh real) \<Longrightarrow> set es \<subseteq> set (ls real) \<Longrightarrow>
     d \<in> set nxt \<or> child_match ls lsh seg (real, rel) d"
  by (induction seg m real rel es nxt rule: match_entries.induct)
    (auto simp: Let_def child_match_def split: if_splits)

lemma glob_dir_sound:
  assumes "glob_dir ls lsh max_depth m seg dir nxt = Inr nxt'" "d \<in> set nxt'"
  shows "d \<in> set nxt \<or> segment_step ls lsh seg dir d"
proof (cases "seg = ''**''")
  case True
  with assms have "descend_all ls lsh m max_depth (fst dir) (snd dir) (nxt @ [dir]) = Inr nxt'"
    by (simp add: glob_dir_def case_prod_beta)
  from descend_sound(1) [OF this assms(2)] True show ?thesis by (auto simp: segment_step_def)
next
  case False
  with assms(1) have "is_ok (lsh (fst dir))"
    and "nxt' = match_entries seg m (fst dir) (snd dir) (sorted_entries ls (fst dir)) nxt"
    by (auto simp: glob_dir_def case_prod_beta split: sum.splits)
  with assms(2) match_entries_sound [of d seg m "fst dir" "snd dir" _ nxt lsh ls] False show ?thesis
    by (auto simp: segment_step_def)
qed

lemma glob_segment_sound:
  "glob_segment ls lsh max_depth m seg dirs nxt = Inr nxt' \<Longrightarrow> d \<in> set nxt' \<Longrightarrow>
     d \<in> set nxt \<or> (\<exists>dir \<in> set dirs. segment_step ls lsh seg dir d)"
proof (induction dirs arbitrary: nxt)
  case (Cons dir dirs)
  then obtain mid where mid: "glob_dir ls lsh max_depth m seg dir nxt = Inr mid"
      "glob_segment ls lsh max_depth m seg dirs mid = Inr nxt'"
    by (auto split: sum.splits)
  from Cons.IH [OF mid(2) Cons.prems(2)] glob_dir_sound [OF mid(1), of d] show ?case by auto
qed simp

lemma glob_segments_sound:
  "glob_segments ls lsh max_depth m segs dirs = Inr found \<Longrightarrow> d \<in> set found \<Longrightarrow>
     \<exists>dir \<in> set dirs. glob_reach ls lsh segs dir d"
proof (induction segs arbitrary: dirs)
  case Nil
  then show ?case by (auto intro: glob_reach.here)
next
  case (Cons seg segs)
  then obtain nxt where nxt: "glob_segment ls lsh max_depth m seg dirs [] = Inr nxt"
      "glob_segments ls lsh max_depth m segs nxt = Inr found"
    by (auto split: sum.splits if_splits)
  from Cons.IH [OF nxt(2) Cons.prems(2)] obtain mid where "mid \<in> set nxt" "glob_reach ls lsh segs mid d" by blast
  moreover from this glob_segment_sound [OF nxt(1)] obtain dir where "dir \<in> set dirs" "segment_step ls lsh seg dir mid"
    by fastforce
  ultimately show ?case by (blast intro: glob_reach.there)
qed

subsection \<open>How much it finds\<close>


lemma match_entries_bounded: "length (match_entries seg m real rel es nxt) \<le> max m (Suc (length nxt))"
  by (induction seg m real rel es nxt rule: match_entries.induct) (auto simp: Let_def)

lemma descend_bounded:
  "descend_all ls lsh m depth real rel out = Inr out' \<Longrightarrow> length out' \<le> max (m + depth) (length out)"
  "descend_entries ls lsh m depth real rel es out = Inr out' \<Longrightarrow> length out' \<le> max (m + depth + 1) (Suc (length out))"
proof (induction ls lsh m depth real rel out and ls lsh m depth real rel es out arbitrary: out' and out'
    rule: descend_all_descend_entries.induct)
  case (2 ls lsh m depth real rel out)
  then show ?case by (cases "lsh real") (fastforce split: if_splits)+
next
  case (4 ls lsh m depth real rel e es out)
  let ?child = "(path_join real (ge_name e), join_rel rel (ge_name e))"
  show ?case
  proof (cases "ge_is_dir e \<and> \<not> hidden (ge_name e) \<and> \<not> m \<le> Suc (length out)")
    case True
    with "4.prems"(1) obtain mid where
      mid: "descend_all ls lsh m depth (path_join real (ge_name e)) (join_rel rel (ge_name e)) (out @ [?child]) = Inr mid"
        "descend_entries ls lsh m depth real rel es mid = Inr out'"
      by (auto simp: Let_def split: sum.splits)
    have "length mid \<le> max (m + depth) (Suc (length out))"
      using "4.IH"(1) [OF _ refl refl refl _ mid(1)] True by simp
    moreover have "length out' \<le> max (m + depth + 1) (Suc (length mid))"
      using "4.IH"(2) [OF _ refl refl refl _ mid] True by simp
    ultimately show ?thesis using True by simp
  next
    case False
    with 4 show ?thesis by (auto simp: Let_def split: if_splits)
  qed
qed simp_all

lemma glob_dir_bounded:
  assumes "glob_dir ls lsh max_depth m seg dir nxt = Inr nxt'"
  shows "length nxt' \<le> max (m + max_depth) (Suc (length nxt))"
proof (cases "seg = ''**''")
  case True
  with assms have "descend_all ls lsh m max_depth (fst dir) (snd dir) (nxt @ [dir]) = Inr nxt'"
    by (simp add: glob_dir_def case_prod_beta)
  from descend_bounded(1) [OF this] show ?thesis by simp
next
  case False
  with assms have "nxt' = match_entries seg m (fst dir) (snd dir) (sorted_entries ls (fst dir)) nxt"
    by (auto simp: glob_dir_def case_prod_beta split: sum.splits)
  with match_entries_bounded [of seg m "fst dir" "snd dir" "sorted_entries ls (fst dir)" nxt] show ?thesis by simp
qed

lemma glob_segment_bounded:
  "glob_segment ls lsh max_depth m seg dirs nxt = Inr nxt' \<Longrightarrow>
   length nxt' \<le> max (m + max_depth) (length nxt) + length dirs"
proof (induction dirs arbitrary: nxt)
  case (Cons dir dirs)
  then obtain mid where mid: "glob_dir ls lsh max_depth m seg dir nxt = Inr mid"
      "glob_segment ls lsh max_depth m seg dirs mid = Inr nxt'"
    by (auto split: sum.splits)
  from Cons.IH [OF mid(2)] glob_dir_bounded [OF mid(1)] show ?case by simp
qed simp

lemma glob_segments_bounded:
  "glob_segments ls lsh max_depth m segs dirs = Inr found \<Longrightarrow>
   length found \<le> length dirs + length segs * (m + max_depth)"
proof (induction segs arbitrary: dirs)
  case (Cons seg segs)
  then obtain nxt where nxt: "glob_segment ls lsh max_depth m seg dirs [] = Inr nxt"
      "nxt = [] \<and> found = [] \<or> glob_segments ls lsh max_depth m segs nxt = Inr found"
    by (auto split: sum.splits if_splits)
  then show ?case using Cons.IH [of nxt] glob_segment_bounded [OF nxt(1)] by auto
qed simp

text \<open>What a glob expands to: either the pattern itself, or a sorted list without repetitions in which
  every entry is reached from the base of the pattern segment by segment, each segment through an entry
  of a directory the read leash grants (a double star through any number of visible directories). Its
  length is at most one plus, for every segment, the match limit and the depth limit.
\<close>

theorem expand_glob_walk_sound:
  assumes "expand_glob_walk pattern cwd ls lsh max_depth max_matches = Inr found"
  shows "(found = [pattern] \<or>
      (\<forall>m \<in> set found. \<exists>real. glob_reach ls lsh (pattern_segments pattern) (glob_base pattern cwd) (real, m))) \<and>
    sorted found \<and> distinct found \<and>
    length found \<le> 1 + length (pattern_segments pattern) * (max_matches + max_depth)"
proof -
  obtain frontier where walk: "glob_segments ls lsh max_depth max_matches (pattern_segments pattern) [glob_base pattern cwd] = Inr frontier"
    and found: "found = [pattern] \<or> found = remdups_adj (sort (filter (\<lambda>m. m \<noteq> []) (map snd frontier)))"
    using assms by (auto simp: expand_glob_walk_def Let_def split: sum.splits if_splits)
  have "length (remdups_adj (sort (filter (\<lambda>m. m \<noteq> []) (map snd frontier)))) \<le> length frontier"
    by (rule order_trans [OF remdups_adj_length])
      (use length_filter_le [of "\<lambda>m. m \<noteq> []" "map snd frontier"] in simp)
  moreover have "length frontier \<le> 1 + length (pattern_segments pattern) * (max_matches + max_depth)"
    using glob_segments_bounded [OF walk] by simp
  moreover have "\<exists>real. glob_reach ls lsh (pattern_segments pattern) (glob_base pattern cwd) (real, m)"
    if "m \<in> set (map snd frontier)" for m
    using that glob_segments_sound [OF walk] by fastforce
  ultimately show ?thesis using found by (auto simp: distinct_remdups_adj_sorted)
qed

definition demo_lister :: lister where
  "demo_lister d =
     (if d = ''.'' then [\<lparr>ge_name = ''b'', ge_is_dir = True\<rparr>, \<lparr>ge_name = ''a'', ge_is_dir = True\<rparr>]
      else if d = ''./a'' then [\<lparr>ge_name = ''x.rs'', ge_is_dir = False\<rparr>]
      else if d = ''./b'' then [\<lparr>ge_name = ''y.rs'', ge_is_dir = False\<rparr>, \<lparr>ge_name = ''.h.rs'', ge_is_dir = False\<rparr>]
      else [])"

definition demo_leash :: leash where
  "demo_leash d = (if prefix ''./c'' d then Inl (denied ''x'' []) else Inr ())"

lemma demo_walk: "expand_glob_walk ''*/*.rs'' None demo_lister demo_leash 3 9 = Inr [''a/x.rs'', ''b/y.rs'']"
  by code_simp

theorem expand_glob_walk_sound_witness:
  "([''a/x.rs'', ''b/y.rs''] = [''*/*.rs''] \<or>
      (\<forall>m \<in> set [''a/x.rs'', ''b/y.rs'']. \<exists>real. glob_reach demo_lister demo_leash (pattern_segments ''*/*.rs'') (glob_base ''*/*.rs'' None) (real, m))) \<and>
    sorted [''a/x.rs'', ''b/y.rs''] \<and> distinct [''a/x.rs'', ''b/y.rs''] \<and>
    length [''a/x.rs'', ''b/y.rs''] \<le> 1 + length (pattern_segments ''*/*.rs'') * (9 + 3)"
  using demo_walk by (rule expand_glob_walk_sound)

theorem glob_ignores_ungranted_witness:
  "expand_glob_walk ''**'' None (\<lambda>d. if prefix ''./c'' d then [\<lparr>ge_name = ''secret'', ge_is_dir = True\<rparr>] else demo_lister d) demo_leash 3 9 =
   expand_glob_walk ''**'' None demo_lister demo_leash 3 9"
  by (rule glob_ignores_ungranted) (auto simp: same_where_granted_def demo_leash_def)

text \<open>
  The documented bounds are not bounds of the result: the match limit only stops the scan of one
  directory, so that every further directory of the frontier adds an entry.
\<close>

definition two_rooms :: lister where
  "two_rooms d =
     (if d = ''.'' then [\<lparr>ge_name = ''a'', ge_is_dir = True\<rparr>, \<lparr>ge_name = ''b'', ge_is_dir = True\<rparr>]
      else if d \<in> {''./a'', ''./b''} then [\<lparr>ge_name = ''x'', ge_is_dir = False\<rparr>, \<lparr>ge_name = ''y'', ge_is_dir = False\<rparr>]
      else [])"

lemma match_limit_exceeded: "expand_glob_walk ''*/*'' None two_rooms (\<lambda>_. Inr ()) 1 2 = Inr [''a/x'', ''a/y'', ''b/x'']"
  by code_simp

subsection \<open>Variables\<close>

type_synonym env_provider = "string \<Rightarrow> string option"

definition env_value :: "env_provider \<Rightarrow> string \<Rightarrow> string" where
  "env_value env name = (case env name of None \<Rightarrow> [] | Some v \<Rightarrow> v)"

definition is_allowed_var :: "string \<Rightarrow> string list \<Rightarrow> bool" where
  "is_allowed_var name allowlist \<longleftrightarrow> name \<in> set allowlist"

definition var_not_allowed :: "string \<Rightarrow> string \<times> ToolError" where
  "var_not_allowed name =
     (''$'' @ name, denied ''variable ${name} is not in the confined shell's allowlist'' [name])"

fun expand_target_from :: "env_provider \<Rightarrow> string list \<Rightarrow> string \<Rightarrow> Seg list \<Rightarrow> (string \<times> ToolError) + string" where
  "expand_target_from env allowlist out [] = Inr out"
| "expand_target_from env allowlist out (SegLit s # segs) = expand_target_from env allowlist (out @ s) segs"
| "expand_target_from env allowlist out (SegVar name # segs) =
     (if \<not> is_allowed_var name allowlist then Inl (var_not_allowed name)
      else expand_target_from env allowlist (out @ env_value env name) segs)"

definition expand_redirect_target :: "env_provider \<Rightarrow> string list \<Rightarrow> Seg list \<Rightarrow> (string \<times> ToolError) + string" where
  "expand_redirect_target env allowlist segs = expand_target_from env allowlist [] segs"

text \<open>The loop state of \<^verbatim>\<open>expand_varglob\<close>: the text so far, and the byte positions of the last character
  that came from a variable and of the last slash.\<close>

record varglob_state =
  vg_out :: string
  vg_last_var :: "nat option"
  vg_last_slash :: "nat option"

definition vg_push :: "bool \<Rightarrow> string \<Rightarrow> varglob_state \<Rightarrow> varglob_state" where
  "vg_push from_var ch st =
     \<lparr>vg_out = vg_out st @ ch,
      vg_last_var = (if from_var then Some (length (vg_out st)) else vg_last_var st),
      vg_last_slash = (if ch = ''/'' then Some (length (vg_out st)) else vg_last_slash st)\<rparr>"

fun varglob_from :: "env_provider \<Rightarrow> string list \<Rightarrow> varglob_state \<Rightarrow> Seg list \<Rightarrow> (string \<times> ToolError) + varglob_state" where
  "varglob_from env allowlist st [] = Inr st"
| "varglob_from env allowlist st (SegLit s # segs) =
     varglob_from env allowlist (fold (vg_push False) (utf8_chars s) st) segs"
| "varglob_from env allowlist st (SegVar name # segs) =
     (if \<not> is_allowed_var name allowlist then Inl (var_not_allowed name)
      else varglob_from env allowlist (fold (vg_push True) (utf8_chars (env_value env name)) st) segs)"

definition reinjection_refused :: "string \<times> ToolError" where
  "reinjection_refused =
     (''$VAR'', denied (''a variable in a glob's basename is not supported (re-injection guard); '' @
        ''put the variable in the directory prefix, e.g. $DIR/*.rs'') [])"

definition expand_varglob :: "env_provider \<Rightarrow> string list \<Rightarrow> Seg list \<Rightarrow> (string \<times> ToolError) + string" where
  "expand_varglob env allowlist segs =
     (case varglob_from env allowlist \<lparr>vg_out = [], vg_last_var = None, vg_last_slash = None\<rparr> segs of
        Inl e \<Rightarrow> Inl e
      | Inr st \<Rightarrow>
          let basename_start = (case vg_last_slash st of None \<Rightarrow> 0 | Some i \<Rightarrow> i + 1)
          in if (case vg_last_var st of None \<Rightarrow> False | Some v \<Rightarrow> basename_start \<le> v) then Inl reinjection_refused
             else Inr (vg_out st))"

subsection \<open>Only allow-listed variables are read\<close>

definition same_on :: "string list \<Rightarrow> env_provider \<Rightarrow> env_provider \<Rightarrow> bool" where
  "same_on allowlist env env' \<longleftrightarrow> (\<forall>name \<in> set allowlist. env name = env' name)"

lemma env_value_same: "same_on allowlist env env' \<Longrightarrow> is_allowed_var name allowlist \<Longrightarrow> env_value env' name = env_value env name"
  by (simp add: same_on_def is_allowed_var_def env_value_def)

lemma expand_target_same:
  "same_on allowlist env env' \<Longrightarrow> expand_target_from env' allowlist out segs = expand_target_from env allowlist out segs"
  by (induction env allowlist out segs rule: expand_target_from.induct) (simp_all add: env_value_same)

lemma varglob_from_same:
  "same_on allowlist env env' \<Longrightarrow> varglob_from env' allowlist st segs = varglob_from env allowlist st segs"
  by (induction env allowlist st segs rule: varglob_from.induct) (simp_all add: env_value_same)

lemma expand_varglob_same:
  "same_on allowlist env env' \<Longrightarrow> expand_varglob env' allowlist segs = expand_varglob env allowlist segs"
  by (simp add: expand_varglob_def varglob_from_same)

lemma expand_redirect_target_same:
  "same_on allowlist env env' \<Longrightarrow> expand_redirect_target env' allowlist segs = expand_redirect_target env allowlist segs"
  by (simp add: expand_redirect_target_def expand_target_same)

definition seg_text :: "env_provider \<Rightarrow> Seg \<Rightarrow> string" where
  "seg_text env sg = (case sg of SegLit s \<Rightarrow> s | SegVar name \<Rightarrow> env_value env name)"

lemma expand_target_from_text:
  "expand_target_from env allowlist out segs = Inr p \<Longrightarrow> p = out @ concat (map (seg_text env) segs)"
  by (induction env allowlist out segs rule: expand_target_from.induct) (auto simp: seg_text_def split: if_splits)

lemma expand_redirect_target_text:
  "expand_redirect_target env allowlist segs = Inr p \<Longrightarrow> p = concat (map (seg_text env) segs)"
  by (auto simp: expand_redirect_target_def dest: expand_target_from_text)

subsection \<open>The basename of a glob is source text\<close>

text \<open>The characters of an expanded word, each with whether it came from a variable.\<close>

definition tagged_chars :: "env_provider \<Rightarrow> Seg list \<Rightarrow> (bool \<times> string) list" where
  "tagged_chars env segs = concat (map (\<lambda>sg. map (Pair (seg_var sg)) (utf8_chars (seg_text env sg))) segs)"

lemma fold_vg_push_tag: "fold (vg_push b) cs st = fold (\<lambda>(b, ch). vg_push b ch) (map (Pair b) cs) st"
  by (induction cs arbitrary: st) simp_all

lemma varglob_from_fold:
  "varglob_from env allowlist st segs = Inr st' \<Longrightarrow> st' = fold (\<lambda>(b, ch). vg_push b ch) (tagged_chars env segs) st"
  by (induction env allowlist st segs rule: varglob_from.induct)
    (auto simp: tagged_chars_def seg_text_def fold_vg_push_tag split: if_splits)

lemma varglob_from_allowed:
  "varglob_from env allowlist st segs = Inr st' \<Longrightarrow> SegVar name \<in> set segs \<Longrightarrow> name \<in> set allowlist"
  by (induction env allowlist st segs rule: varglob_from.induct) (auto simp: is_allowed_var_def split: if_splits)

definition basename_start :: "varglob_state \<Rightarrow> nat" where
  "basename_start st = (case vg_last_slash st of None \<Rightarrow> 0 | Some i \<Rightarrow> i + 1)"

definition var_in_basename :: "varglob_state \<Rightarrow> bool" where
  "var_in_basename st = (case vg_last_var st of None \<Rightarrow> False | Some v \<Rightarrow> basename_start st \<le> v)"

lemma expand_varglob_alt:
  "expand_varglob env allowlist segs =
     (case varglob_from env allowlist \<lparr>vg_out = [], vg_last_var = None, vg_last_slash = None\<rparr> segs of
        Inl e \<Rightarrow> Inl e | Inr st \<Rightarrow> if var_in_basename st then Inl reinjection_refused else Inr (vg_out st))"
  unfolding expand_varglob_def var_in_basename_def basename_start_def Let_def ..

definition vg_inv :: "(bool \<times> string) list \<Rightarrow> (bool \<times> string) list \<Rightarrow> varglob_state \<Rightarrow> bool" where
  "vg_inv dir base st \<longleftrightarrow>
     vg_out st = concat (map snd (dir @ base)) \<and> basename_start st \<le> length (vg_out st) \<and>
     (\<forall>v. vg_last_var st = Some v \<longrightarrow> v \<le> length (vg_out st)) \<and>
     (dir = [] \<or> snd (last dir) = ''/'') \<and> (\<forall>x \<in> set base. snd x \<noteq> ''/'') \<and>
     ((\<exists>x \<in> set base. fst x) \<longrightarrow> var_in_basename st)"

lemma vg_inv_push:
  assumes "vg_inv dir base st"
  shows "vg_inv (if ch = ''/'' then dir @ base @ [(b, ch)] else dir)
    (if ch = ''/'' then [] else base @ [(b, ch)]) (vg_push b ch st)"
  using assms
  by (auto simp: vg_inv_def vg_push_def basename_start_def var_in_basename_def split: option.splits)

lemma vg_inv_fold:
  "vg_inv dir base st \<Longrightarrow>
   \<exists>dir' base'. dir' @ base' = dir @ base @ cs \<and> vg_inv dir' base' (fold (\<lambda>(b, ch). vg_push b ch) cs st)"
proof (induction cs arbitrary: dir base st)
  case (Cons c cs)
  obtain b ch where c: "c = (b, ch)" by (cases c)
  from Cons.IH [OF vg_inv_push [OF Cons.prems, of ch b]] show ?case
    by (cases "ch = ''/''") (simp_all add: c)
qed auto

text \<open>The re-injection guard: when a word with a glob and variables expands, every character after the
  last slash comes from the source text and none from the value of a variable, and the directory prefix
  is the text before it with the values substituted; only allow-listed variables are read.
\<close>

theorem varglob_basename_is_source:
  assumes "expand_varglob env allowlist segs = Inr p"
  shows "p = concat (map (seg_text env) segs) \<and>
    (\<exists>dir base. tagged_chars env segs = dir @ base \<and> (dir = [] \<or> snd (last dir) = ''/'') \<and>
      (\<forall>x \<in> set base. \<not> fst x \<and> snd x \<noteq> ''/'')) \<and>
    (\<forall>name. SegVar name \<in> set segs \<longrightarrow> name \<in> set allowlist)"
proof -
  let ?init = "\<lparr>vg_out = [], vg_last_var = None, vg_last_slash = None\<rparr>"
  obtain st where st: "varglob_from env allowlist ?init segs = Inr st" and p: "p = vg_out st" and clean: "\<not> var_in_basename st"
    using assms by (auto simp: expand_varglob_alt split: sum.splits if_splits)
  have "vg_inv [] [] ?init" by (simp add: vg_inv_def basename_start_def var_in_basename_def)
  from vg_inv_fold [OF this, of "tagged_chars env segs"] varglob_from_fold [OF st]
  obtain dir base where db: "dir @ base = tagged_chars env segs" "vg_inv dir base st" by auto
  have "concat (map snd (tagged_chars env segs)) = concat (map (seg_text env) segs)"
    unfolding tagged_chars_def by (induction segs) (simp_all add: o_def)
  moreover have "\<forall>name. SegVar name \<in> set segs \<longrightarrow> name \<in> set allowlist"
    using varglob_from_allowed [OF st] by blast
  moreover have "\<forall>x \<in> set base. \<not> fst x \<and> snd x \<noteq> ''/''" "dir = [] \<or> snd (last dir) = ''/''" "vg_out st = concat (map snd (dir @ base))"
    using db(2) clean by (auto simp: vg_inv_def)
  ultimately show ?thesis using db(1) p by metis
qed

definition demo_env :: env_provider where
  "demo_env name = (if name = ''HOME'' then Some ''/h*'' else None)"

theorem varglob_basename_is_source_witness:
  "''/h*/*.rs'' = concat (map (seg_text demo_env) [SegVar ''HOME'', SegLit ''/*.rs'']) \<and>
    (\<exists>dir base. tagged_chars demo_env [SegVar ''HOME'', SegLit ''/*.rs''] = dir @ base \<and> (dir = [] \<or> snd (last dir) = ''/'') \<and>
      (\<forall>x \<in> set base. \<not> fst x \<and> snd x \<noteq> ''/'')) \<and>
    (\<forall>name. SegVar name \<in> set [SegVar ''HOME'', SegLit ''/*.rs''] \<longrightarrow> name \<in> set [''HOME''])"
  by (rule varglob_basename_is_source) code_simp

text \<open>
  The guard covers the basename only, and the walk matches every segment as a pattern: a metacharacter
  in the value of a variable is active in the directory prefix, where it widens the match.
\<close>

definition homes :: lister where
  "homes d =
     (if d = ''/'' then [\<lparr>ge_name = ''hx'', ge_is_dir = True\<rparr>]
      else if d = ''/hx'' then [\<lparr>ge_name = ''a.rs'', ge_is_dir = False\<rparr>] else [])"

lemma prefix_value_is_a_pattern:
  "map_sum snd (\<lambda>p. expand_glob_walk p None homes (\<lambda>_. Inr ()) 4 9)
     (expand_varglob demo_env [''HOME''] [SegVar ''HOME'', SegLit ''/*.rs'']) = Inr (Inr [''/hx/a.rs''])"
  by code_simp

end
