(* ===== verification/Bridle_Config.thy ===== *)
theory Bridle_Config
  imports Step_Up Std_Text
begin

text \<open>
  The layered configuration: the policy records and their defaults
  (\<^verbatim>\<open>agent-bridle-core/src/config.rs\<close>), the process markers (\<^verbatim>\<open>unbridle.rs\<close>) and the loader
  (\<^verbatim>\<open>agent-bridle-config/src/lib.rs\<close>). A JSON object is its ascending association list, as the
  \<^verbatim>\<open>BTreeMap\<close> behind \<^verbatim>\<open>serde_json::Map\<close> is; TOML and the derived serializers are parameters of the loader.
\<close>

subsection \<open>Path lists and environment fences\<close>

record PathList =
  pl_base :: "string list"
  pl_extra :: "string list"
  pl_replace :: bool

definition from_defaults :: "string list \<Rightarrow> PathList" where
  "from_defaults base = \<lparr>pl_base = base, pl_extra = [], pl_replace = False\<rparr>"

fun push_missing :: "string list \<Rightarrow> string list \<Rightarrow> string list" where
  "push_missing out [] = out"
| "push_missing out (e # es) = push_missing (if e \<in> set out then out else out @ [e]) es"

definition pathlist_resolve :: "PathList \<Rightarrow> string list" where
  "pathlist_resolve p = (if pl_replace p then pl_extra p else push_missing (pl_base p) (pl_extra p))"

definition widens :: "PathList \<Rightarrow> bool" where
  "widens p \<longleftrightarrow> \<not> pl_replace p \<and> pl_extra p \<noteq> []"

fun fence_env :: "(string \<times> string) list \<Rightarrow> string list \<Rightarrow> (string \<times> string) list \<times> string list" where
  "fence_env [] denylist = ([], [])"
| "fence_env ((k, v) # env) denylist =
     (case fence_env env denylist of (fenced, dropped) \<Rightarrow>
        if k \<in> set denylist then (fenced, k # dropped) else ((k, v) # fenced, dropped))"

definition default_env_denylist :: "string list" where
  "default_env_denylist =
     [''LD_PRELOAD'', ''LD_LIBRARY_PATH'', ''LD_AUDIT'', ''DYLD_INSERT_LIBRARIES'', ''DYLD_LIBRARY_PATH'',
      ''PYTHONPATH'', ''PYTHONSTARTUP'', ''NODE_OPTIONS'', ''RUBYOPT'', ''RUBYLIB'', ''PERL5OPT'', ''PERL5LIB'',
      ''CLASSPATH'', ''JAVA_TOOL_OPTIONS'', ''_JAVA_OPTIONS'', ''GIT_SSH_COMMAND'', ''GIT_EXEC_PATH'',
      ''GIT_TEMPLATE_DIR'', ''BASH_ENV'', ''ENV'', ''SHELLOPTS'', ''BASHOPTS'', ''PROMPT_COMMAND'']"

subsection \<open>The process markers\<close>

datatype HumanGate = GateNone | GatePrompt | GatePasskey

record process_marks =
  mark_unbridled :: "bool option"
  mark_human_gate :: "HumanGate option"

definition once_set :: "'a \<Rightarrow> 'a option \<Rightarrow> 'a option" where
  "once_set x cell = (case cell of None \<Rightarrow> Some x | Some y \<Rightarrow> Some y)"

definition set_unbridled :: "process_marks \<Rightarrow> process_marks" where
  "set_unbridled m = m\<lparr>mark_unbridled := once_set True (mark_unbridled m)\<rparr>"

definition set_human_gate :: "HumanGate \<Rightarrow> process_marks \<Rightarrow> process_marks" where
  "set_human_gate gate m = m\<lparr>mark_human_gate := once_set gate (mark_human_gate m)\<rparr>"

definition is_unbridled :: "process_marks \<Rightarrow> bool" where
  "is_unbridled m = (case mark_unbridled m of None \<Rightarrow> False | Some b \<Rightarrow> b)"

definition human_gate :: "process_marks \<Rightarrow> HumanGate" where
  "human_gate m = (case mark_human_gate m of None \<Rightarrow> GatePasskey | Some g \<Rightarrow> g)"

definition fresh_marks :: process_marks where
  "fresh_marks = \<lparr>mark_unbridled = None, mark_human_gate = None\<rparr>"

subsection \<open>The policies\<close>

datatype BridleMode = Bridled | Unbridle

record GatePolicy =
  gp_default_strength_floor :: AxisEnforcement
  gp_max_freshness_window :: u64
  gp_step_up :: HumanGate

record BackendToggles =
  bt_require_landlock :: bool
  bt_require_seatbelt :: bool
  bt_disable :: "string list"

record SandboxPolicy =
  sp_named_root_protected_roots :: "string list option"
  sp_backends :: BackendToggles
  sp_child_network :: ChildNetworkPolicy
  sp_appcontainer_launcher_path :: "string option"
  sp_base_read_paths :: PathList
  sp_bin_read_paths :: PathList
  sp_device_sink_paths :: PathList
  sp_loader_paths :: PathList
  sp_loopback_hosts :: "string list"
  sp_landlock_abi_floor :: u32
  sp_landlock_net_abi_floor :: u32

record RootfsPolicy =
  rp_data_paths :: PathList
  rp_search_dirs :: "string list"

record NormalizationPolicy =
  np_exec_basename_match :: bool
  np_ldd_closure :: bool
  np_nss_closure_fallback :: bool
  np_python_closure_fallback :: bool
  np_missing_so_canary :: bool
  np_rootfs_cache :: bool

datatype NetDefault = NetDeny | NetAllow

datatype HostMatch = HostExact string | HostSuffix string | HostGlob string

datatype NetRule = HostRule HostMatch

record NetPolicy =
  net_default :: NetDefault
  net_rules :: "NetRule list"

record LimitsPolicy =
  lp_max_timeout_secs :: u64
  lp_default_timeout_secs :: u64
  lp_max_output_bytes :: nat
  lp_var_allowlist :: "string list"
  lp_max_glob_depth :: nat
  lp_max_glob_matches :: nat
  lp_proxy_max_head :: nat
  lp_proxy_conn_timeout_secs :: u64
  lp_proxy_bind :: string
  lp_audit_sink :: "string option"
  lp_env_denylist :: "string list"

record WebPolicy =
  wp_max_redirects :: nat
  wp_default_max_bytes :: nat
  wp_hard_max_bytes :: nat
  wp_request_timeout_secs :: u64

record VmPolicy =
  vp_qemu_path :: "string list"
  vp_kernel_search :: "string list"
  vp_memory_mb :: u32
  vp_accel :: string
  vp_kernel_cmdline :: string
  vp_merged_usr_links :: "string list"
  vp_max_frame :: nat
  vp_jaild_socket :: "string option"
  vp_jail_init :: "string option"

record BridleConfig =
  bc_mode :: BridleMode
  bc_gate :: GatePolicy
  bc_sandbox :: SandboxPolicy
  bc_normalization :: NormalizationPolicy
  bc_rootfs :: RootfsPolicy
  bc_net :: NetPolicy
  bc_limits :: LimitsPolicy
  bc_web :: WebPolicy
  bc_vm :: VmPolicy

subsection \<open>Defaults\<close>

definition gate_default :: GatePolicy where
  "gate_default = \<lparr>gp_default_strength_floor = Advisory, gp_max_freshness_window = 4096, gp_step_up = GatePasskey\<rparr>"

definition default_device_sink_paths :: PathList where
  "default_device_sink_paths = from_defaults [''/dev/null'', ''/dev/zero'', ''/dev/full'']"

text \<open>The platform constant: the read base differs between macOS and the other hosts.\<close>

definition base_read_default :: "bool \<Rightarrow> string list" where
  "base_read_default macos =
     (if macos then
        [''/usr'', ''/bin'', ''/sbin'', ''/System'', ''/Library'', ''/opt'', ''/private/etc'',
         ''/private/var/db/dyld'', ''/private/var/db/timezone'', ''/dev'']
      else
        [''/lib'', ''/lib64'', ''/lib32'', ''/libx32'', ''/usr/lib'', ''/usr/lib64'', ''/usr/libexec'', ''/usr/share'',
         ''/etc/ld.so.cache'', ''/etc/ld.so.preload'', ''/etc/alternatives'', ''/etc/nsswitch.conf'', ''/etc/localtime'',
         ''/etc/resolv.conf'', ''/etc/ssl'', ''/etc/ca-certificates'', ''/proc/self'', ''/dev/null'', ''/dev/zero'',
         ''/dev/full'', ''/dev/urandom'', ''/dev/random''])"

definition backends_default :: BackendToggles where
  "backends_default = \<lparr>bt_require_landlock = False, bt_require_seatbelt = False, bt_disable = []\<rparr>"

definition sandbox_default :: "bool \<Rightarrow> SandboxPolicy" where
  "sandbox_default macos =
     \<lparr>sp_named_root_protected_roots = None, sp_backends = backends_default, sp_child_network = LandlockOnly,
      sp_appcontainer_launcher_path = None, sp_base_read_paths = from_defaults (base_read_default macos),
      sp_bin_read_paths = from_defaults
        [''/usr/bin'', ''/bin'', ''/usr/sbin'', ''/sbin'', ''/usr/local/bin'', ''/usr/local/sbin'', ''/opt''],
      sp_device_sink_paths = default_device_sink_paths,
      sp_loader_paths = from_defaults
        [''/lib64/ld-linux-x86-64.so.2'', ''/lib/ld-linux-x86-64.so.2'', ''/lib/ld-linux.so.2'',
         ''/lib/x86_64-linux-gnu/ld-linux-x86-64.so.2'', ''/lib64/ld64.so.2'', ''/lib/ld-linux-aarch64.so.1'',
         ''/lib/aarch64-linux-gnu/ld-linux-aarch64.so.1'', ''/lib/ld-linux-armhf.so.3'',
         ''/lib/ld-musl-x86-64.so.1'', ''/lib/ld-musl-aarch64.so.1''],
      sp_loopback_hosts = [''localhost'', ''127.0.0.1'', ''::1''], sp_landlock_abi_floor = 3, sp_landlock_net_abi_floor = 4\<rparr>"

definition rootfs_default :: RootfsPolicy where
  "rootfs_default =
     \<lparr>rp_data_paths = from_defaults
        [''/usr/share'', ''/usr/lib/locale'', ''/etc/ld.so.cache'', ''/etc/ld.so.preload'', ''/etc/alternatives'',
         ''/etc/nsswitch.conf'', ''/etc/localtime'', ''/etc/resolv.conf'', ''/etc/ssl'', ''/etc/ca-certificates'',
         ''/proc/self'', ''/dev/null'', ''/dev/zero'', ''/dev/full'', ''/dev/urandom'', ''/dev/random''],
      rp_search_dirs = [''/usr/local/bin'', ''/usr/bin'', ''/bin'', ''/usr/local/sbin'', ''/usr/sbin'', ''/sbin'']\<rparr>"

definition normalization_default :: NormalizationPolicy where
  "normalization_default =
     \<lparr>np_exec_basename_match = True, np_ldd_closure = True, np_nss_closure_fallback = True,
      np_python_closure_fallback = True, np_missing_so_canary = True, np_rootfs_cache = True\<rparr>"

definition netpolicy_default :: NetPolicy where
  "netpolicy_default = \<lparr>net_default = NetDeny, net_rules = []\<rparr>"

definition limits_policy_default :: LimitsPolicy where
  "limits_policy_default =
     \<lparr>lp_max_timeout_secs = 300, lp_default_timeout_secs = 60, lp_max_output_bytes = 2 ^ 20,
      lp_var_allowlist = [''HOME'', ''PWD'', ''OLDPWD'', ''USER'', ''LOGNAME'', ''TMPDIR'', ''LANG'', ''LC_ALL'', ''SHELL'',
        ''HOSTNAME'', ''TERM''],
      lp_max_glob_depth = 64, lp_max_glob_matches = 4096, lp_proxy_max_head = 8 * 1024,
      lp_proxy_conn_timeout_secs = 30, lp_proxy_bind = ''127.0.0.1:0'', lp_audit_sink = None,
      lp_env_denylist = default_env_denylist\<rparr>"

definition web_default :: WebPolicy where
  "web_default = \<lparr>wp_max_redirects = 10, wp_default_max_bytes = 5 * 1024 * 1024, wp_hard_max_bytes = 25 * 1024 * 1024,
     wp_request_timeout_secs = 30\<rparr>"

definition vm_default :: VmPolicy where
  "vm_default =
     \<lparr>vp_qemu_path = [''/usr/bin/qemu-system-x86_64''], vp_kernel_search = [''/boot/vmlinuz''], vp_memory_mb = 512,
      vp_accel = ''kvm:tcg'', vp_kernel_cmdline = ''console=ttyS0 panic=1 loglevel=4'',
      vp_merged_usr_links = [''bin'', ''sbin'', ''lib'', ''lib32'', ''lib64'', ''libx32''], vp_max_frame = 64 * 1024 * 1024,
      vp_jaild_socket = None, vp_jail_init = None\<rparr>"

definition config_default :: "bool \<Rightarrow> BridleConfig" where
  "config_default macos =
     \<lparr>bc_mode = Bridled, bc_gate = gate_default, bc_sandbox = sandbox_default macos,
      bc_normalization = normalization_default, bc_rootfs = rootfs_default, bc_net = netpolicy_default,
      bc_limits = limits_policy_default, bc_web = web_default, bc_vm = vm_default\<rparr>"

text \<open>The search path of a child whose exec axis is unrestricted, on a Unix host: \<^verbatim>\<open>join_paths\<close> fails only
  on a directory that contains the separator, which no default one does.\<close>

definition join_with :: "string \<Rightarrow> string list \<Rightarrow> string" where
  "join_with sep xs = (case xs of [] \<Rightarrow> [] | x # rest \<Rightarrow> x @ concat (map (\<lambda>y. sep @ y) rest))"

definition default_exec_path :: "string option \<Rightarrow> string" where
  "default_exec_path ambient =
     (case ambient of
        Some path \<Rightarrow> if path \<noteq> [] then path else join_with '':'' (rp_search_dirs rootfs_default)
      | None \<Rightarrow> join_with '':'' (rp_search_dirs rootfs_default))"

subsection \<open>The loader\<close>

fun deep_merge :: "json \<Rightarrow> json \<Rightarrow> json"
  and merge_entries :: "(string \<times> json) list \<Rightarrow> (string \<times> json) list \<Rightarrow> (string \<times> json) list"
where
  "deep_merge base (JObject ov) = (case base of JObject b \<Rightarrow> JObject (merge_entries b ov) | _ \<Rightarrow> JObject ov)"
| "deep_merge base ov = ov"
| "merge_entries b [] = b"
| "merge_entries b ((k, v) # ov) =
     merge_entries (case map_of b k of Some slot \<Rightarrow> bmap_insert k (deep_merge slot v) b | None \<Rightarrow> bmap_insert k v b) ov"

definition json_get :: "json \<Rightarrow> string \<Rightarrow> json option" where
  "json_get v k = (case v of JObject m \<Rightarrow> map_of m k | _ \<Rightarrow> None)"

definition file_overlay :: "(string \<Rightarrow> string + json) \<Rightarrow> string \<Rightarrow> string + json" where
  "file_overlay toml text =
     (case toml text of
        Inl e \<Rightarrow> Inl e
      | Inr v \<Rightarrow> Inr (case json_get v ''bridle'' of None \<Rightarrow> JNull | Some b \<Rightarrow> b))"

text \<open>\<^verbatim>\<open>str::parse::<u64>\<close>.\<close>

definition parse_u64 :: "string \<Rightarrow> u64 option" where
  "parse_u64 s =
     (let ds = (case s of [] \<Rightarrow> [] | c # rest \<Rightarrow> if c = CHR ''+'' then rest else s)
      in if ds = [] then None
         else if \<not> list_all is_ascii_digit ds then None
         else if 2 ^ 64 \<le> decimal_value ds then None
         else Some (of_nat (decimal_value ds)))"

definition coerce_scalar :: "string \<Rightarrow> json option" where
  "coerce_scalar raw =
     (if eq_ignore_ascii_case raw ''true'' then Some (JBool True)
      else if eq_ignore_ascii_case raw ''false'' then Some (JBool False)
      else map_option (\<lambda>n. JNumber (decimal (unat n))) (parse_u64 raw))"

text \<open>The recursion on the parts of a comma-separated value is one level deep: a part has no comma.\<close>

definition coerce :: "string \<Rightarrow> json" where
  "coerce raw =
     (case coerce_scalar raw of
        Some v \<Rightarrow> v
      | None \<Rightarrow>
          if CHR '','' \<in> set raw
          then JArray (map (\<lambda>s. case coerce_scalar (trim s) of Some v \<Rightarrow> v | None \<Rightarrow> JString (trim s)) (split_char CHR '','' raw))
          else JString raw)"

definition AREAS :: "string list" where
  "AREAS = [''gate'', ''sandbox'', ''normalization'', ''rootfs'', ''net'', ''limits'', ''web'', ''vm'']"

definition truthy :: "string \<Rightarrow> bool" where
  "truthy v \<longleftrightarrow> to_ascii_lowercase (trim v) \<in> {''1'', ''true'', ''yes''}"

fun json_at :: "string list \<Rightarrow> json \<Rightarrow> json" where
  "json_at [] v = v"
| "json_at (k # path) v = JObject [(k, json_at path v)]"

definition legacy_flag :: "(string \<times> string) list \<Rightarrow> string \<Rightarrow> string list \<Rightarrow> json \<Rightarrow> json" where
  "legacy_flag env name path overlay =
     (case map_of env name of
        Some v \<Rightarrow> if truthy v then deep_merge overlay (json_at path (JBool True)) else overlay
      | None \<Rightarrow> overlay)"

definition legacy_text :: "(string \<times> string) list \<Rightarrow> string \<Rightarrow> string list \<Rightarrow> json \<Rightarrow> json" where
  "legacy_text env name path overlay =
     (case map_of env name of
        Some p \<Rightarrow> deep_merge overlay (json_at path (JString p))
      | None \<Rightarrow> overlay)"

definition generic_var :: "json \<Rightarrow> string \<times> string \<Rightarrow> json" where
  "generic_var overlay kv =
     (case strip_prefix ''BRIDLE_'' (fst kv) of
        None \<Rightarrow> overlay
      | Some rest \<Rightarrow>
          let lower = to_ascii_lowercase rest in
          if lower = ''mode'' then deep_merge overlay (json_at [''mode''] (JString (to_ascii_lowercase (snd kv))))
          else (case split_once CHR ''_'' lower of
              None \<Rightarrow> overlay
            | Some (area, field) \<Rightarrow>
                if area \<in> set AREAS \<and> field \<noteq> [] then deep_merge overlay (json_at [area, field] (coerce (snd kv)))
                else overlay))"

definition env_blob :: "(string \<Rightarrow> string + json) \<Rightarrow> (string \<times> string) list \<Rightarrow> string + json" where
  "env_blob parse_json env =
     (case map_of env ''AGENT_BRIDLE_CONFIG'' of
        None \<Rightarrow> Inr (JObject [])
      | Some blob \<Rightarrow> (case parse_json blob of Inl e \<Rightarrow> Inl e | Inr v \<Rightarrow> Inr (deep_merge (JObject []) v)))"

definition env_overlay :: "(string \<Rightarrow> string + json) \<Rightarrow> (string \<times> string) list \<Rightarrow> string + json" where
  "env_overlay parse_json env =
     (case env_blob parse_json env of
        Inl e \<Rightarrow> Inl e
      | Inr o0 \<Rightarrow>
          let o1 = legacy_flag env ''BRIDLE_REQUIRE_LANDLOCK'' [''sandbox'', ''backends'', ''require_landlock''] o0;
              o2 = legacy_flag env ''BRIDLE_REQUIRE_SEATBELT'' [''sandbox'', ''backends'', ''require_seatbelt''] o1;
              o3 = legacy_text env ''BRIDLE_NET_AUDIT'' [''limits'', ''audit_sink''] o2;
              o4 = legacy_text env ''BRIDLE_JAILD_SOCKET'' [''vm'', ''jaild_socket''] o3;
              o5 = legacy_text env ''BRIDLE_JAIL_INIT'' [''vm'', ''jail_init''] o4
          in Inr (foldl generic_var o5 env))"

record ConfigProvenance =
  prov_file :: bool
  prov_env :: bool
  prov_api :: bool

record 'cfg codecs =
  cd_toml :: "string \<Rightarrow> string + json"
  cd_json :: "string \<Rightarrow> string + json"
  cd_defaults :: json
  cd_decode :: "json \<Rightarrow> string + 'cfg"

definition merge_file :: "'cfg codecs \<Rightarrow> string option \<Rightarrow> json \<Rightarrow> string + (json \<times> bool)" where
  "merge_file cd file_toml merged =
     (case file_toml of
        None \<Rightarrow> Inr (merged, False)
      | Some text \<Rightarrow>
          (case file_overlay (cd_toml cd) text of
             Inl e \<Rightarrow> Inl e
           | Inr fo \<Rightarrow> Inr (if fo = JNull then (merged, False) else (deep_merge merged fo, True))))"

definition nonempty_object :: "json \<Rightarrow> bool" where
  "nonempty_object v = (case v of JObject m \<Rightarrow> m \<noteq> [] | _ \<Rightarrow> False)"

definition merge_layers ::
  "'cfg codecs \<Rightarrow> string option \<Rightarrow> (string \<times> string) list \<Rightarrow> json option \<Rightarrow> string + (json \<times> ConfigProvenance)" where
  "merge_layers cd file_toml env api =
     (case merge_file cd file_toml (cd_defaults cd) of
        Inl e \<Rightarrow> Inl e
      | Inr (m1, from_file) \<Rightarrow>
          (case env_overlay (cd_json cd) env of
             Inl e \<Rightarrow> Inl e
           | Inr eo \<Rightarrow>
               let m2 = (if nonempty_object eo then deep_merge m1 eo else m1);
                   from_api = (case api of None \<Rightarrow> False | Some a \<Rightarrow> a \<noteq> JNull);
                   m3 = (case api of None \<Rightarrow> m2 | Some a \<Rightarrow> if a = JNull then m2 else deep_merge m2 a)
               in Inr (m3, \<lparr>prov_file = from_file, prov_env = nonempty_object eo, prov_api = from_api\<rparr>)))"

definition config_resolve ::
  "'cfg codecs \<Rightarrow> string option \<Rightarrow> (string \<times> string) list \<Rightarrow> json option \<Rightarrow> string + ('cfg \<times> ConfigProvenance)" where
  "config_resolve cd file_toml env api =
     (case merge_layers cd file_toml env api of
        Inl e \<Rightarrow> Inl e
      | Inr (merged, prov) \<Rightarrow>
          (case cd_decode cd merged of Inl e \<Rightarrow> Inl e | Inr cfg \<Rightarrow> Inr (cfg, prov)))"

definition config_load ::
  "'cfg codecs \<Rightarrow> (string \<Rightarrow> string list \<Rightarrow> string option) \<Rightarrow> string option \<Rightarrow> (string \<times> string) list \<Rightarrow>
   string + ('cfg \<times> ConfigProvenance)" where
  "config_load cd read_file home vars =
     config_resolve cd
       (case home of None \<Rightarrow> None | Some h \<Rightarrow> read_file h [''.agent-bridle'', ''config.toml''])
       (foldl (\<lambda>m (k, v). bmap_insert k v m) []
          (filter (\<lambda>(k, v). prefix ''BRIDLE_'' k \<or> k = ''AGENT_BRIDLE_CONFIG'') vars)) None"

subsection \<open>Paths into a document\<close>

fun value_at :: "string list \<Rightarrow> json \<Rightarrow> json option" where
  "value_at [] v = Some v"
| "value_at (k # path) v = (case json_get v k of None \<Rightarrow> None | Some w \<Rightarrow> value_at path w)"

fun doc_wf :: "json \<Rightarrow> bool" where
  "doc_wf (JObject m) = (bmap_wf m \<and> (\<forall>kv \<in> set m. doc_wf (snd kv)))"
| "doc_wf (JArray vs) = (\<forall>v \<in> set vs. doc_wf v)"
| "doc_wf v = True"

text \<open>An overlay that leaves a path alone: it is an object, and neither sets the path nor replaces a part of it.\<close>

fun silent_at :: "string list \<Rightarrow> json \<Rightarrow> bool" where
  "silent_at [] v = False"
| "silent_at (k # path) v =
     (case v of JObject m \<Rightarrow> (case map_of m k of None \<Rightarrow> True | Some w \<Rightarrow> silent_at path w) | _ \<Rightarrow> False)"

definition is_object :: "json \<Rightarrow> bool" where
  "is_object v = (case v of JObject _ \<Rightarrow> True | _ \<Rightarrow> False)"

lemma deep_merge_nonobject [simp]: "\<not> is_object ov \<Longrightarrow> deep_merge base ov = ov"
  by (cases ov) (simp_all add: is_object_def)

lemma bmap_wf_tail: "bmap_wf (kv # m) \<Longrightarrow> bmap_wf m \<and> fst kv \<notin> fst ` set m"
  by (auto simp: bmap_wf_def)

lemma merge_entries_lookup:
  "bmap_wf b \<Longrightarrow> bmap_wf ov \<Longrightarrow>
   map_of (merge_entries b ov) k =
     (case map_of ov k of
        None \<Rightarrow> map_of b k
      | Some v \<Rightarrow> Some (case map_of b k of None \<Rightarrow> v | Some w \<Rightarrow> deep_merge w v)) \<and>
   bmap_wf (merge_entries b ov)"
proof (induction ov arbitrary: b)
  case (Cons kv ov)
  obtain k' v where kv: "kv = (k', v)" by (cases kv)
  define b' where "b' = (case map_of b k' of Some slot \<Rightarrow> bmap_insert k' (deep_merge slot v) b | None \<Rightarrow> bmap_insert k' v b)"
  have b': "bmap_wf b'" "map_of b' = (map_of b)(k' \<mapsto> case map_of b k' of None \<Rightarrow> v | Some w \<Rightarrow> deep_merge w v)"
    using Cons.prems(1) by (simp_all add: b'_def map_of_bmap_insert split: option.splits)
  have tail: "bmap_wf ov" "map_of ov k' = None"
    using bmap_wf_tail [OF Cons.prems(2)] kv by (simp_all add: map_of_eq_None_iff)
  from Cons.IH [OF b'(1) tail(1)] show ?case
    using b'(2) tail(2) by (auto simp: kv b'_def [symmetric] split: option.splits)
qed simp

lemma json_get_merge:
  assumes "doc_wf base" "doc_wf ov" "is_object ov"
  shows "json_get (deep_merge base ov) k =
    (case json_get ov k of
       None \<Rightarrow> json_get base k
     | Some v \<Rightarrow> Some (case json_get base k of None \<Rightarrow> v | Some w \<Rightarrow> deep_merge w v))"
proof -
  obtain m where ov: "ov = JObject m" using assms(3) by (cases ov) (simp_all add: is_object_def)
  show ?thesis
    using assms(1,2) merge_entries_lookup [of _ m k]
    by (cases base) (simp_all add: ov json_get_def split: option.splits)
qed

lemma doc_wf_get: "doc_wf v \<Longrightarrow> json_get v k = Some w \<Longrightarrow> doc_wf w"
  by (cases v) (fastforce simp: json_get_def dest: map_of_SomeD)+

lemma silent_at_get:
  "silent_at (k # path) v \<longleftrightarrow> is_object v \<and> (case json_get v k of None \<Rightarrow> True | Some w \<Rightarrow> silent_at path w)"
  by (cases v) (simp_all add: is_object_def json_get_def split: option.splits)

declare silent_at.simps(2) [simp del]

lemma silent_absent: "silent_at path v \<Longrightarrow> value_at path v = None"
  by (induction path arbitrary: v) (auto simp: silent_at_get split: option.splits)

lemma merge_silent:
  "doc_wf base \<Longrightarrow> doc_wf ov \<Longrightarrow> silent_at path ov \<Longrightarrow> value_at path (deep_merge base ov) = value_at path base"
proof (induction path arbitrary: base ov)
  case (Cons k path)
  then have obj: "is_object ov" by (simp add: silent_at_get)
  show ?case
  proof (cases "json_get ov k")
    case None
    then show ?thesis using Cons.prems obj by (simp add: json_get_merge)
  next
    case (Some v)
    then have v: "doc_wf v" "silent_at path v"
      using Cons.prems doc_wf_get by (auto simp: silent_at_get)
    then show ?thesis
      using Cons Some obj doc_wf_get [OF Cons.prems(1)] silent_absent [OF v(2)]
      by (simp add: json_get_merge split: option.splits)
  qed
qed simp

lemma merge_sets:
  "doc_wf base \<Longrightarrow> doc_wf ov \<Longrightarrow> value_at path ov = Some v \<Longrightarrow> \<not> is_object v \<Longrightarrow>
   value_at path (deep_merge base ov) = Some v"
proof (induction path arbitrary: base ov)
  case (Cons k path)
  then obtain w where w: "json_get ov k = Some w" "value_at path w = Some v" by (auto split: option.splits)
  then have "is_object ov" by (cases ov) (simp_all add: json_get_def is_object_def)
  then show ?case
    using Cons w doc_wf_get [OF Cons.prems(1)] doc_wf_get [OF Cons.prems(2)]
    by (simp add: json_get_merge split: option.splits)
qed simp

lemma bmap_insert_values: "kv \<in> set (bmap_insert k v m) \<Longrightarrow> kv = (k, v) \<or> kv \<in> set m"
  by (induction k v m rule: bmap_insert.induct) (auto split: if_splits)

lemma doc_wf_merge:
  "doc_wf base \<Longrightarrow> doc_wf ov \<Longrightarrow> doc_wf (deep_merge base ov)"
  "bmap_wf b \<Longrightarrow> (\<forall>kv \<in> set b. doc_wf (snd kv)) \<Longrightarrow> (\<forall>kv \<in> set es. doc_wf (snd kv)) \<Longrightarrow>
   bmap_wf (merge_entries b es) \<and> (\<forall>kv \<in> set (merge_entries b es). doc_wf (snd kv))"
proof (induction base ov and b es rule: deep_merge_merge_entries.induct)
  case (1 base ov)
  then show ?case by (cases base) simp_all
next
  case (4 b k v es)
  let ?b = "case map_of b k of Some slot \<Rightarrow> bmap_insert k (deep_merge slot v) b | None \<Rightarrow> bmap_insert k v b"
  have "doc_wf (deep_merge slot v)" if "map_of b k = Some slot" for slot
    using 4 that map_of_SomeD [OF that] by force
  then have "\<forall>kv \<in> set ?b. doc_wf (snd kv)"
    using "4.prems" by (auto split: option.splits dest!: bmap_insert_values)
  moreover have "bmap_wf ?b" using "4.prems"(1) by (simp split: option.splits)
  ultimately show ?case using 4 by simp
qed simp_all

lemma is_object_merge [simp]: "is_object ov \<Longrightarrow> is_object (deep_merge base ov)"
  by (cases ov; cases base) (simp_all add: is_object_def)

lemma silent_merge:
  "doc_wf base \<Longrightarrow> doc_wf ov \<Longrightarrow> silent_at path base \<Longrightarrow> silent_at path ov \<Longrightarrow> silent_at path (deep_merge base ov)"
proof (induction path arbitrary: base ov)
  case (Cons k path)
  then show ?case
    using doc_wf_get [OF Cons.prems(1)] doc_wf_get [OF Cons.prems(2)]
    by (auto simp: silent_at_get json_get_merge split: option.splits)
qed simp

subsection \<open>The environment layer\<close>

lemma doc_wf_json_at [simp]: "doc_wf (json_at path v) = doc_wf v"
  by (induction path) (simp_all add: bmap_wf_def)

lemma doc_wf_coerce [simp]: "doc_wf (coerce raw)"
  by (auto simp: coerce_def coerce_scalar_def split: option.splits)

lemma silent_json_at: "k \<noteq> k' \<Longrightarrow> silent_at [k] (json_at (k' # path) v)"
  by (simp add: silent_at_get is_object_def json_get_def)

definition mode_var :: "string \<Rightarrow> bool" where
  "mode_var k = (case strip_prefix ''BRIDLE_'' k of None \<Rightarrow> False | Some rest \<Rightarrow> to_ascii_lowercase rest = ''mode'')"

definition quiet_on_mode :: "json \<Rightarrow> bool" where
  "quiet_on_mode v \<longleftrightarrow> doc_wf v \<and> silent_at [''mode''] v"

lemma quiet_merge_at:
  "quiet_on_mode ov \<Longrightarrow> k \<noteq> ''mode'' \<Longrightarrow> doc_wf v \<Longrightarrow> quiet_on_mode (deep_merge ov (json_at (k # path) v))"
  unfolding quiet_on_mode_def using silent_merge silent_json_at doc_wf_merge(1) doc_wf_json_at by metis

lemma quiet_legacy:
  "quiet_on_mode ov \<Longrightarrow> k \<noteq> ''mode'' \<Longrightarrow> quiet_on_mode (legacy_flag env name (k # path) ov)"
  "quiet_on_mode ov \<Longrightarrow> k \<noteq> ''mode'' \<Longrightarrow> quiet_on_mode (legacy_text env name (k # path) ov)"
  unfolding legacy_flag_def legacy_text_def
  by (auto simp del: json_at.simps split: option.splits intro: quiet_merge_at)

lemma AREAS_not_mode: "area \<in> set AREAS \<Longrightarrow> area \<noteq> ''mode''"
  by (auto simp: AREAS_def)

lemma quiet_generic: "quiet_on_mode ov \<Longrightarrow> \<not> mode_var (fst kv) \<Longrightarrow> quiet_on_mode (generic_var ov kv)"
  by (auto simp: generic_var_def mode_var_def Let_def simp del: json_at.simps split: option.splits
      dest: AREAS_not_mode intro!: quiet_merge_at)

lemma quiet_generics:
  "quiet_on_mode ov \<Longrightarrow> \<forall>kv \<in> set env. \<not> mode_var (fst kv) \<Longrightarrow> quiet_on_mode (foldl generic_var ov env)"
  by (induction env arbitrary: ov) (simp_all add: quiet_generic)

definition parses_wf :: "(string \<Rightarrow> string + json) \<Rightarrow> bool" where
  "parses_wf parse \<longleftrightarrow> (\<forall>s v. parse s = Inr v \<longrightarrow> doc_wf v)"

lemma env_overlay_quiet:
  assumes "parses_wf parse_json" "env_overlay parse_json env = Inr eo"
    and "\<forall>kv \<in> set env. \<not> mode_var (fst kv)"
    and "\<And>blob v. map_of env ''AGENT_BRIDLE_CONFIG'' = Some blob \<Longrightarrow> parse_json blob = Inr v \<Longrightarrow> silent_at [''mode''] v"
  shows "quiet_on_mode eo"
proof -
  obtain o0 where o0: "env_blob parse_json env = Inr o0" using assms(2) by (auto simp: env_overlay_def split: sum.splits)
  have "quiet_on_mode o0"
  proof (cases "map_of env ''AGENT_BRIDLE_CONFIG''")
    case None
    then have "o0 = JObject []" using o0 by (simp add: env_blob_def)
    then show ?thesis by (simp add: quiet_on_mode_def silent_at_get is_object_def json_get_def)
  next
    case (Some blob)
    then obtain v where v: "parse_json blob = Inr v" "o0 = deep_merge (JObject []) v"
      using o0 by (auto simp: env_blob_def split: sum.splits)
    have "quiet_on_mode (JObject [])" "quiet_on_mode v"
      using assms(1,4) Some v(1) by (auto simp: parses_wf_def quiet_on_mode_def silent_at_get is_object_def json_get_def)
    then show ?thesis unfolding v(2) quiet_on_mode_def using silent_merge doc_wf_merge(1) by blast
  qed
  with o0 assms(2,3) show ?thesis
    by (auto simp: env_overlay_def Let_def intro!: quiet_generics quiet_legacy)
qed

lemma doc_wf_legacy:
  "doc_wf ov \<Longrightarrow> doc_wf (legacy_flag env name path ov)" "doc_wf ov \<Longrightarrow> doc_wf (legacy_text env name path ov)"
  by (simp_all add: legacy_flag_def legacy_text_def doc_wf_merge(1) split: option.splits)

lemma doc_wf_generics: "doc_wf ov \<Longrightarrow> doc_wf (foldl generic_var ov env)"
proof (induction env arbitrary: ov)
  case (Cons kv env)
  have "doc_wf (generic_var ov kv)"
    using Cons.prems by (auto simp: generic_var_def Let_def doc_wf_merge(1) simp del: json_at.simps split: option.splits)
  with Cons.IH show ?case by simp
qed simp

lemma env_overlay_wf:
  assumes "parses_wf parse_json" "env_overlay parse_json env = Inr eo"
  shows "doc_wf eo"
proof -
  obtain o0 where o0: "env_blob parse_json env = Inr o0" using assms(2) by (auto simp: env_overlay_def split: sum.splits)
  then have "doc_wf o0"
    using assms(1) by (auto simp: env_blob_def parses_wf_def doc_wf_merge(1) split: option.splits sum.splits)
  with o0 assms(2) show ?thesis by (auto simp: env_overlay_def Let_def doc_wf_generics doc_wf_legacy)
qed

subsection \<open>The layers together\<close>

definition file_layer :: "'cfg codecs \<Rightarrow> string option \<Rightarrow> json list" where
  "file_layer cd file_toml =
     (case file_toml of None \<Rightarrow> [] | Some text \<Rightarrow>
        (case file_overlay (cd_toml cd) text of Inl _ \<Rightarrow> [] | Inr fo \<Rightarrow> if fo = JNull then [] else [fo]))"

definition env_layer :: "'cfg codecs \<Rightarrow> (string \<times> string) list \<Rightarrow> json list" where
  "env_layer cd env =
     (case env_overlay (cd_json cd) env of Inl _ \<Rightarrow> [] | Inr eo \<Rightarrow> if nonempty_object eo then [eo] else [])"

definition api_layer :: "json option \<Rightarrow> json list" where
  "api_layer api = (case api of None \<Rightarrow> [] | Some a \<Rightarrow> if a = JNull then [] else [a])"

definition codecs_wf :: "'cfg codecs \<Rightarrow> bool" where
  "codecs_wf cd \<longleftrightarrow> parses_wf (cd_toml cd) \<and> parses_wf (cd_json cd) \<and> doc_wf (cd_defaults cd)"

lemma merge_layers_fold:
  assumes "merge_layers cd file_toml env api = Inr (merged, prov)"
  shows "merged = foldl deep_merge (cd_defaults cd) (file_layer cd file_toml @ env_layer cd env @ api_layer api) \<and>
    prov = \<lparr>prov_file = file_layer cd file_toml \<noteq> [], prov_env = env_layer cd env \<noteq> [], prov_api = api_layer api \<noteq> []\<rparr>"
  using assms
  by (auto simp: merge_layers_def merge_file_def file_layer_def env_layer_def api_layer_def Let_def
      split: option.splits sum.splits if_splits)

lemma file_overlay_wf:
  "parses_wf toml \<Longrightarrow> file_overlay toml src = Inr ov \<Longrightarrow> doc_wf ov"
  by (cases "toml src") (auto simp: file_overlay_def parses_wf_def split: option.splits dest: doc_wf_get)

lemma file_layer_overlay: "ov \<in> set (file_layer cd file_toml) \<Longrightarrow> \<exists>src. file_overlay (cd_toml cd) src = Inr ov"
  by (cases file_toml; cases "file_overlay (cd_toml cd) (the file_toml)") (auto simp: file_layer_def split: if_splits)

lemma file_layer_wf: "codecs_wf cd \<Longrightarrow> ov \<in> set (file_layer cd file_toml) \<Longrightarrow> doc_wf ov"
  using file_overlay_wf file_layer_overlay unfolding codecs_wf_def by blast

lemma env_layer_overlay: "ov \<in> set (env_layer cd env) \<Longrightarrow> env_overlay (cd_json cd) env = Inr ov"
  by (auto simp: env_layer_def split: sum.splits if_splits)

lemma env_layer_wf: "codecs_wf cd \<Longrightarrow> ov \<in> set (env_layer cd env) \<Longrightarrow> doc_wf ov"
  using env_overlay_wf env_layer_overlay unfolding codecs_wf_def by blast

lemma api_layer_wf: "\<forall>a. api = Some a \<longrightarrow> doc_wf a \<Longrightarrow> ov \<in> set (api_layer api) \<Longrightarrow> doc_wf ov"
  by (auto simp: api_layer_def split: option.splits if_splits)

definition overlays :: "'cfg codecs \<Rightarrow> string option \<Rightarrow> (string \<times> string) list \<Rightarrow> json option \<Rightarrow> json list" where
  "overlays cd file_toml env api = file_layer cd file_toml @ env_layer cd env @ api_layer api"

lemma overlays_wf:
  "codecs_wf cd \<Longrightarrow> \<forall>a. api = Some a \<longrightarrow> doc_wf a \<Longrightarrow> \<forall>ov \<in> set (overlays cd file_toml env api). doc_wf ov"
  unfolding overlays_def using file_layer_wf env_layer_wf api_layer_wf by (metis Un_iff set_append)

definition scalar_at :: "string list \<Rightarrow> json \<Rightarrow> bool" where
  "scalar_at path v = (case value_at path v of None \<Rightarrow> False | Some w \<Rightarrow> \<not> is_object w)"

text \<open>The reference: the last layer that sets the field wins.\<close>

fun last_set :: "string list \<Rightarrow> json option \<Rightarrow> json list \<Rightarrow> json option" where
  "last_set path acc [] = acc"
| "last_set path acc (ov # layers) = last_set path (if silent_at path ov then acc else value_at path ov) layers"

lemma fold_layers:
  "doc_wf base \<Longrightarrow> \<forall>ov \<in> set layers. doc_wf ov \<Longrightarrow> \<forall>ov \<in> set layers. silent_at path ov \<or> scalar_at path ov \<Longrightarrow>
   value_at path (foldl deep_merge base layers) = last_set path (value_at path base) layers"
proof (induction layers arbitrary: base)
  case (Cons ov layers)
  have "value_at path (deep_merge base ov) = (if silent_at path ov then value_at path base else value_at path ov)"
    using Cons.prems merge_silent merge_sets by (auto simp: scalar_at_def split: option.splits)
  moreover have "doc_wf (deep_merge base ov)" using Cons.prems by (simp add: doc_wf_merge(1))
  ultimately show ?case using Cons by simp
qed simp

lemma last_set_silent: "\<forall>ov \<in> set layers. silent_at path ov \<Longrightarrow> last_set path acc layers = acc"
  by (induction layers arbitrary: acc) simp_all

lemma merged_value:
  assumes "codecs_wf cd" "\<forall>a. api = Some a \<longrightarrow> doc_wf a" "merge_layers cd file_toml env api = Inr (merged, prov)"
    and "\<forall>ov \<in> set (overlays cd file_toml env api). silent_at path ov \<or> scalar_at path ov"
  shows "value_at path merged = last_set path (value_at path (cd_defaults cd)) (overlays cd file_toml env api)"
proof -
  have "doc_wf (cd_defaults cd)" using assms(1) by (simp add: codecs_wf_def)
  from fold_layers [OF this overlays_wf [OF assms(1,2)] assms(4)] show ?thesis
    using merge_layers_fold [OF assms(3)] by (simp add: overlays_def)
qed

lemma push_missing_spec:
  "set (push_missing out es) = set out \<union> set es \<and> distinct (push_missing out es) = distinct out \<and>
   prefix out (push_missing out es)"
  by (induction out es rule: push_missing.induct) (auto elim: append_prefixD)

lemma fence_env_filter:
  "fence_env env deny = (filter (\<lambda>kv. fst kv \<notin> set deny) env, map fst (filter (\<lambda>kv. fst kv \<in> set deny) env))"
  by (induction env deny rule: fence_env.induct) simp_all

subsection \<open>Properties\<close>

text \<open>Precedence of the configuration layers, field by field: where every layer either leaves a field
  alone or gives it a plain value, the resolved document holds the value of the highest layer that sets
  the field (the programmatic overlay over the environment over the file), and the default when none
  does; a field that a layer does not name keeps the value of the layers below, even where the layer sets
  its siblings. The recorded provenance names exactly the layers that were merged.
\<close>

theorem layered_precedence:
  assumes "codecs_wf cd" "\<forall>a. api = Some a \<longrightarrow> doc_wf a" "merge_layers cd file_toml env api = Inr (merged, prov)"
    and "\<forall>ov \<in> set (overlays cd file_toml env api). silent_at path ov \<or> scalar_at path ov"
  shows "value_at path merged = last_set path (value_at path (cd_defaults cd)) (overlays cd file_toml env api) \<and>
    prov = \<lparr>prov_file = file_layer cd file_toml \<noteq> [], prov_env = env_layer cd env \<noteq> [], prov_api = api_layer api \<noteq> []\<rparr>"
  using merged_value [OF assms] merge_layers_fold [OF assms(3)] by simp

definition sample_codecs :: "json codecs" where
  "sample_codecs =
     \<lparr>cd_toml = (\<lambda>s. Inr (JObject [(''bridle'', JObject [(''mode'', JString s), (''normalization'', JObject [(''ldd_closure'', JBool True)])])])),
      cd_json = (\<lambda>s. Inl s),
      cd_defaults = JObject [(''mode'', JString ''bridled''), (''normalization'', JObject [(''ldd_closure'', JBool True), (''rootfs_cache'', JBool True)])],
      cd_decode = Inr\<rparr>"

lemma sample_codecs_wf: "codecs_wf sample_codecs"
  by (simp add: codecs_wf_def parses_wf_def sample_codecs_def bmap_wf_def)

theorem layered_precedence_witness:
  "merge_layers sample_codecs (Some ''bridled'') [(''BRIDLE_NORMALIZATION_LDD_CLOSURE'', ''False'')] None =
     Inr (JObject [(''mode'', JString ''bridled''), (''normalization'', JObject [(''ldd_closure'', JBool False), (''rootfs_cache'', JBool True)])], \<lparr>prov_file = True, prov_env = True, prov_api = False\<rparr>) \<and>
   value_at [''normalization'', ''ldd_closure'']
     (JObject [(''mode'', JString ''bridled''), (''normalization'', JObject [(''ldd_closure'', JBool False), (''rootfs_cache'', JBool True)])]) =
   last_set [''normalization'', ''ldd_closure''] (value_at [''normalization'', ''ldd_closure''] (cd_defaults sample_codecs))
     (overlays sample_codecs (Some ''bridled'') [(''BRIDLE_NORMALIZATION_LDD_CLOSURE'', ''False'')] None)"
proof -
  have m: "merge_layers sample_codecs (Some ''bridled'') [(''BRIDLE_NORMALIZATION_LDD_CLOSURE'', ''False'')] None =
     Inr (JObject [(''mode'', JString ''bridled''), (''normalization'', JObject [(''ldd_closure'', JBool False), (''rootfs_cache'', JBool True)])], \<lparr>prov_file = True, prov_env = True, prov_api = False\<rparr>)"
    by code_simp
  have s: "\<forall>ov \<in> set (overlays sample_codecs (Some ''bridled'') [(''BRIDLE_NORMALIZATION_LDD_CLOSURE'', ''False'')] None).
      silent_at [''normalization'', ''ldd_closure''] ov \<or> scalar_at [''normalization'', ''ldd_closure''] ov"
    by code_simp
  show ?thesis using m layered_precedence [OF sample_codecs_wf _ m s] by simp
qed

text \<open>The confinement mode is never changed by omission: if the resolved mode is not the default one, the
  file's table sets it, or the configuration blob does, or a variable named for it is set, or the
  programmatic overlay sets it.
\<close>

theorem mode_never_by_omission:
  assumes "codecs_wf cd" "\<forall>a. api = Some a \<longrightarrow> doc_wf a" "merge_layers cd file_toml env api = Inr (merged, prov)"
    and "value_at [''mode''] merged \<noteq> value_at [''mode''] (cd_defaults cd)"
  shows "(\<exists>fo \<in> set (file_layer cd file_toml). \<not> silent_at [''mode''] fo) \<or>
    (\<exists>blob v. map_of env ''AGENT_BRIDLE_CONFIG'' = Some blob \<and> cd_json cd blob = Inr v \<and> \<not> silent_at [''mode''] v) \<or>
    (\<exists>kv \<in> set env. mode_var (fst kv)) \<or>
    (\<exists>a \<in> set (api_layer api). \<not> silent_at [''mode''] a)"
proof (rule ccontr)
  assume none: "\<not> ?thesis"
  have "silent_at [''mode''] eo" if "eo \<in> set (env_layer cd env)" for eo
  proof -
    have "parses_wf (cd_json cd)" using assms(1) by (simp add: codecs_wf_def)
    from env_overlay_quiet [OF this env_layer_overlay [OF that]] show ?thesis
      using none by (simp add: quiet_on_mode_def)
  qed
  then have silent: "\<forall>ov \<in> set (overlays cd file_toml env api). silent_at [''mode''] ov"
    using none unfolding overlays_def by (metis Un_iff set_append)
  then have "value_at [''mode''] merged = value_at [''mode''] (cd_defaults cd)"
    using merged_value [OF assms(1-3), of "[''mode'']"] last_set_silent [OF silent] by simp
  with assms(4) show False ..
qed

theorem mode_never_by_omission_witness:
  "merge_layers sample_codecs None [(''BRIDLE_MODE'', ''Unbridle'')] None =
     Inr (JObject [(''mode'', JString ''unbridle''), (''normalization'', JObject [(''ldd_closure'', JBool True), (''rootfs_cache'', JBool True)])], \<lparr>prov_file = False, prov_env = True, prov_api = False\<rparr>) \<and>
   (\<exists>kv \<in> set [(''BRIDLE_MODE'', ''Unbridle'')]. mode_var (fst kv))"
proof -
  have m: "merge_layers sample_codecs None [(''BRIDLE_MODE'', ''Unbridle'')] None =
     Inr (JObject [(''mode'', JString ''unbridle''), (''normalization'', JObject [(''ldd_closure'', JBool True), (''rootfs_cache'', JBool True)])], \<lparr>prov_file = False, prov_env = True, prov_api = False\<rparr>)"
    by code_simp
  have d: "value_at [''mode''] (JObject [(''mode'', JString ''unbridle''), (''normalization'', JObject [(''ldd_closure'', JBool True), (''rootfs_cache'', JBool True)])]) \<noteq> value_at [''mode''] (cd_defaults sample_codecs)"
    by code_simp
  show ?thesis using m mode_never_by_omission [OF sample_codecs_wf _ m d] by (auto simp: file_layer_def api_layer_def)
qed

text \<open>An additive path list keeps every base entry, adds every extra one exactly once and nothing else,
  and only a replacing list can drop a base entry; it is reported as widening exactly when it is not
  replacing and has an extra entry. The environment fence keeps, in order, exactly the bindings whose
  name is not on the denylist and reports exactly the names it dropped.
\<close>

theorem widening_is_additive:
  "set (pathlist_resolve p) = (if pl_replace p then set (pl_extra p) else set (pl_base p) \<union> set (pl_extra p)) \<and>
   (pl_replace p \<or> (distinct (pl_base p) = distinct (pathlist_resolve p) \<and> prefix (pl_base p) (pathlist_resolve p))) \<and>
   widens p = (\<not> pl_replace p \<and> pl_extra p \<noteq> []) \<and>
   fence_env env deny = (filter (\<lambda>kv. fst kv \<notin> set deny) env, map fst (filter (\<lambda>kv. fst kv \<in> set deny) env))"
  using push_missing_spec [of "pl_base p" "pl_extra p"] fence_env_filter [of env deny]
  by (simp add: pathlist_resolve_def widens_def)

end
