(* ===== verification/Tool_Envelope.thy ===== *)
theory Tool_Envelope
  imports Execution_Contract Bridle_Config
begin

text \<open>
  The result envelope (\<^verbatim>\<open>agent-bridle-core/src/envelope.rs\<close>) and the verifier of the Started/terminal
  pair it carries (\<^verbatim>\<open>envelope/execution.rs\<close>). The derived serializer is not modelled; which fields it
  leaves out is, since the \<^verbatim>\<open>skip_serializing_if\<close> attributes of the source decide it.
\<close>

subsection \<open>The envelope\<close>

record Disclosure =
  dis_unbridled :: bool
  dis_normalizations_disabled :: "string list"
  dis_net_over_delivery :: bool
  dis_backend_forced :: "string option"
  dis_mach_services :: "MachServiceDisclosure option"
  dis_engine :: "string option"
  dis_human_gate :: HumanGate

definition disclosure_default :: Disclosure where
  "disclosure_default =
     \<lparr>dis_unbridled = False, dis_normalizations_disabled = [], dis_net_over_delivery = False,
      dis_backend_forced = None, dis_mach_services = None, dis_engine = None, dis_human_gate = GatePasskey\<rparr>"

definition is_quiet :: "Disclosure \<Rightarrow> bool" where
  "is_quiet d \<longleftrightarrow>
     \<not> dis_unbridled d \<and> dis_normalizations_disabled d = [] \<and> \<not> dis_net_over_delivery d \<and>
     dis_backend_forced d = None \<and> dis_mach_services d = None \<and> dis_engine d = None"

record ToolEnvelope =
  te_exit_code :: "int option"
  te_stdout :: "string option"
  te_stderr :: "string option"
  te_timed_out :: "bool option"
  te_stdout_truncated :: bool
  te_stderr_truncated :: bool
  te_denied :: bool
  te_denials :: "Denial list"
  te_sandbox_kind :: SandboxKind
  te_enforcement :: EnforcementReport
  te_disclosure :: Disclosure
  te_execution_started :: "ExecutionEvent option"
  te_execution :: "ExecutionEvent option"

definition report_default :: EnforcementReport where
  "report_default = \<lparr>rep_fs_read = None, rep_fs_write = None, rep_exec = None, rep_net = None\<rparr>"

definition envelope_new :: "SandboxKind \<Rightarrow> ToolEnvelope" where
  "envelope_new kind =
     \<lparr>te_exit_code = None, te_stdout = None, te_stderr = None, te_timed_out = None, te_stdout_truncated = False,
      te_stderr_truncated = False, te_denied = False, te_denials = [], te_sandbox_kind = kind,
      te_enforcement = report_default, te_disclosure = disclosure_default, te_execution_started = None,
      te_execution = None\<rparr>"

definition with_exit_code :: "int \<Rightarrow> ToolEnvelope \<Rightarrow> ToolEnvelope" where
  "with_exit_code code e = e\<lparr>te_exit_code := Some code\<rparr>"

definition with_stdout :: "string \<Rightarrow> ToolEnvelope \<Rightarrow> ToolEnvelope" where
  "with_stdout s e = e\<lparr>te_stdout := Some s\<rparr>"

definition with_stderr :: "string \<Rightarrow> ToolEnvelope \<Rightarrow> ToolEnvelope" where
  "with_stderr s e = e\<lparr>te_stderr := Some s\<rparr>"

definition with_timed_out :: "bool \<Rightarrow> ToolEnvelope \<Rightarrow> ToolEnvelope" where
  "with_timed_out b e = e\<lparr>te_timed_out := Some b\<rparr>"

definition with_truncation :: "bool \<Rightarrow> bool \<Rightarrow> ToolEnvelope \<Rightarrow> ToolEnvelope" where
  "with_truncation o_trunc e_trunc e = e\<lparr>te_stdout_truncated := o_trunc, te_stderr_truncated := e_trunc\<rparr>"

definition with_denials :: "Denial list \<Rightarrow> ToolEnvelope \<Rightarrow> ToolEnvelope" where
  "with_denials ds e = e\<lparr>te_denied := (ds \<noteq> []), te_denials := ds\<rparr>"

definition with_enforcement :: "EnforcementReport \<Rightarrow> ToolEnvelope \<Rightarrow> ToolEnvelope" where
  "with_enforcement r e = e\<lparr>te_enforcement := r\<rparr>"

definition with_disclosure :: "Disclosure \<Rightarrow> ToolEnvelope \<Rightarrow> ToolEnvelope" where
  "with_disclosure d e = e\<lparr>te_disclosure := d\<rparr>"

lemmas envelope_defs = envelope_new_def with_exit_code_def with_stdout_def with_stderr_def with_timed_out_def
  with_truncation_def with_denials_def with_enforcement_def with_disclosure_def

text \<open>The fields of the JSON object: a field with a \<^verbatim>\<open>skip_serializing_if\<close> attribute is left out when its test holds.\<close>

definition emitted_fields :: "ToolEnvelope \<Rightarrow> string list" where
  "emitted_fields e =
     (if te_exit_code e = None then [] else [''exit_code'']) @
     (if te_stdout e = None then [] else [''stdout'']) @
     (if te_stderr e = None then [] else [''stderr'']) @
     (if te_timed_out e = None then [] else [''timed_out'']) @
     (if te_stdout_truncated e then [''stdout_truncated''] else []) @
     (if te_stderr_truncated e then [''stderr_truncated''] else []) @
     (if te_denied e then [''denied''] else []) @
     (if te_denials e = [] then [] else [''denials'']) @
     [''sandbox_kind''] @
     (if report_is_empty (te_enforcement e) then [] else [''enforcement'']) @
     (if is_quiet (te_disclosure e) then [] else [''disclosure'']) @
     (if te_execution_started e = None then [] else [''execution_started'']) @
     (if te_execution e = None then [] else [''execution''])"

subsection \<open>The Started/terminal pair\<close>

definition invalid_pair :: ToolError where
  "invalid_pair = denied ''invalid named-root Started/terminal evidence pair'' []"

definition verify_started ::
  "'file meta_os \<Rightarrow> mesh \<Rightarrow> host \<Rightarrow> ToolEnvelope \<Rightarrow> ExecutionEvent \<Rightarrow> ExecutionEvent \<Rightarrow> string \<Rightarrow> Caveats \<Rightarrow> string list \<Rightarrow>
   AdmittedFenceBody option ToolResult" where
  "verify_started fs ms h env started terminal expected_root eff protected_roots =
     (if ev_execution started \<noteq> ev_execution terminal \<or> ev_sequence terminal \<le> ev_sequence started \<or>
         (case ev_kind terminal of KDenied _ \<Rightarrow> True | _ \<Rightarrow> False)
      then Inl invalid_pair
      else (case ev_kind started of
          KStarted _ fence \<Rightarrow>
            (case verify_named_root fs ms h fence expected_root eff protected_roots of
               Inl e \<Rightarrow> Inl e
             | Inr body \<Rightarrow>
                 if te_sandbox_kind env \<noteq> fe_sandbox_kind fence \<or>
                    te_enforcement env \<noteq> enforcement_report h eff (body_mechanism body)
                 then Inl invalid_pair
                 else (case ev_kind terminal of
                     KExited exit \<Rightarrow> if ex_fence exit \<noteq> fence then Inl invalid_pair else Inr (Some body)
                   | _ \<Rightarrow> Inr (Some body)))
        | _ \<Rightarrow> Inl invalid_pair))"

definition verify_named_root_execution ::
  "'file meta_os \<Rightarrow> mesh \<Rightarrow> host \<Rightarrow> ToolEnvelope \<Rightarrow> string \<Rightarrow> Caveats \<Rightarrow> string list \<Rightarrow>
   AdmittedFenceBody option ToolResult" where
  "verify_named_root_execution fs ms h env expected_root eff protected_roots =
     (case te_execution env of
        None \<Rightarrow> Inl invalid_pair
      | Some terminal \<Rightarrow>
          if \<not> is_terminal terminal then Inl invalid_pair
          else (case te_execution_started env of
              None \<Rightarrow>
                if (case ev_kind terminal of KExited _ \<Rightarrow> True | _ \<Rightarrow> False) \<or>
                   te_sandbox_kind env \<noteq> NoSandbox \<or> \<not> report_is_empty (te_enforcement env)
                then Inl invalid_pair
                else Inr None
            | Some started \<Rightarrow> verify_started fs ms h env started terminal expected_root eff protected_roots))"

subsection \<open>Properties\<close>

lemma verify_named_root_Inr:
  assumes "verify_named_root fs ms h ev root eff protected = Inr body"
  shows "fe_admitted ev = Some body \<and> body_fence_id ms body = Inr (fe_fence_id ev) \<and>
    m_kind (body_mechanism body) = fe_sandbox_kind ev \<and> \<not> fe_egress_proxied ev \<and>
    body_root body = root \<and> body_effective body = eff"
  using assms
  by (auto simp: verify_named_root_def body_verify_def Let_def split: option.splits sum.splits if_splits)

text \<open>What the verifier of a managed execution accepts. With a Started event the answer names the admitted
  body of that event's fence: its content address is the fence's, it was admitted for exactly the expected
  root and authority, no egress proxy was in place, Started and terminal belong to one execution in this
  order, the terminal is an exit under the same fence or a failure, and the sandbox kind and per-axis report
  of the envelope are the ones that body implies. Without a Started event only a failure or denial is
  accepted, and only from an envelope that claims no confinement at all.
\<close>

theorem verified_execution_pair:
  assumes "verify_named_root_execution fs ms h env root eff protected = Inr answer"
  shows "\<exists>terminal. te_execution env = Some terminal \<and>
    (case answer of
       Some body \<Rightarrow> (\<exists>started pid fence. te_execution_started env = Some started \<and> ev_kind started = KStarted pid fence \<and>
         ev_execution started = ev_execution terminal \<and> ev_sequence started < ev_sequence terminal \<and>
         fe_admitted fence = Some body \<and> body_fence_id ms body = Inr (fe_fence_id fence) \<and>
         body_root body = root \<and> body_effective body = eff \<and> \<not> fe_egress_proxied fence \<and>
         te_sandbox_kind env = m_kind (body_mechanism body) \<and>
         te_enforcement env = enforcement_report h eff (body_mechanism body) \<and>
         ((\<exists>exit. ev_kind terminal = KExited exit \<and> ex_fence exit = fence) \<or> (\<exists>r. ev_kind terminal = KFailed r)))
     | None \<Rightarrow> te_execution_started env = None \<and> te_sandbox_kind env = NoSandbox \<and>
         report_is_empty (te_enforcement env) \<and>
         ((\<exists>d. ev_kind terminal = KDenied d) \<or> (\<exists>r. ev_kind terminal = KFailed r)))"
proof -
  obtain terminal where t: "te_execution env = Some terminal" "is_terminal terminal"
    using assms by (auto simp: verify_named_root_execution_def split: option.splits if_splits)
  show ?thesis
  proof (cases "te_execution_started env")
    case None
    then show ?thesis
      using assms t
      by (auto simp: verify_named_root_execution_def is_terminal_def is_terminal_kind_def
          split: if_splits ExecutionEventKind.splits)
  next
    case (Some started)
    then have v: "verify_started fs ms h env started terminal root eff protected = Inr answer"
      using assms t by (simp add: verify_named_root_execution_def)
    then obtain pid fence body where k: "ev_kind started = KStarted pid fence"
        "verify_named_root fs ms h fence root eff protected = Inr body"
      by (auto simp: verify_started_def split: if_splits ExecutionEventKind.splits sum.splits)
    have a: "answer = Some body \<and> ev_execution started = ev_execution terminal \<and> ev_sequence started < ev_sequence terminal \<and>
        te_sandbox_kind env = fe_sandbox_kind fence \<and> te_enforcement env = enforcement_report h eff (body_mechanism body)"
      using v k by (auto simp: verify_started_def not_le split: if_splits ExecutionEventKind.splits)
    have "(\<exists>exit. ev_kind terminal = KExited exit \<and> ex_fence exit = fence) \<or> (\<exists>r. ev_kind terminal = KFailed r)"
      using v k t(2)
      by (auto simp: verify_started_def is_terminal_def is_terminal_kind_def split: if_splits ExecutionEventKind.splits)
    then show ?thesis using Some t a k(1) verify_named_root_Inr [OF k(2)] by auto
  qed
qed

definition git_body :: AdmittedFenceBody where
  "git_body = \<lparr>body_effective = root_grant, body_mechanism_caveats = root_grant, body_root = ''/usr/bin/git'',
     body_mechanism = for_named_root Landlock DenyDirect, body_projection = toy_projection,
     body_protected_roots = [''/home/u/.newt'']\<rparr>"

definition git_fence :: FenceEvidence where
  "git_fence = \<lparr>fe_fence_id = str_bytes ''/usr/bin/git'', fe_sandbox_kind = Landlock, fe_egress_proxied = False,
     fe_admitted = Some git_body\<rparr>"

definition git_run :: ToolEnvelope where
  "git_run = (envelope_new Landlock)
     \<lparr>te_enforcement := enforcement_report plain_host root_grant (body_mechanism git_body),
      te_execution_started := Some \<lparr>ev_execution = 1, ev_sequence = 1, ev_kind = KStarted 77 git_fence\<rparr>,
      te_execution := Some \<lparr>ev_execution = 1, ev_sequence = 2, ev_kind = KFailed (Fmt ''lost'' [])\<rparr>\<rparr>"

theorem verified_execution_pair_witness:
  "verify_named_root_execution linux_fs toy_mesh plain_host git_run ''/usr/bin/git'' root_grant [''/home/u/.newt''] =
     Inr (Some git_body) \<and>
   (\<exists>started. te_execution_started git_run = Some started \<and>
      te_enforcement git_run = enforcement_report plain_host root_grant (body_mechanism git_body))"
proof -
  have v: "verify_named_root_execution linux_fs toy_mesh plain_host git_run ''/usr/bin/git'' root_grant [''/home/u/.newt''] =
     Inr (Some git_body)"
    by code_simp
  from verified_execution_pair [OF v] v show ?thesis by auto
qed

end
