(* ===== verification/Shell_Tool.thy ===== *)
theory Shell_Tool
  imports Tool_Registry Shell_Glob Tool_Envelope
begin

text \<open>
  The confined shell tool (\<^verbatim>\<open>agent-bridle-tool-shell/src/shell_tool.rs\<close>): arguments, lowering of globs
  and variables, atomic admission, backend admission, and the script runner. The selected sandbox backend
  (a \<^verbatim>\<open>dyn Sandbox\<close>), the spawner, the environment and the directory lister are the trait objects of the
  code, given as functions. A panic of the code is a value.
\<close>

subsection \<open>Arguments\<close>

text \<open>How a step ends without a value: an in-band denial, an error returned to the caller, or a panic.\<close>

datatype shell_stop = StopDeny DenialKind string ToolError | StopErr ToolError | StopPanic string

definition as_str :: "json \<Rightarrow> string option" where
  "as_str v = (case v of JString s \<Rightarrow> Some s | _ \<Rightarrow> None)"

definition as_u64 :: "json \<Rightarrow> u64 option" where
  "as_u64 v =
     (case v of
        JNumber s \<Rightarrow>
          if s = [] then None
          else if \<not> list_all is_ascii_digit s then None
          else if 2 ^ 64 \<le> decimal_value s then None
          else Some (of_nat (decimal_value s))
      | _ \<Rightarrow> None)"

definition opt_bind :: "'a option \<Rightarrow> ('a \<Rightarrow> 'b option) \<Rightarrow> 'b option" where
  "opt_bind x f = (case x of None \<Rightarrow> None | Some v \<Rightarrow> f v)"

text \<open>\<^verbatim>\<open>Ord::clamp\<close> asserts that the bounds are ordered.\<close>

definition clamp :: "'a::linorder \<Rightarrow> 'a \<Rightarrow> 'a \<Rightarrow> 'a option" where
  "clamp lo hi x = (if hi < lo then None else Some (if x < lo then lo else if hi < x then hi else x))"

record ShellArgs =
  sa_program :: "string option"
  sa_args :: "string list"
  sa_cmd :: "string option"
  sa_cwd :: "string option"
  sa_env :: "(string \<times> string) list"
  sa_timeout :: u64

definition shell_args_parse :: "LimitsPolicy \<Rightarrow> json \<Rightarrow> shell_stop + ShellArgs" where
  "shell_args_parse limits v =
     (case v of
        JObject obj \<Rightarrow>
          let program = opt_bind (map_of obj ''program'') as_str;
              cmd = opt_bind (map_of obj ''cmd'') as_str;
              args = (case map_of obj ''args'' of Some (JArray a) \<Rightarrow> List.map_filter as_str a | _ \<Rightarrow> []);
              cwd = opt_bind (map_of obj ''cwd'') as_str;
              env = (case map_of obj ''env'' of
                  Some (JObject m) \<Rightarrow> List.map_filter (\<lambda>(k, x). map_option (Pair k) (as_str x)) m | _ \<Rightarrow> []);
              requested = (case opt_bind (map_of obj ''timeout_secs'') as_u64 of
                  None \<Rightarrow> lp_default_timeout_secs limits | Some n \<Rightarrow> n)
          in (case clamp 1 (lp_max_timeout_secs limits) requested of
              None \<Rightarrow> Inl (StopPanic ''assertion failed: min <= max'')
            | Some timeout_secs \<Rightarrow>
                if program \<noteq> None \<and> cmd \<noteq> None
                then Inl (StopErr (denied ''provide exactly one of `program` or `cmd`, not both'' []))
                else if program = None \<and> cmd = None
                then Inl (StopErr (denied ''provide one of `program` or `cmd`'' []))
                else if program = None \<and> args \<noteq> []
                then Inl (StopErr (denied ''`args` may only be used together with `program`'' []))
                else Inr \<lparr>sa_program = program, sa_args = args, sa_cmd = cmd, sa_cwd = cwd, sa_env = env,
                       sa_timeout = timeout_secs\<rparr>)
      | _ \<Rightarrow> Inl (StopErr (denied ''shell args must be a JSON object'' [])))"

definition shell_args_script :: "ShellArgs \<Rightarrow> Refusal + Script" where
  "shell_args_script a =
     (case sa_program a of
        Some program \<Rightarrow>
          Inr [\<lparr>it_sep = SepSeq, it_pipeline =
            [\<lparr>cmd_argv = ArgLit program # map ArgLit (sa_args a), cmd_redirects = []\<rparr>]\<rparr>]
      | None \<Rightarrow> classify (case sa_cmd a of None \<Rightarrow> [] | Some c \<Rightarrow> c))"

subsection \<open>The tool and its backend\<close>

text \<open>The \<^verbatim>\<open>Sandbox\<close> trait object that \<^verbatim>\<open>best_available_sandbox\<close> selects.\<close>

record backend =
  bk_kind :: SandboxKind
  bk_resolved_authority :: "Caveats \<Rightarrow> StdioPosture \<Rightarrow> ResolvedAuthority"
  bk_runtime_closure :: "Caveats \<Rightarrow> ResolvedAuthority"
  bk_command_prefix :: "Caveats \<Rightarrow> string list ToolResult"
  bk_apply :: "Caveats \<Rightarrow> unit ToolResult"

record Captured =
  cap_exit_code :: int
  cap_stdout :: string
  cap_stderr :: string
  cap_stdout_truncated :: bool
  cap_stderr_truncated :: bool
  cap_net_denials :: "Denial list"
  cap_timed_out :: bool

record SpawnCfg =
  sc_max_output :: nat
  sc_audit_sink :: "string option"
  sc_sandbox :: SandboxPolicy
  sc_private_hosts :: "string list"
  sc_unbridled :: bool
  sc_timeout :: u64

text \<open>A spawner acts on the world; \<open>None\<close> is a panic of the worker.\<close>

type_synonym 'w spawner_run =
  "Pipeline \<Rightarrow> string option \<Rightarrow> Caveats \<Rightarrow> (string \<times> string) list \<Rightarrow> SpawnCfg \<Rightarrow> 'w \<Rightarrow> 'w \<times> Captured ToolResult option"

record 'w ShellTool =
  sh_spawner :: "'w spawner_run"
  sh_requires_admission :: bool
  sh_env :: env_provider
  sh_lister :: lister
  sh_limits :: LimitsPolicy
  sh_sandbox :: SandboxPolicy
  sh_private_hosts :: "string list"

record 'file platform =
  pf_mesh :: mesh
  pf_host :: host
  pf_backend :: "SandboxPolicy \<Rightarrow> backend"
  pf_marks :: process_marks
  pf_fs :: "'file os"

subsection \<open>What is reported\<close>

definition plan_caveats :: "'file platform \<Rightarrow> 'w ShellTool \<Rightarrow> Caveats \<Rightarrow> Caveats" where
  "plan_caveats pf t c =
     (if is_unbridled (pf_marks pf) then c
      else (case egress_proxy_plan_for (bk_kind (pf_backend pf (sh_sandbox t))) c of
          Some (_, fenced) \<Rightarrow> fenced
        | None \<Rightarrow> c))"

definition intended_sandbox_kind :: "'file platform \<Rightarrow> Caveats \<Rightarrow> SandboxPolicy \<Rightarrow> SandboxKind" where
  "intended_sandbox_kind pf c policy = effective_sandbox_kind (pf_host pf) (bk_kind (pf_backend pf policy)) c"

definition reported_kind :: "'file platform \<Rightarrow> 'w ShellTool \<Rightarrow> Caveats \<Rightarrow> SandboxKind" where
  "reported_kind pf t c =
     (if is_unbridled (pf_marks pf) then NoSandbox else intended_sandbox_kind pf (plan_caveats pf t c) (sh_sandbox t))"

definition shell_mechanism :: "'file platform \<Rightarrow> 'w ShellTool \<Rightarrow> Caveats \<Rightarrow> ConfinementMechanism" where
  "shell_mechanism pf t c = mechanism_new (reported_kind pf t c) (sp_child_network (sh_sandbox t))"

definition shell_report :: "'file platform \<Rightarrow> 'w ShellTool \<Rightarrow> Caveats \<Rightarrow> EnforcementReport" where
  "shell_report pf t c = enforcement_report (pf_host pf) c (shell_mechanism pf t c)"

subsection \<open>Lowering\<close>

fun map_stop :: "('a \<Rightarrow> 'e + 'b) \<Rightarrow> 'a list \<Rightarrow> 'e + 'b list" where
  "map_stop f [] = Inr []"
| "map_stop f (x # xs) =
     (case f x of
        Inl e \<Rightarrow> Inl e
      | Inr y \<Rightarrow> (case map_stop f xs of Inl e \<Rightarrow> Inl e | Inr ys \<Rightarrow> Inr (y # ys)))"

definition lower_pattern :: "'w ShellTool \<Rightarrow> Arg \<Rightarrow> shell_stop + string option" where
  "lower_pattern t arg =
     (case arg of
        ArgGlob p \<Rightarrow> Inr (Some p)
      | ArgVarGlob segs \<Rightarrow>
          (case expand_varglob (sh_env t) (lp_var_allowlist (sh_limits t)) segs of
             Inl (target, e) \<Rightarrow> Inl (StopDeny DenyExec target e)
           | Inr p \<Rightarrow> Inr (Some p))
      | _ \<Rightarrow> Inr None)"

definition lower_arg :: "'file platform \<Rightarrow> 'w ShellTool \<Rightarrow> ToolContext \<Rightarrow> string option \<Rightarrow> Arg \<Rightarrow> shell_stop + Arg list" where
  "lower_arg pf t cx cwd arg =
     (case lower_pattern t arg of
        Inl s \<Rightarrow> Inl s
      | Inr None \<Rightarrow> Inr [arg]
      | Inr (Some p) \<Rightarrow>
          (case expand_glob_walk p cwd (sh_lister t) (check_path_read (pf_fs pf) cx)
               (lp_max_glob_depth (sh_limits t)) (lp_max_glob_matches (sh_limits t)) of
             Inl e \<Rightarrow> Inl (StopDeny DenyOpen p e)
           | Inr found \<Rightarrow> Inr (map ArgLit found)))"

definition lower_argv :: "'file platform \<Rightarrow> 'w ShellTool \<Rightarrow> ToolContext \<Rightarrow> string option \<Rightarrow> Arg list \<Rightarrow> shell_stop + Arg list" where
  "lower_argv pf t cx cwd argv =
     (case argv of
        [] \<Rightarrow> Inr []
      | program # args \<Rightarrow>
          (case map_stop (lower_arg pf t cx cwd) args of
             Inl s \<Rightarrow> Inl s
           | Inr lowered \<Rightarrow> Inr (program # concat lowered)))"

definition lower_target :: "'w ShellTool \<Rightarrow> Seg list \<Rightarrow> shell_stop + Seg list" where
  "lower_target t segs =
     (case expand_redirect_target (sh_env t) (lp_var_allowlist (sh_limits t)) segs of
        Inl (target, e) \<Rightarrow> Inl (StopDeny DenyOpen target e)
      | Inr resolved \<Rightarrow> Inr [SegLit resolved])"

definition lower_redirect :: "'w ShellTool \<Rightarrow> Redirect \<Rightarrow> shell_stop + Redirect" where
  "lower_redirect t r =
     (case r of
        RedStdout path app \<Rightarrow> map_sum id (\<lambda>p. RedStdout p app) (lower_target t path)
      | RedStderr path app \<Rightarrow> map_sum id (\<lambda>p. RedStderr p app) (lower_target t path)
      | RedStdin path \<Rightarrow> map_sum id RedStdin (lower_target t path)
      | RedStderrToStdout \<Rightarrow> Inr RedStderrToStdout)"

definition lower_stage :: "'file platform \<Rightarrow> 'w ShellTool \<Rightarrow> ToolContext \<Rightarrow> string option \<Rightarrow> Command \<Rightarrow> shell_stop + Command" where
  "lower_stage pf t cx cwd stage =
     (case lower_argv pf t cx cwd (cmd_argv stage) of
        Inl s \<Rightarrow> Inl s
      | Inr argv \<Rightarrow>
          (case map_stop (lower_redirect t) (cmd_redirects stage) of
             Inl s \<Rightarrow> Inl s
           | Inr redirects \<Rightarrow> Inr \<lparr>cmd_argv = argv, cmd_redirects = redirects\<rparr>))"

definition lower_item :: "'file platform \<Rightarrow> 'w ShellTool \<Rightarrow> ToolContext \<Rightarrow> string option \<Rightarrow> ScriptItem \<Rightarrow> shell_stop + ScriptItem" where
  "lower_item pf t cx cwd item =
     map_sum id (\<lambda>p. item\<lparr>it_pipeline := p\<rparr>) (map_stop (lower_stage pf t cx cwd) (it_pipeline item))"

definition lower_script :: "'file platform \<Rightarrow> 'w ShellTool \<Rightarrow> ToolContext \<Rightarrow> string option \<Rightarrow> Script \<Rightarrow> shell_stop + Script" where
  "lower_script pf t cx cwd script = map_stop (lower_item pf t cx cwd) script"

subsection \<open>Atomic admission\<close>

fun check_each :: "('a \<Rightarrow> 'e + unit) \<Rightarrow> 'a list \<Rightarrow> 'e + unit" where
  "check_each f [] = Inr ()"
| "check_each f (x # xs) = (case f x of Inl e \<Rightarrow> Inl e | Inr _ \<Rightarrow> check_each f xs)"

definition admit_program :: "ToolContext \<Rightarrow> Arg list \<Rightarrow> shell_stop + unit" where
  "admit_program cx argv =
     (case argv of
        [] \<Rightarrow> Inr ()
      | ArgLit program # _ \<Rightarrow>
          (case check_exec cx program of Inl e \<Rightarrow> Inl (StopDeny DenyExec program e) | Inr _ \<Rightarrow> Inr ())
      | ArgGlob pattern # _ \<Rightarrow>
          Inl (StopDeny DenyExec pattern (denied ''a glob pattern is not allowed as a program name'' []))
      | ArgVar _ # _ \<Rightarrow> Inl (StopDeny DenyExec ''$VAR'' (denied ''a variable is not allowed as a program name'' []))
      | ArgVarGlob _ # _ \<Rightarrow>
          Inl (StopDeny DenyExec ''$VAR/glob'' (denied ''a glob pattern is not allowed as a program name'' [])))"

definition admit_seg :: "string list \<Rightarrow> Seg \<Rightarrow> shell_stop + unit" where
  "admit_seg allowlist sg =
     (case sg of
        SegVar name \<Rightarrow>
          if \<not> is_allowed_var name allowlist
          then (case var_not_allowed name of (target, e) \<Rightarrow> Inl (StopDeny DenyExec target e))
          else Inr ()
      | SegLit _ \<Rightarrow> Inr ())"

definition admit_arg :: "string list \<Rightarrow> Arg \<Rightarrow> shell_stop + unit" where
  "admit_arg allowlist arg =
     (case arg of
        ArgVar segs \<Rightarrow> check_each (admit_seg allowlist) segs
      | ArgGlob _ \<Rightarrow> Inl (StopPanic ''glob expanded at admission'')
      | ArgVarGlob _ \<Rightarrow> Inl (StopPanic ''VarGlob expanded at admission'')
      | ArgLit _ \<Rightarrow> Inr ())"

definition admit_open :: "unit ToolResult \<Rightarrow> string \<Rightarrow> shell_stop + unit" where
  "admit_open checked path = (case checked of Inl e \<Rightarrow> Inl (StopDeny DenyOpen path e) | Inr _ \<Rightarrow> Inr ())"

definition admit_target :: "(string \<Rightarrow> unit ToolResult) \<Rightarrow> Seg list \<Rightarrow> shell_stop + unit" where
  "admit_target check segs =
     (case seg_literal segs of
        None \<Rightarrow> Inl (StopPanic ''redirect target lowered'')
      | Some p \<Rightarrow> admit_open (check p) p)"

definition admit_redirect :: "'file platform \<Rightarrow> ToolContext \<Rightarrow> Redirect \<Rightarrow> shell_stop + unit" where
  "admit_redirect pf cx r =
     (case r of
        RedStdout path _ \<Rightarrow> admit_target (check_path_write (pf_fs pf) cx) path
      | RedStderr path _ \<Rightarrow> admit_target (check_path_write (pf_fs pf) cx) path
      | RedStdin path \<Rightarrow> admit_target (check_path_read (pf_fs pf) cx) path
      | RedStderrToStdout \<Rightarrow> Inr ())"

definition admit_stage :: "'file platform \<Rightarrow> 'w ShellTool \<Rightarrow> ToolContext \<Rightarrow> Command \<Rightarrow> shell_stop + unit" where
  "admit_stage pf t cx stage =
     (case admit_program cx (cmd_argv stage) of
        Inl s \<Rightarrow> Inl s
      | Inr _ \<Rightarrow>
          (case check_each (admit_arg (lp_var_allowlist (sh_limits t))) (cmd_argv stage) of
             Inl s \<Rightarrow> Inl s
           | Inr _ \<Rightarrow> check_each (admit_redirect pf cx) (cmd_redirects stage)))"

definition admit_script :: "'file platform \<Rightarrow> 'w ShellTool \<Rightarrow> ToolContext \<Rightarrow> Script \<Rightarrow> shell_stop + unit" where
  "admit_script pf t cx script = check_each (\<lambda>item. check_each (admit_stage pf t cx) (it_pipeline item)) script"

definition admit_cwd :: "'file platform \<Rightarrow> ToolContext \<Rightarrow> string option \<Rightarrow> shell_stop + unit" where
  "admit_cwd pf cx cwd =
     (case cwd of None \<Rightarrow> Inr () | Some dir \<Rightarrow> admit_open (check_path_read (pf_fs pf) cx dir) dir)"

subsection \<open>Backend admission\<close>

definition axis_denial :: "ConfinedAxis option \<Rightarrow> DenialKind \<times> string" where
  "axis_denial ax =
     (case ax of
        Some Axis_FsRead \<Rightarrow> (DenyOpen, ''filesystem'')
      | Some Axis_FsWrite \<Rightarrow> (DenyOpen, ''filesystem'')
      | Some Axis_Net \<Rightarrow> (DenyNet, ''network'')
      | Some Axis_Exec \<Rightarrow> (DenyExec, ''confinement'')
      | None \<Rightarrow> (DenyExec, ''confinement''))"

definition backend_projection :: "'file platform \<Rightarrow> 'w ShellTool \<Rightarrow> Caveats \<Rightarrow> BackendProjection" where
  "backend_projection pf t c =
     (let bk = pf_backend pf (sh_sandbox t);
          bc = plan_caveats pf t c;
          resolved = bk_resolved_authority bk bc Unaudited
      in \<lparr>prj_resolved =
            (if reported_kind pf t c = AppContainer \<and> (case cav_exec bc of ScopeOnly ps \<Rightarrow> ps \<noteq> [] | ScopeAll \<Rightarrow> False)
             then resolved\<lparr>ra_exec := mesh_from_scope (pf_mesh pf) (cav_exec bc)\<rparr> else resolved),
          prj_runtime_closure = bk_runtime_closure bk bc\<rparr>)"

definition admit_backend :: "'file platform \<Rightarrow> 'w ShellTool \<Rightarrow> ToolContext \<Rightarrow> shell_stop + unit" where
  "admit_backend pf t cx =
     (let c = effective cx;
          bc = plan_caveats pf t c;
          projection = backend_projection pf t c;
          rejected = (case mesh_admit (pf_mesh pf) (prj_resolved projection) bc (prj_runtime_closure projection) of
              Admit \<Rightarrow> None | Reject ax _ \<Rightarrow> Some ax)
      in case admit_fence (pf_mesh pf) (pf_host pf) bc closure_empty (shell_mechanism pf t c) (strength_floor cx)
              (\<lambda>_. projection) of
           Inr _ \<Rightarrow> Inr ()
         | Inl error \<Rightarrow>
             (case axis_denial (or_else rejected
                 (map_option ua_axis (unenforceable_axis (pf_host pf) c (shell_mechanism pf t c) (strength_floor cx)))) of
                (kind, target) \<Rightarrow> Inl (StopDeny kind target error)))"

definition admit_strength :: "'file platform \<Rightarrow> 'w ShellTool \<Rightarrow> ToolContext \<Rightarrow> shell_stop + unit" where
  "admit_strength pf t cx =
     (case unenforceable_axis (pf_host pf) (effective cx) (shell_mechanism pf t (effective cx)) (strength_floor cx) of
        None \<Rightarrow> Inr ()
      | Some unmet \<Rightarrow>
          (case axis_denial (Some (ua_axis unmet)) of
             (kind, target) \<Rightarrow> Inl (StopDeny kind target (denied ''{unmet}; refusing to run unconfined'' []))))"

definition admit_confinement :: "'file platform \<Rightarrow> 'w ShellTool \<Rightarrow> ToolContext \<Rightarrow> shell_stop + unit" where
  "admit_confinement pf t cx =
     (if is_unbridled (pf_marks pf) then Inr ()
      else (case (if sh_requires_admission t then admit_backend pf t cx else Inr ()) of
          Inl s \<Rightarrow> Inl s
        | Inr _ \<Rightarrow> admit_strength pf t cx))"

subsection \<open>The plan of an invocation\<close>

text \<open>Everything that \<^verbatim>\<open>invoke_accounted\<close> decides before it hands the script to a worker.\<close>

datatype shell_refusal = Refused Refusal "string option" | Stopped shell_stop

record shell_plan =
  plan_script :: Script
  plan_cwd :: "string option"
  plan_env :: "(string \<times> string) list"
  plan_cfg :: SpawnCfg
  plan_disclosure :: Disclosure

definition run_disclosure :: "'file platform \<Rightarrow> 'w ShellTool \<Rightarrow> ToolContext \<Rightarrow> shell_stop + Disclosure" where
  "run_disclosure pf t cx =
     (case mach_service_disclosure (plan_caveats pf t (effective cx)) (reported_kind pf t (effective cx)) of
        Inl e \<Rightarrow> Inl (StopErr e)
      | Inr services \<Rightarrow>
          Inr (disclosure_default\<lparr>dis_unbridled := is_unbridled (pf_marks pf), dis_human_gate := human_gate (pf_marks pf),
            dis_mach_services := services\<rparr>))"

definition spawn_cfg :: "'file platform \<Rightarrow> 'w ShellTool \<Rightarrow> ShellArgs \<Rightarrow> SpawnCfg" where
  "spawn_cfg pf t a =
     \<lparr>sc_max_output = lp_max_output_bytes (sh_limits t), sc_audit_sink = lp_audit_sink (sh_limits t),
      sc_sandbox = sh_sandbox t, sc_private_hosts = sh_private_hosts t,
      sc_unbridled = is_unbridled (pf_marks pf), sc_timeout = sa_timeout a\<rparr>"

definition admit_all :: "'file platform \<Rightarrow> 'w ShellTool \<Rightarrow> ToolContext \<Rightarrow> ShellArgs \<Rightarrow> Script \<Rightarrow> shell_stop + shell_plan" where
  "admit_all pf t cx a script0 =
     (case lower_script pf t cx (sa_cwd a) script0 of
        Inl s \<Rightarrow> Inl s
      | Inr script \<Rightarrow>
          (case admit_script pf t cx script of
             Inl s \<Rightarrow> Inl s
           | Inr _ \<Rightarrow>
               (case admit_cwd pf cx (sa_cwd a) of
                  Inl s \<Rightarrow> Inl s
                | Inr _ \<Rightarrow>
                    (case admit_confinement pf t cx of
                       Inl s \<Rightarrow> Inl s
                     | Inr _ \<Rightarrow>
                         (case run_disclosure pf t cx of
                            Inl s \<Rightarrow> Inl s
                          | Inr disclosure \<Rightarrow>
                              Inr \<lparr>plan_script = script, plan_cwd = sa_cwd a,
                                plan_env = fst (fence_env (sa_env a) (lp_env_denylist (sh_limits t))),
                                plan_cfg = spawn_cfg pf t a, plan_disclosure = disclosure\<rparr>)))))"

definition shell_plan_of :: "'file platform \<Rightarrow> 'w ShellTool \<Rightarrow> ToolContext \<Rightarrow> json \<Rightarrow> shell_refusal + shell_plan" where
  "shell_plan_of pf t cx args =
     (case shell_args_parse (sh_limits t) args of
        Inl s \<Rightarrow> Inl (Stopped s)
      | Inr a \<Rightarrow>
          (case shell_args_script a of
             Inl refusal \<Rightarrow> Inl (Refused refusal (sa_cmd a))
           | Inr script \<Rightarrow> map_sum Stopped id (admit_all pf t cx a script)))"

subsection \<open>Running a script\<close>

definition is_char_boundary :: "string \<Rightarrow> nat \<Rightarrow> bool" where
  "is_char_boundary s i \<longleftrightarrow> i = 0 \<or> i = length s \<or> (i < length s \<and> \<not> is_continuation (s ! i))"

fun boundary_below :: "string \<Rightarrow> nat \<Rightarrow> nat" where
  "boundary_below s 0 = 0"
| "boundary_below s (Suc n) = (if is_char_boundary s (Suc n) then Suc n else boundary_below s n)"

definition cap_string :: "string \<Rightarrow> nat \<Rightarrow> string" where
  "cap_string s max_output = (if max_output < length s then take (boundary_below s max_output) s else s)"

record script_run =
  sr_stdout :: string
  sr_stderr :: string
  sr_status :: int
  sr_stdout_truncated :: bool
  sr_stderr_truncated :: bool
  sr_net_denials :: "Denial list"
  sr_timed_out :: bool

definition script_start :: script_run where
  "script_start = \<lparr>sr_stdout = [], sr_stderr = [], sr_status = 0, sr_stdout_truncated = False,
     sr_stderr_truncated = False, sr_net_denials = [], sr_timed_out = False\<rparr>"

definition runs_after :: "Sep \<Rightarrow> int \<Rightarrow> bool" where
  "runs_after sep status = (case sep of SepSeq \<Rightarrow> True | SepAnd \<Rightarrow> status = 0 | SepOr \<Rightarrow> status \<noteq> 0)"

definition absorb_captured :: "Captured \<Rightarrow> script_run \<Rightarrow> script_run" where
  "absorb_captured c acc =
     \<lparr>sr_stdout = sr_stdout acc @ cap_stdout c, sr_stderr = sr_stderr acc @ cap_stderr c, sr_status = cap_exit_code c,
      sr_stdout_truncated = (sr_stdout_truncated acc \<or> cap_stdout_truncated c),
      sr_stderr_truncated = (sr_stderr_truncated acc \<or> cap_stderr_truncated c),
      sr_net_denials = sr_net_denials acc @ cap_net_denials c, sr_timed_out = cap_timed_out c\<rparr>"

fun run_items :: "(Pipeline \<Rightarrow> 'w \<Rightarrow> 'w \<times> Captured ToolResult option) \<Rightarrow> script_run \<Rightarrow> Script \<Rightarrow> 'w \<Rightarrow>
    'w \<times> script_run ToolResult option" where
  "run_items run acc [] w = (w, Some (Inr acc))"
| "run_items run acc (item # items) w =
     (if runs_after (it_sep item) (sr_status acc)
      then (case run (it_pipeline item) w of
          (w', None) \<Rightarrow> (w', None)
        | (w', Some (Inl e)) \<Rightarrow> (w', Some (Inl e))
        | (w', Some (Inr c)) \<Rightarrow>
            if cap_timed_out c then (w', Some (Inr (absorb_captured c acc)))
            else run_items run (absorb_captured c acc) items w')
      else run_items run acc items w)"

definition script_captured :: "nat \<Rightarrow> script_run \<Rightarrow> Captured" where
  "script_captured max_output r =
     \<lparr>cap_exit_code = sr_status r, cap_stdout = cap_string (sr_stdout r) max_output,
      cap_stderr = cap_string (sr_stderr r) max_output,
      cap_stdout_truncated = (sr_stdout_truncated r \<or> max_output < length (sr_stdout r)),
      cap_stderr_truncated = (sr_stderr_truncated r \<or> max_output < length (sr_stderr r)),
      cap_net_denials = sr_net_denials r, cap_timed_out = sr_timed_out r\<rparr>"

definition run_script ::
  "'w spawner_run \<Rightarrow> Script \<Rightarrow> string option \<Rightarrow> Caveats \<Rightarrow> (string \<times> string) list \<Rightarrow> SpawnCfg \<Rightarrow> 'w \<Rightarrow>
   'w \<times> Captured ToolResult option" where
  "run_script spawner script cwd caveats env cfg w =
     apsnd (map_option (map_sum id (script_captured (sc_max_output cfg))))
       (run_items (\<lambda>pipeline. spawner pipeline cwd caveats env cfg) script_start script w)"

subsection \<open>Answers\<close>

definition error_display :: "ToolError \<Rightarrow> reason" where
  "error_display e =
     (case e of
        Denied (Fmt f as) \<Rightarrow> Fmt (''denied: '' @ f) as
      | NotFound name \<Rightarrow> Fmt ''no such tool: {name}'' [name]
      | Budget \<Rightarrow> Fmt ''denied: call budget (max_calls) exhausted'' []
      | Generation \<Rightarrow> Fmt ''denied: grant is not valid for the gate's generation'' []
      | Exec io \<Rightarrow> Fmt ''tool execution failed: {e}'' [io_error_text io]
      | Other m \<Rightarrow> Fmt ''{e}'' [m])"

definition unbridle_disclosure :: "'file platform \<Rightarrow> Disclosure" where
  "unbridle_disclosure pf =
     disclosure_default\<lparr>dis_unbridled := is_unbridled (pf_marks pf), dis_human_gate := human_gate (pf_marks pf)\<rparr>"

definition refusal_envelope :: "'file platform \<Rightarrow> 'w ShellTool \<Rightarrow> ToolContext \<Rightarrow> Denial \<Rightarrow> ToolEnvelope" where
  "refusal_envelope pf t cx d =
     with_denials [d] (with_disclosure (unbridle_disclosure pf)
       (with_enforcement (shell_report pf t (effective cx)) (envelope_new (reported_kind pf t (effective cx)))))"

definition deny_envelope :: "'file platform \<Rightarrow> 'w ShellTool \<Rightarrow> ToolContext \<Rightarrow> DenialKind \<Rightarrow> string \<Rightarrow> ToolError \<Rightarrow> ToolEnvelope" where
  "deny_envelope pf t cx kind target err =
     refusal_envelope pf t cx \<lparr>dn_kind = kind, dn_target = target, dn_reason = error_display err\<rparr>"

definition refused_envelope :: "'file platform \<Rightarrow> 'w ShellTool \<Rightarrow> ToolContext \<Rightarrow> Refusal \<Rightarrow> ToolEnvelope" where
  "refused_envelope pf t cx refusal =
     refusal_envelope pf t cx \<lparr>dn_kind = DenyExec, dn_target = construct refusal, dn_reason = Fmt (refusal_display refusal) []\<rparr>"

text \<open>The envelope is serialized by a derived serializer, and with the Brush parser in the build a refused
  dynamic construct carries the inspection of its source; both are parameters.\<close>

record codec =
  cc_into_json :: "ToolEnvelope \<Rightarrow> json"
  cc_inspect :: "string \<Rightarrow> json option"

definition attach_inspection :: "codec \<Rightarrow> Refusal \<Rightarrow> string option \<Rightarrow> json \<Rightarrow> json" where
  "attach_inspection cc refusal cmd v =
     (case (refusal, opt_bind cmd (cc_inspect cc), v) of
        (Dynamic _, Some inspection, JObject m) \<Rightarrow> JObject (bmap_insert ''shell_inspection'' inspection m)
      | _ \<Rightarrow> v)"

definition ran_envelope :: "'file platform \<Rightarrow> 'w ShellTool \<Rightarrow> ToolContext \<Rightarrow> Disclosure \<Rightarrow> Captured \<Rightarrow> ToolEnvelope" where
  "ran_envelope pf t cx disclosure c =
     with_timed_out (cap_timed_out c) (with_denials (cap_net_denials c) (with_stderr (cap_stderr c) (with_stdout (cap_stdout c)
       (with_truncation (cap_stdout_truncated c) (cap_stderr_truncated c) (with_exit_code (cap_exit_code c)
         (with_disclosure disclosure (with_enforcement (shell_report pf t (effective cx))
           (envelope_new (reported_kind pf t (effective cx))))))))))"

definition timeout_envelope :: "'file platform \<Rightarrow> 'w ShellTool \<Rightarrow> ToolContext \<Rightarrow> shell_plan \<Rightarrow> ToolEnvelope" where
  "timeout_envelope pf t cx plan =
     with_timed_out True (with_stderr (''command timed out after '' @ decimal (unat (sc_timeout (plan_cfg plan))) @ ''s'')
       (with_disclosure (plan_disclosure plan) (with_enforcement (shell_report pf t (effective cx))
         (envelope_new (reported_kind pf t (effective cx))))))"

datatype shell_answer = ShellPanics string | ShellAnswers "Invocation ToolResult"

text \<open>\<open>elapsed\<close> is whether the outer timer fires before the worker is done; the world is the one the worker
  leaves behind, which a detached worker reaches after the answer.\<close>

definition invoke_accounted ::
  "codec \<Rightarrow> 'file platform \<Rightarrow> 'w ShellTool \<Rightarrow> json \<Rightarrow> ToolContext \<Rightarrow> bool \<Rightarrow> 'w \<Rightarrow> 'w \<times> shell_answer" where
  "invoke_accounted cc pf t args cx elapsed w =
     (case shell_plan_of pf t cx args of
        Inl (Refused refusal cmd) \<Rightarrow>
          (w, ShellAnswers (Inr (PreRunDenied (attach_inspection cc refusal cmd (cc_into_json cc (refused_envelope pf t cx refusal))))))
      | Inl (Stopped (StopDeny kind target e)) \<Rightarrow>
          (w, ShellAnswers (Inr (PreRunDenied (cc_into_json cc (deny_envelope pf t cx kind target e)))))
      | Inl (Stopped (StopErr e)) \<Rightarrow> (w, ShellAnswers (Inl e))
      | Inl (Stopped (StopPanic m)) \<Rightarrow> (w, ShellPanics m)
      | Inr plan \<Rightarrow>
          (case run_script (sh_spawner t) (plan_script plan) (plan_cwd plan) (effective cx) (plan_env plan) (plan_cfg plan) w of
             (w', r) \<Rightarrow>
               (w', ShellAnswers
                 (if elapsed then Inr (Ran (cc_into_json cc (timeout_envelope pf t cx plan)))
                  else (case r of
                      None \<Rightarrow> Inl (Other ''shell task panicked: {e}'')
                    | Some (Inl e) \<Rightarrow> Inl e
                    | Some (Inr c) \<Rightarrow> Inr (Ran (cc_into_json cc (ran_envelope pf t cx (plan_disclosure plan) c))))))))"

subsection \<open>Traversals\<close>

lemma seq_Inr: "(case x of Inl s \<Rightarrow> Inl s | Inr v \<Rightarrow> f v) = Inr u \<longleftrightarrow> (\<exists>v. x = Inr v \<and> f v = Inr u)"
  by (cases x) auto

lemma seq_Inl:
  "(case x of Inl s \<Rightarrow> Inl s | Inr v \<Rightarrow> f v) = Inl e \<longleftrightarrow> x = Inl e \<or> (\<exists>v. x = Inr v \<and> f v = Inl e)"
  by (cases x) auto

lemma map_sum_Inr: "map_sum f g x = Inr y \<longleftrightarrow> (\<exists>v. x = Inr v \<and> y = g v)"
  by (cases x) auto

lemma map_sum_Inl: "map_sum f g x = Inl y \<longleftrightarrow> (\<exists>v. x = Inl v \<and> y = f v)"
  by (cases x) auto

lemma map_stop_Inr: "map_stop f xs = Inr ys \<Longrightarrow> list_all2 (\<lambda>x y. f x = Inr y) xs ys"
  by (induction xs arbitrary: ys) (auto split: sum.splits)

lemma map_stop_mem: "map_stop f xs = Inr ys \<Longrightarrow> y \<in> set ys \<Longrightarrow> \<exists>x \<in> set xs. f x = Inr y"
  by (induction xs arbitrary: ys) (auto split: sum.splits)

lemma map_stop_Inl: "map_stop f xs = Inl e \<Longrightarrow> \<exists>x \<in> set xs. f x = Inl e"
  by (induction xs) (auto split: sum.splits)

lemma map_stop_all: "map_stop f xs = Inr ys \<Longrightarrow> (\<And>x y. f x = Inr y \<Longrightarrow> P y) \<Longrightarrow> \<forall>y \<in> set ys. P y"
  by (induction xs arbitrary: ys) (auto split: sum.splits)

lemma map_stop_cong: "(\<And>x. x \<in> set xs \<Longrightarrow> f x = g x) \<Longrightarrow> map_stop f xs = map_stop g xs"
  by (induction xs) (auto split: sum.splits)

lemma check_each_Inr: "check_each f xs = Inr u \<longleftrightarrow> (\<forall>x \<in> set xs. f x = Inr ())"
  by (induction xs) (auto split: sum.splits)

lemma check_each_Inl: "check_each f xs = Inl e \<Longrightarrow> \<exists>x \<in> set xs. f x = Inl e"
  by (induction xs) (auto split: sum.splits)

subsection \<open>What lowering leaves\<close>

definition arg_lowered :: "Arg \<Rightarrow> bool" where
  "arg_lowered a = (case a of ArgLit _ \<Rightarrow> True | ArgVar _ \<Rightarrow> True | _ \<Rightarrow> False)"

definition redirect_lowered :: "Redirect \<Rightarrow> bool" where
  "redirect_lowered r =
     (case r of
        RedStdout path _ \<Rightarrow> seg_literal path \<noteq> None
      | RedStderr path _ \<Rightarrow> seg_literal path \<noteq> None
      | RedStdin path \<Rightarrow> seg_literal path \<noteq> None
      | RedStderrToStdout \<Rightarrow> True)"

definition stage_lowered :: "Command \<Rightarrow> bool" where
  "stage_lowered stage \<longleftrightarrow> list_all arg_lowered (tl (cmd_argv stage)) \<and> list_all redirect_lowered (cmd_redirects stage)"

lemma lower_arg_lowered: "lower_arg pf t cx cwd a = Inr ys \<Longrightarrow> list_all arg_lowered ys"
  by (cases a) (auto simp: lower_arg_def lower_pattern_def arg_lowered_def list_all_iff split: sum.splits)

lemma lower_target_literal: "lower_target t segs = Inr path \<Longrightarrow> \<exists>p. path = [SegLit p]"
  by (auto simp: lower_target_def split: sum.splits)

lemma lower_redirect_lowered: "lower_redirect t r = Inr r' \<Longrightarrow> redirect_lowered r'"
  by (cases r; cases "lower_target t (case r of RedStdout p _ \<Rightarrow> p | RedStderr p _ \<Rightarrow> p | RedStdin p \<Rightarrow> p | _ \<Rightarrow> [])")
    (auto simp: lower_redirect_def redirect_lowered_def seg_literal_def dest!: lower_target_literal)

lemma lower_argv_lowered:
  assumes "lower_argv pf t cx cwd argv = Inr argv'"
  shows "list_all arg_lowered (tl argv')"
proof (cases argv)
  case (Cons program args)
  then obtain lowered where l: "map_stop (lower_arg pf t cx cwd) args = Inr lowered" "argv' = program # concat lowered"
    using assms by (auto simp: lower_argv_def split: sum.splits)
  from l(1) have "\<forall>ys \<in> set lowered. list_all arg_lowered ys"
    by (rule map_stop_all) (rule lower_arg_lowered)
  then show ?thesis using l(2) by (auto simp: list_all_iff)
qed (use assms in \<open>simp add: lower_argv_def\<close>)

lemma lower_stage_lowered:
  assumes "lower_stage pf t cx cwd stage = Inr stage'"
  shows "stage_lowered stage'"
proof -
  obtain argv redirects where l: "lower_argv pf t cx cwd (cmd_argv stage) = Inr argv"
      "map_stop (lower_redirect t) (cmd_redirects stage) = Inr redirects"
      "stage' = \<lparr>cmd_argv = argv, cmd_redirects = redirects\<rparr>"
    using assms by (auto simp: lower_stage_def split: sum.splits)
  have "\<forall>r \<in> set redirects. redirect_lowered r"
    using l(2) by (rule map_stop_all) (rule lower_redirect_lowered)
  then show ?thesis using lower_argv_lowered [OF l(1)] by (simp add: l(3) stage_lowered_def list_all_iff)
qed

lemma lower_item_lowered:
  assumes "lower_item pf t cx cwd item0 = Inr item"
  shows "\<forall>stage \<in> set (it_pipeline item). stage_lowered stage"
proof -
  obtain p where p: "map_stop (lower_stage pf t cx cwd) (it_pipeline item0) = Inr p" "it_pipeline item = p"
    using assms by (cases "map_stop (lower_stage pf t cx cwd) (it_pipeline item0)") (auto simp: lower_item_def)
  from p(1) show ?thesis unfolding p(2) by (rule map_stop_all) (rule lower_stage_lowered)
qed

lemma lower_script_lowered:
  assumes "lower_script pf t cx cwd script0 = Inr script"
  shows "\<forall>item \<in> set script. \<forall>stage \<in> set (it_pipeline item). stage_lowered stage"
  using assms unfolding lower_script_def by (rule map_stop_all) (rule lower_item_lowered)

subsection \<open>What an admitted call is\<close>

definition arg_admitted :: "string list \<Rightarrow> Arg \<Rightarrow> bool" where
  "arg_admitted allowlist a =
     (case a of
        ArgLit _ \<Rightarrow> True
      | ArgVar segs \<Rightarrow> (\<forall>name. SegVar name \<in> set segs \<longrightarrow> name \<in> set allowlist)
      | _ \<Rightarrow> False)"

definition target_admitted :: "(string \<Rightarrow> unit ToolResult) \<Rightarrow> Seg list \<Rightarrow> bool" where
  "target_admitted check segs \<longleftrightarrow> (\<exists>p. segs = [SegLit p] \<and> check p = Inr ())"

definition redirect_admitted :: "'file os \<Rightarrow> ToolContext \<Rightarrow> Redirect \<Rightarrow> bool" where
  "redirect_admitted fs cx r =
     (case r of
        RedStdout path _ \<Rightarrow> target_admitted (check_path_write fs cx) path
      | RedStderr path _ \<Rightarrow> target_admitted (check_path_write fs cx) path
      | RedStdin path \<Rightarrow> target_admitted (check_path_read fs cx) path
      | RedStderrToStdout \<Rightarrow> True)"

definition program_admitted :: "ToolContext \<Rightarrow> Arg list \<Rightarrow> bool" where
  "program_admitted cx argv =
     (case argv of [] \<Rightarrow> True | ArgLit p # _ \<Rightarrow> exec_scope_allows (cav_exec (effective cx)) p | _ \<Rightarrow> False)"

definition stage_admitted :: "'file platform \<Rightarrow> 'w ShellTool \<Rightarrow> ToolContext \<Rightarrow> Command \<Rightarrow> bool" where
  "stage_admitted pf t cx stage \<longleftrightarrow>
     program_admitted cx (cmd_argv stage) \<and>
     (\<forall>a \<in> set (cmd_argv stage). arg_admitted (lp_var_allowlist (sh_limits t)) a) \<and>
     (\<forall>r \<in> set (cmd_redirects stage). redirect_admitted (pf_fs pf) cx r)"

definition confinement_admitted :: "'file platform \<Rightarrow> 'w ShellTool \<Rightarrow> ToolContext \<Rightarrow> bool" where
  "confinement_admitted pf t cx \<longleftrightarrow>
     is_unbridled (pf_marks pf) \<or>
     (unenforceable_axis (pf_host pf) (effective cx) (shell_mechanism pf t (effective cx)) (strength_floor cx) = None \<and>
      (sh_requires_admission t \<longrightarrow>
         is_ok (admit_fence (pf_mesh pf) (pf_host pf) (plan_caveats pf t (effective cx)) closure_empty
           (shell_mechanism pf t (effective cx)) (strength_floor cx) (\<lambda>_. backend_projection pf t (effective cx)))))"

definition call_admitted ::
  "'file platform \<Rightarrow> 'w ShellTool \<Rightarrow> ToolContext \<Rightarrow> Pipeline \<Rightarrow> string option \<Rightarrow> Caveats \<Rightarrow> (string \<times> string) list \<Rightarrow>
   SpawnCfg \<Rightarrow> bool" where
  "call_admitted pf t cx pipeline cwd c env cfg \<longleftrightarrow>
     (\<forall>stage \<in> set pipeline. stage_admitted pf t cx stage) \<and>
     (\<forall>dir. cwd = Some dir \<longrightarrow> check_path_read (pf_fs pf) cx dir = Inr ()) \<and>
     c = effective cx \<and>
     (\<forall>kv \<in> set env. fst kv \<notin> set (lp_env_denylist (sh_limits t))) \<and>
     confinement_admitted pf t cx \<and>
     sc_unbridled cfg = is_unbridled (pf_marks pf) \<and> sc_max_output cfg = lp_max_output_bytes (sh_limits t)"

lemma admit_program_Inr: "admit_program cx argv = Inr u \<longleftrightarrow> program_admitted cx argv"
  by (cases argv; cases "hd argv") (auto simp: admit_program_def program_admitted_def check_exec_def split: sum.splits)

lemma admit_arg_Inr: "admit_arg allowlist a = Inr u \<longleftrightarrow> arg_admitted allowlist a"
  by (cases a)
    (auto simp: admit_arg_def arg_admitted_def check_each_Inr admit_seg_def is_allowed_var_def split: Seg.splits prod.splits)

lemma admit_target_Inr: "admit_target check segs = Inr u \<longleftrightarrow> target_admitted check segs"
  by (auto simp: admit_target_def target_admitted_def seg_literal_def admit_open_def
      split: option.splits sum.splits list.splits Seg.splits)

lemma admit_redirect_Inr: "admit_redirect pf cx r = Inr u \<longleftrightarrow> redirect_admitted (pf_fs pf) cx r"
  by (cases r) (simp_all add: admit_redirect_def redirect_admitted_def admit_target_Inr)

lemma admit_stage_Inr: "admit_stage pf t cx stage = Inr u \<longleftrightarrow> stage_admitted pf t cx stage"
  by (simp add: admit_stage_def stage_admitted_def seq_Inr check_each_Inr admit_program_Inr admit_arg_Inr admit_redirect_Inr)

lemma admit_script_Inr:
  "admit_script pf t cx script = Inr u \<longleftrightarrow> (\<forall>item \<in> set script. \<forall>stage \<in> set (it_pipeline item). stage_admitted pf t cx stage)"
  by (simp add: admit_script_def check_each_Inr admit_stage_Inr)

lemma admit_cwd_Inr: "admit_cwd pf cx cwd = Inr u \<longleftrightarrow> (\<forall>dir. cwd = Some dir \<longrightarrow> check_path_read (pf_fs pf) cx dir = Inr ())"
  by (auto simp: admit_cwd_def admit_open_def split: option.splits sum.splits)

lemma admit_backend_Inr:
  "admit_backend pf t cx = Inr u \<longleftrightarrow>
   is_ok (admit_fence (pf_mesh pf) (pf_host pf) (plan_caveats pf t (effective cx)) closure_empty
     (shell_mechanism pf t (effective cx)) (strength_floor cx) (\<lambda>_. backend_projection pf t (effective cx)))"
  by (auto simp: admit_backend_def Let_def is_ok_iff split: sum.splits prod.splits)

lemma admit_confinement_Inr: "admit_confinement pf t cx = Inr u \<longleftrightarrow> confinement_admitted pf t cx"
proof -
  have "admit_strength pf t cx = Inr () \<longleftrightarrow>
      unenforceable_axis (pf_host pf) (effective cx) (shell_mechanism pf t (effective cx)) (strength_floor cx) = None"
    by (auto simp: admit_strength_def split: option.splits prod.splits)
  then show ?thesis
    by (auto simp: admit_confinement_def confinement_admitted_def seq_Inr admit_backend_Inr)
qed

lemmas admit_Inr = admit_script_Inr admit_cwd_Inr admit_confinement_Inr

lemma plan_admitted:
  assumes "shell_plan_of pf t cx args = Inr plan" "item \<in> set (plan_script plan)"
  shows "call_admitted pf t cx (it_pipeline item) (plan_cwd plan) (effective cx) (plan_env plan) (plan_cfg plan)"
proof -
  obtain a script0 where a: "admit_all pf t cx a script0 = Inr plan"
    using assms(1) by (auto simp: shell_plan_of_def seq_Inr map_sum_Inr split: sum.splits)
  then obtain script disclosure where s: "admit_script pf t cx script = Inr ()" "admit_cwd pf cx (sa_cwd a) = Inr ()"
      "admit_confinement pf t cx = Inr ()"
      "plan = \<lparr>plan_script = script, plan_cwd = sa_cwd a, plan_env = fst (fence_env (sa_env a) (lp_env_denylist (sh_limits t))),
         plan_cfg = spawn_cfg pf t a, plan_disclosure = disclosure\<rparr>"
    by (auto simp: admit_all_def seq_Inr)
  then show ?thesis
    using assms(2) by (auto simp: call_admitted_def admit_Inr fence_env_filter spawn_cfg_def)
qed

subsection \<open>Independence of the spawner and of other variables\<close>

lemma select_spawner:
  "sh_requires_admission (t\<lparr>sh_spawner := sp\<rparr>) = sh_requires_admission t"
  "sh_env (t\<lparr>sh_spawner := sp\<rparr>) = sh_env t"
  "sh_lister (t\<lparr>sh_spawner := sp\<rparr>) = sh_lister t"
  "sh_limits (t\<lparr>sh_spawner := sp\<rparr>) = sh_limits t"
  "sh_sandbox (t\<lparr>sh_spawner := sp\<rparr>) = sh_sandbox t"
  "sh_private_hosts (t\<lparr>sh_spawner := sp\<rparr>) = sh_private_hosts t"
  by simp_all

lemma report_spawner:
  "plan_caveats pf (t\<lparr>sh_spawner := sp\<rparr>) = plan_caveats pf t"
  "reported_kind pf (t\<lparr>sh_spawner := sp\<rparr>) = reported_kind pf t"
  "shell_mechanism pf (t\<lparr>sh_spawner := sp\<rparr>) = shell_mechanism pf t"
  "shell_report pf (t\<lparr>sh_spawner := sp\<rparr>) = shell_report pf t"
  "backend_projection pf (t\<lparr>sh_spawner := sp\<rparr>) = backend_projection pf t"
  "admit_backend pf (t\<lparr>sh_spawner := sp\<rparr>) = admit_backend pf t"
  "admit_strength pf (t\<lparr>sh_spawner := sp\<rparr>) = admit_strength pf t"
  "admit_confinement pf (t\<lparr>sh_spawner := sp\<rparr>) = admit_confinement pf t"
  "admit_stage pf (t\<lparr>sh_spawner := sp\<rparr>) = admit_stage pf t"
  "admit_script pf (t\<lparr>sh_spawner := sp\<rparr>) = admit_script pf t"
  "run_disclosure pf (t\<lparr>sh_spawner := sp\<rparr>) = run_disclosure pf t"
  "spawn_cfg pf (t\<lparr>sh_spawner := sp\<rparr>) = spawn_cfg pf t"
  unfolding fun_eq_iff plan_caveats_def reported_kind_def shell_mechanism_def shell_report_def backend_projection_def
    admit_backend_def admit_strength_def admit_confinement_def admit_stage_def [abs_def] admit_script_def run_disclosure_def spawn_cfg_def
    select_spawner
  by simp_all

lemma select_env:
  "sh_spawner (t\<lparr>sh_env := env\<rparr>) = sh_spawner t"
  "sh_requires_admission (t\<lparr>sh_env := env\<rparr>) = sh_requires_admission t"
  "sh_lister (t\<lparr>sh_env := env\<rparr>) = sh_lister t"
  "sh_limits (t\<lparr>sh_env := env\<rparr>) = sh_limits t"
  "sh_sandbox (t\<lparr>sh_env := env\<rparr>) = sh_sandbox t"
  "sh_private_hosts (t\<lparr>sh_env := env\<rparr>) = sh_private_hosts t"
  by simp_all

lemma report_env:
  "plan_caveats pf (t\<lparr>sh_env := env\<rparr>) = plan_caveats pf t"
  "reported_kind pf (t\<lparr>sh_env := env\<rparr>) = reported_kind pf t"
  "shell_mechanism pf (t\<lparr>sh_env := env\<rparr>) = shell_mechanism pf t"
  "shell_report pf (t\<lparr>sh_env := env\<rparr>) = shell_report pf t"
  "backend_projection pf (t\<lparr>sh_env := env\<rparr>) = backend_projection pf t"
  "admit_backend pf (t\<lparr>sh_env := env\<rparr>) = admit_backend pf t"
  "admit_strength pf (t\<lparr>sh_env := env\<rparr>) = admit_strength pf t"
  "admit_confinement pf (t\<lparr>sh_env := env\<rparr>) = admit_confinement pf t"
  "admit_stage pf (t\<lparr>sh_env := env\<rparr>) = admit_stage pf t"
  "admit_script pf (t\<lparr>sh_env := env\<rparr>) = admit_script pf t"
  "run_disclosure pf (t\<lparr>sh_env := env\<rparr>) = run_disclosure pf t"
  "spawn_cfg pf (t\<lparr>sh_env := env\<rparr>) = spawn_cfg pf t"
  unfolding fun_eq_iff plan_caveats_def reported_kind_def shell_mechanism_def shell_report_def backend_projection_def
    admit_backend_def admit_strength_def admit_confinement_def admit_stage_def [abs_def] admit_script_def run_disclosure_def spawn_cfg_def
    select_env
  by simp_all

lemma lower_spawner: "lower_script pf (t\<lparr>sh_spawner := sp\<rparr>) = lower_script pf t"
proof -
  have same: "lower_arg pf (t\<lparr>sh_spawner := sp\<rparr>) = lower_arg pf t" "lower_redirect (t\<lparr>sh_spawner := sp\<rparr>) = lower_redirect t"
    unfolding fun_eq_iff lower_arg_def lower_pattern_def lower_redirect_def lower_target_def select_spawner by simp_all
  show ?thesis
    unfolding lower_script_def [abs_def] lower_item_def [abs_def] lower_stage_def [abs_def] lower_argv_def same ..
qed

lemma lower_env:
  assumes "same_on (lp_var_allowlist (sh_limits t)) (sh_env t) env"
  shows "lower_script pf (t\<lparr>sh_env := env\<rparr>) = lower_script pf t"
proof -
  have pattern: "lower_pattern (t\<lparr>sh_env := env\<rparr>) = lower_pattern t" and target: "lower_target (t\<lparr>sh_env := env\<rparr>) = lower_target t"
    by (auto simp: fun_eq_iff lower_pattern_def lower_target_def expand_varglob_same [OF assms]
        expand_redirect_target_same [OF assms] split: Arg.splits)
  have same: "lower_arg pf (t\<lparr>sh_env := env\<rparr>) = lower_arg pf t" "lower_redirect (t\<lparr>sh_env := env\<rparr>) = lower_redirect t"
    unfolding fun_eq_iff lower_arg_def lower_redirect_def pattern target select_env by simp_all
  show ?thesis
    unfolding lower_script_def [abs_def] lower_item_def [abs_def] lower_stage_def [abs_def] lower_argv_def same ..
qed

lemma plan_spawner: "shell_plan_of pf (t\<lparr>sh_spawner := sp\<rparr>) cx args = shell_plan_of pf t cx args"
  unfolding shell_plan_of_def admit_all_def lower_spawner report_spawner select_spawner ..

lemma plan_env_same:
  "same_on (lp_var_allowlist (sh_limits t)) (sh_env t) env \<Longrightarrow> shell_plan_of pf (t\<lparr>sh_env := env\<rparr>) cx args = shell_plan_of pf t cx args"
  unfolding shell_plan_of_def admit_all_def report_env select_env by (simp only: lower_env)

lemma envelope_spawner:
  "refused_envelope pf (t\<lparr>sh_spawner := sp\<rparr>) = refused_envelope pf t" "deny_envelope pf (t\<lparr>sh_spawner := sp\<rparr>) = deny_envelope pf t"
  "ran_envelope pf (t\<lparr>sh_spawner := sp\<rparr>) = ran_envelope pf t" "timeout_envelope pf (t\<lparr>sh_spawner := sp\<rparr>) = timeout_envelope pf t"
  unfolding fun_eq_iff refused_envelope_def deny_envelope_def refusal_envelope_def ran_envelope_def timeout_envelope_def report_spawner
  by simp_all

lemma envelope_env:
  "refused_envelope pf (t\<lparr>sh_env := env\<rparr>) = refused_envelope pf t" "deny_envelope pf (t\<lparr>sh_env := env\<rparr>) = deny_envelope pf t"
  "ran_envelope pf (t\<lparr>sh_env := env\<rparr>) = ran_envelope pf t" "timeout_envelope pf (t\<lparr>sh_env := env\<rparr>) = timeout_envelope pf t"
  unfolding fun_eq_iff refused_envelope_def deny_envelope_def refusal_envelope_def ran_envelope_def timeout_envelope_def report_env
  by simp_all

lemma run_items_cong:
  "(\<And>item w. item \<in> set items \<Longrightarrow> run (it_pipeline item) w = run' (it_pipeline item) w) \<Longrightarrow>
   run_items run acc items w = run_items run' acc items w"
  by (induction items arbitrary: acc w) (auto split: prod.splits option.splits sum.splits)

subsection \<open>Properties\<close>

text \<open>C9. Atomic admission: the spawner only ever sees calls that were admitted as a whole. Replacing the
  spawner by any other that agrees with it on admitted calls changes neither the answer nor the world, so
  no program, argument, redirect target, working directory, environment or confinement outside the grant
  ever reaches it. A call is admitted when every program of the pipeline is in the exec scope, every
  argument is literal or made of allowlisted variables, every redirect target is a literal path that
  passed the read or write check, the working directory passed the read check, no variable of the
  environment is on the denylist, the authority is the effective one, and, unless the process is
  unbridled, every restricted axis is enforceable at the demanded strength and the backend was admitted.
\<close>

theorem spawner_sees_only_admitted:
  assumes "\<And>pipeline cwd c env cfg w. call_admitted pf t cx pipeline cwd c env cfg \<Longrightarrow>
    sp pipeline cwd c env cfg w = sh_spawner t pipeline cwd c env cfg w"
  shows "invoke_accounted cc pf (t\<lparr>sh_spawner := sp\<rparr>) args cx elapsed w = invoke_accounted cc pf t args cx elapsed w"
proof (cases "shell_plan_of pf t cx args")
  case (Inr plan)
  have "run_script sp (plan_script plan) (plan_cwd plan) (effective cx) (plan_env plan) (plan_cfg plan) w =
      run_script (sh_spawner t) (plan_script plan) (plan_cwd plan) (effective cx) (plan_env plan) (plan_cfg plan) w"
    unfolding run_script_def using assms plan_admitted [OF Inr] by (simp cong: run_items_cong)
  then show ?thesis unfolding invoke_accounted_def plan_spawner envelope_spawner using Inr by simp
qed (simp add: invoke_accounted_def plan_spawner envelope_spawner split: shell_refusal.splits shell_stop.splits)

text \<open>The answer and the effects of an invocation depend on the process environment only through the
  allowlisted variables: no other variable can leak into an argument, a redirect target, a glob, a denial
  or a decision before the spawn.
\<close>

theorem only_allowlisted_variables_matter:
  assumes "same_on (lp_var_allowlist (sh_limits t)) (sh_env t) env"
  shows "invoke_accounted cc pf (t\<lparr>sh_env := env\<rparr>) args cx elapsed w = invoke_accounted cc pf t args cx elapsed w"
  unfolding invoke_accounted_def plan_env_same [OF assms] envelope_env select_env ..

definition demo_run :: "nat spawner_run" where
  "demo_run pipeline cwd c env cfg w =
     (Suc w, Some (Inr \<lparr>cap_exit_code = 0, cap_stdout = ''a'', cap_stderr = [], cap_stdout_truncated = False,
        cap_stderr_truncated = False, cap_net_denials = [], cap_timed_out = False\<rparr>))"

definition demo_limits :: LimitsPolicy where
  "demo_limits = \<lparr>lp_max_timeout_secs = 300, lp_default_timeout_secs = 60, lp_max_output_bytes = 4, lp_var_allowlist = [''HOME''],
     lp_max_glob_depth = 2, lp_max_glob_matches = 2, lp_proxy_max_head = 4, lp_proxy_conn_timeout_secs = 30,
     lp_proxy_bind = [], lp_audit_sink = None, lp_env_denylist = [''LD_PRELOAD'']\<rparr>"

definition demo_tool :: "nat ShellTool" where
  "demo_tool = \<lparr>sh_spawner = demo_run, sh_requires_admission = False,
     sh_env = (\<lambda>n. if n = ''HOME'' then Some ''/home/u'' else None), sh_lister = (\<lambda>_. []),
     sh_limits = demo_limits, sh_sandbox = sandbox_default False, sh_private_hosts = []\<rparr>"

definition demo_platform :: "unit platform" where
  "demo_platform = \<lparr>pf_mesh = toy_mesh, pf_host = plain_host,
     pf_backend = (\<lambda>_. \<lparr>bk_kind = NoSandbox, bk_resolved_authority = (\<lambda>_ _. prj_resolved toy_projection),
       bk_runtime_closure = (\<lambda>_. prj_runtime_closure toy_projection), bk_command_prefix = (\<lambda>_. Inr []), bk_apply = (\<lambda>_. Inr ())\<rparr>),
     pf_marks = fresh_marks, pf_fs = \<lparr>os_canonicalize = Inr, os_exists = (\<lambda>_. True), os_plain_open = (\<lambda>_ _. Inr ()),
       os_beneath_open = (\<lambda>_ _ _. Inr ()), os_is_refusal = (\<lambda>_. False)\<rparr>\<rparr>"

definition demo_codec :: codec where
  "demo_codec = \<lparr>cc_into_json = (\<lambda>e. JArray (map JString (emitted_fields e))), cc_inspect = (\<lambda>_. None)\<rparr>"

definition ls_context :: ToolContext where
  "ls_context = mint (caveats_top\<lparr>cav_exec := ScopeOnly [''ls'']\<rparr>) NoSandbox FLOOR_DEFAULT"

definition cmd_args :: "string \<Rightarrow> json" where
  "cmd_args cmd = JObject [(''cmd'', JString cmd)]"

text \<open>A spawner that differs from the other one on every pipeline with a program outside the grant.\<close>

definition strict_run :: "nat spawner_run" where
  "strict_run pipeline cwd c env cfg w =
     (if list_all (\<lambda>stage. program_admitted ls_context (cmd_argv stage)) pipeline then demo_run pipeline cwd c env cfg w
      else (w, None))"

theorem spawner_sees_only_admitted_witness:
  "invoke_accounted demo_codec demo_platform (demo_tool\<lparr>sh_spawner := strict_run\<rparr>) (cmd_args ''ls $HOME | ls'') ls_context False 0 =
     (1, ShellAnswers (Inr (Ran (JArray [JString ''exit_code'', JString ''stdout'', JString ''stderr'', JString ''timed_out'',
        JString ''sandbox_kind'', JString ''enforcement''])))) \<and>
   invoke_accounted demo_codec demo_platform (demo_tool\<lparr>sh_spawner := strict_run\<rparr>) (cmd_args ''ls && rm x'') ls_context False 0 =
     (0, ShellAnswers (Inr (PreRunDenied (JArray [JString ''denied'', JString ''denials'', JString ''sandbox_kind'',
        JString ''enforcement'']))))"
proof -
  have same: "invoke_accounted demo_codec demo_platform (demo_tool\<lparr>sh_spawner := strict_run\<rparr>) args ls_context False 0 =
      invoke_accounted demo_codec demo_platform demo_tool args ls_context False 0" for args
    by (rule spawner_sees_only_admitted)
      (auto simp: call_admitted_def stage_admitted_def strict_run_def demo_tool_def list_all_iff)
  have "invoke_accounted demo_codec demo_platform demo_tool (cmd_args ''ls $HOME | ls'') ls_context False 0 =
     (1, ShellAnswers (Inr (Ran (JArray [JString ''exit_code'', JString ''stdout'', JString ''stderr'', JString ''timed_out'',
        JString ''sandbox_kind'', JString ''enforcement'']))))"
    and "invoke_accounted demo_codec demo_platform demo_tool (cmd_args ''ls && rm x'') ls_context False 0 =
     (0, ShellAnswers (Inr (PreRunDenied (JArray [JString ''denied'', JString ''denials'', JString ''sandbox_kind'',
        JString ''enforcement'']))))"
    by code_simp+
  then show ?thesis unfolding same by simp
qed

theorem only_allowlisted_variables_matter_witness:
  "invoke_accounted demo_codec demo_platform (demo_tool\<lparr>sh_env := (\<lambda>n. if n = ''HOME'' then Some ''/home/u'' else Some ''secret'')\<rparr>)
     (cmd_args ''ls $HOME $TOKEN'') ls_context False 0 =
   invoke_accounted demo_codec demo_platform demo_tool (cmd_args ''ls $HOME $TOKEN'') ls_context False 0"
proof -
  have "same_on (lp_var_allowlist (sh_limits demo_tool)) (sh_env demo_tool)
      (\<lambda>n. if n = ''HOME'' then Some ''/home/u'' else Some ''secret'')"
    by (simp add: same_on_def demo_tool_def demo_limits_def)
  then show ?thesis by (rule only_allowlisted_variables_matter)
qed

subsection \<open>Panics\<close>

definition is_panic :: "shell_stop \<Rightarrow> bool" where
  "is_panic s = (case s of StopPanic _ \<Rightarrow> True | _ \<Rightarrow> False)"

lemma is_panic_simps [simp]: "\<not> is_panic (StopDeny k p e)" "\<not> is_panic (StopErr e)" "is_panic (StopPanic m)"
  by (simp_all add: is_panic_def)

lemma map_stop_no_panic:
  "map_stop f xs = Inl s \<Longrightarrow> (\<And>x s. f x = Inl s \<Longrightarrow> \<not> is_panic s) \<Longrightarrow> \<not> is_panic s"
  by (auto dest: map_stop_Inl)

lemma lower_arg_no_panic: "lower_arg pf t cx cwd a = Inl s \<Longrightarrow> \<not> is_panic s"
  by (cases a) (auto simp: lower_arg_def lower_pattern_def split: sum.splits)

lemma lower_redirect_no_panic: "lower_redirect t r = Inl s \<Longrightarrow> \<not> is_panic s"
  by (cases r) (auto simp: lower_redirect_def lower_target_def map_sum_Inl split: sum.splits)

lemma lower_stage_no_panic:
  assumes "lower_stage pf t cx cwd stage = Inl s"
  shows "\<not> is_panic s"
proof (cases "lower_argv pf t cx cwd (cmd_argv stage)")
  case (Inl s')
  then obtain args where "map_stop (lower_arg pf t cx cwd) args = Inl s'"
    by (cases "cmd_argv stage") (auto simp: lower_argv_def split: sum.splits)
  then have "\<not> is_panic s'" by (rule map_stop_no_panic) (rule lower_arg_no_panic)
  with Inl assms show ?thesis by (simp add: lower_stage_def)
next
  case (Inr argv)
  then have "map_stop (lower_redirect t) (cmd_redirects stage) = Inl s"
    using assms by (auto simp: lower_stage_def seq_Inl)
  then show ?thesis by (rule map_stop_no_panic) (rule lower_redirect_no_panic)
qed

lemma lower_item_no_panic: "lower_item pf t cx cwd item = Inl s \<Longrightarrow> \<not> is_panic s"
  by (auto simp: lower_item_def map_sum_Inl dest!: map_stop_Inl lower_stage_no_panic)

lemma lower_script_no_panic: "lower_script pf t cx cwd script = Inl s \<Longrightarrow> \<not> is_panic s"
  by (auto simp: lower_script_def dest!: map_stop_Inl lower_item_no_panic)

lemma admit_seg_no_panic: "admit_seg allowlist sg = Inl s \<Longrightarrow> \<not> is_panic s"
  by (auto simp: admit_seg_def split: Seg.splits if_splits prod.splits)

lemma admit_arg_no_panic: "arg_lowered a \<Longrightarrow> admit_arg allowlist a = Inl s \<Longrightarrow> \<not> is_panic s"
  by (cases a) (auto simp: arg_lowered_def admit_arg_def dest!: check_each_Inl admit_seg_no_panic)

lemma admit_redirect_no_panic: "redirect_lowered r \<Longrightarrow> admit_redirect pf cx r = Inl s \<Longrightarrow> \<not> is_panic s"
  by (cases r) (auto simp: redirect_lowered_def admit_redirect_def admit_target_def admit_open_def split: option.splits sum.splits)

lemma program_admitted_lowered:
  "program_admitted cx argv \<Longrightarrow> list_all arg_lowered (tl argv) \<Longrightarrow> \<forall>a \<in> set argv. arg_lowered a"
  by (cases argv) (auto simp: program_admitted_def arg_lowered_def list_all_iff split: Arg.splits)

lemma admit_program_no_panic: "admit_program cx argv = Inl s \<Longrightarrow> \<not> is_panic s"
  by (auto simp: admit_program_def split: list.splits Arg.splits sum.splits)

lemma admit_stage_no_panic:
  assumes "stage_lowered stage" "admit_stage pf t cx stage = Inl s"
  shows "\<not> is_panic s"
proof (cases "admit_program cx (cmd_argv stage)")
  case (Inl s')
  then show ?thesis using assms(2) admit_program_no_panic by (auto simp: admit_stage_def)
next
  case (Inr u)
  then have args: "\<forall>a \<in> set (cmd_argv stage). arg_lowered a"
    using assms(1) program_admitted_lowered by (auto simp: admit_program_Inr stage_lowered_def)
  consider "check_each (admit_arg (lp_var_allowlist (sh_limits t))) (cmd_argv stage) = Inl s"
    | "check_each (admit_redirect pf cx) (cmd_redirects stage) = Inl s"
    using assms(2) Inr by (auto simp: admit_stage_def seq_Inl)
  then show ?thesis
  proof cases
    case 1
    then show ?thesis using args by (auto dest!: check_each_Inl dest: admit_arg_no_panic)
  next
    case 2
    then show ?thesis
      using assms(1) by (auto simp: stage_lowered_def list_all_iff dest!: check_each_Inl dest: admit_redirect_no_panic)
  qed
qed

lemma admit_script_no_panic:
  assumes "\<forall>item \<in> set script. \<forall>stage \<in> set (it_pipeline item). stage_lowered stage" "admit_script pf t cx script = Inl s"
  shows "\<not> is_panic s"
proof -
  obtain item where "item \<in> set script" "check_each (admit_stage pf t cx) (it_pipeline item) = Inl s"
    using check_each_Inl [OF assms(2) [unfolded admit_script_def]] by blast
  then show ?thesis using assms(1) by (auto dest!: check_each_Inl dest: admit_stage_no_panic)
qed

lemma admit_confinement_no_panic: "admit_confinement pf t cx = Inl s \<Longrightarrow> \<not> is_panic s"
  by (auto simp: admit_confinement_def admit_backend_def admit_strength_def Let_def
      split: if_splits sum.splits option.splits prod.splits)

lemma admit_all_no_panic:
  assumes "admit_all pf t cx a script0 = Inl s"
  shows "\<not> is_panic s"
proof (cases "lower_script pf t cx (sa_cwd a) script0")
  case (Inl s')
  then show ?thesis using assms lower_script_no_panic [OF Inl] by (simp add: admit_all_def)
next
  case (Inr script)
  then have "admit_script pf t cx script = Inl s \<or> admit_cwd pf cx (sa_cwd a) = Inl s \<or> admit_confinement pf t cx = Inl s \<or>
      run_disclosure pf t cx = Inl s"
    using assms by (auto simp: admit_all_def seq_Inl)
  moreover have "\<not> is_panic s" if "admit_cwd pf cx (sa_cwd a) = Inl s"
    using that by (auto simp: admit_cwd_def admit_open_def split: option.splits sum.splits)
  moreover have "\<not> is_panic s" if "run_disclosure pf t cx = Inl s"
    using that by (auto simp: run_disclosure_def split: sum.splits)
  ultimately show ?thesis
    using admit_script_no_panic [OF lower_script_lowered [OF Inr]] admit_confinement_no_panic by blast
qed

lemma clamp_None: "clamp lo hi x = None \<longleftrightarrow> hi < lo"
  by (simp add: clamp_def)

lemma parse_panics:
  "(\<exists>s. shell_args_parse limits args = Inl s \<and> is_panic s) \<longleftrightarrow> (\<exists>obj. args = JObject obj) \<and> lp_max_timeout_secs limits = 0"
proof (cases args)
  case (JObject obj)
  have zero: "lp_max_timeout_secs limits < 1 \<longleftrightarrow> lp_max_timeout_secs limits = 0" by (simp add: word_less_1)
  show ?thesis
  proof (cases "lp_max_timeout_secs limits = 0")
    case True
    then have "clamp 1 (lp_max_timeout_secs limits) x = None" for x using zero by (simp add: clamp_None)
    then show ?thesis using True JObject by (simp add: shell_args_parse_def Let_def)
  next
    case False
    then have "clamp 1 (lp_max_timeout_secs limits) x \<noteq> None" for x using zero by (simp add: clamp_None)
    then show ?thesis using False JObject by (auto simp: shell_args_parse_def Let_def split: option.splits if_splits)
  qed
qed (simp_all add: shell_args_parse_def)

text \<open>The tool has exactly one panic: a configured timeout ceiling of zero makes the clamp of the timeout
  assert on every invocation with an argument object. The assertions about lowered globs, lowered
  variable globs and lowered redirect targets are never reached, whatever the command, the environment,
  the file system and the grant.
\<close>

theorem shell_panics_exactly:
  "(\<exists>m. snd (invoke_accounted cc pf t args cx elapsed w) = ShellPanics m) \<longleftrightarrow>
   (\<exists>obj. args = JObject obj) \<and> lp_max_timeout_secs (sh_limits t) = 0"
proof -
  have "(\<exists>m. snd (invoke_accounted cc pf t args cx elapsed w) = ShellPanics m) \<longleftrightarrow>
      (\<exists>s. shell_plan_of pf t cx args = Inl (Stopped s) \<and> is_panic s)"
    by (auto simp: invoke_accounted_def is_panic_def split: sum.splits shell_refusal.splits shell_stop.splits prod.splits)
  also have "\<dots> \<longleftrightarrow> (\<exists>s. shell_args_parse (sh_limits t) args = Inl s \<and> is_panic s)"
    by (auto simp: shell_plan_of_def map_sum_Inl dest: admit_all_no_panic split: sum.splits)
  finally show ?thesis by (simp add: parse_panics)
qed

subsection \<open>The outcome of a script\<close>

text \<open>The and/or rules: an item after \<^verbatim>\<open>;\<close> always runs, one after \<^verbatim>\<open>&&\<close> runs on status zero, and one after
  \<^verbatim>\<open>||\<close> on any other status.\<close>

inductive follows :: "Sep \<Rightarrow> int \<Rightarrow> bool" where
  after_seq: "follows SepSeq status"
| after_success: "follows SepAnd 0"
| after_failure: "status \<noteq> 0 \<Longrightarrow> follows SepOr status"

inductive_simps follows_simps [simp]: "follows SepSeq status" "follows SepAnd status" "follows SepOr status"

lemma follows_iff: "follows sep status \<longleftrightarrow> runs_after sep status"
  by (cases sep) (auto simp: runs_after_def)

text \<open>Which pipelines a script runs, from the status of the last one that ran: a skipped one leaves the
  status alone, and one that timed out is the last.\<close>

inductive script_runs :: "(Pipeline \<Rightarrow> 'w \<Rightarrow> 'w \<times> Captured ToolResult option) \<Rightarrow> int \<Rightarrow> Script \<Rightarrow> 'w \<Rightarrow> Captured list \<Rightarrow> 'w \<Rightarrow> bool"
  for run where
  ended: "script_runs run status [] w [] w"
| skipped: "\<not> follows (it_sep item) status \<Longrightarrow> script_runs run status items w cs w' \<Longrightarrow>
    script_runs run status (item # items) w cs w'"
| expired: "follows (it_sep item) status \<Longrightarrow> run (it_pipeline item) w = (w', Some (Inr c)) \<Longrightarrow> cap_timed_out c \<Longrightarrow>
    script_runs run status (item # items) w [c] w'"
| continued: "follows (it_sep item) status \<Longrightarrow> run (it_pipeline item) w = (w', Some (Inr c)) \<Longrightarrow> \<not> cap_timed_out c \<Longrightarrow>
    script_runs run (cap_exit_code c) items w' cs w'' \<Longrightarrow> script_runs run status (item # items) w (c # cs) w''"

inductive_cases script_runs_NilE: "script_runs run status [] w cs w'"
inductive_cases script_runs_ConsE: "script_runs run status (item # items) w cs w'"

definition absorb_all :: "Captured list \<Rightarrow> script_run \<Rightarrow> script_run" where
  "absorb_all cs acc = fold absorb_captured cs acc"

lemma run_items_runs:
  "run_items run acc items w = (w', Some (Inr r)) \<Longrightarrow>
   \<exists>cs. script_runs run (sr_status acc) items w cs w' \<and> r = absorb_all cs acc"
proof (induction items arbitrary: acc w)
  case Nil
  then show ?case by (auto simp: absorb_all_def intro: script_runs.ended)
next
  case (Cons item items)
  show ?case
  proof (cases "runs_after (it_sep item) (sr_status acc)")
    case False
    then obtain cs where "script_runs run (sr_status acc) items w cs w'" "r = absorb_all cs acc"
      using Cons.prems Cons.IH [of acc w] by auto
    with False show ?thesis using script_runs.skipped [of item "sr_status acc" run items w cs w'] by (auto simp: follows_iff)
  next
    case True
    obtain w1 c where c: "run (it_pipeline item) w = (w1, Some (Inr c))"
      using True Cons.prems by (auto split: prod.splits option.splits sum.splits)
    show ?thesis
    proof (cases "cap_timed_out c")
      case expired: True
      then show ?thesis
        using True c Cons.prems script_runs.expired [of item "sr_status acc" run w w1 c items]
        by (intro exI [of _ "[c]"]) (simp add: absorb_all_def follows_iff)
    next
      case False
      then obtain cs where "script_runs run (cap_exit_code c) items w1 cs w'" "r = absorb_all cs (absorb_captured c acc)"
        using True c Cons.prems Cons.IH [of "absorb_captured c acc" w1] by (auto simp: absorb_captured_def)
      then show ?thesis
        using True c False script_runs.continued [of item "sr_status acc" run w w1 c items cs w']
        by (intro exI [of _ "c # cs"]) (simp add: absorb_all_def follows_iff)
    qed
  qed
qed

lemma absorb_all_fields:
  "sr_stdout (absorb_all cs acc) = sr_stdout acc @ concat (map cap_stdout cs) \<and>
   sr_stderr (absorb_all cs acc) = sr_stderr acc @ concat (map cap_stderr cs) \<and>
   sr_status (absorb_all cs acc) = (if cs = [] then sr_status acc else cap_exit_code (last cs)) \<and>
   sr_stdout_truncated (absorb_all cs acc) = (sr_stdout_truncated acc \<or> (\<exists>c \<in> set cs. cap_stdout_truncated c)) \<and>
   sr_stderr_truncated (absorb_all cs acc) = (sr_stderr_truncated acc \<or> (\<exists>c \<in> set cs. cap_stderr_truncated c)) \<and>
   sr_net_denials (absorb_all cs acc) = sr_net_denials acc @ concat (map cap_net_denials cs) \<and>
   sr_timed_out (absorb_all cs acc) = (if cs = [] then sr_timed_out acc else cap_timed_out (last cs))"
  by (induction cs arbitrary: acc) (auto simp: absorb_all_def absorb_captured_def)

lemma boundary_below: "boundary_below s n \<le> n \<and> is_char_boundary s (boundary_below s n) \<and>
   (\<forall>k. boundary_below s n < k \<and> k \<le> n \<longrightarrow> \<not> is_char_boundary s k)"
  by (induction n) (auto simp: is_char_boundary_def le_Suc_eq)

lemma cap_string_prefix: "prefix (cap_string s n) s \<and> length (cap_string s n) \<le> n"
proof -
  have "length (take (boundary_below s n) s) \<le> n" using boundary_below [of s n] by (simp add: min.coboundedI2)
  then show ?thesis by (auto simp: cap_string_def take_is_prefix)
qed

lemma cap_string_id: "length s \<le> n \<Longrightarrow> cap_string s n = s"
  by (simp add: cap_string_def)

text \<open>A captured stream against what the pipelines produced: a prefix within the cap, cut at a character
  boundary, and all of it unless the truncation flag says otherwise.\<close>

definition faithful_stream :: "nat \<Rightarrow> string \<Rightarrow> bool \<Rightarrow> string list \<Rightarrow> bool list \<Rightarrow> bool" where
  "faithful_stream cap kept flagged parts cuts \<longleftrightarrow>
     prefix kept (concat parts) \<and> length kept \<le> cap \<and> is_char_boundary (concat parts) (length kept) \<and>
     (flagged \<longleftrightarrow> True \<in> set cuts \<or> cap < length (concat parts)) \<and>
     (\<not> flagged \<longrightarrow> kept = concat parts)"

lemma cap_string_boundary: "is_char_boundary s (length (cap_string s n))"
proof (cases "n < length s")
  case True
  then have "length (take (boundary_below s n) s) = boundary_below s n" using boundary_below [of s n] by simp
  then show ?thesis using True boundary_below [of s n] by (simp add: cap_string_def)
qed (simp add: cap_string_def is_char_boundary_def)

lemma faithful_cap: "faithful_stream n (cap_string (concat parts) n) (True \<in> set cuts \<or> n < length (concat parts)) parts cuts"
  using cap_string_prefix cap_string_boundary cap_string_id by (auto simp: faithful_stream_def not_less)

text \<open>C30. What a script run to its end reports. Its pipelines ran in order: one after \<^verbatim>\<open>&&\<close> exactly when the
  last one that ran had status zero, one after \<^verbatim>\<open>||\<close> exactly when it had not, and none past one that timed out; the exit code is that of the last
  pipeline run (zero if none), the run timed out exactly if that one did, the denials are those of all
  pipelines in order, and each stream is a prefix of the concatenated output within the cap, cut at a
  character boundary, complete unless its truncation flag is set, which is set exactly when a pipeline's
  output was cut or the concatenation exceeds the cap.
\<close>

theorem script_outcome:
  assumes "run_script spawner script cwd c env cfg w = (w', Some (Inr cap))"
  shows "\<exists>cs. script_runs (\<lambda>pipeline. spawner pipeline cwd c env cfg) 0 script w cs w' \<and>
    cap_exit_code cap = (if cs = [] then 0 else cap_exit_code (last cs)) \<and>
    cap_timed_out cap = (cs \<noteq> [] \<and> cap_timed_out (last cs)) \<and>
    cap_net_denials cap = concat (map cap_net_denials cs) \<and>
    faithful_stream (sc_max_output cfg) (cap_stdout cap) (cap_stdout_truncated cap) (map cap_stdout cs) (map cap_stdout_truncated cs) \<and>
    faithful_stream (sc_max_output cfg) (cap_stderr cap) (cap_stderr_truncated cap) (map cap_stderr cs) (map cap_stderr_truncated cs)"
proof -
  obtain r where r: "run_items (\<lambda>pipeline. spawner pipeline cwd c env cfg) script_start script w = (w', Some (Inr r))"
      "cap = script_captured (sc_max_output cfg) r"
    using assms by (cases "run_items (\<lambda>pipeline. spawner pipeline cwd c env cfg) script_start script w")
      (auto simp: run_script_def map_sum_Inr)
  obtain cs where cs: "script_runs (\<lambda>pipeline. spawner pipeline cwd c env cfg) 0 script w cs w'" "r = absorb_all cs script_start"
    using run_items_runs [OF r(1)] by (auto simp: script_start_def)
  have truncated: "(True \<in> set (map cap_stdout_truncated cs)) = (\<exists>c \<in> set cs. cap_stdout_truncated c)"
      "(True \<in> set (map cap_stderr_truncated cs)) = (\<exists>c \<in> set cs. cap_stderr_truncated c)"
    by auto
  show ?thesis
    using cs(1) absorb_all_fields [of cs script_start] faithful_cap [of "sc_max_output cfg"]
    by (intro exI [of _ cs]) (auto simp: r(2) cs(2) script_captured_def script_start_def truncated [symmetric] simp del: set_map)
qed

definition demo_script :: Script where
  "demo_script = [\<lparr>it_sep = SepSeq, it_pipeline = []\<rparr>, \<lparr>it_sep = SepOr, it_pipeline = []\<rparr>, \<lparr>it_sep = SepAnd, it_pipeline = []\<rparr>,
     \<lparr>it_sep = SepAnd, it_pipeline = []\<rparr>]"

definition demo_cfg :: SpawnCfg where
  "demo_cfg = \<lparr>sc_max_output = 4, sc_audit_sink = None, sc_sandbox = sandbox_default False, sc_private_hosts = [],
     sc_unbridled = False, sc_timeout = 1\<rparr>"

theorem script_outcome_witness:
  "\<exists>cap cs. run_script demo_run demo_script None caveats_top [] demo_cfg 0 = (3, Some (Inr cap)) \<and>
     script_runs (\<lambda>pipeline. demo_run pipeline None caveats_top [] demo_cfg) 0 demo_script 0 cs 3 \<and>
     cap_stdout cap = ''aaa'' \<and> concat (map cap_stdout cs) = ''aaa''"
proof -
  have r: "run_script demo_run demo_script None caveats_top [] demo_cfg 0 =
   (3, Some (Inr \<lparr>cap_exit_code = 0, cap_stdout = ''aaa'', cap_stderr = [], cap_stdout_truncated = False,
        cap_stderr_truncated = False, cap_net_denials = [], cap_timed_out = False\<rparr>))"
    by code_simp
  from script_outcome [OF r] obtain cs where
    "script_runs (\<lambda>pipeline. demo_run pipeline None caveats_top [] demo_cfg) 0 demo_script 0 cs 3"
    "faithful_stream (sc_max_output demo_cfg) ''aaa'' False (map cap_stdout cs) (map cap_stdout_truncated cs)"
    by auto
  with r show ?thesis by (auto simp: faithful_stream_def)
qed

end
