(* ===== verification/Shell_Run.thy ===== *)
theory Shell_Run
  imports Shell_Tool
begin

text \<open>
  The process side of the shell tool (\<^verbatim>\<open>agent-bridle-tool-shell/src/shell_tool.rs\<close>): the pipeline
  runner with its redirects, supervision and capped readers, and the routing of the operating-system
  spawner through the sandbox. What the operating system does is a record of answers; what the code does
  to it is a log of effects. The Unix build is modelled.
\<close>

subsection \<open>Capped reading\<close>

text \<open>What the read end of a pipe delivers, one element per successful or failed read at most. A pipe whose write end
  stays open without another byte being written, because some process still holds it, blocks its reader.\<close>

datatype source_item = SData string | SInterrupted | SFailed | SHeld

type_synonym source = "source_item list"

datatype read_result = ReadOk string | ReadInterrupted | ReadFailed | ReadBlocks

fun source_read :: "nat \<Rightarrow> source \<Rightarrow> read_result \<times> source" where
  "source_read k [] = (ReadOk [], [])"
| "source_read k (SInterrupted # src) = (ReadInterrupted, src)"
| "source_read k (SFailed # src) = (ReadFailed, src)"
| "source_read k (SHeld # src) = (ReadBlocks, SHeld # src)"
| "source_read k (SData bs # src) =
     (if length bs \<le> k then (ReadOk bs, src) else (ReadOk (take k bs), SData (drop k bs) # src))"

definition source_size :: "source \<Rightarrow> nat" where
  "source_size src = sum_list (map (\<lambda>i. case i of SData bs \<Rightarrow> Suc (length bs) | _ \<Rightarrow> 1) src)"

lemma source_read_shrinks:
  "source_read k src = (r, src') \<Longrightarrow> 0 < k \<Longrightarrow> r \<notin> {ReadOk [], ReadBlocks} \<Longrightarrow> source_size src' < source_size src"
  by (induction k src rule: source_read.induct) (auto simp: source_size_def split: if_splits)

definition CHUNK :: nat where "CHUNK = 8 * 1024"

text \<open>The reader: \<open>None\<close> where a read never returns.\<close>

function read_fill :: "nat \<Rightarrow> string \<Rightarrow> source \<Rightarrow> (string \<times> source option) option" where
  "read_fill max_output buf src =
     (if max_output \<le> length buf then Some (buf, Some src)
      else (case source_read (min (max_output - length buf) CHUNK) src of
          (ReadOk bs, src') \<Rightarrow> if bs = [] then Some (buf, None) else read_fill max_output (buf @ bs) src'
        | (ReadInterrupted, src') \<Rightarrow> read_fill max_output buf src'
        | (ReadFailed, src') \<Rightarrow> Some (buf, None)
        | (ReadBlocks, src') \<Rightarrow> None))"
  by pat_completeness auto
termination
  by (relation "measure (\<lambda>(_, _, src). source_size src)")
    (auto simp: CHUNK_def dest: source_read_shrinks [OF sym])

function read_probe :: "source \<Rightarrow> bool option" where
  "read_probe src =
     (case source_read 1 src of
        (ReadOk bs, src') \<Rightarrow> Some (bs \<noteq> [])
      | (ReadInterrupted, src') \<Rightarrow> read_probe src'
      | (ReadFailed, src') \<Rightarrow> Some False
      | (ReadBlocks, src') \<Rightarrow> None)"
  by pat_completeness auto
termination
  by (relation "measure source_size") (auto dest: source_read_shrinks [OF sym])

declare read_fill.simps [simp del] read_probe.simps [simp del]

definition read_capped_observed :: "nat \<Rightarrow> source \<Rightarrow> (string \<times> bool) option" where
  "read_capped_observed max_output src =
     (case read_fill max_output [] src of
        None \<Rightarrow> None
      | Some (buf, None) \<Rightarrow> Some (buf, False)
      | Some (buf, Some rest) \<Rightarrow> map_option (Pair buf) (read_probe rest))"

definition capped_utf8 :: "string \<Rightarrow> nat \<Rightarrow> string" where
  "capped_utf8 bytes max_output = from_utf8_lossy (take (min (length bytes) max_output) bytes)"

text \<open>All bytes up to the end of the stream, the first failed read, or the point where the pipe is only held open; and
  whether it is the last of these.\<close>

fun delivered :: "source \<Rightarrow> string" where
  "delivered [] = []"
| "delivered (SInterrupted # src) = delivered src"
| "delivered (SFailed # src) = []"
| "delivered (SHeld # src) = []"
| "delivered (SData bs # src) = (if bs = [] then [] else bs @ delivered src)"

fun held_open :: "source \<Rightarrow> bool" where
  "held_open [] = False"
| "held_open (SInterrupted # src) = held_open src"
| "held_open (SFailed # src) = False"
| "held_open (SHeld # src) = True"
| "held_open (SData bs # src) = (bs \<noteq> [] \<and> held_open src)"

lemma source_read_delivered:
  "source_read k src = (r, src') \<Longrightarrow> 0 < k \<Longrightarrow>
   (case r of
      ReadOk bs \<Rightarrow> length bs \<le> k \<and> delivered src = bs @ (if bs = [] then [] else delivered src') \<and>
        held_open src = (bs \<noteq> [] \<and> held_open src')
    | ReadInterrupted \<Rightarrow> delivered src = delivered src' \<and> held_open src = held_open src'
    | ReadFailed \<Rightarrow> delivered src = [] \<and> \<not> held_open src
    | ReadBlocks \<Rightarrow> delivered src = [] \<and> held_open src)"
  by (induction k src rule: source_read.induct) (auto split: if_splits)

lemma read_fill_delivered:
  "length buf \<le> max_output \<Longrightarrow>
   (case read_fill max_output buf src of
      None \<Rightarrow> held_open src \<and> length (buf @ delivered src) < max_output
    | Some (out, None) \<Rightarrow> out = buf @ delivered src \<and> length out \<le> max_output \<and> \<not> held_open src
    | Some (out, Some src') \<Rightarrow> length out = max_output \<and> buf @ delivered src = out @ delivered src' \<and> held_open src = held_open src')"
proof (induction max_output buf src rule: read_fill.induct)
  case (1 max_output buf src)
  let ?k = "min (max_output - length buf) CHUNK"
  show ?case
  proof (cases "max_output \<le> length buf")
    case True
    then have "read_fill max_output buf src = Some (buf, Some src)" by (simp add: read_fill.simps)
    then show ?thesis using True "1.prems" by simp
  next
    case False
    obtain r src' where r: "source_read ?k src = (r, src')" by (cases "source_read ?k src")
    have "0 < ?k" using False by (simp add: CHUNK_def)
    note d = source_read_delivered [OF r this]
    show ?thesis
    proof (cases r)
      case (ReadOk bs)
      show ?thesis
      proof (cases "bs = []")
        case True
        then show ?thesis using "1.prems" False r ReadOk d by (simp add: read_fill.simps [of max_output buf src])
      next
        case bs: False
        have "read_fill max_output buf src = read_fill max_output (buf @ bs) src'"
          using False r ReadOk bs by (simp add: read_fill.simps [of max_output buf src])
        moreover have "length (buf @ bs) \<le> max_output" using d ReadOk False by auto
        ultimately show ?thesis
          using "1.IH"(1) [OF False r [symmetric] ReadOk bs] d ReadOk bs by (auto split: option.splits)
      qed
    next
      case ReadInterrupted
      have "read_fill max_output buf src = read_fill max_output buf src'"
        using False r ReadInterrupted by (simp add: read_fill.simps [of max_output buf src])
      then show ?thesis
        using "1.IH"(2) [OF False r [symmetric] ReadInterrupted] "1.prems" d ReadInterrupted by (auto split: option.splits)
    qed (use "1.prems" False r d in \<open>simp_all add: read_fill.simps [of max_output buf src]\<close>)
  qed
qed

lemma read_probe_delivered:
  "read_probe src = (if delivered src = [] \<and> held_open src then None else Some (delivered src \<noteq> []))"
proof (induction src rule: read_probe.induct)
  case (1 src)
  obtain r src' where r: "source_read 1 src = (r, src')" by (cases "source_read 1 src")
  from source_read_delivered [OF r] show ?case
    using 1 [OF r [symmetric]] r by (cases r) (auto simp: read_probe.simps [of src])
qed

text \<open>A reader of a pipe stalls when the pipe is held open and has not delivered more than the cap.\<close>

definition stalls :: "nat \<Rightarrow> source \<Rightarrow> bool" where
  "stalls max_output src \<longleftrightarrow> held_open src \<and> length (delivered src) \<le> max_output"

text \<open>C31. A captured stream is the first bytes of what the child produced, up to the cap, and is marked as
  truncated exactly when the child produced more, however the operating system split, interrupted or
  failed the reads. The reader waits for ever exactly when the pipe is held open with no more than the cap
  delivered.
\<close>

theorem read_capped_exact:
  "read_capped_observed max_output src =
     (if stalls max_output src then None else Some (take max_output (delivered src), max_output < length (delivered src)))"
  using read_fill_delivered [of "[]" max_output src]
  by (auto simp: read_capped_observed_def stalls_def read_probe_delivered split: option.splits prod.splits)

subsection \<open>The stages of a pipeline\<close>

datatype 'file stdio = IoNull | IoFile 'file | IoPipe nat | IoCapture

record 'file child_spec =
  cs_argv :: "string list"
  cs_cwd :: "string option"
  cs_env :: "(string \<times> string) list"
  cs_stdin :: "'file stdio"
  cs_stdout :: "'file stdio"
  cs_stderr :: "'file stdio"

text \<open>What the code does, in order; children are numbered by their stage.\<close>

datatype 'file effect =
    EApply Caveats
  | EProxy "string list"
  | EOpen bool string
  | ESpawn "'file child_spec"
  | EKill nat
  | EKillGroup nat
  | EReap nat

text \<open>What the operating system answers during one pipeline.\<close>

record 'file proc_os =
  po_var :: env_provider
  po_fs :: "'file os"
  po_path :: string
  po_clone :: "nat \<Rightarrow> io_error option"
  po_pipe :: "nat \<Rightarrow> io_error option"
  po_spawn :: "'file child_spec \<Rightarrow> io_error option"
  po_poll :: "nat \<Rightarrow> nat \<Rightarrow> io_error + int option option"
  po_expired :: "nat \<Rightarrow> bool"
  po_stdout :: source
  po_stderr :: "nat \<Rightarrow> source"

definition expand_arg :: "env_provider \<Rightarrow> Arg \<Rightarrow> string option" where
  "expand_arg var a =
     (case a of
        ArgLit s \<Rightarrow> Some s
      | ArgVar segs \<Rightarrow> Some (concat (map (seg_text var) segs))
      | ArgGlob _ \<Rightarrow> None
      | ArgVarGlob _ \<Rightarrow> None)"

text \<open>\<open>None\<close>: an \<^verbatim>\<open>unreachable!\<close>.\<close>

fun expand_args :: "env_provider \<Rightarrow> Arg list \<Rightarrow> string list option" where
  "expand_args var [] = Some []"
| "expand_args var (a # as) =
     (case expand_arg var a of
        None \<Rightarrow> None
      | Some s \<Rightarrow> (case expand_args var as of None \<Rightarrow> None | Some ss \<Rightarrow> Some (s # ss)))"

definition expand_stage_argv :: "env_provider \<Rightarrow> Command \<Rightarrow> string list option" where
  "expand_stage_argv var stage = expand_args var (cmd_argv stage)"

text \<open>\<^verbatim>\<open>env_clear\<close>, the fixed baseline, then the caller's variables.\<close>

definition child_env :: "string \<Rightarrow> (string \<times> string) list \<Rightarrow> (string \<times> string) list" where
  "child_env path env =
     foldl (\<lambda>m (k, v). bmap_insert k v m) (bmap_insert ''LC_ALL'' ''C'' (bmap_insert ''PATH'' path [])) env"

record pipe_run =
  pr_children :: nat
  pr_prev :: "nat option"
  pr_capture :: "nat option"
  pr_errs :: "nat list"

definition kill_all :: "nat \<Rightarrow> 'file effect list" where
  "kill_all n = concat (map (\<lambda>i. [EKill i, EReap i]) [0..<n])"

definition stage_stdin :: "'file proc_os \<Rightarrow> string Scope \<Rightarrow> Command \<Rightarrow> pipe_run \<Rightarrow> 'file effect list \<times> 'file stdio ToolResult" where
  "stage_stdin po fs_read stage st =
     (case stdin_path stage of
        Some path \<Rightarrow>
          (case open_scoped_read (po_fs po) fs_read path of
             Inl e \<Rightarrow> ([], Inl e)
           | Inr f \<Rightarrow> ([EOpen False path], Inr (IoFile f)))
      | None \<Rightarrow> ([], Inr (case pr_prev st of Some k \<Rightarrow> IoPipe k | None \<Rightarrow> IoNull)))"

definition stage_stdout :: "'file proc_os \<Rightarrow> string Scope \<Rightarrow> nat \<Rightarrow> Command \<Rightarrow> 'file effect list \<times> 'file stdio ToolResult" where
  "stage_stdout po fs_write i stage =
     (case stdout_redirect stage of
        Some (path, app) \<Rightarrow>
          (case open_scoped_write (po_fs po) fs_write path app of
             Inl e \<Rightarrow> ([], Inl e)
           | Inr f \<Rightarrow> ([EOpen True path], case po_clone po i of Some io \<Rightarrow> Inl (Exec io) | None \<Rightarrow> Inr (IoFile f)))
      | None \<Rightarrow>
          ([], case po_pipe po i of
             Some io \<Rightarrow> Inl (Exec io)
           | None \<Rightarrow> (case po_clone po i of Some io \<Rightarrow> Inl (Exec io) | None \<Rightarrow> Inr (IoPipe i))))"

definition stage_stderr :: "'file proc_os \<Rightarrow> string Scope \<Rightarrow> Command \<Rightarrow> 'file stdio \<Rightarrow> 'file effect list \<times> 'file stdio ToolResult" where
  "stage_stderr po fs_write stage out =
     (case stderr_disposition stage of
        StderrStdout \<Rightarrow> ([], Inr out)
      | StderrFile path app \<Rightarrow>
          (case open_scoped_write (po_fs po) fs_write path app of
             Inl e \<Rightarrow> ([], Inl e)
           | Inr f \<Rightarrow> ([EOpen True path], Inr (IoFile f)))
      | StderrCapture \<Rightarrow> ([], Inr IoCapture))"

text \<open>The effects of setting up and spawning one stage, and the state it leaves or the error it ends with.\<close>

definition spawn_stage ::
  "'file proc_os \<Rightarrow> string list \<Rightarrow> string option \<Rightarrow> (string \<times> string) list \<Rightarrow> string Scope \<Rightarrow> string Scope \<Rightarrow> bool \<Rightarrow> nat \<Rightarrow>
   Command \<Rightarrow> pipe_run \<Rightarrow> 'file effect list \<times> pipe_run ToolResult option" where
  "spawn_stage po wrap cwd env fs_read fs_write is_last i stage st =
     (case expand_stage_argv (po_var po) stage of
        None \<Rightarrow> ([], None)
      | Some stage_argv \<Rightarrow>
          if wrap @ stage_argv = [] then ([], None)
          else (case stage_stdin po fs_read stage st of
              (l0, Inl e) \<Rightarrow> (l0 @ kill_all (pr_children st), Some (Inl e))
            | (l0, Inr inp) \<Rightarrow>
                (case stage_stdout po fs_write i stage of
                   (l1, Inl e) \<Rightarrow> (l0 @ l1 @ kill_all (pr_children st), Some (Inl e))
                 | (l1, Inr out) \<Rightarrow>
                     (case stage_stderr po fs_write stage out of
                        (l2, Inl e) \<Rightarrow> (l0 @ l1 @ l2 @ kill_all (pr_children st), Some (Inl e))
                      | (l2, Inr err) \<Rightarrow>
                          let spec = \<lparr>cs_argv = wrap @ stage_argv, cs_cwd = cwd, cs_env = child_env (po_path po) env,
                                cs_stdin = inp, cs_stdout = out, cs_stderr = err\<rparr>
                          in (case po_spawn po spec of
                              Some io \<Rightarrow> (l0 @ l1 @ l2 @ kill_all (pr_children st), Some (Inl (Exec io)))
                            | None \<Rightarrow>
                                (l0 @ l1 @ l2 @ [ESpawn spec],
                                 Some (Inr \<lparr>pr_children = Suc (pr_children st),
                                   pr_prev = (if \<not> is_last \<and> stdout_redirect stage = None then Some i else None),
                                   pr_capture = (if is_last \<and> stdout_redirect stage = None then Some i else pr_capture st),
                                   pr_errs = pr_errs st @ (if stderr_disposition stage = StderrCapture then [i] else [])\<rparr>)))))))"

fun spawn_stages ::
  "'file proc_os \<Rightarrow> string list \<Rightarrow> string option \<Rightarrow> (string \<times> string) list \<Rightarrow> string Scope \<Rightarrow> string Scope \<Rightarrow> nat \<Rightarrow>
   Command list \<Rightarrow> pipe_run \<Rightarrow> 'file effect list \<times> pipe_run ToolResult option" where
  "spawn_stages po wrap cwd env fs_read fs_write i [] st = ([], Some (Inr st))"
| "spawn_stages po wrap cwd env fs_read fs_write i (stage # stages) st =
     (case spawn_stage po wrap cwd env fs_read fs_write (stages = []) i stage st of
        (l, Some (Inr st')) \<Rightarrow> apfst ((@) l) (spawn_stages po wrap cwd env fs_read fs_write (Suc i) stages st')
      | (l, other) \<Rightarrow> (l, other))"

subsection \<open>Supervision\<close>

datatype 'a ending = Panicked | NeverEnds | Ended 'a

text \<open>One round of \<^verbatim>\<open>try_wait\<close> over the children from number \<open>i\<close> on: who is done, the exit code, and whether all are.\<close>

fun poll_children :: "(nat \<Rightarrow> io_error + int option option) \<Rightarrow> nat \<Rightarrow> nat \<Rightarrow> bool list \<Rightarrow> int \<Rightarrow> io_error + (bool list \<times> int \<times> bool)" where
  "poll_children poll last_stage i [] code = Inr ([], code, True)"
| "poll_children poll last_stage i (d # ds) code =
     (if d then map_sum id (\<lambda>(ds', code', all_done). (True # ds', code', all_done)) (poll_children poll last_stage (Suc i) ds code)
      else (case poll i of
          Inl e \<Rightarrow> Inl e
        | Inr None \<Rightarrow>
            map_sum id (\<lambda>(ds', code', _). (False # ds', code', False)) (poll_children poll last_stage (Suc i) ds code)
        | Inr (Some status) \<Rightarrow>
            map_sum id (\<lambda>(ds', code', all_done). (True # ds', code', all_done))
              (poll_children poll last_stage (Suc i) ds
                (if i = last_stage then (case status of Some c \<Rightarrow> c | None \<Rightarrow> -1) else code))))"

partial_function (option) supervise ::
  "(nat \<Rightarrow> nat \<Rightarrow> io_error + int option option) \<Rightarrow> (nat \<Rightarrow> bool) \<Rightarrow> nat \<Rightarrow> nat \<Rightarrow> bool list \<Rightarrow> int \<Rightarrow> (io_error + int \<times> bool) option" where
  "supervise poll expired last_stage round ds code =
     (case poll_children (poll round) last_stage 0 ds code of
        Inl e \<Rightarrow> Some (Inl e)
      | Inr (ds', code', all_done) \<Rightarrow>
          if all_done then Some (Inr (code', False))
          else if expired round then Some (Inr (code', True))
          else supervise poll expired last_stage (Suc round) ds' code')"

declare supervise.simps [code]

text \<open>The joins of the reader threads, in order, with no deadline: \<open>None\<close> where one of them never returns.\<close>

fun join_readers :: "nat \<Rightarrow> source list \<Rightarrow> (string \<times> bool) list option" where
  "join_readers max_output [] = Some []"
| "join_readers max_output (src # srcs) =
     (case read_capped_observed max_output src of
        None \<Rightarrow> None
      | Some r \<Rightarrow> map_option ((#) r) (join_readers max_output srcs))"

definition collect_stderr :: "nat \<Rightarrow> (nat \<Rightarrow> source) \<Rightarrow> nat list \<Rightarrow> (string \<times> bool) option" where
  "collect_stderr max_output srcs errs =
     map_option (\<lambda>reads. let bytes = concat (map fst reads) in (bytes, True \<in> set (map snd reads) \<or> max_output < length bytes))
       (join_readers max_output (map srcs errs))"

definition pipeline_captured :: "nat \<Rightarrow> 'file proc_os \<Rightarrow> pipe_run \<Rightarrow> int \<Rightarrow> bool \<Rightarrow> Captured option" where
  "pipeline_captured max_output po st code timed =
     (case (if pr_capture st = None then Some ([], False) else read_capped_observed max_output (po_stdout po)) of
        None \<Rightarrow> None
      | Some (out, out_cut) \<Rightarrow>
          map_option (\<lambda>(err, err_cut).
            \<lparr>cap_exit_code = code, cap_stdout = capped_utf8 out max_output, cap_stderr = capped_utf8 err max_output,
             cap_stdout_truncated = out_cut, cap_stderr_truncated = err_cut, cap_net_denials = [], cap_timed_out = timed\<rparr>)
          (collect_stderr max_output (po_stderr po) (pr_errs st)))"

definition run_pipeline ::
  "'file proc_os \<Rightarrow> Pipeline \<Rightarrow> string option \<Rightarrow> string list \<Rightarrow> (string \<times> string) list \<Rightarrow> nat \<Rightarrow> string Scope \<Rightarrow> string Scope \<Rightarrow>
   'file effect list \<times> Captured ToolResult ending" where
  "run_pipeline po stages cwd wrap env max_output fs_read fs_write =
     (if stages = [] then ([], Panicked)
      else (case spawn_stages po wrap cwd env fs_read fs_write 0 stages
              \<lparr>pr_children = 0, pr_prev = None, pr_capture = None, pr_errs = []\<rparr> of
          (l, None) \<Rightarrow> (l, Panicked)
        | (l, Some (Inl e)) \<Rightarrow> (l, Ended (Inl e))
        | (l, Some (Inr st)) \<Rightarrow>
            (case supervise (po_poll po) (po_expired po) (length stages - 1) 0 (replicate (pr_children st) False) (-1) of
               None \<Rightarrow> (l, NeverEnds)
             | Some (Inl io) \<Rightarrow> (l, Ended (Inl (Exec io)))
             | Some (Inr (code, timed)) \<Rightarrow>
                 (l @ (if timed then map EKillGroup [0..<pr_children st] @ map EReap [0..<pr_children st] else []),
                  case pipeline_captured max_output po st code timed of
                    None \<Rightarrow> NeverEnds
                  | Some cap \<Rightarrow> Ended (Inr cap)))))"

subsection \<open>Routing\<close>

text \<open>The operating system as the spawner sees it: the worker thread may fail to start, the egress proxy
  may fail to bind, and when it is finalized it reports the hosts it refused or an error.\<close>

record 'file spawner_os =
  so_proc :: "'file proc_os"
  so_thread :: "io_error option"
  so_proxy_start :: "string list \<Rightarrow> string list \<Rightarrow> io_error + (string \<times> string) list"
  so_proxy_final :: "string + string list"

definition net_denial :: "string \<Rightarrow> Denial" where
  "net_denial host = \<lparr>dn_kind = DenyNet, dn_target = host, dn_reason = Fmt (''net does not permit '' @ [CHR 0x27] @ ''{host}'' @ [CHR 0x27]) [host]\<rparr>"

definition confined_thread ::
  "'file spawner_os \<Rightarrow> backend \<Rightarrow> Pipeline \<Rightarrow> string option \<Rightarrow> string list \<Rightarrow> Caveats \<Rightarrow> (string \<times> string) list \<Rightarrow> nat \<Rightarrow>
   'file effect list \<times> Captured ToolResult ending" where
  "confined_thread so bk stages cwd wrap c env max_output =
     (case so_thread so of
        Some io \<Rightarrow> ([], Ended (Inl (Exec io)))
      | None \<Rightarrow>
          (case bk_apply bk c of
             Inl e \<Rightarrow> ([], Ended (Inl e))
           | Inr _ \<Rightarrow>
               (case run_pipeline (so_proc so) stages cwd wrap env max_output (cav_fs_read c) (cav_fs_write c) of
                  (l, Panicked) \<Rightarrow> (EApply c # l, Ended (Inl (Exec (Io OtherKind ''confined execution thread panicked''))))
                | (l, r) \<Rightarrow> (EApply c # l, r))))"

definition run_confined ::
  "'file spawner_os \<Rightarrow> backend \<Rightarrow> Pipeline \<Rightarrow> string option \<Rightarrow> Caveats \<Rightarrow> (string \<times> string) list \<Rightarrow> SpawnCfg \<Rightarrow>
   'file effect list \<times> Captured ToolResult ending" where
  "run_confined so bk stages cwd c env cfg =
     (case bk_command_prefix bk c of
        Inl e \<Rightarrow> ([], Ended (Inl e))
      | Inr wrap \<Rightarrow> confined_thread so bk stages cwd wrap c env (sc_max_output cfg))"

definition finish_proxied :: "string + string list \<Rightarrow> Captured ToolResult ending \<Rightarrow> Captured ToolResult ending" where
  "finish_proxied final r =
     (case r of
        Ended (Inr cap) \<Rightarrow>
          (case final of
             Inl e \<Rightarrow> Ended (Inl (Exec (Io OtherKind ''egress proxy finalization failed: {e}'')))
           | Inr hosts \<Rightarrow> Ended (Inr (cap\<lparr>cap_net_denials := map net_denial hosts\<rparr>)))
      | other \<Rightarrow> other)"

definition run_with_egress_proxy ::
  "'file spawner_os \<Rightarrow> backend \<Rightarrow> Pipeline \<Rightarrow> string option \<Rightarrow> Caveats \<Rightarrow> (string \<times> string) list \<Rightarrow> string list \<Rightarrow> SpawnCfg \<Rightarrow>
   'file effect list \<times> Captured ToolResult ending" where
  "run_with_egress_proxy so bk stages cwd fenced env allow_hosts cfg =
     (case bk_command_prefix bk fenced of
        Inl e \<Rightarrow> ([], Ended (Inl e))
      | Inr wrap \<Rightarrow>
          (case so_proxy_start so allow_hosts (sc_private_hosts cfg) of
             Inl io \<Rightarrow> ([], Ended (Inl (Exec io)))
           | Inr proxy_env \<Rightarrow>
               (case confined_thread so bk stages cwd wrap fenced (foldl (\<lambda>m (k, v). bmap_insert k v m) env proxy_env)
                       (sc_max_output cfg) of
                  (l, r) \<Rightarrow> (EProxy allow_hosts # l, finish_proxied (so_proxy_final so) r))))"

definition os_spawn ::
  "'file platform \<Rightarrow> 'file spawner_os \<Rightarrow> Pipeline \<Rightarrow> string option \<Rightarrow> Caveats \<Rightarrow> (string \<times> string) list \<Rightarrow> SpawnCfg \<Rightarrow>
   'file effect list \<times> Captured ToolResult ending" where
  "os_spawn pf so stages cwd c env cfg =
     (let bk = pf_backend pf (sc_sandbox cfg) in
      if sc_unbridled cfg then run_pipeline (so_proc so) stages cwd [] env (sc_max_output cfg) ScopeAll ScopeAll
      else (case egress_proxy_plan_for (bk_kind bk) c of
          Some (allow_hosts, fenced) \<Rightarrow> run_with_egress_proxy so bk stages cwd fenced env allow_hosts cfg
        | None \<Rightarrow>
            if intended_sandbox_kind pf c (sc_sandbox cfg) = NoSandbox
            then run_pipeline (so_proc so) stages cwd [] env (sc_max_output cfg) (cav_fs_read c) (cav_fs_write c)
            else run_confined so bk stages cwd c env cfg))"

text \<open>The spawner as the tool calls it: the world is the log of effects so far, and the operating system's
  answers may depend on it. A worker that never ends gives no result.\<close>

definition os_spawner :: "'file platform \<Rightarrow> ('file effect list \<Rightarrow> 'file spawner_os) \<Rightarrow> 'file effect list spawner_run" where
  "os_spawner pf so stages cwd c env cfg w =
     (case os_spawn pf (so w) stages cwd c env cfg of
        (l, Ended r) \<Rightarrow> (w @ l, Some r)
      | (l, _) \<Rightarrow> (w @ l, None))"

subsection \<open>A supervised run returns\<close>

lemma supervise_returns:
  assumes "expired r" "round \<le> r"
  shows "\<exists>x. supervise poll expired last_stage round ds code = Some x"
  using assms(2)
proof (induction "r - round" arbitrary: round ds code)
  case 0
  then have "round = r" by simp
  then show ?case
    using assms(1) by (subst supervise.simps) (auto split: sum.splits prod.splits)
next
  case (Suc d)
  then have "d = r - Suc round" "Suc round \<le> r" by simp_all
  from Suc.hyps(1) [OF this] show ?case
    by (subst supervise.simps) (auto split: sum.splits prod.splits)
qed

lemma expand_args_lowered: "\<forall>a \<in> set as. arg_lowered a \<Longrightarrow> \<exists>ss. expand_args var as = Some ss \<and> length ss = length as"
proof (induction as)
  case (Cons a as)
  moreover obtain s where "expand_arg var a = Some s"
    using Cons.prems by (cases a) (auto simp: expand_arg_def arg_lowered_def)
  ultimately show ?case by auto
qed simp

definition stage_runnable :: "Command \<Rightarrow> bool" where
  "stage_runnable stage \<longleftrightarrow> cmd_argv stage \<noteq> [] \<and> (\<forall>a \<in> set (cmd_argv stage). arg_lowered a)"

lemma spawn_stage_no_panic:
  assumes "stage_runnable stage"
  shows "snd (spawn_stage po wrap cwd env fs_read fs_write is_last i stage st) \<noteq> None"
proof -
  obtain argv where "expand_stage_argv (po_var po) stage = Some argv" "argv \<noteq> []"
    using assms expand_args_lowered by (force simp: stage_runnable_def expand_stage_argv_def)
  then show ?thesis
    by (auto simp: spawn_stage_def Let_def split: prod.splits sum.splits option.splits)
qed

lemma spawn_stages_no_panic:
  "\<forall>stage \<in> set stages. stage_runnable stage \<Longrightarrow>
   snd (spawn_stages po wrap cwd env fs_read fs_write i stages st) \<noteq> None"
proof (induction stages arbitrary: i st)
  case (Cons stage stages)
  obtain l r where s: "spawn_stage po wrap cwd env fs_read fs_write (stages = []) i stage st = (l, r)"
    by (cases "spawn_stage po wrap cwd env fs_read fs_write (stages = []) i stage st")
  then show ?case
    using Cons spawn_stage_no_panic [of stage po wrap cwd env fs_read fs_write "stages = []" i st]
    by (auto split: option.splits sum.splits)
qed simp

subsection \<open>What is spawned and opened\<close>

lemma find_map_mem: "find_map f xs = Some y \<Longrightarrow> \<exists>x \<in> set xs. f x = Some y"
  by (induction xs) (auto split: option.splits)

definition target_of :: "bool \<Rightarrow> Redirect \<Rightarrow> string option" where
  "target_of wr r =
     (case r of
        RedStdout segs _ \<Rightarrow> if wr then seg_literal segs else None
      | RedStderr segs _ \<Rightarrow> if wr then seg_literal segs else None
      | RedStdin segs \<Rightarrow> if wr then None else seg_literal segs
      | RedStderrToStdout \<Rightarrow> None)"

definition names_target :: "Command \<Rightarrow> bool \<Rightarrow> string \<Rightarrow> bool" where
  "names_target stage wr path \<longleftrightarrow> (\<exists>r \<in> set (cmd_redirects stage). target_of wr r = Some path)"

lemma stage_targets:
  "stdin_path stage = Some path \<Longrightarrow> names_target stage False path"
  "stdout_redirect stage = Some (path, app) \<Longrightarrow> names_target stage True path"
  "stderr_disposition stage = StderrFile path app \<Longrightarrow> names_target stage True path"
proof -
  assume "stdin_path stage = Some path"
  then show "names_target stage False path"
    by (auto simp: stdin_path_def names_target_def target_of_def dest!: find_map_mem split: Redirect.splits)
next
  assume "stdout_redirect stage = Some (path, app)"
  then obtain r where "r \<in> set (cmd_redirects stage)" "target_of True r = Some path"
    by (auto simp: stdout_redirect_def target_of_def dest!: find_map_mem split: Redirect.splits)
  then show "names_target stage True path" by (auto simp: names_target_def)
next
  assume "stderr_disposition stage = StderrFile path app"
  then obtain r where "r \<in> set (cmd_redirects stage)" "target_of True r = Some path"
    by (auto simp: stderr_disposition_def target_of_def dest!: find_map_mem split: Redirect.splits option.splits)
  then show "names_target stage True path" by (auto simp: names_target_def)
qed

definition opens_named :: "Command \<Rightarrow> 'file effect list \<Rightarrow> bool" where
  "opens_named stage l \<longleftrightarrow> (\<forall>x \<in> set l. \<exists>wr path. x = EOpen wr path \<and> names_target stage wr path)"

lemma opens_named_Nil [simp]: "opens_named stage []"
  by (simp add: opens_named_def)

lemma opens_named_append [simp]: "opens_named stage (l @ l') \<longleftrightarrow> opens_named stage l \<and> opens_named stage l'"
  by (auto simp: opens_named_def)

lemma opens_named_io:
  "opens_named stage (fst (stage_stdin po fs_read stage st))"
  "opens_named stage (fst (stage_stdout po fs_write i stage))"
  "opens_named stage (fst (stage_stderr po fs_write stage out))"
proof -
  show "opens_named stage (fst (stage_stdin po fs_read stage st))"
    using stage_targets(1) by (auto simp: opens_named_def stage_stdin_def split: option.splits sum.splits)
  show "opens_named stage (fst (stage_stdout po fs_write i stage))"
    using stage_targets(2) by (auto simp: opens_named_def stage_stdout_def split: option.splits sum.splits)
  show "opens_named stage (fst (stage_stderr po fs_write stage out))"
    using stage_targets(3) by (auto simp: opens_named_def stage_stderr_def split: sum.splits StderrTo.splits)
qed

text \<open>The log of one stage: the opens of its own redirects, then either its spawn or the kill of the stages before it.\<close>

definition spec_of :: "'file proc_os \<Rightarrow> string list \<Rightarrow> string option \<Rightarrow> (string \<times> string) list \<Rightarrow> Command \<Rightarrow> 'file child_spec \<Rightarrow> bool" where
  "spec_of po wrap cwd env stage spec \<longleftrightarrow>
     (\<exists>argv. expand_stage_argv (po_var po) stage = Some argv \<and> cs_argv spec = wrap @ argv) \<and>
     cs_cwd spec = cwd \<and> cs_env spec = child_env (po_path po) env"

lemma spawn_stage_log:
  assumes "spawn_stage po wrap cwd env fs_read fs_write is_last i stage st = (l, r)"
  shows "\<exists>io. opens_named stage io \<and>
    (case r of
       None \<Rightarrow> l = []
     | Some (Inl e) \<Rightarrow> l = io @ kill_all (pr_children st)
     | Some (Inr st') \<Rightarrow> pr_children st' = Suc (pr_children st) \<and>
         (\<exists>spec. spec_of po wrap cwd env stage spec \<and> l = io @ [ESpawn spec]))"
proof (cases "expand_stage_argv (po_var po) stage")
  case None
  then show ?thesis using assms by (auto simp: spawn_stage_def intro: opens_named_Nil)
next
  case (Some argv)
  show ?thesis
  proof (cases "wrap @ argv = []")
    case True
    then show ?thesis using Some assms by (auto simp: spawn_stage_def intro: opens_named_Nil)
  next
    case ne: False
    obtain l0 a where 0: "stage_stdin po fs_read stage st = (l0, a)" by fastforce
    obtain l1 b where 1: "stage_stdout po fs_write i stage = (l1, b)" by fastforce
    have n0: "opens_named stage l0" and n1: "opens_named stage l1"
      using opens_named_io(1) [of stage po fs_read st] opens_named_io(2) [of stage po fs_write i] 0 1 by simp_all
    consider e where "a = Inl e" | inp e where "a = Inr inp" "b = Inl e" | inp out where "a = Inr inp" "b = Inr out"
      by (metis sum.exhaust)
    then show ?thesis
    proof cases
      case 1
      then show ?thesis using Some ne 0 n0 assms by (auto simp: spawn_stage_def)
    next
      case 2
      then show ?thesis
        using Some ne 0 1 n0 n1 assms by (intro exI [of _ "l0 @ l1"]) (auto simp: spawn_stage_def)
    next
      case 3
      obtain l2 c where 2: "stage_stderr po fs_write stage out = (l2, c)" by fastforce
      have n2: "opens_named stage l2" using opens_named_io(3) [of stage po fs_write out] 2 by simp
      show ?thesis
        using Some ne 0 1 2 3 n0 n1 n2 assms
        by (intro exI [of _ "l0 @ l1 @ l2"])
          (auto simp: spawn_stage_def Let_def spec_of_def split: sum.splits option.splits)
    qed
  qed
qed

lemma spawn_stages_log:
  assumes "spawn_stages po wrap cwd env fs_read fs_write i stages st = (l, r)"
  shows "(\<forall>spec. ESpawn spec \<in> set l \<longrightarrow> (\<exists>stage \<in> set stages. spec_of po wrap cwd env stage spec)) \<and>
    (\<forall>wr path. EOpen wr path \<in> set l \<longrightarrow> (\<exists>stage \<in> set stages. names_target stage wr path))"
  using assms
proof (induction stages arbitrary: i st l)
  case (Cons stage stages)
  obtain l1 r1 where s: "spawn_stage po wrap cwd env fs_read fs_write (stages = []) i stage st = (l1, r1)"
    by (cases "spawn_stage po wrap cwd env fs_read fs_write (stages = []) i stage st")
  obtain io where io: "opens_named stage io"
      "case r1 of None \<Rightarrow> l1 = [] | Some (Inl e) \<Rightarrow> l1 = io @ kill_all (pr_children st)
       | Some (Inr st') \<Rightarrow> pr_children st' = Suc (pr_children st) \<and>
           (\<exists>spec. spec_of po wrap cwd env stage spec \<and> l1 = io @ [ESpawn spec])"
    using spawn_stage_log [OF s] by blast
  then have first: "\<forall>spec. ESpawn spec \<in> set l1 \<longrightarrow> spec_of po wrap cwd env stage spec"
      "\<forall>wr path. EOpen wr path \<in> set l1 \<longrightarrow> names_target stage wr path"
    by (auto simp: opens_named_def kill_all_def split: option.splits sum.splits)
  show ?case
  proof (cases "\<exists>st'. r1 = Some (Inr st')")
    case True
    then obtain st' where st': "r1 = Some (Inr st')" by blast
    obtain l2 r2 where "spawn_stages po wrap cwd env fs_read fs_write (Suc i) stages st' = (l2, r2)" by fastforce
    then have "spawn_stages po wrap cwd env fs_read fs_write (Suc i) stages st' = (l2, r)" "l = l1 @ l2"
      using Cons.prems s st' by simp_all
    then show ?thesis using Cons.IH [of "Suc i" st' l2] first by auto
  next
    case False
    then have "l = l1" using Cons.prems s by (auto split: option.splits sum.splits)
    then show ?thesis using first by auto
  qed
qed simp

lemma run_pipeline_log:
  assumes "run_pipeline po stages cwd wrap env max_output fs_read fs_write = (l, r)"
  shows "(\<forall>spec. ESpawn spec \<in> set l \<longrightarrow> (\<exists>stage \<in> set stages. spec_of po wrap cwd env stage spec)) \<and>
    (\<forall>wr path. EOpen wr path \<in> set l \<longrightarrow> (\<exists>stage \<in> set stages. names_target stage wr path))"
proof (cases "stages = []")
  case False
  obtain l1 r1 where s: "spawn_stages po wrap cwd env fs_read fs_write 0 stages
      \<lparr>pr_children = 0, pr_prev = None, pr_capture = None, pr_errs = []\<rparr> = (l1, r1)" by fastforce
  have "\<exists>kills. l = l1 @ kills \<and> (\<forall>x \<in> set kills. \<exists>i. x = EKillGroup i \<or> x = EReap i)"
    using assms False s by (auto simp: run_pipeline_def split: option.splits sum.splits prod.splits if_splits)
  then show ?thesis using spawn_stages_log [OF s] by auto
qed (use assms in \<open>simp add: run_pipeline_def\<close>)

subsection \<open>From the tool to its children\<close>

definition item_runnable :: "ScriptItem \<Rightarrow> bool" where
  "item_runnable item \<longleftrightarrow> it_pipeline item \<noteq> [] \<and> (\<forall>stage \<in> set (it_pipeline item). cmd_argv stage \<noteq> [])"

lemma parsed_runnable:
  assumes "shell_args_script a = Inr script"
  shows "\<forall>item \<in> set script. item_runnable item"
proof (cases "sa_program a")
  case None
  then have "parse_from initial_parse (case sa_cmd a of None \<Rightarrow> [] | Some c \<Rightarrow> c) = Inr script"
    using assms by (simp add: shell_args_script_def classify_def)
  then have "script_wf script" by (rule parse_from_wf) (simp add: parse_wf_def initial_parse_def)
  then show ?thesis by (auto simp: script_wf_def item_wf_def command_wf_def item_runnable_def list_all_iff)
qed (use assms in \<open>auto simp: shell_args_script_def item_runnable_def\<close>)

lemma lower_stage_nonempty: "lower_stage pf t cx cwd stage = Inr stage' \<Longrightarrow> cmd_argv stage \<noteq> [] \<Longrightarrow> cmd_argv stage' \<noteq> []"
  by (auto simp: lower_stage_def lower_argv_def split: sum.splits list.splits)

lemma lower_item_runnable:
  assumes "lower_item pf t cx cwd item = Inr item'" "item_runnable item"
  shows "item_runnable item'"
proof -
  obtain p where p: "map_stop (lower_stage pf t cx cwd) (it_pipeline item) = Inr p" "it_pipeline item' = p"
    using assms(1) by (auto simp: lower_item_def map_sum_Inr)
  then have "list_all2 (\<lambda>s s'. lower_stage pf t cx cwd s = Inr s') (it_pipeline item) p" by (simp add: map_stop_Inr)
  then show ?thesis
    using assms(2) p(2) lower_stage_nonempty
    by (fastforce simp: item_runnable_def list_all2_conv_all_nth in_set_conv_nth)
qed

lemma plan_runnable:
  assumes "shell_plan_of pf t cx args = Inr plan" "item \<in> set (plan_script plan)"
  shows "item_runnable item"
proof -
  obtain a script0 script where s: "shell_args_script a = Inr script0" "lower_script pf t cx (sa_cwd a) script0 = Inr script"
      "plan_script plan = script"
    using assms(1) by (auto simp: shell_plan_of_def admit_all_def seq_Inr map_sum_Inr split: sum.splits)
  then obtain item0 where "item0 \<in> set script0" "lower_item pf t cx (sa_cwd a) item0 = Inr item"
    using map_stop_mem [of "lower_item pf t cx (sa_cwd a)" script0 script item] assms(2) by (auto simp: lower_script_def)
  then show ?thesis using parsed_runnable [OF s(1)] lower_item_runnable by blast
qed

lemma expand_program:
  assumes "program_admitted cx argv" "argv \<noteq> []" "expand_args var argv = Some ss"
  shows "\<exists>program rest. ss = program # rest \<and> exec_scope_allows (cav_exec (effective cx)) program"
  using assms
  by (cases argv; cases "hd argv") (auto simp: program_admitted_def expand_arg_def split: option.splits)

lemma env_insert_values: "kv \<in> set (foldl (\<lambda>m (k, v). bmap_insert k v m) m env) \<Longrightarrow> kv \<in> set m \<or> kv \<in> set env"
  by (induction env arbitrary: m) (auto dest!: bmap_insert_values)



lemma child_env_values: "kv \<in> set (child_env path env) \<Longrightarrow> kv \<in> {(''PATH'', path), (''LC_ALL'', ''C'')} \<union> set env"
  by (auto simp: child_env_def dest!: env_insert_values bmap_insert_values)

text \<open>The variables of the egress proxy of a run, where the run has one, are set over those of the caller.\<close>

definition proxy_variables :: "'file platform \<Rightarrow> 'file spawner_os \<Rightarrow> Caveats \<Rightarrow> SpawnCfg \<Rightarrow> (string \<times> string) list \<Rightarrow> bool" where
  "proxy_variables pf so c cfg pe \<longleftrightarrow>
     (case (if sc_unbridled cfg then None else egress_proxy_plan_for (bk_kind (pf_backend pf (sc_sandbox cfg))) c) of
        None \<Rightarrow> pe = []
      | Some (hosts, fenced) \<Rightarrow> so_proxy_start so hosts (sc_private_hosts cfg) = Inr pe)"

definition env_over :: "(string \<times> string) list \<Rightarrow> (string \<times> string) list \<Rightarrow> (string \<times> string) list" where
  "env_over env pe = foldl (\<lambda>m (k, v). bmap_insert k v m) env pe"

lemma proxy_variables_started:
  "proxy_variables pf so c cfg pe \<Longrightarrow> kv \<in> set pe \<Longrightarrow> \<exists>hosts approved. so_proxy_start so hosts approved = Inr pe"
  by (auto simp: proxy_variables_def split: option.splits if_splits)

lemma env_over_Nil [simp]: "env_over env [] = env"
  by (simp add: env_over_def)

definition route_ok :: "'file platform \<Rightarrow> Caveats \<Rightarrow> SpawnCfg \<Rightarrow> string list \<Rightarrow> bool" where
  "route_ok pf c cfg wrap \<longleftrightarrow>
     (let bk = pf_backend pf (sc_sandbox cfg);
          plan = egress_proxy_plan_for (bk_kind bk) c;
          fc = (case plan of Some (_, fenced) \<Rightarrow> fenced | None \<Rightarrow> c)
      in sc_unbridled cfg \<or> plan = None \<and> intended_sandbox_kind pf c (sc_sandbox cfg) = NoSandbox \<or>
         bk_command_prefix bk fc = Inr wrap \<and> bk_apply bk fc = Inr ())"

lemma confined_thread_log:
  assumes "confined_thread so bk stages cwd wrap c env max_output = (l, r)" "x \<in> set l" "x \<noteq> EApply c"
  shows "bk_apply bk c = Inr () \<and>
    (\<exists>l' r'. run_pipeline (so_proc so) stages cwd wrap env max_output (cav_fs_read c) (cav_fs_write c) = (l', r') \<and> x \<in> set l')"
  using assms
  by (cases "run_pipeline (so_proc so) stages cwd wrap env max_output (cav_fs_read c) (cav_fs_write c)")
    (auto simp: confined_thread_def split: option.splits sum.splits prod.splits ending.splits)

lemma os_spawn_log:
  assumes "os_spawn pf so stages cwd c env cfg = (l, r)" "x \<in> set l" "\<forall>fc. x \<noteq> EApply fc" "\<forall>hosts. x \<noteq> EProxy hosts"
  shows "\<exists>wrap pe max_output fs_read fs_write l' r'. route_ok pf c cfg wrap \<and> proxy_variables pf so c cfg pe \<and>
    run_pipeline (so_proc so) stages cwd wrap (env_over env pe) max_output fs_read fs_write = (l', r') \<and> x \<in> set l'"
proof -
  let ?bk = "pf_backend pf (sc_sandbox cfg)"
  consider (plain) fs_read fs_write where "sc_unbridled cfg \<or> egress_proxy_plan_for (bk_kind ?bk) c = None \<and>
        intended_sandbox_kind pf c (sc_sandbox cfg) = NoSandbox"
      "os_spawn pf so stages cwd c env cfg = run_pipeline (so_proc so) stages cwd [] env (sc_max_output cfg) fs_read fs_write"
    | (proxied) hosts fenced where "\<not> sc_unbridled cfg" "egress_proxy_plan_for (bk_kind ?bk) c = Some (hosts, fenced)"
      "os_spawn pf so stages cwd c env cfg = run_with_egress_proxy so ?bk stages cwd fenced env hosts cfg"
    | (confined) "\<not> sc_unbridled cfg" "egress_proxy_plan_for (bk_kind ?bk) c = None"
      "os_spawn pf so stages cwd c env cfg = run_confined so ?bk stages cwd c env cfg"
    by (cases "sc_unbridled cfg"; cases "egress_proxy_plan_for (bk_kind ?bk) c";
        cases "intended_sandbox_kind pf c (sc_sandbox cfg) = NoSandbox") (auto simp: os_spawn_def Let_def)
  then show ?thesis
  proof cases
    case plain
    then have "run_pipeline (so_proc so) stages cwd [] env (sc_max_output cfg) fs_read fs_write = (l, r)"
      using assms(1) by simp
    moreover have "proxy_variables pf so c cfg []" using plain(1) by (auto simp: proxy_variables_def)
    moreover have "route_ok pf c cfg []" using plain(1) by (auto simp: route_ok_def Let_def)
    ultimately show ?thesis using assms(2) env_over_Nil by metis
  next
    case confined
    obtain wrap where wrap: "bk_command_prefix ?bk c = Inr wrap"
        "confined_thread so ?bk stages cwd wrap c env (sc_max_output cfg) = (l, r)"
      using confined(3) assms(1,2) by (auto simp: run_confined_def split: sum.splits)
    have "proxy_variables pf so c cfg []" using confined(1,2) by (simp add: proxy_variables_def)
    moreover have "route_ok pf c cfg wrap" using confined_thread_log [OF wrap(2) assms(2)] confined(2) wrap(1) assms(3)
      by (simp add: route_ok_def Let_def)
    ultimately show ?thesis using confined_thread_log [OF wrap(2) assms(2)] assms(3) env_over_Nil by metis
  next
    case proxied
    obtain wrap pe where w: "bk_command_prefix ?bk fenced = Inr wrap" "so_proxy_start so hosts (sc_private_hosts cfg) = Inr pe"
      using proxied(3) assms(1,2) by (auto simp: run_with_egress_proxy_def split: sum.splits)
    obtain l' r' where t: "confined_thread so ?bk stages cwd wrap fenced (env_over env pe) (sc_max_output cfg) = (l', r')" by fastforce
    then have x: "x \<in> set l'" using proxied(3) assms w by (auto simp: run_with_egress_proxy_def env_over_def)
    have "proxy_variables pf so c cfg pe" using w(2) proxied(1,2) by (simp add: proxy_variables_def)
    moreover have "route_ok pf c cfg wrap" using confined_thread_log [OF t x] proxied(2) w(1) assms(3) by (simp add: route_ok_def Let_def)
    ultimately show ?thesis using confined_thread_log [OF t x] assms(3) by metis
  qed
qed

text \<open>What the grant lets a child be: its program, its directory, its variables and its confinement.\<close>

definition child_granted ::
  "'file platform \<Rightarrow> 'w ShellTool \<Rightarrow> ToolContext \<Rightarrow> ('file effect list \<Rightarrow> 'file spawner_os) \<Rightarrow> 'file child_spec \<Rightarrow> bool" where
  "child_granted pf t cx so spec \<longleftrightarrow>
     (\<exists>wrap program args. cs_argv spec = wrap @ program # args \<and>
        exec_scope_allows (cav_exec (effective cx)) program \<and>
        (reported_kind pf t (effective cx) \<noteq> NoSandbox \<longrightarrow>
           bk_command_prefix (pf_backend pf (sh_sandbox t)) (plan_caveats pf t (effective cx)) = Inr wrap \<and>
           bk_apply (pf_backend pf (sh_sandbox t)) (plan_caveats pf t (effective cx)) = Inr ())) \<and>
     (\<forall>dir. cs_cwd spec = Some dir \<longrightarrow> check_path_read (pf_fs pf) cx dir = Inr ()) \<and>
     (\<forall>(k, v) \<in> set (cs_env spec).
        k \<in> {''PATH'', ''LC_ALL''} \<or> k \<notin> set (lp_env_denylist (sh_limits t)) \<or>
        (\<exists>w hosts approved pe. so_proxy_start (so w) hosts approved = Inr pe \<and> (k, v) \<in> set pe))"

definition open_granted :: "'file platform \<Rightarrow> ToolContext \<Rightarrow> bool \<Rightarrow> string \<Rightarrow> bool" where
  "open_granted pf cx wr path \<longleftrightarrow>
     (if wr then check_path_write (pf_fs pf) cx path = Inr () else check_path_read (pf_fs pf) cx path = Inr ())"

definition log_granted ::
  "'file platform \<Rightarrow> 'w ShellTool \<Rightarrow> ToolContext \<Rightarrow> ('file effect list \<Rightarrow> 'file spawner_os) \<Rightarrow> 'file effect list \<Rightarrow> bool" where
  "log_granted pf t cx so log \<longleftrightarrow>
     (\<forall>spec. ESpawn spec \<in> set log \<longrightarrow> child_granted pf t cx so spec) \<and>
     (\<forall>wr path. EOpen wr path \<in> set log \<longrightarrow> open_granted pf cx wr path)"

lemma route_reported:
  assumes "route_ok pf (effective cx) cfg wrap" "sc_unbridled cfg = is_unbridled (pf_marks pf)" "sc_sandbox cfg = sh_sandbox t"
    and "reported_kind pf t (effective cx) \<noteq> NoSandbox"
  shows "bk_command_prefix (pf_backend pf (sh_sandbox t)) (plan_caveats pf t (effective cx)) = Inr wrap \<and>
    bk_apply (pf_backend pf (sh_sandbox t)) (plan_caveats pf t (effective cx)) = Inr ()"
  using assms
  by (auto simp: route_ok_def Let_def reported_kind_def plan_caveats_def intended_sandbox_kind_def split: if_splits option.splits)

lemma target_admitted_open:
  assumes "redirect_admitted (pf_fs pf) cx r" "target_of wr r = Some path"
  shows "open_granted pf cx wr path"
  using assms
  by (cases r) (auto simp: redirect_admitted_def target_of_def target_admitted_def open_granted_def seg_literal_def split: if_splits)

lemma pipeline_granted:
  assumes "call_admitted pf t cx pipeline cwd c env cfg" "sc_sandbox cfg = sh_sandbox t"
    and "\<forall>stage \<in> set pipeline. cmd_argv stage \<noteq> []"
    and "os_spawn pf (so w) pipeline cwd c env cfg = (l, r)"
  shows "log_granted pf t cx so l"
proof -
  have c: "c = effective cx" "sc_unbridled cfg = is_unbridled (pf_marks pf)"
      "\<forall>stage \<in> set pipeline. stage_admitted pf t cx stage" "\<forall>kv \<in> set env. fst kv \<notin> set (lp_env_denylist (sh_limits t))"
      "\<forall>dir. cwd = Some dir \<longrightarrow> check_path_read (pf_fs pf) cx dir = Inr ()"
    using assms(1) by (simp_all add: call_admitted_def)
  have "child_granted pf t cx so spec" if spawned: "ESpawn spec \<in> set l" for spec
  proof -
    obtain wrap pe m fr fw l' r' where run: "route_ok pf c cfg wrap" "proxy_variables pf (so w) c cfg pe"
        "run_pipeline (so_proc (so w)) pipeline cwd wrap (env_over env pe) m fr fw = (l', r')" "ESpawn spec \<in> set l'"
      using os_spawn_log [OF assms(4) spawned] by auto
    then obtain stage where stage: "stage \<in> set pipeline" "spec_of (so_proc (so w)) wrap cwd (env_over env pe) stage spec"
      using run_pipeline_log [OF run(3)] by blast
    then obtain argv where argv: "expand_args (po_var (so_proc (so w))) (cmd_argv stage) = Some argv" "cs_argv spec = wrap @ argv"
      by (auto simp: spec_of_def expand_stage_argv_def)
    moreover have "program_admitted cx (cmd_argv stage)" "cmd_argv stage \<noteq> []"
      using stage(1) c(3) assms(3) by (auto simp: stage_admitted_def)
    ultimately obtain program rest where "cs_argv spec = wrap @ program # rest" "exec_scope_allows (cav_exec (effective cx)) program"
      using expand_program by fastforce
    moreover have "kv \<in> {(''PATH'', po_path (so_proc (so w))), (''LC_ALL'', ''C'')} \<union> set env \<union> set pe" if "kv \<in> set (cs_env spec)" for kv
      using that stage(2) child_env_values env_insert_values by (fastforce simp: spec_of_def env_over_def)
    then have "k \<in> {''PATH'', ''LC_ALL''} \<or> k \<notin> set (lp_env_denylist (sh_limits t)) \<or>
        (\<exists>w hosts approved pe. so_proxy_start (so w) hosts approved = Inr pe \<and> (k, v) \<in> set pe)" if "(k, v) \<in> set (cs_env spec)" for k v
      using that c(4) proxy_variables_started [OF run(2)] by fastforce
    moreover have "cs_cwd spec = cwd" using stage(2) by (simp add: spec_of_def)
    ultimately show ?thesis
      using c(5) route_reported [OF run(1) [unfolded c(1)] c(2) assms(2)] unfolding child_granted_def by blast
  qed
  moreover have "open_granted pf cx wr path" if opened: "EOpen wr path \<in> set l" for wr path
  proof -
    obtain wrap pe m fr fw l' r' where run:
        "run_pipeline (so_proc (so w)) pipeline cwd wrap (env_over env pe) m fr fw = (l', r')" "EOpen wr path \<in> set l'"
      using os_spawn_log [OF assms(4) opened] by auto
    then obtain stage r where "stage \<in> set pipeline" "r \<in> set (cmd_redirects stage)" "target_of wr r = Some path"
      using run_pipeline_log [OF run(1)] unfolding names_target_def by blast
    then show ?thesis using c(3) target_admitted_open unfolding stage_admitted_def by blast
  qed
  ultimately show ?thesis by (simp add: log_granted_def)
qed

lemma run_items_inv:
  assumes "\<And>item w. item \<in> set items \<Longrightarrow> I w \<Longrightarrow> I (fst (run (it_pipeline item) w))" "I w"
  shows "I (fst (run_items run acc items w))"
  using assms
proof (induction items arbitrary: acc w)
  case (Cons item items)
  have step: "I (fst (run (it_pipeline item) w))" using Cons.prems by simp
  have rest: "I (fst (run_items run acc' items w'))" if "I w'" for acc' w' using Cons.IH Cons.prems(1) that by simp
  show ?case
    using step rest Cons.prems(2)
    by (cases "run (it_pipeline item) w") (auto split: option.splits sum.splits)
qed simp

lemma log_granted_append: "log_granted pf t cx so (l @ l') \<longleftrightarrow> log_granted pf t cx so l \<and> log_granted pf t cx so l'"
  by (auto simp: log_granted_def)

text \<open>An invocation extends the log of effects by those of the pipelines of its plan.\<close>

lemma invoke_log:
  assumes "invoke_accounted cc pf (t\<lparr>sh_spawner := os_spawner pf so\<rparr>) args cx elapsed w0 = (log, answer)"
    and each: "\<And>plan item w l r x. shell_plan_of pf t cx args = Inr plan \<Longrightarrow> item \<in> set (plan_script plan) \<Longrightarrow>
      os_spawn pf (so w) (it_pipeline item) (plan_cwd plan) (effective cx) (plan_env plan) (plan_cfg plan) = (l, r) \<Longrightarrow> x \<in> set l \<Longrightarrow> Q x"
  shows "\<exists>l. log = w0 @ l \<and> (\<forall>x \<in> set l. Q x)"
proof (cases "shell_plan_of pf t cx args")
  case (Inl x)
  then have "log = w0"
    using assms(1) by (auto simp: invoke_accounted_def plan_spawner split: shell_refusal.splits shell_stop.splits)
  then show ?thesis by simp
next
  case (Inr plan)
  let ?run = "\<lambda>pipeline. os_spawner pf so pipeline (plan_cwd plan) (effective cx) (plan_env plan) (plan_cfg plan)"
  let ?I = "\<lambda>w. \<exists>l. w = w0 @ l \<and> (\<forall>x \<in> set l. Q x)"
  have step: "?I (fst (?run (it_pipeline item) w))" if item: "item \<in> set (plan_script plan)" and w: "?I w" for item w
  proof -
    obtain l r where l: "os_spawn pf (so w) (it_pipeline item) (plan_cwd plan) (effective cx) (plan_env plan) (plan_cfg plan) = (l, r)"
      by fastforce
    have "fst (?run (it_pipeline item) w) = w @ l" using l by (cases r) (simp_all add: os_spawner_def)
    then show ?thesis using w each [OF Inr item l] by auto
  qed
  have "?I (fst (run_items ?run script_start (plan_script plan) w0))"
    by (rule run_items_inv [where I = ?I]) (rule step, assumption+, simp)
  moreover have "log = fst (run_items ?run script_start (plan_script plan) w0)"
    using assms(1) Inr
    by (cases "run_items ?run script_start (plan_script plan) w0") (simp add: invoke_accounted_def plan_spawner run_script_def)
  ultimately show ?thesis by simp
qed

lemma plan_of_args:
  assumes "shell_plan_of pf t cx args = Inr plan"
  obtains a where "shell_args_parse (sh_limits t) args = Inr a" "plan_cfg plan = spawn_cfg pf t a"
    "plan_env plan = fst (fence_env (sa_env a) (lp_env_denylist (sh_limits t)))"
  using assms by (auto simp: shell_plan_of_def admit_all_def seq_Inr map_sum_Inr split: sum.splits)

lemma invoke_log_granted:
  assumes "invoke_accounted cc pf (t\<lparr>sh_spawner := os_spawner pf so\<rparr>) args cx elapsed w0 = (log, answer)"
  shows "\<exists>l. log = w0 @ l \<and> log_granted pf t cx so l"
proof -
  let ?Q = "\<lambda>x. (\<forall>spec. x = ESpawn spec \<longrightarrow> child_granted pf t cx so spec) \<and> (\<forall>wr path. x = EOpen wr path \<longrightarrow> open_granted pf cx wr path)"
  have "\<exists>l. log = w0 @ l \<and> (\<forall>x \<in> set l. ?Q x)"
  proof (rule invoke_log [OF assms])
    fix plan item w l r x
    assume plan: "shell_plan_of pf t cx args = Inr plan" and item: "item \<in> set (plan_script plan)" and
      l: "os_spawn pf (so w) (it_pipeline item) (plan_cwd plan) (effective cx) (plan_env plan) (plan_cfg plan) = (l, r)" and x: "x \<in> set l"
    have "sc_sandbox (plan_cfg plan) = sh_sandbox t" by (rule plan_of_args [OF plan]) (simp add: spawn_cfg_def)
    then have "log_granted pf t cx so l"
      using pipeline_granted [where so = so and w = w, OF plan_admitted [OF plan item] _ _ l] plan_runnable [OF plan item] by (simp add: item_runnable_def)
    then show "?Q x" using x by (auto simp: log_granted_def)
  qed
  then show ?thesis unfolding log_granted_def by blast
qed

text \<open>C8. End to end, from the arguments of an invocation to its processes: under the operating-system spawner
  every child that is ever spawned runs a program of the granted exec scope, in a directory that passed the
  read check, and has no variable on the denylist but the baseline and those of the egress proxy; when the
  result reports a sandbox kind, each child was started behind the command prefix of that backend after its
  rules were applied. Every file the tool opens for a redirect passed the read or write check of its grant.
\<close>

theorem every_child_is_granted:
  assumes "invoke_accounted cc pf (t\<lparr>sh_spawner := os_spawner pf so\<rparr>) args cx elapsed [] = (log, answer)"
  shows "log_granted pf t cx so log"
  using invoke_log_granted [OF assms] by simp


subsection \<open>No child is left behind\<close>

definition spawned :: "'file effect list \<Rightarrow> nat" where
  "spawned l = length (filter (\<lambda>x. case x of ESpawn _ \<Rightarrow> True | _ \<Rightarrow> False) l)"

lemma spawned_simps [simp]:
  "spawned [] = 0" "spawned (l @ l') = spawned l + spawned l'" "spawned [ESpawn spec] = 1"
  by (simp_all add: spawned_def)

lemma spawned_kills [simp]:
  "spawned (kill_all n) = 0" "spawned (map EKillGroup is) = 0" "spawned (map EReap is) = 0"
  by (auto simp: spawned_def kill_all_def filter_empty_conv)

lemma spawned_opens: "opens_named stage io \<Longrightarrow> spawned io = 0"
  by (auto simp: spawned_def opens_named_def filter_empty_conv)

lemma kill_all_mem: "i < n \<Longrightarrow> EKill i \<in> set (kill_all n) \<and> EReap i \<in> set (kill_all n)"
  by (auto simp: kill_all_def)

lemma spawn_stages_count:
  assumes "spawn_stages po wrap cwd env fs_read fs_write i stages st = (l, Some r)"
  shows "case r of
      Inl e \<Rightarrow> \<forall>k < pr_children st + spawned l. EKill k \<in> set l \<and> EReap k \<in> set l
    | Inr st' \<Rightarrow> pr_children st' = pr_children st + spawned l"
  using assms
proof (induction stages arbitrary: i st l)
  case (Cons stage stages)
  obtain l1 r1 where s: "spawn_stage po wrap cwd env fs_read fs_write (stages = []) i stage st = (l1, r1)" by fastforce
  note log = spawn_stage_log [OF s]
  show ?case
  proof (cases "\<exists>st'. r1 = Some (Inr st')")
    case True
    then obtain st' where st': "r1 = Some (Inr st')" by blast
    obtain l2 r2 where "spawn_stages po wrap cwd env fs_read fs_write (Suc i) stages st' = (l2, r2)" by fastforce
    then have rest: "spawn_stages po wrap cwd env fs_read fs_write (Suc i) stages st' = (l2, Some r)" "l = l1 @ l2"
      using Cons.prems s st' by simp_all
    have "spawned l1 = 1" "pr_children st' = Suc (pr_children st)" using log st' by (auto simp: spawned_opens)
    then show ?thesis using Cons.IH [OF rest(1)] rest(2) by (auto split: sum.splits)
  next
    case False
    then obtain e where "r1 = Some (Inl e)" "l = l1" "r = Inl e" using Cons.prems s by (auto split: option.splits sum.splits)
    then show ?thesis using log kill_all_mem by (fastforce simp: spawned_opens)
  qed
qed auto

lemma poll_children_done:
  "poll_children poll last_stage i ds code = Inr (ds', code', all_done) \<Longrightarrow>
   length ds' = length ds \<and> (all_done \<longleftrightarrow> list_all id ds') \<and>
   (\<forall>k < length ds. ds' ! k \<longrightarrow> ds ! k \<or> (\<exists>status. poll (i + k) = Inr (Some status)))"
proof (induction ds arbitrary: i code ds' code' all_done)
  case (Cons d ds)
  show ?case
  proof (cases d)
    case True
    then obtain ds1 where rest: "poll_children poll last_stage (Suc i) ds code = Inr (ds1, code', all_done)" "ds' = True # ds1"
      using Cons.prems by (auto simp: map_sum_Inr)
    then show ?thesis using Cons.IH [OF rest(1)] True by (auto simp: nth_Cons split: nat.splits)
  next
    case False
    then obtain s where s: "poll i = Inr s" using Cons.prems by (cases "poll i") auto
    then obtain code1 r where "poll_children poll last_stage (Suc i) ds code1 = Inr r"
        "ds' = (s \<noteq> None) # fst r" "all_done = (s \<noteq> None \<and> snd (snd r))"
      using Cons.prems False by (cases s) (auto simp: map_sum_Inr)
    then show ?thesis using Cons.IH [of "Suc i" code1 "fst r" "fst (snd r)" "snd (snd r)"] s
      by (auto simp: nth_Cons split: nat.splits)
  qed
qed simp

lemma poll_children_error: "poll_children poll last_stage i ds code = Inl io \<Longrightarrow> \<exists>k. poll k = Inl io"
  by (induction poll last_stage i ds code rule: poll_children.induct) (auto simp: map_sum_Inl split: if_splits sum.splits option.splits)

definition polled :: "(nat \<Rightarrow> nat \<Rightarrow> io_error + int option option) \<Rightarrow> bool list \<Rightarrow> bool" where
  "polled poll ds \<longleftrightarrow> (\<forall>k < length ds. ds ! k \<longrightarrow> (\<exists>round status. poll round k = Inr (Some status)))"

text \<open>How supervision ends: on a failed poll, at the deadline, or with every child's exit seen.\<close>

definition supervised :: "(nat \<Rightarrow> nat \<Rightarrow> io_error + int option option) \<Rightarrow> nat \<Rightarrow> io_error + int \<times> bool \<Rightarrow> bool" where
  "supervised poll n x =
     (case x of
        Inl io \<Rightarrow> \<exists>round k. poll round k = Inl io
      | Inr (code, timed) \<Rightarrow> timed \<or> (\<forall>k < n. \<exists>round status. poll round k = Inr (Some status)))"

lemma supervise_ends:
  assumes "supervise poll expired last_stage round ds code = Some x"
  shows "polled poll ds \<longrightarrow> supervised poll (length ds) x"
  using assms
proof (rule supervise.raw_induct [rotated, where P = "\<lambda>poll expired last_stage round ds code x. polled poll ds \<longrightarrow> supervised poll (length ds) x"])
  fix sup poll expired last_stage round ds code x
  assume IH: "\<And>poll expired last_stage round ds code x. sup poll expired last_stage round ds code = Some x \<Longrightarrow>
      polled poll ds \<longrightarrow> supervised poll (length ds) x"
    and step: "(case poll_children (poll round) last_stage 0 ds code of Inl e \<Rightarrow> Some (Inl e)
      | Inr (ds', code', all_done) \<Rightarrow>
          if all_done then Some (Inr (code', False)) else if expired round then Some (Inr (code', True))
          else sup poll expired last_stage (Suc round) ds' code') = Some x"
  show "polled poll ds \<longrightarrow> supervised poll (length ds) x"
  proof
    assume polled: "polled poll ds"
    show "supervised poll (length ds) x"
    proof (cases "poll_children (poll round) last_stage 0 ds code")
      case (Inl io)
      then have "x = Inl io" using step by simp
      moreover have "\<exists>round k. poll round k = Inl io" using poll_children_error [OF Inl] by (rule exI)
      ultimately show ?thesis by (simp add: supervised_def)
    next
      case (Inr r)
      obtain ds' code' all_done where r: "r = (ds', code', all_done)" by (cases r)
      note once = poll_children_done [OF Inr [unfolded r]]
      have "\<exists>round status. poll round k = Inr (Some status)" if "k < length ds'" "ds' ! k" for k
        using once polled that unfolding polled_def by (metis add_0)
      then have d: "length ds' = length ds" "all_done \<longleftrightarrow> list_all id ds'" "polled poll ds'"
        using once by (simp_all add: polled_def)
      have all: "all_done \<Longrightarrow> \<forall>k < length ds. \<exists>round status. poll round k = Inr (Some status)"
        using d by (auto simp: polled_def list_all_length)
      consider "all_done" "x = Inr (code', False)" | "x = Inr (code', True)" | "sup poll expired last_stage (Suc round) ds' code' = Some x"
        using step unfolding Inr r by (cases all_done; cases "expired round") simp_all
      then show ?thesis
      proof cases
        case 1
        then show ?thesis using all by (simp add: supervised_def)
      next
        case 2
        then show ?thesis by (simp add: supervised_def)
      next
        case 3
        then show ?thesis using IH [OF 3] d by simp
      qed
    qed
  qed
qed

text \<open>C29. No child outlives a run that returns: if the run timed out, every stage that was spawned had its
  process group killed and was reaped; if it returned a capture without a timeout, the exit of every stage
  was seen, which reaps it; if it ended with an error while setting up a stage, every stage spawned before
  was killed and reaped. The one exception is an error of the status poll itself, after which the stages
  are left as they are.
\<close>

theorem no_child_outlives_run:
  assumes "run_pipeline po stages cwd wrap env max_output fs_read fs_write = (l, Ended result)"
  shows "case result of
      Inr cap \<Rightarrow>
        if cap_timed_out cap then \<forall>i < spawned l. EKillGroup i \<in> set l \<and> EReap i \<in> set l
        else \<forall>i < spawned l. \<exists>round status. po_poll po round i = Inr (Some status)
    | Inl e \<Rightarrow>
        (\<forall>i < spawned l. EKill i \<in> set l \<and> EReap i \<in> set l) \<or>
        (\<exists>io round i. e = Exec io \<and> po_poll po round i = Inl io)"
proof -
  have ne: "stages \<noteq> []" using assms by (auto simp: run_pipeline_def)
  obtain l1 s where s: "spawn_stages po wrap cwd env fs_read fs_write 0 stages
      \<lparr>pr_children = 0, pr_prev = None, pr_capture = None, pr_errs = []\<rparr> = (l1, Some s)"
    using assms ne by (auto simp: run_pipeline_def split: prod.splits option.splits)
  note count = spawn_stages_count [OF s]
  show ?thesis
  proof (cases s)
    case (Inl e)
    then show ?thesis using assms ne s count by (auto simp: run_pipeline_def)
  next
    case (Inr st)
    let ?ds = "replicate (pr_children st) False"
    obtain x where x: "supervise (po_poll po) (po_expired po) (length stages - 1) 0 ?ds (-1) = Some x"
      using assms ne s Inr by (auto simp: run_pipeline_def split: option.splits)
    have "supervised (po_poll po) (pr_children st) x" using supervise_ends [OF x] by (simp add: polled_def)
    moreover have "pr_children st = spawned l1" using count Inr by simp
    ultimately show ?thesis
      using assms ne s Inr x
      by (auto simp: run_pipeline_def supervised_def pipeline_captured_def split: sum.splits prod.splits if_splits option.splits)
  qed
qed

subsection \<open>The end of a run\<close>

lemma join_readers_None: "join_readers max_output srcs = None \<longleftrightarrow> (\<exists>src \<in> set srcs. stalls max_output src)"
  by (induction srcs) (simp_all add: read_capped_exact)

lemma pipeline_captured_None:
  "pipeline_captured max_output po st code timed = None \<longleftrightarrow>
   pr_capture st \<noteq> None \<and> stalls max_output (po_stdout po) \<or> (\<exists>i \<in> set (pr_errs st). stalls max_output (po_stderr po i))"
  by (auto simp: pipeline_captured_def collect_stderr_def join_readers_None read_capped_exact split: if_splits)

lemma spawn_stage_errs:
  "spawn_stage po wrap cwd env fs_read fs_write is_last i stage st = (l, Some (Inr st')) \<Longrightarrow> set (pr_errs st') \<subseteq> insert i (set (pr_errs st))"
  by (auto simp: spawn_stage_def Let_def split: prod.splits sum.splits option.splits if_splits)

lemma spawn_stages_errs:
  "spawn_stages po wrap cwd env fs_read fs_write i stages st = (l, Some (Inr st')) \<Longrightarrow>
   set (pr_errs st') \<subseteq> set (pr_errs st) \<union> {i..<i + length stages}"
proof (induction stages arbitrary: i st l)
  case (Cons stage stages)
  obtain l1 st1 where s: "spawn_stage po wrap cwd env fs_read fs_write (stages = []) i stage st = (l1, Some (Inr st1))"
    using Cons.prems by (auto split: prod.splits option.splits sum.splits)
  obtain l2 where "spawn_stages po wrap cwd env fs_read fs_write (Suc i) stages st1 = (l2, Some (Inr st'))"
    using Cons.prems s by (cases "spawn_stages po wrap cwd env fs_read fs_write (Suc i) stages st1") auto
  from Cons.IH [OF this] spawn_stage_errs [OF s] show ?case by fastforce
qed simp

text \<open>C28. What the deadline guarantees. For every non-empty pipeline of runnable stages, if the deadline is reached
  at some round of the supervision loop, supervision ends: each stage that was spawned was seen to exit, or all were
  killed with their process groups and reaped. The run then returns a capture or an error, and never panics,
  unless some process outside those groups still holds a captured pipe open on which no more than the cap has
  been delivered: the readers are joined with no deadline, so that the run then waits for that process.
\<close>

theorem pipeline_returns_by_deadline:
  assumes "stages \<noteq> []" "\<forall>stage \<in> set stages. stage_runnable stage" "po_expired po r"
    and "run_pipeline po stages cwd wrap env max_output fs_read fs_write = (l, ending)"
  shows "(\<exists>result. ending = Ended result) \<or>
    ending = NeverEnds \<and>
    (stalls max_output (po_stdout po) \<or> (\<exists>i < length stages. stalls max_output (po_stderr po i))) \<and>
    ((\<forall>i < spawned l. EKillGroup i \<in> set l \<and> EReap i \<in> set l) \<or>
     (\<forall>i < spawned l. \<exists>round status. po_poll po round i = Inr (Some status)))"
proof -
  obtain l1 s where s: "spawn_stages po wrap cwd env fs_read fs_write 0 stages
      \<lparr>pr_children = 0, pr_prev = None, pr_capture = None, pr_errs = []\<rparr> = (l1, Some s)"
    using spawn_stages_no_panic [OF assms(2)] by (metis option.exhaust prod.exhaust snd_conv)
  show ?thesis
  proof (cases s)
    case (Inl e)
    then show ?thesis using assms(1,4) s by (auto simp: run_pipeline_def)
  next
    case (Inr st)
    obtain x where x: "supervise (po_poll po) (po_expired po) (length stages - 1) 0 (replicate (pr_children st) False) (-1) = Some x"
      using supervise_returns [where expired = "po_expired po" and round = 0, OF assms(3)] by blast
    have ends: "supervised (po_poll po) (pr_children st) x" using supervise_ends [OF x] by (simp add: polled_def)
    have count: "pr_children st = spawned l1" using spawn_stages_count [OF s] Inr by simp
    have errs: "\<forall>i \<in> set (pr_errs st). i < length stages" using spawn_stages_errs [OF s [unfolded Inr]] by auto
    show ?thesis
    proof (cases x)
      case (Inl io)
      then show ?thesis using assms(1,4) s Inr x by (auto simp: run_pipeline_def)
    next
      case outcome: (Inr result)
      obtain code timed where ct: "result = (code, timed)" by (cases result)
      let ?kills = "if timed then map EKillGroup [0..<pr_children st] @ map EReap [0..<pr_children st] else []"
      have run: "l = l1 @ ?kills"
        "ending = (case pipeline_captured max_output po st code timed of None \<Rightarrow> NeverEnds | Some cap \<Rightarrow> Ended (Inr cap))"
        using assms(1,4) s Inr x outcome ct by (auto simp: run_pipeline_def)
      have "spawned l = pr_children st" using run(1) count by simp
      then have "(\<forall>i < spawned l. EKillGroup i \<in> set l \<and> EReap i \<in> set l) \<or>
          (\<forall>i < spawned l. \<exists>round status. po_poll po round i = Inr (Some status))"
        using ends run(1) by (auto simp: supervised_def outcome ct)
      then show ?thesis
        using run(2) errs pipeline_captured_None [of max_output po st code timed] by (auto split: option.splits)
    qed
  qed
qed

subsection \<open>Witnesses\<close>

definition demo_proc :: "unit proc_os" where
  "demo_proc = \<lparr>po_var = (\<lambda>n. Some ''/home/u''), po_fs = pf_fs demo_platform, po_path = ''/bin'', po_clone = (\<lambda>_. None),
     po_pipe = (\<lambda>_. None), po_spawn = (\<lambda>_. None), po_poll = (\<lambda>round i. Inr (if round = 0 then None else Some (Some 0))),
     po_expired = (\<lambda>round. round = 3), po_stdout = [SData ''hi''], po_stderr = (\<lambda>_. [])\<rparr>"

definition demo_so :: "unit spawner_os" where
  "demo_so = \<lparr>so_proc = demo_proc, so_thread = None, so_proxy_start = (\<lambda>_ _. Inr []), so_proxy_final = Inr []\<rparr>"

definition demo_shell :: "unit effect list ShellTool" where
  "demo_shell = \<lparr>sh_spawner = (\<lambda>_ _ _ _ _ w. (w, None)), sh_requires_admission = False,
     sh_env = (\<lambda>n. if n = ''HOME'' then Some ''/home/u'' else None), sh_lister = (\<lambda>_. []),
     sh_limits = demo_limits, sh_sandbox = sandbox_default False, sh_private_hosts = []\<rparr>"

definition ls_stage :: Command where
  "ls_stage = \<lparr>cmd_argv = [ArgLit ''ls'', ArgVar [SegVar ''HOME'']], cmd_redirects = [RedStdout [SegLit ''o''] False]\<rparr>"

theorem pipeline_returns_by_deadline_witness:
  "\<exists>result. snd (run_pipeline (demo_proc\<lparr>po_poll := (\<lambda>_ _. Inr None)\<rparr>) [ls_stage] None [] [] 4 ScopeAll ScopeAll) = Ended result"
proof -
  let ?po = "demo_proc\<lparr>po_poll := (\<lambda>_ _. Inr None)\<rparr>"
  have "[ls_stage] \<noteq> []" "\<forall>stage \<in> set [ls_stage]. stage_runnable stage" "po_expired ?po 3"
    "\<not> stalls 4 (po_stdout ?po)" "\<not> stalls 4 (po_stderr ?po i)" for i
    by (simp_all add: ls_stage_def stage_runnable_def arg_lowered_def demo_proc_def stalls_def)
  with pipeline_returns_by_deadline [OF this(1-3) prod.collapse [symmetric], of None "[]" "[]" 4 ScopeAll ScopeAll]
  show ?thesis by blast
qed

text \<open>The exception: a descendant in a session of its own that keeps the standard error of its stage open keeps the run from
  returning, although the deadline has passed and the stage was killed and reaped.\<close>

lemma held_pipe_outlives_deadline:
  "let run = run_pipeline (demo_proc\<lparr>po_poll := (\<lambda>_ _. Inr None), po_stderr := (\<lambda>_. [SHeld])\<rparr>) [ls_stage] None [] [] 4 ScopeAll ScopeAll
   in snd run = NeverEnds \<and> list_ex ((=) (EKillGroup 0)) (fst run) \<and> list_ex ((=) (EReap 0)) (fst run)"
  by code_simp

theorem every_child_is_granted_witness:
  "\<exists>log answer. invoke_accounted demo_codec demo_platform (demo_shell\<lparr>sh_spawner := os_spawner demo_platform (\<lambda>_. demo_so)\<rparr>)
      (cmd_args ''ls | ls > o'') ls_context False [] = (log, answer) \<and>
     spawned log = 2 \<and> EOpen True ''o'' \<in> set log \<and> log_granted demo_platform demo_shell ls_context (\<lambda>_. demo_so) log"
proof -
  let ?i = "invoke_accounted demo_codec demo_platform (demo_shell\<lparr>sh_spawner := os_spawner demo_platform (\<lambda>_. demo_so)\<rparr>)
      (cmd_args ''ls | ls > o'') ls_context False []"
  obtain log answer where i: "?i = (log, answer)" by fastforce
  have "spawned (fst ?i) = 2 \<and> list_ex ((=) (EOpen True ''o'')) (fst ?i)" by code_simp
  then have "spawned log = 2" "EOpen True ''o'' \<in> set log" using i by (auto simp: list_ex_iff)
  with i every_child_is_granted [OF i] show ?thesis by blast
qed


theorem no_child_outlives_run_witness:
  "\<exists>l cap. run_pipeline (demo_proc\<lparr>po_poll := (\<lambda>_ _. Inr None)\<rparr>) [ls_stage] None [] [] 4 ScopeAll ScopeAll = (l, Ended (Inr cap)) \<and>
     cap_timed_out cap \<and> spawned l = 1 \<and> EKillGroup 0 \<in> set l \<and> EReap 0 \<in> set l"
proof -
  let ?r = "run_pipeline (demo_proc\<lparr>po_poll := (\<lambda>_ _. Inr None)\<rparr>) [ls_stage] None [] [] 4 ScopeAll ScopeAll"
  have "case snd ?r of Ended (Inr cap) \<Rightarrow> cap_timed_out cap | _ \<Rightarrow> False" and one: "spawned (fst ?r) = 1"
    by code_simp+
  then obtain l cap where r: "?r = (l, Ended (Inr cap))" "cap_timed_out cap"
    by (cases ?r) (auto split: ending.splits sum.splits)
  have "EKillGroup 0 \<in> set l \<and> EReap 0 \<in> set l"
    using no_child_outlives_run [OF r(1)] r one by simp
  then show ?thesis using r one by auto
qed

text \<open>The exception: when a status poll fails, the run ends with the error and the stage it had spawned is
  neither killed nor reaped.
\<close>

lemma poll_error_orphans:
  "\<exists>l io. run_pipeline (demo_proc\<lparr>po_poll := (\<lambda>_ _. Inl (Io OtherKind []))\<rparr>) [ls_stage] None [] [] 4 ScopeAll ScopeAll =
      (l, Ended (Inl (Exec io))) \<and> spawned l = 1 \<and> EKill 0 \<notin> set l \<and> EKillGroup 0 \<notin> set l \<and> EReap 0 \<notin> set l"
proof -
  let ?r = "run_pipeline (demo_proc\<lparr>po_poll := (\<lambda>_ _. Inl (Io OtherKind []))\<rparr>) [ls_stage] None [] [] 4 ScopeAll ScopeAll"
  have "snd ?r = Ended (Inl (Exec (Io OtherKind [])))" and "spawned (fst ?r) = 1"
    and "list_all (\<lambda>x. case x of EKill _ \<Rightarrow> False | EKillGroup _ \<Rightarrow> False | EReap _ \<Rightarrow> False | _ \<Rightarrow> True) (fst ?r)"
    by code_simp+
  then show ?thesis by (cases ?r) (auto simp: list_all_iff)
qed

end
