(* ===== verification/Mcp_Frontend.thy ===== *)
theory Mcp_Frontend
  imports Shell_Run
begin

text \<open>
  The front end \<^verbatim>\<open>src/agent-bridle-mcp/src\<close>: where a session's grant comes from and the unbridle hatch
  (\<^verbatim>\<open>caveats_source.rs\<close>), the start of the process (\<^verbatim>\<open>main.rs\<close>), the protocol handlers (\<^verbatim>\<open>handlers.rs\<close>), and the
  framing and serving loop (\<^verbatim>\<open>server.rs\<close>). JSON and TOML parsing, printing and the rendering of messages are
  a record of functions; standard input is a list of the chunks its reads return.
\<close>

subsection \<open>Where the grant comes from\<close>

definition ENV_CAVEATS :: string where "ENV_CAVEATS = ''AGENT_BRIDLE_CAVEATS''"
definition ENV_MODE :: string where "ENV_MODE = ''BRIDLE_MODE''"
definition ENV_UNBRIDLE_ACK :: string where "ENV_UNBRIDLE_ACK = ''AGENT_BRIDLE_UNBRIDLE''"
definition UNBRIDLE_ACK_TOKEN :: string where "UNBRIDLE_ACK_TOKEN = ''i-understand-this-is-dangerous''"
definition ENV_NO_STEPUP_ACK :: string where "ENV_NO_STEPUP_ACK = ''AGENT_BRIDLE_NO_STEPUP''"
definition NO_STEPUP_TOKEN :: string where "NO_STEPUP_TOKEN = ''i-accept-no-human-in-the-loop''"

definition deny_all :: Caveats where
  "deny_all = \<lparr>cav_fs_read = ScopeOnly [], cav_fs_write = ScopeOnly [], cav_exec = ScopeOnly [],
     cav_net = ScopeOnly [], cav_max_calls = AtMost 0, cav_valid_for_generation = ScopeOnly []\<rparr>"

datatype CaveatsSource =
    EnvGrant
  | ConfigFile string
  | FailClosedDefault
  | Unbridled string bool
  | UnbridleRefused reason
  | StepUpAckRefused reason

record GrantedCaveats =
  gc_caveats :: Caveats
  gc_source :: CaveatsSource

definition no_stepup_reason :: reason where
  "no_stepup_reason = Fmt (''{ENV_NO_STEPUP_ACK} is set but the run is not unbridled ({ENV_MODE}'' @ [CHR 0xE2, CHR 0x89, CHR 0xA0] @
     ''unbridle); the no-human ack is only valid for an unbridled escape hatch'') [ENV_NO_STEPUP_ACK, ENV_MODE]"

definition unbridle_reason :: reason where
  "unbridle_reason = Fmt ''{ENV_MODE}=unbridle requires {ENV_UNBRIDLE_ACK}={UNBRIDLE_ACK_TOKEN}''
     [ENV_MODE, ENV_UNBRIDLE_ACK, UNBRIDLE_ACK_TOKEN]"

definition apply_unbridle ::
  "GrantedCaveats \<Rightarrow> string option \<Rightarrow> string option \<Rightarrow> string option \<Rightarrow> GrantedCaveats" where
  "apply_unbridle base mode ack no_step_up_ack =
     (let unbridling = (map_option (\<lambda>m. to_ascii_lowercase (trim m)) mode = Some ''unbridle'');
          no_step_up_present = (case no_step_up_ack of None \<Rightarrow> False | Some s \<Rightarrow> trim s \<noteq> [])
      in if \<not> unbridling
         then if no_step_up_present
              then \<lparr>gc_caveats = deny_all, gc_source = StepUpAckRefused no_stepup_reason\<rparr>
              else base
         else if ack = Some UNBRIDLE_ACK_TOKEN
         then \<lparr>gc_caveats = gc_caveats base,
                gc_source = Unbridled UNBRIDLE_ACK_TOKEN (no_step_up_ack = Some NO_STEPUP_TOKEN)\<rparr>
         else \<lparr>gc_caveats = deny_all, gc_source = UnbridleRefused unbridle_reason\<rparr>)"

definition grant_is_unbridled :: "GrantedCaveats \<Rightarrow> bool" where
  "grant_is_unbridled g = (case gc_source g of Unbridled _ _ \<Rightarrow> True | _ \<Rightarrow> False)"

definition grant_is_autonomous :: "GrantedCaveats \<Rightarrow> bool" where
  "grant_is_autonomous g = (case gc_source g of Unbridled _ autonomous \<Rightarrow> autonomous | _ \<Rightarrow> False)"

text \<open>
  The process environment, with the two ways a variable can be unreadable, and the parsers: the derived
  deserializer of \<^verbatim>\<open>Caveats\<close> from JSON, and of the optional \<^verbatim>\<open>[caveats]\<close> table from TOML.
\<close>

datatype var_result = VarSet string | VarNotPresent | VarNotUnicode

definition var_ok :: "var_result \<Rightarrow> string option" where
  "var_ok v = (case v of VarSet s \<Rightarrow> Some s | _ \<Rightarrow> None)"

record grant_os =
  go_var :: "string \<Rightarrow> var_result"
  go_home :: "string option"
  go_caveats_json :: "string \<Rightarrow> string + Caveats"
  go_is_file :: "string \<Rightarrow> bool"
  go_read_to_string :: "string \<Rightarrow> string + string"
  go_caveats_toml :: "string \<Rightarrow> string + Caveats option"

definition load_from_config :: "grant_os \<Rightarrow> string \<Rightarrow> reason + Caveats" where
  "load_from_config os path =
     (case go_read_to_string os path of
        Inl e \<Rightarrow> Inl (Fmt ''cannot read {}: {e}'' [path, e])
      | Inr contents \<Rightarrow>
          (case go_caveats_toml os contents of
             Inl e \<Rightarrow> Inl (Fmt ''cannot parse {} [caveats]: {e}'' [path, e])
           | Inr cfg \<Rightarrow> Inr (case cfg of None \<Rightarrow> deny_all | Some c \<Rightarrow> c)))"

definition granted_resolve :: "grant_os \<Rightarrow> string option \<Rightarrow> string option \<Rightarrow> reason + GrantedCaveats" where
  "granted_resolve os env home =
     (case env of
        Some json \<Rightarrow>
          (case go_caveats_json os json of
             Inl e \<Rightarrow> Inl (Fmt ''{ENV_CAVEATS} is set but is not valid Caveats JSON: {e}'' [ENV_CAVEATS, e])
           | Inr c \<Rightarrow> Inr \<lparr>gc_caveats = c, gc_source = EnvGrant\<rparr>)
      | None \<Rightarrow>
          (let path = (case home of None \<Rightarrow> [] | Some h \<Rightarrow> path_join (path_join h ''.agent-bridle'') ''config.toml'')
           in if home \<noteq> None \<and> go_is_file os path
              then map_sum id (\<lambda>c. \<lparr>gc_caveats = c, gc_source = ConfigFile path\<rparr>) (load_from_config os path)
              else Inr \<lparr>gc_caveats = deny_all, gc_source = FailClosedDefault\<rparr>))"

definition granted_load :: "grant_os \<Rightarrow> reason + GrantedCaveats" where
  "granted_load os =
     (case granted_resolve os (var_ok (go_var os ENV_CAVEATS)) (go_home os) of
        Inl e \<Rightarrow> Inl e
      | Inr base \<Rightarrow>
          Inr (apply_unbridle base (var_ok (go_var os ENV_MODE)) (var_ok (go_var os ENV_UNBRIDLE_ACK))
                 (var_ok (go_var os ENV_NO_STEPUP_ACK))))"

text \<open>What \<^verbatim>\<open>async_main\<close> does before it serves: load the grant and set the process markers.\<close>

definition async_main_start :: "grant_os \<Rightarrow> process_marks \<Rightarrow> reason + GrantedCaveats \<times> process_marks" where
  "async_main_start os marks =
     (case granted_load os of
        Inl e \<Rightarrow> Inl e
      | Inr granted \<Rightarrow>
          Inr (granted,
            if grant_is_unbridled granted
            then set_human_gate (if grant_is_autonomous granted then GateNone else GatePasskey) (set_unbridled marks)
            else marks))"

subsection \<open>Framing\<close>

datatype Frame = FrameLine string | FrameOversize | FrameEof

text \<open>What a fill of the buffered reader returns: bytes, where none means end of input, or an error. A fill that
  was only partly consumed is returned again with what is left of it.\<close>

datatype fill = FillData string | FillFailed io_error

definition newline :: char where "newline = CHR 0x0A"

definition frame_at_eof :: "string \<Rightarrow> bool \<Rightarrow> Frame" where
  "frame_at_eof buf oversize =
     (if oversize then FrameOversize else if buf = [] then FrameEof else FrameLine buf)"

definition frame_at_newline :: "nat \<Rightarrow> string \<Rightarrow> bool \<Rightarrow> string \<Rightarrow> Frame" where
  "frame_at_newline cap buf oversize content =
     (if \<not> oversize \<and> length buf + length content \<le> cap then FrameLine (buf @ content) else FrameOversize)"

definition frame_accumulate :: "nat \<Rightarrow> string \<Rightarrow> bool \<Rightarrow> string \<Rightarrow> string \<times> bool" where
  "frame_accumulate cap buf oversize chunk =
     (if oversize then (buf, True) else if length buf + length chunk \<le> cap then (buf @ chunk, False) else ([], True))"

definition consume :: "nat \<Rightarrow> string \<Rightarrow> fill list \<Rightarrow> fill list" where
  "consume n chunk fills = (if length chunk \<le> n then fills else FillData (drop n chunk) # fills)"

fun read_frame_from :: "nat \<Rightarrow> string \<Rightarrow> bool \<Rightarrow> fill list \<Rightarrow> fill list \<times> (io_error + Frame)" where
  "read_frame_from cap buf oversize [] = ([], Inr (frame_at_eof buf oversize))"
| "read_frame_from cap buf oversize (FillFailed e # fills) = (fills, Inl e)"
| "read_frame_from cap buf oversize (FillData chunk # fills) =
     (if chunk = [] then (FillData chunk # fills, Inr (frame_at_eof buf oversize))
      else if newline \<in> set chunk
      then (let content = takeWhile (\<lambda>b. b \<noteq> newline) chunk
            in (consume (length content + 1) chunk fills, Inr (frame_at_newline cap buf oversize content)))
      else (case frame_accumulate cap buf oversize chunk of
          (buf', oversize') \<Rightarrow> read_frame_from cap buf' oversize' fills))"

definition read_frame :: "nat \<Rightarrow> fill list \<Rightarrow> fill list \<times> (io_error + Frame)" where
  "read_frame cap fills = read_frame_from cap [] False fills"

text \<open>The size of what is left to read: every frame but the end of input takes something from it.\<close>

definition fill_size :: "fill \<Rightarrow> nat" where
  "fill_size f = (case f of FillData s \<Rightarrow> length s | FillFailed _ \<Rightarrow> 1)"

definition unread :: "fill list \<Rightarrow> nat" where
  "unread fills = sum_list (map fill_size fills)"

lemma unread_consume: "0 < n \<Longrightarrow> chunk \<noteq> [] \<Longrightarrow> unread (consume n chunk fills) < length chunk + unread fills"
  by (auto simp: consume_def unread_def fill_size_def)

lemma read_frame_from_unread:
  "read_frame_from cap buf oversize fills = (fills', Inr frame) \<Longrightarrow>
   unread fills' \<le> unread fills \<and> (frame \<noteq> frame_at_eof buf oversize \<longrightarrow> unread fills' < unread fills)"
proof (induction cap buf oversize fills rule: read_frame_from.induct)
  case (3 cap buf oversize chunk fills)
  show ?case
  proof (cases "chunk \<noteq> [] \<and> newline \<notin> set chunk")
    case True
    obtain buf' oversize' where acc: "frame_accumulate cap buf oversize chunk = (buf', oversize')" by fastforce
    then have "unread fills' \<le> unread fills" using 3 True by auto
    then show ?thesis using True by (cases chunk) (simp_all add: unread_def fill_size_def)
  next
    case False
    then show ?thesis
      using "3.prems" unread_consume [of "Suc (length (takeWhile (\<lambda>b. b \<noteq> newline) chunk))" chunk fills]
      by (fastforce simp: Let_def unread_def fill_size_def split: if_splits)
  qed
qed (auto simp: unread_def)

lemma read_frame_unread:
  "read_frame cap fills = (fills', Inr frame) \<Longrightarrow> frame \<noteq> FrameEof \<Longrightarrow> unread fills' < unread fills"
  using read_frame_from_unread [of cap "[]" False fills fills' frame] by (simp add: read_frame_def frame_at_eof_def)

subsection \<open>Handlers\<close>

text \<open>JSON parsing and printing, the rendering of a message, and the version of the crate.\<close>

record mcp_codec =
  mc_from_slice :: "string \<Rightarrow> string + json"
  mc_to_string :: "json \<Rightarrow> string + string"
  mc_display :: "json \<Rightarrow> string"
  mc_render :: "reason \<Rightarrow> string"
  mc_version :: string

definition PROTOCOL_VERSION :: string where "PROTOCOL_VERSION = ''2024-11-05''"

definition mcp_initialize :: "mcp_codec \<Rightarrow> json" where
  "mcp_initialize mc = JObject
     [(''protocolVersion'', JString PROTOCOL_VERSION), (''capabilities'', JObject [(''tools'', JObject [])]),
      (''serverInfo'', JObject [(''name'', JString ''agent-bridle-mcp''), (''version'', JString (mc_version mc))])]"

definition describe_tool :: "json \<Rightarrow> json" where
  "describe_tool def =
     (case def of
        JObject m \<Rightarrow>
          (case map_of m ''description'' of
             Some _ \<Rightarrow> JObject m
           | None \<Rightarrow> JObject (m @ [(''description'',
               JString ''Capability-confined agent-bridle tool. Dispatch is enforced by the granted Caveats leash.'')]))
      | _ \<Rightarrow> def)"

definition tools_list :: "'w Registry \<Rightarrow> json" where
  "tools_list reg = JObject [(''tools'', JArray (map describe_tool (tool_definitions reg)))]"

definition text_result :: "string \<Rightarrow> bool \<Rightarrow> json" where
  "text_result txt is_error = JObject
     [(''content'', JArray [JObject [(''type'', JString ''text''), (''text'', JString txt)]]), (''isError'', JBool is_error)]"

definition tool_error :: "string \<Rightarrow> json" where
  "tool_error reason = text_result reason True"

definition tool_success :: "mcp_codec \<Rightarrow> json \<Rightarrow> json" where
  "tool_success mc result = text_result
     (case result of
        JString s \<Rightarrow> s
      | other \<Rightarrow> (case mc_to_string mc other of Inl _ \<Rightarrow> mc_display mc other | Inr s \<Rightarrow> s)) False"

definition as_bool :: "json \<Rightarrow> bool option" where
  "as_bool v = (case v of JBool b \<Rightarrow> Some b | _ \<Rightarrow> None)"

definition as_array :: "json \<Rightarrow> json list option" where
  "as_array v = (case v of JArray xs \<Rightarrow> Some xs | _ \<Rightarrow> None)"

definition result_is_denied :: "json \<Rightarrow> bool" where
  "result_is_denied result = (opt_bind (json_get result ''denied'') as_bool = Some True)"

definition denial_reason :: "json \<Rightarrow> string" where
  "denial_reason result =
     (let reasons = (case opt_bind (json_get result ''denials'') as_array of
          None \<Rightarrow> []
        | Some arr \<Rightarrow> List.map_filter (\<lambda>d. opt_bind (json_get d ''reason'') as_str) arr)
      in if reasons = [] then ''denied: the capability leash refused an operation'' else join_with ''; '' reasons)"

record 'w session =
  ss_registry :: "'w Registry"
  ss_cells :: "budget_cell list"
  ss_world :: 'w
  ss_out :: "json list"

definition call_result :: "mcp_codec \<Rightarrow> json ToolResult \<Rightarrow> json" where
  "call_result mc r =
     (case r of
        Inr result \<Rightarrow> if result_is_denied result then tool_error (denial_reason result) else tool_success mc result
      | Inl e \<Rightarrow> tool_error (mc_render mc (error_display e)))"

definition tools_call ::
  "hash \<Rightarrow> serializer \<Rightarrow> meet_op \<Rightarrow> mcp_codec \<Rightarrow> Grant \<Rightarrow> json \<Rightarrow> 'w session \<Rightarrow> 'w session \<times> json" where
  "tools_call h ser meet mc grant params st =
     (case opt_bind (json_get params ''name'') as_str of
        None \<Rightarrow> (st, tool_error ''missing or non-string `name` in tools/call params'')
      | Some name \<Rightarrow>
          (let arguments = (case json_get params ''arguments'' of None \<Rightarrow> JObject [] | Some a \<Rightarrow> a)
           in case dispatch h ser meet (ss_registry st) (ss_cells st) (ss_world st) name arguments grant of
                (reg, cells, w, r) \<Rightarrow>
                  (st\<lparr>ss_registry := reg, ss_cells := cells, ss_world := w\<rparr>, call_result mc r)))"

subsection \<open>The server\<close>

definition MAX_LINE_BYTES :: nat where "MAX_LINE_BYTES = 16 * 1024 * 1024"

definition mcp_dispatch ::
  "hash \<Rightarrow> serializer \<Rightarrow> meet_op \<Rightarrow> mcp_codec \<Rightarrow> Grant \<Rightarrow> string \<Rightarrow> json \<Rightarrow> 'w session \<Rightarrow> 'w session \<times> (reason + json)" where
  "mcp_dispatch h ser meet mc grant meth params st =
     (if meth = ''initialize'' then (st, Inr (mcp_initialize mc))
      else if meth = ''tools/list'' then (st, Inr (tools_list (ss_registry st)))
      else if meth = ''tools/call'' then apsnd Inr (tools_call h ser meet mc grant params st)
      else if meth = ''shutdown'' then (st, Inr JNull)
      else if meth = ''notifications/initialized'' \<or> meth = ''initialized'' then (st, Inr JNull)
      else (st, Inl (Fmt ''Method not found: {other}'' [meth])))"

definition success_response :: "json \<Rightarrow> json \<Rightarrow> json" where
  "success_response rid result = JObject [(''jsonrpc'', JString ''2.0''), (''id'', rid), (''result'', result)]"

definition error_response :: "json \<Rightarrow> string \<Rightarrow> string \<Rightarrow> json" where
  "error_response rid code message = JObject
     [(''jsonrpc'', JString ''2.0''), (''id'', rid),
      (''error'', JObject [(''code'', JNumber code), (''message'', JString message)])]"

text \<open>How the loop goes on after a frame. A response is recorded as the value that was written out.\<close>

datatype verdict = Continue | Break | Fail reason

definition write_response :: "mcp_codec \<Rightarrow> (nat \<Rightarrow> string option) \<Rightarrow> json \<Rightarrow> 'w session \<Rightarrow> 'w session \<times> verdict" where
  "write_response mc writer response st =
     (case mc_to_string mc response of
        Inl e \<Rightarrow> (st, Fail (Fmt ''{e}'' [e]))
      | Inr out \<Rightarrow>
          (case writer (length (ss_out st)) of
             Some e \<Rightarrow> (st, Fail (Fmt ''{e}'' [e]))
           | None \<Rightarrow> (st\<lparr>ss_out := ss_out st @ [response]\<rparr>, Continue)))"

definition is_ascii_blank :: "char \<Rightarrow> bool" where
  "is_ascii_blank c \<longleftrightarrow> c \<in> {CHR 0x20, CHR 0x09, CHR 0x0A, CHR 0x0C, CHR 0x0D}"

definition request_method :: "json \<Rightarrow> string" where
  "request_method request = (case opt_bind (json_get request ''method'') as_str of None \<Rightarrow> [] | Some m \<Rightarrow> m)"

definition serve_request ::
  "hash \<Rightarrow> serializer \<Rightarrow> meet_op \<Rightarrow> mcp_codec \<Rightarrow> (nat \<Rightarrow> string option) \<Rightarrow> Grant \<Rightarrow> json \<Rightarrow> 'w session \<Rightarrow> 'w session \<times> verdict" where
  "serve_request h ser meet mc writer grant request st =
     (let meth = request_method request;
          params = (case json_get request ''params'' of None \<Rightarrow> JNull | Some p \<Rightarrow> p)
      in if meth = ''exit'' then (st, Break)
         else (case mcp_dispatch h ser meet mc grant meth params st of
             (st', outcome) \<Rightarrow>
               (case json_get request ''id'' of
                  None \<Rightarrow> (st', Continue)
                | Some rid \<Rightarrow>
                    write_response mc writer
                      (case outcome of
                         Inr result \<Rightarrow> success_response rid result
                       | Inl e \<Rightarrow> error_response rid ''-32603'' (mc_render mc e)) st')))"

definition serve_frame ::
  "hash \<Rightarrow> serializer \<Rightarrow> meet_op \<Rightarrow> mcp_codec \<Rightarrow> (nat \<Rightarrow> string option) \<Rightarrow> Grant \<Rightarrow> nat \<Rightarrow> Frame \<Rightarrow> 'w session \<Rightarrow>
   'w session \<times> verdict" where
  "serve_frame h ser meet mc writer grant cap frame st =
     (case frame of
        FrameEof \<Rightarrow> (st, Break)
      | FrameOversize \<Rightarrow>
          write_response mc writer (error_response JNull ''-32600''
            (mc_render mc (Fmt ''Invalid Request: frame exceeds {max_line_bytes} bytes'' [decimal cap]))) st
      | FrameLine bytes \<Rightarrow>
          if list_all is_ascii_blank bytes then (st, Continue)
          else (case mc_from_slice mc bytes of
              Inl e \<Rightarrow> write_response mc writer (error_response JNull ''-32700'' (mc_render mc (Fmt ''Parse error: {e}'' [e]))) st
            | Inr request \<Rightarrow> serve_request h ser meet mc writer grant request st))"

function run_inner ::
  "hash \<Rightarrow> serializer \<Rightarrow> meet_op \<Rightarrow> mcp_codec \<Rightarrow> (nat \<Rightarrow> string option) \<Rightarrow> Grant \<Rightarrow> nat \<Rightarrow> fill list \<Rightarrow> 'w session \<Rightarrow>
   'w session \<times> (reason + unit)" where
  "run_inner h ser meet mc writer grant cap fills st =
     (case read_frame cap fills of
        (_, Inl e) \<Rightarrow> (st, Inl (Fmt ''{e}'' [io_error_text e]))
      | (fills', Inr frame) \<Rightarrow>
          (case serve_frame h ser meet mc writer grant cap frame st of
             (st', Continue) \<Rightarrow> run_inner h ser meet mc writer grant cap fills' st'
           | (st', Break) \<Rightarrow> (st', Inr ())
           | (st', Fail e) \<Rightarrow> (st', Inl e)))"
  by pat_completeness auto

lemma serve_frame_eof: "serve_frame h ser meet mc writer grant cap frame st = (st', Continue) \<Longrightarrow> frame \<noteq> FrameEof"
  by (auto simp: serve_frame_def)

termination run_inner
  by (relation "measure (\<lambda>(_, _, _, _, _, _, _, fills, _). unread fills)")
    (auto dest!: serve_frame_eof [OF sym] read_frame_unread [OF sym])

declare run_inner.simps [simp del]

definition mcp_run ::
  "hash \<Rightarrow> serializer \<Rightarrow> meet_op \<Rightarrow> mcp_codec \<Rightarrow> (nat \<Rightarrow> string option) \<Rightarrow> Grant \<Rightarrow> fill list \<Rightarrow> 'w session \<Rightarrow>
   'w session \<times> (reason + unit)" where
  "mcp_run h ser meet mc writer grant fills st = run_inner h ser meet mc writer grant MAX_LINE_BYTES fills st"

definition mcp_server_new :: "'w Registry \<Rightarrow> Caveats \<Rightarrow> 'w \<Rightarrow> 'w session \<times> Grant" where
  "mcp_server_new registry granted w =
     (case mint_grant [] granted of
        (cells, grant) \<Rightarrow> (\<lparr>ss_registry = registry, ss_cells = cells, ss_world = w, ss_out = []\<rparr>, grant))"

text \<open>The whole process: the registry is the facade's, whose tools read the markers set at the start.\<close>

definition async_main ::
  "hash \<Rightarrow> serializer \<Rightarrow> meet_op \<Rightarrow> mcp_codec \<Rightarrow> grant_os \<Rightarrow> (process_marks \<Rightarrow> 'w Registry) \<Rightarrow> (nat \<Rightarrow> string option) \<Rightarrow>
   fill list \<Rightarrow> 'w \<Rightarrow> 'w \<times> json list \<times> (reason + unit)" where
  "async_main h ser meet mc os registry writer fills w =
     (case async_main_start os fresh_marks of
        Inl e \<Rightarrow> (w, [], Inl e)
      | Inr (granted, marks) \<Rightarrow>
          (case mcp_server_new (registry marks) (gc_caveats granted) w of
             (st, grant) \<Rightarrow>
               (case mcp_run h ser meet mc writer grant fills st of
                  (st', r) \<Rightarrow> (ss_world st', ss_out st', r))))"

subsection \<open>Frames and lines\<close>

text \<open>Reading frames until the end of the input or an error.\<close>

function frames :: "nat \<Rightarrow> fill list \<Rightarrow> Frame list \<times> io_error option" where
  "frames cap fills =
     (case read_frame cap fills of
        (_, Inl e) \<Rightarrow> ([], Some e)
      | (fills', Inr frame) \<Rightarrow> if frame = FrameEof then ([], None) else apfst ((#) frame) (frames cap fills'))"
  by pat_completeness auto

termination frames
  by (relation "measure (\<lambda>(_, fills). unread fills)") (auto dest!: read_frame_unread [OF sym])

declare frames.simps [simp del]

text \<open>The reference: the lines of a byte string, where a last line needs no newline, each within the cap or not.\<close>

definition lines_of :: "string \<Rightarrow> string list" where
  "lines_of s = (let ls = split_char newline s in if last ls = [] then butlast ls else ls)"

definition classify_line :: "nat \<Rightarrow> string \<Rightarrow> Frame" where
  "classify_line cap l = (if length l \<le> cap then FrameLine l else FrameOversize)"

text \<open>What the loop state stands for after the content \<open>seen\<close> of a frame: never more than the cap is held.\<close>

definition frame_state :: "nat \<Rightarrow> string \<Rightarrow> string \<Rightarrow> bool \<Rightarrow> bool" where
  "frame_state cap seen buf oversize \<longleftrightarrow>
     (if oversize then buf = [] \<and> cap < length seen else buf = seen \<and> length seen \<le> cap)"

lemma frame_state_accumulate:
  "frame_state cap seen buf oversize \<Longrightarrow> frame_accumulate cap buf oversize chunk = (buf', oversize') \<Longrightarrow>
   frame_state cap (seen @ chunk) buf' oversize'"
  by (auto simp: frame_state_def frame_accumulate_def split: if_splits)

lemma frame_state_bounded: "frame_state cap seen buf oversize \<Longrightarrow> length buf \<le> cap"
  by (auto simp: frame_state_def split: if_splits)

lemma frame_state_newline:
  "frame_state cap seen buf oversize \<Longrightarrow> frame_at_newline cap buf oversize content = classify_line cap (seen @ content)"
  by (auto simp: frame_state_def frame_at_newline_def classify_line_def split: if_splits)

lemma frame_state_eof:
  "frame_state cap seen buf oversize \<Longrightarrow>
   frame_at_eof buf oversize = (if seen = [] then FrameEof else classify_line cap seen)"
  by (auto simp: frame_state_def frame_at_eof_def classify_line_def split: if_splits)

lemma read_last_frame:
  assumes "frame_state cap seen buf oversize" "[] \<notin> set chunks" "newline \<notin> set (concat chunks)"
  shows "read_frame_from cap buf oversize (map FillData chunks) =
    ([], Inr (if seen @ concat chunks = [] then FrameEof else classify_line cap (seen @ concat chunks)))"
  using assms
proof (induction chunks arbitrary: seen buf oversize)
  case Nil
  then show ?case by (simp add: frame_state_eof)
next
  case (Cons chunk chunks)
  obtain buf' oversize' where acc: "frame_accumulate cap buf oversize chunk = (buf', oversize')" by fastforce
  show ?case
    using Cons.IH [OF frame_state_accumulate [OF Cons.prems(1) acc]] Cons.prems(2,3) acc by auto
qed

lemma first_split: "a @ x # b = a' @ x # b' \<Longrightarrow> x \<notin> set a \<Longrightarrow> x \<notin> set a' \<Longrightarrow> a = a' \<and> b = b'"
proof (induction a arbitrary: a')
  case Nil
  then show ?case by (cases a') auto
next
  case (Cons y a)
  then show ?case by (cases a') auto
qed

lemma first_beyond: "chunk @ later = content @ x # rest \<Longrightarrow> x \<notin> set chunk \<Longrightarrow> \<exists>c. content = chunk @ c \<and> later = c @ x # rest"
  by (auto simp: append_eq_append_conv2 append_eq_Cons_conv)

lemma read_next_frame:
  assumes "frame_state cap seen buf oversize" "[] \<notin> set chunks"
    and "concat chunks = content @ newline # rest" "newline \<notin> set content"
  shows "\<exists>chunks'. read_frame_from cap buf oversize (map FillData chunks) =
      (map FillData chunks', Inr (classify_line cap (seen @ content))) \<and> concat chunks' = rest \<and> [] \<notin> set chunks'"
  using assms
proof (induction chunks arbitrary: seen buf oversize content)
  case (Cons chunk chunks)
  obtain buf' oversize' where acc: "frame_accumulate cap buf oversize chunk = (buf', oversize')" by fastforce
  show ?case
  proof (cases "newline \<in> set chunk")
    case True
    then obtain c b where cb: "chunk = c @ newline # b" "newline \<notin> set c" by (metis split_list_first)
    then have "c = content" "b @ concat chunks = rest"
      using first_split [of c newline "b @ concat chunks" content rest] Cons.prems(3,4) by simp_all
    moreover have "takeWhile (\<lambda>y. y \<noteq> newline) chunk = c" using cb by (auto simp: takeWhile_append)
    moreover have "consume (Suc (length c)) chunk (map FillData chunks) = map FillData (if b = [] then chunks else b # chunks)"
      using cb by (simp add: consume_def)
    ultimately show ?thesis
      using Cons.prems(1,2) True cb
      by (intro exI [of _ "if b = [] then chunks else b # chunks"]) (auto simp: Let_def frame_state_newline)
  next
    case False
    then obtain content' where "content = chunk @ content'" "concat chunks = content' @ newline # rest"
      using Cons.prems(3) first_beyond [of chunk "concat chunks" content newline rest] by auto
    then show ?thesis
      using Cons.IH [OF frame_state_accumulate [OF Cons.prems(1) acc], of content'] Cons.prems(2,4) acc False by auto
  qed
qed simp

lemma split_char_notin: "x \<notin> set s \<Longrightarrow> split_char x s = [s]"
  by (induction s) auto

lemma split_char_first: "x \<notin> set a \<Longrightarrow> split_char x (a @ x # b) = a # split_char x b"
  by (induction a) auto

lemma split_char_nonempty: "split_char x s \<noteq> []"
  by (cases s) (auto split: list.splits)

lemma lines_of_last: "newline \<notin> set s \<Longrightarrow> lines_of s = (if s = [] then [] else [s])"
  by (simp add: lines_of_def split_char_notin)

lemma lines_of_next: "newline \<notin> set a \<Longrightarrow> lines_of (a @ newline # b) = a # lines_of b"
  using split_char_nonempty [of newline b] by (auto simp: lines_of_def split_char_first Let_def)

lemma frame_state_start [simp]: "frame_state cap [] [] False"
  by (simp add: frame_state_def)

lemma classify_line_eof [simp]: "classify_line cap l \<noteq> FrameEof"
  by (simp add: classify_line_def)

lemma frames_of_chunks:
  assumes "[] \<notin> set chunks"
  shows "frames cap (map FillData chunks) = (map (classify_line cap) (lines_of (concat chunks)), None)"
  using assms
proof (induction "length (concat chunks)" arbitrary: chunks rule: less_induct)
  case less
  have stop: "frames cap [] = ([], None)" by (simp add: frames.simps read_frame_def frame_at_eof_def)
  show ?case
  proof (cases "newline \<in> set (concat chunks)")
    case True
    then obtain a b where ab: "concat chunks = a @ newline # b" "newline \<notin> set a" by (metis split_list_first)
    then obtain chunks' where next_frame: "read_frame cap (map FillData chunks) = (map FillData chunks', Inr (classify_line cap a))"
        "concat chunks' = b" "[] \<notin> set chunks'"
      using read_next_frame [OF frame_state_start less.prems, where cap = cap] by (auto simp: read_frame_def)
    then have "frames cap (map FillData chunks') = (map (classify_line cap) (lines_of b), None)"
      using less.hyps [of chunks'] ab by simp
    then show ?thesis
      using next_frame ab by (subst frames.simps) (simp add: lines_of_next del: split_paired_Ex)
  next
    case False
    then show ?thesis
      using read_last_frame [OF frame_state_start less.prems False, where cap = cap] stop
      by (subst frames.simps) (simp add: read_frame_def lines_of_last)
  qed
qed

text \<open>Which requests are answered, and under which id: the ids of the answers a list of frames gets, in order.\<close>

fun answered :: "mcp_codec \<Rightarrow> Frame list \<Rightarrow> json list" where
  "answered mc [] = []"
| "answered mc (FrameEof # fs) = []"
| "answered mc (FrameOversize # fs) = JNull # answered mc fs"
| "answered mc (FrameLine bytes # fs) =
     (if list_all is_ascii_blank bytes then answered mc fs
      else (case mc_from_slice mc bytes of
          Inl _ \<Rightarrow> JNull # answered mc fs
        | Inr request \<Rightarrow>
            if request_method request = ''exit'' then []
            else (case json_get request ''id'' of None \<Rightarrow> [] | Some rid \<Rightarrow> [rid]) @ answered mc fs))"

lemma response_ids [simp]:
  "json_get (success_response rid result) ''id'' = Some rid" "json_get (error_response rid code message) ''id'' = Some rid"
  by (simp_all add: success_response_def error_response_def json_get_def)

lemma mcp_dispatch_out: "mcp_dispatch h ser meet mc grant meth params st = (st', r) \<Longrightarrow> ss_out st' = ss_out st"
  by (cases "tools_call h ser meet mc grant params st")
    (auto simp: mcp_dispatch_def tools_call_def Let_def split: option.splits prod.splits if_splits)

definition healthy :: "mcp_codec \<Rightarrow> (nat \<Rightarrow> string option) \<Rightarrow> bool" where
  "healthy mc writer \<longleftrightarrow> (\<forall>v. is_ok (mc_to_string mc v)) \<and> (\<forall>n. writer n = None)"

lemma write_healthy:
  "healthy mc writer \<Longrightarrow> write_response mc writer response st = (st\<lparr>ss_out := ss_out st @ [response]\<rparr>, Continue)"
  by (auto simp: healthy_def write_response_def is_ok_def split: sum.splits)

definition ids_of :: "json list \<Rightarrow> json option list" where
  "ids_of out = map (\<lambda>r. json_get r ''id'') out"

lemma serve_request_ids:
  assumes "healthy mc writer"
  shows "case serve_request h ser meet mc writer grant request st of (st', v) \<Rightarrow>
    if request_method request = ''exit'' then v = Break \<and> st' = st
    else v = Continue \<and> ids_of (ss_out st') = ids_of (ss_out st) @
      (case json_get request ''id'' of None \<Rightarrow> [] | Some rid \<Rightarrow> [Some rid])"
  using assms
  by (auto simp: serve_request_def Let_def write_healthy ids_of_def dest!: mcp_dispatch_out split: prod.splits option.splits sum.splits)

lemma run_inner_answers:
  fixes st :: "'w session"
  assumes "healthy mc writer" "frames cap fills = (fs, None)"
  shows "\<exists>st'. run_inner h ser meet mc writer grant cap fills st = (st', Inr ()) \<and>
    ids_of (ss_out st') = ids_of (ss_out st) @ map Some (answered mc fs)"
  using assms
proof (induction cap fills arbitrary: fs st rule: frames.induct)
  case (1 cap fills)
  obtain fills' frame where rf: "read_frame cap fills = (fills', Inr frame)"
    using "1.prems"(2) by (subst (asm) frames.simps) (auto split: prod.splits sum.splits)
  show ?case
  proof (cases "frame = FrameEof")
    case True
    then have "fs = []" using "1.prems"(2) rf by (simp add: frames.simps)
    then show ?thesis using rf True by (subst run_inner.simps) (simp add: serve_frame_def)
  next
    case False
    then obtain fs' where fs: "frames cap fills' = (fs', None)" "fs = frame # fs'"
      using "1.prems"(2) rf by (subst (asm) frames.simps) (auto split: prod.splits simp: apfst_def map_prod_def)
    have IH: "\<exists>st''. run_inner h ser meet mc writer grant cap fills' st' = (st'', Inr ()) \<and>
        ids_of (ss_out st'') = ids_of (ss_out st') @ map Some (answered mc fs')" for st' :: "'w session"
      using "1.IH" [OF rf [symmetric] refl False] "1.prems"(1) fs(1) by blast
    obtain st' v where sv: "serve_frame h ser meet mc writer grant cap frame st = (st', v)" by fastforce
    have "(v = Break \<and> st' = st \<and> answered mc fs = []) \<or>
        (v = Continue \<and> ids_of (ss_out st') @ map Some (answered mc fs') = ids_of (ss_out st) @ map Some (answered mc fs))"
    proof (cases frame)
      case (FrameLine bytes)
      show ?thesis
      proof (cases "list_all is_ascii_blank bytes \<or> \<not> is_ok (mc_from_slice mc bytes)")
        case True
        then show ?thesis
          using FrameLine sv fs(2) "1.prems"(1)
          by (cases "mc_from_slice mc bytes") (auto simp: serve_frame_def write_healthy ids_of_def)
      next
        case nonblank: False
        then obtain request where request: "mc_from_slice mc bytes = Inr request" by (auto simp: is_ok_def split: sum.splits)
        then have "serve_request h ser meet mc writer grant request st = (st', v)"
          using FrameLine sv nonblank by (simp add: serve_frame_def)
        then show ?thesis
          using serve_request_ids [OF "1.prems"(1), where h = h and ser = ser and meet = meet and grant = grant and request = request and st = st] FrameLine fs(2) request nonblank
          by (auto split: if_splits option.splits)
      qed
    qed (use False sv fs(2) "1.prems"(1) in \<open>auto simp: serve_frame_def write_healthy ids_of_def\<close>)
    then show ?thesis using rf sv IH [of st'] by (subst run_inner.simps) auto
  qed
qed

subsection \<open>Properties of the session\<close>

text \<open>C33. The framing is exact and independent of how the input arrives: whatever the sizes of the reads, the frames
  are the lines of the byte stream, in order, a last line without a newline included; a line is delivered
  whole exactly when it is within the cap, and the next line is served after an oversized one.
\<close>

theorem frames_are_lines:
  assumes "[] \<notin> set chunks"
  shows "frames cap (map FillData chunks) = (map (classify_line cap) (lines_of (concat chunks)), None)"
  using assms by (rule frames_of_chunks)

text \<open>Every request gets its answer: on a working output a session over any input ends without an error, and its
  responses carry, in order, the ids of the requests up to the first \<^verbatim>\<open>exit\<close> -- none for a blank line or a
  request without an id, and the null id for an oversized line and for one that is not JSON.
\<close>

theorem session_answers_requests:
  assumes "[] \<notin> set chunks" "\<And>v. is_ok (mc_to_string mc v)" "\<And>n. writer n = None"
  shows "\<exists>st'. mcp_run h ser meet mc writer grant (map FillData chunks) st = (st', Inr ()) \<and>
    ids_of (ss_out st') = ids_of (ss_out st) @
      map Some (answered mc (map (classify_line MAX_LINE_BYTES) (lines_of (concat chunks))))"
  unfolding mcp_run_def using assms by (intro run_inner_answers frames_of_chunks) (simp_all add: healthy_def)

subsection \<open>What a session can do to the world\<close>

text \<open>
  The interface between the server and the registry: a property of the budget cells and the world that every
  dispatch on the session's grant keeps. Whatever the client sends, the session keeps it.
\<close>

locale session_dispatch =
  fixes h :: hash
    and ser :: serializer
    and meet :: meet_op
    and grant :: Grant
    and tools :: "(string \<times> 'w DynTool) list"
    and kept :: "budget_cell list \<Rightarrow> 'w \<Rightarrow> bool"
  assumes dispatch_keeps: "dispatch h ser meet reg cells w name args grant = (reg', cells', w', r) \<Longrightarrow>
    reg_tools reg = tools \<Longrightarrow> kept cells w \<Longrightarrow> kept cells' w' \<and> reg_tools reg' = tools"
begin

definition session_ok :: "'w session \<Rightarrow> bool" where
  "session_ok st \<longleftrightarrow> reg_tools (ss_registry st) = tools \<and> kept (ss_cells st) (ss_world st)"

lemma write_response_ok: "write_response mc writer response st = (st', v) \<Longrightarrow> session_ok st \<Longrightarrow> session_ok st'"
  by (auto simp: write_response_def session_ok_def split: sum.splits option.splits)

lemma mcp_dispatch_ok:
  assumes "mcp_dispatch h ser meet mc grant meth params st = (st', r)" "session_ok st"
  shows "session_ok st'"
  using assms dispatch_keeps [where reg = "ss_registry st" and cells = "ss_cells st" and w = "ss_world st"]
  by (cases "tools_call h ser meet mc grant params st")
    (fastforce simp: mcp_dispatch_def tools_call_def session_ok_def Let_def split: option.splits prod.splits if_splits)

lemma serve_frame_ok:
  assumes "serve_frame h ser meet mc writer grant cap frame st = (st', v)" "session_ok st"
  shows "session_ok st'"
  using assms
  by (auto simp: serve_frame_def serve_request_def Let_def
      split: Frame.splits if_splits sum.splits prod.splits option.splits dest: mcp_dispatch_ok write_response_ok)

lemma run_inner_ok:
  assumes "session_ok st"
  shows "session_ok (fst (run_inner h ser meet mc writer grant cap fills st))"
  using assms
proof (induction "unread fills" arbitrary: fills st rule: less_induct)
  case less
  obtain fills' res where rf: "read_frame cap fills = (fills', res)" by fastforce
  show ?case
  proof (cases res)
    case (Inr frame)
    obtain st' v where sv: "serve_frame h ser meet mc writer grant cap frame st = (st', v)" by fastforce
    then have "session_ok st'" using serve_frame_ok less.prems by blast
    moreover have "unread fills' < unread fills" if "v = Continue"
      using read_frame_unread [of cap fills fills' frame] rf Inr sv serve_frame_eof that by blast
    ultimately show ?thesis
      using less.hyps [of fills' st'] rf Inr sv by (subst run_inner.simps) (simp split: verdict.splits)
  qed (use less.prems rf in \<open>subst run_inner.simps, simp\<close>)
qed

lemma server_run_keeps:
  assumes "mcp_server_new registry granted w = (st, grant)" "reg_tools registry = tools"
    and "kept [grant_budget_new (cav_max_calls granted)] w"
    and "mcp_run h ser meet mc writer grant fills st = (st', r)"
  shows "kept (ss_cells st') (ss_world st')"
  using run_inner_ok [of st mc writer MAX_LINE_BYTES fills] assms
  by (auto simp: mcp_server_new_def mint_grant_def mcp_run_def session_ok_def)

end

text \<open>It is enough that every tool keeps the property when it runs in a context of the grant.\<close>

lemma authorize_grant_tools:
  "authorize_grant h ser meet reg tool caveats name floor = (reg', r) \<Longrightarrow> reg_tools reg' = reg_tools reg"
  by (auto simp: authorize_grant_def Let_def split: option.splits prod.splits sum.splits)

lemma authorize_grant_effective:
  assumes "authorize_grant h ser meet reg tool caveats name floor = (reg', Inr cx)"
  shows "effective cx = meet caveats (tool_required tool)"
  using assms
  by (auto simp: authorize_grant_def Let_def authorize_step_up_def authorize_with_discharge_def authorize_def mint_for_def
      mint_def split: option.splits prod.splits sum.splits if_splits)

locale session_tools =
  fixes h :: hash
    and ser :: serializer
    and meet :: meet_op
    and grant :: Grant
    and tools :: "(string \<times> 'w DynTool) list"
    and within :: "'w \<Rightarrow> bool"
  assumes invoke_keeps: "(name, tool) \<in> set tools \<Longrightarrow> effective cx = meet (grant_caveats grant) (tool_required tool) \<Longrightarrow>
    within w \<Longrightarrow> within (fst (tool_invoke_accounted tool args cx w))"
begin

lemma tools_dispatch_keeps:
  assumes "dispatch h ser meet reg cells w name args grant = (reg', cells', w', r)" "reg_tools reg = tools" "within w"
  shows "within w' \<and> reg_tools reg' = tools"
proof -
  have "within (fst (tool_invoke_accounted tool args cx w))"
    if "map_of tools name = Some tool"
      "authorize_grant h ser meet reg tool (grant_caveats grant) name FLOOR_DEFAULT = (reg1, Inr cx)" for tool reg1 cx
    using invoke_keeps [OF map_of_SomeD] authorize_grant_effective that assms(3) by blast
  then show ?thesis
    using assms authorize_grant_tools
    by (fastforce simp: dispatch_def dispatch_axis_def Let_def split: option.splits prod.splits sum.splits)
qed

end

sublocale session_tools \<subseteq> dispatching: session_dispatch h ser meet grant tools "\<lambda>_. within"
  by unfold_locales (use tools_dispatch_keeps in blast)

subsection \<open>No grant, no effect\<close>

definition empty_grant :: Grant where
  "empty_grant = \<lparr>grant_caveats = deny_all, grant_budget = 0\<rparr>"

lemma dispatch_empty:
  "dispatch h ser meet reg [Some 0] w name args empty_grant = (reg', cells', w', r) \<Longrightarrow>
   reg' = reg \<and> cells' = [Some 0] \<and> w' = w \<and> (\<exists>e. r = Inl e)"
  by (auto simp: dispatch_def dispatch_axis_def empty_grant_def grant_charge_def Let_def split: option.splits)

interpretation starved: session_dispatch h ser meet empty_grant tools "\<lambda>cells w. cells = [Some 0] \<and> w = w0"
  for h ser meet tools w0
  by unfold_locales (auto dest: dispatch_empty)

lemma deny_all_session:
  assumes "mcp_server_new registry deny_all w = (st, grant)" "mcp_run h ser meet mc writer grant fills st = (st', r)"
  shows "ss_world st' = w"
proof -
  have "grant = empty_grant" using assms(1) by (auto simp: mcp_server_new_def mint_grant_def empty_grant_def)
  then show ?thesis
    using starved.server_run_keeps [of registry deny_all w st, OF _ refl] assms
    by (simp add: deny_all_def grant_budget_new_def)
qed

text \<open>Fail closed, end to end: when no grant is configured -- the variable is not readable and there is no
  configuration file -- the process starts, and whatever registry it serves and whatever its client sends, no
  tool ever runs. Neither the unbridle keys nor the autonomy key change this.
\<close>

theorem no_grant_no_effect:
  assumes "var_ok (go_var os ENV_CAVEATS) = None"
    and "\<And>home. go_home os = Some home \<Longrightarrow> \<not> go_is_file os (path_join (path_join home ''.agent-bridle'') ''config.toml'')"
  shows "fst (async_main h ser meet mc os registry writer fills w) = w"
proof -
  have "granted_resolve os (var_ok (go_var os ENV_CAVEATS)) (go_home os) = Inr \<lparr>gc_caveats = deny_all, gc_source = FailClosedDefault\<rparr>"
    using assms by (cases "go_home os") (simp_all add: granted_resolve_def)
  then obtain g where g: "granted_load os = Inr g" "gc_caveats g = deny_all"
    by (auto simp: granted_load_def apply_unbridle_def Let_def)
  obtain marks where start: "async_main_start os fresh_marks = Inr (g, marks)"
    using g(1) by (auto simp: async_main_start_def)
  obtain st grant where new: "mcp_server_new (registry marks) deny_all w = (st, grant)" by fastforce
  obtain st' r where run: "mcp_run h ser meet mc writer grant fills st = (st', r)" by fastforce
  show ?thesis
    using deny_all_session [OF new run] by (simp add: async_main_def start g(2) new run)
qed

subsection \<open>The unbridle keys\<close>

lemma marks_simps [simp]:
  "is_unbridled fresh_marks = False" "human_gate fresh_marks = GatePasskey"
  "is_unbridled (set_human_gate gate marks) = is_unbridled marks"
  "is_unbridled (set_unbridled fresh_marks) = True"
  "human_gate (set_human_gate gate (set_unbridled fresh_marks)) = gate"
  by (simp_all add: is_unbridled_def human_gate_def fresh_marks_def set_human_gate_def set_unbridled_def once_set_def)

definition mode_unbridles :: "grant_os \<Rightarrow> bool" where
  "mode_unbridles os \<longleftrightarrow> (\<exists>m. go_var os ENV_MODE = VarSet m \<and> to_ascii_lowercase (trim m) = ''unbridle'')"

lemma var_ok_Some [simp]: "var_ok v = Some s \<longleftrightarrow> v = VarSet s"
  by (cases v) (simp_all add: var_ok_def)

text \<open>C17. The escape hatch needs its keys and gives no authority. A process that starts runs unbridled exactly when
  the mode asks for it and the acknowledgement is the exact token; the human gate is removed exactly when the
  second token is there as well; and the grant it serves is the configured one unchanged, or the empty one --
  the latter whenever the mode is set without its acknowledgement, and whenever the second token is set on a
  run that is not unbridled.
\<close>

theorem unbridle_needs_its_keys:
  assumes "async_main_start os fresh_marks = Inr (g, marks)"
  shows "(is_unbridled marks \<longleftrightarrow> mode_unbridles os \<and> go_var os ENV_UNBRIDLE_ACK = VarSet UNBRIDLE_ACK_TOKEN) \<and>
    (human_gate marks = GateNone \<longleftrightarrow> is_unbridled marks \<and> go_var os ENV_NO_STEPUP_ACK = VarSet NO_STEPUP_TOKEN) \<and>
    (\<exists>base. granted_resolve os (var_ok (go_var os ENV_CAVEATS)) (go_home os) = Inr base \<and>
       gc_caveats g = (if is_unbridled marks \<or> \<not> mode_unbridles os \<and>
           (\<forall>s. go_var os ENV_NO_STEPUP_ACK = VarSet s \<longrightarrow> trim s = []) then gc_caveats base else deny_all))"
proof -
  from assms obtain base where base: "granted_resolve os (var_ok (go_var os ENV_CAVEATS)) (go_home os) = Inr base"
    and g: "g = apply_unbridle base (var_ok (go_var os ENV_MODE)) (var_ok (go_var os ENV_UNBRIDLE_ACK))
                 (var_ok (go_var os ENV_NO_STEPUP_ACK))"
    and marks: "marks = (if grant_is_unbridled g
            then set_human_gate (if grant_is_autonomous g then GateNone else GatePasskey) (set_unbridled fresh_marks) else fresh_marks)"
    by (auto simp: async_main_start_def granted_load_def split: sum.splits)
  have base_source: "\<not> grant_is_unbridled base"
    using base by (auto simp: granted_resolve_def grant_is_unbridled_def Let_def map_sum_Inr split: option.splits sum.splits if_splits)
  have mode: "map_option (\<lambda>m. to_ascii_lowercase (trim m)) (var_ok (go_var os ENV_MODE)) = Some ''unbridle'' \<longleftrightarrow> mode_unbridles os"
    by (auto simp: mode_unbridles_def)
  have stepup: "(case var_ok (go_var os ENV_NO_STEPUP_ACK) of None \<Rightarrow> False | Some s \<Rightarrow> trim s \<noteq> []) \<longleftrightarrow>
      \<not> (\<forall>s. go_var os ENV_NO_STEPUP_ACK = VarSet s \<longrightarrow> trim s = [])"
    by (auto simp: var_ok_def split: var_result.splits)
  have unbridled: "is_unbridled marks \<longleftrightarrow> grant_is_unbridled g" using marks by simp
  have acked: "grant_is_unbridled g \<longleftrightarrow> mode_unbridles os \<and> go_var os ENV_UNBRIDLE_ACK = VarSet UNBRIDLE_ACK_TOKEN"
    unfolding g apply_unbridle_def Let_def mode stepup using base_source by (simp add: grant_is_unbridled_def)
  have gate: "human_gate marks = GateNone \<longleftrightarrow> grant_is_unbridled g \<and> go_var os ENV_NO_STEPUP_ACK = VarSet NO_STEPUP_TOKEN"
  proof (cases "grant_is_unbridled g")
    case True
    then have "grant_is_autonomous g \<longleftrightarrow> go_var os ENV_NO_STEPUP_ACK = VarSet NO_STEPUP_TOKEN"
      using acked unfolding g apply_unbridle_def Let_def mode stepup by (simp add: grant_is_autonomous_def)
    then show ?thesis using True marks by simp
  qed (use marks in simp)
  have "gc_caveats g = (if grant_is_unbridled g \<or> \<not> mode_unbridles os \<and>
      (\<forall>s. go_var os ENV_NO_STEPUP_ACK = VarSet s \<longrightarrow> trim s = []) then gc_caveats base else deny_all)"
    unfolding g apply_unbridle_def Let_def mode stepup using base_source by (auto simp: grant_is_unbridled_def)
  then show ?thesis using base unbridled acked gate by auto
qed

subsection \<open>A session over the shell tool\<close>

text \<open>
  The safe-subset shell as a tool of the registry. Its declared authority is the trait's default. A panic would
  unwind the process; with a non-zero timeout ceiling there is none, and here it is an error of the call.
\<close>

definition shell_dyn ::
  "codec \<Rightarrow> 'file platform \<Rightarrow> ('file effect list \<Rightarrow> 'file spawner_os) \<Rightarrow> 'file effect list ShellTool \<Rightarrow>
   ('file effect list \<Rightarrow> bool) \<Rightarrow> json \<Rightarrow> 'file effect list DynTool" where
  "shell_dyn cc pf so t elapsed schema =
     \<lparr>tool_name = ''shell'', tool_required = caveats_top, tool_schema = schema,
       tool_invoke_accounted = (\<lambda>args cx w.
         case invoke_accounted cc pf (t\<lparr>sh_spawner := os_spawner pf so\<rparr>) args cx (elapsed w) w of
           (w', ShellAnswers r) \<Rightarrow> (w', r)
         | (w', ShellPanics m) \<Rightarrow> (w', Inl (Other m)))\<rparr>"

text \<open>The facade's registry in the build with the safe-subset shell alone; its tools read the process markers.\<close>

definition facade_registry ::
  "codec \<Rightarrow> 'file platform \<Rightarrow> ('file effect list \<Rightarrow> 'file spawner_os) \<Rightarrow> 'file effect list ShellTool \<Rightarrow>
   ('file effect list \<Rightarrow> bool) \<Rightarrow> json \<Rightarrow> process_marks \<Rightarrow> 'file effect list Registry" where
  "facade_registry cc pf so t elapsed schema marks =
     builder_build (builder_tool (shell_dyn cc (pf\<lparr>pf_marks := marks\<rparr>) so t elapsed schema) registry_builder)"

definition session_context :: "meet_op \<Rightarrow> Caveats \<Rightarrow> ToolContext" where
  "session_context meet granted = mint (meet granted caveats_top) NoSandbox FLOOR_DEFAULT"

lemma log_granted_effective:
  "effective cx = effective cx' \<Longrightarrow> log_granted pf t cx so l = log_granted pf t cx' so l"
  by (simp add: log_granted_def child_granted_def open_granted_def check_path_read_def check_path_write_def)

lemma shell_dyn_granted:
  assumes "effective cx = meet (grant_caveats grant) (tool_required (shell_dyn cc pf so t elapsed schema))"
    and "log_granted pf t (session_context meet (grant_caveats grant)) so w"
  shows "log_granted pf t (session_context meet (grant_caveats grant)) so
    (fst (tool_invoke_accounted (shell_dyn cc pf so t elapsed schema) args cx w))"
proof -
  obtain log answer where i: "invoke_accounted cc pf (t\<lparr>sh_spawner := os_spawner pf so\<rparr>) args cx (elapsed w) w = (log, answer)"
    by fastforce
  then obtain l where "log = w @ l" "log_granted pf t cx so l" using invoke_log_granted by blast
  moreover have "effective cx = effective (session_context meet (grant_caveats grant))"
    using assms(1) by (simp add: shell_dyn_def session_context_def mint_def)
  ultimately have "log_granted pf t (session_context meet (grant_caveats grant)) so log"
    using assms(2) log_granted_append log_granted_effective by blast
  then show ?thesis using i by (simp add: shell_dyn_def split: shell_answer.splits)
qed

interpretation shell_session: session_tools h ser meet grant "[(''shell'', shell_dyn cc pf so t elapsed schema)]"
    "log_granted pf t (session_context meet (grant_caveats grant)) so"
  for h ser meet grant cc pf so t elapsed schema
  by unfold_locales (auto intro!: shell_dyn_granted)

lemma facade_tools:
  "reg_tools (facade_registry cc pf so t elapsed schema marks) = [(''shell'', shell_dyn cc (pf\<lparr>pf_marks := marks\<rparr>) so t elapsed schema)]"
  by (simp add: facade_registry_def builder_build_def builder_tool_def registry_builder_def shell_dyn_def)

lemma shell_session_log:
  assumes "async_main_start os fresh_marks = Inr (g, marks)"
    and "async_main h ser meet mc os (facade_registry cc pf so t elapsed schema) writer fills [] = (log, out, r)"
  shows "log_granted (pf\<lparr>pf_marks := marks\<rparr>) t (session_context meet (gc_caveats g)) so log"
proof -
  let ?reg = "facade_registry cc pf so t elapsed schema marks"
  obtain st grant where new: "mcp_server_new ?reg (gc_caveats g) [] = (st, grant)" by fastforce
  obtain st' r' where run: "mcp_run h ser meet mc writer grant fills st = (st', r')" by fastforce
  have "grant_caveats grant = gc_caveats g" using new by (auto simp: mcp_server_new_def mint_grant_def)
  then have "log_granted (pf\<lparr>pf_marks := marks\<rparr>) t (session_context meet (gc_caveats g)) so (ss_world st')"
    using shell_session.dispatching.server_run_keeps [OF new facade_tools _ run] by (simp add: log_granted_def)
  moreover have "log = ss_world st'" using assms new run by (simp add: async_main_def)
  ultimately show ?thesis by simp
qed

text \<open>C7. Least authority from the wire to the process: over a whole session, whatever bytes the client sends, every
  child that is spawned runs a program of the configured exec scope in a directory of the configured read
  scope, and every file opened for a redirect lies in the configured scope of its direction. The children
  are also confined and given their environment as the session's context says, with the markers the process
  set at its start.
\<close>

theorem session_children_are_granted:
  assumes "meet_intersects meet" "async_main_start os fresh_marks = Inr (g, marks)"
    and "async_main h ser meet mc os (facade_registry cc pf so t elapsed schema) writer fills [] = (log, out, r)"
  shows "(\<forall>spec. ESpawn spec \<in> set log \<longrightarrow>
      (\<exists>wrap program args. cs_argv spec = wrap @ program # args \<and> exec_scope_allows (cav_exec (gc_caveats g)) program) \<and>
      (\<forall>dir. cs_cwd spec = Some dir \<longrightarrow> check_path_read (pf_fs pf) (mint (gc_caveats g) NoSandbox FLOOR_DEFAULT) dir = Inr ())) \<and>
    (\<forall>wr path. EOpen wr path \<in> set log \<longrightarrow> open_granted pf (mint (gc_caveats g) NoSandbox FLOOR_DEFAULT) wr path) \<and>
    log_granted (pf\<lparr>pf_marks := marks\<rparr>) t (session_context meet (gc_caveats g)) so log"
proof -
  let ?cx = "session_context meet (gc_caveats g)" and ?grant = "mint (gc_caveats g) NoSandbox FLOOR_DEFAULT"
  have le: "caveats_le (effective ?cx) (effective ?grant)"
    using meet_le [OF assms(1), of "gc_caveats g" caveats_top] by (simp add: session_context_def mint_def)
  have exec: "exec_scope_allows (cav_exec (gc_caveats g)) p" if "exec_scope_allows (cav_exec (effective ?cx)) p" for p
    using checks_le(1) [OF le, of p] that by (simp add: check_exec_ok mint_def)
  have opens: "open_granted pf ?grant wr path" if "open_granted (pf\<lparr>pf_marks := marks\<rparr>) ?cx wr path" for wr path
    using that checks_le(3,4) [OF le] by (auto simp: open_granted_def split: if_splits)
  have child: "(\<exists>wrap program args. cs_argv spec = wrap @ program # args \<and> exec_scope_allows (cav_exec (gc_caveats g)) program) \<and>
      (\<forall>dir. cs_cwd spec = Some dir \<longrightarrow> check_path_read (pf_fs pf) ?grant dir = Inr ())"
    if "child_granted (pf\<lparr>pf_marks := marks\<rparr>) t ?cx so spec" for spec
  proof -
    from that have "\<exists>wrap program args. cs_argv spec = wrap @ program # args \<and> exec_scope_allows (cav_exec (effective ?cx)) program"
      and "\<forall>dir. cs_cwd spec = Some dir \<longrightarrow> check_path_read (pf_fs pf) ?cx dir = Inr ()"
      unfolding child_granted_def by (blast, simp)
    then show ?thesis using exec checks_le(3) [OF le] by blast
  qed
  have log: "log_granted (pf\<lparr>pf_marks := marks\<rparr>) t ?cx so log" by (rule shell_session_log [OF assms(2,3)])
  then show ?thesis unfolding log_granted_def using opens child by blast
qed

subsection \<open>Witnesses\<close>

definition demo_request :: "string \<Rightarrow> (string \<times> json) list \<Rightarrow> json" where
  "demo_request meth rest = JObject ([(''jsonrpc'', JString ''2.0''), (''method'', JString meth)] @ rest)"

definition demo_mc :: mcp_codec where
  "demo_mc = \<lparr>mc_from_slice = (\<lambda>s.
       if s = ''ls'' then Inr (demo_request ''tools/call'' [(''id'', JNumber ''1''),
         (''params'', JObject [(''name'', JString ''shell''), (''arguments'', cmd_args ''ls'')])])
       else if s = ''note'' then Inr (demo_request ''initialized'' [])
       else if s = ''quit'' then Inr (demo_request ''exit'' [])
       else Inl ''expected value''),
     mc_to_string = Inr \<circ> (\<lambda>_. []), mc_display = (\<lambda>_. []), mc_render = (\<lambda>r. case r of Fmt f _ \<Rightarrow> f), mc_version = ''0.8''\<rparr>"

definition demo_os :: grant_os where
  "demo_os = \<lparr>go_var = (\<lambda>n. if n = ENV_CAVEATS then VarSet ''ls'' else if n = ENV_MODE then VarSet '' Unbridle''
       else if n = ENV_UNBRIDLE_ACK then VarSet UNBRIDLE_ACK_TOKEN else VarNotPresent),
     go_home = None, go_caveats_json = (\<lambda>s. Inr (caveats_top\<lparr>cav_exec := ScopeOnly [s]\<rparr>)), go_is_file = (\<lambda>_. False),
     go_read_to_string = Inr, go_caveats_toml = (\<lambda>_. Inr None)\<rparr>"

definition bare_os :: grant_os where
  "bare_os = demo_os\<lparr>go_var := (\<lambda>n. if n = ENV_CAVEATS then VarNotUnicode else go_var demo_os n)\<rparr>"

theorem frames_are_lines_witness:
  "frames 2 (map FillData [''ab'', ''c'' @ [newline], ''d'']) = ([FrameOversize, FrameLine ''d''], None)"
proof -
  have "map (classify_line 2) (lines_of (concat [''ab'', ''c'' @ [newline], ''d''])) = [FrameOversize, FrameLine ''d'']"
    by code_simp
  with frames_are_lines [of "[''ab'', ''c'' @ [newline], ''d'']" 2] show ?thesis by simp
qed

theorem session_answers_requests_witness:
  "\<exists>st'. mcp_run toy_hash toy_ser inter_meet demo_mc (\<lambda>_. None) empty_grant
      (map FillData [''no'', ''te'' @ [newline] @ ''ls'', [newline] @ ''?'' @ [newline] @ ''quit'' @ [newline] @ ''ls''])
      \<lparr>ss_registry = echo_registry, ss_cells = [Some 0], ss_world = 0, ss_out = []\<rparr> = (st', Inr ()) \<and>
     ids_of (ss_out st') = [Some (JNumber ''1''), Some JNull]"
proof -
  let ?chunks = "[''no'', ''te'' @ [newline] @ ''ls'', [newline] @ ''?'' @ [newline] @ ''quit'' @ [newline] @ ''ls'']"
  have "lines_of (concat ?chunks) = [''note'', ''ls'', ''?'', ''quit'', ''ls'']" by code_simp
  moreover have "map (classify_line MAX_LINE_BYTES) [''note'', ''ls'', ''?'', ''quit'', ''ls''] =
      map FrameLine [''note'', ''ls'', ''?'', ''quit'', ''ls'']"
    by (simp add: classify_line_def MAX_LINE_BYTES_def)
  moreover have "answered demo_mc (map FrameLine [''note'', ''ls'', ''?'', ''quit'', ''ls'']) = [JNumber ''1'', JNull]"
    by code_simp
  ultimately show ?thesis
    using session_answers_requests [of ?chunks demo_mc "\<lambda>_. None" toy_hash toy_ser inter_meet empty_grant
        "\<lparr>ss_registry = echo_registry, ss_cells = [Some 0], ss_world = 0, ss_out = []\<rparr>"]
    by (simp add: demo_mc_def is_ok_def ids_of_def)
qed

theorem no_grant_no_effect_witness:
  "fst (async_main toy_hash toy_ser inter_meet demo_mc bare_os (\<lambda>_. echo_registry) (\<lambda>_. None) [FillData ''ls''] 0) = 0"
  by (rule no_grant_no_effect) (simp_all add: bare_os_def demo_os_def var_ok_def ENV_CAVEATS_def)

theorem unbridle_needs_its_keys_witness:
  "\<exists>g marks. async_main_start demo_os fresh_marks = Inr (g, marks) \<and> is_unbridled marks \<and> human_gate marks \<noteq> GateNone \<and>
     cav_exec (gc_caveats g) = ScopeOnly [''ls'']"
proof -
  have "case async_main_start demo_os fresh_marks of Inr (g, marks) \<Rightarrow> cav_exec (gc_caveats g) = ScopeOnly [''ls''] | _ \<Rightarrow> False"
    and keys: "mode_unbridles demo_os" "go_var demo_os ENV_UNBRIDLE_ACK = VarSet UNBRIDLE_ACK_TOKEN"
      "go_var demo_os ENV_NO_STEPUP_ACK = VarNotPresent"
    unfolding mode_unbridles_def by (code_simp, (rule exI [of _ "'' Unbridle''"], code_simp), code_simp, code_simp)
  then obtain g marks where start: "async_main_start demo_os fresh_marks = Inr (g, marks)"
      "cav_exec (gc_caveats g) = ScopeOnly [''ls'']"
    by (auto split: sum.splits prod.splits)
  with unbridle_needs_its_keys [OF start(1)] keys show ?thesis by simp
qed

abbreviation demo_facade :: "process_marks \<Rightarrow> unit effect list Registry" where
  "demo_facade \<equiv> facade_registry demo_codec demo_platform (\<lambda>_. demo_so) demo_shell (\<lambda>_. False) JNull"

abbreviation demo_serve :: "Grant \<Rightarrow> Frame \<Rightarrow> unit effect list session \<Rightarrow> unit effect list session \<times> verdict" where
  "demo_serve grant \<equiv> serve_frame toy_hash toy_ser inter_meet demo_mc (\<lambda>_. None) grant 0"

lemma demo_served:
  "case async_main_start demo_os fresh_marks of Inl _ \<Rightarrow> False | Inr (g, marks) \<Rightarrow>
     (case mcp_server_new (demo_facade marks) (gc_caveats g) [] of (st, grant) \<Rightarrow>
        (case demo_serve grant (FrameLine ''ls'') st of (st', v) \<Rightarrow> spawned (ss_world st') = 1 \<and> v = Continue))"
  by code_simp

lemma demo_session:
  assumes start: "async_main_start demo_os fresh_marks = Inr (g, marks)"
  shows "spawned (fst (async_main toy_hash toy_ser inter_meet demo_mc demo_os demo_facade (\<lambda>_. None) [FillData ''ls''] [])) = 1"
proof -
  obtain st grant where new: "mcp_server_new (demo_facade marks) (gc_caveats g) [] = (st, grant)" by fastforce
  obtain st' where served: "demo_serve grant (FrameLine ''ls'') st = (st', Continue)" "spawned (ss_world st') = 1"
    using demo_served start new by (auto split: prod.splits)
  have cap: "serve_frame h ser meet mc writer gr cap (FrameLine bytes) s = serve_frame h ser meet mc writer gr 0 (FrameLine bytes) s"
    for h ser meet mc writer gr cap bytes and s :: "unit effect list session" by (simp add: serve_frame_def)
  have "read_frame MAX_LINE_BYTES [FillData ''ls''] = ([], Inr (FrameLine ''ls''))" "read_frame MAX_LINE_BYTES [] = ([], Inr FrameEof)"
    by (simp_all add: read_frame_def newline_def frame_accumulate_def frame_at_eof_def MAX_LINE_BYTES_def)
  then have "fst (mcp_run toy_hash toy_ser inter_meet demo_mc (\<lambda>_. None) grant [FillData ''ls''] st) = st'"
    unfolding mcp_run_def using served(1) cap [of toy_hash toy_ser inter_meet demo_mc "\<lambda>_. None" grant MAX_LINE_BYTES]
    by (subst run_inner.simps, simp, subst run_inner.simps, simp add: serve_frame_def)
  then show ?thesis using start new served(2) by (auto simp: async_main_def split: prod.splits)
qed

theorem session_children_are_granted_witness:
  "\<exists>log out r g. async_main toy_hash toy_ser inter_meet demo_mc demo_os demo_facade (\<lambda>_. None) [FillData ''ls''] [] = (log, out, r) \<and>
     spawned log = 1 \<and> (\<forall>spec. ESpawn spec \<in> set log \<longrightarrow>
       (\<exists>wrap program args. cs_argv spec = wrap @ program # args \<and> exec_scope_allows (cav_exec (gc_caveats (g :: GrantedCaveats))) program))"
proof -
  obtain g marks where start: "async_main_start demo_os fresh_marks = Inr (g, marks)"
    using demo_served by (auto split: sum.splits)
  obtain log out r where run: "async_main toy_hash toy_ser inter_meet demo_mc demo_os demo_facade (\<lambda>_. None) [FillData ''ls''] [] = (log, out, r)"
    by (metis prod_cases3)
  have "spawned log = 1" using demo_session [OF start] run by simp
  then show ?thesis using run session_children_are_granted [OF meet_intersects_inter_meet start run] by blast
qed

text \<open>A grant variable that is set but not valid Unicode is treated like an absent one: with a configuration file
  the broader grant of the file is served, and no error is reported.
\<close>

lemma unreadable_grant_falls_through:
  assumes "go_var os ENV_CAVEATS = VarNotUnicode" "go_home os = Some home"
    and "path = path_join (path_join home ''.agent-bridle'') ''config.toml''" "go_is_file os path"
    and "load_from_config os path = Inr c" "go_var os ENV_MODE = VarNotPresent" "go_var os ENV_NO_STEPUP_ACK = VarNotPresent"
  shows "granted_load os = Inr \<lparr>gc_caveats = c, gc_source = ConfigFile path\<rparr>"
  using assms by (simp add: granted_load_def granted_resolve_def apply_unbridle_def var_ok_def Let_def)

end
