(* ===== verification/Seatbelt_Profile.thy ===== *)
theory Seatbelt_Profile
  imports Admitted_Fence Bridle_Config
begin

text \<open>
  The macOS backend (\<^verbatim>\<open>seatbelt_impl\<close> in \<^verbatim>\<open>agent-bridle-core/src/sandbox.rs\<close>): the profile text generated for a
  set of caveats, the command prefix that wraps a child, and the projection of the network axis. What the
  file system answers is a record; the conversion of a path to text is the lossy one of the standard library.
\<close>

subsection \<open>Paths\<close>

record seatbelt_os =
  sb_canonicalize :: "path \<Rightarrow> path option"
  sb_is_file :: "path \<Rightarrow> bool"
  sb_is_socket :: "path \<Rightarrow> bool"
  sb_wrapper_exists :: bool
  sb_caller_is_root :: bool

definition lossy_text :: "path \<Rightarrow> string" where
  "lossy_text p = from_utf8_lossy (render_path p)"

function canonical_up :: "seatbelt_os \<Rightarrow> path \<Rightarrow> string list \<Rightarrow> string option" where
  "canonical_up os cur tail =
     (case path_parent cur of
        None \<Rightarrow> None
      | Some parent \<Rightarrow>
          (let tail' = (case path_file_name cur of Some name \<Rightarrow> tail @ [name] | None \<Rightarrow> tail)
           in case sb_canonicalize os parent of
                Some c \<Rightarrow> Some (lossy_text (c @ map Normal (rev tail')))
              | None \<Rightarrow> canonical_up os parent tail'))"
  by pat_completeness auto

termination canonical_up
  by (relation "measure (\<lambda>(_, cur, _). length cur)") (auto simp: path_parent_def split: if_splits)

definition seatbelt_canonical_path :: "seatbelt_os \<Rightarrow> string \<Rightarrow> string option" where
  "seatbelt_canonical_path os p =
     (case sb_canonicalize os (components p) of
        Some c \<Rightarrow> Some (lossy_text c)
      | None \<Rightarrow> canonical_up os (components p) [])"

definition confined_roots :: "seatbelt_os \<Rightarrow> string Scope \<Rightarrow> string list" where
  "confined_roots os scope =
     (case scope of ScopeAll \<Rightarrow> [] | ScopeOnly s \<Rightarrow> remdups_adj (sort (List.map_filter (seatbelt_canonical_path os) s)))"

definition TRUSTED_EXEC_DIRS :: "string list" where
  "TRUSTED_EXEC_DIRS = [''/usr/bin'', ''/bin'', ''/usr/sbin'', ''/sbin'']"

definition canon_file :: "seatbelt_os \<Rightarrow> path \<Rightarrow> string list" where
  "canon_file os p =
     (case sb_canonicalize os p of None \<Rightarrow> [] | Some c \<Rightarrow> if sb_is_file os c then [lossy_text c] else [])"

definition exec_target :: "seatbelt_os \<Rightarrow> string \<Rightarrow> string list" where
  "exec_target os token =
     (if token \<noteq> [] \<and> hd token = CHR ''/'' then canon_file os (components token)
      else if CHR ''/'' \<notin> set token
      then concat (map (\<lambda>dir. canon_file os (components (dir @ ''/'' @ token))) TRUSTED_EXEC_DIRS)
      else [])"

definition resolve_exec_targets :: "seatbelt_os \<Rightarrow> string Scope \<Rightarrow> string list" where
  "resolve_exec_targets os scope =
     (case scope of
        ScopeAll \<Rightarrow> []
      | ScopeOnly s \<Rightarrow>
          (let out = concat (map (exec_target os) s)
           in remdups_adj (sort (out @ (if ''/bin/sh'' \<in> set out then canon_file os (components ''/bin/bash'') else [])))))"

subsection \<open>Unix endpoints\<close>

text \<open>\<^verbatim>\<open>char::is_control\<close>, on the bytes of one character.\<close>

definition is_control :: "string \<Rightarrow> bool" where
  "is_control ch \<longleftrightarrow>
     (length ch = 1 \<and> ((of_char (hd ch) :: nat) < 32 \<or> hd ch = CHR 0x7F)) \<or>
     (length ch = 2 \<and> hd ch = CHR 0xC2 \<and> (of_char (last ch) :: nat) < 160)"

definition socket_valid :: "seatbelt_os \<Rightarrow> string \<Rightarrow> bool" where
  "socket_valid os name \<longleftrightarrow>
     name \<noteq> [] \<and> hd name = CHR ''/'' \<and>
     \<not> list_ex (\<lambda>ch. is_control ch \<or> ch \<in> {''*'', ''?'', ''['', '']''}) (utf8_chars name) \<and>
     map_option render_path (sb_canonicalize os (components name)) = Some name \<and>
     sb_is_socket os (components name)"

fun collect_sockets :: "seatbelt_os \<Rightarrow> string list \<Rightarrow> string list ToolResult" where
  "collect_sockets os [] = Inr []"
| "collect_sockets os (token # rest) =
     (case strip_prefix ''unix:'' token of
        None \<Rightarrow> collect_sockets os rest
      | Some name \<Rightarrow>
          if socket_valid os name then map_sum id ((#) name) (collect_sockets os rest)
          else Inl (denied ''Unix endpoint grant must name an existing canonical absolute socket without symlinks or patterns'' []))"

definition unix_socket_paths :: "seatbelt_os \<Rightarrow> Caveats \<Rightarrow> string list ToolResult" where
  "unix_socket_paths os c = (case cav_net c of ScopeAll \<Rightarrow> Inr [] | ScopeOnly names \<Rightarrow> collect_sockets os names)"

subsection \<open>The profile text\<close>

definition sbpl_string :: "string \<Rightarrow> string" where
  "sbpl_string s = [CHR 0x22] @ concat (map (\<lambda>c. if c = CHR 0x5C \<or> c = CHR 0x22 then [CHR 0x5C, c] else [c]) s) @ [CHR 0x22]"

definition nl :: string where "nl = [CHR 0x0A]"

definition filter_text :: "string \<Rightarrow> string \<Rightarrow> string" where
  "filter_text kind arg = '' ('' @ kind @ '' '' @ sbpl_string arg @ '')''"

definition allow_text :: "string \<Rightarrow> string \<Rightarrow> string list \<Rightarrow> string" where
  "allow_text operation kind args =
     (if args = [] then [] else ''(allow '' @ operation @ concat (map (filter_text kind) args) @ '')'' @ nl)"

definition write_section :: "seatbelt_os \<Rightarrow> Caveats \<Rightarrow> string list \<Rightarrow> string" where
  "write_section os c sinks =
     (case cav_fs_write c of
        ScopeAll \<Rightarrow> []
      | ScopeOnly _ \<Rightarrow>
          ''(deny file-write*)'' @ nl @ allow_text ''file-write*'' ''subpath'' (confined_roots os (cav_fs_write c)) @
          allow_text ''file-write*'' ''literal'' sinks)"

definition read_section :: "seatbelt_os \<Rightarrow> Caveats \<Rightarrow> string list \<Rightarrow> string" where
  "read_section os c base_read =
     (case cav_fs_read c of
        ScopeAll \<Rightarrow> []
      | ScopeOnly _ \<Rightarrow>
          ''(deny file-read*)'' @ nl @ ''(allow file-read-metadata)'' @ nl @
          ''(allow file-read*'' @ filter_text ''literal'' ''/'' @
          concat (map (filter_text ''subpath'') (List.map_filter (seatbelt_canonical_path os) base_read @ confined_roots os (cav_fs_read c))) @
          '')'' @ nl)"

definition net_section :: "Caveats \<Rightarrow> string list \<Rightarrow> string" where
  "net_section c mach_grants =
     (if net_direct_denied c
      then ''(deny network*)'' @ nl @ ''(deny mach-lookup)'' @ nl @ allow_text ''mach-lookup'' ''global-name'' mach_grants
      else if net_loopback_only c
      then ''(deny network*)'' @ nl @ ''(allow network* (remote ip '' @ sbpl_string ''localhost:*'' @ ''))'' @ nl @
           ''(allow network-bind network-inbound (local ip '' @ sbpl_string ''localhost:*'' @ ''))'' @ nl
      else [])"

definition unix_section :: "string list \<Rightarrow> string" where
  "unix_section sockets = concat (map (\<lambda>path. allow_text ''network-outbound'' ''literal'' [path]) sockets)"

definition exec_section :: "seatbelt_os \<Rightarrow> Caveats \<Rightarrow> string" where
  "exec_section os c =
     (case cav_exec c of
        ScopeAll \<Rightarrow> []
      | ScopeOnly _ \<Rightarrow>
          ''(deny process-exec*)'' @ nl @ allow_text ''process-exec*'' ''literal'' (resolve_exec_targets os (cav_exec c)))"

definition seatbelt_profile_with ::
  "seatbelt_os \<Rightarrow> Caveats \<Rightarrow> string list \<Rightarrow> string list \<Rightarrow> string list \<Rightarrow> string list \<Rightarrow> string" where
  "seatbelt_profile_with os c base_read sinks unix_sockets mach_grants =
     ''(version 1)'' @ nl @ ''(allow default)'' @ nl @ write_section os c sinks @ read_section os c base_read @
     net_section c mach_grants @ unix_section unix_sockets @ exec_section os c"

subsection \<open>The backend\<close>

definition SANDBOX_EXEC :: string where "SANDBOX_EXEC = ''/usr/bin/sandbox-exec''"

definition seatbelt_is_supported :: "seatbelt_os \<Rightarrow> bool" where
  "seatbelt_is_supported os = sb_wrapper_exists os"

definition wrapper_prefix :: "seatbelt_os \<Rightarrow> SandboxPolicy \<Rightarrow> Caveats \<Rightarrow> string list ToolResult" where
  "wrapper_prefix os policy c =
     (if \<not> seatbelt_is_supported os
      then Inl (denied ''macOS seatbelt: /usr/bin/sandbox-exec is unavailable; cannot confine'' [])
      else (case unix_socket_paths os c of
          Inl e \<Rightarrow> Inl e
        | Inr unix_sockets \<Rightarrow>
            (case mach_service_grants c of
               Inl e \<Rightarrow> Inl e
             | Inr mach_grants \<Rightarrow>
                 Inr [SANDBOX_EXEC, ''-p'',
                   seatbelt_profile_with os c (pathlist_resolve (sp_base_read_paths policy))
                     (pathlist_resolve (sp_device_sink_paths policy)) unix_sockets mach_grants])))"

definition seatbelt_command_prefix :: "seatbelt_os \<Rightarrow> SandboxPolicy \<Rightarrow> Caveats \<Rightarrow> string list ToolResult" where
  "seatbelt_command_prefix os policy c =
     (case unix_socket_paths os c of
        Inl e \<Rightarrow> Inl e
      | Inr unix_sockets \<Rightarrow>
          (case mach_service_grants c of
             Inl e \<Rightarrow> Inl e
           | Inr mach_grants \<Rightarrow>
               if unix_sockets \<noteq> [] \<and> \<not> net_direct_denied c \<and> \<not> net_loopback_only c
               then Inl (denied ''Unix socket grants with remote hosts require the managed egress proxy'' [])
               else if mach_grants \<noteq> [] \<and> \<not> net_direct_denied c
               then Inl (denied ''mach: service grants apply only to a network-denied scope (net:none or unix:/mach: entries only)'' [])
               else if \<not> restricts_fs c \<and> \<not> net_direct_denied c \<and> \<not> net_loopback_only c \<and> unix_sockets = [] \<and>
                 mach_grants = [] \<and> \<not> restricts_exec c
               then Inr []
               else wrapper_prefix os policy c))"

datatype MachDeputyAudit = AuditIncomplete | AuditComplete

definition MACH_DEPUTY_AUDIT :: MachDeputyAudit where "MACH_DEPUTY_AUDIT = AuditComplete"

definition seatbelt_mach_service_class :: "string \<Rightarrow> string" where
  "seatbelt_mach_service_class service = ''seatbelt-mach-service:'' @ service"

text \<open>The constructors of a resolved scope from names and from a class, beside the mesh's union.\<close>

record scope_ctors =
  rs_concrete :: "string list \<Rightarrow> ResolvedScope"
  rs_class :: "string \<Rightarrow> ResolvedScope"
  rs_from_delegated :: "Caveats \<Rightarrow> ResolvedAuthority"
  rs_empty_closure :: ResolvedAuthority

definition union_classes :: "mesh \<Rightarrow> scope_ctors \<Rightarrow> ResolvedScope \<Rightarrow> string list \<Rightarrow> ResolvedScope" where
  "union_classes m rs start grants = foldl (\<lambda>acc g. mesh_union m acc (rs_class rs (seatbelt_mach_service_class g))) start grants"

definition seatbelt_net_projection :: "mesh \<Rightarrow> scope_ctors \<Rightarrow> Caveats \<Rightarrow> MachDeputyAudit \<Rightarrow> ResolvedScope" where
  "seatbelt_net_projection m rs c audit =
     (case cav_net c of
        ScopeAll \<Rightarrow> Unbounded
      | ScopeOnly names \<Rightarrow>
          if audit = AuditIncomplete then UnknownScope
          else if net_direct_denied c
          then (case mach_service_grants c of
              Inl _ \<Rightarrow> UnknownScope
            | Inr grants \<Rightarrow> union_classes m rs (rs_concrete rs (filter (prefix ''unix:'') names)) grants)
          else UnknownScope)"

definition seatbelt_resolved_authority ::
  "mesh \<Rightarrow> scope_ctors \<Rightarrow> seatbelt_os \<Rightarrow> Caveats \<Rightarrow> StdioPosture \<Rightarrow> ResolvedAuthority" where
  "seatbelt_resolved_authority m rs os c stdio =
     (let audit = (if sb_caller_is_root os \<or> stdio \<noteq> Audited then AuditIncomplete else MACH_DEPUTY_AUDIT)
      in (rs_from_delegated rs c)\<lparr>ra_net := seatbelt_net_projection m rs c audit\<rparr>)"

definition seatbelt_runtime_closure :: "mesh \<Rightarrow> scope_ctors \<Rightarrow> Caveats \<Rightarrow> ResolvedAuthority" where
  "seatbelt_runtime_closure m rs c =
     (case mach_service_grants c of
        Inl _ \<Rightarrow> rs_empty_closure rs
      | Inr grants \<Rightarrow> (rs_empty_closure rs)\<lparr>ra_net := union_classes m rs (mesh_empty m) grants\<rparr>)"

subsection \<open>Reading a profile\<close>

text \<open>
  The profile language, as far as the generated profiles use it: a text of parenthesised expressions over atoms
  and quoted strings, in which a backslash makes the next character literal.
\<close>

datatype sexp = Atom string | Str string | SList "sexp list"

datatype token = LP | RP | TAtom string | TStr string

definition delimiter :: "char \<Rightarrow> bool" where
  "delimiter c \<longleftrightarrow> c \<in> {CHR 0x20, CHR 0x0A, CHR 0x22, CHR ''('', CHR '')''}"

fun lex_quoted :: "string \<Rightarrow> (string \<times> string) option" where
  "lex_quoted [] = None"
| "lex_quoted (c # s) =
     (if c = CHR 0x22 then Some ([], s)
      else if c = CHR 0x5C then (case s of [] \<Rightarrow> None | d # s' \<Rightarrow> map_option (apfst ((#) d)) (lex_quoted s'))
      else map_option (apfst ((#) c)) (lex_quoted s))"

lemma lex_quoted_length: "lex_quoted s = Some (t, rest) \<Longrightarrow> length rest < length s"
  by (induction s arbitrary: t rest rule: lex_quoted.induct) (fastforce split: if_splits list.splits)+

function lex_tokens :: "string \<Rightarrow> token list option" where
  "lex_tokens [] = Some []"
| "lex_tokens (c # s) =
     (if c = CHR ''('' then map_option ((#) LP) (lex_tokens s)
      else if c = CHR '')'' then map_option ((#) RP) (lex_tokens s)
      else if c = CHR 0x22
      then (case lex_quoted s of None \<Rightarrow> None | Some (t, rest) \<Rightarrow> map_option ((#) (TStr t)) (lex_tokens rest))
      else if c = CHR 0x20 \<or> c = CHR 0x0A then lex_tokens s
      else map_option ((#) (TAtom (c # takeWhile (\<lambda>d. \<not> delimiter d) s))) (lex_tokens (dropWhile (\<lambda>d. \<not> delimiter d) s)))"
  by pat_completeness auto

termination lex_tokens
  by (relation "measure length") (auto dest!: lex_quoted_length simp: less_Suc_eq_le length_dropWhile_le less_Suc_eq)

fun nest :: "token list \<Rightarrow> sexp list list \<Rightarrow> sexp list option" where
  "nest [] [es] = Some (rev es)"
| "nest (LP # ts) st = nest ts ([] # st)"
| "nest (RP # ts) (es # es' # st) = nest ts ((SList (rev es) # es') # st)"
| "nest (TAtom a # ts) (es # st) = nest ts ((Atom a # es) # st)"
| "nest (TStr s # ts) (es # st) = nest ts ((Str s # es) # st)"
| "nest _ _ = None"

definition read_sexps :: "string \<Rightarrow> sexp list option" where
  "read_sexps s = (case lex_tokens s of None \<Rightarrow> None | Some ts \<Rightarrow> nest ts [[]])"

text \<open>Printing, and that reading is its inverse whatever the quoted strings hold.\<close>

fun show_sexp :: "sexp \<Rightarrow> string" where
  "show_sexp (Atom a) = a"
| "show_sexp (Str s) = sbpl_string s"
| "show_sexp (SList es) = ''('' @ join_with '' '' (map show_sexp es) @ '')''"

fun tokens :: "sexp \<Rightarrow> token list" where
  "tokens (Atom a) = [TAtom a]"
| "tokens (Str s) = [TStr s]"
| "tokens (SList es) = [LP] @ concat (map tokens es) @ [RP]"

fun plain :: "sexp \<Rightarrow> bool" where
  "plain (Atom a) \<longleftrightarrow> a \<noteq> [] \<and> list_all (\<lambda>c. \<not> delimiter c) a"
| "plain (Str s) \<longleftrightarrow> True"
| "plain (SList es) \<longleftrightarrow> list_all plain es"

lemma lex_quoted_escaped:
  "lex_quoted (concat (map (\<lambda>c. if c = CHR 0x5C \<or> c = CHR 0x22 then [CHR 0x5C, c] else [c]) s) @ CHR 0x22 # rest) = Some (s, rest)"
  by (induction s) auto

lemma lex_string: "lex_tokens (sbpl_string s @ rest) = map_option ((#) (TStr s)) (lex_tokens rest)"
  by (simp add: sbpl_string_def lex_quoted_escaped)

lemma lex_atom:
  assumes "plain (Atom a)" "rest = [] \<or> delimiter (hd rest)"
  shows "lex_tokens (a @ rest) = map_option ((#) (TAtom a)) (lex_tokens rest)"
proof (cases a)
  case (Cons c a')
  have "takeWhile (\<lambda>d. \<not> delimiter d) (a' @ rest) = a'" "dropWhile (\<lambda>d. \<not> delimiter d) (a' @ rest) = rest"
    using assms Cons by (cases rest; auto simp: takeWhile_append dropWhile_append list_all_iff)+
  moreover have "\<not> delimiter c" using assms Cons by simp
  ultimately show ?thesis using Cons by (auto simp: delimiter_def)
qed (use assms in simp)

lemma join_with_Cons: "join_with sep (x # xs) = (if xs = [] then x else x @ sep @ join_with sep xs)"
  by (cases xs) (simp_all add: join_with_def)

lemma lex_show:
  "plain e \<Longrightarrow> rest = [] \<or> delimiter (hd rest) \<Longrightarrow> lex_tokens (show_sexp e @ rest) = map_option ((@) (tokens e)) (lex_tokens rest)"
proof (induction e arbitrary: rest)
  case (SList es)
  have "lex_tokens (join_with '' '' (map show_sexp es) @ CHR '')'' # rest) = map_option (\<lambda>ts. concat (map tokens es) @ RP # ts) (lex_tokens rest)"
    using SList
  proof (induction es)
    case Nil
    then show ?case by (simp add: join_with_def)
  next
    case (Cons e es)
    have e: "lex_tokens (show_sexp e @ r) = map_option ((@) (tokens e)) (lex_tokens r)" if "r = [] \<or> delimiter (hd r)" for r
      using Cons.prems that by simp
    have es: "lex_tokens (join_with '' '' (map show_sexp es) @ CHR '')'' # rest) = map_option (\<lambda>ts. concat (map tokens es) @ RP # ts) (lex_tokens rest)"
      using Cons by simp
    show ?case
    proof (cases "es = []")
      case True
      then show ?thesis
        using e [of "CHR '')'' # rest"] by (simp add: join_with_def delimiter_def option.map_comp comp_def)
    next
      case False
      then show ?thesis
        using e [of "CHR 0x20 # join_with '' '' (map show_sexp es) @ CHR '')'' # rest"] es
        by (simp add: join_with_Cons delimiter_def option.map_comp comp_def)
    qed
  qed
  then show ?case by (simp add: option.map_comp comp_def)
qed (simp_all add: lex_atom lex_string append_Cons [abs_def] fun_eq_iff cong: map_option_cong)

lemma nest_tokens: "nest (tokens e @ ts) (es # st) = nest ts ((e # es) # st)"
proof (induction e arbitrary: es st ts)
  case (SList xs)
  have "nest (concat (map tokens xs) @ RP # ts) (acc # es # st) = nest ts ((SList (rev acc @ xs) # es) # st)" for acc
    using SList by (induction xs arbitrary: acc) auto
  from this [of "[]"] show ?case by simp
qed simp_all

lemma read_shown: "list_all plain es \<Longrightarrow> read_sexps (concat (map (\<lambda>e. show_sexp e @ nl) es)) = Some es"
proof -
  assume "list_all plain es"
  then have "lex_tokens (concat (map (\<lambda>e. show_sexp e @ nl) es)) = Some (concat (map tokens es))"
  proof (induction es)
    case (Cons e es)
    then show ?case using lex_show [of e "nl @ concat (map (\<lambda>e. show_sexp e @ nl) es)"] by (simp add: nl_def delimiter_def)
  qed simp
  moreover have "nest (concat (map tokens es)) [acc] = Some (rev acc @ es)" for acc
  proof (induction es arbitrary: acc)
    case (Cons e es)
    then show ?case using nest_tokens [of e "concat (map tokens es)" acc "[]"] by simp
  qed simp
  ultimately show ?thesis by (simp add: read_sexps_def)
qed

subsection \<open>What a profile allows\<close>

text \<open>
  A rule allows or denies the operations it names, for the objects one of its filters matches, or for all objects
  when it has none. The last matching rule decides. A filter is its kind and its argument.
\<close>

datatype rule = Rule (rule_allows: bool) (rule_ops: "string list") (rule_filters: "(string list \<times> string) list")

fun sexp_of_filter :: "string list \<times> string \<Rightarrow> sexp" where
  "sexp_of_filter (kind, arg) = SList (map Atom kind @ [Str arg])"

fun sexp_of_rule :: "rule \<Rightarrow> sexp" where
  "sexp_of_rule (Rule allowed ops filters) =
     SList (Atom (if allowed then ''allow'' else ''deny'') # map Atom ops @ map sexp_of_filter filters)"

fun atom_of :: "sexp \<Rightarrow> string option" where
  "atom_of (Atom a) = Some a"
| "atom_of _ = None"

fun filter_of :: "sexp \<Rightarrow> (string list \<times> string) option" where
  "filter_of (SList es) =
     (case rev es of Str arg # kinds \<Rightarrow> Some (List.map_filter atom_of (rev kinds), arg) | _ \<Rightarrow> None)"
| "filter_of _ = None"

fun rule_of :: "sexp \<Rightarrow> rule option" where
  "rule_of (SList (Atom v # rest)) =
     (if v = ''allow'' \<or> v = ''deny''
      then Some (Rule (v = ''allow'') (List.map_filter atom_of rest) (List.map_filter filter_of rest)) else None)"
| "rule_of _ = None"

definition op_covers :: "string \<Rightarrow> string \<Rightarrow> bool" where
  "op_covers pat operation \<longleftrightarrow>
     pat = ''default'' \<or> pat = operation \<or> (pat \<noteq> [] \<and> last pat = CHR ''*'' \<and> prefix (butlast pat) operation)"

definition subpath_of :: "string \<Rightarrow> string \<Rightarrow> bool" where
  "subpath_of root target \<longleftrightarrow> target = root \<or> prefix (if root \<noteq> [] \<and> last root = CHR ''/'' then root else root @ ''/'') target"

definition filter_matches :: "string list \<times> string \<Rightarrow> string \<Rightarrow> bool" where
  "filter_matches f target =
     (case f of (kind, arg) \<Rightarrow>
        if kind = [''subpath''] then subpath_of arg target
        else if kind = [''literal''] \<or> kind = [''global-name''] then target = arg
        else if kind = [''remote'', ''ip''] \<or> kind = [''local'', ''ip''] then arg = ''localhost:*'' \<and> prefix ''localhost:'' target
        else False)"

definition rule_matches_op :: "rule \<Rightarrow> string \<Rightarrow> string \<Rightarrow> bool" where
  "rule_matches_op r operation target \<longleftrightarrow>
     list_ex (\<lambda>pat. op_covers pat operation) (rule_ops r) \<and>
     (rule_filters r = [] \<or> list_ex (\<lambda>f. filter_matches f target) (rule_filters r))"

definition decide :: "string \<Rightarrow> string \<Rightarrow> bool \<Rightarrow> rule list \<Rightarrow> bool" where
  "decide operation target = foldl (\<lambda>decision r. if rule_matches_op r operation target then rule_allows r else decision)"

definition profile_allows :: "string \<Rightarrow> string \<Rightarrow> string \<Rightarrow> bool" where
  "profile_allows profile operation target =
     (case read_sexps profile of
        None \<Rightarrow> False
      | Some es \<Rightarrow> decide operation target False (List.map_filter rule_of es))"

subsection \<open>The generated rules\<close>

definition allow_rule :: "string \<Rightarrow> string \<Rightarrow> string list \<Rightarrow> rule list" where
  "allow_rule operation kind args = (if args = [] then [] else [Rule True [operation] (map (Pair [kind]) args)])"

definition write_rules :: "seatbelt_os \<Rightarrow> Caveats \<Rightarrow> string list \<Rightarrow> rule list" where
  "write_rules os c sinks =
     (case cav_fs_write c of
        ScopeAll \<Rightarrow> []
      | ScopeOnly _ \<Rightarrow> Rule False [''file-write*''] [] # allow_rule ''file-write*'' ''subpath'' (confined_roots os (cav_fs_write c)) @
          allow_rule ''file-write*'' ''literal'' sinks)"

definition read_rules :: "seatbelt_os \<Rightarrow> Caveats \<Rightarrow> string list \<Rightarrow> rule list" where
  "read_rules os c base_read =
     (case cav_fs_read c of
        ScopeAll \<Rightarrow> []
      | ScopeOnly _ \<Rightarrow> [Rule False [''file-read*''] [], Rule True [''file-read-metadata''] [],
          Rule True [''file-read*''] (([''literal''], ''/'') #
            map (Pair [''subpath'']) (List.map_filter (seatbelt_canonical_path os) base_read @ confined_roots os (cav_fs_read c)))])"

definition network_rules :: "Caveats \<Rightarrow> string list \<Rightarrow> rule list" where
  "network_rules c mach_grants =
     (if net_direct_denied c
      then [Rule False [''network*''] [], Rule False [''mach-lookup''] []] @ allow_rule ''mach-lookup'' ''global-name'' mach_grants
      else if net_loopback_only c
      then [Rule False [''network*''] [], Rule True [''network*''] [([''remote'', ''ip''], ''localhost:*'')],
        Rule True [''network-bind'', ''network-inbound''] [([''local'', ''ip''], ''localhost:*'')]]
      else [])"

definition unix_rules :: "string list \<Rightarrow> rule list" where
  "unix_rules sockets = concat (map (\<lambda>path. allow_rule ''network-outbound'' ''literal'' [path]) sockets)"

definition exec_rules :: "seatbelt_os \<Rightarrow> Caveats \<Rightarrow> rule list" where
  "exec_rules os c =
     (case cav_exec c of
        ScopeAll \<Rightarrow> []
      | ScopeOnly _ \<Rightarrow> Rule False [''process-exec*''] [] # allow_rule ''process-exec*'' ''literal'' (resolve_exec_targets os (cav_exec c)))"

definition profile_rules ::
  "seatbelt_os \<Rightarrow> Caveats \<Rightarrow> string list \<Rightarrow> string list \<Rightarrow> string list \<Rightarrow> string list \<Rightarrow> rule list" where
  "profile_rules os c base_read sinks unix_sockets mach_grants =
     Rule True [''default''] [] # write_rules os c sinks @ read_rules os c base_read @ network_rules c mach_grants @
     unix_rules unix_sockets @ exec_rules os c"

abbreviation rules_text :: "rule list \<Rightarrow> string" where
  "rules_text rules \<equiv> concat (map (\<lambda>e. show_sexp e @ nl) (map sexp_of_rule rules))"

lemma join_filters:
  "join_with '' '' (x # map show_sexp (map sexp_of_filter (map (Pair [kind]) args))) = x @ concat (map (filter_text kind) args)"
  by (induction args arbitrary: x) (auto simp: join_with_def filter_text_def)

lemma allow_printed: "allow_text operation kind args = rules_text (allow_rule operation kind args)"
  using join_filters [of "''allow '' @ operation" kind args]
  by (auto simp: allow_text_def allow_rule_def join_with_Cons map_concat)

lemma read_printed:
  "''(allow file-read*'' @ filter_text ''literal'' ''/'' @ concat (map (filter_text ''subpath'') roots) @ '')'' @ nl =
   rules_text [Rule True [''file-read*''] (([''literal''], ''/'') # map (Pair [''subpath'']) roots)]"
  using join_filters [of "filter_text ''literal'' ''/''" "''subpath''" roots]
  by (auto simp: join_with_Cons filter_text_def join_with_def)

lemma profile_printed:
  "seatbelt_profile_with os c base_read sinks unix_sockets mach_grants =
   show_sexp (SList [Atom ''version'', Atom ''1'']) @ nl @ rules_text (profile_rules os c base_read sinks unix_sockets mach_grants)"
proof -
  have sec_write: "write_section os c sinks = rules_text (write_rules os c sinks)"
    by (cases "cav_fs_write c") (simp_all add: write_section_def write_rules_def allow_printed join_with_def)
  have sec_read: "read_section os c base_read = rules_text (read_rules os c base_read)"
  proof (cases "cav_fs_read c")
    case (ScopeOnly s)
    show ?thesis
      unfolding read_section_def read_rules_def ScopeOnly Scope.case read_printed by (simp add: join_with_def)
  qed (simp add: read_section_def read_rules_def)
  have sec_net: "net_section c mach_grants = rules_text (network_rules c mach_grants)"
    by (simp add: net_section_def network_rules_def allow_printed join_with_def)
  have sec_unix: "unix_section unix_sockets = rules_text (unix_rules unix_sockets)"
    by (induction unix_sockets) (simp_all add: unix_section_def unix_rules_def allow_printed)
  have sec_exec: "exec_section os c = rules_text (exec_rules os c)"
    by (cases "cav_exec c") (simp_all add: exec_section_def exec_rules_def allow_printed join_with_def)
  show ?thesis
    by (simp add: seatbelt_profile_with_def profile_rules_def sec_write sec_read sec_net sec_unix sec_exec join_with_def)
qed

lemma filter_of_sexp [simp]: "filter_of (sexp_of_filter f) = Some f" "atom_of (sexp_of_filter f) = None"
proof -
  have "List.map_filter atom_of (map Atom kind) = kind" for kind by (induction kind) (auto simp: map_filter_simps)
  then show "filter_of (sexp_of_filter f) = Some f" by (cases f) (simp add: rev_map [symmetric])
qed (cases f; simp)

lemma rule_of_sexp [simp]: "rule_of (sexp_of_rule r) = Some r"
proof (cases r)
  case (Rule allowed ops filters)
  have atoms: "List.map_filter atom_of (map Atom ops @ map sexp_of_filter filters) = ops"
  proof (induction ops)
    case Nil
    show ?case by (induction filters) (auto simp: map_filter_simps)
  qed (simp add: map_filter_simps)
  have filters: "List.map_filter filter_of (map Atom ops @ map sexp_of_filter filters) = filters"
  proof (induction ops)
    case Nil
    show ?case by (induction filters) (auto simp: map_filter_simps)
  qed (simp add: map_filter_simps)
  show ?thesis by (simp add: Rule atoms filters)
qed

lemma rules_of_sexps: "List.map_filter rule_of (map sexp_of_rule rules) = rules"
  by (induction rules) (simp_all add: map_filter_simps)

definition plain_rule :: "rule \<Rightarrow> bool" where
  "plain_rule r \<longleftrightarrow> list_all (\<lambda>a. plain (Atom a)) (rule_ops r) \<and> list_all (\<lambda>f. list_all (\<lambda>a. plain (Atom a)) (fst f)) (rule_filters r)"

lemma plain_sexp: "plain_rule r \<Longrightarrow> plain (sexp_of_rule r)"
proof (cases r)
  case (Rule allowed ops filters)
  assume "plain_rule r"
  then have "list_all plain (map Atom ops)" "list_all plain (map sexp_of_filter filters)"
    by (auto simp: Rule plain_rule_def list_all_iff)
  then show ?thesis by (simp add: Rule delimiter_def)
qed

lemma profile_rules_plain: "list_all plain_rule (profile_rules os c base_read sinks unix_sockets mach_grants)"
proof -
  have "list_all plain_rule (write_rules os c sinks)" "list_all plain_rule (exec_rules os c)"
    "list_all plain_rule (unix_rules unix_sockets)" "list_all plain_rule (network_rules c mach_grants)"
    "list_all plain_rule (read_rules os c base_read)"
    by (auto simp: write_rules_def exec_rules_def unix_rules_def network_rules_def read_rules_def allow_rule_def plain_rule_def
      list_all_iff delimiter_def split: Scope.splits)
  then show ?thesis by (simp add: profile_rules_def plain_rule_def delimiter_def)
qed

lemma profile_reads:
  "profile_allows (seatbelt_profile_with os c base_read sinks unix_sockets mach_grants) operation target =
   decide operation target False (profile_rules os c base_read sinks unix_sockets mach_grants)"
proof -
  let ?v = "SList [Atom ''version'', Atom ''1'']"
  let ?es = "map sexp_of_rule (profile_rules os c base_read sinks unix_sockets mach_grants)"
  have "list_all plain (?v # ?es)"
    using profile_rules_plain plain_sexp by (simp add: list_all_iff delimiter_def)
  from read_shown [OF this]
  have "read_sexps (seatbelt_profile_with os c base_read sinks unix_sockets mach_grants) = Some (?v # ?es)"
    unfolding profile_printed by simp
  then show ?thesis by (simp add: profile_allows_def map_filter_simps rules_of_sexps)
qed

text \<open>How each section decides an operation.\<close>

lemma decide_simps [simp]:
  "decide operation target d [] = d"
  "decide operation target d (r # rules) = decide operation target (if rule_matches_op r operation target then rule_allows r else d) rules"
  "decide operation target d (rules @ rules') = decide operation target (decide operation target d rules) rules'"
  by (simp_all add: decide_def)

lemma decide_allow:
  "decide operation target d (allow_rule pat kind args) \<longleftrightarrow>
   d \<or> op_covers pat operation \<and> (\<exists>a\<in>set args. filter_matches ([kind], a) target)"
  by (auto simp: allow_rule_def rule_matches_op_def list_ex_iff)

lemma decide_unix:
  "decide operation target d (unix_rules sockets) \<longleftrightarrow> d \<or> op_covers ''network-outbound'' operation \<and> target \<in> set sockets"
  by (induction sockets arbitrary: d) (auto simp: unix_rules_def decide_allow filter_matches_def)

lemma covers [simp]:
  "op_covers ''default'' operation"
  "op_covers ''file-write*'' ''file-write-data''" "\<not> op_covers ''file-read*'' ''file-write-data''"
  "\<not> op_covers ''file-read-metadata'' ''file-write-data''" "\<not> op_covers ''network*'' ''file-write-data''"
  "\<not> op_covers ''mach-lookup'' ''file-write-data''" "\<not> op_covers ''network-bind'' ''file-write-data''"
  "\<not> op_covers ''network-inbound'' ''file-write-data''" "\<not> op_covers ''network-outbound'' ''file-write-data''"
  "\<not> op_covers ''process-exec*'' ''file-write-data''" "\<not> op_covers ''file-write*'' ''file-read-data''"
  "op_covers ''file-read*'' ''file-read-data''" "\<not> op_covers ''file-read-metadata'' ''file-read-data''"
  "\<not> op_covers ''network*'' ''file-read-data''" "\<not> op_covers ''mach-lookup'' ''file-read-data''"
  "\<not> op_covers ''network-bind'' ''file-read-data''" "\<not> op_covers ''network-inbound'' ''file-read-data''"
  "\<not> op_covers ''network-outbound'' ''file-read-data''" "\<not> op_covers ''process-exec*'' ''file-read-data''"
  "\<not> op_covers ''file-write*'' ''file-read-metadata''" "op_covers ''file-read*'' ''file-read-metadata''"
  "op_covers ''file-read-metadata'' ''file-read-metadata''" "\<not> op_covers ''network*'' ''file-read-metadata''"
  "\<not> op_covers ''mach-lookup'' ''file-read-metadata''" "\<not> op_covers ''network-bind'' ''file-read-metadata''"
  "\<not> op_covers ''network-inbound'' ''file-read-metadata''"
  "\<not> op_covers ''network-outbound'' ''file-read-metadata''" "\<not> op_covers ''process-exec*'' ''file-read-metadata''"
  "\<not> op_covers ''file-write*'' ''process-exec''" "\<not> op_covers ''file-read*'' ''process-exec''"
  "\<not> op_covers ''file-read-metadata'' ''process-exec''" "\<not> op_covers ''network*'' ''process-exec''"
  "\<not> op_covers ''mach-lookup'' ''process-exec''" "\<not> op_covers ''network-bind'' ''process-exec''"
  "\<not> op_covers ''network-inbound'' ''process-exec''" "\<not> op_covers ''network-outbound'' ''process-exec''"
  "op_covers ''process-exec*'' ''process-exec''" "\<not> op_covers ''file-write*'' ''mach-lookup''"
  "\<not> op_covers ''file-read*'' ''mach-lookup''" "\<not> op_covers ''file-read-metadata'' ''mach-lookup''"
  "\<not> op_covers ''network*'' ''mach-lookup''" "op_covers ''mach-lookup'' ''mach-lookup''"
  "\<not> op_covers ''network-bind'' ''mach-lookup''" "\<not> op_covers ''network-inbound'' ''mach-lookup''"
  "\<not> op_covers ''network-outbound'' ''mach-lookup''" "\<not> op_covers ''process-exec*'' ''mach-lookup''"
  "\<not> op_covers ''file-write*'' ''network-outbound''" "\<not> op_covers ''file-read*'' ''network-outbound''"
  "\<not> op_covers ''file-read-metadata'' ''network-outbound''" "op_covers ''network*'' ''network-outbound''"
  "\<not> op_covers ''mach-lookup'' ''network-outbound''" "\<not> op_covers ''network-bind'' ''network-outbound''"
  "\<not> op_covers ''network-inbound'' ''network-outbound''" "op_covers ''network-outbound'' ''network-outbound''"
  "\<not> op_covers ''process-exec*'' ''network-outbound''" "\<not> op_covers ''file-write*'' ''network-bind''"
  "\<not> op_covers ''file-read*'' ''network-bind''" "\<not> op_covers ''file-read-metadata'' ''network-bind''"
  "op_covers ''network*'' ''network-bind''" "\<not> op_covers ''mach-lookup'' ''network-bind''"
  "op_covers ''network-bind'' ''network-bind''" "\<not> op_covers ''network-inbound'' ''network-bind''"
  "\<not> op_covers ''network-outbound'' ''network-bind''" "\<not> op_covers ''process-exec*'' ''network-bind''"
  by (simp_all add: op_covers_def)

lemma filter_kinds [simp]:
  "filter_matches ([''subpath''], a) target = subpath_of a target"
  "filter_matches ([''literal''], a) target = (target = a)"
  "filter_matches ([''global-name''], a) target = (target = a)"
  "filter_matches ([''remote'', ''ip''], ''localhost:*'') target = prefix ''localhost:'' target"
  "filter_matches ([''local'', ''ip''], ''localhost:*'') target = prefix ''localhost:'' target"
  by (simp_all add: filter_matches_def)

lemma decide_write_rules:
  "decide operation target d (write_rules os c sinks) \<longleftrightarrow>
   (if cav_fs_write c \<noteq> ScopeAll \<and> op_covers ''file-write*'' operation
    then list_ex (\<lambda>r. subpath_of r target) (confined_roots os (cav_fs_write c)) \<or> target \<in> set sinks else d)"
  by (cases "cav_fs_write c") (auto simp: write_rules_def decide_allow rule_matches_op_def list_ex_iff)

lemma decide_read_rules:
  "decide operation target d (read_rules os c base_read) \<longleftrightarrow>
   (if cav_fs_read c = ScopeAll then d
    else if op_covers ''file-read*'' operation \<and>
      (target = ''/'' \<or> list_ex (\<lambda>r. subpath_of r target)
         (List.map_filter (seatbelt_canonical_path os) base_read @ confined_roots os (cav_fs_read c))) then True
    else if op_covers ''file-read-metadata'' operation then True
    else \<not> op_covers ''file-read*'' operation \<and> d)"
  by (cases "cav_fs_read c") (auto simp: read_rules_def rule_matches_op_def list_ex_iff ball_Un)

lemma decide_network_rules:
  "decide operation target d (network_rules c mach_grants) \<longleftrightarrow>
   (if net_direct_denied c
    then (if op_covers ''mach-lookup'' operation then target \<in> set mach_grants else \<not> op_covers ''network*'' operation \<and> d)
    else if net_loopback_only c \<and> op_covers ''network*'' operation then prefix ''localhost:'' target
    else if net_loopback_only c \<and> (op_covers ''network-bind'' operation \<or> op_covers ''network-inbound'' operation)
    then d \<or> prefix ''localhost:'' target else d)"
proof -
  define p where "p = prefix ''localhost:'' target"
  show ?thesis
    unfolding p_def [symmetric]
    by (cases "net_direct_denied c"; cases "net_loopback_only c"; cases "op_covers ''network*'' operation")
      (simp_all add: network_rules_def decide_allow rule_matches_op_def p_def [symmetric])
qed

lemma decide_exec_rules:
  "decide operation target d (exec_rules os c) \<longleftrightarrow>
   (if cav_exec c \<noteq> ScopeAll \<and> op_covers ''process-exec*'' operation then target \<in> set (resolve_exec_targets os (cav_exec c)) else d)"
  by (cases "cav_exec c") (auto simp: exec_rules_def decide_allow rule_matches_op_def)

lemmas section_decides = decide_write_rules decide_read_rules decide_network_rules decide_exec_rules decide_unix

lemma profile_decides:
  "profile_allows (seatbelt_profile_with os c base_read sinks unix_sockets mach_grants) operation target =
   decide operation target (decide operation target (decide operation target (decide operation target
     (decide operation target True (write_rules os c sinks)) (read_rules os c base_read)) (network_rules c mach_grants))
     (unix_rules unix_sockets)) (exec_rules os c)"
  by (simp add: profile_reads profile_rules_def rule_matches_op_def)

text \<open>C20. The profile text means exactly the caveats. Read as profile syntax, where the last matching rule decides, it
  lets a process write what lies below a granted root or is a device sink, read what lies below a granted root or
  the read base (and the root directory itself), stat anything, execute the resolved targets of the exec grants
  only, look up the granted Mach services only once direct network is denied, and reach the granted sockets or,
  under a loopback grant, loopback addresses. This holds whatever characters the granted names contain.
\<close>

theorem seatbelt_profile_exact:
  "(let allows = profile_allows (seatbelt_profile_with os c base_read sinks unix_sockets mach_grants)
    in (allows ''file-write-data'' target \<longleftrightarrow>
          cav_fs_write c = ScopeAll \<or> list_ex (\<lambda>r. subpath_of r target) (confined_roots os (cav_fs_write c)) \<or> target \<in> set sinks) \<and>
       (allows ''file-read-data'' target \<longleftrightarrow>
          cav_fs_read c = ScopeAll \<or> target = ''/'' \<or> list_ex (\<lambda>r. subpath_of r target)
            (List.map_filter (seatbelt_canonical_path os) base_read @ confined_roots os (cav_fs_read c))) \<and>
       allows ''file-read-metadata'' target \<and>
       (allows ''process-exec'' target \<longleftrightarrow> cav_exec c = ScopeAll \<or> target \<in> set (resolve_exec_targets os (cav_exec c))) \<and>
       (allows ''mach-lookup'' target = (if net_direct_denied c then target \<in> set mach_grants else True)) \<and>
       (allows ''network-outbound'' target \<longleftrightarrow> target \<in> set unix_sockets \<or>
          (if net_direct_denied c then False else if net_loopback_only c then prefix ''localhost:'' target else True)) \<and>
       (allows ''network-bind'' target \<longleftrightarrow>
          (if net_direct_denied c then False else if net_loopback_only c then prefix ''localhost:'' target else True)))"
  unfolding Let_def profile_decides section_decides by (intro conjI; simp add: disj_commute)

subsection \<open>The wrapped child\<close>

lemma collect_sockets_Inr:
  "collect_sockets os names = Inr ps \<Longrightarrow> set ps = {p. ''unix:'' @ p \<in> set names}"
proof (induction names arbitrary: ps)
  case (Cons token rest)
  show ?case
  proof (cases "strip_prefix ''unix:'' token")
    case None
    then have "token \<noteq> ''unix:'' @ p" for p by (auto simp: strip_prefix_def)
    then show ?thesis using Cons None by auto
  next
    case (Some name)
    then have "token = ''unix:'' @ name" by (auto simp: strip_prefix_def prefix_def split: if_splits)
    then show ?thesis using Cons Some by (cases "collect_sockets os rest") (auto split: if_splits)
  qed
qed simp

lemma unix_sockets_granted:
  assumes "unix_socket_paths os c = Inr ps"
  shows "p \<in> set ps \<longleftrightarrow> cav_net c \<noteq> ScopeAll \<and> scope_has (cav_net c) (''unix:'' @ p)"
    "ps \<noteq> [] \<longleftrightarrow> has_unix_socket_grants c"
proof -
  show p: "p \<in> set ps \<longleftrightarrow> cav_net c \<noteq> ScopeAll \<and> scope_has (cav_net c) (''unix:'' @ p)" for p
    using assms collect_sockets_Inr [of os _ ps] by (cases "cav_net c") (simp_all add: unix_socket_paths_def)
  have "has_unix_socket_grants c \<longleftrightarrow> cav_net c \<noteq> ScopeAll \<and> (\<exists>p. scope_has (cav_net c) (''unix:'' @ p))"
    by (auto simp: has_unix_socket_grants_def list_ex_iff prefix_def split: Scope.splits)
  moreover have "ps \<noteq> [] \<longleftrightarrow> (\<exists>p. p \<in> set ps)" by (cases ps) auto
  ultimately show "ps \<noteq> [] \<longleftrightarrow> has_unix_socket_grants c" by (simp only: p) blast
qed

lemma mach_services_granted:
  assumes "mach_service_grants c = Inr ns"
  shows "n \<in> set ns \<longleftrightarrow> cav_net c \<noteq> ScopeAll \<and> scope_has (cav_net c) (''mach:'' @ n)"
    "ns \<noteq> [] \<longleftrightarrow> has_mach_service_grants c"
proof -
  show n: "n \<in> set ns \<longleftrightarrow> cav_net c \<noteq> ScopeAll \<and> scope_has (cav_net c) (''mach:'' @ n)" for n
  proof (cases "cav_net c")
    case (ScopeOnly s)
    with assms obtain out where out: "collect_mach s = Inr out" "ns = remdups_adj (sort out)"
      by (auto simp: mach_service_grants_def split: sum.splits)
    then have "out = map (drop 5) (filter (prefix ''mach:'') s)"
      using collect_mach_valid [of s] collect_mach_Inr_valid [OF out(1)] by (simp add: MACH_GRANT_PREFIX_def numeral_eq_Suc)
    then show ?thesis by (force simp: out ScopeOnly prefix_def image_iff)
  qed (use assms in \<open>simp add: mach_service_grants_def\<close>)
  have "has_mach_service_grants c \<longleftrightarrow> cav_net c \<noteq> ScopeAll \<and> (\<exists>n. scope_has (cav_net c) (''mach:'' @ n))"
    by (auto simp: has_mach_service_grants_def MACH_GRANT_PREFIX_def list_ex_iff prefix_def split: Scope.splits)
  moreover have "ns \<noteq> [] \<longleftrightarrow> (\<exists>n. n \<in> set ns)" by (cases ns) auto
  ultimately show "ns \<noteq> [] \<longleftrightarrow> has_mach_service_grants c" by (simp only: n) blast
qed

lemma set_map_filter_iff: "y \<in> set (List.map_filter f xs) \<longleftrightarrow> (\<exists>x\<in>set xs. f x = Some y)"
  by (force simp: map_filter_def)

lemma confined_roots_granted:
  "r \<in> set (confined_roots os (ScopeOnly s)) \<longleftrightarrow> (\<exists>g\<in>set s. seatbelt_canonical_path os g = Some r)"
  by (force simp: confined_roots_def map_filter_def)

lemma exec_targets_granted:
  "t \<in> set (resolve_exec_targets os (ScopeOnly s)) \<longleftrightarrow>
   (\<exists>g\<in>set s. t \<in> set (exec_target os g)) \<or>
   t \<in> set (canon_file os (components ''/bin/bash'')) \<and> (\<exists>g\<in>set s. ''/bin/sh'' \<in> set (exec_target os g))"
  by (auto simp: resolve_exec_targets_def Let_def)

lemma direct_denied_shape:
  "net_direct_denied c \<longleftrightarrow> net_fully_denied c \<or> net_direct_denied c \<and> (has_unix_socket_grants c \<or> has_mach_service_grants c)"
proof (cases "cav_net c")
  case (ScopeOnly s)
  then show ?thesis
    by (cases s) (auto simp: net_direct_denied_def net_fully_denied_def has_unix_socket_grants_def
      has_mach_service_grants_def is_structural_net_token_def)
qed (simp add: net_direct_denied_def net_fully_denied_def)

lemma prefix_wraps:
  assumes "seatbelt_command_prefix os policy c = Inr pre" "effective_sandbox_kind h Seatbelt c = Seatbelt"
  obtains socks grants where "unix_socket_paths os c = Inr socks" "mach_service_grants c = Inr grants" "seatbelt_is_supported os"
    "pre = [SANDBOX_EXEC, ''-p'', seatbelt_profile_with os c (pathlist_resolve (sp_base_read_paths policy))
       (pathlist_resolve (sp_device_sink_paths policy)) socks grants]"
proof -
  from assms(1) obtain socks grants where u: "unix_socket_paths os c = Inr socks" and m: "mach_service_grants c = Inr grants"
    by (auto simp: seatbelt_command_prefix_def split: sum.splits)
  have "restricts_fs c \<or> net_direct_denied c \<or> net_loopback_only c \<or> socks \<noteq> [] \<or> grants \<noteq> [] \<or> restricts_exec c"
    using assms(2) direct_denied_shape [of c] unix_sockets_granted(2) [OF u] mach_services_granted(2) [OF m]
    by (auto simp: effective_sandbox_kind_def split: if_splits)
  with assms(1) have "wrapper_prefix os policy c = Inr pre"
    by (auto simp: seatbelt_command_prefix_def u m split: if_splits)
  then show thesis using that u m by (auto simp: wrapper_prefix_def split: if_splits)
qed

lemma prefix_bare:
  assumes "seatbelt_command_prefix os policy c = Inr pre" "effective_sandbox_kind h Seatbelt c \<noteq> Seatbelt"
  shows "pre = []"
proof -
  from assms(1) obtain socks grants where u: "unix_socket_paths os c = Inr socks" and m: "mach_service_grants c = Inr grants"
    by (auto simp: seatbelt_command_prefix_def split: sum.splits)
  have "\<not> restricts_fs c" "\<not> net_direct_denied c" "\<not> net_loopback_only c" "socks = []" "grants = []" "\<not> restricts_exec c"
    using assms(2) direct_denied_shape [of c] unix_sockets_granted(2) [OF u] mach_services_granted(2) [OF m]
    by (auto simp: effective_sandbox_kind_def split: if_splits)
  with assms(1) show ?thesis by (simp add: seatbelt_command_prefix_def u m)
qed

text \<open>
  What a profile keeps a child to: writes below a granted root or to a device sink, reads below a granted root, the
  read base or of the root directory, execs of what an exec grant resolves to (and of \<^verbatim>\<open>/bin/bash\<close> where
  \<^verbatim>\<open>/bin/sh\<close> is granted), and, when direct network is denied, granted sockets and granted Mach services.
\<close>

definition below_grant :: "seatbelt_os \<Rightarrow> string Scope \<Rightarrow> string list \<Rightarrow> string \<Rightarrow> bool" where
  "below_grant os scope extra t =
     (case scope of ScopeAll \<Rightarrow> True
      | ScopeOnly s \<Rightarrow> list_ex (\<lambda>g. case seatbelt_canonical_path os g of None \<Rightarrow> False | Some r \<Rightarrow> subpath_of r t) (s @ extra))"

definition exec_granted :: "seatbelt_os \<Rightarrow> string Scope \<Rightarrow> string \<Rightarrow> bool" where
  "exec_granted os scope t =
     (case scope of ScopeAll \<Rightarrow> True
      | ScopeOnly s \<Rightarrow> list_ex (\<lambda>g. t \<in> set (exec_target os g)) s \<or>
          t \<in> set (canon_file os (components ''/bin/bash'')) \<and> list_ex (\<lambda>g. ''/bin/sh'' \<in> set (exec_target os g)) s)"

definition profile_confines :: "seatbelt_os \<Rightarrow> SandboxPolicy \<Rightarrow> Caveats \<Rightarrow> string \<Rightarrow> bool" where
  "profile_confines os policy c profile \<longleftrightarrow>
     (\<forall>t. (profile_allows profile ''file-write-data'' t \<longrightarrow>
            t \<in> set (pathlist_resolve (sp_device_sink_paths policy)) \<or> below_grant os (cav_fs_write c) [] t) \<and>
          (profile_allows profile ''file-read-data'' t \<longrightarrow>
            t = ''/'' \<or> below_grant os (cav_fs_read c) (pathlist_resolve (sp_base_read_paths policy)) t) \<and>
          (profile_allows profile ''process-exec'' t \<longrightarrow> exec_granted os (cav_exec c) t) \<and>
          (net_direct_denied c \<longrightarrow>
            (profile_allows profile ''network-outbound'' t \<longrightarrow> scope_has (cav_net c) (''unix:'' @ t)) \<and>
            \<not> profile_allows profile ''network-bind'' t \<and>
            (profile_allows profile ''mach-lookup'' t \<longrightarrow> scope_has (cav_net c) (''mach:'' @ t))))"

lemma below_grant_simps [simp]:
  "below_grant os ScopeAll extra t"
  "below_grant os (ScopeOnly s) extra t \<longleftrightarrow>
     (\<exists>g\<in>set s \<union> set extra. \<exists>r. seatbelt_canonical_path os g = Some r \<and> subpath_of r t)"
  by (force simp: below_grant_def list_ex_iff split: option.splits)+

lemma profile_confines_with:
  assumes u: "unix_socket_paths os c = Inr socks" and m: "mach_service_grants c = Inr grants"
  shows "profile_confines os policy c (seatbelt_profile_with os c (pathlist_resolve (sp_base_read_paths policy))
    (pathlist_resolve (sp_device_sink_paths policy)) socks grants)" (is "profile_confines _ _ _ ?profile")
  unfolding profile_confines_def
proof (intro allI conjI impI)
  fix t
  note sections = profile_decides section_decides
  show "t \<in> set (pathlist_resolve (sp_device_sink_paths policy)) \<or> below_grant os (cav_fs_write c) [] t"
    if "profile_allows ?profile ''file-write-data'' t"
    using that by (cases "cav_fs_write c") (auto simp: sections list_ex_iff confined_roots_granted split: if_splits)
  show "t = ''/'' \<or> below_grant os (cav_fs_read c) (pathlist_resolve (sp_base_read_paths policy)) t"
    if "profile_allows ?profile ''file-read-data'' t"
    using that by (cases "cav_fs_read c")
      (auto simp: sections list_ex_iff confined_roots_granted set_map_filter_iff ball_Un split: if_splits)
  show "exec_granted os (cav_exec c) t" if "profile_allows ?profile ''process-exec'' t"
    using that by (cases "cav_exec c") (simp_all add: exec_granted_def sections exec_targets_granted list_ex_iff)
  show "scope_has (cav_net c) (''unix:'' @ t)" if "net_direct_denied c" "profile_allows ?profile ''network-outbound'' t"
    using that by (simp add: sections unix_sockets_granted(1) [OF u])
  show "\<not> profile_allows ?profile ''network-bind'' t" if "net_direct_denied c"
    using that by (simp add: sections)
  show "scope_has (cav_net c) (''mach:'' @ t)" if "net_direct_denied c" "profile_allows ?profile ''mach-lookup'' t"
    using that by (simp add: sections mach_services_granted(1) [OF m])
qed

text \<open>A child reported as confined by Seatbelt is wrapped, by the absolute path of the wrapper, in a profile that confines
  it; a child not so reported is not wrapped.
\<close>

lemma seatbelt_child_is_fenced:
  assumes "seatbelt_command_prefix os policy c = Inr pre"
  shows "if effective_sandbox_kind h Seatbelt c = Seatbelt
    then \<exists>profile. pre = [SANDBOX_EXEC, ''-p'', profile] \<and> profile_confines os policy c profile else pre = []"
proof (cases "effective_sandbox_kind h Seatbelt c = Seatbelt")
  case True
  obtain socks grants where "unix_socket_paths os c = Inr socks" "mach_service_grants c = Inr grants"
      "pre = [SANDBOX_EXEC, ''-p'', seatbelt_profile_with os c (pathlist_resolve (sp_base_read_paths policy))
        (pathlist_resolve (sp_device_sink_paths policy)) socks grants]"
    using prefix_wraps [OF assms True] by metis
  then show ?thesis using True profile_confines_with by auto
qed (simp add: prefix_bare [OF assms])

definition mac_os :: seatbelt_os where
  "mac_os = \<lparr>sb_canonicalize = \<lambda>p. if p \<in> {[RootDir], components ''/work'', components ''/usr/bin/git''} then Some p else None,
     sb_is_file = \<lambda>p. p = components ''/usr/bin/git'', sb_is_socket = \<lambda>_. False,
     sb_wrapper_exists = True, sb_caller_is_root = False\<rparr>"

text \<open>A granted path whose leaf does not exist loses every \<^verbatim>\<open>..\<close> of its missing part: the root that anchors the rule is
  not the path that was granted.
\<close>

lemma missing_parent_dropped:
  "seatbelt_canonical_path mac_os ''/work/missing/../notes'' = Some ''/work/missing/notes''"
  by code_simp

end
