(* ===== verification/Landlock_Rules.thy ===== *)
theory Landlock_Rules
  imports Seatbelt_Profile
begin

text \<open>
  The Linux backend (\<^verbatim>\<open>landlock_impl\<close> in \<^verbatim>\<open>agent-bridle-core/src/sandbox.rs\<close>): the ruleset and the seccomp filter
  installed for a set of caveats, the resolution of exec grants with the alias of a trusted \<^verbatim>\<open>git\<close>, and the
  projection and closure that admission compares. The file system and the kernel's answers are a record; the
  access sets of the \<^verbatim>\<open>landlock\<close> crate are another.
\<close>

subsection \<open>The operating system and the crate\<close>

record OwnerMode =
  om_uid :: u32
  om_mode :: u32

datatype ABI = V1 | V2 | V3 | V4 | V5 | V6 | V7

datatype AccessFs =
    Execute | WriteFile | ReadFile | ReadDir | RemoveDir | RemoveFile | MakeChar | MakeDir | MakeReg | MakeSock
  | MakeFifo | MakeBlock | MakeSym | Refer | Truncate | IoctlDev

datatype AccessNet = BindTcp | ConnectTcp

datatype RulesetStatus = FullyEnforced | PartiallyEnforced | NotEnforced

record landlock_crate =
  fs_from_all :: "ABI \<Rightarrow> AccessFs list"
  from_write :: "ABI \<Rightarrow> AccessFs list"
  net_from_all :: "ABI \<Rightarrow> AccessNet list"

text \<open>A rule holds below the object it was opened on: a path, which is followed, or a held descriptor.\<close>

datatype anchor = AtPath string | AtImage path

record ruleset =
  rs_handled :: "AccessFs list"
  rs_handled_net :: "AccessNet list"
  rs_rules :: "(anchor \<times> AccessFs list) list"

text \<open>
  The rights the running kernel knows, which depend on its version, are part of its answers.
\<close>

record landlock_os =
  lo_exists :: "path \<Rightarrow> bool"
  lo_is_file :: "path \<Rightarrow> bool"
  lo_canonicalize :: "path \<Rightarrow> path option"
  lo_symlink_metadata :: "path \<Rightarrow> OwnerMode option"
  lo_metadata :: "path \<Rightarrow> (u64 \<times> u64) option"
  lo_read :: "path \<Rightarrow> bytes option"
  lo_content_id :: "bytes \<Rightarrow> bytes"
  lo_path_var :: "string option"
  lo_build :: "ruleset \<Rightarrow> string option"
  lo_kernel_fs :: "AccessFs list"
  lo_kernel_net :: "AccessNet list"
  lo_restrict_self :: "ruleset \<Rightarrow> string + RulesetStatus"
  lo_apply_filter :: "string option"

subsection \<open>The floors\<close>

definition abi_from_u32 :: "u32 \<Rightarrow> ABI" where
  "abi_from_u32 v =
     (if v = 0 \<or> v = 1 then V1 else if v = 2 then V2 else if v = 3 then V3 else if v = 4 then V4
      else if v = 5 then V5 else if v = 6 then V6 else V7)"

definition fs_abi_floor :: "SandboxPolicy \<Rightarrow> ABI" where
  "fs_abi_floor policy = abi_from_u32 (max (sp_landlock_abi_floor policy) 3)"

definition net_abi_floor :: "SandboxPolicy \<Rightarrow> ABI" where
  "net_abi_floor policy = abi_from_u32 (max (sp_landlock_net_abi_floor policy) 4)"

text \<open>
  The probe asks for the rights of the first version under \<^verbatim>\<open>HardRequirement\<close>, where a right the kernel does not
  know is an error. The ruleset itself is installed under \<^verbatim>\<open>BestEffort\<close>: a right the kernel does not know is left
  out of what is handled and of every rule.
\<close>

definition landlock_is_supported :: "landlock_crate \<Rightarrow> landlock_os \<Rightarrow> bool" where
  "landlock_is_supported cr os \<longleftrightarrow>
     list_all (\<lambda>right. right \<in> set (lo_kernel_fs os)) (fs_from_all cr V1) \<and>
     lo_build os \<lparr>rs_handled = fs_from_all cr V1, rs_handled_net = [], rs_rules = []\<rparr> = None"

definition best_effort :: "landlock_os \<Rightarrow> ruleset \<Rightarrow> ruleset" where
  "best_effort os rs =
     \<lparr>rs_handled = filter (\<lambda>right. right \<in> set (lo_kernel_fs os)) (rs_handled rs),
      rs_handled_net = filter (\<lambda>right. right \<in> set (lo_kernel_net os)) (rs_handled_net rs),
      rs_rules = map (\<lambda>(a, access). (a, filter (\<lambda>right. right \<in> set (lo_kernel_fs os)) access)) (rs_rules rs)\<rparr>"

subsection \<open>Exec grants\<close>

definition scope_roots :: "landlock_os \<Rightarrow> string Scope \<Rightarrow> string list" where
  "scope_roots os scope =
     (case scope of ScopeAll \<Rightarrow> [''/''] | ScopeOnly s \<Rightarrow> filter (\<lambda>p. lo_exists os (components p)) s)"

definition exec_search_dirs :: "landlock_os \<Rightarrow> string list" where
  "exec_search_dirs os =
     (let dirs = (case lo_path_var os of None \<Rightarrow> [] | Some p \<Rightarrow> filter (\<lambda>s. s \<noteq> []) (split_char CHR '':'' p))
      in if dirs \<noteq> [] then dirs
         else [''/usr/local/bin'', ''/usr/bin'', ''/bin'', ''/usr/local/sbin'', ''/usr/sbin'', ''/sbin''])"

definition mode_ok :: "OwnerMode \<Rightarrow> bool" where
  "mode_ok m \<longleftrightarrow> om_uid m = 0 \<and> and (om_mode m) 18 = 0"

function ancestry_passes :: "(path \<Rightarrow> OwnerMode option) \<Rightarrow> path \<Rightarrow> bool" where
  "ancestry_passes lookup p =
     (case lookup p of
        None \<Rightarrow> False
      | Some m \<Rightarrow>
          mode_ok m \<and>
          (case path_parent p of
             Some parent \<Rightarrow> if parent \<noteq> [] then ancestry_passes lookup parent else True
           | None \<Rightarrow> True))"
  by pat_completeness auto

termination ancestry_passes
  by (relation "measure (\<lambda>(_, p). length p)") (auto simp: path_parent_def split: if_splits)

declare ancestry_passes.simps [simp del]

definition ancestry_is_root_owned_and_unwritable :: "landlock_os \<Rightarrow> path \<Rightarrow> bool" where
  "ancestry_is_root_owned_and_unwritable os p = ancestry_passes (lo_symlink_metadata os) p"

definition same_image :: "landlock_os \<Rightarrow> path \<Rightarrow> path \<Rightarrow> bool" where
  "same_image os a b =
     (if (case (lo_metadata os a, lo_metadata os b) of (Some ma, Some mb) \<Rightarrow> ma = mb | _ \<Rightarrow> False) then True
      else (case (lo_read os a, lo_read os b) of
          (Some ba, Some bb) \<Rightarrow> lo_content_id os ba = lo_content_id os bb
        | _ \<Rightarrow> False))"

definition GIT_TRUSTED_DIRS :: "string list" where
  "GIT_TRUSTED_DIRS = [''/usr/bin'', ''/bin'', ''/usr/sbin'', ''/sbin'']"

definition GIT_EXEC_PATH_CANDIDATES :: "string list" where
  "GIT_EXEC_PATH_CANDIDATES = [''lib/git-core'', ''libexec/git-core'']"

fun git_alias :: "landlock_os \<Rightarrow> path \<Rightarrow> path \<Rightarrow> string list \<Rightarrow> string list" where
  "git_alias os canon_git_bin pre [] = []"
| "git_alias os canon_git_bin pre (candidate # rest) =
     (case lo_canonicalize os (pre @ components candidate @ [Normal ''git'']) of
        None \<Rightarrow> git_alias os canon_git_bin pre rest
      | Some exec_path_git \<Rightarrow>
          if exec_path_git = canon_git_bin then git_alias os canon_git_bin pre rest
          else if \<not> ancestry_is_root_owned_and_unwritable os exec_path_git then git_alias os canon_git_bin pre rest
          else if same_image os canon_git_bin exec_path_git then [lossy_text exec_path_git]
          else git_alias os canon_git_bin pre rest)"

definition git_exec_path_binaries :: "landlock_os \<Rightarrow> path \<Rightarrow> string list" where
  "git_exec_path_binaries os canon_git_bin =
     (if path_file_name canon_git_bin \<noteq> Some ''git'' then []
      else if \<not> ancestry_is_root_owned_and_unwritable os canon_git_bin then []
      else (case path_parent canon_git_bin of
          None \<Rightarrow> []
        | Some bin_dir \<Rightarrow>
            if \<not> list_ex (\<lambda>trusted. lo_canonicalize os (components trusted) = Some bin_dir) GIT_TRUSTED_DIRS then []
            else (case path_parent bin_dir of
                None \<Rightarrow> []
              | Some pre \<Rightarrow> git_alias os canon_git_bin pre GIT_EXEC_PATH_CANDIDATES)))"

definition exec_candidate :: "landlock_os \<Rightarrow> string \<Rightarrow> path option" where
  "exec_candidate os entry =
     (if CHR ''/'' \<in> set entry
      then if lo_exists os (components entry) then Some (components entry) else None
      else find (lo_is_file os) (map (\<lambda>d. components (d @ ''/'' @ entry)) (exec_search_dirs os)))"

definition resolve_entry :: "landlock_os \<Rightarrow> string \<Rightarrow> string list" where
  "resolve_entry os entry =
     (case exec_candidate os entry of
        None \<Rightarrow> []
      | Some p \<Rightarrow>
          (case lo_canonicalize os p of
             None \<Rightarrow> []
           | Some canon \<Rightarrow> git_exec_path_binaries os canon @ [lossy_text canon]))"

definition resolve_exec_paths :: "landlock_os \<Rightarrow> string Scope \<Rightarrow> string list" where
  "resolve_exec_paths os scope =
     (case scope of ScopeAll \<Rightarrow> [] | ScopeOnly s \<Rightarrow> concat (map (resolve_entry os) s))"

subsection \<open>The roots\<close>

record LandlockSandbox =
  ls_policy :: SandboxPolicy
  ls_exec_boundary :: ExecBoundary

definition landlock_with_policy :: "SandboxPolicy \<Rightarrow> LandlockSandbox" where
  "landlock_with_policy policy = \<lparr>ls_policy = policy, ls_exec_boundary = ProcessTree\<rparr>"

definition landlock_for_named_root :: "SandboxPolicy \<Rightarrow> LandlockSandbox" where
  "landlock_for_named_root policy = \<lparr>ls_policy = policy, ls_exec_boundary = NamedRoot\<rparr>"

definition is_only :: "'a Scope \<Rightarrow> bool" where
  "is_only s \<longleftrightarrow> s \<noteq> ScopeAll"

definition handles_execute :: "LandlockSandbox \<Rightarrow> Caveats \<Rightarrow> bool" where
  "handles_execute sb c \<longleftrightarrow> ls_exec_boundary sb = ProcessTree \<and> is_only (cav_exec c)"

definition existing :: "landlock_os \<Rightarrow> string list \<Rightarrow> string list" where
  "existing os roots = filter (\<lambda>p. lo_exists os (components p)) roots"

definition write_roots :: "landlock_os \<Rightarrow> LandlockSandbox \<Rightarrow> Caveats \<Rightarrow> string list" where
  "write_roots os sb c =
     existing os (scope_roots os (cav_fs_write c) @ pathlist_resolve (sp_device_sink_paths (ls_policy sb)))"

definition read_roots :: "landlock_os \<Rightarrow> LandlockSandbox \<Rightarrow> Caveats \<Rightarrow> bool \<Rightarrow> string list" where
  "read_roots os sb c confine_exec =
     existing os (scope_roots os (cav_fs_read c) @ pathlist_resolve (sp_base_read_paths (ls_policy sb)) @
       (if confine_exec then resolve_exec_paths os (cav_exec c) else pathlist_resolve (sp_bin_read_paths (ls_policy sb))))"

definition exec_roots :: "landlock_os \<Rightarrow> LandlockSandbox \<Rightarrow> Caveats \<Rightarrow> string list" where
  "exec_roots os sb c =
     existing os (resolve_exec_paths os (cav_exec c) @ pathlist_resolve (sp_loader_paths (ls_policy sb)))"

text \<open>\<^verbatim>\<open>Path::to_str\<close>: the text of a path that is valid UTF-8, which the lossy conversion leaves as it is.\<close>

definition to_str :: "path \<Rightarrow> string option" where
  "to_str p = (if lossy_text p = render_path p then Some (render_path p) else None)"

definition grant_roots_are_object_stable :: "landlock_os \<Rightarrow> string list \<Rightarrow> bool" where
  "grant_roots_are_object_stable os grant_roots =
     list_all (\<lambda>p. case lo_canonicalize os (components p) of Some canon \<Rightarrow> to_str canon = Some p | None \<Rightarrow> False) grant_roots"

subsection \<open>The ruleset\<close>

record worker_image =
  wi_is_file :: "io_error + bool"
  wi_object :: path

definition handled_rights :: "landlock_crate \<Rightarrow> LandlockSandbox \<Rightarrow> Caveats \<Rightarrow> AccessFs list" where
  "handled_rights cr sb c =
     from_write cr (fs_abi_floor (ls_policy sb)) @
     (if is_only (cav_fs_read c) then [ReadFile, ReadDir] else []) @
     (if handles_execute sb c then [Execute] else [])"

definition path_beneath_rules :: "string list \<Rightarrow> AccessFs list \<Rightarrow> (anchor \<times> AccessFs list) list" where
  "path_beneath_rules roots access = map (\<lambda>r. (AtPath r, access)) roots"

definition scope_remove :: "string \<Rightarrow> string Scope \<Rightarrow> string Scope" where
  "scope_remove program scope =
     (case scope of ScopeAll \<Rightarrow> ScopeAll | ScopeOnly s \<Rightarrow> ScopeOnly (filter (\<lambda>p. p \<noteq> program) s))"

definition path_caveats :: "Caveats \<Rightarrow> (string \<times> worker_image) option \<Rightarrow> Caveats" where
  "path_caveats c worker =
     (case worker of
        None \<Rightarrow> c
      | Some (program, _) \<Rightarrow>
          c\<lparr>cav_fs_read := scope_remove program (cav_fs_read c), cav_exec := scope_remove program (cav_exec c)\<rparr>)"

definition worker_rules :: "AccessFs list \<Rightarrow> (string \<times> worker_image) option \<Rightarrow> (anchor \<times> AccessFs list) list" where
  "worker_rules handled worker =
     (case worker of
        None \<Rightarrow> []
      | Some (_, img) \<Rightarrow>
          (let access = filter (\<lambda>r. r = ReadFile \<or> r = Execute) handled
           in if access = [] then [] else [(AtImage (wi_object img), access)]))"

definition landlock_ruleset ::
  "landlock_crate \<Rightarrow> landlock_os \<Rightarrow> LandlockSandbox \<Rightarrow> Caveats \<Rightarrow> (string \<times> worker_image) option \<Rightarrow> ruleset" where
  "landlock_ruleset cr os sb c worker =
     (let handled = handled_rights cr sb c;
          pc = path_caveats c worker
      in \<lparr>rs_handled = handled,
          rs_handled_net = (if net_fully_denied c then net_from_all cr (net_abi_floor (ls_policy sb)) else []),
          rs_rules =
            path_beneath_rules (write_roots os sb c) (from_write cr (fs_abi_floor (ls_policy sb))) @
            (if is_only (cav_fs_read c)
             then path_beneath_rules (read_roots os sb pc (is_only (cav_exec c))) [ReadFile, ReadDir] else []) @
            (if handles_execute sb c then path_beneath_rules (exec_roots os sb pc) [Execute] else []) @
            worker_rules handled worker\<rparr>)"

definition landlock_denied :: "string \<Rightarrow> ToolError" where
  "landlock_denied e = denied ''landlock: {e}'' [e]"

text \<open>
  The seccomp filter: for each system call the values of its first argument that are refused, all of them where
  none is listed. The argument is compared as a double word.
\<close>

datatype syscall = SYS_socket | SYS_io_uring_setup | SYS_io_uring_enter | SYS_io_uring_register | SYS_other nat

definition AF_UNIX :: u64 where "AF_UNIX = 1"
definition AF_INET :: u64 where "AF_INET = 2"
definition AF_INET6 :: u64 where "AF_INET6 = 10"
definition AF_PACKET :: u64 where "AF_PACKET = 17"

type_synonym seccomp_filter = "(syscall \<times> u64 list) list"

definition egress_deny_filter :: seccomp_filter where
  "egress_deny_filter =
     [(SYS_socket, [AF_INET, AF_INET6, AF_PACKET]), (SYS_io_uring_setup, []), (SYS_io_uring_enter, []), (SYS_io_uring_register, [])]"

definition seccomp_refuses :: "seccomp_filter \<Rightarrow> syscall \<Rightarrow> u64 \<Rightarrow> bool" where
  "seccomp_refuses filt call arg0 =
     (case map_of filt call of
        None \<Rightarrow> False
      | Some values \<Rightarrow> values = [] \<or> list_ex (\<lambda>v. (ucast v :: u32) = ucast arg0) values)"

text \<open>What a thread has put on itself. Rulesets and filters only ever add up.\<close>

record thread_limits =
  tl_rulesets :: "ruleset list"
  tl_filters :: "seccomp_filter list"

definition install_seccomp_egress_deny :: "landlock_os \<Rightarrow> thread_limits \<Rightarrow> thread_limits \<times> unit ToolResult" where
  "install_seccomp_egress_deny os limits =
     (case lo_apply_filter os of
        Some e \<Rightarrow> (limits, Inl (denied ''seccomp egress deny not installed: {e}'' [e]))
      | None \<Rightarrow> (limits\<lparr>tl_filters := egress_deny_filter # tl_filters limits\<rparr>, Inr ()))"

definition worker_check :: "(string \<times> worker_image) option \<Rightarrow> unit ToolResult" where
  "worker_check worker =
     (case worker of
        None \<Rightarrow> Inr ()
      | Some (_, img) \<Rightarrow>
          (case wi_is_file img of
             Inl e \<Rightarrow> Inl (Exec e)
           | Inr is_file \<Rightarrow>
               if is_file then Inr () else Inl (denied ''worker read/exec rule requires a regular file'' [])))"

definition apply_rules ::
  "landlock_crate \<Rightarrow> landlock_os \<Rightarrow> LandlockSandbox \<Rightarrow> Caveats \<Rightarrow> (string \<times> worker_image) option \<Rightarrow> thread_limits \<Rightarrow>
   thread_limits \<times> unit ToolResult" where
  "apply_rules cr os sb c worker limits =
     (case worker_check worker of
        Inl e \<Rightarrow> (limits, Inl e)
      | Inr _ \<Rightarrow>
          (let rs = landlock_ruleset cr os sb c worker
           in case lo_build os rs of
                Some e \<Rightarrow> (limits, Inl (landlock_denied e))
              | None \<Rightarrow>
                  (case lo_restrict_self os rs of
                     Inl e \<Rightarrow> (limits, Inl (landlock_denied e))
                   | Inr status \<Rightarrow>
                       if status = NotEnforced then (limits, Inl (denied ''landlock ruleset was not enforced by this kernel'' []))
                       else (let limits' = limits\<lparr>tl_rulesets := best_effort os rs # tl_rulesets limits\<rparr>
                             in if sp_child_network (ls_policy sb) = DenyDirect \<and> net_fully_denied c
                                then install_seccomp_egress_deny os limits' else (limits', Inr ())))))"

definition landlock_apply where
  "landlock_apply cr os sb c limits = apply_rules cr os sb c None limits"

definition apply_with_worker where
  "apply_with_worker cr os sb c program img limits = apply_rules cr os sb c (Some (program, img)) limits"

subsection \<open>Projection and closure\<close>

definition bounded_by :: "string list \<Rightarrow> ResolvedScope" where
  "bounded_by roots = Bounded (btree_extend [] roots) []"

definition landlock_resolved_authority :: "mesh \<Rightarrow> landlock_os \<Rightarrow> LandlockSandbox \<Rightarrow> Caveats \<Rightarrow> ResolvedAuthority" where
  "landlock_resolved_authority m os sb c =
     \<lparr>ra_fs_read =
        (if \<not> is_only (cav_fs_read c) then Unbounded
         else if \<not> grant_roots_are_object_stable os (scope_roots os (cav_fs_read c)) then UnknownScope
         else bounded_by (read_roots os sb c (is_only (cav_exec c)))),
      ra_fs_write =
        (if is_only (cav_fs_write c) \<and> \<not> grant_roots_are_object_stable os (scope_roots os (cav_fs_write c)) then UnknownScope
         else if \<not> is_only (cav_fs_write c) then Unbounded
         else bounded_by (write_roots os sb c)),
      ra_exec = (if handles_execute sb c then bounded_by (exec_roots os sb c) else Unbounded),
      ra_net =
        (if cav_net c = ScopeAll then Unbounded
         else if net_fully_denied c \<and> sp_child_network (ls_policy sb) = DenyDirect then mesh_from_scope m (cav_net c)
         else UnknownScope)\<rparr>"

definition reaches_private :: "landlock_os \<Rightarrow> string \<Rightarrow> bool" where
  "reaches_private os entry \<longleftrightarrow>
     entry_reaches_harness_private entry \<or>
     (case lo_canonicalize os (components entry) of
        None \<Rightarrow> False
      | Some canon \<Rightarrow> (case to_str canon of None \<Rightarrow> False | Some s \<Rightarrow> entry_reaches_harness_private s))"

definition harness_safe_bounded :: "landlock_os \<Rightarrow> LandlockSandbox \<Rightarrow> string list \<Rightarrow> ResolvedScope" where
  "harness_safe_bounded os sb s =
     (if ls_exec_boundary sb = NamedRoot then bounded_by s
      else if list_ex (reaches_private os) s then UnknownScope
      else bounded_by s)"

definition landlock_runtime_closure :: "mesh \<Rightarrow> landlock_os \<Rightarrow> LandlockSandbox \<Rightarrow> Caveats \<Rightarrow> ResolvedAuthority" where
  "landlock_runtime_closure m os sb c =
     \<lparr>ra_fs_read = harness_safe_bounded os sb (existing os (pathlist_resolve (sp_base_read_paths (ls_policy sb)) @
        (if is_only (cav_exec c) then resolve_exec_paths os (cav_exec c) else pathlist_resolve (sp_bin_read_paths (ls_policy sb))))),
      ra_fs_write = harness_safe_bounded os sb (existing os (pathlist_resolve (sp_device_sink_paths (ls_policy sb)))),
      ra_exec = harness_safe_bounded os sb
        (if handles_execute sb c
         then existing os (resolve_exec_paths os (cav_exec c) @ pathlist_resolve (sp_loader_paths (ls_policy sb))) else []),
      ra_net = mesh_empty m\<rparr>"

subsection \<open>What a confined thread may do\<close>

text \<open>
  An access whose right a ruleset handles needs a rule at or above its object, and so does \<^const>\<open>Refer\<close>, which Landlock
  denies by default, handled or not; rulesets and filters of a thread all have to agree. A path in a rule stands for
  the object it resolves to.
\<close>

definition anchor_object :: "landlock_os \<Rightarrow> anchor \<Rightarrow> path option" where
  "anchor_object os a = (case a of AtPath s \<Rightarrow> lo_canonicalize os (components s) | AtImage p \<Rightarrow> Some p)"

definition ruleset_allows :: "landlock_os \<Rightarrow> ruleset \<Rightarrow> AccessFs \<Rightarrow> path \<Rightarrow> bool" where
  "ruleset_allows os rs right target \<longleftrightarrow>
     right \<notin> set (rs_handled rs) \<and> right \<noteq> Refer \<or>
     list_ex (\<lambda>(a, access). right \<in> set access \<and>
       (case anchor_object os a of None \<Rightarrow> False | Some p \<Rightarrow> prefix p target)) (rs_rules rs)"

definition thread_allows :: "landlock_os \<Rightarrow> thread_limits \<Rightarrow> AccessFs \<Rightarrow> path \<Rightarrow> bool" where
  "thread_allows os limits right target = list_all (\<lambda>rs. ruleset_allows os rs right target) (tl_rulesets limits)"

definition thread_tcp :: "thread_limits \<Rightarrow> AccessNet \<Rightarrow> bool" where
  "thread_tcp limits right = list_all (\<lambda>rs. right \<notin> set (rs_handled_net rs)) (tl_rulesets limits)"

definition thread_calls :: "thread_limits \<Rightarrow> syscall \<Rightarrow> u64 \<Rightarrow> bool" where
  "thread_calls limits call arg0 = list_all (\<lambda>f. \<not> seccomp_refuses f call arg0) (tl_filters limits)"

definition beneath :: "landlock_os \<Rightarrow> string \<Rightarrow> path \<Rightarrow> bool" where
  "beneath os s target = (case lo_canonicalize os (components s) of None \<Rightarrow> False | Some p \<Rightarrow> prefix p target)"

definition unlimited :: thread_limits where
  "unlimited = \<lparr>tl_rulesets = [], tl_filters = []\<rparr>"

text \<open>What the crate documents of its access sets.\<close>

definition crate_documented :: "landlock_crate \<Rightarrow> bool" where
  "crate_documented cr \<longleftrightarrow>
     set (fs_from_all cr V1) = {Execute, WriteFile, ReadFile, ReadDir, RemoveDir, RemoveFile, MakeChar, MakeDir, MakeReg,
       MakeSock, MakeFifo, MakeBlock, MakeSym} \<and>
     (\<forall>abi. set (from_write cr abi) \<inter> {Execute, ReadFile, ReadDir} = {}) \<and>
     (\<forall>abi\<in>{V3, V4, V5, V6, V7}. {WriteFile, RemoveFile, RemoveDir, MakeReg, MakeDir, MakeSym, Refer, Truncate} \<subseteq> set (from_write cr abi)) \<and>
     (\<forall>abi\<in>{V4, V5, V6, V7}. set (net_from_all cr abi) = {BindTcp, ConnectTcp})"

lemma fs_abi_floor_range: "fs_abi_floor policy \<in> {V3, V4, V5, V6, V7}"
proof -
  have "max v 3 \<noteq> 0" "max v 3 \<noteq> 1" "max v 3 \<noteq> 2" for v :: u32
    by (auto simp: max_def not_le word_less_nat_alt word_le_nat_alt)
  then show ?thesis by (simp add: fs_abi_floor_def abi_from_u32_def)
qed

lemma net_abi_floor_range: "net_abi_floor policy \<in> {V4, V5, V6, V7}"
proof -
  have "max v 4 \<noteq> 0" "max v 4 \<noteq> 1" "max v 4 \<noteq> 2" "max v 4 \<noteq> 3" for v :: u32
    by (auto simp: max_def not_le word_less_nat_alt word_le_nat_alt)
  then show ?thesis by (simp add: net_abi_floor_def abi_from_u32_def)
qed

lemma apply_rules_ok:
  assumes "apply_rules cr os sb c worker limits = (limits', Inr ())"
  shows "tl_rulesets limits' = best_effort os (landlock_ruleset cr os sb c worker) # tl_rulesets limits"
    "tl_filters limits' =
      (if sp_child_network (ls_policy sb) = DenyDirect \<and> net_fully_denied c then egress_deny_filter # tl_filters limits else tl_filters limits)"
  using assms
  by (auto simp: apply_rules_def Let_def install_seccomp_egress_deny_def split: sum.splits option.splits if_splits)

lemma beneath_rules:
  "list_ex (\<lambda>(a, access). right \<in> set access \<and> (case anchor_object os a of None \<Rightarrow> False | Some p \<Rightarrow> prefix p target))
     (path_beneath_rules roots access) \<longleftrightarrow> right \<in> set access \<and> (\<exists>s\<in>set roots. beneath os s target)"
  by (auto simp: path_beneath_rules_def list_ex_iff anchor_object_def beneath_def)

lemma best_effort_allows:
  "right \<in> set (lo_kernel_fs os) \<Longrightarrow> ruleset_allows os (best_effort os rs) right target = ruleset_allows os rs right target"
  "right \<notin> set (lo_kernel_fs os) \<Longrightarrow> ruleset_allows os (best_effort os rs) right target = (right \<noteq> Refer)"
  by (auto simp: ruleset_allows_def best_effort_def list_ex_iff split: prod.splits)

lemma image_anchor: "anchor_object os (AtImage p) = Some p"
  by (simp add: anchor_object_def)

lemma ruleset_exact:
  assumes "crate_documented cr"
  shows "right \<in> set (from_write cr (fs_abi_floor (ls_policy sb))) \<Longrightarrow>
      ruleset_allows os (landlock_ruleset cr os sb c None) right target \<longleftrightarrow> (\<exists>s\<in>set (write_roots os sb c). beneath os s target)"
    "right \<in> {ReadFile, ReadDir} \<Longrightarrow>
      ruleset_allows os (landlock_ruleset cr os sb c None) right target \<longleftrightarrow>
      is_only (cav_fs_read c) \<longrightarrow> (\<exists>s\<in>set (read_roots os sb c (is_only (cav_exec c))). beneath os s target)"
    "ruleset_allows os (landlock_ruleset cr os sb c None) Execute target \<longleftrightarrow>
      handles_execute sb c \<longrightarrow> (\<exists>s\<in>set (exec_roots os sb c). beneath os s target)"
proof -
  have w: "set (from_write cr (fs_abi_floor (ls_policy sb))) \<inter> {Execute, ReadFile, ReadDir} = {}"
    using assms by (simp add: crate_documented_def)
  note defs = ruleset_allows_def landlock_ruleset_def Let_def path_caveats_def worker_rules_def handled_rights_def beneath_rules
  show "right \<in> set (from_write cr (fs_abi_floor (ls_policy sb))) \<Longrightarrow>
      ruleset_allows os (landlock_ruleset cr os sb c None) right target \<longleftrightarrow> (\<exists>s\<in>set (write_roots os sb c). beneath os s target)"
    using w by (auto simp: defs)
  show "right \<in> {ReadFile, ReadDir} \<Longrightarrow>
      ruleset_allows os (landlock_ruleset cr os sb c None) right target \<longleftrightarrow>
      is_only (cav_fs_read c) \<longrightarrow> (\<exists>s\<in>set (read_roots os sb c (is_only (cav_exec c))). beneath os s target)"
    using w by (auto simp: defs)
  show "ruleset_allows os (landlock_ruleset cr os sb c None) Execute target \<longleftrightarrow>
      handles_execute sb c \<longrightarrow> (\<exists>s\<in>set (exec_roots os sb c). beneath os s target)"
    using w by (auto simp: defs)
qed

definition write_rights :: "AccessFs set" where
  "write_rights = {WriteFile, RemoveFile, RemoveDir, MakeReg, MakeDir, MakeSym, Refer, Truncate}"

text \<open>Two rights of the write set are younger than the first version, which is all that the probe asks for.\<close>

lemma supported_knows:
  assumes "crate_documented cr" "landlock_is_supported cr os"
  shows "right \<in> {Execute, ReadFile, ReadDir} \<Longrightarrow> right \<in> set (lo_kernel_fs os)"
    "right \<in> write_rights \<Longrightarrow> right \<notin> {Refer, Truncate} \<Longrightarrow> right \<in> set (lo_kernel_fs os)"
  using assms by (auto simp: crate_documented_def landlock_is_supported_def list_all_iff write_rights_def)

lemma installed:
  assumes "crate_documented cr" "apply_rules cr os sb c None unlimited = (limits, Inr ())"
  shows "right \<in> write_rights \<Longrightarrow> right \<in> set (lo_kernel_fs os) \<Longrightarrow>
      thread_allows os limits right target \<longleftrightarrow> (\<exists>s\<in>set (write_roots os sb c). beneath os s target)"
    "right \<in> {ReadFile, ReadDir} \<Longrightarrow> right \<in> set (lo_kernel_fs os) \<Longrightarrow> thread_allows os limits right target \<longleftrightarrow>
      is_only (cav_fs_read c) \<longrightarrow> (\<exists>s\<in>set (read_roots os sb c (is_only (cav_exec c))). beneath os s target)"
    "Execute \<in> set (lo_kernel_fs os) \<Longrightarrow> thread_allows os limits Execute target \<longleftrightarrow>
      handles_execute sb c \<longrightarrow> (\<exists>s\<in>set (exec_roots os sb c). beneath os s target)"
    "right \<notin> set (lo_kernel_fs os) \<Longrightarrow> right \<noteq> Refer \<Longrightarrow> thread_allows os limits right target"
    "thread_tcp limits net_right \<longleftrightarrow> \<not> (net_fully_denied c \<and> net_right \<in> set (lo_kernel_net os))"
    "tl_filters limits = (if sp_child_network (ls_policy sb) = DenyDirect \<and> net_fully_denied c then [egress_deny_filter] else [])"
proof -
  note ok = apply_rules_ok [OF assms(2)]
  have one: "thread_allows os limits right target =
      ruleset_allows os (best_effort os (landlock_ruleset cr os sb c None)) right target" for right
    by (simp add: thread_allows_def ok unlimited_def)
  have "write_rights \<subseteq> set (from_write cr (fs_abi_floor (ls_policy sb)))"
    using assms(1) fs_abi_floor_range [of "ls_policy sb"] unfolding crate_documented_def write_rights_def by blast
  then show "right \<in> write_rights \<Longrightarrow> right \<in> set (lo_kernel_fs os) \<Longrightarrow>
      thread_allows os limits right target \<longleftrightarrow> (\<exists>s\<in>set (write_roots os sb c). beneath os s target)"
    using ruleset_exact(1) [OF assms(1)] one best_effort_allows(1) by blast
  have "set (net_from_all cr (net_abi_floor (ls_policy sb))) = {BindTcp, ConnectTcp}"
    using assms(1) net_abi_floor_range [of "ls_policy sb"] unfolding crate_documented_def by blast
  then show "thread_tcp limits net_right \<longleftrightarrow> \<not> (net_fully_denied c \<and> net_right \<in> set (lo_kernel_net os))"
    by (cases net_right) (auto simp: thread_tcp_def ok unlimited_def best_effort_def landlock_ruleset_def Let_def)
qed (simp_all add: best_effort_allows ruleset_exact [OF assms(1)] apply_rules_ok [OF assms(2)] thread_allows_def unlimited_def)

lemma egress_filter [simp]:
  "fam \<in> {AF_INET, AF_INET6, AF_PACKET} \<Longrightarrow> seccomp_refuses egress_deny_filter SYS_socket fam"
  "call \<in> {SYS_io_uring_setup, SYS_io_uring_enter, SYS_io_uring_register} \<Longrightarrow> seccomp_refuses egress_deny_filter call arg0"
  "\<not> seccomp_refuses egress_deny_filter SYS_socket AF_UNIX"
  by (auto simp: egress_deny_filter_def seccomp_refuses_def AF_INET_def AF_INET6_def AF_PACKET_def AF_UNIX_def)



lemma stable_roots:
  assumes "grant_roots_are_object_stable os (scope_roots os (ScopeOnly grants))" "s \<in> set (scope_roots os (ScopeOnly grants))"
    "beneath os s target"
  shows "\<exists>p. s \<in> set grants \<and> render_path p = s \<and> prefix p target"
  using assms by (auto simp: grant_roots_are_object_stable_def scope_roots_def beneath_def list_all_iff to_str_def split: option.splits if_splits) 

lemma closure_entries:
  "harness_safe_bounded os sb s = Bounded cs k \<Longrightarrow> set cs = set s"
  by (auto simp: harness_safe_bounded_def bounded_by_def split: if_splits)

definition in_closure :: "landlock_os \<Rightarrow> ResolvedScope \<Rightarrow> path \<Rightarrow> bool" where
  "in_closure os closure target =
     (case closure of Bounded entries _ \<Rightarrow> list_ex (\<lambda>d. beneath os d target \<and> \<not> reaches_private os d) entries | _ \<Rightarrow> False)"

definition in_grant :: "string Scope \<Rightarrow> path \<Rightarrow> bool" where
  "in_grant scope target \<longleftrightarrow> (\<exists>p. scope_has scope (render_path p) \<and> prefix p target)"

lemma closure_in:
  assumes "axis_harness_disjoint (harness_safe_bounded os (landlock_with_policy policy) roots)" "s \<in> set roots" "beneath os s target"
  shows "in_closure os (harness_safe_bounded os (landlock_with_policy policy) roots) target"
  using assms by (auto simp: in_closure_def harness_safe_bounded_def bounded_by_def landlock_with_policy_def axis_harness_disjoint_def list_ex_iff
    split: if_splits)

lemma root_covered:
  assumes "grant_roots_are_object_stable os (scope_roots os scope)" "scope \<noteq> ScopeAll"
    "axis_harness_disjoint (harness_safe_bounded os (landlock_with_policy policy) (existing os extra))"
    "s \<in> set (existing os (scope_roots os scope @ extra))" "beneath os s target"
  shows "in_grant scope target \<or> in_closure os (harness_safe_bounded os (landlock_with_policy policy) (existing os extra)) target"
proof (cases "s \<in> set (existing os extra)")
  case True
  then show ?thesis using closure_in [OF assms(3) True assms(5)] by simp
next
  case False
  obtain grants where g: "scope = ScopeOnly grants" using assms(2) by (cases scope) auto
  from False assms(4) have "s \<in> set (scope_roots os (ScopeOnly grants))" by (auto simp: existing_def g)
  from stable_roots [OF assms(1) [unfolded g] this assms(5)] show ?thesis by (auto simp: in_grant_def g)
qed

text \<open>What a thread's limits leave of the granted access: of the rights that the probe asks for, and of the two younger ones
  and TCP where the kernel knows them.
\<close>

definition confined_right :: "landlock_os \<Rightarrow> AccessFs \<Rightarrow> bool" where
  "confined_right os right \<longleftrightarrow> right \<notin> {Refer, Truncate} \<or> right \<in> set (lo_kernel_fs os)"

text \<open>A bounded axis is a granted axis. Where the projection that admission compares bounds an axis and the declared
  closure passes its check, a confined thread modifies or reads only below a granted root -- the literal path,
  which is its own resolution -- or below an entry of the declared closure that does not lead into a private
  store, executes only below an entry of the closure, and, with the network bounded, has no internet or packet
  socket, no \<^verbatim>\<open>io_uring\<close>, and no TCP right that the kernel knows.
\<close>

theorem bounded_axes_are_granted:
  assumes "crate_documented cr" "landlock_is_supported cr os"
    "apply_rules cr os (landlock_with_policy policy) c None unlimited = (limits, Inr ())"
    "projection = landlock_resolved_authority m os (landlock_with_policy policy) c"
    "closure = landlock_runtime_closure m os (landlock_with_policy policy) c" "closure_is_harness_disjoint closure"
  shows "(ra_fs_write projection \<notin> {Unbounded, UnknownScope} \<longrightarrow>
      (\<forall>right\<in>write_rights. confined_right os right \<longrightarrow>
        thread_allows os limits right target \<longrightarrow> in_grant (cav_fs_write c) target \<or> in_closure os (ra_fs_write closure) target)) \<and>
    (ra_fs_read projection \<notin> {Unbounded, UnknownScope} \<longrightarrow>
      (\<forall>right\<in>{ReadFile, ReadDir}.
        thread_allows os limits right target \<longrightarrow> in_grant (cav_fs_read c) target \<or> in_closure os (ra_fs_read closure) target)) \<and>
    (ra_exec projection \<notin> {Unbounded, UnknownScope} \<longrightarrow>
      thread_allows os limits Execute target \<longrightarrow> in_closure os (ra_exec closure) target) \<and>
    (ra_net projection \<notin> {Unbounded, UnknownScope} \<longrightarrow>
      (\<forall>right\<in>set (lo_kernel_net os). \<not> thread_tcp limits right) \<and>
      (\<forall>fam\<in>{AF_INET, AF_INET6, AF_PACKET}. \<not> thread_calls limits SYS_socket fam) \<and>
      (\<forall>call\<in>{SYS_io_uring_setup, SYS_io_uring_enter, SYS_io_uring_register}. \<forall>arg0. \<not> thread_calls limits call arg0))"
proof -
  note fence = installed [OF assms(1,3)]
  note known = supported_knows [OF assms(1,2)]
  note projected = assms(4,5) landlock_resolved_authority_def landlock_runtime_closure_def is_only_def
  have checked: "axis_harness_disjoint (ra_fs_write closure)" "axis_harness_disjoint (ra_fs_read closure)" "axis_harness_disjoint (ra_exec closure)"
    using assms(6) by (simp_all add: closure_is_harness_disjoint_def)
  have "in_grant (cav_fs_write c) target \<or> in_closure os (ra_fs_write closure) target"
    if "ra_fs_write projection \<notin> {Unbounded, UnknownScope}" "right \<in> write_rights" "confined_right os right"
      "thread_allows os limits right target" for right
  proof -
    have "right \<in> set (lo_kernel_fs os)" using that(3) known(2) [OF that(2)] by (auto simp: confined_right_def)
    from that(4) [unfolded fence(1) [OF that(2) this]] show ?thesis
      using that(1) checked(1) root_covered [of os "cav_fs_write c" policy _ _ target]
      by (auto simp: projected write_roots_def split: if_splits)
  qed
  moreover have "in_grant (cav_fs_read c) target \<or> in_closure os (ra_fs_read closure) target"
    if "ra_fs_read projection \<notin> {Unbounded, UnknownScope}" "right \<in> {ReadFile, ReadDir}" "thread_allows os limits right target" for right
  proof -
    have "right \<in> set (lo_kernel_fs os)" using known(1) [of right] that(2) by blast
    from that(3) [unfolded fence(2) [OF that(2) this]] show ?thesis
      using that(1) checked(2) root_covered [of os "cav_fs_read c" policy _ _ target]
      by (auto simp: projected read_roots_def split: if_splits)
  qed
  moreover have "in_closure os (ra_exec closure) target"
    if "ra_exec projection \<notin> {Unbounded, UnknownScope}" "thread_allows os limits Execute target"
    using that checked(3) closure_in [of os policy _ _ target]
    by (auto simp: fence(3) [OF known(1)] projected exec_roots_def split: if_splits)
  moreover have "net_fully_denied c \<and> sp_child_network policy = DenyDirect" if "ra_net projection \<notin> {Unbounded, UnknownScope}"
    using that by (simp add: projected landlock_with_policy_def split: if_splits)
  ultimately show ?thesis
    by (auto simp: fence(5,6) thread_calls_def landlock_with_policy_def)
qed

text \<open>A worker is let in by its held descriptor, never by its name: the name is taken out of the grants before they are
  resolved, and what is added is the object behind the descriptor alone.
\<close>

lemma worker_exception_exact:
  assumes "crate_documented cr"
    "apply_with_worker cr os sb c program img unlimited = (limits, Inr ())" "Execute \<in> set (lo_kernel_fs os)"
  shows "thread_allows os limits Execute target \<longleftrightarrow>
      handles_execute sb c \<longrightarrow> prefix (wi_object img) target \<or>
        (\<exists>s\<in>set (exec_roots os sb (c\<lparr>cav_exec := scope_remove program (cav_exec c)\<rparr>)). beneath os s target)"
    "wi_is_file img = Inr True"
proof -
  have ok: "apply_rules cr os sb c (Some (program, img)) unlimited = (limits, Inr ())"
    using assms(2) by (simp add: apply_with_worker_def)
  have w: "Execute \<notin> set (from_write cr (fs_abi_floor (ls_policy sb)))"
    using assms(1) by (auto simp: crate_documented_def)
  have same: "exec_roots os sb (path_caveats c (Some (program, img))) = exec_roots os sb (c\<lparr>cav_exec := scope_remove program (cav_exec c)\<rparr>)"
    by (simp add: exec_roots_def path_caveats_def)
  show "thread_allows os limits Execute target \<longleftrightarrow>
      handles_execute sb c \<longrightarrow> prefix (wi_object img) target \<or>
        (\<exists>s\<in>set (exec_roots os sb (c\<lparr>cav_exec := scope_remove program (cav_exec c)\<rparr>)). beneath os s target)"
    unfolding same [symmetric] thread_allows_def apply_rules_ok [OF ok] using w
    by (simp add: unlimited_def best_effort_allows(1) [OF assms(3)])
      (auto simp: ruleset_allows_def landlock_ruleset_def Let_def worker_rules_def handled_rights_def beneath_rules image_anchor
        split: if_splits)
  show "wi_is_file img = Inr True"
    using ok by (auto simp: apply_rules_def worker_check_def split: sum.splits if_splits)
qed

subsection \<open>The alias of a trusted git\<close>

definition absolute :: "path \<Rightarrow> bool" where
  "absolute p \<longleftrightarrow> p \<noteq> [] \<and> hd p = RootDir \<and> list_all (\<lambda>c. case c of Normal _ \<Rightarrow> True | _ \<Rightarrow> False) (tl p)"

lemma absolute_iff: "absolute p \<longleftrightarrow> (\<exists>names. p = RootDir # map Normal names)"
proof -
  have "list_all (\<lambda>c. case c of Normal _ \<Rightarrow> True | _ \<Rightarrow> False) cs \<longleftrightarrow> (\<exists>names. cs = map Normal names)" for cs
    by (induction cs) (auto simp: Cons_eq_map_conv split: component.splits)
  then show ?thesis by (cases p) (auto simp: absolute_def)
qed

text \<open>\<^verbatim>\<open>canonicalize\<close> answers with an absolute path without dots.\<close>

definition canonicalize_documented :: "landlock_os \<Rightarrow> bool" where
  "canonicalize_documented os \<longleftrightarrow> (\<forall>p q. lo_canonicalize os p = Some q \<longrightarrow> absolute q)"

definition root_owned :: "(path \<Rightarrow> OwnerMode option) \<Rightarrow> path \<Rightarrow> bool" where
  "root_owned lookup p = (case lookup p of None \<Rightarrow> False | Some m \<Rightarrow> mode_ok m)"

lemma ancestry_exact:
  assumes "absolute p"
  shows "ancestry_passes lookup p \<longleftrightarrow> (\<forall>q. q \<noteq> [] \<and> prefix q p \<longrightarrow> root_owned lookup q)"
proof -
  obtain names where p: "p = RootDir # map Normal names" using assms by (auto simp: absolute_iff)
  have "ancestry_passes lookup (RootDir # map Normal names) \<longleftrightarrow>
    (\<forall>q. q \<noteq> [] \<and> prefix q (RootDir # map Normal names) \<longrightarrow> root_owned lookup q)"
  proof (induction names rule: rev_induct)
    case Nil
    have "ancestry_passes lookup [RootDir] \<longleftrightarrow> root_owned lookup [RootDir]"
      by (subst ancestry_passes.simps) (simp add: path_parent_def root_owned_def split: option.split)
    moreover have "q \<noteq> [] \<and> prefix q [RootDir] \<longleftrightarrow> q = [RootDir]" for q by (cases q) auto
    ultimately show ?case by simp
  next
    case (snoc n names)
    let ?up = "RootDir # map Normal names"
    have "ancestry_passes lookup (?up @ [Normal n]) \<longleftrightarrow> root_owned lookup (?up @ [Normal n]) \<and> ancestry_passes lookup ?up"
      by (subst ancestry_passes.simps) (simp add: path_parent_def root_owned_def butlast_append split: option.split)
    moreover have "prefix q (?up @ [Normal n]) \<longleftrightarrow> q = ?up @ [Normal n] \<or> prefix q ?up" for q
      by (rule prefix_snoc)
    ultimately show ?case using snoc by auto
  qed
  then show ?thesis by (simp add: p)
qed

lemma git_alias_in:
  "s \<in> set (git_alias os canon pre candidates) \<Longrightarrow>
   \<exists>p twin. lo_canonicalize os p = Some twin \<and> s = lossy_text twin \<and> ancestry_is_root_owned_and_unwritable os twin \<and> same_image os canon twin"
  by (induction candidates) (auto split: option.splits if_splits)

definition trusted_twin :: "landlock_os \<Rightarrow> path \<Rightarrow> path \<Rightarrow> bool" where
  "trusted_twin os canon twin \<longleftrightarrow>
     path_file_name canon = Some ''git'' \<and>
     list_ex (\<lambda>d. lo_canonicalize os (components d) = Some (butlast canon)) GIT_TRUSTED_DIRS \<and>
     (\<forall>q. q \<noteq> [] \<and> (prefix q canon \<or> prefix q twin) \<longrightarrow> root_owned (lo_symlink_metadata os) q) \<and>
     (lo_metadata os canon = lo_metadata os twin \<and> lo_metadata os canon \<noteq> None \<or>
      (\<exists>a b. lo_read os canon = Some a \<and> lo_read os twin = Some b \<and> lo_content_id os a = lo_content_id os b))"

text \<open>C21. Only what was granted, and one alias. Every path that resolving the exec grants yields is the resolution of a
  grant, or it is the second name of a granted \<^verbatim>\<open>git\<close>: both lie, with every directory above them, in root's
  hands and writable by nobody else, the granted one directly in a trusted directory, and the two are one file
  or have one content address.
\<close>

theorem exec_additions_are_trusted:
  assumes "canonicalize_documented os" "s \<in> set (resolve_exec_paths os (ScopeOnly grants))"
  shows "\<exists>entry\<in>set grants. \<exists>p canon. exec_candidate os entry = Some p \<and> lo_canonicalize os p = Some canon \<and>
    (s = lossy_text canon \<or> (\<exists>twin. s = lossy_text twin \<and> trusted_twin os canon twin))"
proof -
  from assms(2) obtain entry where g: "entry \<in> set grants" "s \<in> set (resolve_entry os entry)"
    by (auto simp: resolve_exec_paths_def)
  from g(2) obtain p canon where entry: "exec_candidate os entry = Some p" "lo_canonicalize os p = Some canon"
    and s: "s \<in> set (git_exec_path_binaries os canon) \<or> s = lossy_text canon"
    by (cases "exec_candidate os entry"; cases "lo_canonicalize os (the (exec_candidate os entry))") (auto simp: resolve_entry_def)
  note entry = g(1) entry
  show ?thesis
  proof (cases "s = lossy_text canon")
    case True
    then show ?thesis using entry by auto
  next
    case False
    with s have "s \<in> set (git_exec_path_binaries os canon)" by simp
    then obtain pre where git: "path_file_name canon = Some ''git''" "ancestry_is_root_owned_and_unwritable os canon"
        "list_ex (\<lambda>d. lo_canonicalize os (components d) = Some (butlast canon)) GIT_TRUSTED_DIRS"
        "s \<in> set (git_alias os canon pre GIT_EXEC_PATH_CANDIDATES)"
      by (auto simp: git_exec_path_binaries_def path_parent_def split: if_splits option.splits)
    from git_alias_in [OF git(4)] obtain p' twin where al: "lo_canonicalize os p' = Some twin" "s = lossy_text twin"
      "ancestry_is_root_owned_and_unwritable os twin" "same_image os canon twin" by auto
    have "absolute canon" "absolute twin" using assms(1) entry(3) al(1) by (auto simp: canonicalize_documented_def)
    then have "\<forall>q. q \<noteq> [] \<and> (prefix q canon \<or> prefix q twin) \<longrightarrow> root_owned (lo_symlink_metadata os) q"
      using git(2) al(3) by (auto simp: ancestry_is_root_owned_and_unwritable_def ancestry_exact)
    moreover have "lo_metadata os canon = lo_metadata os twin \<and> lo_metadata os canon \<noteq> None \<or>
         (\<exists>a b. lo_read os canon = Some a \<and> lo_read os twin = Some b \<and> lo_content_id os a = lo_content_id os b)"
      using al(4) by (auto simp: same_image_def split: option.splits if_splits)
    ultimately show ?thesis using entry al(2) git(1,3) unfolding trusted_twin_def by blast
  qed
qed

subsection \<open>Instances\<close>

definition linux_paths :: "path list" where
  "linux_paths = map components [''/'', ''/usr/bin'', ''/usr/bin/git'', ''/usr/lib/git-core/git'', ''/work'', ''/opt/tools'']"

definition first_rights :: "AccessFs list" where
  "first_rights = [Execute, WriteFile, ReadFile, ReadDir, RemoveDir, RemoveFile, MakeChar, MakeDir, MakeReg, MakeSock,
     MakeFifo, MakeBlock, MakeSym]"

definition linux_rights :: "AccessFs list" where
  "linux_rights = first_rights @ [Refer, Truncate, IoctlDev]"

definition linux_os :: landlock_os where
  "linux_os = \<lparr>lo_exists = \<lambda>p. p \<in> set linux_paths,
     lo_is_file = \<lambda>p. p \<in> {components ''/usr/bin/git'', components ''/usr/lib/git-core/git''},
     lo_canonicalize = \<lambda>p. if p \<in> set linux_paths then Some p else None,
     lo_symlink_metadata = \<lambda>_. Some \<lparr>om_uid = 0, om_mode = 493\<rparr>, lo_metadata = \<lambda>_. Some (1, 2), lo_read = \<lambda>_. None,
     lo_content_id = id, lo_path_var = None, lo_build = \<lambda>_. None, lo_kernel_fs = linux_rights,
     lo_kernel_net = [BindTcp, ConnectTcp], lo_restrict_self = \<lambda>_. Inr FullyEnforced, lo_apply_filter = None\<rparr>"

definition linux_crate :: landlock_crate where
  "linux_crate = \<lparr>fs_from_all = \<lambda>v. if v = V1 then first_rights else linux_rights,
     from_write = \<lambda>_. [WriteFile, RemoveFile, RemoveDir, MakeReg, MakeDir, MakeSym, Refer, Truncate],
     net_from_all = \<lambda>_. [BindTcp, ConnectTcp]\<rparr>"

definition linux_policy :: SandboxPolicy where
  "linux_policy = (sandbox_default False)\<lparr>sp_child_network := DenyDirect\<rparr>"

definition linux_grant :: Caveats where
  "linux_grant = caveats_top\<lparr>cav_fs_write := ScopeOnly [''/work''], cav_exec := ScopeOnly [''git''], cav_net := ScopeOnly []\<rparr>"

abbreviation linux_limits :: "Caveats \<Rightarrow> thread_limits" where
  "linux_limits c \<equiv> fst (apply_rules linux_crate linux_os (landlock_with_policy linux_policy) c None unlimited)"

lemma linux_crate_documented: "crate_documented linux_crate"
  by (simp add: crate_documented_def linux_crate_def first_rights_def)

lemma linux_kernel [simp]: "set (lo_kernel_fs linux_os) = UNIV" "set (lo_kernel_net linux_os) = UNIV"
proof -
  have "right \<in> set (lo_kernel_fs linux_os)" "net_right \<in> set (lo_kernel_net linux_os)" for right net_right
    by (cases right; simp add: linux_os_def linux_rights_def first_rights_def) (cases net_right; simp add: linux_os_def)
  then show "set (lo_kernel_fs linux_os) = UNIV" "set (lo_kernel_net linux_os) = UNIV" by blast+
qed

lemma linux_supported: "landlock_is_supported linux_crate linux_os"
  by code_simp

lemma linux_applied: "apply_rules linux_crate linux_os (landlock_with_policy linux_policy) c None unlimited = (linux_limits c, Inr ())"
  by (simp add: apply_rules_def worker_check_def Let_def linux_os_def install_seccomp_egress_deny_def)


theorem bounded_axes_are_granted_witness:
  "\<not> thread_allows linux_os (linux_limits linux_grant) Execute (components ''/opt/tools/x'') \<and>
   \<not> thread_tcp (linux_limits linux_grant) ConnectTcp"
proof -
  let ?sb = "landlock_with_policy linux_policy"
  let ?p = "landlock_resolved_authority toy_mesh linux_os ?sb linux_grant"
  let ?c = "landlock_runtime_closure toy_mesh linux_os ?sb linux_grant"
  have "closure_is_harness_disjoint ?c" by code_simp
  moreover have "ra_exec ?p \<notin> {Unbounded, UnknownScope}" "ra_net ?p \<notin> {Unbounded, UnknownScope}" by code_simp+
  moreover have "\<not> in_closure linux_os (ra_exec ?c) (components ''/opt/tools/x'')" by code_simp
  ultimately show ?thesis
    using bounded_axes_are_granted [OF linux_crate_documented linux_supported linux_applied refl refl, of toy_mesh linux_grant "components ''/opt/tools/x''"]
    by (simp add: confined_right_def)
qed

theorem exec_additions_are_trusted_witness:
  "\<exists>twin. lossy_text twin = ''/usr/lib/git-core/git'' \<and> trusted_twin linux_os (components ''/usr/bin/git'') twin"
proof -
  let ?git = "components ''/usr/bin/git''"
  have "list_all absolute linux_paths" by code_simp
  then have doc: "canonicalize_documented linux_os"
    by (auto simp: canonicalize_documented_def linux_os_def list_all_iff)
  have s: "''/usr/lib/git-core/git'' \<in> set (resolve_exec_paths linux_os (ScopeOnly [''git'']))" by code_simp
  have git: "exec_candidate linux_os ''git'' = Some ?git" "lo_canonicalize linux_os ?git = Some ?git"
    "lossy_text ?git \<noteq> ''/usr/lib/git-core/git''"
    by code_simp+
  obtain entry p canon where r: "entry \<in> set [''git'']" "exec_candidate linux_os entry = Some p" "lo_canonicalize linux_os p = Some canon"
    "''/usr/lib/git-core/git'' = lossy_text canon \<or>
     (\<exists>twin. ''/usr/lib/git-core/git'' = lossy_text twin \<and> trusted_twin linux_os canon twin)"
    using exec_additions_are_trusted [OF doc s] by blast
  have "canon = ?git" using r(1,2,3) git(1,2) by simp
  then show ?thesis using r(4) git(3) by metis
qed

text \<open>An exec grant that names a directory anchors an execute rule at the directory, which holds for everything below it.
\<close>

lemma directory_grant_is_recursive:
  "thread_allows linux_os (linux_limits (linux_grant\<lparr>cav_exec := ScopeOnly [''/opt/tools'']\<rparr>)) Execute (components ''/opt/tools/x'')"
  by code_simp

text \<open>A kernel of the first version passes the probe and the fence is accepted as partially enforced: outside the grant, files
  can be truncated, and the right to connect is left, in a thread whose write scope and network are restricted.
\<close>

definition old_kernel :: landlock_os where
  "old_kernel = linux_os\<lparr>lo_kernel_fs := first_rights, lo_kernel_net := [], lo_restrict_self := \<lambda>_. Inr PartiallyEnforced\<rparr>"

lemma old_kernel_leaves_rights:
  "let (limits, r) = apply_rules linux_crate old_kernel (landlock_with_policy linux_policy) linux_grant None unlimited
   in landlock_is_supported linux_crate old_kernel \<and> r = Inr () \<and>
     thread_allows old_kernel limits Truncate (components ''/etc/passwd'') \<and>
     \<not> thread_allows old_kernel limits WriteFile (components ''/etc/passwd'') \<and> thread_tcp limits ConnectTcp"
  by code_simp

end
