(* ===== verification/Confined_Spawn.thy ===== *)
theory Confined_Spawn
  imports Landlock_Rules Local_Execution
begin

text \<open>
  The spawn of a confined child (\<^verbatim>\<open>agent-bridle-core/src/spawn.rs\<close>, \<^verbatim>\<open>spawn/worker_image.rs\<close>) and the interface it
  uses, the \<^verbatim>\<open>Sandbox\<close> trait of \<^verbatim>\<open>sandbox.rs\<close> with its backends on Linux and macOS: admission of the program and of
  the fence, application of the fence on the spawning thread or by a wrapper, and the launch. A launch records
  everything the child is given. The Windows build, where the backend is another one, is left out.
\<close>

subsection \<open>The interface of a sandbox\<close>

record sandbox =
  sx_kind :: SandboxKind
  sx_exec_boundary :: ExecBoundary
  sx_resolved_authority :: "Caveats \<Rightarrow> StdioPosture \<Rightarrow> ResolvedAuthority"
  sx_runtime_closure :: "Caveats \<Rightarrow> ResolvedAuthority"
  sx_apply :: "Caveats \<Rightarrow> thread_limits \<Rightarrow> thread_limits \<times> unit ToolResult"
  sx_apply_with_worker :: "Caveats \<Rightarrow> string \<Rightarrow> worker_image \<Rightarrow> thread_limits \<Rightarrow> thread_limits \<times> unit ToolResult"
  sx_command_prefix :: "Caveats \<Rightarrow> string list ToolResult"

definition default_apply_with_worker ::
  "Caveats \<Rightarrow> string \<Rightarrow> worker_image \<Rightarrow> thread_limits \<Rightarrow> thread_limits \<times> unit ToolResult" where
  "default_apply_with_worker eff program img limits =
     (limits, Inl (denied ''sandbox cannot bind worker rules to a held image'' []))"

definition NoopSandbox :: "scope_ctors \<Rightarrow> sandbox" where
  "NoopSandbox rs =
     \<lparr>sx_kind = NoSandbox, sx_exec_boundary = ProcessTree,
      sx_resolved_authority = (\<lambda>_ _. \<lparr>ra_fs_read = Unbounded, ra_fs_write = Unbounded, ra_exec = Unbounded, ra_net = Unbounded\<rparr>),
      sx_runtime_closure = (\<lambda>_. rs_empty_closure rs),
      sx_apply = (\<lambda>_ limits. (limits, Inr ())), sx_apply_with_worker = default_apply_with_worker,
      sx_command_prefix = (\<lambda>_. Inr [])\<rparr>"

definition landlock_sandbox :: "mesh \<Rightarrow> landlock_crate \<Rightarrow> landlock_os \<Rightarrow> LandlockSandbox \<Rightarrow> sandbox" where
  "landlock_sandbox m cr os sb =
     \<lparr>sx_kind = Landlock, sx_exec_boundary = ls_exec_boundary sb,
      sx_resolved_authority = (\<lambda>c _. landlock_resolved_authority m os sb c),
      sx_runtime_closure = landlock_runtime_closure m os sb,
      sx_apply = landlock_apply cr os sb, sx_apply_with_worker = apply_with_worker cr os sb,
      sx_command_prefix = (\<lambda>_. Inr [])\<rparr>"

definition seatbelt_sandbox :: "mesh \<Rightarrow> scope_ctors \<Rightarrow> seatbelt_os \<Rightarrow> SandboxPolicy \<Rightarrow> sandbox" where
  "seatbelt_sandbox m rs os policy =
     \<lparr>sx_kind = Seatbelt, sx_exec_boundary = ProcessTree,
      sx_resolved_authority = seatbelt_resolved_authority m rs os,
      sx_runtime_closure = seatbelt_runtime_closure m rs,
      sx_apply = (\<lambda>_ limits. (limits, Inr ())), sx_apply_with_worker = default_apply_with_worker,
      sx_command_prefix = seatbelt_command_prefix os policy\<rparr>"

datatype target = TargetLinux | TargetMacos | TargetOther

record build =
  bd_target :: target
  bd_landlock_feature :: bool
  bd_seatbelt_feature :: bool
  bd_mesh :: mesh
  bd_ctors :: scope_ctors
  bd_crate :: landlock_crate
  bd_landlock_os :: landlock_os
  bd_seatbelt_os :: seatbelt_os
  bd_host :: host

abbreviation bd_landlock_is_supported :: "build \<Rightarrow> bool" where
  "bd_landlock_is_supported bd \<equiv> landlock_is_supported (bd_crate bd) (bd_landlock_os bd)"

definition best_available_sandbox :: "build \<Rightarrow> SandboxPolicy \<Rightarrow> sandbox" where
  "best_available_sandbox bd policy =
     (if bd_target bd = TargetLinux \<and> bd_landlock_feature bd \<and> bd_landlock_is_supported bd
      then landlock_sandbox (bd_mesh bd) (bd_crate bd) (bd_landlock_os bd) (landlock_with_policy policy)
      else if bd_target bd = TargetMacos \<and> bd_seatbelt_feature bd \<and> seatbelt_is_supported (bd_seatbelt_os bd)
      then seatbelt_sandbox (bd_mesh bd) (bd_ctors bd) (bd_seatbelt_os bd) policy
      else NoopSandbox (bd_ctors bd))"

definition named_root_sandbox :: "build \<Rightarrow> SandboxPolicy \<Rightarrow> sandbox ToolResult" where
  "named_root_sandbox bd policy =
     (if bd_target bd = TargetLinux \<and> bd_landlock_feature bd \<and> bd_landlock_is_supported bd
      then Inr (landlock_sandbox (bd_mesh bd) (bd_crate bd) (bd_landlock_os bd) (landlock_for_named_root policy))
      else Inl (denied ''named-root execution requires the supported Landlock backend; other backend projections are not established'' []))"

definition egress_proxy_plan :: "build \<Rightarrow> Caveats \<Rightarrow> SandboxPolicy \<Rightarrow> (string list \<times> Caveats) option" where
  "egress_proxy_plan bd c policy = egress_proxy_plan_for (sx_kind (best_available_sandbox bd policy)) c"

subsection \<open>The command\<close>

datatype ConfinedStdio = PipedStdio | NullStdio | WorkerControl nat | OtherStdio nat

definition is_audited :: "ConfinedStdio \<Rightarrow> bool" where
  "is_audited s = (case s of OtherStdio _ \<Rightarrow> False | _ \<Rightarrow> True)"

record ConfinedCommand =
  cc_program :: string
  cc_args :: "string list"
  cc_envs :: "(string \<times> string) list"
  cc_cwd :: "string option"
  cc_stdin :: "ConfinedStdio option"
  cc_stdout :: "ConfinedStdio option"
  cc_stderr :: "ConfinedStdio option"
  cc_new_process_group :: bool
  cc_sandbox_policy :: SandboxPolicy
  cc_private_hosts :: "string list"

definition command_new :: "build \<Rightarrow> string \<Rightarrow> ConfinedCommand" where
  "command_new bd program =
     \<lparr>cc_program = program, cc_args = [], cc_envs = [], cc_cwd = None, cc_stdin = None, cc_stdout = None, cc_stderr = None,
      cc_new_process_group = False, cc_sandbox_policy = sandbox_default (bd_target bd = TargetMacos), cc_private_hosts = []\<rparr>"

definition command_sandbox_policy :: "SandboxPolicy \<Rightarrow> ConfinedCommand \<Rightarrow> ConfinedCommand" where
  "command_sandbox_policy policy cmd = cmd\<lparr>cc_sandbox_policy := policy\<rparr>"

definition command_args :: "string list \<Rightarrow> ConfinedCommand \<Rightarrow> ConfinedCommand" where
  "command_args args cmd = cmd\<lparr>cc_args := cc_args cmd @ args\<rparr>"

definition command_env :: "string \<Rightarrow> string \<Rightarrow> ConfinedCommand \<Rightarrow> ConfinedCommand" where
  "command_env key val cmd = cmd\<lparr>cc_envs := cc_envs cmd @ [(key, val)]\<rparr>"

definition command_envs :: "(string \<times> string) list \<Rightarrow> ConfinedCommand \<Rightarrow> ConfinedCommand" where
  "command_envs env cmd = foldl (\<lambda>c (k, v). command_env k v c) cmd env"

definition command_current_dir :: "string \<Rightarrow> ConfinedCommand \<Rightarrow> ConfinedCommand" where
  "command_current_dir dir cmd = cmd\<lparr>cc_cwd := Some dir\<rparr>"

definition stdio_posture :: "ConfinedCommand \<Rightarrow> StdioPosture" where
  "stdio_posture cmd =
     (if list_all (\<lambda>cfg. case cfg of None \<Rightarrow> False | Some s \<Rightarrow> is_audited s) [cc_stdin cmd, cc_stdout cmd, cc_stderr cmd]
      then Audited else Unaudited)"

definition wrap_argv :: "string list \<Rightarrow> string \<Rightarrow> string list \<Rightarrow> string \<times> string list" where
  "wrap_argv pre program args = (case pre of [] \<Rightarrow> (program, args) | p # rest \<Rightarrow> (p, rest @ [program] @ args))"

subsection \<open>The worker image\<close>

datatype SpawnAuthority = ModelSelected | TrustedWorker | NamedRootAuthority

record WorkerImage =
  wk_program :: string
  wk_file :: worker_image
  wk_fd :: nat

text \<open>What a child is launched with, and the limits of the thread that launches it.\<close>

record launch =
  ln_program :: string
  ln_args :: "string list"
  ln_arg0 :: "string option"
  ln_env :: "(string \<times> string) list"
  ln_cwd :: "string option"
  ln_stdio :: "ConfinedStdio option \<times> ConfinedStdio option \<times> ConfinedStdio option"
  ln_process_group :: bool
  ln_inherited_fds_denied :: bool
  ln_limits :: thread_limits

record 'file spawn_os =
  sn_fs :: "'file meta_os"
  sn_canonicalize :: "path \<Rightarrow> string + path"
  sn_acquire :: "path \<Rightarrow> string option"
  sn_openat :: "path \<Rightarrow> string \<Rightarrow> string + worker_image"
  sn_dupfd :: "string + nat"
  sn_thread :: thread_limits
  sn_spawn :: "launch \<Rightarrow> io_error + u32"
  sn_start_proxy :: "string list \<Rightarrow> string list \<Rightarrow> io_error + string"
  sn_pipe_end :: "nat \<Rightarrow> io_error option"
  sn_current_exe :: "string + path"
  sn_socket_pair :: "string + nat"
  sn_read_to_string :: "string \<Rightarrow> io_error + string"

definition canonical_closure_program :: "'file spawn_os \<Rightarrow> string \<Rightarrow> string ToolResult" where
  "canonical_closure_program so program =
     (case sn_canonicalize so (components program) of
        Inl e \<Rightarrow> Inl (denied ''cannot resolve trusted worker: {error}'' [e])
      | Inr p \<Rightarrow> Inr (lossy_text p))"

definition open_image :: "'file spawn_os \<Rightarrow> path \<Rightarrow> string \<Rightarrow> worker_image ToolResult" where
  "open_image so parent name =
     (case sn_acquire so parent of
        Some e \<Rightarrow> Inl (denied ''cannot bind worker parent: {e}'' [e])
      | None \<Rightarrow>
          (case sn_openat so parent name of
             Inl e \<Rightarrow> Inl (denied ''cannot bind worker image: {e}'' [e])
           | Inr file \<Rightarrow>
               (case wi_is_file file of
                  Inl io \<Rightarrow> Inl (Exec io)
                | Inr regular \<Rightarrow>
                    if regular then Inr file else Inl (denied ''trusted worker image must be a regular file'' []))))"

definition worker_image_bind :: "build \<Rightarrow> 'file spawn_os \<Rightarrow> SandboxKind \<Rightarrow> string \<Rightarrow> WorkerImage ToolResult" where
  "worker_image_bind bd so kind program =
     (if bd_target bd \<noteq> TargetLinux
      then Inl (denied ''trusted worker image binding is unsupported on this platform; refusing pathname execution'' [])
      else if kind \<noteq> Landlock then Inl (denied ''worker backend cannot bind rules and execution to a held image'' [])
      else (case canonical_closure_program so program of
          Inl e \<Rightarrow> Inl e
        | Inr cprog \<Rightarrow>
            (case (path_parent (components cprog), path_file_name (components cprog)) of
               (None, _) \<Rightarrow> Inl (denied ''worker image has no parent'' [])
             | (_, None) \<Rightarrow> Inl (denied ''worker image has no filename'' [])
             | (Some parent, Some name) \<Rightarrow>
                 (case open_image so parent name of
                    Inl e \<Rightarrow> Inl e
                  | Inr file \<Rightarrow>
                      (case sn_dupfd so of
                         Inl e \<Rightarrow> Inl (denied ''cannot retain worker descriptor: {e}'' [e])
                       | Inr fd \<Rightarrow> Inr \<lparr>wk_program = cprog, wk_file = file, wk_fd = fd\<rparr>)))))"

definition exec_operand :: "build \<Rightarrow> WorkerImage \<Rightarrow> string ToolResult" where
  "exec_operand bd img =
     (if bd_target bd = TargetLinux then Inr (''/proc/self/fd/'' @ decimal (wk_fd img))
      else Inl (denied ''held worker execution is unsupported on this platform'' []))"

definition trusted_worker_closure ::
  "'file spawn_os \<Rightarrow> SandboxKind \<Rightarrow> SpawnAuthority \<Rightarrow> string \<Rightarrow> RuntimeClosure ToolResult" where
  "trusted_worker_closure so kind authority program =
     (if authority \<noteq> TrustedWorker then Inr closure_empty
      else (case kind of
          Landlock \<Rightarrow> (case with_exec program closure_empty of Inl e \<Rightarrow> Inl e | Inr rc \<Rightarrow> with_fs_read program rc)
        | AppContainer \<Rightarrow> Inr closure_empty
        | NoSandbox \<Rightarrow> Inr closure_empty
        | _ \<Rightarrow> (case canonical_closure_program so program of Inl e \<Rightarrow> Inl e | Inr p \<Rightarrow> with_exec p closure_empty)))"

subsection \<open>Admission\<close>

record spawn_plan =
  pl_sandbox :: sandbox
  pl_reported :: SandboxKind
  pl_mechanism :: ConfinementMechanism
  pl_image :: "WorkerImage option"
  pl_admitted :: AdmittedFence
  pl_prefix :: "string list"

definition spawn_mechanism :: "sandbox \<Rightarrow> SandboxKind \<Rightarrow> ConfinedCommand \<Rightarrow> ConfinementMechanism" where
  "spawn_mechanism sx reported cmd =
     with_stdio_posture
       (case sx_exec_boundary sx of
          ProcessTree \<Rightarrow> mechanism_new reported (sp_child_network (cc_sandbox_policy cmd))
        | NamedRoot \<Rightarrow> for_named_root reported (sp_child_network (cc_sandbox_policy cmd)))
       (stdio_posture cmd)"

definition backend_projection_of :: "sandbox \<Rightarrow> StdioPosture \<Rightarrow> Caveats \<Rightarrow> BackendProjection" where
  "backend_projection_of sx posture c =
     \<lparr>prj_resolved = sx_resolved_authority sx c posture, prj_runtime_closure = sx_runtime_closure sx c\<rparr>"

definition worker_projection :: "build \<Rightarrow> sandbox \<Rightarrow> StdioPosture \<Rightarrow> Caveats \<Rightarrow> Caveats \<Rightarrow> BackendProjection" where
  "worker_projection bd sx posture eff c =
     \<lparr>prj_resolved = (rs_from_delegated (bd_ctors bd) eff)\<lparr>ra_net := ra_net (sx_resolved_authority sx c posture)\<rparr>,
      prj_runtime_closure = rs_empty_closure (bd_ctors bd)\<rparr>"

definition spawn_admit ::
  "build \<Rightarrow> 'file spawn_os \<Rightarrow> ConfinedCommand \<Rightarrow> ToolContext \<Rightarrow> Caveats \<Rightarrow> SpawnAuthority \<Rightarrow> sandbox \<Rightarrow> ConfinementMechanism \<Rightarrow>
   RuntimeClosure \<Rightarrow> AdmittedFence ToolResult" where
  "spawn_admit bd so cmd cx eff authority sx mechanism closure =
     (if authority = NamedRootAuthority
      then (case resolve_named_root_protected_roots (sn_fs so) (sp_named_root_protected_roots (cc_sandbox_policy cmd)) of
          Inl e \<Rightarrow> Inl e
        | Inr roots \<Rightarrow>
            admit_named_root (sn_fs so) (bd_mesh bd) (bd_host bd) eff (cc_program cmd) roots mechanism (strength_floor cx)
              (backend_projection_of sx (stdio_posture cmd)))
      else admit_fence (bd_mesh bd) (bd_host bd) eff closure mechanism (strength_floor cx)
        (if authority = TrustedWorker then worker_projection bd sx (stdio_posture cmd) eff
         else backend_projection_of sx (stdio_posture cmd)))"

definition name_program :: "string \<Rightarrow> ToolError \<Rightarrow> ToolError" where
  "name_program program e =
     (case e of Denied (Fmt f as) \<Rightarrow> Denied (Fmt (f @ '' (program: {:?})'') (as @ [program])) | other \<Rightarrow> other)"

definition spawn_sandbox :: "build \<Rightarrow> ConfinedCommand \<Rightarrow> SpawnAuthority \<Rightarrow> sandbox ToolResult" where
  "spawn_sandbox bd cmd authority =
     (if authority = NamedRootAuthority then named_root_sandbox bd (cc_sandbox_policy cmd)
      else Inr (best_available_sandbox bd (cc_sandbox_policy cmd)))"

definition spawn_image ::
  "build \<Rightarrow> 'file spawn_os \<Rightarrow> ConfinedCommand \<Rightarrow> SpawnAuthority \<Rightarrow> SandboxKind \<Rightarrow> WorkerImage option ToolResult" where
  "spawn_image bd so cmd authority kind =
     (if authority = TrustedWorker \<and> kind = Landlock then map_sum id Some (worker_image_bind bd so kind (cc_program cmd))
      else Inr None)"

definition plan_fence ::
  "build \<Rightarrow> 'file spawn_os \<Rightarrow> ConfinedCommand \<Rightarrow> ToolContext \<Rightarrow> Caveats \<Rightarrow> SpawnAuthority \<Rightarrow> sandbox \<Rightarrow> spawn_plan ToolResult" where
  "plan_fence bd so cmd cx eff authority sx =
     (let reported = effective_sandbox_kind (bd_host bd) (sx_kind sx) eff;
          mechanism = spawn_mechanism sx reported cmd
      in case spawn_image bd so cmd authority (sx_kind sx) of
           Inl e \<Rightarrow> Inl e
         | Inr img \<Rightarrow>
             (case trusted_worker_closure so (sx_kind sx) authority (case img of None \<Rightarrow> cc_program cmd | Some i \<Rightarrow> wk_program i) of
                Inl e \<Rightarrow> Inl e
              | Inr closure \<Rightarrow>
                  (case spawn_admit bd so cmd cx eff authority sx mechanism closure of
                     Inl e \<Rightarrow> Inl (name_program (cc_program cmd) e)
                   | Inr admitted \<Rightarrow>
                       (case (if authority \<noteq> NamedRootAuthority
                              then verify_applied (bd_mesh bd) admitted (af_mechanism_caveats admitted) else Inr ()) of
                          Inl e \<Rightarrow> Inl e
                        | Inr _ \<Rightarrow>
                            (case sx_command_prefix sx (af_mechanism_caveats admitted) of
                               Inl e \<Rightarrow> Inl e
                             | Inr pre \<Rightarrow>
                                 Inr \<lparr>pl_sandbox = sx, pl_reported = reported, pl_mechanism = mechanism, pl_image = img,
                                   pl_admitted = admitted, pl_prefix = pre\<rparr>)))))"

definition plan_spawn ::
  "build \<Rightarrow> 'file spawn_os \<Rightarrow> ConfinedCommand \<Rightarrow> ToolContext \<Rightarrow> Caveats \<Rightarrow> SpawnAuthority \<Rightarrow> spawn_plan ToolResult" where
  "plan_spawn bd so cmd cx eff authority =
     (case (if authority \<noteq> TrustedWorker then check_exec cx (cc_program cmd) else Inr ()) of
        Inl e \<Rightarrow> Inl e
      | Inr _ \<Rightarrow>
          (case spawn_sandbox bd cmd authority of
             Inl e \<Rightarrow> Inl e
           | Inr sx \<Rightarrow> plan_fence bd so cmd cx eff authority sx))"

subsection \<open>The spawning thread\<close>

definition verify_launch ::
  "build \<Rightarrow> 'file spawn_os \<Rightarrow> ConfinedCommand \<Rightarrow> SpawnAuthority \<Rightarrow> spawn_plan \<Rightarrow> string \<Rightarrow> unit ToolResult" where
  "verify_launch bd so cmd authority pl program =
     (if authority \<noteq> NamedRootAuthority then Inr ()
      else if pl_prefix pl \<noteq> [] \<or> sx_exec_boundary (pl_sandbox pl) \<noteq> NamedRoot
      then Inl (denied ''named-root actual launch requires its supported unwrapped native mechanism'' [])
      else (case resolve_named_root_protected_roots (sn_fs so) (sp_named_root_protected_roots (cc_sandbox_policy cmd)) of
          Inl e \<Rightarrow> Inl e
        | Inr roots \<Rightarrow>
            verify_named_root_applied (sn_fs so) (bd_mesh bd) (bd_host bd) (pl_admitted pl) (af_mechanism_caveats (pl_admitted pl))
              program roots (pl_mechanism pl)
              (backend_projection_of (pl_sandbox pl) (stdio_posture cmd) (af_mechanism_caveats (pl_admitted pl)))))"

definition apply_fence :: "spawn_plan \<Rightarrow> thread_limits \<Rightarrow> thread_limits \<times> unit ToolResult" where
  "apply_fence pl limits =
     (if pl_prefix pl \<noteq> [] then (limits, Inr ())
      else (case pl_image pl of
          Some img \<Rightarrow> sx_apply_with_worker (pl_sandbox pl) (af_mechanism_caveats (pl_admitted pl)) (wk_program img) (wk_file img) limits
        | None \<Rightarrow> sx_apply (pl_sandbox pl) (af_mechanism_caveats (pl_admitted pl)) limits))"

definition build_env :: "(string \<times> string) list \<Rightarrow> (string \<times> string) list" where
  "build_env envs = foldl (\<lambda>m (k, v). bmap_insert k v m) [] envs"

definition launch_of :: "ConfinedCommand \<Rightarrow> spawn_plan \<Rightarrow> string \<Rightarrow> thread_limits \<Rightarrow> launch" where
  "launch_of cmd pl operand limits =
     (case wrap_argv (pl_prefix pl) operand (cc_args cmd) of
        (program, args) \<Rightarrow>
          \<lparr>ln_program = program, ln_args = args, ln_arg0 = map_option wk_program (pl_image pl),
           ln_env = build_env (cc_envs cmd), ln_cwd = cc_cwd cmd, ln_stdio = (cc_stdin cmd, cc_stdout cmd, cc_stderr cmd),
           ln_process_group = cc_new_process_group cmd, ln_inherited_fds_denied = True, ln_limits = limits\<rparr>)"

definition spawn_thread ::
  "build \<Rightarrow> 'file spawn_os \<Rightarrow> ConfinedCommand \<Rightarrow> SpawnAuthority \<Rightarrow> spawn_plan \<Rightarrow> launch list \<times> u32 ToolResult" where
  "spawn_thread bd so cmd authority pl =
     (case (case pl_image pl of Some img \<Rightarrow> exec_operand bd img | None \<Rightarrow> Inr (cc_program cmd)) of
        Inl e \<Rightarrow> ([], Inl e)
      | Inr operand \<Rightarrow>
          (case verify_launch bd so cmd authority pl (fst (wrap_argv (pl_prefix pl) operand (cc_args cmd))) of
             Inl e \<Rightarrow> ([], Inl e)
           | Inr _ \<Rightarrow>
               (case apply_fence pl (sn_thread so) of
                  (_, Inl e) \<Rightarrow> ([], Inl e)
                | (limits, Inr _) \<Rightarrow>
                    (let l = launch_of cmd pl operand limits
                     in case sn_spawn so l of
                          Inl io \<Rightarrow> ([], Inl (Exec io))
                        | Inr child \<Rightarrow> ([l], Inr child)))))"

record ConfinedChild =
  ch_child :: u32
  ch_sandbox_kind :: SandboxKind
  ch_fence_id :: bytes
  ch_admitted :: "AdmittedFenceBody option"

definition spawn_authorized ::
  "build \<Rightarrow> 'file spawn_os \<Rightarrow> ConfinedCommand \<Rightarrow> ToolContext \<Rightarrow> Caveats \<Rightarrow> SpawnAuthority \<Rightarrow> launch list \<times> ConfinedChild ToolResult" where
  "spawn_authorized bd so cmd cx eff authority =
     (case plan_spawn bd so cmd cx eff authority of
        Inl e \<Rightarrow> ([], Inl e)
      | Inr pl \<Rightarrow>
          (case spawn_thread bd so cmd authority pl of
             (ls, Inl e) \<Rightarrow> (ls, Inl e)
           | (ls, Inr child) \<Rightarrow>
               (ls, Inr \<lparr>ch_child = child, ch_sandbox_kind = pl_reported pl, ch_fence_id = af_fence_id (pl_admitted pl),
                  ch_admitted = af_admitted_body (pl_admitted pl)\<rparr>)))"

definition spawn_with_effective where
  "spawn_with_effective bd so cmd cx eff = spawn_authorized bd so cmd cx eff ModelSelected"

definition confined_spawn where
  "confined_spawn bd so cmd cx = spawn_with_effective bd so cmd cx (effective cx)"

definition spawn_confined_subprocess ::
  "build \<Rightarrow> 'file spawn_os \<Rightarrow> string \<Rightarrow> string list \<Rightarrow> ToolContext \<Rightarrow> (string \<times> string) list \<Rightarrow> string option \<Rightarrow>
   launch list \<times> ConfinedChild ToolResult" where
  "spawn_confined_subprocess bd so program args cx env_allow cwd =
     (let cmd = command_envs env_allow (command_args args (command_new bd program))
      in confined_spawn bd so (case cwd of None \<Rightarrow> cmd | Some dir \<Rightarrow> command_current_dir dir cmd) cx)"

definition confinement_unenforceable :: "host \<Rightarrow> SandboxKind \<Rightarrow> Caveats \<Rightarrow> AxisEnforcement \<Rightarrow> bool" where
  "confinement_unenforceable h kind c floor = (unenforceable_axis h c (mechanism_backend kind) (from_scalar floor) \<noteq> None)"

subsection \<open>Spawns behind the egress proxy\<close>

definition proxy_env :: "string \<Rightarrow> (string \<times> string) list" where
  "proxy_env addr =
     map (\<lambda>k. (k, ''http://'' @ addr)) [''http_proxy'', ''https_proxy'', ''all_proxy'', ''HTTP_PROXY'', ''HTTPS_PROXY'', ''ALL_PROXY'']"

text \<open>The \<^verbatim>\<open>Debug\<close> rendering of a string, as far as its ASCII characters go.\<close>

definition hex_char :: "nat \<Rightarrow> char" where
  "hex_char n = ''0123456789abcdef'' ! (n mod 16)"

definition debug_char :: "char \<Rightarrow> string" where
  "debug_char c =
     (if c = CHR 0x22 \<or> c = CHR 0x5C then [CHR 0x5C, c]
      else if c = CHR 0x0A then [CHR 0x5C, CHR ''n''] else if c = CHR 0x0D then [CHR 0x5C, CHR ''r'']
      else if c = CHR 0x09 then [CHR 0x5C, CHR ''t''] else if c = CHR 0x00 then [CHR 0x5C, CHR ''0'']
      else if of_char c < (0x20 :: nat) \<or> c = CHR 0x7F
      then CHR 0x5C # ''u{'' @ (if of_char c < (0x10 :: nat) then [] else [hex_char (of_char c div 16)]) @ [hex_char (of_char c)] @ ''}''
      else [c])"

definition debug_text :: "string \<Rightarrow> string" where
  "debug_text s = [CHR 0x22] @ concat (map debug_char s) @ [CHR 0x22]"

definition proxy_refused :: "string \<Rightarrow> io_error \<Rightarrow> ToolError" where
  "proxy_refused program e =
     Exec (Io OtherKind (''refusing to spawn '' @ debug_text program @ '': the egress proxy could not bind loopback ('' @ io_error_text e @ '')''))"

text \<open>The command and the caveats a child behind a proxy is spawned with, and whether there is one.\<close>

definition with_egress ::
  "build \<Rightarrow> 'file spawn_os \<Rightarrow> ConfinedCommand \<Rightarrow> string list \<Rightarrow> Caveats \<Rightarrow> (ConfinedCommand \<times> Caveats \<times> bool) ToolResult" where
  "with_egress bd so cmd private_hosts c =
     (case egress_proxy_plan bd c (cc_sandbox_policy cmd) of
        None \<Rightarrow> Inr (cmd, c, False)
      | Some (hosts, fenced) \<Rightarrow>
          (case sn_start_proxy so hosts private_hosts of
             Inl e \<Rightarrow> Inl (proxy_refused (cc_program cmd) e)
           | Inr addr \<Rightarrow> Inr (command_envs (proxy_env addr) cmd, fenced, True)))"

definition spawn_managed_authorized ::
  "build \<Rightarrow> 'file spawn_os \<Rightarrow> ConfinedCommand \<Rightarrow> ToolContext \<Rightarrow> SpawnAuthority \<Rightarrow> launch list \<times> ManagedSpawn ToolResult" where
  "spawn_managed_authorized bd so cmd cx authority =
     (case (if authority \<noteq> NamedRootAuthority then with_egress bd so cmd [] (effective cx) else Inr (cmd, effective cx, False)) of
        Inl e \<Rightarrow> ([], Inl e)
      | Inr (cmd', eff, proxied) \<Rightarrow>
          (case spawn_authorized bd so cmd' cx eff authority of
             (ls, Inl e) \<Rightarrow> (ls, Inl e)
           | (ls, Inr ch) \<Rightarrow>
               (ls, Inr \<lparr>ms_pid = ch_child ch, ms_sandbox_kind = ch_sandbox_kind ch, ms_fence_id = ch_fence_id ch,
                  ms_admitted = ch_admitted ch, ms_proxied = proxied\<rparr>)))"

definition spawn_managed where
  "spawn_managed bd so cmd cx = spawn_managed_authorized bd so cmd cx ModelSelected"

definition spawn_named_root_managed where
  "spawn_named_root_managed bd so cmd cx = spawn_managed_authorized bd so cmd cx NamedRootAuthority"

text \<open>The local execution backend on top of it: the command it builds for a request, and its two entry points.\<close>

definition local_command :: "build \<Rightarrow> SandboxPolicy option \<Rightarrow> ExecutionRequest \<Rightarrow> ConfinedCommand" where
  "local_command bd policy request =
     (let cmd = (command_args (req_argv request) (command_new bd (req_executable request)))
            \<lparr>cc_stdin := Some PipedStdio, cc_stdout := Some PipedStdio, cc_stderr := Some PipedStdio, cc_new_process_group := True\<rparr>;
          cmd = (case policy of None \<Rightarrow> cmd | Some p \<Rightarrow> command_sandbox_policy p cmd);
          cmd = command_envs (req_env request) cmd
      in case req_cwd request of None \<Rightarrow> cmd | Some dir \<Rightarrow> command_current_dir dir cmd)"

definition local_spawn ::
  "build \<Rightarrow> 'file spawn_os \<Rightarrow> SandboxPolicy option \<Rightarrow> ToolContext \<Rightarrow> ExecBoundary \<Rightarrow> ExecutionRequest \<Rightarrow>
   launch list \<times> ManagedSpawn ToolResult" where
  "local_spawn bd so policy cx boundary request =
     (case boundary of
        ProcessTree \<Rightarrow> spawn_managed bd so (local_command bd policy request) cx
      | NamedRoot \<Rightarrow> spawn_named_root_managed bd so (local_command bd policy request) cx)"

definition local_start where
  "local_start bd so policy show_error cx boundary eid request =
     start_with_boundary show_error (\<lambda>r. snd (local_spawn bd so policy cx boundary r)) eid request"

record ConfinedTokioChild =
  tk_sandbox_kind :: SandboxKind
  tk_pipes :: "bool list"
  tk_child :: u32
  tk_proxied :: bool

fun pipe_ends :: "(nat \<Rightarrow> io_error option) \<Rightarrow> nat \<Rightarrow> ConfinedStdio option list \<Rightarrow> io_error + bool list" where
  "pipe_ends ends i [] = Inr []"
| "pipe_ends ends i (s # rest) =
     (case (if s = Some PipedStdio then ends i else None) of
        Some e \<Rightarrow> Inl e
      | None \<Rightarrow> map_sum id ((#) (s = Some PipedStdio)) (pipe_ends ends (Suc i) rest))"

definition spawn_tokio ::
  "build \<Rightarrow> 'file spawn_os \<Rightarrow> ConfinedCommand \<Rightarrow> ToolContext \<Rightarrow> launch list \<times> ConfinedTokioChild ToolResult" where
  "spawn_tokio bd so cmd cx =
     (case with_egress bd so cmd (cc_private_hosts cmd) (effective cx) of
        Inl e \<Rightarrow> ([], Inl e)
      | Inr (cmd', eff, proxied) \<Rightarrow>
          (case spawn_with_effective bd so cmd' cx eff of
             (ls, Inl e) \<Rightarrow> (ls, Inl e)
           | (ls, Inr ch) \<Rightarrow>
               (case pipe_ends (sn_pipe_end so) 0 [cc_stdin cmd', cc_stdout cmd', cc_stderr cmd'] of
                  Inl io \<Rightarrow> (ls, Inl (Exec io))
                | Inr pipes \<Rightarrow>
                    (ls, Inr \<lparr>tk_sandbox_kind = ch_sandbox_kind ch, tk_pipes = pipes, tk_child = ch_child ch, tk_proxied = proxied\<rparr>))))"

subsection \<open>The trusted worker\<close>

datatype TrustedWorkerKind = Brush

definition worker_kind_args :: "TrustedWorkerKind \<Rightarrow> string list" where
  "worker_kind_args k = (case k of Brush \<Rightarrow> [''--agent-bridle-worker'', ''brush''])"

record SandboxedWorker =
  sw_kind :: TrustedWorkerKind
  sw_policy :: SandboxPolicy

definition worker_brush :: "build \<Rightarrow> SandboxedWorker" where
  "worker_brush bd = \<lparr>sw_kind = Brush, sw_policy = sandbox_default (bd_target bd = TargetMacos)\<rparr>"

record TrustedWorkerControl =
  tw_stream :: nat
  tw_nonce :: string
  tw_caveats :: Caveats
  tw_strength_floor :: EnforcementFloor

record SandboxedWorkerChild =
  wc_child :: u32
  wc_sandbox_kind :: SandboxKind
  wc_control :: "TrustedWorkerControl option"

definition sysctl_is :: "'file spawn_os \<Rightarrow> string \<Rightarrow> string \<Rightarrow> bool" where
  "sysctl_is so path expected = (case sn_read_to_string so path of Inl _ \<Rightarrow> False | Inr v \<Rightarrow> trim v = expected)"

definition linux_user_namespaces_hardened :: "'file spawn_os \<Rightarrow> bool" where
  "linux_user_namespaces_hardened so \<longleftrightarrow>
     sysctl_is so ''/proc/sys/kernel/unprivileged_userns_clone'' ''0'' \<or>
     sysctl_is so ''/proc/sys/user/max_user_namespaces'' ''0'' \<or>
     sysctl_is so ''/proc/sys/kernel/apparmor_restrict_unprivileged_userns'' ''1''"

definition worker_executable :: "'file spawn_os \<Rightarrow> string ToolResult" where
  "worker_executable so =
     (case (case sn_current_exe so of Inl e \<Rightarrow> Inl e | Inr p \<Rightarrow> sn_canonicalize so p) of
        Inl e \<Rightarrow> Inl (denied ''worker executable is invalid: {error}'' [e])
      | Inr p \<Rightarrow> Inr (lossy_text p))"

definition worker_command :: "build \<Rightarrow> SandboxedWorker \<Rightarrow> string \<Rightarrow> string \<Rightarrow> string \<Rightarrow> nat \<Rightarrow> ConfinedCommand" where
  "worker_command bd w executable nonce cwd fd =
     command_sandbox_policy (sw_policy w)
       ((command_current_dir cwd (command_env ''AGENT_BRIDLE_WORKER_NONCE'' nonce
          (command_args (worker_kind_args (sw_kind w)) (command_new bd executable))))
        \<lparr>cc_stdin := Some (WorkerControl fd), cc_stdout := Some PipedStdio, cc_stderr := Some PipedStdio, cc_new_process_group := True\<rparr>)"

definition worker_admissible :: "build \<Rightarrow> 'file spawn_os \<Rightarrow> ConfinedCommand \<Rightarrow> Caveats \<Rightarrow> unit ToolResult" where
  "worker_admissible bd so cmd eff =
     (if bd_target bd = TargetLinux \<and>
         effective_sandbox_kind (bd_host bd) (sx_kind (best_available_sandbox bd (cc_sandbox_policy cmd))) eff = Landlock \<and>
         restricts_fs eff \<and> \<not> linux_user_namespaces_hardened so
      then Inl (denied ''refusing the Brush worker: Landlock filesystem confinement is not a complete boundary while unprivileged user namespaces remain available; disable them or add the namespace syscall backstop'' [])
      else Inr ())"

definition worker_spawn_authorized ::
  "build \<Rightarrow> 'file spawn_os \<Rightarrow> process_marks \<Rightarrow> ConfinedCommand \<Rightarrow> ToolContext \<Rightarrow> launch list \<times> ConfinedChild ToolResult" where
  "worker_spawn_authorized bd so marks cmd cx =
     (if is_unbridled marks then spawn_authorized bd so cmd cx caveats_top TrustedWorker
      else (case worker_admissible bd so cmd (effective cx) of
          Inl e \<Rightarrow> ([], Inl e)
        | Inr _ \<Rightarrow> spawn_authorized bd so cmd cx (effective cx) TrustedWorker))"

definition spawn_supported ::
  "build \<Rightarrow> 'file spawn_os \<Rightarrow> process_marks \<Rightarrow> SandboxedWorker \<Rightarrow> ToolContext \<Rightarrow> string \<Rightarrow> string \<Rightarrow>
   launch list \<times> SandboxedWorkerChild ToolResult" where
  "spawn_supported bd so marks w cx nonce cwd =
     (case check_path_read (os.truncate (sn_fs so)) cx cwd of
        Inl e \<Rightarrow> ([], Inl e)
      | Inr _ \<Rightarrow>
          (case worker_executable so of
             Inl e \<Rightarrow> ([], Inl e)
           | Inr executable \<Rightarrow>
               (case sn_socket_pair so of
                  Inl e \<Rightarrow> ([], Inl (denied ''create worker control channel: {error}'' [e]))
                | Inr fd \<Rightarrow>
                    (case worker_spawn_authorized bd so marks (worker_command bd w executable nonce cwd fd) cx of
                       (ls, Inl e) \<Rightarrow> (ls, Inl e)
                     | (ls, Inr ch) \<Rightarrow>
                         (ls, Inr \<lparr>wc_child = ch_child ch, wc_sandbox_kind = ch_sandbox_kind ch,
                            wc_control = Some \<lparr>tw_stream = fd, tw_nonce = nonce, tw_caveats = effective cx,
                              tw_strength_floor = strength_floor cx\<rparr>\<rparr>)))))"

definition worker_spawn where
  "worker_spawn bd so marks w cx nonce cwd =
     (if bd_target bd = TargetOther
      then ([], Inl (denied ''refusing the Brush worker: this platform has no authenticated private-control transport'' []))
      else spawn_supported bd so marks w cx nonce cwd)"

subsection \<open>The contract of a sandbox\<close>

text \<open>Limits only ever add up: whatever a thread was under before, it and its children stay under.\<close>

definition limits_grow :: "thread_limits \<Rightarrow> thread_limits \<Rightarrow> bool" where
  "limits_grow before after \<longleftrightarrow> suffix (tl_rulesets before) (tl_rulesets after) \<and> suffix (tl_filters before) (tl_filters after)"

lemma limits_grow_refl [simp]: "limits_grow limits limits"
  by (simp add: limits_grow_def)

lemma limits_grow_allows:
  "limits_grow before after \<Longrightarrow> thread_allows os after right target \<Longrightarrow> thread_allows os before right target"
  by (auto simp: limits_grow_def thread_allows_def suffix_def)

locale sandbox_contract =
  fixes sx :: sandbox
  assumes apply_grows: "sx_apply sx c limits = (limits', r) \<Longrightarrow> limits_grow limits limits'"
    and worker_grows: "sx_apply_with_worker sx c program img limits = (limits', r) \<Longrightarrow> limits_grow limits limits'"
begin

lemma fence_grows: "pl_sandbox pl = sx \<Longrightarrow> apply_fence pl limits = (limits', r) \<Longrightarrow> limits_grow limits limits'"
  using apply_grows worker_grows by (cases "pl_image pl") (auto simp: apply_fence_def split: if_splits)

lemma launch_inherits:
  assumes "pl_sandbox pl = sx" "spawn_thread bd so cmd authority pl = (ls, r)" "l \<in> set ls"
  shows "limits_grow (sn_thread so) (ln_limits l)"
proof -
  obtain operand limits res where "apply_fence pl (sn_thread so) = (limits, res)" "l = launch_of cmd pl operand limits"
    using assms(2,3) by (auto simp: spawn_thread_def Let_def split: sum.splits prod.splits)
  with fence_grows [OF assms(1)] show ?thesis by (auto simp: launch_of_def split: prod.splits)
qed

end

lemma apply_rules_grow: "apply_rules cr os sb c worker limits = (limits', r) \<Longrightarrow> limits_grow limits limits'"
  by (auto simp: apply_rules_def Let_def install_seccomp_egress_deny_def limits_grow_def suffix_Cons
    split: sum.splits option.splits if_splits)

interpretation noop_contract: sandbox_contract "NoopSandbox rs" for rs
  by unfold_locales (simp_all add: NoopSandbox_def default_apply_with_worker_def)

interpretation landlock_contract: sandbox_contract "landlock_sandbox m cr os sb" for m cr os sb
  by unfold_locales (auto simp: landlock_sandbox_def landlock_apply_def apply_with_worker_def dest: apply_rules_grow)

interpretation seatbelt_contract: sandbox_contract "seatbelt_sandbox m rs os policy" for m rs os policy
  by unfold_locales (simp_all add: seatbelt_sandbox_def default_apply_with_worker_def)

lemma chosen_sandbox:
  assumes "spawn_sandbox bd cmd authority = Inr sx"
  shows "sandbox_contract sx"
  using assms noop_contract.sandbox_contract_axioms landlock_contract.sandbox_contract_axioms seatbelt_contract.sandbox_contract_axioms
  by (auto simp: spawn_sandbox_def named_root_sandbox_def best_available_sandbox_def split: if_splits)

subsection \<open>What a launch implies\<close>

lemma spawn_started:
  assumes "spawn_authorized bd so cmd cx eff authority = (ls, r)" "l \<in> set ls"
  obtains pl operand limits child where "plan_spawn bd so cmd cx eff authority = Inr pl" "ls = [l]"
    "(case pl_image pl of Some img \<Rightarrow> exec_operand bd img | None \<Rightarrow> Inr (cc_program cmd)) = Inr operand"
    "verify_launch bd so cmd authority pl (fst (wrap_argv (pl_prefix pl) operand (cc_args cmd))) = Inr ()"
    "apply_fence pl (sn_thread so) = (limits, Inr ())" "l = launch_of cmd pl operand limits"
    "r = Inr \<lparr>ch_child = child, ch_sandbox_kind = pl_reported pl, ch_fence_id = af_fence_id (pl_admitted pl),
       ch_admitted = af_admitted_body (pl_admitted pl)\<rparr>"
  using assms
  by (auto simp: spawn_authorized_def spawn_thread_def Let_def split: sum.splits prod.splits)

lemma plan_spawn_Inr:
  assumes "plan_spawn bd so cmd cx eff authority = Inr pl"
  shows "authority \<noteq> TrustedWorker \<Longrightarrow> exec_scope_allows (cav_exec (effective cx)) (cc_program cmd)"
    "spawn_sandbox bd cmd authority = Inr (pl_sandbox pl)"
    "pl_reported pl = effective_sandbox_kind (bd_host bd) (sx_kind (pl_sandbox pl)) eff"
    "pl_mechanism pl = spawn_mechanism (pl_sandbox pl) (pl_reported pl) cmd"
    "spawn_image bd so cmd authority (sx_kind (pl_sandbox pl)) = Inr (pl_image pl)"
    "sx_command_prefix (pl_sandbox pl) (af_mechanism_caveats (pl_admitted pl)) = Inr (pl_prefix pl)"
    "\<exists>closure. trusted_worker_closure so (sx_kind (pl_sandbox pl)) authority
         (case pl_image pl of None \<Rightarrow> cc_program cmd | Some i \<Rightarrow> wk_program i) = Inr closure \<and>
       spawn_admit bd so cmd cx eff authority (pl_sandbox pl) (pl_mechanism pl) closure = Inr (pl_admitted pl)"
  using assms check_exec_ok [of cx "cc_program cmd"]
  by (auto simp: plan_spawn_def plan_fence_def Let_def split: sum.splits if_splits option.splits)

lemma derive_empty [simp]: "derive_mechanism_caveats c closure_empty = c"
  by (simp add: derive_mechanism_caveats_def closure_empty_def extend_only_def split: Scope.splits)

lemma model_plan:
  assumes "plan_spawn bd so cmd cx eff ModelSelected = Inr pl"
  shows "pl_image pl = None" "pl_sandbox pl = best_available_sandbox bd (cc_sandbox_policy cmd)"
    "af_mechanism_caveats (pl_admitted pl) = eff"
    "mesh_admit (bd_mesh bd) (sx_resolved_authority (pl_sandbox pl) eff (stdio_posture cmd)) eff (sx_runtime_closure (pl_sandbox pl) eff) = Admit"
    "closure_is_harness_disjoint (sx_runtime_closure (pl_sandbox pl) eff)"
    "unenforceable_axis (bd_host bd) eff (pl_mechanism pl) (strength_floor cx) = None"
proof -
  note plan = plan_spawn_Inr [OF assms]
  show "pl_image pl = None" using plan(5) by (simp add: spawn_image_def)
  show "pl_sandbox pl = best_available_sandbox bd (cc_sandbox_policy cmd)" using plan(2) by (simp add: spawn_sandbox_def)
  have "admit_fence (bd_mesh bd) (bd_host bd) eff closure_empty (pl_mechanism pl) (strength_floor cx)
      (backend_projection_of (pl_sandbox pl) (stdio_posture cmd)) = Inr (pl_admitted pl)"
    using plan(7) by (auto simp: trusted_worker_closure_def spawn_admit_def)
  then show "af_mechanism_caveats (pl_admitted pl) = eff"
    "mesh_admit (bd_mesh bd) (sx_resolved_authority (pl_sandbox pl) eff (stdio_posture cmd)) eff (sx_runtime_closure (pl_sandbox pl) eff) = Admit"
    "closure_is_harness_disjoint (sx_runtime_closure (pl_sandbox pl) eff)"
    "unenforceable_axis (bd_host bd) eff (pl_mechanism pl) (strength_floor cx) = None"
    by (auto simp: admit_fence_Inr Let_def backend_projection_of_def)
qed

lemma map_of_build_env: "map_of (build_env envs) = map_of (rev envs)"
proof -
  have "map_of (foldl (\<lambda>m (k, v). bmap_insert k v m) m envs) = map_of (rev envs @ m) \<and> bmap_wf (foldl (\<lambda>m (k, v). bmap_insert k v m) m envs)"
    if "bmap_wf m" for m :: "(string \<times> string) list"
    using that by (induction envs arbitrary: m) (auto simp: map_of_bmap_insert map_add_def fun_eq_iff split: option.splits)
  from this [of "[]"] show ?thesis by (simp add: build_env_def)
qed

lemma model_child:
  assumes "spawn_authorized bd so cmd cx eff ModelSelected = (ls, r)" "l \<in> set ls"
    "sx = best_available_sandbox bd (cc_sandbox_policy cmd)" "kind = effective_sandbox_kind (bd_host bd) (sx_kind sx) eff"
  shows "ls = [l]" "exec_scope_allows (cav_exec (effective cx)) (cc_program cmd)" "map_of (ln_env l) = map_of (rev (cc_envs cmd)) \<and> ln_inherited_fds_denied l"
    "mesh_admit (bd_mesh bd) (sx_resolved_authority sx eff (stdio_posture cmd)) eff (sx_runtime_closure sx eff) = Admit"
    "closure_is_harness_disjoint (sx_runtime_closure sx eff)"
    "unenforceable_axis (bd_host bd) eff (spawn_mechanism sx kind cmd) (strength_floor cx) = None"
    "\<exists>pre. sx_command_prefix sx eff = Inr pre \<and> (ln_program l, ln_args l) = wrap_argv pre (cc_program cmd) (cc_args cmd) \<and>
       (pre = [] \<longrightarrow> sx_apply sx eff (sn_thread so) = (ln_limits l, Inr ()))"
    "limits_grow (sn_thread so) (ln_limits l)" "\<exists>ch. r = Inr ch \<and> ch_sandbox_kind ch = kind"
proof -
  obtain pl operand limits child where p: "plan_spawn bd so cmd cx eff ModelSelected = Inr pl" "ls = [l]"
      "(case pl_image pl of Some img \<Rightarrow> exec_operand bd img | None \<Rightarrow> Inr (cc_program cmd)) = Inr operand"
      "apply_fence pl (sn_thread so) = (limits, Inr ())" "l = launch_of cmd pl operand limits"
      "r = Inr \<lparr>ch_child = child, ch_sandbox_kind = pl_reported pl, ch_fence_id = af_fence_id (pl_admitted pl),
         ch_admitted = af_admitted_body (pl_admitted pl)\<rparr>"
    by (rule spawn_started [OF assms(1,2)])
  note plan = plan_spawn_Inr [OF p(1)] and model = model_plan [OF p(1)]
  have sx: "sx = pl_sandbox pl" and kind: "kind = pl_reported pl" using assms(3,4) model(2) plan(3) by simp_all
  have operand: "operand = cc_program cmd" using p(3) model(1) by simp
  show "limits_grow (sn_thread so) (ln_limits l)"
    using sandbox_contract.fence_grows [OF chosen_sandbox [OF plan(2)] refl p(4)] p(5) by (simp add: launch_of_def split: prod.splits)
  show "\<exists>pre. sx_command_prefix sx eff = Inr pre \<and> (ln_program l, ln_args l) = wrap_argv pre (cc_program cmd) (cc_args cmd) \<and>
       (pre = [] \<longrightarrow> sx_apply sx eff (sn_thread so) = (ln_limits l, Inr ()))"
    using p(4,5) plan(6) model(1,3) operand by (auto simp: sx launch_of_def apply_fence_def split: prod.splits if_splits)
  show "map_of (ln_env l) = map_of (rev (cc_envs cmd)) \<and> ln_inherited_fds_denied l"
    using p(5) by (simp add: launch_of_def map_of_build_env split: prod.splits)
  show "unenforceable_axis (bd_host bd) eff (spawn_mechanism sx kind cmd) (strength_floor cx) = None"
    using model(6) plan(4) by (simp add: sx kind)
  show "ls = [l]" "\<exists>ch. r = Inr ch \<and> ch_sandbox_kind ch = kind" using p(2,6) by (simp_all add: kind)
  show "exec_scope_allows (cav_exec (effective cx)) (cc_program cmd)" using plan(1) by simp
  show "mesh_admit (bd_mesh bd) (sx_resolved_authority sx eff (stdio_posture cmd)) eff (sx_runtime_closure sx eff) = Admit"
    "closure_is_harness_disjoint (sx_runtime_closure sx eff)" using model(4,5) by (simp_all add: sx)
qed

text \<open>C5. A model-selected child runs a granted program behind the admitted fence. Whenever a process is started for a
  command, its program is within the exec grant, its environment is the granted one and nothing else,
  no other descriptor is inherited, the
  backend's authority was admitted against the grant with a closure free of private stores and at the strength the
  context demands, and exactly the effective caveats were applied: on the launching thread where the backend has
  no wrapper, and otherwise by its wrapper, with nothing of the thread's earlier limits lost.
\<close>

theorem started_child_is_fenced:
  assumes "confined_spawn bd so cmd cx = (ls, r)" "l \<in> set ls"
  shows "let c = effective cx; sx = best_available_sandbox bd (cc_sandbox_policy cmd); posture = stdio_posture cmd;
      kind = effective_sandbox_kind (bd_host bd) (sx_kind sx) c
    in ls = [l] \<and> exec_scope_allows (cav_exec c) (cc_program cmd) \<and> map_of (ln_env l) = map_of (rev (cc_envs cmd)) \<and>
      ln_inherited_fds_denied l \<and>
      mesh_admit (bd_mesh bd) (sx_resolved_authority sx c posture) c (sx_runtime_closure sx c) = Admit \<and>
      closure_is_harness_disjoint (sx_runtime_closure sx c) \<and>
      unenforceable_axis (bd_host bd) c (spawn_mechanism sx kind cmd) (strength_floor cx) = None \<and>
      (\<exists>pre. sx_command_prefix sx c = Inr pre \<and> (ln_program l, ln_args l) = wrap_argv pre (cc_program cmd) (cc_args cmd) \<and>
         (pre = [] \<longrightarrow> sx_apply sx c (sn_thread so) = (ln_limits l, Inr ()))) \<and>
      limits_grow (sn_thread so) (ln_limits l) \<and>
      (\<exists>ch. r = Inr ch \<and> ch_sandbox_kind ch = kind)"
  using model_child [OF _ assms(2) refl refl, of bd so cmd cx "effective cx" r] assms(1)
  by (simp add: Let_def confined_spawn_def spawn_with_effective_def)

subsection \<open>The promise of admission, kept by the backends\<close>

text \<open>
  What the admission of the authority library documents of the axes it compares: a restricted axis is never admitted
  over an authority that is unbounded or not known.
\<close>

definition admission_documented :: "mesh \<Rightarrow> bool" where
  "admission_documented m \<longleftrightarrow>
     (\<forall>resolved c closure. mesh_admit m resolved c closure = Admit \<longrightarrow>
        (is_only (cav_fs_read c) \<longrightarrow> ra_fs_read resolved \<notin> {Unbounded, UnknownScope}) \<and>
        (is_only (cav_fs_write c) \<longrightarrow> ra_fs_write resolved \<notin> {Unbounded, UnknownScope}) \<and>
        (is_only (cav_exec c) \<longrightarrow> ra_exec resolved \<notin> {Unbounded, UnknownScope}) \<and>
        (is_only (cav_net c) \<longrightarrow> ra_net resolved \<notin> {Unbounded, UnknownScope}))"

lemma admittedD:
  assumes "admission_documented m" "mesh_admit m resolved c closure = Admit"
  shows "is_only (cav_fs_read c) \<Longrightarrow> ra_fs_read resolved \<notin> {Unbounded, UnknownScope}"
    "is_only (cav_fs_write c) \<Longrightarrow> ra_fs_write resolved \<notin> {Unbounded, UnknownScope}"
    "is_only (cav_exec c) \<Longrightarrow> ra_exec resolved \<notin> {Unbounded, UnknownScope}"
    "is_only (cav_net c) \<Longrightarrow> ra_net resolved \<notin> {Unbounded, UnknownScope}"
  using assms unfolding admission_documented_def by blast+

text \<open>What a thread's limits keep a child to, axis by axis, when the axis is restricted. Moving a file between directories,
  truncating one and TCP are kept to the grant where the running kernel knows the right.
\<close>

definition stays_in_grant :: "landlock_os \<Rightarrow> Caveats \<Rightarrow> ResolvedAuthority \<Rightarrow> thread_limits \<Rightarrow> bool" where
  "stays_in_grant os c closure limits \<longleftrightarrow>
     (\<forall>target.
        (is_only (cav_fs_write c) \<longrightarrow>
          (\<forall>right\<in>write_rights. confined_right os right \<longrightarrow> thread_allows os limits right target \<longrightarrow>
             in_grant (cav_fs_write c) target \<or> in_closure os (ra_fs_write closure) target)) \<and>
        (is_only (cav_fs_read c) \<longrightarrow>
          (\<forall>right\<in>{ReadFile, ReadDir}. thread_allows os limits right target \<longrightarrow>
             in_grant (cav_fs_read c) target \<or> in_closure os (ra_fs_read closure) target)) \<and>
        (is_only (cav_exec c) \<longrightarrow> thread_allows os limits Execute target \<longrightarrow> in_closure os (ra_exec closure) target)) \<and>
     (is_only (cav_net c) \<longrightarrow>
        (\<forall>right\<in>set (lo_kernel_net os). \<not> thread_tcp limits right) \<and>
        (\<forall>fam\<in>{AF_INET, AF_INET6, AF_PACKET}. \<not> thread_calls limits SYS_socket fam) \<and>
        (\<forall>call\<in>{SYS_io_uring_setup, SYS_io_uring_enter, SYS_io_uring_register}. \<forall>arg0. \<not> thread_calls limits call arg0))"

lemma stays_in_grantD:
  assumes "stays_in_grant os c closure limits"
  shows "is_only (cav_exec c) \<Longrightarrow> \<not> in_closure os (ra_exec closure) target \<Longrightarrow> \<not> thread_allows os limits Execute target"
    "is_only (cav_net c) \<Longrightarrow> right \<in> set (lo_kernel_net os) \<Longrightarrow> \<not> thread_tcp limits right"
  using assms by (auto simp: stays_in_grant_def)

lemma managed_started:
  assumes "spawn_managed bd so cmd cx = (ls, r)" "l \<in> set ls"
  obtains cmd' eff proxied ch where "with_egress bd so cmd [] (effective cx) = Inr (cmd', eff, proxied)"
    "spawn_authorized bd so cmd' cx eff ModelSelected = (ls, Inr ch)"
    "r = Inr \<lparr>ms_pid = ch_child ch, ms_sandbox_kind = ch_sandbox_kind ch, ms_fence_id = ch_fence_id ch,
       ms_admitted = ch_admitted ch, ms_proxied = proxied\<rparr>"
  using assms
  by (fastforce simp: spawn_managed_def spawn_managed_authorized_def spawn_authorized_def spawn_thread_def Let_def
    split: sum.splits prod.splits)

lemma direct_spawn: "egress_proxy_plan bd c (cc_sandbox_policy cmd) = None \<Longrightarrow> with_egress bd so cmd hosts c = Inr (cmd, c, False)"
  by (simp add: with_egress_def)

lemma landlock_build:
  assumes "bd_target bd = TargetLinux" "bd_landlock_feature bd" "bd_landlock_is_supported bd"
  shows "best_available_sandbox bd policy = landlock_sandbox (bd_mesh bd) (bd_crate bd) (bd_landlock_os bd) (landlock_with_policy policy)"
    "egress_proxy_plan bd c policy = None"
  using assms by (simp_all add: egress_proxy_plan_def best_available_sandbox_def landlock_sandbox_def egress_proxy_plan_for_def
    loopback_net_enforceable_def split: option.splits)

text \<open>C3. On Linux with Landlock a managed child stays in its grant. A child started for a command on an unlimited thread runs
  the command's own program and arguments, is never behind a proxy, and on every axis its caveats restrict it stays
  within the granted roots and the declared closure: what it may write, create and remove, what it may read and
  execute, on every kernel that passes the probe, and what it may truncate and move between directories where the
  kernel knows these rights. With the network restricted it makes no internet or packet socket and no \<^verbatim>\<open>io_uring\<close>
  call, on every such kernel, and has no TCP right that the kernel knows.
\<close>

theorem linux_child_stays_in_grant:
  assumes "bd_target bd = TargetLinux" "bd_landlock_feature bd" "bd_landlock_is_supported bd"
    "admission_documented (bd_mesh bd)" "crate_documented (bd_crate bd)" "sn_thread so = unlimited"
    "spawn_managed bd so cmd cx = (ls, r)" "l \<in> set ls"
  shows "ln_program l = cc_program cmd \<and> ln_args l = cc_args cmd \<and> (\<exists>ms. r = Inr ms \<and> \<not> ms_proxied ms) \<and>
    stays_in_grant (bd_landlock_os bd) (effective cx)
      (landlock_runtime_closure (bd_mesh bd) (bd_landlock_os bd) (landlock_with_policy (cc_sandbox_policy cmd)) (effective cx))
      (ln_limits l)"
proof -
  let ?sb = "landlock_with_policy (cc_sandbox_policy cmd)"
  note backend = landlock_build [OF assms(1-3)]
  obtain cmd' eff proxied ch where w: "with_egress bd so cmd [] (effective cx) = Inr (cmd', eff, proxied)"
    and sp: "spawn_authorized bd so cmd' cx eff ModelSelected = (ls, Inr ch)"
    and r: "r = Inr \<lparr>ms_pid = ch_child ch, ms_sandbox_kind = ch_sandbox_kind ch, ms_fence_id = ch_fence_id ch,
       ms_admitted = ch_admitted ch, ms_proxied = proxied\<rparr>"
    by (rule managed_started [OF assms(7,8)])
  from w have eqs: "cmd' = cmd" "eff = effective cx" "\<not> proxied" by (simp_all add: direct_spawn [OF backend(2)])
  note child = model_child [OF sp assms(8) refl refl, unfolded eqs backend(1)]
  obtain pre where pre: "pre = []" "(ln_program l, ln_args l) = wrap_argv pre (cc_program cmd) (cc_args cmd)"
    "apply_rules (bd_crate bd) (bd_landlock_os bd) ?sb (effective cx) None unlimited = (ln_limits l, Inr ())"
    using child(7) by (auto simp: landlock_sandbox_def landlock_apply_def assms(6))
  note admitted = admittedD [OF assms(4) child(4)]
  note granted = bounded_axes_are_granted [OF assms(5,3) pre(3) refl refl, of "bd_mesh bd"]
  have "closure_is_harness_disjoint (landlock_runtime_closure (bd_mesh bd) (bd_landlock_os bd) ?sb (effective cx))"
    using child(5) by (simp add: landlock_sandbox_def)
  note granted = granted [OF this]
  have "stays_in_grant (bd_landlock_os bd) (effective cx)
      (landlock_runtime_closure (bd_mesh bd) (bd_landlock_os bd) ?sb (effective cx)) (ln_limits l)"
    unfolding stays_in_grant_def using admitted granted unfolding landlock_sandbox_def by simp
  then show ?thesis using pre(1,2) r eqs(3) by (simp add: wrap_argv_def)
qed

lemma seatbelt_build:
  assumes "bd_target bd = TargetMacos" "bd_seatbelt_feature bd" "seatbelt_is_supported (bd_seatbelt_os bd)"
  shows "best_available_sandbox bd policy = seatbelt_sandbox (bd_mesh bd) (bd_ctors bd) (bd_seatbelt_os bd) policy"
  using assms by (simp add: best_available_sandbox_def)

text \<open>A network restriction that was admitted leaves structural grants only: sockets and services, no direct network.\<close>

lemma admitted_net_is_structural:
  assumes "seatbelt_net_projection m rs c audit \<notin> {Unbounded, UnknownScope}"
  shows "net_direct_denied c"
  using assms by (auto simp: seatbelt_net_projection_def split: Scope.splits if_splits)

lemma loopback_not_structural: "h \<in> set LOOPBACK_HOSTS \<Longrightarrow> \<not> is_structural_net_token h"
  by (auto simp: is_structural_net_token_def LOOPBACK_HOSTS_def MACH_GRANT_PREFIX_def)

lemma loopback_not_denied: "net_loopback_only c \<Longrightarrow> \<not> net_direct_denied c"
  using loopback_not_structural by (auto simp: net_loopback_only_def net_direct_denied_def list_ex_iff list_all_iff split: Scope.splits)

lemma restricted_engages:
  assumes "is_only (cav_fs_read c) \<or> is_only (cav_fs_write c) \<or> is_only (cav_exec c) \<or> net_direct_denied c"
  shows "effective_sandbox_kind h Seatbelt c = Seatbelt"
  using assms direct_denied_shape [of c]
  by (auto simp: effective_sandbox_kind_def is_only_def restricts_fs_def restricts_exec_def split: Scope.splits)

text \<open>C4. On macOS with Seatbelt a managed child with a restricted axis runs under a profile that confines it. It is launched
  as the wrapper at its absolute path with the profile for the effective caveats, the command's program and its
  arguments; an admitted network restriction leaves no direct network; and no child is ever started behind the egress
  proxy, since the loopback fence of a proxied child is not an authority that admission accepts.
\<close>

theorem mac_child_stays_in_grant:
  assumes "bd_target bd = TargetMacos" "bd_seatbelt_feature bd" "seatbelt_is_supported (bd_seatbelt_os bd)"
    "admission_documented (bd_mesh bd)" "spawn_managed bd so cmd cx = (ls, r)" "l \<in> set ls"
  shows "let c = effective cx
    in (\<exists>ms. r = Inr ms \<and> \<not> ms_proxied ms) \<and> (is_only (cav_net c) \<longrightarrow> net_direct_denied c) \<and>
      (if is_only (cav_fs_read c) \<or> is_only (cav_fs_write c) \<or> is_only (cav_exec c) \<or> is_only (cav_net c)
       then \<exists>profile. ln_program l = SANDBOX_EXEC \<and> ln_args l = [''-p'', profile, cc_program cmd] @ cc_args cmd \<and>
         profile_confines (bd_seatbelt_os bd) (cc_sandbox_policy cmd) c profile
       else ln_program l = cc_program cmd \<and> ln_args l = cc_args cmd)"
proof -
  note backend = seatbelt_build [OF assms(1-3)]
  obtain cmd' eff proxied ch where w: "with_egress bd so cmd [] (effective cx) = Inr (cmd', eff, proxied)"
    and sp: "spawn_authorized bd so cmd' cx eff ModelSelected = (ls, Inr ch)"
    and r: "r = Inr \<lparr>ms_pid = ch_child ch, ms_sandbox_kind = ch_sandbox_kind ch, ms_fence_id = ch_fence_id ch,
       ms_admitted = ch_admitted ch, ms_proxied = proxied\<rparr>"
    by (rule managed_started [OF assms(5,6)])
  note child = model_child [OF sp assms(6) refl refl, unfolded backend]
  have net: "net_direct_denied eff" if "is_only (cav_net eff)"
    using admittedD(4) [OF assms(4) child(4) that]
    by (intro admitted_net_is_structural) (auto simp: seatbelt_sandbox_def seatbelt_resolved_authority_def Let_def)
  have direct: "egress_proxy_plan bd (effective cx) (cc_sandbox_policy cmd) = None"
  proof (rule ccontr)
    assume "\<not> ?thesis"
    then obtain hosts fenced where "egress_proxy_plan bd (effective cx) (cc_sandbox_policy cmd) = Some (hosts, fenced)" by auto
    with w have "eff = loopback_fenced_caveats (effective cx)"
      by (auto simp: with_egress_def egress_proxy_plan_def elim!: egress_plan_cases split: sum.splits)
    then have "net_loopback_only eff" by (simp add: fenced_loopback_only)
    moreover from this have "is_only (cav_net eff)" by (auto simp: net_loopback_only_def is_only_def)
    ultimately show False using net loopback_not_denied by blast
  qed
  from w have eqs: "cmd' = cmd" "eff = effective cx" "\<not> proxied" by (simp_all add: direct_spawn [OF direct])
  obtain pre where pre: "seatbelt_command_prefix (bd_seatbelt_os bd) (cc_sandbox_policy cmd) (effective cx) = Inr pre"
    "(ln_program l, ln_args l) = wrap_argv pre (cc_program cmd) (cc_args cmd)"
    using child(7) by (auto simp: seatbelt_sandbox_def eqs)
  show ?thesis
  proof (cases "is_only (cav_fs_read eff) \<or> is_only (cav_fs_write eff) \<or> is_only (cav_exec eff) \<or> is_only (cav_net eff)")
    case True
    with net have "effective_sandbox_kind (bd_host bd) Seatbelt eff = Seatbelt" using restricted_engages by blast
    with seatbelt_child_is_fenced [OF pre(1), of "bd_host bd"] obtain profile where
      "pre = [SANDBOX_EXEC, ''-p'', profile]" "profile_confines (bd_seatbelt_os bd) (cc_sandbox_policy cmd) eff profile"
      by (auto simp: eqs)
    with pre(2) True net r eqs show ?thesis by (auto simp: Let_def wrap_argv_def)
  next
    case False
    then have "effective_sandbox_kind (bd_host bd) Seatbelt eff \<noteq> Seatbelt"
      by (auto simp: effective_sandbox_kind_def is_only_def scope_shape_defs)
    with prefix_bare [OF pre(1), of "bd_host bd"] have "pre = []" by (simp add: eqs)
    with pre(2) False net r eqs show ?thesis by (auto simp: Let_def wrap_argv_def)
  qed
qed

subsection \<open>The trusted worker runs from the image it was checked on\<close>

lemma filter_btree_insert: "filter (\<lambda>p. p \<noteq> x) (btree_insert x xs) = filter (\<lambda>p. p \<noteq> x) xs"
proof -
  have "filter (\<lambda>p. p \<noteq> x) (insort x xs) = filter (\<lambda>p. p \<noteq> x) xs" by (induction xs) simp_all
  then show ?thesis by (simp add: btree_insert_def)
qed

lemma worker_caveats:
  assumes "trusted_worker_closure so Landlock TrustedWorker program = Inr closure"
  shows "cav_net (derive_mechanism_caveats c closure) = cav_net c" "cav_fs_write (derive_mechanism_caveats c closure) = cav_fs_write c"
    "scope_remove program (cav_exec (derive_mechanism_caveats c closure)) = scope_remove program (cav_exec c)"
    "is_only (cav_exec (derive_mechanism_caveats c closure)) = is_only (cav_exec c)"
proof -
  from assms have "rc_exec closure = [program]"
    by (auto simp: trusted_worker_closure_def with_exec_def with_fs_read_def closure_empty_def btree_insert_def split: sum.splits)
  then show "cav_net (derive_mechanism_caveats c closure) = cav_net c" "cav_fs_write (derive_mechanism_caveats c closure) = cav_fs_write c"
    "scope_remove program (cav_exec (derive_mechanism_caveats c closure)) = scope_remove program (cav_exec c)"
    "is_only (cav_exec (derive_mechanism_caveats c closure)) = is_only (cav_exec c)"
    by (cases "cav_exec c"; simp add: derive_mechanism_caveats_def extend_only_def scope_remove_def filter_btree_insert is_only_def)+
qed

lemma worker_started:
  assumes "worker_spawn bd so marks w cx nonce cwd = (ls, r)" "l \<in> set ls" "\<not> is_unbridled marks"
  obtains executable fd ch where "worker_executable so = Inr executable" "sn_socket_pair so = Inr fd"
    "worker_admissible bd so (worker_command bd w executable nonce cwd fd) (effective cx) = Inr ()"
    "spawn_authorized bd so (worker_command bd w executable nonce cwd fd) cx (effective cx) TrustedWorker = (ls, Inr ch)"
    "r = Inr \<lparr>wc_child = ch_child ch, wc_sandbox_kind = ch_sandbox_kind ch, wc_control = Some \<lparr>tw_stream = fd, tw_nonce = nonce,
       tw_caveats = effective cx, tw_strength_floor = strength_floor cx\<rparr>\<rparr>"
  using assms
  by (fastforce simp: worker_spawn_def spawn_supported_def worker_spawn_authorized_def spawn_authorized_def spawn_thread_def Let_def
    split: sum.splits prod.splits if_splits)

lemma held_image:
  assumes "spawn_image bd so cmd TrustedWorker Landlock = Inr (Some img)"
  shows "wi_is_file (wk_file img) = Inr True"
    "\<exists>parent name. path_parent (components (wk_program img)) = Some parent \<and> path_file_name (components (wk_program img)) = Some name \<and>
       sn_openat so parent name = Inr (wk_file img)"
proof -
  obtain cprog where "canonical_closure_program so (cc_program cmd) = Inr cprog"
    using assms by (auto simp: spawn_image_def worker_image_bind_def split: sum.splits if_splits)
  then show "wi_is_file (wk_file img) = Inr True"
    "\<exists>parent name. path_parent (components (wk_program img)) = Some parent \<and> path_file_name (components (wk_program img)) = Some name \<and>
       sn_openat so parent name = Inr (wk_file img)"
    using assms by (auto simp: spawn_image_def worker_image_bind_def open_image_def split: sum.splits option.splits if_splits)
qed

text \<open>The plan of a worker on Linux, and the limits its launch carries.\<close>

lemma worker_plan:
  assumes "bd_target bd = TargetLinux" "bd_landlock_feature bd" "bd_landlock_is_supported bd" "sn_thread so = unlimited"
    "spawn_authorized bd so cmd cx eff TrustedWorker = (ls, r)" "l \<in> set ls"
  obtains img c where "spawn_image bd so cmd TrustedWorker Landlock = Inr (Some img)"
    "ln_program l = ''/proc/self/fd/'' @ decimal (wk_fd img)" "ln_arg0 l = Some (wk_program img)" "ln_args l = cc_args cmd"
    "ln_env l = build_env (cc_envs cmd)"
    "scope_remove (wk_program img) (cav_exec c) = scope_remove (wk_program img) (cav_exec eff)" "is_only (cav_exec c) = is_only (cav_exec eff)"
    "apply_with_worker (bd_crate bd) (bd_landlock_os bd) (landlock_with_policy (cc_sandbox_policy cmd)) c (wk_program img) (wk_file img)
       unlimited = (ln_limits l, Inr ())"
proof -
  obtain pl operand limits where p: "plan_spawn bd so cmd cx eff TrustedWorker = Inr pl"
      "(case pl_image pl of Some img \<Rightarrow> exec_operand bd img | None \<Rightarrow> Inr (cc_program cmd)) = Inr operand"
      "apply_fence pl (sn_thread so) = (limits, Inr ())" "l = launch_of cmd pl operand limits"
    by (rule spawn_started [OF assms(5,6)])
  note plan = plan_spawn_Inr [OF p(1)]
  have sx: "pl_sandbox pl = landlock_sandbox (bd_mesh bd) (bd_crate bd) (bd_landlock_os bd) (landlock_with_policy (cc_sandbox_policy cmd))"
    using plan(2) by (simp add: spawn_sandbox_def landlock_build [OF assms(1-3)])
  then have kind: "sx_kind (pl_sandbox pl) = Landlock" and bare: "pl_prefix pl = []"
    using plan(6) by (simp_all add: landlock_sandbox_def)
  obtain img where img: "pl_image pl = Some img"
    using plan(5) kind by (cases "worker_image_bind bd so Landlock (cc_program cmd)") (auto simp: spawn_image_def dest: sym)
  obtain closure where cl: "trusted_worker_closure so Landlock TrustedWorker (wk_program img) = Inr closure"
    "af_mechanism_caveats (pl_admitted pl) = derive_mechanism_caveats eff closure"
    using plan(7) kind img by (auto simp: spawn_admit_def admit_fence_Inr Let_def)
  have held: "spawn_image bd so cmd TrustedWorker Landlock = Inr (Some img)" using plan(5) kind img by simp
  show ?thesis
    using p(2-4) held worker_caveats(3,4) [OF cl(1), of eff]
    by (intro that [of img "derive_mechanism_caveats eff closure"])
      (auto simp: launch_of_def wrap_argv_def bare img exec_operand_def assms(1,4) apply_fence_def sx landlock_sandbox_def cl(2))
qed

text \<open>C6. A worker runs from the image it was checked on. On Linux with Landlock a started worker is executed through the held
  descriptor of a regular file opened under its canonical path, with the worker's own arguments and the nonce as its
  whole environment; when its file system grants are restricted, unprivileged user namespaces are off; and when its
  exec grant is restricted it may execute the object behind the descriptor and what the other grants resolve to: a
  grant of the name alone, which could since have been replaced, adds nothing. The control channel carries the
  caveats of the context.
\<close>

theorem worker_runs_held_image:
  assumes "bd_target bd = TargetLinux" "bd_landlock_feature bd" "bd_landlock_is_supported bd" "crate_documented (bd_crate bd)"
    "sn_thread so = unlimited" "worker_spawn bd so marks w cx nonce cwd = (ls, r)" "l \<in> set ls" "\<not> is_unbridled marks"
  shows "\<exists>(img :: WorkerImage) child. ln_program l = ''/proc/self/fd/'' @ decimal (wk_fd img) \<and> ln_arg0 l = Some (wk_program img) \<and>
      ln_args l = [''--agent-bridle-worker'', ''brush''] \<and> ln_env l = [(''AGENT_BRIDLE_WORKER_NONCE'', nonce)] \<and>
      wi_is_file (wk_file img) = Inr True \<and>
      (\<exists>parent name. path_parent (components (wk_program img)) = Some parent \<and> path_file_name (components (wk_program img)) = Some name \<and>
         sn_openat so parent name = Inr (wk_file img)) \<and>
      (restricts_fs (effective cx) \<longrightarrow> linux_user_namespaces_hardened so) \<and>
      (\<forall>target. thread_allows (bd_landlock_os bd) (ln_limits l) Execute target \<longleftrightarrow>
         (is_only (cav_exec (effective cx)) \<longrightarrow> prefix (wi_object (wk_file img)) target \<or>
           (\<exists>s\<in>set (exec_roots (bd_landlock_os bd) (landlock_with_policy (sw_policy w))
               ((effective cx)\<lparr>cav_exec := scope_remove (wk_program img) (cav_exec (effective cx))\<rparr>)). beneath (bd_landlock_os bd) s target))) \<and>
      r = Inr child \<and> map_option tw_caveats (wc_control child) = Some (effective cx)"
proof -
  note backend = landlock_build [OF assms(1-3)]
  obtain executable fd ch where w: "worker_admissible bd so (worker_command bd w executable nonce cwd fd) (effective cx) = Inr ()"
    "spawn_authorized bd so (worker_command bd w executable nonce cwd fd) cx (effective cx) TrustedWorker = (ls, Inr ch)"
    "r = Inr \<lparr>wc_child = ch_child ch, wc_sandbox_kind = ch_sandbox_kind ch, wc_control = Some \<lparr>tw_stream = fd, tw_nonce = nonce,
       tw_caveats = effective cx, tw_strength_floor = strength_floor cx\<rparr>\<rparr>"
    by (rule worker_started [OF assms(6-8)])
  let ?cmd = "worker_command bd w executable nonce cwd fd"
  let ?sb = "landlock_with_policy (sw_policy w)"
  have cmd: "cc_sandbox_policy ?cmd = sw_policy w" "cc_args ?cmd = [''--agent-bridle-worker'', ''brush'']"
    "cc_envs ?cmd = [(''AGENT_BRIDLE_WORKER_NONCE'', nonce)]"
    by (cases "sw_kind w"; simp add: worker_command_def command_sandbox_policy_def command_current_dir_def command_env_def command_args_def
      command_new_def worker_kind_args_def)+
  obtain img c where held: "spawn_image bd so ?cmd TrustedWorker Landlock = Inr (Some img)"
    and run: "ln_program l = ''/proc/self/fd/'' @ decimal (wk_fd img)" "ln_arg0 l = Some (wk_program img)" "ln_args l = cc_args ?cmd"
      "ln_env l = build_env (cc_envs ?cmd)"
    and c: "scope_remove (wk_program img) (cav_exec c) = scope_remove (wk_program img) (cav_exec (effective cx))"
      "is_only (cav_exec c) = is_only (cav_exec (effective cx))"
    and fenced: "apply_with_worker (bd_crate bd) (bd_landlock_os bd) (landlock_with_policy (cc_sandbox_policy ?cmd)) c (wk_program img)
      (wk_file img) unlimited = (ln_limits l, Inr ())"
    by (rule worker_plan [OF assms(1-3,5) w(2) assms(7)])
  have exec: "thread_allows (bd_landlock_os bd) (ln_limits l) Execute target \<longleftrightarrow>
      (is_only (cav_exec (effective cx)) \<longrightarrow> prefix (wi_object (wk_file img)) target \<or>
        (\<exists>s\<in>set (exec_roots (bd_landlock_os bd) ?sb
            ((effective cx)\<lparr>cav_exec := scope_remove (wk_program img) (cav_exec (effective cx))\<rparr>)). beneath (bd_landlock_os bd) s target))"
    for target
    by (simp add: worker_exception_exact(1) [OF assms(4) fenced supported_knows(1) [OF assms(4,3)]] cmd c handles_execute_def landlock_with_policy_def exec_roots_def)
  have hard: "restricts_fs (effective cx) \<longrightarrow> linux_user_namespaces_hardened so"
    using w(1) by (auto simp: worker_admissible_def assms(1) backend cmd landlock_sandbox_def effective_sandbox_kind_def split: if_splits)
  show ?thesis
    by (rule exI [of _ img]) (use hard run exec w(3) held_image [OF held] in \<open>simp add: cmd build_env_def\<close>)
qed

subsection \<open>Concrete builds\<close>

definition strict_mesh :: mesh where
  "strict_mesh = toy_mesh\<lparr>mesh_admit := \<lambda>resolved c _.
     if list_all (\<lambda>(scope, axis). is_only scope \<longrightarrow> axis \<notin> {Unbounded, UnknownScope})
          [(cav_fs_read c, ra_fs_read resolved), (cav_fs_write c, ra_fs_write resolved), (cav_exec c, ra_exec resolved),
           (cav_net c, ra_net resolved)]
     then Admit else Reject Axis_Net RelUnknown\<rparr>"

lemma strict_mesh_documented: "admission_documented strict_mesh"
  by (simp add: admission_documented_def strict_mesh_def split: if_splits)

definition strict_ctors :: scope_ctors where
  "strict_ctors =
     \<lparr>rs_concrete = \<lambda>xs. Bounded xs [], rs_class = \<lambda>k. Bounded [] [k],
      rs_from_delegated = \<lambda>c. \<lparr>ra_fs_read = mesh_from_scope toy_mesh (cav_fs_read c), ra_fs_write = mesh_from_scope toy_mesh (cav_fs_write c),
        ra_exec = mesh_from_scope toy_mesh (cav_exec c), ra_net = mesh_from_scope toy_mesh (cav_net c)\<rparr>,
      rs_empty_closure = \<lparr>ra_fs_read = Bounded [] [], ra_fs_write = Bounded [] [], ra_exec = Bounded [] [], ra_net = Bounded [] []\<rparr>\<rparr>"

definition sample_build :: "target \<Rightarrow> build" where
  "sample_build t = \<lparr>bd_target = t, bd_landlock_feature = True, bd_seatbelt_feature = True, bd_mesh = strict_mesh,
     bd_ctors = strict_ctors, bd_crate = linux_crate, bd_landlock_os = linux_os,
     bd_seatbelt_os = mac_os, bd_host = \<lparr>seatbelt_build = True, caller_is_root = False, landlock_net_probe = True\<rparr>\<rparr>"

definition sample_spawn_os :: "unit spawn_os" where
  "sample_spawn_os = \<lparr>sn_fs = linux_fs, sn_canonicalize = Inr, sn_acquire = \<lambda>_. None, sn_openat = \<lambda>_ _. Inl ''none'', sn_dupfd = Inl ''none'',
     sn_thread = unlimited, sn_spawn = \<lambda>_. Inr 42, sn_start_proxy = \<lambda>_ _. Inr ''127.0.0.1:1'', sn_pipe_end = \<lambda>_. None,
     sn_current_exe = Inl ''none'', sn_socket_pair = Inl ''none'', sn_read_to_string = \<lambda>_. Inl (Io OtherKind ''none'')\<rparr>"

definition sample_command :: "target \<Rightarrow> ConfinedCommand" where
  "sample_command t = (command_args [''status''] (command_new (sample_build t) ''git''))
     \<lparr>cc_stdin := Some PipedStdio, cc_stdout := Some PipedStdio, cc_stderr := Some PipedStdio, cc_sandbox_policy := linux_policy\<rparr>"

definition sample_cx :: "Caveats \<Rightarrow> ToolContext" where
  "sample_cx c = mint c NoSandbox FLOOR_DEFAULT"

definition mac_grant :: Caveats where
  "mac_grant = caveats_top\<lparr>cav_fs_write := ScopeOnly [''/work''], cav_net := ScopeOnly []\<rparr>"

abbreviation linux_spawn :: "launch list \<times> ManagedSpawn ToolResult" where
  "linux_spawn \<equiv> spawn_managed (sample_build TargetLinux) sample_spawn_os (sample_command TargetLinux) (sample_cx linux_grant)"

abbreviation mac_spawn :: "Caveats \<Rightarrow> launch list \<times> ManagedSpawn ToolResult" where
  "mac_spawn c \<equiv> spawn_managed (sample_build TargetMacos) sample_spawn_os (sample_command TargetMacos) (sample_cx c)"

lemma samples [simp]:
  "bd_target (sample_build t) = t" "bd_landlock_feature (sample_build t)" "landlock_is_supported linux_crate linux_os"
  "bd_seatbelt_feature (sample_build t)" "bd_mesh (sample_build t) = strict_mesh" "bd_crate (sample_build t) = linux_crate"
  "bd_landlock_os (sample_build t) = linux_os" "bd_seatbelt_os (sample_build t) = mac_os" "sn_thread sample_spawn_os = unlimited"
  "effective (sample_cx c) = c" "cc_program (sample_command t) = ''git''" "cc_args (sample_command t) = [''status'']"
  "cc_sandbox_policy (sample_command t) = linux_policy"
  by (simp_all add: linux_supported sample_build_def sample_spawn_os_def sample_cx_def mint_def sample_command_def command_args_def command_new_def)

theorem started_child_is_fenced_witness:
  "\<exists>l r. confined_spawn (sample_build TargetLinux) sample_spawn_os (sample_command TargetLinux) (sample_cx linux_grant) = ([l], r) \<and>
     exec_scope_allows (cav_exec linux_grant) ''git'' \<and> limits_grow unlimited (ln_limits l)"
proof -
  let ?run = "confined_spawn (sample_build TargetLinux) sample_spawn_os (sample_command TargetLinux) (sample_cx linux_grant)"
  have "fst ?run \<noteq> []" by code_simp
  then obtain l where l: "l \<in> set (fst ?run)" by (meson last_in_set)
  from started_child_is_fenced [OF prod.collapse [symmetric] l]
  have "fst ?run = [l] \<and> exec_scope_allows (cav_exec linux_grant) ''git'' \<and> limits_grow unlimited (ln_limits l)"
    by (simp add: Let_def)
  then show ?thesis by (metis prod.collapse)
qed

theorem linux_child_stays_in_grant_witness:
  "\<exists>l\<in>set (fst linux_spawn). ln_program l = ''git'' \<and> \<not> thread_allows linux_os (ln_limits l) Execute (components ''/opt/tools/x'') \<and>
     \<not> thread_tcp (ln_limits l) ConnectTcp"
proof -
  have "fst linux_spawn \<noteq> []" by code_simp
  then obtain l where l: "l \<in> set (fst linux_spawn)" by (meson last_in_set)
  have run: "ln_program l = ''git'' \<and> stays_in_grant linux_os linux_grant
      (landlock_runtime_closure strict_mesh linux_os (landlock_with_policy linux_policy) linux_grant) (ln_limits l)"
    using linux_child_stays_in_grant [OF _ _ _ _ _ _ prod.collapse [symmetric] l] strict_mesh_documented linux_crate_documented by simp
  have "\<not> in_closure linux_os (ra_exec (landlock_runtime_closure strict_mesh linux_os (landlock_with_policy linux_policy) linux_grant))
      (components ''/opt/tools/x'')" by code_simp
  moreover have "is_only (cav_exec linux_grant)" "is_only (cav_net linux_grant)" by (simp_all add: linux_grant_def is_only_def)
  ultimately have "\<not> thread_allows linux_os (ln_limits l) Execute (components ''/opt/tools/x'')" "\<not> thread_tcp (ln_limits l) ConnectTcp"
    using stays_in_grantD [OF conjunct2 [OF run]] by simp_all
  then show ?thesis using l run by (intro bexI [of _ l]) simp_all
qed

theorem mac_child_stays_in_grant_witness:
  "\<exists>l\<in>set (fst (mac_spawn mac_grant)). ln_program l = SANDBOX_EXEC \<and>
     (\<exists>profile. ln_args l = [''-p'', profile, ''git'', ''status''] \<and> \<not> profile_allows profile ''network-bind'' ''x'')"
proof -
  have "fst (mac_spawn mac_grant) \<noteq> []" by code_simp
  then obtain l where l: "l \<in> set (fst (mac_spawn mac_grant))" by (meson last_in_set)
  have only: "is_only (cav_net mac_grant)" "net_direct_denied mac_grant" by (simp_all add: mac_grant_def is_only_def net_direct_denied_def)
  have "seatbelt_is_supported mac_os" by code_simp
  then have "\<exists>profile. ln_program l = SANDBOX_EXEC \<and> ln_args l = [''-p'', profile, ''git'', ''status''] \<and>
      profile_confines mac_os linux_policy mac_grant profile"
    using mac_child_stays_in_grant [OF _ _ _ _ prod.collapse [symmetric] l] strict_mesh_documented only by (simp add: Let_def)
  then show ?thesis using l only(2) unfolding profile_confines_def by blast
qed

text \<open>A grant of a remote host is planned for the proxy on macOS, and the proxied child is then refused. And a pipe end that
  cannot be converted fails the asynchronous spawn after the child was started, which nothing then stops or reaps.
\<close>

lemma proxied_child_is_refused:
  "egress_proxy_plan (sample_build TargetMacos) remote_grant linux_policy \<noteq> None \<and> fst (mac_spawn remote_grant) = [] \<and>
   \<not> is_ok (snd (mac_spawn remote_grant))"
  by code_simp

lemma pipe_failure_leaves_child:
  "let run = spawn_tokio (sample_build TargetLinux) (sample_spawn_os\<lparr>sn_pipe_end := \<lambda>_. Some (Io OtherKind ''EMFILE'')\<rparr>)
       (sample_command TargetLinux) (sample_cx linux_grant)
   in fst run \<noteq> [] \<and> \<not> is_ok (snd run)"
  by code_simp

definition worker_spawn_os :: "unit spawn_os" where
  "worker_spawn_os = sample_spawn_os\<lparr>sn_openat := \<lambda>_ _. Inr \<lparr>wi_is_file = Inr True, wi_object = components ''/opt/w/worker''\<rparr>, sn_dupfd := Inr 7,
     sn_current_exe := Inr (components ''/opt/w/worker''), sn_socket_pair := Inr 3, sn_read_to_string := \<lambda>_. Inr ''0''\<rparr>"

definition no_marks :: process_marks where
  "no_marks = \<lparr>mark_unbridled = None, mark_human_gate = None\<rparr>"

abbreviation sample_worker :: "launch list \<times> SandboxedWorkerChild ToolResult" where
  "sample_worker \<equiv> worker_spawn (sample_build TargetLinux) worker_spawn_os no_marks ((worker_brush (sample_build TargetLinux))\<lparr>sw_policy := linux_policy\<rparr>)
     (sample_cx linux_grant) ''n0nce'' ''/work''"

theorem worker_runs_held_image_witness:
  "\<exists>l\<in>set (fst sample_worker). ln_env l = [(''AGENT_BRIDLE_WORKER_NONCE'', ''n0nce'')] \<and>
     ln_args l = [''--agent-bridle-worker'', ''brush''] \<and> (\<exists>fd. ln_program l = ''/proc/self/fd/'' @ decimal fd)"
proof -
  have "fst sample_worker \<noteq> []" by code_simp
  then obtain l where l: "l \<in> set (fst sample_worker)" by (meson last_in_set)
  have side: "sn_thread worker_spawn_os = unlimited" "\<not> is_unbridled no_marks"
    by (simp_all add: worker_spawn_os_def no_marks_def is_unbridled_def)
  have crate: "crate_documented (bd_crate (sample_build TargetLinux))" using linux_crate_documented by simp
  have supported: "bd_landlock_is_supported (sample_build TargetLinux)" by simp
  note worker_runs_held_image [OF samples(1,2) supported crate side(1) prod.collapse [symmetric] l side(2)]
  then show ?thesis using l by blast
qed

end
