(* ===== verification/Spec2Isabelle.thy ===== *)
theory Spec2Isabelle
  imports Tool_Registry Operator_Authz Admitted_Fence Local_Execution Proxy_Lifecycle Ceremony_Kernel Shell_Print Mcp_Frontend Confined_Spawn
begin

text \<open>
  \<^bold>\<open>Verification library of agent-bridle.\<close>

  \<^verbatim>\<open>agent-bridle\<close> is an object-capability leash for agent tools. A \<^emph>\<open>gate\<close> meets the authority a session was
  granted with the authority a tool declares and mints a \<^emph>\<open>tool context\<close>; every effect of a tool goes
  through that context. Sensitive calls owe a \<^emph>\<open>step-up\<close> gesture. A \<^emph>\<open>registry\<close> dispatches calls over shared,
  budgeted grants. Spawned children run behind an admitted \<^emph>\<open>fence\<close>; their output is a bounded event
  \<^emph>\<open>stream\<close> and their network, where one is granted by host name, a loopback \<^emph>\<open>egress proxy\<close>.

  \<^bold>\<open>The theories, and the code they model\<close> (paths under \<^verbatim>\<open>src/agent-bridle-core/src\<close> unless said otherwise).

  \<^item> \<open>Bridle_Prelude\<close>: machine integers, strings as UTF-8 byte sequences, results as sums, \<^verbatim>\<open>BTreeSet\<close> and
    \<^verbatim>\<open>BTreeMap\<close> as ascending lists, saturating arithmetic, and the lemmas about them.
  \<^item> \<open>Authority\<close>: \<^verbatim>\<open>error.rs\<close>; scopes and caveats of the mesh protocol, whose meet and order are parameters.
  \<^item> \<open>Sandbox_Scope\<close>: the scope predicates, Mach-service grants, egress plan and effective kind of \<^verbatim>\<open>sandbox.rs\<close>.
  \<^item> \<open>Enforcement_Report\<close>: \<^verbatim>\<open>report.rs\<close>, the per-axis report, the floors and the acceptance rule.
  \<^item> \<open>Tool_Context\<close>: \<^verbatim>\<open>context.rs\<close>, the mint, the exec, net and path checks and the mediated opens, over a
    record of what the file system answers.
  \<^item> \<open>Step_Up\<close>: \<^verbatim>\<open>step_up.rs\<close>, content addresses, challenges, the verifiers behind one locale, and the policy.
  \<^item> \<open>Leash_Gate\<close>: \<^verbatim>\<open>gate.rs\<close>, all entry points, and the compare-and-swap charge as an interleaving.
  \<^item> \<open>Tool_Registry\<close>: \<^verbatim>\<open>tool.rs\<close> and \<^verbatim>\<open>registry.rs\<close>, the builder, grants with shared cells, dispatch, and dispatches
    interleaved as a step relation that a dispatch run alone refines.
  \<^item> \<open>Ocap_Policy\<close> and \<open>Operator_Authz\<close>: \<^verbatim>\<open>policy.rs\<close> and \<^verbatim>\<open>operator.rs\<close>, verdicts, signed approvals, bindings,
    challenges and decisions; one locale gives payload injectivity for both.
  \<^item> \<open>Admitted_Fence\<close>: \<^verbatim>\<open>admitted.rs\<close>, \<^verbatim>\<open>admitted/named_root.rs\<close>, \<^verbatim>\<open>admitted/protected_roots.rs\<close>.
  \<^item> \<open>Execution_Contract\<close> and \<open>Execution_Stream\<close>: \<^verbatim>\<open>execution/contract.rs\<close> and \<^verbatim>\<open>execution/stream.rs\<close>, the limits and
    wire forms, and the bounded event queue over all histories of its operations.
  \<^item> \<open>Local_Execution\<close>: \<^verbatim>\<open>execution/local.rs\<close> and \<^verbatim>\<open>execution/tree.rs\<close>, tree control, terminals, start, and the
    drainer, timer, control and reaper threads as a step relation.
  \<^item> \<open>Ip_Screen\<close>: \<^verbatim>\<open>src/agent-bridle-tool-web/src/net_guard.rs\<close> and \<^verbatim>\<open>is_internal_ip\<close> of \<^verbatim>\<open>net_proxy.rs\<close>, with
    the address predicates of the standard library.
  \<^item> \<open>Std_Text\<close>: splitting, number and address parsing and printing and lossy UTF-8 of the standard library.
  \<^item> \<open>Egress_Proxy\<close>: the connection side of \<^verbatim>\<open>net_proxy.rs\<close>, from the request line to the audit record, as a list
    of effects over a script of what the sockets do; the refusal evidence.
  \<^item> \<open>Proxy_Lifecycle\<close>: the accept loop, the worker book and the teardown of \<^verbatim>\<open>net_proxy.rs\<close> as a step relation.

  \<^item> \<open>Ceremony_Kernel\<close>: \<^verbatim>\<open>src/agent-bridle-ceremony/src\<close> (\<^verbatim>\<open>authority.rs\<close>, \<^verbatim>\<open>boundary.rs\<close>, \<^verbatim>\<open>chain_store.rs\<close>,
    \<^verbatim>\<open>signed_object.rs\<close>): the authority lattice, the boundary of the shell, the append-only chain with its
    checkpoint, and the verification of signed objects over records of codecs and primitives.
  \<^item> \<open>Bridle_Config\<close>: \<^verbatim>\<open>config.rs\<close>, \<^verbatim>\<open>unbridle.rs\<close> and \<^verbatim>\<open>src/agent-bridle-config/src/lib.rs\<close>, the policies with
    their defaults, the process markers, and the layered loader.
  \<^item> \<open>Tool_Envelope\<close>: \<^verbatim>\<open>envelope.rs\<close> and \<^verbatim>\<open>envelope/execution.rs\<close>, the result of a tool call.
  \<^item> \<open>Shell_Parse\<close> and \<open>Shell_Print\<close>: \<^verbatim>\<open>parse.rs\<close> of \<^verbatim>\<open>src/agent-bridle-tool-shell/src\<close>, the parser of the safe
    subset character by character, and a printer that is its inverse.
  \<^item> \<open>Shell_Glob\<close>, \<open>Shell_Tool\<close> and \<open>Shell_Run\<close>: \<^verbatim>\<open>shell_tool.rs\<close> of the same crate. The first holds the matcher,
    the bounded walk and variable expansion; the second the arguments, the lowering, the admission and the
    and/or scripts over an abstract spawner; the third the operating-system spawner, with pipelines as lists
    of effects, the capped readers and the polling loop.
  \<^item> \<open>Mcp_Frontend\<close>: \<^verbatim>\<open>src/agent-bridle-mcp/src\<close> and the registry of \<^verbatim>\<open>src/agent-bridle/src/lib.rs\<close>, from the
    environment and the bytes on standard input to the dispatches of a session.
  \<^item> \<open>Seatbelt_Profile\<close>: the macOS backend of \<^verbatim>\<open>sandbox.rs\<close>, its profile text and the wrapper prefix, with a
    reader of the profile language as the reference.
  \<^item> \<open>Landlock_Rules\<close>: the Linux backend of \<^verbatim>\<open>sandbox.rs\<close>, the ruleset and the egress filter it installs, the
    resolution of exec grants, its projection and its closure, over what the kernel does with a ruleset.
  \<^item> \<open>Confined_Spawn\<close>: \<^verbatim>\<open>spawn.rs\<close> and \<^verbatim>\<open>spawn/worker_image.rs\<close> with the \<^verbatim>\<open>Sandbox\<close> trait, from the command to the
    launch of a child, of a child behind the proxy and of the trusted worker; one locale states what a backend
    keeps, and each backend is an interpretation of it.

  \<^bold>\<open>What is shown.\<close> Authority: a minted context lets nothing through that the grant or the declaration alone
  would not; path checks are containment of resolved paths; a floor once asked for is never weakened and
  no restricted axis runs below it. Step-up: discharges are single use, bound to their ceremony up to a
  digest collision, and every failure refuses. Budgets: charging never overspends under any interleaving,
  refunds are exact, and what a grant has left, holds and spent is what it was minted with. Policies:
  equal signing payloads mean equal authority. Fences: what is applied is what was admitted, within the
  declared closure. Streams: every consumer sees a word of the event protocol, within the byte bound,
  with drops counted exactly and the terminal delivered. Execution: an exit that \<^verbatim>\<open>wait\<close> returns is
  quiescent and final. Egress: only allow-listed hosts at guarded addresses are dialled, the request head
  is rewritten, the audit record is honest, the worker cap holds, and evidence reported as complete is
  complete and frozen. Ceremony: candidates resolve to their greatest lower bound, the chain refines an
  append-only spine with its answers, and a sealed value is the one whose bytes were signed. Configuration: each field holds
  the value of the highest layer that sets it. Shell: dynamic
  constructs are refused, accepted scripts are well formed and read back when printed, globs see only
  granted directories, only admitted scripts reach a spawner, every child runs a granted program behind the
  reported sandbox, with the environment of its invocation and nothing of the host's, output is the exact
  prefix up to its cap, and a pipeline ends by its deadline, unless a descendant keeps a captured pipe open, with no
  child left behind unless a status poll fails. Front end: frames are the lines of the input however it is
  chunked, every request is answered, the escape hatch needs its keys and widens nothing, and over a whole session every child is within the configured grant. Backends: the generated
  Seatbelt profile and, for the rights that the running kernel knows, the installed Landlock rules mean exactly the
  caveats, and an exec grant resolves to
  granted programs and trusted twins of one. Spawn: every started child runs a granted program behind an
  admitted fence that is in force; with what the admission library documents, a child on Linux and on macOS
  stays within its grant on every restricted axis, and a worker runs from the image it was checked on. Where a comment of the code promises more than the code does, the theorem states
  what holds and the counterexample is a lemma beside it.

  \<^bold>\<open>Bounds and fuel.\<close> No definition uses fuel: loops recurse on their input with a termination proof, the
  polling loop of a pipeline is a partial function whose end is proved from the deadline, a reader of a pipe that
  stays open has no value, and concurrent
  code is a step relation with no bound on the number of steps. Counters are words of their
  Rust width; where a statement needs that one has not wrapped, the number of events is bounded by \<open>2 ^ 64\<close>
  in its hypotheses. \<^verbatim>\<open>usize\<close> lengths are natural numbers.

  \<^bold>\<open>Parameters.\<close> Code that is not in the repository is an argument: the caveat calculus and admission of
  \<^verbatim>\<open>agent-mesh-protocol\<close>, digests and signatures, JSON and TOML, and the operating system (files, process
  exit, sockets, clock, DNS).

  \<^bold>\<open>Not modelled.\<close> The AppContainer backend and \<^verbatim>\<open>rootfs.rs\<close> are system-call sequences; which Landlock rights the kernel
  knows is a parameter, and so is the probe of the network rights; the shell inspection reports over the syntax tree of a parser that is
  not in the repository; the web client drives an HTTP library; the output observer of the shell only presents
  what is captured anyway; the text of the start banner is only shown.
\<close>

end
